(* ===== verification/Prelude.thy ===== *)
theory Prelude
  imports Main "HOL-Library.AList"
begin

text \<open>
  Shared vocabulary of the development.

  Numbers. Heights, byte counts, zatoshi amounts and clock readings of the TypeScript
  code are whole numbers far below \<open>2^53\<close>, so \<open>number\<close> and \<open>bigint\<close> are both \<open>int\<close> here;
  a value the code may not have (\<open>null\<close>, \<open>undefined\<close>) is an \<open>option\<close>.
  Clock readings are arguments of the operations that read \<open>Date.now()\<close>.

  Results. Every throw of the source is an \<open>Inl\<close>, every value an \<open>Inr\<close>.
\<close>

text \<open>Collections of unfolding and rewriting facts that the component theories extend.\<close>

named_theorems gate_defs "definitions of the fail-closed gates"
named_theorems ledger_defs "definitions of the ledger statements"
named_theorems frame_simps "fields an operation leaves alone"

subsection \<open>Networks\<close>

text \<open>\<open>FaucetNetwork\<close> of \<open>src/src/lib/network.ts\<close>.\<close>

datatype network = Taz | Ctaz

definition NETWORKS :: "network list" where
  "NETWORKS = [Taz, Ctaz]"

definition DEFAULT_NETWORK :: network where
  "DEFAULT_NETWORK = Taz"

text \<open>\<open>parseNetwork\<close>: exactly the two names, anything else is \<open>null\<close>.\<close>

definition parse_network :: "string \<Rightarrow> network option" where
  "parse_network raw =
     (if raw = ''taz'' then Some Taz else if raw = ''ctaz'' then Some Ctaz else None)"

fun network_name :: "network \<Rightarrow> string" where
  "network_name Taz = ''taz''"
| "network_name Ctaz = ''ctaz''"

lemma parse_network_name [simp]: "parse_network (network_name n) = Some n"
  by (cases n) (simp_all add: parse_network_def)

lemma parse_network_Some [dest]: "parse_network raw = Some n \<Longrightarrow> raw = network_name n"
  by (auto simp: parse_network_def split: if_splits)

lemma NETWORKS_all [simp]: "n \<in> set NETWORKS"
  by (cases n) (simp_all add: NETWORKS_def)

text \<open>Iteration order is display order, the default network first.\<close>

instantiation network :: linorder
begin

definition less_eq_network :: "network \<Rightarrow> network \<Rightarrow> bool" where
  "less_eq_network m n = (m = Taz \<or> n = Ctaz)"

definition less_network :: "network \<Rightarrow> network \<Rightarrow> bool" where
  "less_network m n = (m = Taz \<and> n = Ctaz)"

instance
  by standard (auto simp: less_eq_network_def less_network_def intro: network.exhaust)

end

lemma NETWORKS_sorted: "sorted NETWORKS \<and> hd NETWORKS = DEFAULT_NETWORK"
  by (simp add: NETWORKS_def DEFAULT_NETWORK_def less_eq_network_def)

subsection \<open>JavaScript idioms\<close>

text \<open>A nullable string is truthy when it is present and not empty.\<close>

fun truthy :: "string option \<Rightarrow> bool" where
  "truthy None = False"
| "truthy (Some s) = (s \<noteq> [])"

text \<open>\<open>x ?? d\<close>.\<close>

fun nullish :: "'a option \<Rightarrow> 'a \<Rightarrow> 'a" where
  "nullish None d = d"
| "nullish (Some x) d = x"

text \<open>\<open>Math.ceil(a / b)\<close> and \<open>Math.round(a / b)\<close> for whole \<open>a\<close> and positive whole \<open>b\<close>:
  \<open>Math.round\<close> takes a half up.\<close>

definition ceil_div :: "int \<Rightarrow> int \<Rightarrow> int" where
  "ceil_div a b = - ((- a) div b)"

definition round_div :: "int \<Rightarrow> int \<Rightarrow> int" where
  "round_div a b = (2 * a + b) div (2 * b)"

lemma ceil_div_ge:
  assumes "0 < b"
  shows "a \<le> b * ceil_div a b"
proof -
  have "b * ((- a) div b) = - a - (- a) mod b"
    by (rule minus_mod_eq_mult_div [symmetric])
  moreover have "0 \<le> (- a) mod b" using assms by simp
  moreover have "b * ceil_div a b = - (b * ((- a) div b))" by (simp add: ceil_div_def)
  ultimately show ?thesis by linarith
qed

lemma ceil_div_less:
  assumes "0 < b"
  shows "b * ceil_div a b < a + b"
proof -
  have "b * ((- a) div b) = - a - (- a) mod b"
    by (rule minus_mod_eq_mult_div [symmetric])
  moreover have "(- a) mod b < b" using assms by simp
  moreover have "b * ceil_div a b = - (b * ((- a) div b))" by (simp add: ceil_div_def)
  ultimately show ?thesis by linarith
qed

subsection \<open>Lists\<close>

text \<open>
  \<open>prune\<close> of a list of records in arrival order: \<open>while (l.length && old(l[0])) l.shift()\<close>.
\<close>

definition shift_while :: "('a \<Rightarrow> bool) \<Rightarrow> 'a list \<Rightarrow> 'a list" where
  "shift_while old l = dropWhile old l"

lemma shift_while_sorted:
  fixes key :: "'a \<Rightarrow> int"
  assumes "sorted (map key l)"
  shows "shift_while (\<lambda>x. key x < c) l = filter (\<lambda>x. c \<le> key x) l"
  using assms
proof (induction l)
  case Nil
  then show ?case by (simp add: shift_while_def)
next
  case (Cons x l)
  have all: "\<forall>y\<in>set l. key x \<le> key y" using Cons.prems by simp
  show ?case
  proof (cases "key x < c")
    case True
    with Cons show ?thesis by (simp add: shift_while_def)
  next
    case False
    with all have "\<forall>y\<in>set l. c \<le> key y" by fastforce
    with False show ?thesis by (simp add: shift_while_def)
  qed
qed

lemma set_shift_while: "set (shift_while p l) \<subseteq> set l"
  by (auto simp: shift_while_def dest: set_dropWhileD)

lemma sum_list_filter_mono:
  fixes w :: "'a \<Rightarrow> int"
  assumes "\<And>x. x \<in> set l \<Longrightarrow> 0 \<le> w x" and "\<And>x. x \<in> set l \<Longrightarrow> P x \<Longrightarrow> Q x"
  shows "sum_list (map w (filter P l)) \<le> sum_list (map w (filter Q l))"
  using assms
proof (induction l)
  case Nil
  then show ?case by simp
next
  case (Cons x l)
  have IH: "sum_list (map w (filter P l)) \<le> sum_list (map w (filter Q l))"
    using Cons by simp
  have w: "0 \<le> w x" and pq: "P x \<Longrightarrow> Q x" using Cons.prems by simp_all
  from IH w pq show ?case by (cases "P x"; cases "Q x") simp_all
qed

lemma sum_list_filter_nonneg:
  fixes w :: "'a \<Rightarrow> int"
  assumes "\<And>x. x \<in> set l \<Longrightarrow> 0 \<le> w x"
  shows "0 \<le> sum_list (map w (filter P l))"
  by (rule sum_list_nonneg) (use assms in auto)

lemma length_filter_sum: "int (length (filter P l)) = sum_list (map (\<lambda>_. 1) (filter P l))"
  by (induction l) simp_all

end
