(* ===== verification/Ledger.thy ===== *)
theory Ledger
  imports Prelude
begin

text \<open>
  The claims ledger: \<open>src/src/lib/db/sql.ts\<close> (the SQL statements) and
  \<open>src/src/lib/db/index.ts\<close> (the operations the claim route calls).

  A table is a list of rows in insertion order. Each SQL statement is one definition and is
  atomic, as the statement is in SQLite; \<open>NULL\<close> is \<open>None\<close> and never equals a parameter.
  Times are whole unix seconds. The salted fingerprint of an address is the parameter \<open>fp\<close>.
\<close>

subsection \<open>Rows and tables\<close>

datatype claim_status = Pending | Sent | Failed

record claim =
  claim_id :: int
  address_hash :: string
  ip_hash :: string
  subnet_hash :: "string option"
  amount_zat :: int
  claim_txid :: "string option"
  status :: claim_status
  created_at :: int
  claim_network :: network

type_synonym utc_day = int

record ledger =
  claims :: "claim list"
  last_rowid :: int
  used_challenges :: "(string \<times> int) list"
  drip_days :: "((network \<times> utc_day) \<times> int) list"

text \<open>The answer of a driver to a statement that writes.\<close>

record run_result =
  changes :: int
  lastInsertRowid :: int

definition empty_ledger :: ledger where
  "empty_ledger = \<lparr>claims = [], last_rowid = 0, used_challenges = [], drip_days = []\<rparr>"

subsection \<open>The pending lease\<close>

definition PENDING_LEASE_MARGIN_SECONDS :: int where
  "PENDING_LEASE_MARGIN_SECONDS = 60"

definition pending_lease_seconds :: "int \<Rightarrow> int \<Rightarrow> int" where
  "pending_lease_seconds sendResidenceMs sendQueueMaxPending =
     ceil_div ((sendQueueMaxPending + 1) * sendResidenceMs) 1000 + PENDING_LEASE_MARGIN_SECONDS"

lemma pending_lease_covers_queue:
  "(sendQueueMaxPending + 1) * sendResidenceMs + 60000
     \<le> 1000 * pending_lease_seconds sendResidenceMs sendQueueMaxPending"
  using ceil_div_ge [of 1000 "(sendQueueMaxPending + 1) * sendResidenceMs"]
  by (simp add: pending_lease_seconds_def PENDING_LEASE_MARGIN_SECONDS_def)

subsection \<open>RESERVE\_SQL\<close>

text \<open>The named parameters of \<open>reserveParams\<close> and the three cut-offs it derives.\<close>

record reserve_opts =
  ro_address_hash :: string
  ro_ip_hash :: string
  ro_subnet_hash :: string
  ro_amount_zat :: int
  ro_now :: int
  ro_cooldown_seconds :: int
  ro_daily_cap_zat :: int
  ro_subnet_daily_max :: int
  ro_ip_daily_max :: int
  ro_network :: network
  ro_lease_seconds :: int

definition cooldown_cut :: "reserve_opts \<Rightarrow> int" where
  "cooldown_cut o' = ro_now o' - ro_cooldown_seconds o'"

definition lease_cut :: "reserve_opts \<Rightarrow> int" where
  "lease_cut o' = ro_now o' - ro_lease_seconds o'"

definition day_since :: "reserve_opts \<Rightarrow> int" where
  "day_since o' = ro_now o' - 86400"

text \<open>
  \<open>(status='sent' AND created_at > s) OR (status='pending' AND created_at > p)\<close> and the same
  with \<open>>=\<close>. A failed row is live in neither.
\<close>

definition live_after :: "int \<Rightarrow> int \<Rightarrow> claim \<Rightarrow> bool" where
  "live_after s p c =
     ((status c = Sent \<and> created_at c > s) \<or> (status c = Pending \<and> created_at c > p))"

definition live_from :: "int \<Rightarrow> int \<Rightarrow> claim \<Rightarrow> bool" where
  "live_from s p c =
     ((status c = Sent \<and> created_at c \<ge> s) \<or> (status c = Pending \<and> created_at c \<ge> p))"

definition address_blocked :: "reserve_opts \<Rightarrow> claim list \<Rightarrow> bool" where
  "address_blocked o' rows =
     list_ex (\<lambda>c. address_hash c = ro_address_hash o' \<and> claim_network c = ro_network o'
        \<and> live_after (cooldown_cut o') (lease_cut o') c) rows"

definition ip_live :: "reserve_opts \<Rightarrow> claim \<Rightarrow> bool" where
  "ip_live o' c = (ip_hash c = ro_ip_hash o' \<and> claim_network c = ro_network o'
     \<and> live_after (cooldown_cut o') (lease_cut o') c)"

definition ip_count :: "reserve_opts \<Rightarrow> claim list \<Rightarrow> int" where
  "ip_count o' rows = int (length (filter (ip_live o') rows))"

definition subnet_live :: "reserve_opts \<Rightarrow> claim \<Rightarrow> bool" where
  "subnet_live o' c = (subnet_hash c = Some (ro_subnet_hash o')
     \<and> live_from (day_since o') (lease_cut o') c)"

definition subnet_count :: "reserve_opts \<Rightarrow> claim list \<Rightarrow> int" where
  "subnet_count o' rows = int (length (filter (subnet_live o') rows))"

definition cap_live :: "reserve_opts \<Rightarrow> claim \<Rightarrow> bool" where
  "cap_live o' c = (claim_network c = ro_network o'
     \<and> live_from (day_since o') (lease_cut o') c)"

definition cap_sum :: "reserve_opts \<Rightarrow> claim list \<Rightarrow> int" where
  "cap_sum o' rows = sum_list (map amount_zat (filter (cap_live o') rows))"

definition reserve_admits :: "reserve_opts \<Rightarrow> claim list \<Rightarrow> bool" where
  "reserve_admits o' rows =
     (\<not> address_blocked o' rows
      \<and> (ro_ip_hash o' = '''' \<or> ip_count o' rows < ro_ip_daily_max o')
      \<and> (ro_subnet_hash o' = '''' \<or> subnet_count o' rows < ro_subnet_daily_max o')
      \<and> cap_sum o' rows + ro_amount_zat o' \<le> ro_daily_cap_zat o')"

definition reserve_row :: "reserve_opts \<Rightarrow> int \<Rightarrow> claim" where
  "reserve_row o' i =
     \<lparr>claim_id = i, address_hash = ro_address_hash o', ip_hash = ro_ip_hash o',
      subnet_hash = Some (ro_subnet_hash o'), amount_zat = ro_amount_zat o', claim_txid = None,
      status = Pending, created_at = ro_now o', claim_network = ro_network o'\<rparr>"

definition reserve_sql :: "reserve_opts \<Rightarrow> ledger \<Rightarrow> run_result \<times> ledger" where
  "reserve_sql o' l =
     (if reserve_admits o' (claims l)
      then let i = last_rowid l + 1
           in (\<lparr>changes = 1, lastInsertRowid = i\<rparr>,
               l\<lparr>claims := claims l @ [reserve_row o' i], last_rowid := i\<rparr>)
      else (\<lparr>changes = 0, lastInsertRowid = last_rowid l\<rparr>, l))"

subsection \<open>Retention\<close>

definition retention_cutoff :: "int \<Rightarrow> int \<Rightarrow> int \<Rightarrow> int" where
  "retention_cutoff lease now cooldown = now - max (max cooldown 86400) lease - 3600"

definition purge_sql :: "int \<Rightarrow> ledger \<Rightarrow> ledger" where
  "purge_sql cut' l = l\<lparr>claims := filter (\<lambda>c. \<not> created_at c < cut') (claims l)\<rparr>"

subsection \<open>Why a reservation was refused\<close>

datatype claim_scope = Scope_Address | Scope_Connection
datatype refusal_kind = Refused_Cooldown | Refused_Cap | Refused_Subnet

text \<open>The sentences of the source, with the values they interpolate.\<close>

datatype refusal_reason =
  This_Already_Claimed string
| Connection_Used_All int int
| Too_Many_From_Network
| Daily_Cap_Reached

record refusal =
  rf_kind :: refusal_kind
  rf_scope :: "claim_scope option"
  rf_reason :: refusal_reason
  rf_retry_after :: "int option"

datatype reserve_result = Reserved int | Refused refusal

text \<open>
  \<open>LIVE_BLOCK_SQL\<close>: the live row with the greatest \<open>created_at\<close>; of several, the one inserted
  last, which is the order the \<open>(address_hash, network, created_at)\<close> index is walked in.
\<close>

definition live_block_sql :: "string \<Rightarrow> network \<Rightarrow> int \<Rightarrow> int \<Rightarrow> claim list \<Rightarrow> claim option" where
  "live_block_sql a n s p rows =
     fold (\<lambda>c best. if address_hash c = a \<and> claim_network c = n \<and> live_after s p c
             then (case best of None \<Rightarrow> Some c
                   | Some b \<Rightarrow> if created_at b \<le> created_at c then Some c else Some b)
             else best) rows None"

text \<open>\<open>MIN(created_at + CASE status WHEN 'sent' THEN s ELSE p END)\<close> over the rows of \<open>P\<close>.\<close>

definition frees_at :: "int \<Rightarrow> int \<Rightarrow> claim \<Rightarrow> int" where
  "frees_at s p c = created_at c + (if status c = Sent then s else p)"

definition min_frees_at :: "int \<Rightarrow> int \<Rightarrow> (claim \<Rightarrow> bool) \<Rightarrow> claim list \<Rightarrow> int option" where
  "min_frees_at s p P rows =
     (case map (frees_at s p) (filter P rows) of [] \<Rightarrow> None | x # xs \<Rightarrow> Some (fold min xs x))"

definition why_blocked ::
  "int \<Rightarrow> string \<Rightarrow> string option \<Rightarrow> string option \<Rightarrow> int \<Rightarrow> int \<Rightarrow> int \<Rightarrow> network \<Rightarrow> int
     \<Rightarrow> ledger \<Rightarrow> refusal" where
  "why_blocked lease addressHash ipHash subnetHash subnetDailyMax now cooldown net ipDailyMax l =
     (case live_block_sql addressHash net (now - cooldown) (now - lease) (claims l) of
        Some row \<Rightarrow>
          \<lparr>rf_kind = Refused_Cooldown, rf_scope = Some Scope_Address,
           rf_reason = This_Already_Claimed ''address'',
           rf_retry_after = Some (max 1 ((if status row = Sent then cooldown else lease)
                                       - (now - created_at row)))\<rparr>
      | None \<Rightarrow>
     (let ipl = (\<lambda>c. ip_hash c = nullish ipHash '''' \<and> claim_network c = net
                    \<and> live_after (now - cooldown) (now - lease) c);
          subl = (\<lambda>c. subnet_hash c = Some (nullish subnetHash '''')
                    \<and> live_from (now - 86400) (now - lease) c);
          capl = (\<lambda>c. claim_network c = net \<and> live_from (now - 86400) (now - lease) c)
      in
      if truthy ipHash \<and> ipDailyMax > 0
         \<and> int (length (filter ipl (claims l))) \<ge> ipDailyMax
      then \<lparr>rf_kind = Refused_Cooldown, rf_scope = Some Scope_Connection,
            rf_reason = Connection_Used_All ipDailyMax (round_div cooldown 3600),
            rf_retry_after = Some (max 1 (nullish (min_frees_at cooldown lease ipl (claims l)) now - now))\<rparr>
      else if truthy subnetHash \<and> int (length (filter subl (claims l))) \<ge> subnetDailyMax
      then \<lparr>rf_kind = Refused_Subnet, rf_scope = None, rf_reason = Too_Many_From_Network,
            rf_retry_after = Some 3600\<rparr>
      else \<lparr>rf_kind = Refused_Cap, rf_scope = None, rf_reason = Daily_Cap_Reached,
            rf_retry_after = map_option (\<lambda>f. max 1 (f - now))
                            (min_frees_at 86400 lease capl (claims l))\<rparr>))"

subsection \<open>reserveClaim\<close>

record claim_request =
  cr_address :: string
  cr_ip_hash :: "string option"
  cr_subnet_hash :: "string option"
  cr_amount_zat :: int
  cr_now :: int
  cr_cooldown_seconds :: int
  cr_daily_cap_zat :: int
  cr_subnet_daily_max :: int
  cr_ip_daily_max :: "int option"
  cr_network :: "network option"

definition reserve_params :: "int \<Rightarrow> (string \<Rightarrow> string) \<Rightarrow> claim_request \<Rightarrow> reserve_opts" where
  "reserve_params lease fp r =
     \<lparr>ro_address_hash = fp (cr_address r), ro_ip_hash = nullish (cr_ip_hash r) '''',
      ro_subnet_hash = nullish (cr_subnet_hash r) '''', ro_amount_zat = cr_amount_zat r,
      ro_now = cr_now r, ro_cooldown_seconds = cr_cooldown_seconds r,
      ro_daily_cap_zat = cr_daily_cap_zat r, ro_subnet_daily_max = cr_subnet_daily_max r,
      ro_ip_daily_max = nullish (cr_ip_daily_max r) 1, ro_network = nullish (cr_network r) Taz,
      ro_lease_seconds = lease\<rparr>"

text \<open>
  The purge is fire-and-forget: \<open>purge_lands\<close> says whether it took effect before the
  reservation (it did under SQLite, it may not have over D1).
\<close>

definition reserve_claim ::
  "int \<Rightarrow> (string \<Rightarrow> string) \<Rightarrow> bool \<Rightarrow> claim_request \<Rightarrow> ledger \<Rightarrow> reserve_result \<times> ledger" where
  "reserve_claim lease fp purge_lands r l =
     (let l1 = (if purge_lands
                then purge_sql (retention_cutoff lease (cr_now r) (cr_cooldown_seconds r)) l else l);
          (res, l2) = reserve_sql (reserve_params lease fp r) l1
      in if changes res = 1 then (Reserved (lastInsertRowid res), l2)
         else (Refused (why_blocked lease (fp (cr_address r)) (cr_ip_hash r) (cr_subnet_hash r)
                 (cr_subnet_daily_max r) (cr_now r) (cr_cooldown_seconds r)
                 (nullish (cr_network r) Taz) (nullish (cr_ip_daily_max r) 1) l2), l2))"

subsection \<open>finalizeClaim\<close>

datatype ledger_error = Sent_Claim_Must_Carry_Txid int

datatype no_txid_reason = Network_Has_No_Txid

definition utc_day_of :: "int \<Rightarrow> utc_day" where
  "utc_day_of ms = ms div 86400000"

definition finalize_sql :: "claim_status \<Rightarrow> string option \<Rightarrow> int \<Rightarrow> ledger \<Rightarrow> ledger" where
  "finalize_sql st tx i l =
     l\<lparr>claims := map (\<lambda>c. if claim_id c = i then c\<lparr>status := st, claim_txid := tx\<rparr> else c) (claims l)\<rparr>"

definition drip_bump_sql :: "network \<Rightarrow> utc_day \<Rightarrow> ledger \<Rightarrow> ledger" where
  "drip_bump_sql n d l =
     l\<lparr>drip_days := AList.update (n, d) (nullish (map_of (drip_days l) (n, d)) 0 + 1) (drip_days l)\<rparr>"

text \<open>\<open>bump_lands\<close>: the counter write is best effort and its failure is only logged.\<close>

definition finalize_claim ::
  "bool \<Rightarrow> int \<Rightarrow> claim_status \<Rightarrow> string option \<Rightarrow> no_txid_reason option \<Rightarrow> int \<Rightarrow> network \<Rightarrow> ledger
     \<Rightarrow> ledger_error + ledger" where
  "finalize_claim bump_lands i st tx noTxid nowMs n l =
     (if st = Sent \<and> \<not> truthy tx \<and> noTxid = None then Inl (Sent_Claim_Must_Carry_Txid i)
      else let l1 = finalize_sql st (if truthy tx then tx else None) i l
           in Inr (if st = Sent \<and> bump_lands then drip_bump_sql n (utc_day_of nowMs) l1 else l1))"

subsection \<open>Facts about the statements\<close>

lemmas [ledger_defs] =
  reserve_sql_def purge_sql_def finalize_sql_def drip_bump_sql_def reserve_row_def

lemma live_after_status: "live_after s p c \<Longrightarrow> status c \<noteq> Failed"
  by (auto simp: live_after_def)

lemma live_from_status: "live_from s p c \<Longrightarrow> status c \<noteq> Failed"
  by (auto simp: live_from_def)

lemma live_after_live_from: "live_after s p c = live_from (s + 1) (p + 1) c"
  by (auto simp: live_after_def live_from_def)

lemma live_from_mono: "live_from s p c \<Longrightarrow> s' \<le> s \<Longrightarrow> p' \<le> p \<Longrightarrow> live_from s' p' c"
  by (auto simp: live_from_def)

text \<open>Rows older than every cut-off are invisible to every clause.\<close>

lemma live_from_recent: "live_from s p c \<Longrightarrow> min s p \<le> created_at c"
  by (auto simp: live_from_def)

lemma live_after_recent: "live_after s p c \<Longrightarrow> min s p < created_at c"
  by (auto simp: live_after_def)

definition visible_from :: "reserve_opts \<Rightarrow> int" where
  "visible_from o' = min (min (cooldown_cut o') (day_since o')) (lease_cut o')"

lemma visible_retention:
  "ro_now o' - max (max (ro_cooldown_seconds o') 86400) (ro_lease_seconds o') = visible_from o'"
  by (auto simp: visible_from_def cooldown_cut_def day_since_def lease_cut_def)

lemma filter_old_rows:
  assumes "\<And>c. c \<in> set rows \<Longrightarrow> P c \<Longrightarrow> cut' \<le> created_at c"
  shows "filter P (filter (\<lambda>c. \<not> created_at c < cut') rows) = filter P rows"
  using assms by (induction rows) force+

lemma ip_live_recent: "ip_live o' c \<Longrightarrow> visible_from o' \<le> created_at c"
  by (auto simp: ip_live_def visible_from_def dest!: live_after_recent)

lemma subnet_live_recent: "subnet_live o' c \<Longrightarrow> visible_from o' \<le> created_at c"
  by (auto simp: subnet_live_def visible_from_def dest!: live_from_recent)

lemma cap_live_recent: "cap_live o' c \<Longrightarrow> visible_from o' \<le> created_at c"
  by (auto simp: cap_live_def visible_from_def dest!: live_from_recent)

lemma reserve_admits_old_rows:
  assumes "cut' \<le> visible_from o'"
  shows "reserve_admits o' (filter (\<lambda>c. \<not> created_at c < cut') rows) = reserve_admits o' rows"
proof -
  have addr: "address_blocked o' (filter (\<lambda>c. \<not> created_at c < cut') rows) = address_blocked o' rows"
    using assms by (force simp: address_blocked_def list_ex_iff visible_from_def dest: live_after_recent)
  have rest: "filter P (filter (\<lambda>c. \<not> created_at c < cut') rows) = filter P rows"
    if "P = ip_live o' \<or> P = subnet_live o' \<or> P = cap_live o'" for P
    using that assms
    by (intro filter_old_rows)
      (auto dest: ip_live_recent subnet_live_recent cap_live_recent)
  show ?thesis
    by (simp add: reserve_admits_def addr ip_count_def subnet_count_def cap_sum_def rest del: filter_filter)
qed

lemma retention_cutoff_visible:
  "ro_cooldown_seconds o' = cd \<Longrightarrow> ro_lease_seconds o' = lease \<Longrightarrow> now \<le> ro_now o' + 3600
     \<Longrightarrow> retention_cutoff lease now cd \<le> visible_from o'"
  using visible_retention [of o'] by (simp add: retention_cutoff_def)

lemma claims_purge_sql [simp]:
  "claims (purge_sql k l) = filter (\<lambda>c. \<not> created_at c < k) (claims l)"
  by (simp add: purge_sql_def)

lemma purge_sql_frame [simp, frame_simps]:
  "last_rowid (purge_sql k l) = last_rowid l"
  "used_challenges (purge_sql k l) = used_challenges l"
  "drip_days (purge_sql k l) = drip_days l"
  by (simp_all add: purge_sql_def)

lemma reserve_sql_changes: "changes (fst (reserve_sql o' l)) = 1 \<longleftrightarrow> reserve_admits o' (claims l)"
  by (simp add: reserve_sql_def Let_def)

lemma reserve_sql_admitted:
  "reserve_admits o' (claims l) \<Longrightarrow>
     claims (snd (reserve_sql o' l)) = claims l @ [reserve_row o' (last_rowid l + 1)]"
  by (simp add: reserve_sql_def Let_def)

lemma reserve_sql_refused: "\<not> reserve_admits o' (claims l) \<Longrightarrow> snd (reserve_sql o' l) = l"
  by (simp add: reserve_sql_def)

lemma reserve_sql_frame [simp, frame_simps]:
  "used_challenges (snd (reserve_sql o' l)) = used_challenges l"
  "drip_days (snd (reserve_sql o' l)) = drip_days l"
  by (simp_all add: reserve_sql_def Let_def)

lemma finalize_sql_frame [simp, frame_simps]:
  "last_rowid (finalize_sql st tx i l) = last_rowid l"
  "used_challenges (finalize_sql st tx i l) = used_challenges l"
  "drip_days (finalize_sql st tx i l) = drip_days l"
  by (simp_all add: finalize_sql_def)

lemma drip_bump_sql_frame [simp, frame_simps]:
  "claims (drip_bump_sql n d l) = claims l"
  "last_rowid (drip_bump_sql n d l) = last_rowid l"
  "used_challenges (drip_bump_sql n d l) = used_challenges l"
  by (simp_all add: drip_bump_sql_def)

subsection \<open>The refusal's explanation\<close>

definition blocks_address :: "string \<Rightarrow> network \<Rightarrow> int \<Rightarrow> int \<Rightarrow> claim \<Rightarrow> bool" where
  "blocks_address a n s p c = (address_hash c = a \<and> claim_network c = n \<and> live_after s p c)"

lemma latest_fold_Some:
  assumes "fold (\<lambda>c best. if P c then (case best of None \<Rightarrow> Some c
             | Some b \<Rightarrow> if created_at b \<le> created_at c then Some c else Some b) else best)
             rows best = Some row"
  shows "best = Some row \<or> (row \<in> set rows \<and> P row)"
  using assms
  by (induction rows arbitrary: best) (fastforce split: if_splits option.splits)+

lemma latest_fold_None:
  "fold (\<lambda>c best. if P c then (case best of None \<Rightarrow> Some c
      | Some b \<Rightarrow> if created_at b \<le> created_at c then Some c else Some b) else best) rows best = None
   \<longleftrightarrow> best = None \<and> (\<forall>c\<in>set rows. \<not> P c)"
  by (induction rows arbitrary: best) (auto split: option.splits)

lemma live_block_sql_Some:
  assumes "live_block_sql a n s p rows = Some row"
  shows "row \<in> set rows" and "blocks_address a n s p row"
  using latest_fold_Some [of "blocks_address a n s p" rows None row] assms
  by (auto simp: live_block_sql_def blocks_address_def)

lemma live_block_sql_None:
  "live_block_sql a n s p rows = None \<longleftrightarrow> (\<forall>c\<in>set rows. \<not> blocks_address a n s p c)"
  using latest_fold_None [of "blocks_address a n s p" rows None]
  by (simp add: live_block_sql_def blocks_address_def)

lemma min_frees_at_None: "min_frees_at s p P rows = None \<longleftrightarrow> filter P rows = []"
  by (cases "filter P rows") (simp_all add: min_frees_at_def)

lemma fold_min_le: "fold min xs (x::int) \<le> x \<and> (\<forall>y\<in>set xs. fold min xs x \<le> y)"
  by (induction xs arbitrary: x) (auto intro: order_trans, (meson min.boundedE order_trans)+)

lemma min_frees_at_le:
  assumes "min_frees_at s p P rows = Some f" and "c \<in> set rows" and "P c"
  shows "f \<le> frees_at s p c"
proof -
  obtain x xs where m: "map (frees_at s p) (filter P rows) = x # xs" and f: "f = fold min xs x"
    using assms(1) by (auto simp: min_frees_at_def split: list.splits)
  have "frees_at s p c \<in> set (map (frees_at s p) (filter P rows))" using assms(2,3) by simp
  then have "frees_at s p c \<in> set (x # xs)" by (simp only: m)
  then show ?thesis using fold_min_le [of xs x] f by auto
qed

lemma finalize_sql_row:
  assumes "c \<in> set (claims (finalize_sql st tx i l))" and "claim_id c = i"
  shows "status c = st \<and> claim_txid c = tx"
proof -
  have "c \<in> (\<lambda>d. if claim_id d = i then d\<lparr>status := st, claim_txid := tx\<rparr> else d) ` set (claims l)"
    using assms(1) by (simp add: finalize_sql_def)
  then obtain d where d: "c = (if claim_id d = i then d\<lparr>status := st, claim_txid := tx\<rparr> else d)"
    by (rule imageE)
  show ?thesis by (cases "claim_id d = i") (use d assms(2) in simp_all)
qed

lemma finalize_claim_ok:
  "\<not> (st = Sent \<and> \<not> truthy tx \<and> noTxid = None) \<Longrightarrow>
     finalize_claim bump i st tx noTxid nowMs n l =
       Inr (if st = Sent \<and> bump
            then drip_bump_sql n (utc_day_of nowMs) (finalize_sql st (if truthy tx then tx else None) i l)
            else finalize_sql st (if truthy tx then tx else None) i l)"
  unfolding finalize_claim_def Let_def by (rule if_not_P) blast

lemma finalize_claim_throws:
  "finalize_claim bump i st tx noTxid nowMs n l = Inl e \<longleftrightarrow>
     st = Sent \<and> \<not> truthy tx \<and> noTxid = None \<and> e = Sent_Claim_Must_Carry_Txid i"
proof (cases "st = Sent \<and> \<not> truthy tx \<and> noTxid = None")
  case True
  then show ?thesis by (auto simp: finalize_claim_def)
next
  case False
  then show ?thesis unfolding finalize_claim_ok [OF False] by blast
qed

lemma finalize_claim_claims:
  assumes "finalize_claim bump i st tx noTxid nowMs n l = Inr l'"
  shows "claims l' = claims (finalize_sql st (if truthy tx then tx else None) i l)"
proof -
  have "\<not> (st = Sent \<and> \<not> truthy tx \<and> noTxid = None)"
    using assms finalize_claim_throws [of bump i st tx noTxid nowMs n l] by force
  from finalize_claim_ok [OF this, of bump i nowMs n l] assms show ?thesis
    by (cases "st = Sent \<and> bump") auto
qed

lemma address_blocked_iff:
  "address_blocked o' rows \<longleftrightarrow> (\<exists>c\<in>set rows. blocks_address (ro_address_hash o') (ro_network o')
      (cooldown_cut o') (lease_cut o') c)"
  by (auto simp: address_blocked_def blocks_address_def list_ex_iff)

lemma reserve_params_sel [simp]:
  "ro_address_hash (reserve_params lease fp r) = fp (cr_address r)"
  "ro_ip_hash (reserve_params lease fp r) = nullish (cr_ip_hash r) ''''"
  "ro_subnet_hash (reserve_params lease fp r) = nullish (cr_subnet_hash r) ''''"
  "ro_amount_zat (reserve_params lease fp r) = cr_amount_zat r"
  "ro_now (reserve_params lease fp r) = cr_now r"
  "ro_cooldown_seconds (reserve_params lease fp r) = cr_cooldown_seconds r"
  "ro_daily_cap_zat (reserve_params lease fp r) = cr_daily_cap_zat r"
  "ro_subnet_daily_max (reserve_params lease fp r) = cr_subnet_daily_max r"
  "ro_ip_daily_max (reserve_params lease fp r) = nullish (cr_ip_daily_max r) 1"
  "ro_network (reserve_params lease fp r) = nullish (cr_network r) Taz"
  "ro_lease_seconds (reserve_params lease fp r) = lease"
  by (simp_all add: reserve_params_def)

lemma truthy_nullish: "truthy h \<longleftrightarrow> nullish h '''' \<noteq> ''''"
  by (cases h) simp_all

text \<open>The explanation \<open>reserveClaim\<close> computes for a refused request.\<close>

definition why_of ::
  "int \<Rightarrow> (string \<Rightarrow> string) \<Rightarrow> claim_request \<Rightarrow> ledger \<Rightarrow> refusal" where
  "why_of lease fp r l =
     why_blocked lease (fp (cr_address r)) (cr_ip_hash r) (cr_subnet_hash r)
       (cr_subnet_daily_max r) (cr_now r) (cr_cooldown_seconds r) (nullish (cr_network r) Taz)
       (nullish (cr_ip_daily_max r) 1) l"

text \<open>The clauses of the statement, negated one by one.\<close>

definition ip_full :: "reserve_opts \<Rightarrow> claim list \<Rightarrow> bool" where
  "ip_full o' rows = (ro_ip_hash o' \<noteq> '''' \<and> ro_ip_daily_max o' \<le> ip_count o' rows)"

definition subnet_full :: "reserve_opts \<Rightarrow> claim list \<Rightarrow> bool" where
  "subnet_full o' rows = (ro_subnet_hash o' \<noteq> '''' \<and> ro_subnet_daily_max o' \<le> subnet_count o' rows)"

definition cap_full :: "reserve_opts \<Rightarrow> claim list \<Rightarrow> bool" where
  "cap_full o' rows = (ro_daily_cap_zat o' < cap_sum o' rows + ro_amount_zat o')"

lemma reserve_admits_iff:
  "reserve_admits o' rows \<longleftrightarrow> \<not> address_blocked o' rows \<and> \<not> ip_full o' rows
     \<and> \<not> subnet_full o' rows \<and> \<not> cap_full o' rows"
  by (auto simp: reserve_admits_def ip_full_def subnet_full_def cap_full_def)

lemma why_of_address:
  assumes "address_blocked (reserve_params lease fp r) (claims l)"
  shows "rf_kind (why_of lease fp r l) = Refused_Cooldown"
    and "rf_scope (why_of lease fp r l) = Some Scope_Address"
proof -
  have "live_block_sql (fp (cr_address r)) (nullish (cr_network r) Taz)
      (cr_now r - cr_cooldown_seconds r) (cr_now r - lease) (claims l) \<noteq> None"
    using assms
    by (auto simp: live_block_sql_None address_blocked_iff cooldown_cut_def lease_cut_def)
  then show "rf_kind (why_of lease fp r l) = Refused_Cooldown"
    and "rf_scope (why_of lease fp r l) = Some Scope_Address"
    by (auto simp: why_of_def why_blocked_def)
qed

lemma why_of_not_address:
  fixes r :: claim_request and lease :: int and fp :: "string \<Rightarrow> string"
  defines "o' \<equiv> reserve_params lease fp r"
  assumes "\<not> address_blocked o' (claims l)" and "0 < ro_ip_daily_max o'"
  shows "(rf_kind (why_of lease fp r l), rf_scope (why_of lease fp r l)) =
     (if ip_full o' (claims l) then (Refused_Cooldown, Some Scope_Connection)
      else if subnet_full o' (claims l) then (Refused_Subnet, None) else (Refused_Cap, None))"
proof -
  have n: "live_block_sql (fp (cr_address r)) (nullish (cr_network r) Taz)
      (cr_now r - cr_cooldown_seconds r) (cr_now r - lease) (claims l) = None"
    using assms(2)
    by (auto simp: live_block_sql_None address_blocked_iff cooldown_cut_def lease_cut_def o'_def)
  show ?thesis
    using assms(3)
    by (simp add: why_of_def why_blocked_def n Let_def o'_def ip_full_def subnet_full_def
        truthy_nullish ip_count_def ip_live_def [abs_def] subnet_count_def subnet_live_def [abs_def]
        cooldown_cut_def lease_cut_def day_since_def)
qed

lemma why_of_binding_limit:
  fixes r :: claim_request and lease :: int and fp :: "string \<Rightarrow> string"
  defines "o' \<equiv> reserve_params lease fp r"
  assumes "\<not> reserve_admits o' (claims l)" and "0 < nullish (cr_ip_daily_max r) 1"
  shows "(rf_kind (why_of lease fp r l), rf_scope (why_of lease fp r l)) =
     (if address_blocked o' (claims l) then (Refused_Cooldown, Some Scope_Address)
      else if ip_full o' (claims l) then (Refused_Cooldown, Some Scope_Connection)
      else if subnet_full o' (claims l) then (Refused_Subnet, None)
      else (Refused_Cap, None))
   \<and> (rf_kind (why_of lease fp r l) = Refused_Cap \<longrightarrow> cap_full o' (claims l))"
proof (cases "address_blocked o' (claims l)")
  case True
  then show ?thesis using why_of_address [of lease fp r l] by (simp add: o'_def)
next
  case False
  have ip: "0 < ro_ip_daily_max o'" using assms(3) by (simp add: o'_def)
  note w = why_of_not_address [of lease fp r l, folded o'_def, OF False ip]
  show ?thesis
    using w assms(2) False by (auto simp: reserve_admits_iff split: if_splits)
qed

subsection \<open>How long the explanation says to wait\<close>

lemma retry_at_least_one:
  "rf_retry_after (why_of lease fp r l) = Some s \<Longrightarrow> 1 \<le> s"
  by (auto simp: why_of_def why_blocked_def Let_def split: option.splits if_splits)

lemma why_of_cap_hint:
  assumes "rf_kind (why_of lease fp r l) = Refused_Cap"
  shows "rf_retry_after (why_of lease fp r l) =
     map_option (\<lambda>f. max 1 (f - cr_now r))
       (min_frees_at 86400 lease (cap_live (reserve_params lease fp r)) (claims l))"
proof -
  have "cap_live (reserve_params lease fp r) = (\<lambda>c. claim_network c = nullish (cr_network r) Taz
      \<and> live_from (cr_now r - 86400) (cr_now r - lease) c)"
    by (simp add: fun_eq_iff cap_live_def day_since_def lease_cut_def)
  then show ?thesis
    using assms by (auto simp: why_of_def why_blocked_def Let_def split: option.splits if_splits)
qed

lemma min_frees_at_attained:
  assumes "min_frees_at s p P rows = Some f"
  shows "\<exists>c\<in>set rows. P c \<and> f = frees_at s p c"
proof -
  obtain x xs where m: "map (frees_at s p) (filter P rows) = x # xs" and f: "f = fold min xs x"
    using assms by (auto simp: min_frees_at_def split: list.splits)
  have "fold min xs y \<in> insert y (set xs)" for y :: int
    by (induction xs arbitrary: y) (force simp: min_def)+
  then have "f \<in> set (x # xs)" using f by auto
  then have "f \<in> frees_at s p ` {c \<in> set rows. P c}" by (simp flip: m)
  then show ?thesis by auto
qed

lemma cap_full_until_hint:
  fixes r :: claim_request and lease :: int and fp :: "string \<Rightarrow> string"
  assumes full: "cap_full (reserve_params lease fp r) (claims l)"
    and nn: "\<forall>c\<in>set (claims l). 0 \<le> amount_zat c"
    and f: "min_frees_at 86400 lease (cap_live (reserve_params lease fp r)) (claims l) = Some f"
    and t: "t \<le> f"
  shows "cap_full (reserve_params lease fp (r\<lparr>cr_now := t\<rparr>)) (claims l)"
proof -
  have "cap_sum (reserve_params lease fp r) (claims l)
      \<le> cap_sum (reserve_params lease fp (r\<lparr>cr_now := t\<rparr>)) (claims l)"
    unfolding cap_sum_def
  proof (rule sum_list_filter_mono)
    fix c assume c: "c \<in> set (claims l)"
    then show "0 \<le> amount_zat c" using nn by simp
    assume lv: "cap_live (reserve_params lease fp r) c"
    then have "t \<le> frees_at 86400 lease c" using min_frees_at_le [OF f c] t by simp
    with lv show "cap_live (reserve_params lease fp (r\<lparr>cr_now := t\<rparr>)) c"
      by (auto simp: cap_live_def live_from_def frees_at_def day_since_def lease_cut_def)
  qed
  with full show ?thesis by (simp add: cap_full_def)
qed

lemma ip_slot_freed_at_hint:
  fixes r :: claim_request and lease :: int and fp :: "string \<Rightarrow> string"
  assumes f: "min_frees_at (cr_cooldown_seconds r) lease (ip_live (reserve_params lease fp r)) (claims l)
      = Some f"
    and t: "f \<le> t" "cr_now r \<le> t"
  shows "ip_count (reserve_params lease fp (r\<lparr>cr_now := t\<rparr>)) (claims l)
      < ip_count (reserve_params lease fp r) (claims l)"
proof -
  let ?now = "ip_live (reserve_params lease fp r)"
  let ?then = "ip_live (reserve_params lease fp (r\<lparr>cr_now := t\<rparr>))"
  have sub: "?then c \<Longrightarrow> ?now c" for c
    using t(2) by (auto simp: ip_live_def live_after_def cooldown_cut_def lease_cut_def)
  obtain c where c: "c \<in> set (claims l)" "?now c" "f = frees_at (cr_cooldown_seconds r) lease c"
    using min_frees_at_attained [OF f] by blast
  have "\<not> ?then c"
    using c t(1) by (auto simp: ip_live_def live_after_def frees_at_def cooldown_cut_def lease_cut_def)
  then have lt: "length (filter (\<lambda>c. ?now c \<and> ?then c) (claims l)) < length (filter ?now (claims l))"
    using c length_filter_less [of c "filter ?now (claims l)" ?then] by (simp add: conj_commute)
  have "filter ?then (claims l) = filter (\<lambda>c. ?now c \<and> ?then c) (claims l)"
    by (rule filter_cong) (use sub in auto)
  with lt show ?thesis by (simp add: ip_count_def)
qed

subsection \<open>Properties\<close>

definition ex_request :: claim_request where
  "ex_request = \<lparr>cr_address = ''tmA'', cr_ip_hash = Some ''ip'', cr_subnet_hash = Some ''net'',
     cr_amount_zat = 10, cr_now = 100000, cr_cooldown_seconds = 86400, cr_daily_cap_zat = 100,
     cr_subnet_daily_max = 20, cr_ip_daily_max = Some 1, cr_network = None\<rparr>"

definition ex_row :: "int \<Rightarrow> string \<Rightarrow> string \<Rightarrow> int \<Rightarrow> int \<Rightarrow> claim" where
  "ex_row i a h amt t = \<lparr>claim_id = i, address_hash = a, ip_hash = h, subnet_hash = Some ''other'',
     amount_zat = amt, claim_txid = Some ''aa'', status = Sent, created_at = t, claim_network = Taz\<rparr>"

lemmas ex_defs = ex_request_def ex_row_def reserve_admits_def address_blocked_def ip_count_def
  ip_live_def subnet_count_def subnet_live_def cap_sum_def cap_live_def live_after_def live_from_def
  cooldown_cut_def lease_cut_def day_since_def

text \<open>
  C9: The retention purge can never change who is paid. Whether the fire-and-forget purge ran
  before the reservation (SQLite), with a clock up to an hour ahead of the request, or not at all
  (D1), the reservation statement admits exactly the same requests.
\<close>

theorem purge_never_changes_admission:
  assumes "now \<le> cr_now r + 3600"
  shows "reserve_admits (reserve_params lease fp r)
       (claims (purge_sql (retention_cutoff lease now (cr_cooldown_seconds r)) l))
     = reserve_admits (reserve_params lease fp r) (claims l)"
proof -
  have "retention_cutoff lease now (cr_cooldown_seconds r) \<le> visible_from (reserve_params lease fp r)"
    using assms by (intro retention_cutoff_visible) simp_all
  then show ?thesis by (simp only: claims_purge_sql reserve_admits_old_rows)
qed

theorem purge_never_changes_admission_witness:
  "reserve_admits (reserve_params 6549 id ex_request)
     (claims (purge_sql (retention_cutoff 6549 100000 86400)
        (empty_ledger\<lparr>claims := [ex_row 1 ''tmB'' ''ip2'' 95 1, ex_row 2 ''tmB'' ''ip2'' 5 50000]\<rparr>)))"
  using purge_never_changes_admission [of 100000 ex_request 6549 id
      "empty_ledger\<lparr>claims := [ex_row 1 ''tmB'' ''ip2'' 95 1, ex_row 2 ''tmB'' ''ip2'' 5 50000]\<rparr>"]
  by (simp add: ex_defs)

text \<open>
  A refused claim is told the limit that refused it. The kind and scope of the refusal name
  the address cooldown when that clause blocks, else the connection limit, else the subnet limit,
  and the daily cap only when the cap clause itself is exceeded.
\<close>

theorem refusal_names_binding_limit:
  assumes "\<not> reserve_admits (reserve_params lease fp r) (claims l)"
    and "0 < nullish (cr_ip_daily_max r) 1"
  shows "(rf_kind (why_of lease fp r l), rf_scope (why_of lease fp r l)) =
     (if address_blocked (reserve_params lease fp r) (claims l) then (Refused_Cooldown, Some Scope_Address)
      else if ip_full (reserve_params lease fp r) (claims l) then (Refused_Cooldown, Some Scope_Connection)
      else if subnet_full (reserve_params lease fp r) (claims l) then (Refused_Subnet, None)
      else (Refused_Cap, None))
   \<and> (rf_kind (why_of lease fp r l) = Refused_Cap \<longrightarrow> cap_full (reserve_params lease fp r) (claims l))"
  using assms by (rule why_of_binding_limit)

theorem refusal_names_binding_limit_witness:
  "\<not> reserve_admits (reserve_params 6549 id ex_request) [ex_row 1 ''tmB'' ''ip'' 5 50000]
   \<and> rf_scope (why_of 6549 id ex_request (empty_ledger\<lparr>claims := [ex_row 1 ''tmB'' ''ip'' 5 50000]\<rparr>))
       = Some Scope_Connection"
proof -
  let ?l = "empty_ledger\<lparr>claims := [ex_row 1 ''tmB'' ''ip'' 5 50000]\<rparr>"
  have na: "\<not> reserve_admits (reserve_params 6549 id ex_request) (claims ?l)"
    by (simp add: ex_defs)
  have ip: "0 < nullish (cr_ip_daily_max ex_request) 1" by (simp add: ex_request_def)
  show ?thesis
    using na refusal_names_binding_limit [OF na ip]
    by (simp add: ex_defs ip_full_def)
qed

text \<open>
  The wait a connection refusal announces is enough: once the hint has passed, with no new
  claim, the connection holds fewer live claims than when it was refused.
\<close>

theorem connection_hint_frees_a_slot:
  assumes "min_frees_at (cr_cooldown_seconds r) lease (ip_live (reserve_params lease fp r)) (claims l) = Some f"
    and "t = cr_now r + max 1 (f - cr_now r)"
  shows "ip_count (reserve_params lease fp (r\<lparr>cr_now := t\<rparr>)) (claims l)
      < ip_count (reserve_params lease fp r) (claims l)"
  using assms by (intro ip_slot_freed_at_hint) auto

theorem connection_hint_frees_a_slot_witness:
  "ip_count (reserve_params 6549 id (ex_request\<lparr>cr_now := 136400\<rparr>)) [ex_row 1 ''tmB'' ''ip'' 5 50000]
     < ip_count (reserve_params 6549 id ex_request) [ex_row 1 ''tmB'' ''ip'' 5 50000]"
  using connection_hint_frees_a_slot [of ex_request 6549 id
      "empty_ledger\<lparr>claims := [ex_row 1 ''tmB'' ''ip'' 5 50000]\<rparr>" 136400 136400]
  by (simp add: ex_defs min_frees_at_def frees_at_def)

text \<open>
  The wait a daily-cap refusal announces is one second short. The hint is the earliest expiry
  of a counted row, but the cap clause still counts a row at that instant (it compares with
  \<open>>=\<close>), so with an unchanged ledger the very same claim is refused again when the hint runs out.
\<close>

theorem cap_hint_is_one_second_early:
  assumes "cap_full (reserve_params lease fp r) (claims l)"
    and "\<forall>c\<in>set (claims l). 0 \<le> amount_zat c"
    and "rf_kind (why_of lease fp r l) = Refused_Cap"
    and "rf_retry_after (why_of lease fp r l) = Some s" and "1 < s"
  shows "\<not> reserve_admits (reserve_params lease fp (r\<lparr>cr_now := cr_now r + s\<rparr>)) (claims l)"
proof -
  obtain f where f: "min_frees_at 86400 lease (cap_live (reserve_params lease fp r)) (claims l) = Some f"
    and "s = max 1 (f - cr_now r)"
    using assms(4) unfolding why_of_cap_hint [OF assms(3)] by auto
  then have "cap_full (reserve_params lease fp (r\<lparr>cr_now := cr_now r + s\<rparr>)) (claims l)"
    using assms(1,2,5) by (intro cap_full_until_hint [OF _ _ f]) auto
  then show ?thesis by (simp add: reserve_admits_iff)
qed

theorem cap_hint_is_one_second_early_witness:
  "\<not> reserve_admits (reserve_params 6549 id (ex_request\<lparr>cr_now := 136400\<rparr>)) [ex_row 1 ''tmB'' ''x'' 95 50000]"
  using cap_hint_is_one_second_early [of 6549 id ex_request
      "empty_ledger\<lparr>claims := [ex_row 1 ''tmB'' ''x'' 95 50000]\<rparr>" 36400]
  by (simp add: ex_defs cap_full_def why_of_def why_blocked_def live_block_sql_def Let_def
      min_frees_at_def frees_at_def)

text \<open>
  A claim is recorded as sent without a transaction id only for the network whose sender
  returns none: otherwise \<open>finalizeClaim\<close> throws and the ledger is unchanged, and an empty id is
  never stored as an id.
\<close>

theorem sent_claim_carries_txid:
  assumes "finalize_claim bump i Sent tx noTxid nowMs n l = Inr l'"
    and "c \<in> set (claims l')" and "claim_id c = i"
  shows "status c = Sent \<and> (noTxid = None \<longrightarrow> (\<exists>t. claim_txid c = Some t \<and> t \<noteq> ''''))"
proof -
  have ok: "\<not> (\<not> truthy tx \<and> noTxid = None)"
    using assms(1) by (simp add: finalize_claim_def split: if_splits)
  have l': "claims l' = claims (finalize_sql Sent (if truthy tx then tx else None) i l)"
    using assms(1) by (rule finalize_claim_claims)
  have "status c = Sent \<and> claim_txid c = (if truthy tx then tx else None)"
    using assms(2,3) unfolding l' by (rule finalize_sql_row)
  then show ?thesis using ok by (cases "truthy tx"; cases tx) simp_all
qed

theorem sent_claim_carries_txid_witness:
  "status (ex_row 1 ''a'' ''b'' 1 1) = Sent \<and> claim_txid (ex_row 1 ''a'' ''b'' 1 1) = Some ''aa''"
proof -
  let ?l = "empty_ledger\<lparr>claims := [(ex_row 1 ''a'' ''b'' 1 1)\<lparr>status := Pending, claim_txid := None\<rparr>]\<rparr>"
  have "finalize_claim False 1 Sent (Some ''aa'') None 0 Taz ?l
      = Inr (empty_ledger\<lparr>claims := [ex_row 1 ''a'' ''b'' 1 1]\<rparr>)"
    by (simp add: finalize_claim_def finalize_sql_def ex_row_def)
  from sent_claim_carries_txid [OF this, of "ex_row 1 ''a'' ''b'' 1 1"] show ?thesis
    by (simp add: ex_row_def)
qed

end
