(* ===== verification/Ledger_System.thy ===== *)
theory Ledger_System
  imports Ledger
begin

text \<open>
  The ledger under concurrency. Each SQL statement is atomic, so any number of claim handlers
  running at once is a sequence of the steps below, in any order: a reservation, the
  finalisation of a pending row, the retention purge, and time passing.

  A handler reads \<open>now\<close> when it starts and reserves with that reading after its gates have
  run, so a step carries its own \<open>now\<close>, at most the retention's hour of grace behind the
  clock. \<open>w_history\<close> is a ghost: every row ever inserted, with its current status, which
  the purge does not touch; no step reads it.
\<close>

record policy =
  pol_cooldown :: int
  pol_lease :: int
  pol_cap :: "network \<Rightarrow> int"
  pol_subnet_max :: int
  pol_ip_max :: int

record world =
  w_ledger :: ledger
  w_clock :: int
  w_history :: "claim list"

definition obeys :: "policy \<Rightarrow> reserve_opts \<Rightarrow> bool" where
  "obeys pol o' =
     (ro_cooldown_seconds o' = pol_cooldown pol \<and> ro_lease_seconds o' = pol_lease pol
      \<and> ro_daily_cap_zat o' = pol_cap pol (ro_network o')
      \<and> ro_subnet_daily_max o' = pol_subnet_max pol \<and> ro_ip_daily_max o' = pol_ip_max pol
      \<and> 0 \<le> ro_amount_zat o')"

definition set_status :: "claim_status \<Rightarrow> string option \<Rightarrow> int \<Rightarrow> claim \<Rightarrow> claim" where
  "set_status st tx i c = (if claim_id c = i then c\<lparr>status := st, claim_txid := tx\<rparr> else c)"

text \<open>A row may be finalised while it is pending and inside its lease.\<close>

definition settles :: "policy \<Rightarrow> world \<Rightarrow> int \<Rightarrow> bool" where
  "settles pol w i =
     (\<exists>c\<in>set (claims (w_ledger w)). claim_id c = i \<and> status c = Pending
        \<and> w_clock w < created_at c + pol_lease pol)"

inductive ledger_step :: "policy \<Rightarrow> world \<Rightarrow> world \<Rightarrow> bool" for pol where
  step_tick: "w_clock w \<le> t \<Longrightarrow> ledger_step pol w (w\<lparr>w_clock := t\<rparr>)"
| step_purge: "now \<le> w_clock w \<Longrightarrow>
    ledger_step pol w
      (w\<lparr>w_ledger := purge_sql (retention_cutoff (pol_lease pol) now (pol_cooldown pol)) (w_ledger w)\<rparr>)"
| step_reserve: "obeys pol o' \<Longrightarrow> ro_now o' \<le> w_clock w \<Longrightarrow> w_clock w \<le> ro_now o' + 3600 \<Longrightarrow>
    ledger_step pol w
      (w\<lparr>w_ledger := snd (reserve_sql o' (w_ledger w)),
         w_history := (if reserve_admits o' (claims (w_ledger w))
           then w_history w @ [reserve_row o' (last_rowid (w_ledger w) + 1)] else w_history w)\<rparr>)"
| step_finalize: "st \<noteq> Pending \<Longrightarrow> settles pol w i \<Longrightarrow>
    ledger_step pol w
      (w\<lparr>w_ledger := finalize_sql st tx i (w_ledger w),
         w_history := map (set_status st tx i) (w_history w)\<rparr>)"

inductive ledger_reachable :: "policy \<Rightarrow> world \<Rightarrow> bool" for pol where
  reach_init: "ledger_reachable pol \<lparr>w_ledger = empty_ledger, w_clock = t, w_history = []\<rparr>"
| reach_step: "ledger_reachable pol w \<Longrightarrow> ledger_step pol w w' \<Longrightarrow> ledger_reachable pol w'"

lemma set_status_sel [simp]:
  "claim_id (set_status st tx i c) = claim_id c"
  "address_hash (set_status st tx i c) = address_hash c"
  "ip_hash (set_status st tx i c) = ip_hash c"
  "subnet_hash (set_status st tx i c) = subnet_hash c"
  "amount_zat (set_status st tx i c) = amount_zat c"
  "created_at (set_status st tx i c) = created_at c"
  "claim_network (set_status st tx i c) = claim_network c"
  "status (set_status st tx i c) = (if claim_id c = i then st else status c)"
  by (simp_all add: set_status_def)

lemma claims_finalize_sql [simp]:
  "claims (finalize_sql st tx i l) = map (set_status st tx i) (claims l)"
  by (simp add: finalize_sql_def set_status_def [abs_def])

subsection \<open>The structural invariant\<close>

text \<open>
  Row ids are distinct and below the counter, amounts are not negative, and the table is the
  history without rows too old for any clause to see.
\<close>

definition horizon :: "policy \<Rightarrow> int" where
  "horizon pol = max (max (pol_cooldown pol) 86400) (pol_lease pol) + 3600"

definition well_kept :: "policy \<Rightarrow> world \<Rightarrow> bool" where
  "well_kept pol w =
     (distinct (map claim_id (w_history w))
      \<and> (\<forall>c\<in>set (w_history w). claim_id c \<le> last_rowid (w_ledger w) \<and> 0 \<le> amount_zat c)
      \<and> (\<exists>p. claims (w_ledger w) = filter (\<lambda>c. p (claim_id c, created_at c)) (w_history w)
            \<and> (\<forall>c\<in>set (w_history w). \<not> p (claim_id c, created_at c) \<longrightarrow>
                  created_at c < w_clock w - horizon pol)))"

lemma well_keptI:
  assumes "distinct (map claim_id (w_history w))"
    and "\<And>c. c \<in> set (w_history w) \<Longrightarrow> claim_id c \<le> last_rowid (w_ledger w) \<and> 0 \<le> amount_zat c"
    and "claims (w_ledger w) = filter (\<lambda>c. p (claim_id c, created_at c)) (w_history w)"
    and "\<And>c. c \<in> set (w_history w) \<Longrightarrow> \<not> p (claim_id c, created_at c) \<Longrightarrow>
           created_at c < w_clock w - horizon pol"
  shows "well_kept pol w"
  using assms unfolding well_kept_def by blast

lemma well_kept_filter:
  assumes "well_kept pol w"
    and "\<And>c. c \<in> set (w_history w) \<Longrightarrow> P c \<Longrightarrow> w_clock w - horizon pol \<le> created_at c"
  shows "filter P (claims (w_ledger w)) = filter P (w_history w)"
proof -
  obtain p where p: "claims (w_ledger w) = filter (\<lambda>c. p (claim_id c, created_at c)) (w_history w)"
    and old: "\<And>c. c \<in> set (w_history w) \<Longrightarrow> \<not> p (claim_id c, created_at c) \<Longrightarrow>
        created_at c < w_clock w - horizon pol"
    using assms(1) unfolding well_kept_def by blast
  have "p (claim_id c, created_at c)" if "c \<in> set (w_history w)" "P c" for c
    using old [of c] assms(2) [of c] that by fastforce
  then show ?thesis unfolding p by (auto intro: filter_cong)
qed

lemma well_kept_table: "well_kept pol w \<Longrightarrow> set (claims (w_ledger w)) \<subseteq> set (w_history w)"
  unfolding well_kept_def by auto

lemma well_kept_init: "well_kept pol \<lparr>w_ledger = empty_ledger, w_clock = t, w_history = []\<rparr>"
  by (simp add: well_kept_def empty_ledger_def)

lemma well_kept_tick:
  assumes "well_kept pol w" and "w_clock w \<le> t"
  shows "well_kept pol (w\<lparr>w_clock := t\<rparr>)"
proof -
  obtain p where p: "claims (w_ledger w) = filter (\<lambda>c. p (claim_id c, created_at c)) (w_history w)"
    and old: "\<And>c. c \<in> set (w_history w) \<Longrightarrow> \<not> p (claim_id c, created_at c) \<Longrightarrow>
        created_at c < w_clock w - horizon pol"
    using assms(1) unfolding well_kept_def by blast
  show ?thesis
    using assms p old by (intro well_keptI [where p = p]) (force simp: well_kept_def)+
qed

lemma well_kept_purge:
  assumes "well_kept pol w" and "now \<le> w_clock w"
  shows "well_kept pol
    (w\<lparr>w_ledger := purge_sql (retention_cutoff (pol_lease pol) now (pol_cooldown pol)) (w_ledger w)\<rparr>)"
proof -
  let ?cut = "retention_cutoff (pol_lease pol) now (pol_cooldown pol)"
  have cut: "?cut \<le> w_clock w - horizon pol"
    using assms(2) by (simp add: retention_cutoff_def horizon_def)
  obtain p where p: "claims (w_ledger w) = filter (\<lambda>c. p (claim_id c, created_at c)) (w_history w)"
    and old: "\<And>c. c \<in> set (w_history w) \<Longrightarrow> \<not> p (claim_id c, created_at c) \<Longrightarrow>
        created_at c < w_clock w - horizon pol"
    using assms(1) unfolding well_kept_def by blast
  have new: "created_at c < w_clock w - horizon pol"
    if "c \<in> set (w_history w)" "\<not> (p (claim_id c, created_at c) \<and> \<not> created_at c < ?cut)" for c
    using old [of c] cut that by auto
  show ?thesis
    using assms(1) p new
    by (intro well_keptI [where p = "\<lambda>x. p x \<and> \<not> snd x < ?cut"])
      (auto simp: well_kept_def conj_commute)
qed

lemma well_kept_reserve:
  assumes "well_kept pol w" and "0 \<le> ro_amount_zat o'"
  shows "well_kept pol
      (w\<lparr>w_ledger := snd (reserve_sql o' (w_ledger w)),
         w_history := (if reserve_admits o' (claims (w_ledger w))
           then w_history w @ [reserve_row o' (last_rowid (w_ledger w) + 1)] else w_history w)\<rparr>)"
proof (cases "reserve_admits o' (claims (w_ledger w))")
  case False
  with assms show ?thesis by (simp add: reserve_sql_refused)
next
  case True
  let ?i = "last_rowid (w_ledger w) + 1"
  obtain p where p: "claims (w_ledger w) = filter (\<lambda>c. p (claim_id c, created_at c)) (w_history w)"
    and old: "\<And>c. c \<in> set (w_history w) \<Longrightarrow> \<not> p (claim_id c, created_at c) \<Longrightarrow>
        created_at c < w_clock w - horizon pol"
    using assms(1) unfolding well_kept_def by blast
  have ids: "claim_id c \<le> last_rowid (w_ledger w)" if "c \<in> set (w_history w)" for c
    using assms(1) that unfolding well_kept_def by blast
  have fresh: "?i \<notin> claim_id ` set (w_history w)" using ids by force
  have same: "filter (\<lambda>c. p (claim_id c, created_at c) \<or> claim_id c = ?i) (w_history w)
      = filter (\<lambda>c. p (claim_id c, created_at c)) (w_history w)"
    using ids by (intro filter_cong) force+
  have row: "claim_id (reserve_row o' ?i) = ?i" "amount_zat (reserve_row o' ?i) = ro_amount_zat o'"
    by (simp_all add: reserve_row_def)
  have led: "snd (reserve_sql o' (w_ledger w)) =
      (w_ledger w)\<lparr>claims := claims (w_ledger w) @ [reserve_row o' ?i], last_rowid := ?i\<rparr>"
    using True by (simp add: reserve_sql_def Let_def)
  show ?thesis
    using assms p True old fresh
    by (intro well_keptI [where p = "\<lambda>x. p x \<or> fst x = ?i"])
      (auto simp: well_kept_def led row same dest: ids)
qed

lemma well_kept_finalize:
  assumes "well_kept pol w"
  shows "well_kept pol
    (w\<lparr>w_ledger := finalize_sql st tx i (w_ledger w), w_history := map (set_status st tx i) (w_history w)\<rparr>)"
proof -
  obtain p where p: "claims (w_ledger w) = filter (\<lambda>c. p (claim_id c, created_at c)) (w_history w)"
    and old: "\<And>c. c \<in> set (w_history w) \<Longrightarrow> \<not> p (claim_id c, created_at c) \<Longrightarrow>
        created_at c < w_clock w - horizon pol"
    using assms(1) unfolding well_kept_def by blast
  have "map claim_id (map (set_status st tx i) (w_history w)) = map claim_id (w_history w)" by simp
  then show ?thesis
    using assms p old
    by (intro well_keptI [where p = p]) (auto simp: well_kept_def filter_map comp_def)
qed

lemma ledger_step_well_kept: "ledger_step pol w w' \<Longrightarrow> well_kept pol w \<Longrightarrow> well_kept pol w'"
  by (induction rule: ledger_step.induct)
    (simp_all only: well_kept_tick well_kept_purge well_kept_reserve well_kept_finalize obeys_def)

lemma reachable_well_kept: "ledger_reachable pol w \<Longrightarrow> well_kept pol w"
  by (induction rule: ledger_reachable.induct) (auto intro: well_kept_init ledger_step_well_kept)

subsection \<open>Quotas\<close>

text \<open>
  A row that has been paid, or that its handler may still pay: pending and inside its lease.
\<close>

definition may_pay :: "policy \<Rightarrow> int \<Rightarrow> claim \<Rightarrow> bool" where
  "may_pay pol t c =
     (status c = Sent \<or> (status c = Pending \<and> t < created_at c + pol_lease pol))"

lemma set_status_Pending:
  "st \<noteq> Pending \<Longrightarrow> status (set_status st tx i c) = Pending \<longleftrightarrow> claim_id c \<noteq> i \<and> status c = Pending"
  by simp

text \<open>
  The contract between an admission clause and the guarantee it buys. A client counts rows by
  \<open>weight\<close> over the last \<open>window\<close> seconds; the provider promises that the statement admits a row
  of non-zero weight only when the live weight, the row included, stays within \<open>limit\<close>. Three
  clauses of the statement provide it: the daily cap, the connection limit, the subnet limit.
\<close>

locale quota =
  fixes pol :: policy
    and weight :: "claim \<Rightarrow> int"
    and window :: int
    and limit :: int
  assumes weight_nonneg: "0 \<le> amount_zat c \<Longrightarrow> 0 \<le> weight c"
    and weight_status: "weight (set_status st tx i c) = weight c"
    and window_kept: "window \<le> max (pol_cooldown pol) 86400"
    and admitted: "obeys pol o' \<Longrightarrow> reserve_admits o' rows \<Longrightarrow> \<forall>c\<in>set rows. 0 \<le> amount_zat c \<Longrightarrow>
        weight (reserve_row o' i) \<noteq> 0 \<Longrightarrow>
        sum_list (map weight (filter (live_from (ro_now o' - window) (ro_now o' - pol_lease pol + 1)) rows))
          + weight (reserve_row o' i) \<le> limit"
begin

definition exposure :: "world \<Rightarrow> int \<Rightarrow> int" where
  "exposure w t =
     sum_list (map weight (filter (\<lambda>c. may_pay pol (w_clock w) c \<and> t - window \<le> created_at c) (w_history w)))"

lemma history_weight_nonneg: "well_kept pol w \<Longrightarrow> c \<in> set (w_history w) \<Longrightarrow> 0 \<le> weight c"
  by (auto simp: well_kept_def intro: weight_nonneg)

lemma exposure_tick:
  assumes "well_kept pol w" and "w_clock w \<le> t'"
  shows "exposure (w\<lparr>w_clock := t'\<rparr>) t \<le> exposure w t"
  using assms history_weight_nonneg [of w]
  by (auto simp: exposure_def may_pay_def intro!: sum_list_filter_mono)

lemma exposure_finalize:
  assumes wk: "well_kept pol w" and st: "st \<noteq> Pending" and s: "settles pol w i"
  shows "exposure (w\<lparr>w_ledger := l', w_history := map (set_status st tx i) (w_history w)\<rparr>) t
           \<le> exposure w t"
proof -
  obtain k where k: "k \<in> set (w_history w)" "claim_id k = i" "status k = Pending"
    "w_clock w < created_at k + pol_lease pol"
    using s well_kept_table [OF wk] by (auto simp: settles_def)
  have one: "c = k" if "c \<in> set (w_history w)" "claim_id c = i" for c
    using wk k that by (auto simp: well_kept_def distinct_map dest: inj_onD)
  have "exposure (w\<lparr>w_ledger := l', w_history := map (set_status st tx i) (w_history w)\<rparr>) t =
    sum_list (map weight (filter (\<lambda>c. may_pay pol (w_clock w) (set_status st tx i c)
        \<and> t - window \<le> created_at c) (w_history w)))"
    by (simp add: exposure_def filter_map comp_def weight_status)
  also have "\<dots> \<le> exposure w t"
    unfolding exposure_def
  proof (rule sum_list_filter_mono)
    fix c assume c: "c \<in> set (w_history w)"
    then show "0 \<le> weight c" by (rule history_weight_nonneg [OF wk])
    assume p: "may_pay pol (w_clock w) (set_status st tx i c) \<and> t - window \<le> created_at c"
    show "may_pay pol (w_clock w) c \<and> t - window \<le> created_at c"
    proof (cases "claim_id c = i")
      case True
      with c have "c = k" by (rule one)
      with k p show ?thesis by (simp add: may_pay_def)
    next
      case False
      with p show ?thesis by (simp add: may_pay_def)
    qed
  qed
  finally show ?thesis .
qed

lemma exposure_reserve:
  assumes wk: "well_kept pol w" and ob: "obeys pol o'" and now: "ro_now o' \<le> w_clock w"
    and skew: "w_clock w \<le> ro_now o' + 3600" and ad: "reserve_admits o' (claims (w_ledger w))"
    and t: "w_clock w \<le> t"
    and le: "exposure w t \<le> limit"
  shows "exposure (w\<lparr>w_ledger := l', w_history := w_history w @ [reserve_row o' i]\<rparr>) t \<le> limit"
proof (cases "weight (reserve_row o' i) = 0")
  case True
  with le show ?thesis by (simp add: exposure_def)
next
  case False
  let ?live = "live_from (ro_now o' - window) (ro_now o' - pol_lease pol + 1)"
  have seen: "w_clock w - horizon pol \<le> created_at c" if "?live c" for c
    using that skew window_kept by (auto simp: live_from_def horizon_def)
  have nn: "0 \<le> weight c" if "c \<in> set (w_history w)" for c
    using history_weight_nonneg [OF wk that] .
  have amt: "\<forall>c\<in>set (claims (w_ledger w)). 0 \<le> amount_zat c"
    using wk well_kept_table [OF wk] by (auto simp: well_kept_def)
  have "exposure w t \<le> sum_list (map weight (filter ?live (w_history w)))"
    unfolding exposure_def
    by (rule sum_list_filter_mono) (use nn now t in \<open>auto simp: may_pay_def live_from_def\<close>)
  also have "\<dots> = sum_list (map weight (filter ?live (claims (w_ledger w))))"
    using well_kept_filter [OF wk] seen by metis
  finally have "exposure w t + weight (reserve_row o' i) \<le> limit"
    using admitted [OF ob ad amt False] by linarith
  moreover have "0 \<le> weight (reserve_row o' i)"
    using ob by (intro weight_nonneg) (simp add: obeys_def reserve_row_def)
  ultimately show ?thesis using le by (simp add: exposure_def)
qed

lemma exposure_bounded:
  assumes "ledger_reachable pol w" and "0 \<le> limit" and "w_clock w \<le> t"
  shows "exposure w t \<le> limit"
  using assms(1,3)
proof (induction arbitrary: t rule: ledger_reachable.induct)
  case (reach_init t0)
  then show ?case using assms(2) by (simp add: exposure_def)
next
  case (reach_step w w')
  have wk: "well_kept pol w" using reach_step.hyps(1) by (rule reachable_well_kept)
  from reach_step.hyps(2) reach_step.prems show ?case
  proof (cases rule: ledger_step.cases)
    case (step_tick t')
    with reach_step.prems reach_step.IH [of t] exposure_tick [OF wk, of t' t] show ?thesis by simp
  next
    case (step_purge now)
    with reach_step.prems reach_step.IH [of t] show ?thesis by (simp add: exposure_def)
  next
    case (step_reserve o')
    with reach_step.prems reach_step.IH [of t] show ?thesis
      by (cases "reserve_admits o' (claims (w_ledger w))")
        (simp_all add: exposure_reserve [OF wk], simp add: exposure_def)
  next
    case (step_finalize st i tx)
    with reach_step.prems reach_step.IH [of t]
      exposure_finalize [OF wk, where st = st and i = i and tx = tx and t = t
        and l' = "finalize_sql st tx i (w_ledger w)"] show ?thesis
      by fastforce
  qed
qed

end

subsection \<open>The three limits as quotas\<close>

definition cap_weight :: "network \<Rightarrow> claim \<Rightarrow> int" where
  "cap_weight n c = (if claim_network c = n then amount_zat c else 0)"

definition ip_weight :: "string \<Rightarrow> network \<Rightarrow> claim \<Rightarrow> int" where
  "ip_weight h n c = (if h \<noteq> '''' \<and> ip_hash c = h \<and> claim_network c = n then 1 else 0)"

definition subnet_weight :: "string \<Rightarrow> claim \<Rightarrow> int" where
  "subnet_weight h c = (if h \<noteq> '''' \<and> subnet_hash c = Some h then 1 else 0)"

lemma sum_cap_weight:
  "sum_list (map (cap_weight n) (filter P rows))
     = sum_list (map amount_zat (filter (\<lambda>c. claim_network c = n \<and> P c) rows))"
  by (induction rows) (auto simp: cap_weight_def)

lemma sum_ip_weight:
  "h \<noteq> '''' \<Longrightarrow> sum_list (map (ip_weight h n) (filter P rows))
     = int (length (filter (\<lambda>c. ip_hash c = h \<and> claim_network c = n \<and> P c) rows))"
  by (induction rows) (auto simp: ip_weight_def)

lemma sum_subnet_weight:
  "h \<noteq> '''' \<Longrightarrow> sum_list (map (subnet_weight h) (filter P rows))
     = int (length (filter (\<lambda>c. subnet_hash c = Some h \<and> P c) rows))"
  by (induction rows) (auto simp: subnet_weight_def)

lemma weight_laws:
  "0 \<le> amount_zat c \<Longrightarrow> 0 \<le> cap_weight n c"
  "cap_weight n (set_status st tx i c) = cap_weight n c"
  "0 \<le> ip_weight h n c" "ip_weight h n (set_status st tx i c) = ip_weight h n c"
  "0 \<le> subnet_weight h c" "subnet_weight h (set_status st tx i c) = subnet_weight h c"
  by (simp_all add: cap_weight_def ip_weight_def subnet_weight_def)

lemma cap_admitted:
  assumes "obeys pol o'" and "reserve_admits o' rows" and "\<forall>c\<in>set rows. 0 \<le> amount_zat c"
    and "cap_weight n (reserve_row o' i) \<noteq> 0"
  shows "sum_list (map (cap_weight n)
      (filter (live_from (ro_now o' - 86400) (ro_now o' - pol_lease pol + 1)) rows))
      + cap_weight n (reserve_row o' i) \<le> pol_cap pol n"
proof -
  have n: "n = ro_network o'" and w: "cap_weight n (reserve_row o' i) = ro_amount_zat o'"
    using assms(4) by (auto simp: cap_weight_def reserve_row_def split: if_splits)
  have "sum_list (map (cap_weight n)
      (filter (live_from (ro_now o' - 86400) (ro_now o' - pol_lease pol + 1)) rows)) \<le> cap_sum o' rows"
    unfolding sum_cap_weight cap_sum_def
    using assms(1,3) n
    by (intro sum_list_filter_mono)
      (auto simp: cap_live_def obeys_def day_since_def lease_cut_def live_from_def)
  then show ?thesis using assms(1,2) n w by (simp add: reserve_admits_def obeys_def)
qed

lemma ip_admitted:
  assumes "obeys pol o'" and "reserve_admits o' rows" and "ip_weight h n (reserve_row o' i) \<noteq> 0"
  shows "sum_list (map (ip_weight h n) (filter (live_from (ro_now o' - (pol_cooldown pol - 1))
        (ro_now o' - pol_lease pol + 1)) rows)) + ip_weight h n (reserve_row o' i) \<le> pol_ip_max pol"
proof -
  have h: "h \<noteq> ''''" "h = ro_ip_hash o'" "n = ro_network o'" "ip_weight h n (reserve_row o' i) = 1"
    using assms(3) by (auto simp: ip_weight_def reserve_row_def split: if_splits)
  have live: "(\<lambda>c. ip_hash c = h \<and> claim_network c = n \<and> live_from (ro_now o' - (pol_cooldown pol - 1))
      (ro_now o' - pol_lease pol + 1) c) = ip_live o'"
    using assms(1) h by (auto simp: fun_eq_iff ip_live_def live_after_live_from obeys_def
        cooldown_cut_def lease_cut_def algebra_simps)
  have "ip_count o' rows < pol_ip_max pol"
    using assms(1,2) h by (simp add: reserve_admits_def obeys_def)
  then show ?thesis unfolding sum_ip_weight [OF h(1)] live h(4) by (simp add: ip_count_def)
qed

lemma subnet_admitted:
  assumes "obeys pol o'" and "reserve_admits o' rows" and "subnet_weight h (reserve_row o' i) \<noteq> 0"
  shows "sum_list (map (subnet_weight h)
      (filter (live_from (ro_now o' - 86400) (ro_now o' - pol_lease pol + 1)) rows))
      + subnet_weight h (reserve_row o' i) \<le> pol_subnet_max pol"
proof -
  have h: "h \<noteq> ''''" "h = ro_subnet_hash o'" "subnet_weight h (reserve_row o' i) = 1"
    using assms(3) by (auto simp: subnet_weight_def reserve_row_def split: if_splits)
  have "int (length (filter (\<lambda>c. subnet_hash c = Some h
      \<and> live_from (ro_now o' - 86400) (ro_now o' - pol_lease pol + 1) c) rows)) \<le> subnet_count o' rows"
    unfolding subnet_count_def length_filter_sum
    using assms(1) h
    by (intro sum_list_filter_mono)
      (auto simp: subnet_live_def obeys_def day_since_def lease_cut_def live_from_def)
  moreover have "subnet_count o' rows < pol_subnet_max pol"
    using assms(1,2) h by (simp add: reserve_admits_def obeys_def)
  ultimately show ?thesis using h by (simp add: sum_subnet_weight)
qed

interpretation cap_quota: quota pol "cap_weight n" 86400 "pol_cap pol n" for pol n
  by unfold_locales (simp_all add: weight_laws cap_admitted)

interpretation ip_quota: quota pol "ip_weight h n" "pol_cooldown pol - 1" "pol_ip_max pol" for pol h n
  by unfold_locales (simp_all add: weight_laws ip_admitted)

interpretation subnet_quota: quota pol "subnet_weight h" 86400 "pol_subnet_max pol" for pol h
  by unfold_locales (simp_all add: weight_laws subnet_admitted)

subsection \<open>One drip per address\<close>

text \<open>
  Two rows of one address on one network, in insertion order: the first failed, or the second
  was created a full cooldown after it, or the first is a pending row whose lease is over.
\<close>

definition apart :: "policy \<Rightarrow> int \<Rightarrow> claim \<Rightarrow> claim \<Rightarrow> bool" where
  "apart pol t c d =
     (address_hash c = address_hash d \<and> claim_network c = claim_network d \<longrightarrow>
        status c = Failed \<or> created_at c + pol_cooldown pol \<le> created_at d
        \<or> (status c = Pending \<and> created_at c + pol_lease pol \<le> t))"

lemma apart_tick: "apart pol t c d \<Longrightarrow> t \<le> t' \<Longrightarrow> apart pol t' c d"
  by (auto simp: apart_def)

lemma apart_reserve:
  assumes wk: "well_kept pol w" and ob: "obeys pol o'" and now: "ro_now o' \<le> w_clock w"
    and skew: "w_clock w \<le> ro_now o' + 3600" and ad: "reserve_admits o' (claims (w_ledger w))"
    and c: "c \<in> set (w_history w)"
  shows "apart pol (w_clock w) c (reserve_row o' i)"
proof (cases "c \<in> set (claims (w_ledger w))")
  case True
  then have "\<not> (address_hash c = ro_address_hash o' \<and> claim_network c = ro_network o'
      \<and> live_after (cooldown_cut o') (lease_cut o') c)"
    using ad by (auto simp: reserve_admits_def address_blocked_def list_ex_iff)
  then show ?thesis
    using ob now
    by (cases "status c") (auto simp: apart_def reserve_row_def live_after_def obeys_def
        cooldown_cut_def lease_cut_def)
next
  case False
  obtain p where p: "claims (w_ledger w) = filter (\<lambda>c. p (claim_id c, created_at c)) (w_history w)"
    and old: "\<And>c. c \<in> set (w_history w) \<Longrightarrow> \<not> p (claim_id c, created_at c) \<Longrightarrow>
        created_at c < w_clock w - horizon pol"
    using wk unfolding well_kept_def by blast
  have "created_at c < w_clock w - horizon pol" using old [OF c] False p c by auto
  then show ?thesis using skew by (auto simp: apart_def reserve_row_def horizon_def)
qed

lemma apart_finalize:
  assumes wk: "well_kept pol w" and st: "st \<noteq> Pending" and s: "settles pol w i"
    and c: "c \<in> set (w_history w)" and a: "apart pol (w_clock w) c d"
  shows "apart pol (w_clock w) (set_status st tx i c) (set_status st tx i d)"
proof (cases "claim_id c = i")
  case True
  obtain k where k: "k \<in> set (w_history w)" "claim_id k = i" "status k = Pending"
    "w_clock w < created_at k + pol_lease pol"
    using s well_kept_table [OF wk] by (auto simp: settles_def)
  have "c = k" using wk c k True by (auto simp: well_kept_def distinct_map dest: inj_onD)
  with k a show ?thesis by (auto simp: apart_def)
next
  case False
  with a show ?thesis by (auto simp: apart_def)
qed

lemma reachable_apart:
  "ledger_reachable pol w \<Longrightarrow> sorted_wrt (apart pol (w_clock w)) (w_history w)"
proof (induction rule: ledger_reachable.induct)
  case (reach_init t)
  show ?case by simp
next
  case (reach_step w w')
  have wk: "well_kept pol w" using reach_step.hyps(1) by (rule reachable_well_kept)
  from reach_step.hyps(2) show ?case
  proof (cases rule: ledger_step.cases)
    case (step_tick t')
    with reach_step.IH show ?thesis
      by (auto intro: sorted_wrt_mono_rel [rotated] apart_tick)
  next
    case (step_purge now)
    with reach_step.IH show ?thesis by simp
  next
    case (step_reserve o')
    with reach_step.IH apart_reserve [OF wk] show ?thesis
      by (simp add: sorted_wrt_append)
  next
    case (step_finalize st i tx)
    have "sorted_wrt (\<lambda>c d. apart pol (w_clock w) (set_status st tx i c) (set_status st tx i d))
        (w_history w)"
      by (rule sorted_wrt_mono_rel [OF _ reach_step.IH])
        (rule apart_finalize [OF wk step_finalize(2,3)])
    then show ?thesis using step_finalize by (simp add: sorted_wrt_map)
  qed
qed

lemma reachable_payouts_apart:
  assumes "ledger_reachable pol w" and "i < j" and "j < length (w_history w)"
    and "status (w_history w ! i) = Sent" and "address_hash (w_history w ! i) = address_hash (w_history w ! j)"
    and "claim_network (w_history w ! i) = claim_network (w_history w ! j)"
  shows "created_at (w_history w ! i) + pol_cooldown pol \<le> created_at (w_history w ! j)"
  using sorted_wrt_nth_less [OF reachable_apart [OF assms(1)] assms(2,3)] assms(4-6)
  by (auto simp: apart_def)

subsection \<open>Properties\<close>

text \<open>
  A run used by the witnesses: one address is paid, waits the full cooldown, and is paid again.
\<close>

definition ex_pol :: policy where
  "ex_pol = \<lparr>pol_cooldown = 86400, pol_lease = 6549, pol_cap = (\<lambda>_. 100), pol_subnet_max = 20,
     pol_ip_max = 5\<rparr>"

definition ex_opts :: "int \<Rightarrow> reserve_opts" where
  "ex_opts t = \<lparr>ro_address_hash = ''A'', ro_ip_hash = ''h'', ro_subnet_hash = ''s'',
     ro_amount_zat = 10, ro_now = t, ro_cooldown_seconds = 86400, ro_daily_cap_zat = 100,
     ro_subnet_daily_max = 20, ro_ip_daily_max = 5, ro_network = Taz, ro_lease_seconds = 6549\<rparr>"

definition ex_claim :: "int \<Rightarrow> claim_status \<Rightarrow> string option \<Rightarrow> int \<Rightarrow> claim" where
  "ex_claim i st tx t = \<lparr>claim_id = i, address_hash = ''A'', ip_hash = ''h'',
     subnet_hash = Some ''s'', amount_zat = 10, claim_txid = tx, status = st, created_at = t,
     claim_network = Taz\<rparr>"

definition ex_world :: "int \<Rightarrow> int \<Rightarrow> claim list \<Rightarrow> world" where
  "ex_world n t cs = \<lparr>w_ledger = empty_ledger\<lparr>claims := cs, last_rowid := n\<rparr>, w_clock = t,
     w_history = cs\<rparr>"

lemmas ex_run_defs = ex_pol_def ex_opts_def ex_claim_def ex_world_def empty_ledger_def

lemma ex_reserve:
  assumes "ledger_reachable ex_pol (ex_world n t cs)" and "reserve_admits (ex_opts t) cs"
  shows "ledger_reachable ex_pol (ex_world (n + 1) t (cs @ [ex_claim (n + 1) Pending None t]))"
proof -
  have "ledger_step ex_pol (ex_world n t cs)
      (ex_world (n + 1) t (cs @ [ex_claim (n + 1) Pending None t]))"
    using step_reserve [of ex_pol "ex_opts t" "ex_world n t cs"] assms(2)
    by (simp add: ex_run_defs obeys_def reserve_sql_def reserve_row_def Let_def)
  with assms(1) show ?thesis by (rule reach_step)
qed

lemma ex_finalize:
  assumes "ledger_reachable ex_pol (ex_world n t cs)"
    and "settles ex_pol (ex_world n t cs) i"
  shows "ledger_reachable ex_pol (ex_world n t (map (set_status Sent tx i) cs))"
proof -
  have "ledger_step ex_pol (ex_world n t cs) (ex_world n t (map (set_status Sent tx i) cs))"
    using step_finalize [of Sent ex_pol "ex_world n t cs" i tx] assms(2)
    by (simp add: ex_world_def empty_ledger_def finalize_sql_def set_status_def [abs_def])
  with assms(1) show ?thesis by (rule reach_step)
qed

lemma ex_tick:
  assumes "ledger_reachable ex_pol (ex_world n t cs)" and "t \<le> t'"
  shows "ledger_reachable ex_pol (ex_world n t' cs)"
  using reach_step [OF assms(1) step_tick [of "ex_world n t cs" t']] assms(2)
  by (simp add: ex_world_def)

lemma ex_reachable:
  "ledger_reachable ex_pol (ex_world 2 86400
     [ex_claim 1 Sent (Some ''t1'') 0, ex_claim 2 Sent (Some ''t2'') 86400])"
proof -
  have 0: "ledger_reachable ex_pol (ex_world 0 0 [])"
    using reach_init [of ex_pol 0] by (simp add: ex_world_def empty_ledger_def)
  have 1: "ledger_reachable ex_pol (ex_world 1 0 [ex_claim 1 Pending None 0])"
    using ex_reserve [OF 0] by (simp add: reserve_admits_def address_blocked_def ip_count_def
        subnet_count_def cap_sum_def ex_opts_def)
  have 2: "ledger_reachable ex_pol (ex_world 1 0 [ex_claim 1 Sent (Some ''t1'') 0])"
    using ex_finalize [OF 1, of 1 "Some ''t1''"]
    by (simp add: settles_def ex_run_defs set_status_def)
  have 3: "ledger_reachable ex_pol (ex_world 1 86400 [ex_claim 1 Sent (Some ''t1'') 0])"
    using ex_tick [OF 2, of 86400] by simp
  have 4: "ledger_reachable ex_pol (ex_world 2 86400
      [ex_claim 1 Sent (Some ''t1'') 0, ex_claim 2 Pending None 86400])"
    using ex_reserve [OF 3]
    by (simp add: reserve_admits_def address_blocked_def ip_count_def ip_live_def
        subnet_count_def subnet_live_def cap_sum_def cap_live_def ex_opts_def ex_claim_def
        live_after_def live_from_def cooldown_cut_def lease_cut_def day_since_def)
  show ?thesis
    using ex_finalize [OF 4, of 2 "Some ''t2''"]
    by (simp add: settles_def ex_run_defs set_status_def)
qed

text \<open>
  C2: No double drip. In every interleaving of reservations, finalisations, purges and time
  passing, two different claims of one address on one network that were both paid were created at
  least a full cooldown apart, as long as every handler finalises its row inside the pending lease.
  The statement quantifies over all rows ever inserted, so the purge cannot hide a second drip.
\<close>

theorem no_second_payout_within_cooldown:
  assumes "ledger_reachable pol w"
    and "c \<in> set (w_history w)" and "d \<in> set (w_history w)" and "claim_id c \<noteq> claim_id d"
    and "status c = Sent" and "status d = Sent"
    and "address_hash c = address_hash d" and "claim_network c = claim_network d"
  shows "pol_cooldown pol \<le> \<bar>created_at c - created_at d\<bar>"
proof -
  obtain i j where ij: "i < length (w_history w)" "w_history w ! i = c"
      "j < length (w_history w)" "w_history w ! j = d"
    using assms(2,3) by (auto simp: in_set_conv_nth)
  have "i \<noteq> j" using ij assms(4) by auto
  then consider "i < j" | "j < i" by linarith
  then show ?thesis
  proof cases
    case 1
    show ?thesis using reachable_payouts_apart [OF assms(1) 1 ij(3)] ij assms(5,7,8) by auto
  next
    case 2
    show ?thesis using reachable_payouts_apart [OF assms(1) 2 ij(1)] ij assms(6,7,8) by auto
  qed
qed

theorem no_second_payout_within_cooldown_witness:
  "86400 \<le> \<bar>created_at (ex_claim 1 Sent (Some ''t1'') 0) - created_at (ex_claim 2 Sent (Some ''t2'') 86400)\<bar>"
  using no_second_payout_within_cooldown [OF ex_reachable,
      of "ex_claim 1 Sent (Some ''t1'') 0" "ex_claim 2 Sent (Some ''t2'') 86400"]
  by (simp add: ex_run_defs)

text \<open>
  C3: The daily cap is never exceeded. In every reachable state, from now on, the amounts paid on a
  network in any 24 hours back from \<open>t\<close>, plus those a live handler may still pay, stay within that
  network's cap, however many claims race.
\<close>

theorem daily_cap_never_exceeded:
  assumes "ledger_reachable pol w" and "0 \<le> pol_cap pol n" and "w_clock w \<le> t"
  shows "sum_list (map amount_zat (filter (\<lambda>c. claim_network c = n
      \<and> may_pay pol (w_clock w) c \<and> t - 86400 \<le> created_at c) (w_history w))) \<le> pol_cap pol n"
  using cap_quota.exposure_bounded [OF assms]
  by (simp add: cap_quota.exposure_def sum_cap_weight)

theorem daily_cap_never_exceeded_witness:
  "sum_list (map amount_zat (filter (\<lambda>c. claim_network c = Taz \<and> may_pay ex_pol 86400 c
     \<and> 0 \<le> created_at c) [ex_claim 1 Sent (Some ''t1'') 0, ex_claim 2 Sent (Some ''t2'') 86400])) \<le> 100"
  using daily_cap_never_exceeded [OF ex_reachable, of Taz 86400]
  by (simp add: ex_pol_def ex_world_def)

text \<open>
  A connection gets at most its daily maximum of drips on one network: rows of one client
  fingerprint created within a cooldown and paid, or still payable, never exceed the limit.
\<close>

theorem connection_limit_never_exceeded:
  assumes "ledger_reachable pol w" and "0 \<le> pol_ip_max pol" and "w_clock w \<le> t" and "h \<noteq> ''''"
  shows "int (length (filter (\<lambda>c. ip_hash c = h \<and> claim_network c = n
      \<and> may_pay pol (w_clock w) c \<and> t - pol_cooldown pol < created_at c) (w_history w))) \<le> pol_ip_max pol"
proof -
  have eq: "(t - (pol_cooldown pol - 1) \<le> created_at c) = (t - pol_cooldown pol < created_at c)" for c
    by auto
  show ?thesis
    using ip_quota.exposure_bounded [OF assms(1-3), of h n]
    by (simp only: ip_quota.exposure_def sum_ip_weight [OF assms(4)] eq)
qed

theorem connection_limit_never_exceeded_witness:
  "int (length (filter (\<lambda>c. ip_hash c = ''h'' \<and> claim_network c = Taz \<and> may_pay ex_pol 86400 c
     \<and> 0 < created_at c) [ex_claim 1 Sent (Some ''t1'') 0, ex_claim 2 Sent (Some ''t2'') 86400])) \<le> 5"
  using connection_limit_never_exceeded [OF ex_reachable, of 86400 "''h''" Taz]
  by (simp add: ex_pol_def ex_world_def)

text \<open>
  A subnet gets at most its daily maximum of drips over both networks together, whatever
  addresses inside it the claims come from.
\<close>

theorem subnet_limit_never_exceeded:
  assumes "ledger_reachable pol w" and "0 \<le> pol_subnet_max pol" and "w_clock w \<le> t" and "h \<noteq> ''''"
  shows "int (length (filter (\<lambda>c. subnet_hash c = Some h
      \<and> may_pay pol (w_clock w) c \<and> t - 86400 \<le> created_at c) (w_history w))) \<le> pol_subnet_max pol"
  using subnet_quota.exposure_bounded [OF assms(1-3), of h]
  by (simp only: subnet_quota.exposure_def sum_subnet_weight [OF assms(4)])

theorem subnet_limit_never_exceeded_witness:
  "int (length (filter (\<lambda>c. subnet_hash c = Some ''s'' \<and> may_pay ex_pol 86400 c \<and> 0 \<le> created_at c)
     [ex_claim 1 Sent (Some ''t1'') 0, ex_claim 2 Sent (Some ''t2'') 86400])) \<le> 20"
  using subnet_limit_never_exceeded [OF ex_reachable, of 86400 "''s''"]
  by (simp add: ex_pol_def ex_world_def)

end
