(* ===== verification/Send_Budget.thy ===== *)
theory Send_Budget
  imports Prelude
begin

text \<open>
  How long one queued send can take: \<open>src/src/lib/zcash/sendBudget.ts\<close>, and the two values
  \<open>src/src/lib/config.ts\<close> derives from it, the caller's deadline and the real residence of a
  send in the queue. Milliseconds. \<open>src/src/lib/zcash/failover.ts\<close> shares the arithmetic style:
  one time budget over several endpoints.
\<close>

definition POLL_RETRIES :: int where
  "POLL_RETRIES = 3"

record sender_timings =
  opTimeoutMs :: int
  rpcTimeoutMs :: int
  pollMs :: int

definition sender_worst_case_ms :: "sender_timings \<Rightarrow> int" where
  "sender_worst_case_ms z =
     (let rpcCalls = 3 + POLL_RETRIES;
          backoffSleeps = (POLL_RETRIES * (POLL_RETRIES + 1)) div 2
      in opTimeoutMs z + rpcCalls * rpcTimeoutMs z + backoffSleeps * pollMs z)"

definition DEADLINE_MARGIN_MS :: int where
  "DEADLINE_MARGIN_MS = 30000"

definition default_task_deadline_ms :: "sender_timings \<Rightarrow> int" where
  "default_task_deadline_ms z = sender_worst_case_ms z + DEADLINE_MARGIN_MS"

text \<open>\<open>zalletTimings\<close>: the environment's values, each with its floor.\<close>

definition zallet_timings :: "int \<Rightarrow> int \<Rightarrow> int \<Rightarrow> sender_timings" where
  "zallet_timings rpc opt poll =
     \<lparr>opTimeoutMs = max 5000 opt, rpcTimeoutMs = max 1000 rpc, pollMs = max 250 poll\<rparr>"

definition stock_timings :: sender_timings where
  "stock_timings = zallet_timings 15000 180000 1500"

text \<open>\<open>config.sendTaskDeadlineMs\<close> (the environment's value or the default) and
  \<open>config.sendResidenceMs\<close>.\<close>

definition send_task_deadline_ms :: "int option \<Rightarrow> sender_timings \<Rightarrow> int" where
  "send_task_deadline_ms env z = max 1000 (nullish env (default_task_deadline_ms z))"

definition send_residence_ms :: "int option \<Rightarrow> sender_timings \<Rightarrow> int" where
  "send_residence_ms env z = max (send_task_deadline_ms env z) (sender_worst_case_ms z)"

lemma sender_worst_case_ms_eq:
  "sender_worst_case_ms z = opTimeoutMs z + 6 * rpcTimeoutMs z + 6 * pollMs z"
  by (simp add: sender_worst_case_ms_def POLL_RETRIES_def)

lemma stock_worst_case: "sender_worst_case_ms stock_timings = 279000"
  by (simp add: sender_worst_case_ms_eq stock_timings_def zallet_timings_def)

lemma residence_pos: "0 < send_residence_ms env z"
  by (simp add: send_residence_ms_def send_task_deadline_ms_def)

subsection \<open>Failover budget\<close>

definition FAILOVER_BUDGET_MULTIPLIER :: int where
  "FAILOVER_BUDGET_MULTIPLIER = 2"

text \<open>\<open>createFailoverBudget\<close> fixes \<open>endsAt\<close>; \<open>next()\<close> reads the clock again.\<close>

definition failover_ends_at :: "int \<Rightarrow> int \<Rightarrow> int" where
  "failover_ends_at perAttemptMs now0 = now0 + perAttemptMs * FAILOVER_BUDGET_MULTIPLIER"

definition failover_next :: "int \<Rightarrow> int \<Rightarrow> int \<Rightarrow> int" where
  "failover_next perAttemptMs endsAt now = max 0 (min perAttemptMs (endsAt - now))"

text \<open>
  A failover loop over endpoints: each attempt gets \<open>next()\<close> as its deadline and takes at most
  that long; the loop stops when \<open>next()\<close> is zero. \<open>took\<close> is how long each endpoint would take.
\<close>

fun failover_loop :: "int \<Rightarrow> int \<Rightarrow> int \<Rightarrow> int list \<Rightarrow> int" where
  "failover_loop per endsAt now [] = now"
| "failover_loop per endsAt now (d # ds) =
     (let slice = failover_next per endsAt now
      in if slice = 0 then now else failover_loop per endsAt (now + min d slice) ds)"

lemma failover_loop_bound:
  "now \<le> endsAt \<Longrightarrow> failover_loop per endsAt now ds \<le> endsAt"
proof (induction per endsAt now ds rule: failover_loop.induct)
  case (1 per endsAt now)
  then show ?case by simp
next
  case (2 per endsAt now d ds)
  let ?slice = "failover_next per endsAt now"
  have "now + min d ?slice \<le> endsAt" if "?slice \<noteq> 0"
    using that "2.prems" by (auto simp: failover_next_def)
  then show ?case using "2.IH" [of ?slice] "2.prems" by (simp add: Let_def)
qed

end
