(* ===== verification/Send_Queue.thy ===== *)
theory Send_Queue
  imports Ledger Send_Budget
begin

text \<open>
  The serial send queue, \<open>SerialQueue\<close> of \<open>src/src/lib/zcash/queue.ts\<close>, and the drain of
  \<open>src/src/lib/drain.ts\<close>.

  \<open>this.tail\<close> is the chain of promises: \<open>q_chain\<close> holds the tasks accepted and not settled, in
  order; the head is the one whose turn it is, \<open>q_started\<close> its start time once it runs.
  \<open>q_timer\<close> is the armed deadline of the running task, \<open>q_answers\<close> what each caller's promise
  resolved to, first answer first kept (\<open>Promise.race\<close>). \<open>q_log\<close> is a ghost: the begin and end of
  every task, in time order.
\<close>

record task =
  task_id :: int
  task_deadline_ms :: int
  task_accepted :: int

datatype task_result = Task_Ok | Task_Threw

datatype answer = Answered task_result | Answered_Deadline

datatype log_entry = Began int | Ended int

record send_queue =
  q_max_pending :: int
  q_pending :: int
  q_chain :: "task list"
  q_started :: "int option"
  q_timer :: "int option"
  q_answers :: "(int \<times> answer) list"
  q_log :: "log_entry list"

datatype queue_error = Queue_Full_Error

definition new_queue :: "int \<Rightarrow> send_queue" where
  "new_queue m = \<lparr>q_max_pending = m, q_pending = 0, q_chain = [], q_started = None,
     q_timer = None, q_answers = [], q_log = []\<rparr>"

definition q_depth :: "send_queue \<Rightarrow> int" where
  "q_depth q = q_pending q"

text \<open>\<open>run(task, deadlineMs)\<close> at time \<open>now\<close>.\<close>

definition q_run :: "int \<Rightarrow> int \<Rightarrow> int \<Rightarrow> send_queue \<Rightarrow> queue_error + send_queue" where
  "q_run now i deadlineMs q =
     (if q_pending q \<ge> q_max_pending q then Inl Queue_Full_Error
      else Inr (q\<lparr>q_pending := q_pending q + 1,
                  q_chain := q_chain q @ [\<lparr>task_id = i, task_deadline_ms = deadlineMs, task_accepted = now\<rparr>]\<rparr>))"

text \<open>The callback chained on the tail: arm the deadline, then run the task.\<close>

definition q_start :: "int \<Rightarrow> send_queue \<Rightarrow> send_queue" where
  "q_start now q =
     (case (q_chain q, q_started q) of
        (t # _, None) \<Rightarrow>
          q\<lparr>q_started := Some now,
            q_timer := (if task_deadline_ms t > 0 then Some (now + task_deadline_ms t) else None),
            q_log := q_log q @ [Began (task_id t)]\<rparr>
      | _ \<Rightarrow> q)"

definition answer_once :: "int \<Rightarrow> answer \<Rightarrow> (int \<times> answer) list \<Rightarrow> (int \<times> answer) list" where
  "answer_once i a as = (if map_of as i = None then as @ [(i, a)] else as)"

text \<open>\<open>settle\<close> of a finished task, and the race it loses or wins.\<close>

definition q_settle :: "task_result \<Rightarrow> send_queue \<Rightarrow> send_queue" where
  "q_settle r q =
     (case (q_chain q, q_started q) of
        (t # ts, Some _) \<Rightarrow>
          q\<lparr>q_pending := q_pending q - 1, q_chain := ts, q_started := None, q_timer := None,
            q_answers := answer_once (task_id t) (Answered r) (q_answers q),
            q_log := q_log q @ [Ended (task_id t)]\<rparr>
      | _ \<Rightarrow> q)"

text \<open>The deadline timer: it rejects the caller's promise and touches nothing else.\<close>

definition q_expire :: "int \<Rightarrow> send_queue \<Rightarrow> send_queue" where
  "q_expire now q =
     (case (q_chain q, q_timer q) of
        (t # _, Some due) \<Rightarrow>
          if due \<le> now then q\<lparr>q_timer := None,
              q_answers := answer_once (task_id t) Answered_Deadline (q_answers q)\<rparr> else q
      | _ \<Rightarrow> q)"

subsection \<open>First in, first out\<close>

text \<open>
  The contract a serial queue gives its callers, and the order of service that follows from it:
  what has been served, followed by what waits, is what was accepted, in that order.
\<close>

datatype fifo_op = Enq int | Deq

locale fifo_queue =
  fixes items :: "'s \<Rightarrow> int list"
    and room :: "'s \<Rightarrow> bool"
    and enq :: "int \<Rightarrow> 's \<Rightarrow> 's"
    and deq :: "'s \<Rightarrow> 's"
  assumes items_enq: "room s \<Longrightarrow> items (enq x s) = items s @ [x]"
    and enq_full: "\<not> room s \<Longrightarrow> items (enq x s) = items s"
    and items_deq: "items (deq s) = tl (items s)"
begin

fun fifo_run :: "'s \<Rightarrow> fifo_op list \<Rightarrow> 's" where
  "fifo_run s [] = s"
| "fifo_run s (Enq x # os) = fifo_run (enq x s) os"
| "fifo_run s (Deq # os) = fifo_run (deq s) os"

fun accepted_by :: "'s \<Rightarrow> fifo_op list \<Rightarrow> int list" where
  "accepted_by s [] = []"
| "accepted_by s (Enq x # os) = (if room s then x # accepted_by (enq x s) os else accepted_by (enq x s) os)"
| "accepted_by s (Deq # os) = accepted_by (deq s) os"

fun served_by :: "'s \<Rightarrow> fifo_op list \<Rightarrow> int list" where
  "served_by s [] = []"
| "served_by s (Enq x # os) = served_by (enq x s) os"
| "served_by s (Deq # os) =
     (case items s of [] \<Rightarrow> served_by (deq s) os | x # _ \<Rightarrow> x # served_by (deq s) os)"

lemma served_then_waiting:
  "served_by s os @ items (fifo_run s os) = items s @ accepted_by s os"
proof (induction os arbitrary: s)
  case Nil
  then show ?case by simp
next
  case (Cons e os)
  show ?case
  proof (cases e)
    case (Enq x)
    then show ?thesis by (cases "room s") (simp_all add: Cons.IH items_enq enq_full)
  next
    case Deq
    then show ?thesis using Cons.IH [of "deq s"] by (cases "items s") (simp_all add: items_deq)
  qed
qed

end

text \<open>The model as a FIFO queue: \<open>run\<close> at one end; the running task settling at the other.\<close>

definition chain_ids :: "send_queue \<Rightarrow> int list" where
  "chain_ids q = map task_id (q_chain q)"

definition q_room :: "send_queue \<Rightarrow> bool" where
  "q_room q = (q_pending q < q_max_pending q)"

definition q_enq :: "int \<Rightarrow> send_queue \<Rightarrow> send_queue" where
  "q_enq i q = (case q_run 0 i 0 q of Inl _ \<Rightarrow> q | Inr q' \<Rightarrow> q')"

definition q_turn :: "send_queue \<Rightarrow> send_queue" where
  "q_turn q = q_settle Task_Ok (q_start 0 q)"

lemma q_turn_chain: "q_chain (q_turn q) = tl (q_chain q)"
  by (auto simp: q_turn_def q_settle_def q_start_def split: list.splits option.splits)

interpretation serial: fifo_queue chain_ids q_room q_enq q_turn
  by unfold_locales
    (auto simp: chain_ids_def q_room_def q_enq_def q_run_def q_turn_chain map_tl)

subsection \<open>The queue in time\<close>

text \<open>
  Runs of the queue with a clock. The waiting task starts as soon as its predecessor settles
  (promise callbacks run before any timer), and a started task settles within \<open>R\<close>
  milliseconds: \<open>config.sendResidenceMs\<close>, the hypothesis on the sender. Nothing is assumed about
  when the deadline timer fires.
\<close>

record timed =
  tq :: send_queue
  t_now :: int

inductive queue_step :: "int \<Rightarrow> timed \<Rightarrow> timed \<Rightarrow> bool" for R where
  qs_run: "i \<notin> set (chain_ids (tq s)) \<Longrightarrow> q_run (t_now s) i dl (tq s) = Inr q' \<Longrightarrow>
     queue_step R s (s\<lparr>tq := q'\<rparr>)"
| qs_full: "q_run (t_now s) i dl (tq s) = Inl e \<Longrightarrow> queue_step R s s"
| qs_start: "q_chain (tq s) \<noteq> [] \<Longrightarrow> q_started (tq s) = None \<Longrightarrow>
     queue_step R s (s\<lparr>tq := q_start (t_now s) (tq s)\<rparr>)"
| qs_settle: "q_started (tq s) \<noteq> None \<Longrightarrow> queue_step R s (s\<lparr>tq := q_settle r (tq s)\<rparr>)"
| qs_expire: "queue_step R s (s\<lparr>tq := q_expire (t_now s) (tq s)\<rparr>)"
| qs_tick: "t_now s \<le> t \<Longrightarrow> q_chain (tq s) = [] \<or> (\<exists>b. q_started (tq s) = Some b \<and> t \<le> b + R) \<Longrightarrow>
     queue_step R s (s\<lparr>t_now := t\<rparr>)"

inductive queue_reachable :: "int \<Rightarrow> int \<Rightarrow> timed \<Rightarrow> bool" for R m where
  qr_init: "queue_reachable R m \<lparr>tq = new_queue m, t_now = t\<rparr>"
| qr_step: "queue_reachable R m s \<Longrightarrow> queue_step R s s' \<Longrightarrow> queue_reachable R m s'"

text \<open>
  When the running task must have settled, and from it when the task at position \<open>k\<close> must have.
\<close>

definition head_due :: "int \<Rightarrow> timed \<Rightarrow> int" where
  "head_due R s = (case q_started (tq s) of Some b \<Rightarrow> b + R | None \<Rightarrow> t_now s + R)"

definition on_schedule :: "int \<Rightarrow> int \<Rightarrow> timed \<Rightarrow> bool" where
  "on_schedule R m s =
     (q_max_pending (tq s) = m \<and> q_pending (tq s) = int (length (q_chain (tq s)))
      \<and> q_pending (tq s) \<le> max 0 m
      \<and> (\<forall>b. q_started (tq s) = Some b \<longrightarrow> q_chain (tq s) \<noteq> [] \<and> b \<le> t_now s \<and> t_now s \<le> b + R)
      \<and> (\<forall>k < length (q_chain (tq s)).
            head_due R s + R * int k \<le> task_accepted (q_chain (tq s) ! k) + R * m))"

lemma q_run_Inr:
  "q_run now i dl q = Inr q' \<Longrightarrow> q_pending q < q_max_pending q
     \<and> q' = q\<lparr>q_pending := q_pending q + 1,
              q_chain := q_chain q @ [\<lparr>task_id = i, task_deadline_ms = dl, task_accepted = now\<rparr>]\<rparr>"
  by (simp add: q_run_def split: if_splits)

lemma q_expire_frame [simp]:
  "q_chain (q_expire now q) = q_chain q" "q_pending (q_expire now q) = q_pending q"
  "q_started (q_expire now q) = q_started q" "q_max_pending (q_expire now q) = q_max_pending q"
  "q_log (q_expire now q) = q_log q"
  by (auto simp: q_expire_def split: list.splits option.splits)

lemma on_schedule_init: "on_schedule R m \<lparr>tq = new_queue m, t_now = t\<rparr>"
  by (simp add: on_schedule_def new_queue_def)

lemma on_schedule_run:
  assumes os: "on_schedule R m s" and run: "q_run (t_now s) i dl (tq s) = Inr q'" and R: "0 \<le> R"
  shows "on_schedule R m (s\<lparr>tq := q'\<rparr>)"
proof -
  have q: "q_pending (tq s) < q_max_pending (tq s)"
    "q' = (tq s)\<lparr>q_pending := q_pending (tq s) + 1,
       q_chain := q_chain (tq s) @ [\<lparr>task_id = i, task_deadline_ms = dl, task_accepted = t_now s\<rparr>]\<rparr>"
    using q_run_Inr [OF run] by simp_all
  let ?n = "length (q_chain (tq s))"
  have len: "int ?n + 1 \<le> m" using os q(1) by (simp add: on_schedule_def)
  have due: "head_due R s \<le> t_now s + R" using os by (auto simp: on_schedule_def head_due_def split: option.splits)
  have "R * (int ?n + 1) \<le> R * m" using len R by (rule mult_left_mono)
  then have last: "head_due R s + R * int ?n \<le> t_now s + R * m" using due by (simp add: distrib_left)
  have hd: "head_due R (s\<lparr>tq := q'\<rparr>) = head_due R s"
    by (simp add: head_due_def q(2) split: option.split)
  show ?thesis
    using os last len unfolding on_schedule_def hd
    by (auto simp: q(2) nth_append less_Suc_eq)
qed

lemma on_schedule_start:
  assumes "on_schedule R m s" and "q_chain (tq s) \<noteq> []" and "q_started (tq s) = None" and "0 \<le> R"
  shows "on_schedule R m (s\<lparr>tq := q_start (t_now s) (tq s)\<rparr>)"
  using assms by (auto simp: on_schedule_def q_start_def head_due_def split: list.splits)

lemma on_schedule_settle:
  assumes os: "on_schedule R m s" and st: "q_started (tq s) \<noteq> None"
  shows "on_schedule R m (s\<lparr>tq := q_settle r (tq s)\<rparr>)"
proof -
  obtain b where b: "q_started (tq s) = Some b" using st by blast
  then obtain t ts where ch: "q_chain (tq s) = t # ts"
    using os by (auto simp: on_schedule_def neq_Nil_conv)
  have "t_now s + R + R * int k \<le> task_accepted (ts ! k) + R * m" if "k < length ts" for k
  proof -
    have "b + R + R * int (Suc k) \<le> task_accepted ((t # ts) ! Suc k) + R * m"
      using os b ch that unfolding on_schedule_def head_due_def by fastforce
    moreover have "t_now s \<le> b + R" using os b by (simp add: on_schedule_def)
    ultimately show ?thesis by (simp add: distrib_left)
  qed
  then show ?thesis
    using os b ch by (auto simp: on_schedule_def q_settle_def head_due_def)
qed

lemma on_schedule_tick:
  assumes "on_schedule R m s" and "t_now s \<le> t"
    and "q_chain (tq s) = [] \<or> (\<exists>b. q_started (tq s) = Some b \<and> t \<le> b + R)"
  shows "on_schedule R m (s\<lparr>t_now := t\<rparr>)"
  using assms by (auto simp: on_schedule_def head_due_def)

lemma queue_step_on_schedule:
  "queue_step R s s' \<Longrightarrow> on_schedule R m s \<Longrightarrow> 0 \<le> R \<Longrightarrow> on_schedule R m s'"
proof (induction rule: queue_step.induct)
  case (qs_expire s)
  then show ?case by (auto simp: on_schedule_def head_due_def split: option.splits)
qed (auto intro: on_schedule_run on_schedule_start on_schedule_settle on_schedule_tick)

lemma queue_reachable_on_schedule:
  "queue_reachable R m s \<Longrightarrow> 0 \<le> R \<Longrightarrow> on_schedule R m s"
  by (induction rule: queue_reachable.induct) (auto intro: on_schedule_init queue_step_on_schedule)

subsection \<open>The log\<close>

definition paired :: "int list \<Rightarrow> log_entry list" where
  "paired is = concat (map (\<lambda>i. [Began i, Ended i]) is)"

definition log_ok :: "send_queue \<Rightarrow> bool" where
  "log_ok q = ((q_started q \<noteq> None \<longrightarrow> q_chain q \<noteq> []) \<and> (\<exists>done. q_log q = paired done
     @ (case q_started q of None \<Rightarrow> [] | Some _ \<Rightarrow> (case chain_ids q of [] \<Rightarrow> [] | i # _ \<Rightarrow> [Began i]))))"

lemma paired_snoc: "paired (is @ [i]) = paired is @ [Began i, Ended i]"
  by (simp add: paired_def)

lemma queue_step_log_ok: "queue_step R s s' \<Longrightarrow> log_ok (tq s) \<Longrightarrow> log_ok (tq s')"
proof (induction rule: queue_step.induct)
  case (qs_run i s dl q')
  then show ?case
    by (auto simp: log_ok_def chain_ids_def dest!: q_run_Inr split: option.splits list.splits)
next
  case (qs_start s)
  then show ?case by (auto simp: log_ok_def q_start_def chain_ids_def split: list.splits)
next
  case (qs_settle s r)
  then obtain b t ts ds where q: "q_started (tq s) = Some b" "q_chain (tq s) = t # ts"
      "q_log (tq s) = paired ds @ [Began (task_id t)]"
    by (auto simp: log_ok_def chain_ids_def neq_Nil_conv)
  then have "q_log (q_settle r (tq s)) = paired (ds @ [task_id t])"
    "q_started (q_settle r (tq s)) = None"
    by (simp_all add: q_settle_def paired_snoc)
  then show ?case unfolding log_ok_def by auto
next
  case (qs_expire s)
  have "chain_ids (q_expire (t_now s) (tq s)) = chain_ids (tq s)" by (simp add: chain_ids_def)
  with qs_expire show ?case by (cases "q_started (tq s)") (simp_all add: log_ok_def)
qed (simp_all add: log_ok_def)

lemma queue_reachable_log_ok: "queue_reachable R m s \<Longrightarrow> log_ok (tq s)"
proof (induction rule: queue_reachable.induct)
  case (qr_init t)
  show ?case by (auto simp: log_ok_def new_queue_def paired_def intro: exI [of _ "[]"])
next
  case (qr_step s s')
  then show ?case by (blast intro: queue_step_log_ok)
qed

subsection \<open>Draining\<close>

text \<open>
  \<open>drain(depth, boundMs, everyMs)\<close>: the loop reads the depth, then the clock if the depth is not
  zero, then sleeps. A poll is the clock and the depth it read; the result is \<open>None\<close> while the
  loop is still waiting.
\<close>

fun drain_polls :: "int \<Rightarrow> (int \<times> int) list \<Rightarrow> bool option" where
  "drain_polls until [] = None"
| "drain_polls until ((t, d) # ps) =
     (if d > 0 then (if t \<ge> until then Some False else drain_polls until ps) else Some True)"

definition drain :: "int \<Rightarrow> int \<Rightarrow> (int \<times> int) list \<Rightarrow> bool option" where
  "drain now boundMs ps = drain_polls (now + boundMs) ps"

text \<open>Consecutive polls are at least \<open>every\<close> milliseconds apart.\<close>

definition spaced :: "int \<Rightarrow> (int \<times> int) list \<Rightarrow> bool" where
  "spaced every ps = (\<forall>k. Suc k < length ps \<longrightarrow> fst (ps ! k) + every \<le> fst (ps ! Suc k))"

lemma spaced_nth: "spaced every ps \<Longrightarrow> k < length ps \<Longrightarrow> fst (ps ! 0) + every * int k \<le> fst (ps ! k)"
proof (induction k)
  case 0
  then show ?case by simp
next
  case (Suc k)
  then have "fst (ps ! 0) + every * int k \<le> fst (ps ! k)" by simp
  moreover have "fst (ps ! k) + every \<le> fst (ps ! Suc k)" using Suc.prems by (simp add: spaced_def)
  ultimately show ?case by (simp add: distrib_left)
qed

lemma drain_polls_late:
  "k < length ps \<Longrightarrow> until \<le> fst (ps ! k) \<Longrightarrow> drain_polls until ps \<noteq> None"
proof (induction until ps arbitrary: k rule: drain_polls.induct)
  case (2 until t d ps)
  then show ?case by (cases k) auto
qed simp

lemma drain_polls_True:
  "drain_polls until ps = Some True \<Longrightarrow> \<exists>p\<in>set ps. snd p \<le> 0"
  by (induction until ps rule: drain_polls.induct) (auto split: if_splits)

subsection \<open>Properties\<close>

text \<open>
  Sends run in the order they were accepted. For any interleaving of arrivals and turns, the
  tasks already run followed by the tasks still waiting are exactly the accepted tasks in order.
\<close>

theorem sends_run_in_accepted_order:
  "serial.served_by (new_queue m) os @ chain_ids (serial.fifo_run (new_queue m) os)
     = serial.accepted_by (new_queue m) os"
  using serial.served_then_waiting [of "new_queue m" os]
  by (simp add: chain_ids_def new_queue_def)

text \<open>
  C10: One send touches the wallet at a time, deadlines included. In every reachable state the log
  of the queue is a sequence of complete begin/end pairs followed by at most one begin, that of the
  task at the head, and the depth counts the running task and every waiting one, at most the
  configured bound: a caller that gave up at its deadline frees no slot.
\<close>

theorem one_send_at_a_time:
  assumes "queue_reachable R m s" and "0 \<le> R"
  shows "(\<exists>done. q_log (tq s) = paired done
       @ (case q_started (tq s) of None \<Rightarrow> [] | Some _ \<Rightarrow> [Began (hd (chain_ids (tq s)))]))
    \<and> q_depth (tq s) = int (length (q_chain (tq s))) \<and> q_depth (tq s) \<le> max 0 m"
proof -
  have "(case chain_ids (tq s) of [] \<Rightarrow> [] | i # _ \<Rightarrow> [Began i]) = [Began (hd (chain_ids (tq s)))]"
    if "q_started (tq s) \<noteq> None"
    using that queue_reachable_log_ok [OF assms(1)]
    by (auto simp: log_ok_def chain_ids_def neq_Nil_conv)
  then show ?thesis
    using queue_reachable_log_ok [OF assms(1)] queue_reachable_on_schedule [OF assms]
    by (fastforce simp: log_ok_def on_schedule_def q_depth_def split: option.splits)
qed


lemma ex_queue_reachable:
  "queue_reachable R 1 \<lparr>tq = (new_queue 1)\<lparr>q_pending := 1,
     q_chain := [\<lparr>task_id = 7, task_deadline_ms = 0, task_accepted = 0\<rparr>]\<rparr>, t_now = 0\<rparr>"
  using qr_step [OF qr_init qs_run [of 7 "\<lparr>tq = new_queue 1, t_now = 0\<rparr>" 0]]
  by (simp add: q_run_def new_queue_def chain_ids_def)

theorem one_send_at_a_time_witness:
  "q_depth ((new_queue 1)\<lparr>q_pending := 1,
     q_chain := [\<lparr>task_id = 7, task_deadline_ms = 0, task_accepted = 0\<rparr>]\<rparr>) \<le> max 0 1"
  using one_send_at_a_time [OF ex_queue_reachable, of 5] by simp


text \<open>
  Draining ends. With polls spaced by the sleep, the drain loop has an answer as soon as enough
  polls have happened to pass the bound, and it says the queues emptied only when a poll saw no task.
\<close>

theorem drain_terminates:
  assumes "spaced every ps" and "0 < every" and "now \<le> fst (ps ! 0)"
    and "boundMs \<le> every * int k" and "k < length ps"
  shows "\<exists>r. drain now boundMs ps = Some r \<and> (r \<longrightarrow> (\<exists>p\<in>set ps. snd p \<le> 0))"
proof -
  have "now + boundMs \<le> fst (ps ! k)" using spaced_nth [OF assms(1,5)] assms(3,4) by linarith
  then have "drain now boundMs ps \<noteq> None" unfolding drain_def using assms(5) by (rule drain_polls_late [rotated])
  then show ?thesis using drain_polls_True unfolding drain_def by fastforce
qed

theorem drain_terminates_witness:
  "\<exists>r. drain 0 500 [(0, 2), (250, 1), (500, 0)] = Some r \<and> (r \<longrightarrow> (\<exists>p\<in>set [(0, 2), (250, 1), (500, 0 :: int)]. snd p \<le> 0))"
  using drain_terminates [of 250 "[(0, 2), (250, 1), (500, 0)]" 0 500 2]
  by (simp add: spaced_def less_Suc_eq)

end
