(* ===== verification/Challenge_Store.thy ===== *)
theory Challenge_Store
  imports Ledger
begin

text \<open>
  Replay protection: \<open>spendChallenge\<close>, \<open>challengeAlreadySpent\<close> of \<open>src/src/lib/db/index.ts\<close> and
  their statements in \<open>src/src/lib/db/sql.ts\<close>, over the table \<open>used_challenges\<close> of \<open>Ledger\<close>.
\<close>

definition purge_challenges_sql :: "int \<Rightarrow> ledger \<Rightarrow> ledger" where
  "purge_challenges_sql now l =
     l\<lparr>used_challenges := filter (\<lambda>r. \<not> snd r < now) (used_challenges l)\<rparr>"

definition spend_challenge_sql :: "string \<Rightarrow> int \<Rightarrow> ledger \<Rightarrow> run_result \<times> ledger" where
  "spend_challenge_sql sig exp' l =
     (if sig \<in> fst ` set (used_challenges l)
      then (\<lparr>changes = 0, lastInsertRowid = last_rowid l\<rparr>, l)
      else (\<lparr>changes = 1, lastInsertRowid = last_rowid l\<rparr>,
            l\<lparr>used_challenges := used_challenges l @ [(sig, exp')]\<rparr>))"

definition challenge_spent_sql :: "string \<Rightarrow> ledger \<Rightarrow> bool" where
  "challenge_spent_sql sig l = list_ex (\<lambda>r. fst r = sig) (used_challenges l)"

text \<open>The purge in front of the insert is fire-and-forget; under SQLite it always lands first.\<close>

definition spend_challenge :: "bool \<Rightarrow> string \<Rightarrow> int \<Rightarrow> int \<Rightarrow> ledger \<Rightarrow> bool \<times> ledger" where
  "spend_challenge purge_lands sig exp' now l =
     (let l1 = (if purge_lands then purge_challenges_sql now l else l);
          (res, l2) = spend_challenge_sql sig exp' l1
      in (changes res = 1, l2))"

text \<open>A failed read lets the claim proceed.\<close>

definition challenge_already_spent :: "bool \<Rightarrow> string \<Rightarrow> ledger \<Rightarrow> bool" where
  "challenge_already_spent read_ok sig l = (read_ok \<and> challenge_spent_sql sig l)"

lemma challenge_spent_iff: "challenge_spent_sql sig l \<longleftrightarrow> sig \<in> fst ` set (used_challenges l)"
  by (auto simp: challenge_spent_sql_def list_ex_iff)

lemma spend_challenge_frame [simp, frame_simps]:
  "claims (snd (spend_challenge p sig e now l)) = claims l"
  "last_rowid (snd (spend_challenge p sig e now l)) = last_rowid l"
  "drip_days (snd (spend_challenge p sig e now l)) = drip_days l"
  by (simp_all add: spend_challenge_def spend_challenge_sql_def purge_challenges_sql_def Let_def)

subsection \<open>The mutex\<close>

text \<open>
  What the claim path relies on. \<open>recorded s sig\<close>: the store remembers that \<open>sig\<close> was spent.
  While its lifetime \<open>until sig\<close> has not passed, a recorded signature stays recorded and cannot be
  spent, whatever else is spent; spending records.
\<close>

locale replay_guard =
  fixes recorded :: "'s \<Rightarrow> string \<Rightarrow> bool"
    and spend :: "string \<Rightarrow> int \<Rightarrow> 's \<Rightarrow> bool \<times> 's"
    and until :: "string \<Rightarrow> int"
    and ok :: "'s \<Rightarrow> bool"
  assumes refuse: "ok s \<Longrightarrow> recorded s sig \<Longrightarrow> now \<le> until sig \<Longrightarrow> \<not> fst (spend sig now s)"
    and keep: "ok s \<Longrightarrow> recorded s sig \<Longrightarrow> now \<le> until sig \<Longrightarrow> recorded (snd (spend other now s)) sig"
    and record_it: "ok s \<Longrightarrow> recorded (snd (spend sig now s)) sig"
    and ok_spend: "ok s \<Longrightarrow> ok (snd (spend sig now s))"
begin

fun successes :: "string \<Rightarrow> (string \<times> int) list \<Rightarrow> 's \<Rightarrow> nat" where
  "successes sig [] s = 0"
| "successes sig ((x, now) # as) s =
     (if x = sig \<and> fst (spend x now s) then 1 else 0) + successes sig as (snd (spend x now s))"

lemma recorded_no_success:
  "ok s \<Longrightarrow> recorded s sig \<Longrightarrow> \<forall>(x, now)\<in>set as. now \<le> until sig \<Longrightarrow> successes sig as s = 0"
proof (induction as arbitrary: s)
  case Nil
  then show ?case by simp
next
  case (Cons a as)
  obtain x now where a: "a = (x, now)" by fastforce
  with Cons have "successes sig as (snd (spend x now s)) = 0"
    by (intro Cons.IH) (auto intro: keep ok_spend)
  moreover have "\<not> (x = sig \<and> fst (spend x now s))" using refuse [of s sig now] Cons.prems a by auto
  ultimately show ?case by (simp add: a)
qed

lemma at_most_one_success:
  "ok s \<Longrightarrow> \<forall>(x, now)\<in>set as. now \<le> until sig \<Longrightarrow> successes sig as s \<le> 1"
proof (induction as arbitrary: s)
  case Nil
  then show ?case by simp
next
  case (Cons a as)
  obtain x now where a: "a = (x, now)" by fastforce
  show ?case
  proof (cases "x = sig \<and> fst (spend x now s)")
    case True
    have "successes sig as (snd (spend x now s)) = 0"
      using Cons.prems True a by (intro recorded_no_success) (auto intro: record_it ok_spend)
    with True show ?thesis by (simp add: a)
  next
    case False
    with Cons a show ?thesis by (auto intro: ok_spend)
  qed
qed

end

text \<open>
  The table provides it. A signature is an HMAC over its expiry, so it determines the expiry
  (\<open>until\<close>), and every row carries its signature's own expiry.
\<close>

definition rows_agree :: "(string \<Rightarrow> int) \<Rightarrow> ledger \<Rightarrow> bool" where
  "rows_agree until l = (\<forall>r\<in>set (used_challenges l). snd r = until (fst r))"

lemma purge_keeps_live:
  assumes "rows_agree until l" and "challenge_spent_sql sig l" and "now \<le> until sig"
  shows "challenge_spent_sql sig (purge_challenges_sql now l)"
  using assms by (fastforce simp: challenge_spent_iff purge_challenges_sql_def rows_agree_def)

lemma purge_keeps_agreement: "rows_agree until l \<Longrightarrow> rows_agree until (purge_challenges_sql now l)"
  by (simp add: rows_agree_def purge_challenges_sql_def)

lemma insert_refuses_recorded:
  "challenge_spent_sql sig l \<Longrightarrow> spend_challenge_sql sig e l = (\<lparr>changes = 0, lastInsertRowid = last_rowid l\<rparr>, l)"
  by (simp add: spend_challenge_sql_def challenge_spent_iff)

lemma insert_records: "challenge_spent_sql sig (snd (spend_challenge_sql sig e l))"
  by (simp add: spend_challenge_sql_def challenge_spent_iff)

lemma insert_keeps:
  "challenge_spent_sql sig l \<Longrightarrow> challenge_spent_sql sig (snd (spend_challenge_sql other e l))"
  by (simp add: spend_challenge_sql_def challenge_spent_iff)

lemma insert_keeps_agreement:
  "rows_agree until l \<Longrightarrow> rows_agree until (snd (spend_challenge_sql sig (until sig) l))"
  by (auto simp: spend_challenge_sql_def rows_agree_def)

lemma spend_challenge_snd:
  "snd (spend_challenge p sig e now l) =
     snd (spend_challenge_sql sig e (if p then purge_challenges_sql now l else l))"
  by (simp add: spend_challenge_def Let_def split_beta)

interpretation challenge_mutex: replay_guard
  "\<lambda>l sig. challenge_spent_sql sig l" "\<lambda>sig. spend_challenge p sig (until sig)" until "rows_agree until"
  for p until
proof (unfold_locales, goal_cases)
  case (1 s sig now)
  then have "challenge_spent_sql sig (if p then purge_challenges_sql now s else s)"
    by (simp add: purge_keeps_live)
  then show ?case by (simp add: spend_challenge_def insert_refuses_recorded)
next
  case (2 s sig now other)
  then have "challenge_spent_sql sig (if p then purge_challenges_sql now s else s)"
    by (simp add: purge_keeps_live)
  then show ?case by (simp add: spend_challenge_snd insert_keeps)
next
  case (3 s sig now)
  then show ?case by (simp add: spend_challenge_snd insert_records)
next
  case (4 s sig now)
  then show ?case by (simp add: spend_challenge_snd insert_keeps_agreement purge_keeps_agreement)
qed

text \<open>Past the expiry the purge removes the very row that would refuse.\<close>

lemma spend_after_expiry:
  assumes "rows_agree until l" and "until sig < now"
  shows "fst (spend_challenge True sig (until sig) now l)"
  using assms by (force simp: spend_challenge_def spend_challenge_sql_def purge_challenges_sql_def
      rows_agree_def Let_def)

subsection \<open>Properties\<close>

text \<open>
  A solved challenge is spent at most once while it lives. In any sequence of spends of any
  signatures, starting from any table whose rows carry their own expiry, with or without the purge
  landing, one signature succeeds at most once as long as no spend happens after its expiry.
\<close>

theorem challenge_spent_once_while_live:
  assumes "rows_agree until l" and "\<forall>(x, now)\<in>set attempts. now \<le> until sig"
  shows "challenge_mutex.successes p until sig attempts l \<le> 1"
  using assms by (rule challenge_mutex.at_most_one_success)

theorem challenge_spent_once_while_live_witness:
  "challenge_mutex.successes True (\<lambda>_. 100) ''ab'' [(''ab'', 90), (''cd'', 95), (''ab'', 100)] empty_ledger \<le> 1"
  by (rule challenge_spent_once_while_live) (simp_all add: rows_agree_def empty_ledger_def)

text \<open>
  After expiry the mutex is gone. Two requests that verified one solution before its expiry and
  reach the spend after it both succeed: the purge in front of the second insert deletes the row the
  first one wrote. The insert alone therefore does not make a proof single-use.
\<close>

theorem expired_challenge_spends_twice:
  assumes "rows_agree until l" and "until sig < t1" and "until sig < t2"
  shows "challenge_mutex.successes True until sig [(sig, t1), (sig, t2)] l = 2"
proof -
  have "rows_agree until (snd (spend_challenge True sig (until sig) t1 l))"
    using assms(1) by (simp add: spend_challenge_snd insert_keeps_agreement purge_keeps_agreement)
  then have "fst (spend_challenge True sig (until sig) t2 (snd (spend_challenge True sig (until sig) t1 l)))"
    using assms(3) by (rule spend_after_expiry)
  with spend_after_expiry [where until = until and sig = sig, OF assms(1,2)] show ?thesis by simp
qed

theorem expired_challenge_spends_twice_witness:
  "challenge_mutex.successes True (\<lambda>_. 100) ''ab'' [(''ab'', 101), (''ab'', 101)] empty_ledger = 2"
  by (rule expired_challenge_spends_twice) (simp_all add: rows_agree_def empty_ledger_def)

end
