(* ===== verification/Js_String.thy ===== *)
theory Js_String
  imports Prelude "HOL-Library.Char_ord"
begin

text \<open>
  The string operations of JavaScript the code uses, on character lists. A \<open>char\<close> is one byte, so
  these are the source's operations on ASCII text, which is all that addresses, fingerprints and
  network addresses contain; white space and letter case outside ASCII are not modelled.
\<close>

definition is_space :: "char \<Rightarrow> bool" where
  "is_space c = (c \<in> {CHR '' '', CHR 0x09, CHR 0x0A, CHR 0x0B, CHR 0x0C, CHR 0x0D})"

definition trim :: "string \<Rightarrow> string" where
  "trim s = rev (dropWhile is_space (rev (dropWhile is_space s)))"

definition lower_char :: "char \<Rightarrow> char" where
  "lower_char c = (if CHR ''A'' \<le> c \<and> c \<le> CHR ''Z'' then char_of (of_char c + 32 :: nat) else c)"

definition to_lower :: "string \<Rightarrow> string" where
  "to_lower s = map lower_char s"

fun starts_with :: "string \<Rightarrow> string \<Rightarrow> bool" where
  "starts_with s [] = True"
| "starts_with [] (p # ps) = False"
| "starts_with (c # s) (p # ps) = (c = p \<and> starts_with s ps)"

definition ends_with :: "string \<Rightarrow> string \<Rightarrow> bool" where
  "ends_with s p = starts_with (rev s) (rev p)"

text \<open>\<open>s.split(sep)\<close> for a one-character separator, and \<open>xs.join(sep)\<close>.\<close>

fun split_on :: "char \<Rightarrow> string \<Rightarrow> string list" where
  "split_on d [] = [[]]"
| "split_on d (c # s) =
     (if c = d then [] # split_on d s
      else (case split_on d s of [] \<Rightarrow> [[c]] | w # ws \<Rightarrow> (c # w) # ws))"

fun join_with :: "string \<Rightarrow> string list \<Rightarrow> string" where
  "join_with d [] = []"
| "join_with d [w] = w"
| "join_with d (w # v # ws) = w @ d @ join_with d (v # ws)"

text \<open>\<open>s.split("::")\<close>: left to right, without overlap.\<close>

fun split_colons :: "string \<Rightarrow> string list" where
  "split_colons [] = [[]]"
| "split_colons [c] = [[c]]"
| "split_colons (c # d # s) =
     (if c = CHR '':'' \<and> d = CHR '':'' then [] # split_colons s
      else (case split_colons (d # s) of [] \<Rightarrow> [[c]] | w # ws \<Rightarrow> (c # w) # ws))"

definition is_digit :: "char \<Rightarrow> bool" where
  "is_digit c = (CHR ''0'' \<le> c \<and> c \<le> CHR ''9'')"

definition is_hex :: "char \<Rightarrow> bool" where
  "is_hex c = (is_digit c \<or> (CHR ''a'' \<le> c \<and> c \<le> CHR ''f''))"

text \<open>\<open>Number(d)\<close> of a string of decimal digits.\<close>

definition digits_value :: "string \<Rightarrow> int" where
  "digits_value s = foldl (\<lambda>v c. 10 * v + (int (of_char c) - 48)) 0 s"

text \<open>Decimal digits of a number, as a template literal prints it.\<close>

fun show_nat :: "nat \<Rightarrow> string" where
  "show_nat n = (if n < 10 then [char_of (n + 48)]
                 else show_nat (n div 10) @ [char_of (n mod 10 + 48)])"

definition show_int :: "int \<Rightarrow> string" where
  "show_int i = (if i < 0 then ''-'' @ show_nat (nat (- i)) else show_nat (nat i))"

declare show_nat.simps [simp del]

subsection \<open>Facts\<close>

lemma split_on_nonempty [simp]: "split_on d s \<noteq> []"
  by (cases s) (auto split: list.splits)

lemma join_split [simp]: "join_with [d] (split_on d s) = s"
proof (induction s)
  case Nil
  then show ?case by simp
next
  case (Cons c s)
  obtain w ws where w: "split_on d s = w # ws" by (meson neq_Nil_conv split_on_nonempty)
  with Cons show ?case by (cases ws) auto
qed

lemma split_on_word: "d \<notin> set w \<Longrightarrow> split_on d w = [w]"
  by (induction w) auto

lemma split_on_cons: "d \<notin> set w \<Longrightarrow> split_on d (w @ d # s) = w # split_on d s"
  by (induction w) auto

lemma split_join:
  assumes "ws \<noteq> []" and "\<forall>w\<in>set ws. d \<notin> set w"
  shows "split_on d (join_with [d] ws) = ws"
  using assms
proof (induction ws rule: list_nonempty_induct)
  case (single w)
  then show ?case by (simp add: split_on_word)
next
  case (cons w ws)
  then obtain v vs where "ws = v # vs" by (meson neq_Nil_conv)
  with cons show ?case by (simp add: split_on_cons)
qed

lemma split_on_append: "\<exists>us. split_on d (p @ d # s) = us @ split_on d s \<and> us \<noteq> []"
proof (induction p)
  case Nil
  show ?case by (rule exI [of _ "[[]]"]) simp
next
  case (Cons c p)
  then obtain us where us: "split_on d (p @ d # s) = us @ split_on d s" "us \<noteq> []" by blast
  show ?case
  proof (cases "c = d")
    case True
    with us show ?thesis by (intro exI [of _ "[] # us"]) simp
  next
    case False
    obtain v vs where "us = v # vs" using us(2) by (meson neq_Nil_conv)
    with us False show ?thesis by (intro exI [of _ "(c # v) # vs"]) simp
  qed
qed

lemma starts_with_append [simp]: "starts_with (p @ s) p"
  by (induction p) auto

lemma starts_with_iff: "starts_with s p \<longleftrightarrow> (\<exists>t. s = p @ t)"
proof
  show "starts_with s p \<Longrightarrow> \<exists>t. s = p @ t"
    by (induction s p rule: starts_with.induct) auto
qed auto

lemma dropWhile_idem_hd: "dropWhile P xs = [] \<or> \<not> P (hd (dropWhile P xs))"
  by (induction xs) auto

lemma trim_plain: "(\<forall>c\<in>set s. \<not> is_space c) \<Longrightarrow> trim s = s"
proof -
  assume a: "\<forall>c\<in>set s. \<not> is_space c"
  have d: "dropWhile is_space t = t" if "\<forall>c\<in>set t. \<not> is_space c" for t
    using that by (cases t) auto
  show "trim s = s" using a by (simp add: trim_def d)
qed

lemma lower_char_idem [simp]: "lower_char (lower_char c) = lower_char c"
proof (cases "CHR ''A'' \<le> c \<and> c \<le> CHR ''Z''")
  case True
  then have n: "65 \<le> (of_char c :: nat)" "(of_char c :: nat) \<le> 90" by (auto simp: less_eq_char_def)
  then have "(of_char (char_of (of_char c + 32 :: nat)) :: nat) = of_char c + 32" by simp
  then have "\<not> char_of (of_char c + 32 :: nat) \<le> CHR ''Z''" using n by (simp add: less_eq_char_def)
  then show ?thesis using True by (simp add: lower_char_def)
next
  case False
  then have "lower_char c = c" unfolding lower_char_def by (rule if_not_P)
  then show ?thesis by simp
qed

lemma to_lower_idem [simp]: "to_lower (to_lower s) = to_lower s"
  by (simp add: to_lower_def comp_def)

lemma to_lower_append [simp]: "to_lower (s @ t) = to_lower s @ to_lower t"
  by (simp add: to_lower_def)

lemma starts_with_to_lower: "starts_with s p \<Longrightarrow> starts_with (to_lower s) (to_lower p)"
  by (auto simp: starts_with_iff)

subsection \<open>Decimal digits\<close>

lemma digit_char: "k < 10 \<Longrightarrow> is_digit (char_of (k + 48))" "k < 10 \<Longrightarrow> of_char (char_of (k + 48 :: nat) :: char) = k + (48::nat)"
  by (simp_all add: is_digit_def less_eq_char_def)

lemma show_nat_is_digits: "list_all is_digit (show_nat n)"
proof (induction n rule: show_nat.induct)
  case (1 n)
  then show ?case
    using digit_char(1) [of n] digit_char(1) [of "n mod 10"] by (subst show_nat.simps) simp
qed

lemma length_show_nat: "0 < k \<Longrightarrow> n < 10 ^ k \<Longrightarrow> length (show_nat n) \<le> k"
proof (induction k arbitrary: n)
  case 0
  then show ?case by simp
next
  case (Suc k)
  show ?case
  proof (cases "n < 10")
    case True
    then show ?thesis by (subst show_nat.simps) simp
  next
    case False
    with Suc.prems have "0 < k" by (cases k) simp_all
    moreover have "n div 10 < 10 ^ k" using Suc.prems(2) by (simp add: less_mult_imp_div_less)
    ultimately have "length (show_nat (n div 10)) \<le> k" by (rule Suc.IH)
    then show ?thesis using False by (subst show_nat.simps) simp
  qed
qed

lemma digits_value_snoc: "digits_value (s @ [c]) = 10 * digits_value s + (int (of_char c) - 48)"
  by (simp add: digits_value_def)

lemma digits_value_append: "digits_value (s @ u) = digits_value s * 10 ^ length u + digits_value u"
proof (induction u rule: rev_induct)
  case Nil
  then show ?case by (simp add: digits_value_def)
next
  case (snoc c u)
  have "digits_value (s @ u @ [c]) = 10 * digits_value (s @ u) + (int (of_char c) - 48)"
    using digits_value_snoc [of "s @ u"] by simp
  with snoc show ?case by (simp add: digits_value_snoc algebra_simps)
qed

lemma digits_value_zeros: "digits_value (replicate n (CHR ''0'')) = 0"
proof (induction n)
  case 0
  then show ?case by (simp add: digits_value_def)
next
  case (Suc n)
  then show ?case using digits_value_append [of "[CHR ''0'']" "replicate n (CHR ''0'')"]
    by (simp add: digits_value_def)
qed

lemma digits_value_nonneg: "list_all is_digit s \<Longrightarrow> 0 \<le> digits_value s"
proof (induction s rule: rev_induct)
  case (snoc c s)
  have "(48::nat) \<le> of_char c" using snoc.prems
    by (auto simp: is_digit_def less_eq_char_def)
  then have "(48::int) \<le> int (of_char c)" by simp
  with snoc show ?case by (simp add: digits_value_snoc)
qed (simp add: digits_value_def)

text \<open>Trimming twice is trimming once, and what it leaves has no white space at its ends.\<close>

lemma trim_trim: "trim (trim s) = trim s"
proof -
  have d: "dropWhile is_space (dropWhile is_space t) = dropWhile is_space t" for t
    by (induction t) auto
  have r: "dropWhile is_space (rev (dropWhile is_space (rev (dropWhile is_space s)))) = rev (dropWhile is_space (rev (dropWhile is_space s)))"
  proof (cases "rev (dropWhile is_space (rev (dropWhile is_space s)))")
    case (Cons c t)
    have "\<exists>u. dropWhile is_space s = (c # t) @ u"
    proof -
      have "dropWhile is_space s = rev (takeWhile is_space (rev (dropWhile is_space s)) @ dropWhile is_space (rev (dropWhile is_space s)))"
        by simp
      then have "dropWhile is_space s = (c # t) @ rev (takeWhile is_space (rev (dropWhile is_space s)))"
        unfolding rev_append Cons .
      then show ?thesis by blast
    qed
    then obtain u where u: "dropWhile is_space s = c # t @ u" by auto
    have "\<not> is_space (hd (dropWhile is_space s))" by (rule hd_dropWhile) (simp add: u del: dropWhile_eq_Nil_conv)
    then have "\<not> is_space c" by (simp add: u)
    then show ?thesis using Cons by simp
  next
    case Nil
    then show ?thesis by (simp only: dropWhile.simps)
  qed
  show ?thesis unfolding trim_def r by (simp add: d)
qed

lemma trim_ends:
  assumes "trim s = s" and "s \<noteq> []"
  shows "\<not> is_space (hd s)" and "\<not> is_space (last s)"
proof -
  let ?d = "dropWhile is_space s"
  have len: "length (dropWhile is_space (rev ?d)) = length s" using arg_cong [OF assms(1), of length] by (simp add: trim_def)
  have le: "length (dropWhile is_space (rev ?d)) \<le> length ?d" "length ?d \<le> length s"
    using length_dropWhile_le [of is_space "rev ?d"] length_dropWhile_le [of is_space s] by simp_all
  show first: "\<not> is_space (hd s)"
  proof
    assume "is_space (hd s)"
    then obtain c t where "s = c # t" "is_space c" using assms(2) by (cases s) auto
    then have "length ?d < length s" using length_dropWhile_le [of is_space t] by simp
    then show False using len le by linarith
  qed
  show "\<not> is_space (last s)"
  proof
    assume sp: "is_space (last s)"
    have "?d = s" using first assms(2) by (cases s) auto
    moreover obtain c t where "rev s = c # t" using assms(2) by (cases "rev s") auto
    moreover have "c = last s" using \<open>rev s = c # t\<close> by (metis hd_rev list.sel(1))
    ultimately have "length (dropWhile is_space (rev ?d)) < length s"
      using sp length_dropWhile_le [of is_space t] by (metis dropWhile.simps(2) length_rev length_Cons less_Suc_eq_le)
    then show False using len by simp
  qed
qed

end
