(* ===== verification/Pow.thy ===== *)
theory Pow
  imports Complex_Main Challenge_Store Js_String "HOL-Library.Word" "HOL-Library.AList"
begin

unbundle bit_operations_syntax

text \<open>
  The proof-of-work gate: \<open>src/src/lib/pow.ts\<close> and \<open>src/src/lib/powBudget.ts\<close>.

  The hash functions of \<open>node:crypto\<close> are parameters: \<open>hmac\<close> is HMAC-SHA256 under the salt, \<open>sha256\<close>
  the plain digest, both from a string to bytes. Timestamps of attempts are whole milliseconds,
  expiries whole seconds. A JavaScript \<open>Map\<close> is an association list in insertion order.
\<close>

subsection \<open>What a browser can solve: powBudget.ts\<close>

definition SLOW_BROWSER_HASHES_PER_SEC :: rat where
  "SLOW_BROWSER_HASHES_PER_SEC = 100000"

definition SOLVE_BUDGET_FRACTION :: rat where
  "SOLVE_BUDGET_FRACTION = 1 / 2"

definition expected_hashes :: "int \<Rightarrow> rat" where
  "expected_hashes bits = 2 ^ nat bits"

definition ttl_seconds_for :: "int \<Rightarrow> int \<Rightarrow> int \<Rightarrow> int" where
  "ttl_seconds_for bits baseBits baseTtlSeconds =
     (if bits \<le> baseBits then baseTtlSeconds else round_div (baseTtlSeconds * bits) baseBits)"

definition solve_seconds_for :: "int \<Rightarrow> rat \<Rightarrow> rat" where
  "solve_seconds_for bits hashesPerSec = expected_hashes bits / hashesPerSec"

text \<open>The loop \<open>for (bits = baseBits; bits <= 40; bits++)\<close> with its \<open>break\<close>.\<close>

function ceiling_loop :: "int \<Rightarrow> int \<Rightarrow> rat \<Rightarrow> int \<Rightarrow> int \<Rightarrow> int" where
  "ceiling_loop baseBits baseTtlSeconds hashesPerSec bits best =
     (if 40 < bits then best
      else let budget = of_int (ttl_seconds_for bits baseBits baseTtlSeconds) * SOLVE_BUDGET_FRACTION
           in if solve_seconds_for bits hashesPerSec > budget then best
              else ceiling_loop baseBits baseTtlSeconds hashesPerSec (bits + 1) bits)"
  by pat_completeness auto
termination by (relation "measure (\<lambda>(_, _, _, bits, _). nat (41 - bits))") auto

declare ceiling_loop.simps [simp del]

definition solvable_ceiling_bits :: "int \<Rightarrow> int \<Rightarrow> rat \<Rightarrow> int" where
  "solvable_ceiling_bits baseBits baseTtlSeconds hashesPerSec =
     ceiling_loop baseBits baseTtlSeconds hashesPerSec baseBits baseBits"

definition solvable :: "int \<Rightarrow> int \<Rightarrow> rat \<Rightarrow> int \<Rightarrow> bool" where
  "solvable baseBits baseTtl rate bits =
     (solve_seconds_for bits rate \<le> of_int (ttl_seconds_for bits baseBits baseTtl) * SOLVE_BUDGET_FRACTION)"

lemma ceiling_loop_ge: "best \<le> bits \<Longrightarrow> best \<le> ceiling_loop b t r bits best"
proof (induction b t r bits best rule: ceiling_loop.induct)
  case (1 b t r bits best)
  show ?case
  proof (cases "bits \<le> 40 \<and> solvable b t r bits")
    case True
    with 1 have "bits \<le> ceiling_loop b t r (bits + 1) bits" by (simp add: solvable_def not_less)
    with True 1(2) show ?thesis
      by (subst ceiling_loop.simps) (simp add: solvable_def Let_def)
  next
    case False
    then show ?thesis by (subst ceiling_loop.simps) (auto simp: solvable_def Let_def)
  qed
qed

lemma ceiling_loop_solvable:
  assumes "\<forall>k. b \<le> k \<and> k < bits \<longrightarrow> solvable b t r k" and "best < k" and "k \<le> ceiling_loop b t r bits best"
    and "best = bits - 1 \<or> (best = b \<and> bits = b)" and "b \<le> bits"
  shows "solvable b t r k \<and> k \<le> 40"
  using assms
proof (induction b t r bits best rule: ceiling_loop.induct)
  case (1 b t r bits best)
  show ?case
  proof (cases "bits \<le> 40 \<and> solvable b t r bits")
    case False
    then have "ceiling_loop b t r bits best = best"
      by (subst ceiling_loop.simps) (auto simp: solvable_def Let_def)
    with 1 show ?thesis by simp
  next
    case True
    then have step: "ceiling_loop b t r bits best = ceiling_loop b t r (bits + 1) bits"
      by (subst ceiling_loop.simps) (simp add: solvable_def Let_def)
    show ?thesis
    proof (cases "k \<le> bits")
      case True
      show ?thesis
      proof (cases "k = bits")
        case True
        with \<open>bits \<le> 40 \<and> solvable b t r bits\<close> show ?thesis by simp
      next
        case False
        with \<open>k \<le> bits\<close> 1(3,5) show ?thesis by auto
      qed
    next
      case False
      have all: "\<forall>k. b \<le> k \<and> k < bits + 1 \<longrightarrow> solvable b t r k"
        using 1(2) True by (metis zless_add1_eq)
      show ?thesis
        by (rule "1.IH") (use True False all 1 step in \<open>auto simp: solvable_def not_less\<close>)
    qed
  qed
qed

lemma solvable_up_to_ceiling:
  assumes "b < k" and "k \<le> solvable_ceiling_bits b t r"
  shows "solvable b t r k"
  by (rule ceiling_loop_solvable [of b b t r b, THEN conjunct1])
    (use assms in \<open>auto simp: solvable_ceiling_bits_def\<close>)

lemma ceiling_at_least_base: "b \<le> solvable_ceiling_bits b t r"
  by (simp add: solvable_ceiling_bits_def ceiling_loop_ge)

subsection \<open>Hex and bytes\<close>

text \<open>\<open>digest("hex")\<close>, and \<open>Buffer.from(s, "hex")\<close>: it stops at the first pair that is not hex.\<close>

definition hex_char :: "nat \<Rightarrow> char" where
  "hex_char n = char_of (if n < 10 then n + 48 else n + 87)"

definition hex_nibble :: "char \<Rightarrow> nat option" where
  "hex_nibble c =
     (let n = of_char c :: nat in
      if 48 \<le> n \<and> n \<le> 57 then Some (n - 48)
      else if 97 \<le> n \<and> n \<le> 102 then Some (n - 87)
      else if 65 \<le> n \<and> n \<le> 70 then Some (n - 55) else None)"

definition hex_of_bytes :: "8 word list \<Rightarrow> string" where
  "hex_of_bytes bs = concat (map (\<lambda>b. [hex_char (unat b div 16), hex_char (unat b mod 16)]) bs)"

fun bytes_of_hex :: "string \<Rightarrow> 8 word list" where
  "bytes_of_hex (a # b # s) =
     (case (hex_nibble a, hex_nibble b) of
        (Some x, Some y) \<Rightarrow> word_of_nat (16 * x + y) # bytes_of_hex s
      | _ \<Rightarrow> [])"
| "bytes_of_hex _ = []"

lemma hex_nibble_char [simp]: "n < 16 \<Longrightarrow> hex_nibble (hex_char n) = Some n"
  by (auto simp: hex_nibble_def hex_char_def Let_def)

lemma unat_byte_less: "unat (b :: 8 word) < 256"
  using unsigned_less [of b, where ?'a = nat] by simp

lemma bytes_of_hex_append:
  "bytes_of_hex (hex_of_bytes bs @ s) = bs @ bytes_of_hex s"
proof (induction bs)
  case Nil
  then show ?case by (simp add: hex_of_bytes_def)
next
  case (Cons b bs)
  have hi: "unat b div 16 < 16" using unat_byte_less [of b] by simp
  have "16 * (unat b div 16) + unat b mod 16 = unat b" by simp
  then have "word_of_nat (16 * (unat b div 16) + unat b mod 16) = b" by simp
  moreover have "hex_of_bytes (b # bs) @ s =
      hex_char (unat b div 16) # hex_char (unat b mod 16) # (hex_of_bytes bs @ s)"
    by (simp add: hex_of_bytes_def)
  ultimately show ?case using Cons hi by simp
qed

lemma bytes_of_hex_of_bytes: "bytes_of_hex (hex_of_bytes bs) = bs"
  using bytes_of_hex_append [of bs "[]"] by simp

lemma bytes_of_hex_junk: "hex_nibble c = None \<Longrightarrow> bytes_of_hex (hex_of_bytes bs @ c # s) = bs"
  by (cases s) (simp_all add: bytes_of_hex_append)

text \<open>\<open>leadingZeroBits\<close>: the inner loop walks the mask \<open>0x80, 0x40, ...\<close> of the first non-zero byte.\<close>

fun mask_bits :: "8 word \<Rightarrow> nat list \<Rightarrow> nat" where
  "mask_bits byte [] = 0"
| "mask_bits byte (k # ks) = (if byte AND push_bit k 1 \<noteq> 0 then 0 else Suc (mask_bits byte ks))"

fun leading_zero_bits :: "8 word list \<Rightarrow> nat" where
  "leading_zero_bits [] = 0"
| "leading_zero_bits (byte # buf) =
     (if byte = 0 then 8 + leading_zero_bits buf else mask_bits byte [7, 6, 5, 4, 3, 2, 1, 0])"

text \<open>The digest as one number, first byte most significant.\<close>

fun digest_value :: "8 word list \<Rightarrow> nat" where
  "digest_value [] = 0"
| "digest_value (b # bs) = unat b * 256 ^ length bs + digest_value bs"

lemma digest_value_less: "digest_value bs < 256 ^ length bs"
proof (induction bs)
  case Nil
  then show ?case by simp
next
  case (Cons b bs)
  have "unat b + 1 \<le> 256" using unat_byte_less [of b] by simp
  then have "(unat b + 1) * 256 ^ length bs \<le> 256 * 256 ^ length bs" by (rule mult_right_mono) simp
  then have "unat b * 256 ^ length bs + 256 ^ length bs \<le> 256 ^ length (b # bs)"
    by (simp only: distrib_right mult_1 list.size add_Suc_right power_Suc add_0_right)
  with Cons show ?case unfolding digest_value.simps by linarith
qed

lemma byte_and_mask: "(byte :: 8 word) AND push_bit k 1 \<noteq> 0 \<longleftrightarrow> odd (unat byte div 2 ^ k)"
proof -
  have "byte AND push_bit k 1 \<noteq> 0 \<longleftrightarrow> bit byte k"
    by (simp only: bit_iff_and_push_bit_not_eq_0)
  also have "\<dots> \<longleftrightarrow> odd (unat byte div 2 ^ k)"
    by (simp only: bit_iff_odd [of "unat byte", symmetric] bit_unsigned_iff possible_bit_nat simp_thms
        possible_bit_word) simp?
  finally show ?thesis .
qed

lemma byte_and_power: "(byte :: 8 word) AND 2 ^ k = 0 \<longleftrightarrow> even (unat byte div 2 ^ k)"
  using byte_and_mask [of byte k] by auto

lemma top_bit: "n < 2 ^ Suc k \<Longrightarrow> odd (n div 2 ^ k) \<longleftrightarrow> 2 ^ k \<le> (n :: nat)"
proof -
  assume "n < 2 ^ Suc k"
  then have "n div 2 ^ k < 2" by (simp add: less_mult_imp_div_less mult.commute)
  then have "odd (n div 2 ^ k) \<longleftrightarrow> n div 2 ^ k = 1" by (auto simp: less_2_cases_iff)
  also have "\<dots> \<longleftrightarrow> 0 < n div 2 ^ k" using \<open>n div 2 ^ k < 2\<close> by auto
  also have "\<dots> \<longleftrightarrow> 2 ^ k \<le> n" by (simp add: div_greater_zero_iff)
  finally show ?thesis .
qed

lemma mask_bits_value:
  "unat byte < 2 ^ n \<Longrightarrow> d \<le> n \<Longrightarrow> d \<le> mask_bits byte (rev [0..<n]) \<longleftrightarrow> unat byte < 2 ^ (n - d)"
proof (induction n arbitrary: d)
  case 0
  then show ?case by simp
next
  case (Suc n)
  show ?case
  proof (cases d)
    case 0
    with Suc show ?thesis by simp
  next
    case (Suc d')
    show ?thesis
    proof (cases "2 ^ n \<le> unat byte")
      case True
      have "(2::nat) ^ (n - d') \<le> 2 ^ n" by (rule power_increasing) simp_all
      then have "\<not> unat byte < 2 ^ (n - d')" using True by linarith
      with True Suc Suc.prems top_bit [OF Suc.prems(1)] show ?thesis by (simp add: byte_and_power)
    next
      case False
      with Suc Suc.prems Suc.IH [of d'] top_bit [OF Suc.prems(1)] show ?thesis
        by (simp add: byte_and_power)
    qed
  qed
qed

lemma digest_tail: "digest_value bs < 2 ^ (8 * length bs)"
  using digest_value_less [of bs] by (simp add: power_mult)

lemma leading_zeros_after_zero:
  assumes IH: "\<And>d. d \<le> 8 * length bs \<Longrightarrow> d \<le> leading_zero_bits bs \<longleftrightarrow> digest_value bs < 2 ^ (8 * length bs - d)"
    and d: "d \<le> 8 * length (0 # bs)"
  shows "d \<le> leading_zero_bits (0 # bs) \<longleftrightarrow> digest_value (0 # bs) < 2 ^ (8 * length (0 # bs) - d)"
proof (cases "d \<le> 8")
  case True
  then have "(2::nat) ^ (8 * length bs) \<le> 2 ^ (8 * length (0 # bs) - d)"
    by (intro power_increasing) simp_all
  then have "digest_value bs < 2 ^ (8 * length (0 # bs) - d)"
    using digest_tail [of bs] by (rule order.strict_trans2 [rotated])
  with True show ?thesis by simp
next
  case False
  then have "8 * length bs - (d - 8) = 8 * length (0 # bs) - d" and "d - 8 \<le> 8 * length bs"
    using d by simp_all
  then have "d - 8 \<le> leading_zero_bits bs \<longleftrightarrow> digest_value bs < 2 ^ (8 * length (0 # bs) - d)"
    using IH [of "d - 8"] by metis
  moreover have "d \<le> leading_zero_bits (0 # bs) \<longleftrightarrow> d - 8 \<le> leading_zero_bits bs" by auto
  ultimately show ?thesis by simp
qed

lemma digest_first_byte:
  assumes "d \<le> 8"
  shows "digest_value (b # bs) < 2 ^ (8 * length (b # bs) - d) \<longleftrightarrow> unat b < 2 ^ (8 - d)"
proof -
  have p256: "(256::nat) ^ length bs = 2 ^ (8 * length bs)" by (simp add: power_mult)
  have e: "8 * length (b # bs) - d = (8 - d) + 8 * length bs" using assms by simp
  show ?thesis
    unfolding e power_add
  proof
    assume "unat b < 2 ^ (8 - d)"
    then have "(unat b + 1) * 2 ^ (8 * length bs) \<le> 2 ^ (8 - d) * 2 ^ (8 * length bs)"
      by (intro mult_right_mono) simp_all
    with digest_tail [of bs] show "digest_value (b # bs) < 2 ^ (8 - d) * 2 ^ (8 * length bs)"
      by (simp add: p256 algebra_simps)
  next
    assume "digest_value (b # bs) < 2 ^ (8 - d) * 2 ^ (8 * length bs)"
    then have "unat b * 2 ^ (8 * length bs) < 2 ^ (8 - d) * 2 ^ (8 * length bs)"
      unfolding digest_value.simps p256 by linarith
    then show "unat b < 2 ^ (8 - d)" by simp
  qed
qed

lemma leading_zeros_of_first:
  assumes nz: "b \<noteq> 0" and d: "d \<le> 8 * length (b # bs)"
  shows "d \<le> leading_zero_bits (b # bs) \<longleftrightarrow> digest_value (b # bs) < 2 ^ (8 * length (b # bs) - d)"
proof -
  have pos: "1 \<le> unat b" using nz by (simp add: unat_gt_0 Suc_leI)
  have mask: "d \<le> leading_zero_bits (b # bs) \<longleftrightarrow> d \<le> mask_bits b (rev [0..<8])"
    using nz by (simp add: upt_rec)
  show ?thesis
  proof (cases "d \<le> 8")
    case True
    have "d \<le> leading_zero_bits (b # bs) \<longleftrightarrow> unat b < 2 ^ (8 - d)"
      using mask mask_bits_value [of b 8 d] unat_byte_less [of b] True by simp
    then show ?thesis using digest_first_byte [OF True] by blast
  next
    case False
    have "mask_bits b (rev [0..<8]) < 8"
      using mask_bits_value [of b 8 8] unat_byte_less [of b] pos by auto
    moreover have "(2::nat) ^ (8 * length (b # bs) - d) \<le> 256 ^ length bs"
    proof -
      have "(2::nat) ^ (8 * length (b # bs) - d) \<le> 2 ^ (8 * length bs)"
        using False by (intro power_increasing) simp_all
      then show ?thesis by (simp add: power_mult)
    qed
    moreover have "1 * 256 ^ length bs \<le> unat b * 256 ^ length bs" using pos by (rule mult_right_mono) simp
    ultimately show ?thesis
      using mask False unfolding digest_value.simps by linarith
  qed
qed

lemma leading_zero_bits_value:
  "d \<le> 8 * length bs \<Longrightarrow> d \<le> leading_zero_bits bs \<longleftrightarrow> digest_value bs < 2 ^ (8 * length bs - d)"
proof (induction bs arbitrary: d)
  case Nil
  then show ?case by simp
next
  case (Cons b bs)
  then show ?case
    using leading_zeros_after_zero [of bs d] leading_zeros_of_first [of b d bs] by (cases "b = 0") blast+
qed

subsection \<open>Challenges and solutions\<close>

record challenge =
  ch_seed :: string
  ch_difficulty :: int
  ch_exp :: int
  ch_sig :: string

record solution = challenge +
  sol_nonce :: string

record pow_config =
  baseBits :: int
  escalateBits :: int
  maxBits :: int
  ttlSeconds :: int
  req_window_ms :: int

text \<open>The clamps of \<open>config.pow\<close> and of \<open>REQ_WINDOW_MS\<close>, over the numbers the environment gives.\<close>

definition pow_config_of :: "int \<Rightarrow> int \<Rightarrow> int \<Rightarrow> int \<Rightarrow> int \<Rightarrow> pow_config" where
  "pow_config_of base esc mx ttl windowSeconds =
     \<lparr>baseBits = max 8 (min 28 base), escalateBits = max 0 esc, maxBits = max 12 (min 30 mx),
      ttlSeconds = max 30 ttl, req_window_ms = max 60000 (windowSeconds * 1000)\<rparr>"

record pow_state =
  per_ip :: "(string \<times> int list) list"
  per_subnet :: "(string \<times> int list) list"
  global_reqs :: "int list"

definition empty_pow :: pow_state where
  "empty_pow = \<lparr>per_ip = [], per_subnet = [], global_reqs = []\<rparr>"

definition pow_message :: "string \<Rightarrow> int \<Rightarrow> int \<Rightarrow> string \<Rightarrow> string" where
  "pow_message seed difficulty exp' ipHash =
     seed @ ''.'' @ show_int difficulty @ ''.'' @ show_int exp' @ ''.'' @ ipHash"

definition sign :: "(string \<Rightarrow> 8 word list) \<Rightarrow> string \<Rightarrow> int \<Rightarrow> int \<Rightarrow> string \<Rightarrow> string" where
  "sign hmac seed difficulty exp' ipHash = hex_of_bytes (hmac (pow_message seed difficulty exp' ipHash))"

subsection \<open>Adaptive difficulty\<close>

definition prune :: "int \<Rightarrow> int \<Rightarrow> int list \<Rightarrow> int list" where
  "prune window now l = shift_while (\<lambda>t. t < now - window) l"

text \<open>\<open>prune(map.get(k) ?? [], now)\<close> prunes the array the map holds, when it holds one.\<close>

definition prune_at :: "int \<Rightarrow> int \<Rightarrow> string \<Rightarrow> (string \<times> int list) list \<Rightarrow> (string \<times> int list) list" where
  "prune_at window now k m =
     (case map_of m k of None \<Rightarrow> m | Some l \<Rightarrow> AList.update k (prune window now l) m)"

definition attempts_of :: "string \<Rightarrow> (string \<times> int list) list \<Rightarrow> int list" where
  "attempts_of k m = (case map_of m k of None \<Rightarrow> [] | Some l \<Rightarrow> l)"

definition per_hour :: "int \<Rightarrow> int \<Rightarrow> int" where
  "per_hour window n = max n (round_div (n * window) 600000)"

definition pressure_of :: "int \<Rightarrow> nat \<Rightarrow> int" where
  "pressure_of window reqs =
     (if int reqs \<ge> per_hour window 60 then 3
      else if int reqs \<ge> per_hour window 25 then 2
      else if int reqs \<ge> per_hour window 10 then 1 else 0)"

definition difficulty_for ::
  "pow_config \<Rightarrow> string \<Rightarrow> string option \<Rightarrow> int \<Rightarrow> pow_state \<Rightarrow> int \<times> pow_state" where
  "difficulty_for cfg ipHash subnetHash now s =
     (let w = req_window_ms cfg;
          s1 = s\<lparr>per_ip := prune_at w now ipHash (per_ip s),
                 global_reqs := prune w now (global_reqs s),
                 per_subnet := (case subnetHash of None \<Rightarrow> per_subnet s
                    | Some k \<Rightarrow> if k = [] then per_subnet s else prune_at w now k (per_subnet s))\<rparr>;
          mine = attempts_of ipHash (per_ip s1);
          range = (case subnetHash of None \<Rightarrow> [] | Some k \<Rightarrow> if k = [] then [] else attempts_of k (per_subnet s1));
          repeats = max (int (length mine)) (int (length range));
          bits = baseBits cfg + repeats * escalateBits cfg + pressure_of w (length (global_reqs s1))
      in (min (min (maxBits cfg)
             (solvable_ceiling_bits (baseBits cfg) (ttlSeconds cfg) SLOW_BROWSER_HASHES_PER_SEC)) bits, s1))"

definition record_request ::
  "pow_config \<Rightarrow> string \<Rightarrow> string option \<Rightarrow> int \<Rightarrow> pow_state \<Rightarrow> pow_state" where
  "record_request cfg ipHash subnetHash now s =
     (let w = req_window_ms cfg;
          subnets = (case subnetHash of None \<Rightarrow> per_subnet s
             | Some k \<Rightarrow> if k = [] then per_subnet s
                 else AList.update k (prune w now (attempts_of k (per_subnet s)) @ [now]) (per_subnet s));
          ips = AList.update ipHash (attempts_of ipHash (per_ip s) @ [now]) (per_ip s);
          ips' = (if 5000 < length ips
                  then filter (\<lambda>e. snd e \<noteq> []) (map (\<lambda>e. (fst e, prune w now (snd e))) ips) else ips)
      in \<lparr>per_ip = ips', per_subnet = subnets, global_reqs = global_reqs s @ [now]\<rparr>)"

text \<open>\<open>nowMs\<close> is \<open>Date.now()\<close>; the 32 characters of the seed are the random input \<open>seed\<close>.\<close>

definition issue_challenge ::
  "pow_config \<Rightarrow> (string \<Rightarrow> 8 word list) \<Rightarrow> string \<Rightarrow> string option \<Rightarrow> string \<Rightarrow> int \<Rightarrow> pow_state
     \<Rightarrow> challenge \<times> pow_state" where
  "issue_challenge cfg hmac ipHash subnetHash seed nowMs s =
     (let (difficulty, s1) = difficulty_for cfg ipHash subnetHash nowMs s;
          exp' = nowMs div 1000 + ttl_seconds_for difficulty (baseBits cfg) (ttlSeconds cfg)
      in (\<lparr>ch_seed = seed, ch_difficulty = difficulty, ch_exp = exp',
           ch_sig = sign hmac seed difficulty exp' ipHash\<rparr>, s1))"

subsection \<open>Verification\<close>

datatype pow_refusal =
  Missing_Solution | Challenge_Expired | Bad_Difficulty | Bad_Signature | Not_Enough_Work
| Already_Used

type_synonym pow_verdict = "pow_refusal option"

definition verify_solution ::
  "pow_config \<Rightarrow> (string \<Rightarrow> 8 word list) \<Rightarrow> (string \<Rightarrow> 8 word list) \<Rightarrow> solution \<Rightarrow> string \<Rightarrow> string option
     \<Rightarrow> bool \<Rightarrow> int \<Rightarrow> pow_state \<Rightarrow> ledger \<Rightarrow> pow_verdict \<times> pow_state \<times> ledger" where
  "verify_solution cfg hmac sha256 s ipHash subnetHash spend nowMs st l =
     (let now = nowMs div 1000 in
      if ch_seed s = [] then (Some Missing_Solution, st, l)
      else if ch_exp s < now then (Some Challenge_Expired, st, l)
      else if ch_difficulty s < baseBits cfg - 1 \<or> ch_difficulty s > maxBits cfg
      then (Some Bad_Difficulty, st, l)
      else if bytes_of_hex (sign hmac (ch_seed s) (ch_difficulty s) (ch_exp s) ipHash)
                \<noteq> bytes_of_hex (ch_sig s)
      then (Some Bad_Signature, st, l)
      else let st1 = record_request cfg ipHash subnetHash nowMs st in
        if int (leading_zero_bits (sha256 (ch_seed s @ '':'' @ sol_nonce s))) < ch_difficulty s
        then (Some Not_Enough_Work, st1, l)
        else if spend
        then let (ok, l1) = spend_challenge True (ch_sig s) (ch_exp s) now l
             in (if ok then None else Some Already_Used, st1, l1)
        else (None, st1, l))"

definition spend_verified_solution :: "solution \<Rightarrow> int \<Rightarrow> ledger \<Rightarrow> bool \<times> ledger" where
  "spend_verified_solution s nowMs l = spend_challenge True (ch_sig s) (ch_exp s) (nowMs div 1000) l"

subsection \<open>Facts\<close>

lemma attempts_nonneg_pressure: "0 \<le> pressure_of w n"
  by (simp add: pressure_of_def)

lemma difficulty_for_bounds:
  assumes "baseBits cfg \<le> maxBits cfg" and "0 \<le> escalateBits cfg"
  shows "baseBits cfg \<le> fst (difficulty_for cfg ip sub now s)"
    and "fst (difficulty_for cfg ip sub now s) \<le> maxBits cfg"
    and "fst (difficulty_for cfg ip sub now s)
           \<le> solvable_ceiling_bits (baseBits cfg) (ttlSeconds cfg) SLOW_BROWSER_HASHES_PER_SEC"
proof -
  have m: "0 \<le> max (int a) (int b) * escalateBits cfg + pressure_of w n" for a b w n
    using assms(2) attempts_nonneg_pressure [of w n] by simp
  show "baseBits cfg \<le> fst (difficulty_for cfg ip sub now s)"
    using assms(1) m
    by (simp only: difficulty_for_def Let_def fst_conv min.bounded_iff ceiling_at_least_base add.assoc
        le_add_same_cancel1)
  show "fst (difficulty_for cfg ip sub now s) \<le> maxBits cfg"
    and "fst (difficulty_for cfg ip sub now s)
           \<le> solvable_ceiling_bits (baseBits cfg) (ttlSeconds cfg) SLOW_BROWSER_HASHES_PER_SEC"
    by (simp_all add: difficulty_for_def Let_def)
qed

lemma verify_without_spend:
  "fst (verify_solution cfg hmac sha s ip sub False nowMs st l) = None \<longleftrightarrow>
     ch_seed s \<noteq> [] \<and> nowMs div 1000 \<le> ch_exp s
     \<and> baseBits cfg - 1 \<le> ch_difficulty s \<and> ch_difficulty s \<le> maxBits cfg
     \<and> hmac (pow_message (ch_seed s) (ch_difficulty s) (ch_exp s) ip) = bytes_of_hex (ch_sig s)
     \<and> ch_difficulty s \<le> int (leading_zero_bits (sha (ch_seed s @ '':'' @ sol_nonce s)))"
  by (auto simp: verify_solution_def Let_def sign_def bytes_of_hex_of_bytes)

lemma verify_ledger_frame:
  "snd (snd (verify_solution cfg hmac sha s ip sub False nowMs st l)) = l"
  by (simp add: verify_solution_def Let_def)

text \<open>Printed numbers contain no dot, so the last three fields of a signed message are unambiguous.\<close>

lemma show_nat_no_dot: "CHR ''.'' \<notin> set (show_nat n)"
proof (induction n rule: show_nat.induct)
  case (1 n)
  have d: "CHR ''.'' \<noteq> char_of (k + 48)" if "k < 10" for k :: nat
  proof
    assume "CHR ''.'' = char_of (k + 48)"
    then have "of_char (CHR ''.'') = (k + 48) mod 256" by simp
    with that show False by simp
  qed
  show ?case
    using 1 d [of n] d [of "n mod 10"] by (subst show_nat.simps) auto
qed

lemma show_int_no_dot: "CHR ''.'' \<notin> set (show_int i)"
  by (simp add: show_int_def show_nat_no_dot)

lemma undotted_prefix_inj:
  "d \<notin> set v \<Longrightarrow> d \<notin> set w \<Longrightarrow> v @ d # xs = w @ d # ys \<Longrightarrow> v = w \<and> xs = ys"
proof (induction v arbitrary: w)
  case Nil
  then show ?case by (cases w) auto
next
  case (Cons c v)
  then show ?case by (cases w) auto
qed

lemma dotted_inj:
  assumes "CHR ''.'' \<notin> set v" and "CHR ''.'' \<notin> set w" and "xs @ CHR ''.'' # v = ys @ CHR ''.'' # w"
  shows "xs = ys \<and> v = w"
proof -
  have "rev v @ CHR ''.'' # rev xs = rev w @ CHR ''.'' # rev ys"
    using arg_cong [OF assms(3), of rev] by simp
  with assms(1,2) undotted_prefix_inj [of "CHR ''.''" "rev v" "rev w" "rev xs" "rev ys"]
  show ?thesis by simp
qed

lemma show_nat_inj: "show_nat m = show_nat n \<Longrightarrow> m = n"
proof (induction m arbitrary: n rule: less_induct)
  case (less m)
  have len: "show_nat k \<noteq> []" for k by (subst show_nat.simps) simp
  have last: "last (show_nat k) = char_of (k mod 10 + 48)" for k
    by (subst show_nat.simps) simp
  have code: "(of_char (char_of (k mod 10 + 48) :: char) :: nat) = k mod 10 + 48" for k
    using mod_less_divisor [of 10 k] by simp
  have mods: "m mod 10 = n mod 10"
    using less.prems last [of m] last [of n] code [of m] code [of n] by simp
  have one: "length (show_nat k) = 1 \<longleftrightarrow> k < 10" for k
    using len [of "k div 10"] by (subst show_nat.simps) simp
  show ?case
  proof (cases "m < 10")
    case True
    with one [of m] one [of n] less.prems mods show ?thesis by simp
  next
    case False
    with one [of m] one [of n] less.prems have n: "\<not> n < 10" by simp
    have "show_nat (m div 10) = butlast (show_nat m)" using False by (subst (2) show_nat.simps) simp
    moreover have "show_nat (n div 10) = butlast (show_nat n)" using n by (subst (2) show_nat.simps) simp
    ultimately have "m div 10 = n div 10" using less False by simp
    with mods show ?thesis by (metis mult_div_mod_eq)
  qed
qed

lemma show_nat_digits: "c \<in> set (show_nat n) \<Longrightarrow> c \<noteq> CHR ''-''"
proof (induction n rule: show_nat.induct)
  case (1 n)
  have d: "CHR ''-'' \<noteq> char_of (k + 48)" if "k < 10" for k :: nat
  proof
    assume "CHR ''-'' = char_of (k + 48)"
    then have "of_char (CHR ''-'') = (k + 48) mod 256" by simp
    with that show False by simp
  qed
  show ?case
    using 1 d [of n] d [of "n mod 10"] by (subst (asm) (2) show_nat.simps) (auto split: if_splits)
qed

lemma show_int_inj: "show_int i = show_int j \<Longrightarrow> i = j"
proof -
  assume e: "show_int i = show_int j"
  have ne: "show_nat k \<noteq> ''-'' @ show_nat m" for k m
  proof
    assume "show_nat k = ''-'' @ show_nat m"
    then have "CHR ''-'' \<in> set (show_nat k)" by simp
    then show False using show_nat_digits by blast
  qed
  show "i = j"
    using e ne [of "nat i" "nat (- j)"] ne [of "nat j" "nat (- i)"]
    by (auto simp: show_int_def split: if_splits dest!: show_nat_inj)
qed

lemma sign_reads_back:
  "bytes_of_hex (sign hmac seed d e ip @ junk) = hmac (pow_message seed d e ip)"
  if "junk = [] \<or> hex_nibble (hd junk) = None"
  using that by (cases junk) (auto simp: sign_def bytes_of_hex_of_bytes bytes_of_hex_junk)

text \<open>The signatures a client can send for one solution, and spending them one after the other.\<close>

definition resigned :: "solution \<Rightarrow> string \<Rightarrow> solution" where
  "resigned s junk = s\<lparr>ch_sig := ch_sig s @ junk\<rparr>"

fun spend_each :: "solution list \<Rightarrow> int \<Rightarrow> ledger \<Rightarrow> bool list" where
  "spend_each [] nowMs l = []"
| "spend_each (s # ss) nowMs l =
     (let (ok, l') = spend_verified_solution s nowMs l in ok # spend_each ss nowMs l')"

lemma spend_fresh:
  assumes "ch_sig s \<notin> fst ` set (used_challenges l)"
  shows "fst (spend_verified_solution s nowMs l)"
    and "fst ` set (used_challenges (snd (spend_verified_solution s nowMs l)))
           \<subseteq> insert (ch_sig s) (fst ` set (used_challenges l))"
proof -
  have "ch_sig s \<notin> fst ` set (used_challenges (purge_challenges_sql (nowMs div 1000) l))"
    using assms by (auto simp: purge_challenges_sql_def)
  moreover have "fst ` set (used_challenges (purge_challenges_sql (nowMs div 1000) l))
      \<subseteq> fst ` set (used_challenges l)"
    by (auto simp: purge_challenges_sql_def)
  ultimately show "fst (spend_verified_solution s nowMs l)"
    and "fst ` set (used_challenges (snd (spend_verified_solution s nowMs l)))
           \<subseteq> insert (ch_sig s) (fst ` set (used_challenges l))"
    by (auto simp: spend_verified_solution_def spend_challenge_def spend_challenge_sql_def Let_def)
qed

lemma spend_each_fresh:
  assumes "distinct (map ch_sig ss)" and "\<forall>s\<in>set ss. ch_sig s \<notin> fst ` set (used_challenges l)"
  shows "spend_each ss nowMs l = replicate (length ss) True"
  using assms
proof (induction ss arbitrary: l)
  case Nil
  then show ?case by simp
next
  case (Cons s ss)
  let ?l = "snd (spend_verified_solution s nowMs l)"
  have "spend_each ss nowMs ?l = replicate (length ss) True"
  proof (intro Cons.IH ballI)
    show "distinct (map ch_sig ss)" using Cons.prems by simp
  next
    fix s'
    assume "s' \<in> set ss"
    then have "ch_sig s' \<noteq> ch_sig s" using Cons.prems(1) by (auto simp: image_iff)
    moreover have "ch_sig s' \<notin> fst ` set (used_challenges l)"
      using Cons.prems(2) \<open>s' \<in> set ss\<close> by simp
    ultimately show "ch_sig s' \<notin> fst ` set (used_challenges ?l)"
      using spend_fresh(2) [of s l nowMs] Cons.prems(2) by (meson in_mono insertE list.set_intros(1))
  qed
  with Cons.prems spend_fresh(1) [of s l nowMs] show ?case
    by (simp add: split_beta Let_def)
qed

subsection \<open>Properties\<close>

text \<open>
  An issued challenge can be solved and is then accepted. With the configured base not above
  the maximum, the challenge issued to a client is accepted from that client until it expires, for
  any nonce whose digest has the issued number of leading zero bits; its difficulty lies between
  the base and the maximum, and above the base the expected work of a slow browser fits in half
  the lifetime the challenge was issued with.
\<close>

theorem issued_challenge_is_accepted:
  assumes "baseBits cfg \<le> maxBits cfg" and "0 \<le> escalateBits cfg" and "seed \<noteq> []"
    and issued: "issue_challenge cfg hmac ip sub seed t s = (ch, s')"
    and "nowMs div 1000 \<le> ch_exp ch"
    and "ch_difficulty ch \<le> int (leading_zero_bits (sha (seed @ '':'' @ nonce)))"
  shows "fst (verify_solution cfg hmac sha (challenge.extend ch \<lparr>sol_nonce = nonce\<rparr>) ip sub' False nowMs st l) = None
    \<and> baseBits cfg \<le> ch_difficulty ch \<and> ch_difficulty ch \<le> maxBits cfg
    \<and> (ch_difficulty ch = baseBits cfg
       \<or> solve_seconds_for (ch_difficulty ch) SLOW_BROWSER_HASHES_PER_SEC
           \<le> of_int (ch_exp ch - t div 1000) * SOLVE_BUDGET_FRACTION)"
proof -
  obtain d s1 where d: "difficulty_for cfg ip sub t s = (d, s1)" by fastforce
  then have ch: "ch = \<lparr>ch_seed = seed, ch_difficulty = d,
      ch_exp = t div 1000 + ttl_seconds_for d (baseBits cfg) (ttlSeconds cfg),
      ch_sig = sign hmac seed d (t div 1000 + ttl_seconds_for d (baseBits cfg) (ttlSeconds cfg)) ip\<rparr>"
    using issued by (simp add: issue_challenge_def Let_def)
  note b = difficulty_for_bounds [OF assms(1,2), of ip sub t s, unfolded d fst_conv]
  have "d = baseBits cfg \<or> solvable (baseBits cfg) (ttlSeconds cfg) SLOW_BROWSER_HASHES_PER_SEC d"
    using solvable_up_to_ceiling [of "baseBits cfg" d, OF _ b(3)] b(1) by linarith
  with b assms(3,5,6) ch show ?thesis
    by (auto simp: verify_without_spend challenge.defs solvable_def sign_def bytes_of_hex_of_bytes)
qed

definition ex_cfg :: pow_config where
  "ex_cfg = pow_config_of 8 2 16 600 3600"

definition ex_sha :: "string \<Rightarrow> 8 word list" where
  "ex_sha m = (if last m = CHR ''7'' then [0, 0, 0, 1] else [255, 255, 255, 255])"

definition ex_hmac :: "string \<Rightarrow> 8 word list" where
  "ex_hmac m = [word_of_nat (length m), 171]"

definition ex_challenge :: challenge where
  "ex_challenge = fst (issue_challenge ex_cfg ex_hmac ''ip'' None ''ab'' 5000 empty_pow)"

definition ex_solution :: solution where
  "ex_solution = challenge.extend ex_challenge \<lparr>sol_nonce = ''7''\<rparr>"

theorem issued_challenge_is_accepted_witness:
  "fst (verify_solution ex_cfg ex_hmac ex_sha ex_solution ''ip'' None False 6000 empty_pow empty_ledger) = None"
proof -
  obtain s' where i: "issue_challenge ex_cfg ex_hmac ''ip'' None ''ab'' 5000 empty_pow = (ex_challenge, s')"
    by (metis ex_challenge_def prod.collapse)
  have "ch_difficulty ex_challenge = 8 \<and> 6 \<le> ch_exp ex_challenge" by code_simp
  moreover have "leading_zero_bits (ex_sha ''ab:7'') = 31" by code_simp
  moreover have "baseBits ex_cfg \<le> maxBits ex_cfg \<and> 0 \<le> escalateBits ex_cfg" by code_simp
  ultimately show ?thesis
    using issued_challenge_is_accepted [of ex_cfg "''ab''" ex_hmac "''ip''" None 5000 empty_pow ex_challenge s'
        6000 ex_sha "''7''"] i
    by (simp add: ex_solution_def)
qed

text \<open>
  C21: What acceptance means. A solution that verifies is unexpired, carries a signature whose bytes
  are the MAC of exactly its own seed, difficulty, expiry and the client's key, asks for at least
  the configured base minus one and at most the configured maximum, and its digest, read as a number,
  lies below two to the digest length minus the difficulty.
\<close>

theorem accepted_solution_is_sound:
  assumes "fst (verify_solution cfg hmac sha s ip sub False nowMs st l) = None"
    and "1 \<le> baseBits cfg" and "maxBits cfg \<le> 256"
    and "length (sha (ch_seed s @ '':'' @ sol_nonce s)) = 32"
  shows "nowMs div 1000 \<le> ch_exp s \<and> baseBits cfg - 1 \<le> ch_difficulty s \<and> ch_difficulty s \<le> maxBits cfg
    \<and> bytes_of_hex (ch_sig s) = hmac (pow_message (ch_seed s) (ch_difficulty s) (ch_exp s) ip)
    \<and> digest_value (sha (ch_seed s @ '':'' @ sol_nonce s)) < 2 ^ (256 - nat (ch_difficulty s))"
proof -
  let ?d = "sha (ch_seed s @ '':'' @ sol_nonce s)"
  have "nat (ch_difficulty s) \<le> leading_zero_bits ?d" and "nat (ch_difficulty s) \<le> 8 * length ?d"
    using assms by (auto simp: verify_without_spend)
  then have "digest_value ?d < 2 ^ (8 * length ?d - nat (ch_difficulty s))"
    using leading_zero_bits_value by blast
  with assms show ?thesis by (simp add: verify_without_spend)
qed

definition ex_sha32 :: "string \<Rightarrow> 8 word list" where
  "ex_sha32 m = replicate 3 0 @ replicate 29 255"

theorem accepted_solution_is_sound_witness:
  "digest_value (ex_sha32 ''ab:7'') < 2 ^ (256 - 8)"
proof -
  have "fst (verify_solution ex_cfg ex_hmac ex_sha32 ex_solution ''ip'' None False 6000 empty_pow empty_ledger) = None"
    by code_simp
  moreover have "1 \<le> baseBits ex_cfg \<and> maxBits ex_cfg \<le> 256" by code_simp
  moreover have "ch_seed ex_solution = ''ab'' \<and> sol_nonce ex_solution = ''7'' \<and> ch_difficulty ex_solution = 8"
    by code_simp
  moreover have "length (ex_sha32 ''ab:7'') = 32" by (simp add: ex_sha32_def)
  ultimately show ?thesis
    using accepted_solution_is_sound [of ex_cfg ex_hmac ex_sha32 ex_solution "''ip''" None 6000 empty_pow empty_ledger]
    by simp
qed

text \<open>
  A signed challenge cannot be moved. Two challenges whose signed messages are equal, for client
  keys without a dot, agree on the seed, the difficulty, the expiry and the client, although the
  seed a client sends may itself contain dots.
\<close>

theorem signed_fields_are_bound:
  assumes "CHR ''.'' \<notin> set ip" and "CHR ''.'' \<notin> set ip'"
    and "pow_message seed d e ip = pow_message seed' d' e' ip'"
  shows "seed = seed' \<and> d = d' \<and> e = e' \<and> ip = ip'"
proof -
  have 1: "(seed @ ''.'' @ show_int d @ ''.'' @ show_int e) = (seed' @ ''.'' @ show_int d' @ ''.'' @ show_int e')
      \<and> ip = ip'"
    using assms by (intro dotted_inj) (simp_all add: pow_message_def)
  then have 2: "(seed @ ''.'' @ show_int d) = (seed' @ ''.'' @ show_int d') \<and> show_int e = show_int e'"
    by (intro dotted_inj) (simp_all add: show_int_no_dot)
  then have "seed = seed' \<and> show_int d = show_int d'"
    by (intro dotted_inj) (simp_all add: show_int_no_dot)
  with 1 2 show ?thesis by (auto dest: show_int_inj)
qed

theorem signed_fields_are_bound_witness:
  "pow_message ''a.1'' 8 9 ''h'' = pow_message ''a.1'' 8 9 ''h'' \<and> (8::int) = 8"
  using signed_fields_are_bound [of "''h''" "''h''" "''a.1''" 8 9 "''a.1''" 8 9] by simp

text \<open>
  C22: One proof of work pays for any number of claims. The signature is compared after hex decoding,
  which stops at the first character that is not hex, and it is the text as sent that is recorded as
  spent. So if a solution with its issued signature verifies, every variant with a distinct suffix
  starting outside the hex alphabet verifies as well, and spending the variants one after the other
  succeeds every time, on any table that has none of them.
\<close>

theorem pow_signature_malleable:
  assumes "ch_sig s = sign hmac (ch_seed s) (ch_difficulty s) (ch_exp s) ip"
    and ok: "fst (verify_solution cfg hmac sha s ip sub False nowMs st l) = None"
    and "distinct js" and junk: "\<forall>j\<in>set js. j = [] \<or> hex_nibble (hd j) = None"
    and "\<forall>j\<in>set js. \<not> challenge_spent_sql (ch_sig s @ j) l"
  shows "(\<forall>j\<in>set js. fst (verify_solution cfg hmac sha (resigned s j) ip sub False nowMs st' l') = None)
    \<and> spend_each (map (resigned s) js) nowMs l = replicate (length js) True"
proof (intro conjI ballI)
  fix j
  assume "j \<in> set js"
  with junk assms(1) have "bytes_of_hex (ch_sig (resigned s j))
      = hmac (pow_message (ch_seed s) (ch_difficulty s) (ch_exp s) ip)"
    by (simp add: resigned_def sign_reads_back)
  with ok show "fst (verify_solution cfg hmac sha (resigned s j) ip sub False nowMs st' l') = None"
    by (simp add: verify_without_spend resigned_def)
next
  have "spend_each (map (resigned s) js) nowMs l = replicate (length (map (resigned s) js)) True"
    using assms(3,5)
    by (intro spend_each_fresh) (auto simp: resigned_def challenge_spent_iff distinct_map inj_on_def)
  then show "spend_each (map (resigned s) js) nowMs l = replicate (length js) True" by simp
qed

theorem pow_signature_malleable_witness:
  "spend_each (map (resigned ex_solution) ['''', ''g'', ''gg'']) 6000 empty_ledger = [True, True, True]"
proof -
  have a: "ch_sig ex_solution = sign ex_hmac (ch_seed ex_solution) (ch_difficulty ex_solution) (ch_exp ex_solution) ''ip''"
    by code_simp
  have b: "fst (verify_solution ex_cfg ex_hmac ex_sha ex_solution ''ip'' None False 6000 empty_pow empty_ledger) = None"
    by code_simp
  have c: "hex_nibble (CHR ''g'') = None" by code_simp
  show ?thesis
    using pow_signature_malleable [OF a b, of "['''', ''g'', ''gg'']"] c
    by (simp add: challenge_spent_sql_def empty_ledger_def numeral_3_eq_3)
qed

end
