(* ===== verification/Send_Health.thy ===== *)
theory Send_Health
  imports Prelude
begin

text \<open>
  What the last sends say about the wallet: \<open>src/src/lib/zcash/sendHealth.ts\<close>. Times are whole
  milliseconds; a record always carries its network here, since \<open>recordSend\<close> is the only writer and
  fills in the default.
\<close>

datatype send_outcome = Out_Ok | Out_Failed | Out_Unknown | Out_Refused

record send_record =
  sr_outcome :: send_outcome
  sr_at :: int
  sr_network :: network
  sr_unanswered :: bool

definition MIN_SAMPLE :: int where "MIN_SAMPLE = 3"

definition FAIL_ALONE :: int where "FAIL_ALONE = 2"

definition window_for :: "int \<Rightarrow> int" where
  "window_for sendTaskDeadlineMs = max (15 * 60000) ((MIN_SAMPLE - 1) * sendTaskDeadlineMs + 60000)"

definition window_minutes :: "int \<Rightarrow> int" where
  "window_minutes windowMs = round_div windowMs 60000"

datatype send_state = Sends_Ok | Sends_Degraded | Sends_Unknown

datatype send_reason =
  Never_Resolved int int
| All_Failed int bool
| Too_Few int int
| Failing_Of int int bool
| Succeeded_Of int int
| Named_Network string send_reason

record send_health =
  sh_state :: send_state
  sh_ok :: int
  sh_failed :: int
  sh_unknown :: int
  sh_unanswered :: int
  sh_refused :: int
  sh_reason :: send_reason

type_synonym send_log = "send_record list"

text \<open>\<open>window\<close> is \<open>WINDOW_MS\<close>, the window of the configured deadline.\<close>

definition record_send :: "int \<Rightarrow> send_outcome \<Rightarrow> network \<Rightarrow> int \<Rightarrow> bool \<Rightarrow> send_log \<Rightarrow> send_log" where
  "record_send window outcome net now unanswered l =
     (let l' = l @ [\<lparr>sr_outcome = outcome, sr_at = now, sr_network = net, sr_unanswered = unanswered\<rparr>];
          cut' = now - window
      in shift_while (\<lambda>r. sr_at r < cut') l')"

definition live_records :: "int \<Rightarrow> int \<Rightarrow> network \<Rightarrow> send_log \<Rightarrow> send_log" where
  "live_records window now net l = filter (\<lambda>r. sr_at r \<ge> now - window \<and> sr_network r = net) l"

definition count_outcome :: "send_outcome \<Rightarrow> send_log \<Rightarrow> int" where
  "count_outcome out l = int (length (filter (\<lambda>r. sr_outcome r = out) l))"

definition count_unanswered :: "send_log \<Rightarrow> int" where
  "count_unanswered l = int (length (filter (\<lambda>r. sr_outcome r = Out_Unknown \<and> sr_unanswered r) l))"

definition classify_sends :: "int \<Rightarrow> send_log \<Rightarrow> send_health" where
  "classify_sends window live =
     (let ok = count_outcome Out_Ok live;
          failed = count_outcome Out_Failed live;
          unknown = count_outcome Out_Unknown live;
          refused = count_outcome Out_Refused live;
          unanswered = count_unanswered live;
          heldBack = unknown - unanswered;
          failing = failed + unanswered;
          decided = ok + failing;
          answer = (\<lambda>st why. \<lparr>sh_state = st, sh_ok = ok, sh_failed = failed, sh_unknown = unknown,
             sh_unanswered = unanswered, sh_refused = refused, sh_reason = why\<rparr>)
      in if decided < MIN_SAMPLE
         then if ok = 0 \<and> heldBack + failing \<ge> MIN_SAMPLE
              then answer Sends_Degraded (Never_Resolved unknown (unknown + failed))
              else if ok = 0 \<and> failing \<ge> FAIL_ALONE
              then answer Sends_Degraded (All_Failed failing (unanswered > 0))
              else answer Sends_Unknown (Too_Few decided (window_minutes window))
         else if 2 * failing \<ge> decided
         then answer Sends_Degraded (Failing_Of failing decided (unanswered > 0))
         else answer Sends_Ok (Succeeded_Of ok decided))"

definition read_send_health :: "int \<Rightarrow> int \<Rightarrow> send_log \<Rightarrow> network \<Rightarrow> send_health" where
  "read_send_health window now records net = classify_sends window (live_records window now net records)"

definition served_networks :: "bool \<Rightarrow> network list" where
  "served_networks crosslinkEnabled = (if crosslinkEnabled then NETWORKS else [DEFAULT_NETWORK])"

definition read_send_health_served :: "int \<Rightarrow> int \<Rightarrow> send_log \<Rightarrow> network list \<Rightarrow> send_health" where
  "read_send_health_served window now records nets =
     (let each = map (\<lambda>n. (n, read_send_health window now records n)) nets in
      case find (\<lambda>e. sh_state (snd e) = Sends_Degraded) each of
        None \<Rightarrow> snd (hd each)
      | Some (n, h) \<Rightarrow>
          if n = DEFAULT_NETWORK then h
          else h\<lparr>sh_reason := Named_Network (network_name n) (sh_reason h)\<rparr>)"

definition send_health_blocks_serving :: "send_health \<Rightarrow> bool" where
  "send_health_blocks_serving h = (sh_state h = Sends_Degraded)"

definition SENDS_RETRY_SECONDS :: "int \<Rightarrow> int" where
  "SENDS_RETRY_SECONDS window = ceil_div window 1000"

subsection \<open>Facts\<close>

lemma count_nonneg: "0 \<le> count_outcome x l" "0 \<le> count_unanswered l" "count_unanswered l \<le> count_outcome Out_Unknown l"
  by (simp_all add: count_outcome_def count_unanswered_def) (induction l; simp)

lemma classify_counts:
  "sh_ok (classify_sends w l) = count_outcome Out_Ok l"
  "sh_failed (classify_sends w l) = count_outcome Out_Failed l"
  "sh_unknown (classify_sends w l) = count_outcome Out_Unknown l"
  "sh_unanswered (classify_sends w l) = count_unanswered l"
  by (simp_all add: classify_sends_def Let_def)

lemma degraded_iff:
  "sh_state (classify_sends w l) = Sends_Degraded \<longleftrightarrow>
     (let ok = count_outcome Out_Ok l; failing = count_outcome Out_Failed l + count_unanswered l;
          unresolved = count_outcome Out_Failed l + count_outcome Out_Unknown l
      in if ok = 0 then failing \<ge> 2 \<or> unresolved \<ge> 3
         else ok + failing \<ge> 3 \<and> failing \<ge> ok)"
  using count_nonneg(1) [of Out_Ok l] count_nonneg(1) [of Out_Failed l] count_nonneg(2,3) [of l]
  by (simp add: classify_sends_def Let_def MIN_SAMPLE_def FAIL_ALONE_def)

text \<open>The log as \<open>recordSend\<close> leaves it after a run of sends.\<close>

definition send_event :: "send_record \<Rightarrow> int \<Rightarrow> send_log \<Rightarrow> send_log" where
  "send_event e window l = record_send window (sr_outcome e) (sr_network e) (sr_at e) (sr_unanswered e) l"

definition run_sends :: "int \<Rightarrow> send_record list \<Rightarrow> send_log" where
  "run_sends window es = fold (\<lambda>e l. send_event e window l) es []"

lemma run_sends_filter:
  assumes "sorted (map sr_at es)"
  shows "run_sends window es = filter (\<lambda>r. \<forall>e\<in>set es. sr_at e - window \<le> sr_at r) es"
  using assms
proof (induction es rule: rev_induct)
  case Nil
  then show ?case by (simp add: run_sends_def)
next
  case (snoc e es)
  have srt: "sorted (map sr_at es)" and last: "\<forall>r\<in>set es. sr_at r \<le> sr_at e"
    using snoc.prems by (auto simp: sorted_append)
  let ?l = "filter (\<lambda>r. \<forall>x\<in>set es. sr_at x - window \<le> sr_at r) es"
  have "run_sends window (es @ [e]) = shift_while (\<lambda>r. sr_at r < sr_at e - window) (?l @ [e])"
    using snoc.IH [OF srt]
    by (cases e) (simp add: run_sends_def send_event_def record_send_def)
  also have "\<dots> = filter (\<lambda>r. sr_at e - window \<le> sr_at r) (?l @ [e])"
    by (rule shift_while_sorted) (use snoc.prems in \<open>auto simp: sorted_append sorted_filter\<close>)
  also have "\<dots> = filter (\<lambda>r. \<forall>x\<in>set (es @ [e]). sr_at x - window \<le> sr_at r) (es @ [e])"
    using last by (force intro: filter_cong)
  finally show ?case .
qed

subsection \<open>Properties\<close>

text \<open>
  The verdict that stops serving, as a condition on the counts. Sends are degraded exactly when
  nothing succeeded and either two sends failed or went unanswered or three failed or stayed
  unresolved, or when something succeeded, three sends were decided and at least as many failed or
  went unanswered as succeeded. Refused recipients never count.
\<close>

theorem degraded_exactly_when:
  "sh_state (classify_sends w l) = Sends_Degraded \<longleftrightarrow>
     (let ok = count_outcome Out_Ok l; failing = count_outcome Out_Failed l + count_unanswered l;
          unresolved = count_outcome Out_Failed l + count_outcome Out_Unknown l
      in if ok = 0 then failing \<ge> 2 \<or> unresolved \<ge> 3
         else ok + failing \<ge> 3 \<and> failing \<ge> ok)"
  by (rule degraded_iff)

text \<open>
  Trimming the log on every write loses nothing. For sends recorded in time order, the verdict
  read at or after the last of them from the trimmed log is the verdict over the whole history.
\<close>

theorem trimmed_log_reads_like_history:
  assumes "sorted (map sr_at es)" and "\<forall>e\<in>set es. sr_at e \<le> now"
  shows "read_send_health window now (run_sends window es) net = read_send_health window now es net"
proof -
  have "live_records window now net (run_sends window es) = live_records window now net es"
    unfolding run_sends_filter [OF assms(1)] live_records_def filter_filter
    using assms(2) by (force intro: filter_cong)
  then show ?thesis by (simp add: read_send_health_def)
qed

definition ex_sends :: "send_record list" where
  "ex_sends = [\<lparr>sr_outcome = Out_Failed, sr_at = 0, sr_network = Taz, sr_unanswered = False\<rparr>,
               \<lparr>sr_outcome = Out_Failed, sr_at = 1000000, sr_network = Taz, sr_unanswered = False\<rparr>]"

theorem trimmed_log_reads_like_history_witness:
  "read_send_health 900000 1000000 (run_sends 900000 ex_sends) Taz = read_send_health 900000 1000000 ex_sends Taz"
  by (rule trimmed_log_reads_like_history) (simp_all add: ex_sends_def)

text \<open>
  A block on sends lifts by itself. Whatever was recorded before a claim is refused, and as long
  as nothing is sent, after the retry time the refusal names the sends no longer block serving.
\<close>

theorem send_block_lifts:
  assumes "\<forall>e\<in>set records. sr_at e < now"
  shows "\<not> send_health_blocks_serving
    (read_send_health window (now + 1000 * SENDS_RETRY_SECONDS window) records net)"
proof -
  have "window \<le> 1000 * SENDS_RETRY_SECONDS window"
    using ceil_div_ge [of 1000 window] by (simp add: SENDS_RETRY_SECONDS_def)
  then have "live_records window (now + 1000 * SENDS_RETRY_SECONDS window) net records = []"
    using assms by (force simp: live_records_def filter_empty_conv)
  then show ?thesis
    by (simp add: send_health_blocks_serving_def read_send_health_def classify_sends_def
        count_outcome_def count_unanswered_def MIN_SAMPLE_def FAIL_ALONE_def)
qed

theorem send_block_lifts_witness:
  "\<not> send_health_blocks_serving (read_send_health 900000 (1000001 + 1000 * SENDS_RETRY_SECONDS 900000) ex_sends Taz)"
  by (rule send_block_lifts) (simp add: ex_sends_def)

text \<open>
  A wallet that finishes nothing is noticed at any configured deadline. Three unresolved sends,
  each a deadline after the one before, are still all in the window when the third is recorded, and
  without a success among the sends in the window they block serving.
\<close>

theorem unresolved_run_is_noticed:
  assumes "0 \<le> deadline"
    and "{\<lparr>sr_outcome = Out_Unknown, sr_at = t, sr_network = net, sr_unanswered = u1\<rparr>,
          \<lparr>sr_outcome = Out_Unknown, sr_at = t + deadline, sr_network = net, sr_unanswered = u2\<rparr>,
          \<lparr>sr_outcome = Out_Unknown, sr_at = t + 2 * deadline, sr_network = net, sr_unanswered = u3\<rparr>}
         \<subseteq> set records"
    and "0 < deadline" and "\<forall>r\<in>set records. sr_network r = net \<longrightarrow> sr_outcome r \<noteq> Out_Ok"
  shows "send_health_blocks_serving
    (read_send_health (window_for deadline) (t + 2 * deadline + 60000) records net)"
proof -
  let ?w = "window_for deadline" and ?now = "t + 2 * deadline + 60000"
  let ?l = "live_records ?w ?now net records"
  let ?S = "{\<lparr>sr_outcome = Out_Unknown, sr_at = t, sr_network = net, sr_unanswered = u1\<rparr>,
          \<lparr>sr_outcome = Out_Unknown, sr_at = t + deadline, sr_network = net, sr_unanswered = u2\<rparr>,
          \<lparr>sr_outcome = Out_Unknown, sr_at = t + 2 * deadline, sr_network = net, sr_unanswered = u3\<rparr>}"
  have "?now - ?w \<le> t" by (simp add: window_for_def MIN_SAMPLE_def)
  with assms(1,2) have "?S \<subseteq> set (filter (\<lambda>r. sr_outcome r = Out_Unknown) ?l)"
    by (auto simp: live_records_def)
  then have "card ?S \<le> length (filter (\<lambda>r. sr_outcome r = Out_Unknown) ?l)"
    by (meson card_length card_mono finite_set order_trans)
  moreover have "card ?S = 3" using assms(3) by simp
  ultimately have "3 \<le> count_outcome Out_Unknown ?l" by (simp add: count_outcome_def)
  moreover have "count_outcome Out_Ok ?l = 0"
    using assms(4) by (simp add: count_outcome_def live_records_def filter_empty_conv)
  ultimately have "sh_state (classify_sends ?w ?l) = Sends_Degraded"
    using count_nonneg(1) [of Out_Failed ?l] by (simp add: degraded_iff)
  then show ?thesis by (simp add: send_health_blocks_serving_def read_send_health_def)
qed

theorem unresolved_run_is_noticed_witness:
  "send_health_blocks_serving (read_send_health (window_for 309000) (0 + 2 * 309000 + 60000)
     (map (\<lambda>t. \<lparr>sr_outcome = Out_Unknown, sr_at = t, sr_network = Taz, sr_unanswered = False\<rparr>) [0, 309000, 618000]) Taz)"
  by (rule unresolved_run_is_noticed [of _ _ _ False False False]) simp_all

end
