(* ===== verification/External_Tip.thy ===== *)
theory External_Tip
  imports Complex_Main Js_String
begin

text \<open>
  The independent reference for the chain's height: \<open>src/src/lib/zcash/externalTip.ts\<close>. What the network
  answers (the aggregator \<open>hosh\<close>, the lightwalletd endpoints) is an argument of the operations; the
  modules state is the record \<open>tip_state\<close>. Times are whole milliseconds. The reading of the wire
  format is in \<open>Block_Id\<close>.
\<close>

subsection \<open>Who may be an oracle\<close>

text \<open>\<open>isPublicIpv4\<close>, on the first two octets of the dotted text.\<close>

definition is_public_ipv4 :: "string \<Rightarrow> bool" where
  "is_public_ipv4 dotted =
     (case map digits_value (split_on (CHR ''.'') dotted) of
        a # b # _ \<Rightarrow>
          \<not> (a = 10 \<or> a = 127 \<or> a = 0 \<or> (a = 172 \<and> b \<ge> 16 \<and> b \<le> 31) \<or> (a = 192 \<and> b = 168)
             \<or> (a = 169 \<and> b = 254) \<or> (a = 100 \<and> b \<ge> 64 \<and> b \<le> 127))
      | _ \<Rightarrow> True)"

definition is_dotted_quad :: "string \<Rightarrow> bool" where
  "is_dotted_quad s =
     (let ws = split_on (CHR ''.'') s in length ws = 4 \<and> list_all (\<lambda>w. w \<noteq> [] \<and> list_all is_digit w) ws)"

definition hex_digit_value :: "char \<Rightarrow> int" where
  "hex_digit_value c = (if is_digit c then int (of_char c) - 48 else int (of_char c) - 87)"

definition parse_hex :: "string \<Rightarrow> int" where
  "parse_hex s = foldl (\<lambda>v c. 16 * v + hex_digit_value c) 0 s"

definition is_hextet :: "string \<Rightarrow> bool" where
  "is_hextet w = (w \<noteq> [] \<and> length w \<le> 4 \<and> list_all is_hex w)"

text \<open>The dotted text of an IPv4-mapped IPv6 host, when it is one.\<close>

definition mapped_ipv4 :: "string \<Rightarrow> string option" where
  "mapped_ipv4 host =
     (if starts_with host ''::ffff:''
      then let rest = drop 7 host in
        if is_dotted_quad rest then Some rest
        else (case split_on (CHR '':'') rest of
            [h, l] \<Rightarrow>
              if is_hextet h \<and> is_hextet l
              then let hi = parse_hex h; lo = parse_hex l
                   in Some (join_with ''.'' (map show_int [hi div 256, hi mod 256, lo div 256, lo mod 256]))
              else None
          | _ \<Rightarrow> None)
      else None)"

definition LOCAL_SUFFIXES :: "string list" where
  "LOCAL_SUFFIXES = [''local'', ''internal'', ''localhost'', ''lan'', ''home'', ''home.arpa'', ''intranet'',
     ''corp'', ''onion'']"

text \<open>\<open>/^f[cd]/\<close>, \<open>/^fe[89ab]/\<close> and \<open>/^fe[c-f]/\<close>.\<close>

definition starts_private_v6 :: "string \<Rightarrow> bool" where
  "starts_private_v6 host =
     (list_ex (starts_with host) [''fc'', ''fd'', ''fe8'', ''fe9'', ''fea'', ''feb'', ''fec'', ''fed'', ''fee'', ''fef''])"

text \<open>
  \<open>isIndependentTipEndpoint\<close>, given what the URL parser answers: \<open>None\<close> when it throws, else whether the
  target is dialled with TLS and the host name without brackets or trailing dots, in lower case.
\<close>

definition is_independent_tip_endpoint :: "(bool \<times> string) option \<Rightarrow> bool" where
  "is_independent_tip_endpoint u =
     (case u of None \<Rightarrow> False
      | Some (tls, host) \<Rightarrow>
          if \<not> tls then False
          else if host = ''localhost'' \<or> list_ex (\<lambda>s. ends_with host (''.'' @ s)) LOCAL_SUFFIXES then False
          else if is_dotted_quad host then is_public_ipv4 host
          else if CHR '':'' \<in> set host
          then (case mapped_ipv4 host of Some dotted \<Rightarrow> is_public_ipv4 dotted
                | None \<Rightarrow> \<not> (host = ''::1'' \<or> host = ''::'' \<or> starts_private_v6 host
                    \<or> starts_with host ''64:ff9b:'' \<or> starts_with host ''2001:db8:''))
          else CHR ''.'' \<in> set host)"

subsection \<open>The direct leg\<close>

definition HOSH_TIMEOUT_MS :: int where "HOSH_TIMEOUT_MS = 5000"
definition FALLBACK_TOTAL_MS :: int where "FALLBACK_TOTAL_MS = 3000"
definition REFRESH_ATTEMPT_MS :: int where "REFRESH_ATTEMPT_MS = HOSH_TIMEOUT_MS + FALLBACK_TOTAL_MS"
definition MIN_ATTEMPT_GAP_MS :: int where "MIN_ATTEMPT_GAP_MS = 1000"
definition STALE_MS :: int where "STALE_MS = 30000"
definition MAX_AGE_MS :: int where "MAX_AGE_MS = 5 * 60000"

text \<open>One dial: how long it took, and the height it answered; an error or no height is \<open>None\<close>.\<close>

type_synonym 'e dial = "'e \<Rightarrow> int \<Rightarrow> int \<times> int option"

fun try_legs :: "'e dial \<Rightarrow> int \<Rightarrow> 'e list \<Rightarrow> int \<Rightarrow> (int \<times> 'e) option \<times> int" where
  "try_legs dial endsAt [] now = (None, now)"
| "try_legs dial endsAt (e # es) now =
     (let remaining = endsAt - now in
      if remaining \<le> 0 then (None, now)
      else let share = ceil_div remaining (int (length (e # es)));
               (took, height) = dial e share
           in case height of
                Some h \<Rightarrow> if h > 0 then (Some (h, e), now + took) else try_legs dial endsAt es (now + took)
              | None \<Rightarrow> try_legs dial endsAt es (now + took))"

definition fetch_direct_tip ::
  "('e \<Rightarrow> bool) \<Rightarrow> 'e dial \<Rightarrow> int \<Rightarrow> 'e list \<Rightarrow> int \<Rightarrow> (int \<times> 'e) option \<times> int" where
  "fetch_direct_tip oracle dial fallbackTotalMs endpoints now =
     try_legs dial (now + fallbackTotalMs) (filter oracle endpoints) now"

text \<open>The largest height of the aggregator's servers that are online on testnet.\<close>

record hosh_server =
  hs_chain :: string
  hs_online :: bool
  hs_height :: "int option"

definition from_hosh :: "hosh_server list option \<Rightarrow> int option" where
  "from_hosh answer =
     (case answer of None \<Rightarrow> None
      | Some servers \<Rightarrow>
          let heights = map (\<lambda>s. the (hs_height s))
                (filter (\<lambda>s. hs_chain s = ''test'' \<and> hs_online s \<and> hs_height s \<noteq> None) servers)
          in if heights = [] then None else Some (Max (set heights)))"

subsection \<open>Samples\<close>

datatype ref_name = Hosh | Lightwalletd

record ref_sample =
  rs_height :: int
  rs_at :: int
  rs_host :: "string option"
  rs_prevHeight :: "int option"
  rs_prevAt :: "int option"

type_synonym ref_sources = "(ref_name \<times> ref_sample) list"

definition RATE_BASELINE_MS :: int where "RATE_BASELINE_MS = 5 * 60000"

definition rate_anchor :: "ref_sample option \<Rightarrow> int \<Rightarrow> int \<Rightarrow> int option \<times> int option" where
  "rate_anchor was height now =
     (case was of None \<Rightarrow> (None, None)
      | Some w \<Rightarrow>
          let held = (rs_prevHeight w, rs_prevAt w) in
          (case rs_prevAt w of
             Some p \<Rightarrow> if now - p < RATE_BASELINE_MS then held
                       else if rs_height w \<noteq> height then (Some (rs_height w), Some (rs_at w)) else held
           | None \<Rightarrow> if rs_height w \<noteq> height then (Some (rs_height w), Some (rs_at w)) else held))"

definition rate_of :: "ref_sample \<Rightarrow> int \<times> int" where
  "rate_of v = (case (rs_prevHeight v, rs_prevAt v) of
      (Some ph, Some pa) \<Rightarrow>
        if rs_height v - ph > 0 \<and> rs_at v - pa > 0 then (rs_height v - ph, rs_at v - pa) else (0, 0)
    | _ \<Rightarrow> (0, 0))"

text \<open>Seconds per block; the source adds up seconds, here milliseconds divided at the end.\<close>

definition observed_seconds_per_block :: "ref_sources \<Rightarrow> rat option" where
  "observed_seconds_per_block sources =
     (let blocks = sum_list (map (\<lambda>e. fst (rate_of (snd e))) sources);
          ms = sum_list (map (\<lambda>e. snd (rate_of (snd e))) sources)
      in if blocks > 0 then Some (of_int ms / 1000 / of_int blocks) else None)"

definition MIN_PLAUSIBLE_SECONDS_PER_BLOCK :: rat where "MIN_PLAUSIBLE_SECONDS_PER_BLOCK = 1"

definition js_round :: "rat \<Rightarrow> int" where
  "js_round x = \<lfloor>x + 1 / 2\<rfloor>"

record tip_reference =
  tr_height :: int
  tr_ageSeconds :: int
  tr_stale :: bool
  tr_host :: "string option"

record tip_references =
  refs_sources :: "(ref_name \<times> tip_reference) list"
  refs_spreadBlocks :: "int option"
  refs_corroborated :: "bool option"
  refs_spreadSeconds :: "int option"
  refs_secondsPerBlock :: "rat option"
  refs_agreeBlocks :: int
  refs_used :: "ref_name option"
  refs_usedHeight :: "int option"

definition tip_reference_of :: "int \<Rightarrow> ref_sample \<Rightarrow> tip_reference" where
  "tip_reference_of now v =
     (let ageMs = now - rs_at v
      in \<lparr>tr_height = rs_height v, tr_ageSeconds = max 0 (round_div ageMs 1000),
          tr_stale = (ageMs > MAX_AGE_MS), tr_host = rs_host v\<rparr>)"

text \<open>\<open>fresh.reduce((a, b) => b.height > a.height ? b : a)\<close>.\<close>

definition highest_ref :: "(ref_name \<times> tip_reference) list \<Rightarrow> (ref_name \<times> tip_reference) option" where
  "highest_ref fresh =
     (case fresh of [] \<Rightarrow> None
      | x # xs \<Rightarrow> Some (foldl (\<lambda>a b. if tr_height (snd b) > tr_height (snd a) then b else a) x xs))"

definition get_tip_references :: "int \<Rightarrow> int \<Rightarrow> ref_sources \<Rightarrow> int \<Rightarrow> tip_references" where
  "get_tip_references agreeBlocks agreeSeconds raw now =
     (let sources = map (\<lambda>(n, v). (n, tip_reference_of now v)) raw;
          fresh = filter (\<lambda>e. \<not> tr_stale (snd e)) sources;
          heights = map (\<lambda>e. tr_height (snd e)) fresh;
          spreadBlocks = (if length heights \<ge> 2 then Some (Max (set heights) - Min (set heights)) else None);
          rateSources = filter (\<lambda>e. fst e \<in> fst ` set fresh) raw;
          rawRate = observed_seconds_per_block rateSources;
          secondsPerBlock = (case rawRate of None \<Rightarrow> None
             | Some r \<Rightarrow> if r < MIN_PLAUSIBLE_SECONDS_PER_BLOCK then None
                         else Some (of_int (js_round (r * 100)) / 100));
          spreadSeconds = (case (spreadBlocks, secondsPerBlock) of
             (Some b, Some s) \<Rightarrow> Some (js_round (of_int b * s)) | _ \<Rightarrow> None);
          used = map_option fst (highest_ref fresh)
      in \<lparr>refs_sources = sources, refs_spreadBlocks = spreadBlocks,
          refs_corroborated = (case spreadBlocks of None \<Rightarrow> None
             | Some b \<Rightarrow> Some (case spreadSeconds of Some s \<Rightarrow> s \<le> agreeSeconds | None \<Rightarrow> b \<le> agreeBlocks)),
          refs_spreadSeconds = spreadSeconds, refs_secondsPerBlock = secondsPerBlock,
          refs_agreeBlocks = (case secondsPerBlock of None \<Rightarrow> agreeBlocks
             | Some s \<Rightarrow> if s \<le> 0 then agreeBlocks else js_round (of_int agreeSeconds / s)),
          refs_used = used,
          refs_usedHeight = (case used of None \<Rightarrow> None
             | Some n \<Rightarrow> map_option tr_height (map_of sources n))\<rparr>)"

record reference_reading =
  rr_height :: "int option"
  rr_source :: "ref_name option"
  rr_stale :: bool

definition reference_tip_at :: "int \<Rightarrow> int \<Rightarrow> ref_sources \<Rightarrow> int \<Rightarrow> reference_reading" where
  "reference_tip_at agreeBlocks agreeSeconds raw now =
     (let refs = get_tip_references agreeBlocks agreeSeconds raw now in
      case refs_used refs of
        Some n \<Rightarrow> \<lparr>rr_height = map_option tr_height (map_of (refs_sources refs) n), rr_source = Some n, rr_stale = False\<rparr>
      | None \<Rightarrow> \<lparr>rr_height = None, rr_source = None, rr_stale = (refs_sources refs \<noteq> [])\<rparr>)"

subsection \<open>The refresh\<close>

datatype tip_source = Source_Hosh | Source_Direct | Source_None

record tip_cache =
  tc_height :: "int option"
  tc_at :: int
  tc_source :: tip_source
  tc_host :: "string option"

record tip_state =
  ts_cache :: tip_cache
  ts_refreshing :: bool
  ts_lastAttemptAt :: int
  ts_sources :: ref_sources

definition no_tip :: tip_state where
  "no_tip = \<lparr>ts_cache = \<lparr>tc_height = None, tc_at = 0, tc_source = Source_None, tc_host = None\<rparr>,
     ts_refreshing = False, ts_lastAttemptAt = 0, ts_sources = []\<rparr>"

definition begin_refresh :: "bool \<Rightarrow> int \<Rightarrow> tip_state \<Rightarrow> tip_state option" where
  "begin_refresh waiveGap now st =
     (if ts_refreshing st then None
      else if \<not> waiveGap \<and> now - ts_lastAttemptAt st < MIN_ATTEMPT_GAP_MS then None
      else Some (st\<lparr>ts_lastAttemptAt := now, ts_refreshing := True\<rparr>))"

text \<open>Assigning a property of an object keeps its place in the order, or appends.\<close>

fun put_source :: "ref_name \<Rightarrow> ref_sample \<Rightarrow> ref_sources \<Rightarrow> ref_sources" where
  "put_source n v [] = [(n, v)]"
| "put_source n v (e # es) = (if fst e = n then (n, v) # es else e # put_source n v es)"

definition sample_source ::
  "ref_name \<Rightarrow> int \<Rightarrow> string option \<Rightarrow> int \<Rightarrow> ref_sources \<Rightarrow> ref_sources" where
  "sample_source n height host now srcs =
     (let (ph, pa) = rate_anchor (map_of srcs n) height now
      in put_source n \<lparr>rs_height = height, rs_at = now, rs_host = host, rs_prevHeight = ph, rs_prevAt = pa\<rparr> srcs)"

text \<open>\<open>hosh\<close> and \<open>direct\<close> are what \<open>fetchBothReferencesWithin\<close> answered.\<close>

definition finish_refresh :: "int option \<Rightarrow> (int \<times> string) option \<Rightarrow> int \<Rightarrow> tip_state \<Rightarrow> tip_state" where
  "finish_refresh hosh0 direct now st =
     (let hosh = (case hosh0 of Some h \<Rightarrow> if h > 0 then Some h else None | None \<Rightarrow> None);
          s1 = (case hosh of Some h \<Rightarrow> sample_source Hosh h None now (ts_sources st) | None \<Rightarrow> ts_sources st);
          s2 = (case direct of Some (h, host) \<Rightarrow> sample_source Lightwalletd h (Some host) now s1 | None \<Rightarrow> s1);
          (h, src, host) = (case hosh of Some h \<Rightarrow> (Some h, Source_Hosh, None)
             | None \<Rightarrow> (case direct of Some (h, host) \<Rightarrow> (Some h, Source_Direct, Some host)
                | None \<Rightarrow> (None, Source_None, None)))
      in st\<lparr>ts_sources := s2,
            ts_cache := (case h of Some x \<Rightarrow> if x > 0
               then \<lparr>tc_height = Some x, tc_at = now, tc_source = src, tc_host = host\<rparr> else ts_cache st
               | None \<Rightarrow> ts_cache st),
            ts_refreshing := False\<rparr>)"

definition newest_at :: "tip_state \<Rightarrow> int" where
  "newest_at st = (case map (\<lambda>e. rs_at (snd e)) (ts_sources st) of [] \<Rightarrow> 0 | x # xs \<Rightarrow> fold max xs x)"

definition kick_if_stale :: "int \<Rightarrow> tip_state \<Rightarrow> tip_state" where
  "kick_if_stale now st =
     (if now - newest_at st > STALE_MS
      then (case begin_refresh False now st of None \<Rightarrow> st | Some st' \<Rightarrow> st') else st)"

definition reading_for :: "tip_cache \<Rightarrow> int \<Rightarrow> int option \<times> tip_source \<times> string option" where
  "reading_for c now =
     (let age = now - tc_at c in
      if tc_at c = 0 \<or> age > MAX_AGE_MS \<or> tc_height c = None then (None, Source_None, None)
      else (tc_height c, tc_source c, tc_host c))"

subsection \<open>Facts about the legs\<close>

text \<open>A dial respects its deadline.\<close>

definition punctual :: "'e dial \<Rightarrow> bool" where
  "punctual dial = (\<forall>e share. 0 < share \<longrightarrow> 0 \<le> fst (dial e share) \<and> fst (dial e share) \<le> share)"

lemma share_le:
  assumes "0 < r" and "0 < (n::int)"
  shows "ceil_div r n \<le> r" and "0 < ceil_div r n"
proof -
  have "r \<le> r * n" using assms mult_left_mono [of 1 n r] by simp
  then have "- r \<ge> - r * n" by simp
  then have "(- r) div n \<ge> (- r * n) div n" by (rule zdiv_mono1) (rule assms(2))
  moreover have "(- r * n) div n = - r" using assms(2) by (intro nonzero_mult_div_cancel_right) simp
  ultimately show "ceil_div r n \<le> r" by (simp add: ceil_div_def)
  have "r \<le> n * ceil_div r n" using assms(2) by (rule ceil_div_ge)
  with assms show "0 < ceil_div r n" by (metis less_le_trans zero_less_mult_pos)
qed

lemma try_legs_end:
  assumes "punctual dial" and "now \<le> endsAt"
  shows "now \<le> snd (try_legs dial endsAt es now) \<and> snd (try_legs dial endsAt es now) \<le> endsAt"
  using assms(2)
proof (induction es arbitrary: now)
  case Nil
  then show ?case by simp
next
  case (Cons e es)
  let ?share = "ceil_div (endsAt - now) (int (length (e # es)))"
  obtain took h where d: "dial e ?share = (took, h)" by fastforce
  show ?case
  proof (cases "endsAt - now \<le> 0")
    case True
    with Cons.prems show ?thesis by simp
  next
    case False
    then have s: "?share \<le> endsAt - now" "0 < ?share" using share_le by simp_all
    then have t: "0 \<le> took" "took \<le> ?share"
      using assms(1) d unfolding punctual_def by (metis fst_conv)+
    with s have "now + took \<le> endsAt" by simp
    with Cons.IH [of "now + took"] False t s d show ?thesis
      by (auto simp: Let_def split: option.splits)
  qed
qed

lemma share_floor:
  fixes q :: int
  assumes "0 < n" and "0 \<le> q" and "n * q \<le> r" and "took \<le> ceil_div r n"
  shows "(n - 1) * q \<le> r - took"
proof -
  have "ceil_div r n - q = ceil_div (r - n * q) n"
  proof -
    have "- (r - n * q) = - r + q * n" by simp
    moreover have "(- r + q * n) div n = q + (- r) div n"
      using assms(1) by (intro div_mult_self1) simp
    ultimately have "(- (r - n * q)) div n = q + (- r) div n" by (simp only:)
    then show ?thesis unfolding ceil_div_def by linarith
  qed
  moreover have "ceil_div (r - n * q) n \<le> r - n * q"
  proof (cases "r - n * q = 0")
    case True
    then show ?thesis by (simp add: ceil_div_def)
  next
    case False
    with assms(3) share_le(1) [of "r - n * q" n] assms(1) show ?thesis by simp
  qed
  ultimately have "took - q \<le> r - n * q" using assms(4) by linarith
  then show ?thesis by (simp add: algebra_simps)
qed

lemma try_legs_finds:
  assumes "punctual dial" and "1 \<le> q" and "int (length es) * q \<le> endsAt - now" and "e \<in> set es"
    and "\<forall>share\<ge>q. \<exists>took h. dial e share = (took, Some h) \<and> 0 < h"
  shows "fst (try_legs dial endsAt es now) \<noteq> None"
  using assms(3,4)
proof (induction es arbitrary: now)
  case Nil
  then show ?case by simp
next
  case (Cons x es)
  let ?n = "int (length (x # es))"
  let ?r = "endsAt - now"
  let ?share = "ceil_div ?r ?n"
  obtain took h where d: "dial x ?share = (took, h)" by fastforce
  have n: "0 < ?n" by simp
  have "1 * 1 \<le> ?n * q" using assms(2) by (intro mult_mono) simp_all
  with Cons.prems(1) have r: "0 < ?r" by linarith
  have q_le: "q \<le> ?share"
  proof -
    have "?n * q \<le> ?n * ?share" using Cons.prems(1) ceil_div_ge [OF n, of ?r] by linarith
    then show ?thesis by simp
  qed
  have "0 < ?share" using q_le assms(2) by simp
  then have t: "took \<le> ?share" using assms(1) d unfolding punctual_def by (metis fst_conv snd_conv)
  have rest: "int (length es) * q \<le> endsAt - (now + took)"
    using share_floor [OF n _ Cons.prems(1) t] assms(2) by (simp add: algebra_simps)
  show ?case
  proof (cases "\<exists>v. h = Some v \<and> 0 < v")
    case True
    with r d show ?thesis by (auto simp: Let_def)
  next
    case False
    with assms(5) q_le d have "e \<noteq> x" by (metis prod.inject)
    with Cons.prems(2) have "e \<in> set es" by simp
    with Cons.IH rest have "fst (try_legs dial endsAt es (now + took)) \<noteq> None" by blast
    with False r d show ?thesis by (auto simp: Let_def split: option.splits)
  qed
qed

subsection \<open>Facts about the references\<close>

text \<open>The samples a decision at \<open>now\<close> may use.\<close>

definition fresh_samples :: "ref_sources \<Rightarrow> int \<Rightarrow> (ref_name \<times> ref_sample) list" where
  "fresh_samples raw now = filter (\<lambda>e. now - rs_at (snd e) \<le> MAX_AGE_MS) raw"

lemma highest_ref_max:
  assumes "fresh \<noteq> []"
  shows "\<exists>e. highest_ref fresh = Some e \<and> e \<in> set fresh \<and> (\<forall>x\<in>set fresh. tr_height (snd x) \<le> tr_height (snd e))"
proof -
  have "foldl (\<lambda>a b. if tr_height (snd b) > tr_height (snd a) then b else a) x xs \<in> set (x # xs)
      \<and> (\<forall>y\<in>set (x # xs). tr_height (snd y)
          \<le> tr_height (snd (foldl (\<lambda>a b. if tr_height (snd b) > tr_height (snd a) then b else a) x xs)))"
    for x :: "ref_name \<times> tip_reference" and xs
  proof (induction xs arbitrary: x)
    case Nil
    then show ?case by simp
  next
    case (Cons y ys)
    from Cons [of "if tr_height (snd y) > tr_height (snd x) then y else x"] show ?case
      by (auto split: if_splits)
  qed
  with assms show ?thesis by (cases fresh) (auto simp: highest_ref_def)
qed

lemma fresh_refs:
  "filter (\<lambda>e. \<not> tr_stale (snd e)) (map (\<lambda>(n, v). (n, tip_reference_of now v)) raw)
     = map (\<lambda>(n, v). (n, tip_reference_of now v)) (fresh_samples raw now)"
  by (induction raw) (auto simp: fresh_samples_def tip_reference_of_def Let_def not_less)

lemma used_none: "refs_used (get_tip_references ab asec raw now) = None \<longleftrightarrow> fresh_samples raw now = []"
  unfolding get_tip_references_def Let_def fresh_refs
  by (cases "fresh_samples raw now") (simp_all add: highest_ref_def)

lemma reference_tip_max:
  assumes "distinct (map fst raw)"
  shows "rr_height (reference_tip_at ab asec raw now) =
    (if fresh_samples raw now = [] then None
     else Some (Max ((\<lambda>e. rs_height (snd e)) ` set (fresh_samples raw now))))"
proof (cases "fresh_samples raw now = []")
  case True
  then have "refs_used (get_tip_references ab asec raw now) = None" by (simp add: used_none)
  with True show ?thesis by (simp add: reference_tip_at_def Let_def)
next
  case False
  let ?refs = "map (\<lambda>(n, v). (n, tip_reference_of now v)) raw"
  let ?fresh = "map (\<lambda>(n, v). (n, tip_reference_of now v)) (fresh_samples raw now)"
  have ne: "?fresh \<noteq> []" using False by simp
  obtain e where e: "highest_ref ?fresh = Some e" "e \<in> set ?fresh"
    and mx: "\<forall>x\<in>set ?fresh. tr_height (snd x) \<le> tr_height (snd e)"
    using highest_ref_max [OF ne] by blast
  have "e \<in> set ?refs" using e(2) by (auto simp: fresh_samples_def)
  moreover have "distinct (map fst ?refs)" using assms by (simp add: comp_def case_prod_beta')
  ultimately have look: "map_of ?refs (fst e) = Some (snd e)" by (simp add: map_of_eq_Some_iff)
  have h: "rr_height (reference_tip_at ab asec raw now) = Some (tr_height (snd e))"
    unfolding reference_tip_at_def get_tip_references_def Let_def fresh_refs
    using e(1) look by simp
  have heights: "(\<lambda>x. tr_height (snd x)) ` set ?fresh = (\<lambda>x. rs_height (snd x)) ` set (fresh_samples raw now)"
    by (force simp: image_iff tip_reference_of_def Let_def)
  have "Max ((\<lambda>x. tr_height (snd x)) ` set ?fresh) = tr_height (snd e)"
    using e(2) mx by (intro Max_eqI) auto
  with h heights False show ?thesis by simp
qed

text \<open>Every state the refreshes can leave has one sample per source.\<close>

lemma put_source_names:
  "fst ` set (put_source n v es) = insert n (fst ` set es)"
  by (induction es) auto

lemma put_source_distinct: "distinct (map fst es) \<Longrightarrow> distinct (map fst (put_source n v es))"
proof (induction es)
  case Nil
  then show ?case by simp
next
  case (Cons e es)
  have "fst ` set (put_source n v es) = insert n (fst ` set es)" by (rule put_source_names)
  with Cons show ?case by auto
qed

lemma put_source_lookup:
  "map_of (put_source n v es) k = (if k = n then Some v else map_of es k)"
  by (induction es) auto

lemma sample_source_distinct: "distinct (map fst es) \<Longrightarrow> distinct (map fst (sample_source n h host now es))"
  by (simp add: sample_source_def split_beta put_source_distinct)

lemma sample_source_lookup:
  "map_of (sample_source n h host now es) n = Some \<lparr>rs_height = h, rs_at = now, rs_host = host,
     rs_prevHeight = fst (rate_anchor (map_of es n) h now), rs_prevAt = snd (rate_anchor (map_of es n) h now)\<rparr>"
  "k \<noteq> n \<Longrightarrow> map_of (sample_source n h host now es) k = map_of es k"
  by (simp_all add: sample_source_def split_beta put_source_lookup)

type_synonym refresh_answer = "(int option \<times> (int \<times> string) option) \<times> int"

definition run_refreshes :: "refresh_answer list \<Rightarrow> tip_state" where
  "run_refreshes as = fold (\<lambda>((h, d), now) st. finish_refresh h d now st) as no_tip"

lemma finish_refresh_distinct:
  "distinct (map fst (ts_sources st)) \<Longrightarrow> distinct (map fst (ts_sources (finish_refresh h d now st)))"
  by (auto simp: finish_refresh_def Let_def sample_source_distinct split: option.splits)

lemma run_refreshes_distinct: "distinct (map fst (ts_sources (run_refreshes as)))"
  unfolding run_refreshes_def
proof (induction as rule: rev_induct)
  case Nil
  then show ?case by (simp add: no_tip_def)
next
  case (snoc a as)
  then show ?case by (cases a) (auto simp: finish_refresh_distinct)
qed

subsection \<open>Properties\<close>

text \<open>No dial is made with less than an even share, nor with more than what is left.\<close>

lemma try_legs_shares:
  assumes "punctual dial" and "1 \<le> q" and "int (length es) * q \<le> endsAt - now" and "endsAt - now \<le> budget"
    and same: "\<forall>x share. q \<le> share \<longrightarrow> share \<le> budget \<longrightarrow> dial' x share = dial x share"
  shows "try_legs dial' endsAt es now = try_legs dial endsAt es now"
  using assms(3,4)
proof (induction es arbitrary: now)
  case Nil
  then show ?case by simp
next
  case (Cons x es)
  let ?n = "int (length (x # es))" and ?r = "endsAt - now"
  let ?share = "ceil_div ?r ?n"
  obtain took h where d: "dial x ?share = (took, h)" by fastforce
  have n: "0 < ?n" by simp
  have "1 * 1 \<le> ?n * q" using assms(2) by (intro mult_mono) simp_all
  with Cons.prems(1) have r: "0 < ?r" by linarith
  have q_le: "q \<le> ?share"
  proof -
    have "?n * q \<le> ?n * ?share" using Cons.prems(1) ceil_div_ge [OF n, of ?r] by linarith
    then show ?thesis by simp
  qed
  have s: "?share \<le> ?r" "0 < ?share" using share_le [OF r n] by simp_all
  then have t: "0 \<le> took" "took \<le> ?share" using assms(1) d unfolding punctual_def by (metis fst_conv)+
  have d': "dial' x ?share = (took, h)" using same q_le s(1) Cons.prems(2) d by simp
  have "int (length es) * q \<le> endsAt - (now + took)"
    using share_floor [OF n _ Cons.prems(1) t(2)] assms(2) by (simp add: algebra_simps)
  with Cons.IH [of "now + took"] Cons.prems(2) t(1) have "try_legs dial' endsAt es (now + took) = try_legs dial endsAt es (now + took)"
    by simp
  with r d d' show ?case by (simp add: Let_def split: option.split)
qed

text \<open>
  C29: A hanging endpoint cannot hide a working one, nor hold the fallback past its budget. With
  dials that respect the deadline they are given, the direct leg ends within its total budget, whether
  an endpoint answers or all of them hang. At any even share of the budget, of at least a millisecond,
  every endpoint the leg reaches is dialled with at least that share and at most the budget: what the
  dials would do at any other deadline changes neither the answer nor when it comes. So a third-party
  endpoint that answers a height at every such share makes the leg answer, wherever it stands in the
  list and however long the ones before it hang.
\<close>

theorem direct_leg_bounded_and_fair:
  assumes "punctual dial" and "0 \<le> budget"
  shows "now \<le> snd (fetch_direct_tip oracle dial budget endpoints now)
    \<and> snd (fetch_direct_tip oracle dial budget endpoints now) \<le> now + budget
    \<and> (\<forall>q. 1 \<le> q \<longrightarrow> int (length (filter oracle endpoints)) * q \<le> budget \<longrightarrow>
        (\<forall>dial'. (\<forall>x share. q \<le> share \<longrightarrow> share \<le> budget \<longrightarrow> dial' x share = dial x share) \<longrightarrow>
           fetch_direct_tip oracle dial' budget endpoints now = fetch_direct_tip oracle dial budget endpoints now)
        \<and> (\<forall>e\<in>set (filter oracle endpoints). (\<forall>share\<ge>q. \<exists>took h. dial e share = (took, Some h) \<and> 0 < h) \<longrightarrow>
           fst (fetch_direct_tip oracle dial budget endpoints now) \<noteq> None))"
proof (intro conjI allI impI ballI)
  fix q :: int and dial'
  assume q: "1 \<le> q" "int (length (filter oracle endpoints)) * q \<le> budget"
  show "fetch_direct_tip oracle dial' budget endpoints now = fetch_direct_tip oracle dial budget endpoints now"
    if "\<forall>x share. q \<le> share \<longrightarrow> share \<le> budget \<longrightarrow> dial' x share = dial x share"
    using try_legs_shares [OF assms(1) q(1) _ _ that] q(2) by (simp add: fetch_direct_tip_def)
  show "fst (fetch_direct_tip oracle dial budget endpoints now) \<noteq> None"
    if "e \<in> set (filter oracle endpoints)" "\<forall>share\<ge>q. \<exists>took h. dial e share = (took, Some h) \<and> 0 < h" for e
    using try_legs_finds [OF assms(1) q(1) _ that, of "now + budget" now] q(2) by (simp add: fetch_direct_tip_def)
qed (use try_legs_end [OF assms(1), of now "now + budget" "filter oracle endpoints"] assms(2)
    in \<open>simp_all add: fetch_direct_tip_def\<close>)

definition ex_dial :: "string dial" where
  "ex_dial e share = (if e = ''good'' then (share, Some 7) else (share, None))"

theorem direct_leg_bounded_and_fair_witness:
  "fst (fetch_direct_tip (\<lambda>_. True) ex_dial 3000 [''hang'', ''hang2'', ''good''] 50) \<noteq> None
   \<and> snd (fetch_direct_tip (\<lambda>_. True) ex_dial 3000 [''hang'', ''hang2'', ''good''] 50) \<le> 50 + 3000"
proof -
  have p: "punctual ex_dial" "(0::int) \<le> 3000" by (simp_all add: punctual_def ex_dial_def)
  note d = direct_leg_bounded_and_fair [OF p, of 50 "\<lambda>_. True" "[''hang'', ''hang2'', ''good'']"]
  have "\<forall>share\<ge>1000. \<exists>took h. ex_dial ''good'' share = (took, Some h) \<and> 0 < h" by (auto simp: ex_dial_def)
  moreover have "''good'' \<in> set (filter (\<lambda>_. True) [''hang'', ''hang2'', ''good''])" by simp
  moreover have "(1::int) \<le> 1000" "int (length (filter (\<lambda>_. True) [''hang'', ''hang2'', ''good''])) * 1000 \<le> 3000" by simp_all
  ultimately have "fst (fetch_direct_tip (\<lambda>_. True) ex_dial 3000 [''hang'', ''hang2'', ''good''] 50) \<noteq> None"
    using d by blast
  with d show ?thesis by blast
qed

text \<open>
  The height both gates judge by is the highest one seen in the last five minutes. After any
  sequence of refreshes the reference tip is the greatest height among the sources' latest samples
  that are at most five minutes old, and unknown when there is none.
\<close>

theorem reference_is_highest_fresh:
  "rr_height (reference_tip_at ab asec (ts_sources (run_refreshes as)) now) =
    (if fresh_samples (ts_sources (run_refreshes as)) now = [] then None
     else Some (Max ((\<lambda>e. rs_height (snd e)) ` set (fresh_samples (ts_sources (run_refreshes as)) now))))"
  by (rule reference_tip_max [OF run_refreshes_distinct])

end
