(* ===== verification/Block_Id.thy ===== *)
theory Block_Id
  imports Prelude "HOL-Library.Word"
begin

unbundle bit_operations_syntax

text \<open>
  \<open>heightFromBlockID\<close> of \<open>src/src/lib/zcash/externalTip.ts\<close>: the height out of a serialised protobuf
  \<open>BlockID\<close>, as a lightwalletd endpoint answers it.

  JavaScript reads \<open>undefined\<close> outside the buffer, which the bit operators take for 0. The height is
  accumulated in a BigInt (a natural number here), the length of a skipped field in 32-bit integers
  (a \<open>32 word\<close>, read back signed), with the shift count taken modulo 32. The index can therefore
  become negative. The outer loop is a partial function: not returning is \<open>None\<close>, the JavaScript
  \<open>null\<close> is \<open>Some None\<close>.
\<close>

definition byte_at :: "8 word list \<Rightarrow> int \<Rightarrow> 8 word" where
  "byte_at buf i = (if 0 \<le> i \<and> i < int (length buf) then buf ! nat i else 0)"

text \<open>\<open>for (;;) { if (i >= buf.length) return null; b = buf[i++]; v |= BigInt(b & 0x7f) << shift; ... }\<close>\<close>

function read_varint :: "8 word list \<Rightarrow> int \<Rightarrow> nat \<Rightarrow> nat \<Rightarrow> (nat \<times> int) option" where
  "read_varint buf i v shift =
     (if i \<ge> int (length buf) then None
      else let b = byte_at buf i; v' = v OR push_bit shift (unat (b AND 0x7f))
           in if b AND 0x80 = 0 then Some (v', i + 1) else read_varint buf (i + 1) v' (shift + 7))"
  by pat_completeness auto
termination by (relation "measure (\<lambda>(buf, i, _, _). nat (int (length buf) - i))") auto

function read_length :: "8 word list \<Rightarrow> int \<Rightarrow> 32 word \<Rightarrow> nat \<Rightarrow> (32 word \<times> int) option" where
  "read_length buf i len s =
     (if i \<ge> int (length buf) then None
      else let b = byte_at buf i; len' = len OR push_bit (s mod 32) (ucast (b AND 0x7f))
           in if b AND 0x80 = 0 then Some (len', i + 1) else read_length buf (i + 1) len' (s + 7))"
  by pat_completeness auto
termination by (relation "measure (\<lambda>(buf, i, _, _). nat (int (length buf) - i))") auto

function skip_varint :: "8 word list \<Rightarrow> int \<Rightarrow> int option" where
  "skip_varint buf i =
     (if i \<ge> int (length buf) then None
      else if byte_at buf i AND 0x80 = 0 then Some (i + 1) else skip_varint buf (i + 1))"
  by pat_completeness auto
termination by (relation "measure (\<lambda>(buf, i). nat (int (length buf) - i))") auto

declare read_varint.simps [simp del] read_length.simps [simp del] skip_varint.simps [simp del]

datatype field_step = Answer "nat option" | Continue_At int

text \<open>One round of the outer loop, at an index inside the buffer.\<close>

definition field_round :: "8 word list \<Rightarrow> int \<Rightarrow> field_step" where
  "field_round buf i =
     (let tag = unat (byte_at buf i); field = tag div 8; wire = tag mod 8
      in if field = 1 \<and> wire = 0
         then Answer (map_option fst (read_varint buf (i + 1) 0 0))
         else if wire = 2
         then (case read_length buf (i + 1) 0 0 of None \<Rightarrow> Answer None
               | Some (len, j) \<Rightarrow> Continue_At (j + sint len))
         else if wire = 0
         then (case skip_varint buf (i + 1) of None \<Rightarrow> Answer None | Some j \<Rightarrow> Continue_At j)
         else Answer None)"

partial_function (option) height_loop :: "8 word list \<Rightarrow> int \<Rightarrow> nat option option" where
  "height_loop buf i =
     (if i < int (length buf)
      then (case field_round buf i of Answer a \<Rightarrow> Some a | Continue_At j \<Rightarrow> height_loop buf j)
      else Some None)"

definition height_from_block_id :: "8 word list \<Rightarrow> nat option option" where
  "height_from_block_id buf = height_loop buf 0"

subsection \<open>The protobuf encoding\<close>

function encode_varint :: "nat \<Rightarrow> 8 word list" where
  "encode_varint n =
     (if n < 128 then [word_of_nat n] else word_of_nat (n mod 128 + 128) # encode_varint (n div 128))"
  by pat_completeness auto
termination by (relation "measure id") auto

declare encode_varint.simps [simp del]

definition height_field :: "nat \<Rightarrow> 8 word list" where
  "height_field h = 0x08 # encode_varint h"

definition hash_field :: "8 word list \<Rightarrow> 8 word list" where
  "hash_field hash = 0x12 # word_of_nat (length hash) # hash"

subsection \<open>Facts\<close>

lemma byte_at_append: "i = int (length p) \<Longrightarrow> byte_at (p @ b # s) i = b"
  by (simp add: byte_at_def)

lemma unat_low7: "unat ((b :: 8 word) AND 0x7f) = unat b mod 128"
proof -
  have "b AND 0x7f = take_bit 7 b" by (simp add: take_bit_eq_mask mask_eq_exp_minus_1)
  then have "unat (b AND 0x7f) = take_bit 7 (unat b)" by (simp only: unsigned_take_bit_eq)
  then show ?thesis by (simp add: take_bit_eq_mod)
qed

lemma high_bit: "(b :: 8 word) AND 0x80 = 0 \<longleftrightarrow> unat b < 128"
proof -
  have lt: "unat b < 256" using unsigned_less [of b, where ?'a = nat] by simp
  have "b AND 0x80 = 0 \<longleftrightarrow> \<not> bit b 7" by (simp add: bit_iff_and_push_bit_not_eq_0)
  also have "bit b 7 \<longleftrightarrow> odd (unat b div 2 ^ 7)"
    by (simp only: bit_iff_odd [of "unat b", symmetric] bit_unsigned_iff possible_bit_nat simp_thms
        possible_bit_word) simp?
  also have "\<dots> \<longleftrightarrow> 128 \<le> unat b"
  proof -
    have "unat b div 128 < 2" using lt by simp
    then have "odd (unat b div 128) \<longleftrightarrow> unat b div 128 \<noteq> 0" by (auto simp: less_2_cases_iff)
    then show ?thesis by (simp add: div_eq_0_iff not_less)
  qed
  finally show ?thesis by auto
qed

lemma or_shift: "v < 2 ^ s \<Longrightarrow> v OR push_bit s w = v + w * 2 ^ s" for v w :: nat
proof -
  assume v: "v < 2 ^ s"
  have "take_bit s v = v" using v by (simp add: take_bit_nat_eq_self_iff)
  then have "bit v k \<Longrightarrow> k < s" for k by (metis bit_take_bit_iff)
  then have "v AND push_bit s w = 0" by (force simp: bit_eq_iff bit_simps)
  then have "v + push_bit s w = v OR push_bit s w" by (rule disjunctive_add_eq_or)
  then show ?thesis by (simp add: push_bit_eq_mult)
qed

lemma read_varint_encode:
  assumes "v < 2 ^ s" and "i = int (length p)"
  shows "read_varint (p @ encode_varint n @ t) i v s = Some (v + n * 2 ^ s, i + int (length (encode_varint n)))"
  using assms
proof (induction n arbitrary: p i v s rule: encode_varint.induct)
  case (1 n)
  show ?case
  proof (cases "n < 128")
    case True
    then have u: "unat (word_of_nat n :: 8 word) = n" by (simp add: unat_of_nat)
    show ?thesis
      using True 1(2,3) u
      by (subst read_varint.simps, subst encode_varint.simps)
        (simp add: byte_at_append high_bit unat_low7 or_shift encode_varint.simps)
  next
    case False
    let ?b = "word_of_nat (n mod 128 + 128) :: 8 word"
    have u: "unat ?b = n mod 128 + 128"
      unfolding unsigned_of_nat by (simp add: take_bit_nat_eq_self_iff)
    have e: "encode_varint n = ?b # encode_varint (n div 128)"
      using False by (subst encode_varint.simps) simp
    have less: "v + n mod 128 * 2 ^ s < 2 ^ (s + 7)"
    proof -
      have "n mod 128 + 1 \<le> (128::nat)" by simp
      then have "(n mod 128 + 1) * 2 ^ s \<le> 128 * 2 ^ s" by (rule mult_right_mono) simp
      then have "n mod 128 * 2 ^ s + 2 ^ s \<le> 2 ^ (s + 7)"
        by (simp only: distrib_right mult_1 power_add) simp
      with 1(2) show ?thesis by linarith
    qed
    have IH: "read_varint ((p @ [?b]) @ encode_varint (n div 128) @ t) (i + 1) (v + n mod 128 * 2 ^ s) (s + 7) =
        Some (v + n mod 128 * 2 ^ s + n div 128 * 2 ^ (s + 7), i + 1 + int (length (encode_varint (n div 128))))"
      using False less 1(3) by (intro "1.IH") simp_all
    have "n mod 128 * 2 ^ s + n div 128 * 2 ^ (s + 7) = (n mod 128 + 128 * (n div 128)) * 2 ^ s"
      by (simp only: power_add distrib_right) simp
    then have sum: "n mod 128 * 2 ^ s + n div 128 * 2 ^ (s + 7) = n * 2 ^ s"
      by (simp only: mod_mult_div_eq)
    show ?thesis
      using IH 1(2,3) u sum
      by (subst read_varint.simps) (simp add: e byte_at_append high_bit unat_low7 or_shift add.assoc)
  qed
qed

lemma field_round_height:
  assumes "i = int (length p)"
  shows "field_round (p @ height_field h @ t) i = Answer (Some h)"
proof -
  have "read_varint ((p @ [0x08]) @ encode_varint h @ t) (i + 1) 0 0 = Some (0 + h * 2 ^ 0, i + 1 + int (length (encode_varint h)))"
    using assms by (intro read_varint_encode) simp_all
  then show ?thesis
    using assms by (simp add: field_round_def height_field_def byte_at_append Let_def)
qed

text \<open>A length below 128 is one byte, read back as itself.\<close>

lemma read_length_short:
  assumes "i = int (length p)" and "n < 128"
  shows "\<exists>len. read_length (p @ word_of_nat n # t) i 0 0 = Some (len, i + 1) \<and> sint len = int n"
proof -
  let ?w = "word_of_nat n :: 8 word"
  have u: "unat ?w = n" using assms(2) by (simp add: unat_of_nat)
  have low: "?w AND 0x7f = ?w"
  proof -
    have "unat (?w AND 0x7f) = unat ?w" using u assms(2) by (simp add: unat_low7)
    then show ?thesis by (simp only: word_unat_eq_iff)
  qed
  have len: "uint (ucast ?w :: 32 word) = int n"
  proof -
    have "uint ?w = int n" using u by (simp only: uint_nat)
    then show ?thesis using assms(2) by (simp only: unsigned_ucast_eq) (simp add: take_bit_int_eq_self_iff)
  qed
  have "sint (ucast ?w :: 32 word) = int n"
    using len assms(2) by (simp add: sint_uint signed_take_bit_int_eq_self_iff)
  moreover have "read_length (p @ ?w # t) i 0 0 = Some (ucast ?w, i + 1)"
    using low u assms by (subst read_length.simps) (simp add: high_bit byte_at_append)
  ultimately show ?thesis by blast
qed

lemma field_round_hash:
  assumes "i = int (length p)" and "length hash < 128"
  shows "field_round (p @ hash_field hash @ t) i = Continue_At (int (length (p @ hash_field hash)))"
proof -
  have b1: "byte_at (p @ hash_field hash @ t) i = 0x12"
    using assms(1) by (simp add: hash_field_def byte_at_append)
  obtain len where "read_length (p @ hash_field hash @ t) (i + 1) 0 0 = Some (len, i + 2)"
    "sint len = int (length hash)"
    using read_length_short [of "i + 1" "p @ [0x12]" "length hash" "hash @ t"] assms
    by (auto simp: hash_field_def)
  then show ?thesis
    using b1 assms(1) by (simp add: field_round_def Let_def hash_field_def)
qed

lemma skip_varint_encode:
  assumes "i = int (length p)"
  shows "skip_varint (p @ encode_varint n @ t) i = Some (i + int (length (encode_varint n)))"
  using assms
proof (induction n arbitrary: p i rule: encode_varint.induct)
  case (1 n)
  show ?case
  proof (cases "n < 128")
    case True
    then have "unat (word_of_nat n :: 8 word) = n" by (simp add: unat_of_nat)
    with True 1(2) show ?thesis
      by (subst skip_varint.simps, subst encode_varint.simps)
        (simp add: byte_at_append high_bit encode_varint.simps)
  next
    case False
    let ?b = "word_of_nat (n mod 128 + 128) :: 8 word"
    have u: "unat ?b = n mod 128 + 128"
      unfolding unsigned_of_nat by (simp add: take_bit_nat_eq_self_iff)
    have e: "encode_varint n = ?b # encode_varint (n div 128)"
      using False by (subst encode_varint.simps) simp
    have "skip_varint ((p @ [?b]) @ encode_varint (n div 128) @ t) (i + 1)
        = Some (i + 1 + int (length (encode_varint (n div 128))))"
      using False 1(2) by (intro "1.IH") simp_all
    with 1(2) u show ?thesis
      by (subst skip_varint.simps) (simp add: e byte_at_append high_bit)
  qed
qed

subsection \<open>Properties\<close>

lemma height_loop_reads:
  "height_loop (p @ height_field h @ t) (int (length p)) = Some (Some h)"
proof -
  have "int (length p) < int (length (p @ height_field h @ t))" by (simp add: height_field_def)
  then show ?thesis
    using field_round_height [of "int (length p)" p h t]
    by (subst height_loop.simps) (simp only: if_True field_step.case)
qed

lemma height_read_back: "height_from_block_id (height_field h @ t) = Some (Some h)"
  using height_loop_reads [of "[]"] by (simp add: height_from_block_id_def)

text \<open>
  A well-formed \<open>BlockID\<close> is read back. Encoded with the height first, or with the hash (of
  under 128 bytes) in front of it, and with anything after it, the answer is the height.
\<close>

theorem block_id_roundtrip:
  assumes "length hash < 128"
  shows "height_from_block_id (height_field h @ t) = Some (Some h)
    \<and> height_from_block_id (hash_field hash @ height_field h @ t) = Some (Some h)"
proof
  show "height_from_block_id (height_field h @ t) = Some (Some h)" by (rule height_read_back)
  have "height_loop (hash_field hash @ height_field h @ t) 0
      = height_loop (hash_field hash @ height_field h @ t) (int (length (hash_field hash)))"
    using field_round_hash [of 0 "[]" hash "height_field h @ t"] assms
    by (subst height_loop.simps) (simp add: hash_field_def)
  then show "height_from_block_id (hash_field hash @ height_field h @ t) = Some (Some h)"
    using height_loop_reads [of "hash_field hash"] by (simp add: height_from_block_id_def)
qed

theorem block_id_roundtrip_witness:
  "height_from_block_id (height_field 3210987 @ []) = Some (Some 3210987)
   \<and> height_from_block_id (hash_field [1, 2, 3] @ height_field 3210987 @ []) = Some (Some 3210987)"
  by (rule block_id_roundtrip) simp

definition hang_bytes :: "8 word list" where
  "hang_bytes = [0x12, 0xfa, 0xff, 0xff, 0xff, 0x0f]"

lemma hang_round: "field_round hang_bytes 0 = Continue_At 0"
  by code_simp

text \<open>
  C31: Six bytes stop the reader for good. A length-delimited field whose five-byte length sets the top
  bit is read as a negative number, and the six bytes below name exactly minus six: the index returns
  to the start of the field and the loop never ends.
\<close>

theorem block_id_reader_hangs: "height_from_block_id hang_bytes = None"
proof -
  have "\<not> (buf = hang_bytes \<and> i = 0)" if "height_loop buf i = Some y" for buf i y
  proof (rule height_loop.raw_induct [OF _ that])
    fix f buf i y
    assume IH: "\<And>buf i y. f buf i = Some y \<Longrightarrow> \<not> (buf = hang_bytes \<and> i = 0)"
      and step: "(if i < int (length buf)
        then (case field_round buf i of Answer a \<Rightarrow> Some a | Continue_At j \<Rightarrow> f buf j) else Some None) = Some y"
    show "\<not> (buf = hang_bytes \<and> i = 0)"
    proof
      assume "buf = hang_bytes \<and> i = 0"
      moreover have "0 < int (length hang_bytes)" by (simp add: hang_bytes_def)
      ultimately have "f hang_bytes 0 = Some y" using step hang_round by simp
      with IH show False by blast
    qed
  qed
  then have "height_loop hang_bytes 0 \<noteq> Some y" for y by blast
  then show ?thesis unfolding height_from_block_id_def by (metis option.exhaust)
qed

end
