(* ===== verification/Freshness.thy ===== *)
theory Freshness
  imports External_Tip Block_Id
begin

text \<open>
  The gates that decide whether a transaction built now could still confirm:
  \<open>src/src/lib/zcash/shieldGate.ts\<close> (our node against the independent tip),
  \<open>src/src/lib/zcash/walletLagGate.ts\<close> (the wallet's scan against our node),
  \<open>src/src/app/api/faucet/retry-hint.ts\<close>, \<open>src/src/lib/zcash/tipProgress.ts\<close> (is the tip moving) and
  \<open>src/src/lib/zcash/expiryTip.ts\<close> (the tip an expiry height is set from). Heights are integers, the
  JavaScript \<open>null\<close> is \<open>None\<close>; the configured lag budgets are whole numbers.
\<close>

datatype gate_state = Safe | Unsafe | Unverifiable

datatype gate_reason =
  Node_Height_Unknown | No_Independent_Tip | Node_Behind int int | Node_Ahead int | Node_Within int int
| Scan_Height_Unknown | Node_Tip_Unknown | Scan_Current
| Scan_Behind int int int int | Scan_Within int int

record gate =
  g_state :: gate_state
  g_built :: "int option"
  g_reference :: "int option"
  g_lag :: "int option"
  g_reason :: gate_reason

subsection \<open>shieldGate.ts\<close>

definition EXPIRY_DELTA_BLOCKS :: int where "EXPIRY_DELTA_BLOCKS = 40"
definition SHIELD_LAG_CEILING :: int where "SHIELD_LAG_CEILING = 10"

text \<open>\<open>SHIELD_MAX_LAG_BLOCKS\<close> for a configured value.\<close>

definition shield_max_lag_blocks :: "int \<Rightarrow> int" where
  "shield_max_lag_blocks configured =
     (if configured > SHIELD_LAG_CEILING then SHIELD_LAG_CEILING else configured)"

definition chain_freshness :: "int \<Rightarrow> int option \<Rightarrow> int option \<Rightarrow> gate" where
  "chain_freshness max_lag nodeHeight externalHeight =
     (let mk = (\<lambda>st lag why. \<lparr>g_state = st, g_built = nodeHeight, g_reference = externalHeight,
                 g_lag = lag, g_reason = why\<rparr>) in
      case nodeHeight of None \<Rightarrow> mk Unverifiable None Node_Height_Unknown
      | Some n \<Rightarrow> (case externalHeight of None \<Rightarrow> mk Unverifiable None No_Independent_Tip
          | Some e \<Rightarrow>
              let lag = e - n in
              if lag > max_lag then mk Unsafe (Some lag) (Node_Behind lag max_lag)
              else if lag < 0 then mk Safe (Some lag) (Node_Ahead (- lag))
              else mk Safe (Some lag) (Node_Within max_lag lag)))"

definition may_build_transaction :: "gate \<Rightarrow> bool" where
  "may_build_transaction g = (g_state g = Safe)"

datatype refusal_text = Node_Catching_Up | Node_Silent | Tip_Unverified

text \<open>Throws, here \<open>None\<close>, on a gate that refuses nothing.\<close>

definition freshness_refusal_text :: "gate \<Rightarrow> refusal_text option" where
  "freshness_refusal_text g =
     (if g_state g = Unsafe then Some Node_Catching_Up
      else if g_state g \<noteq> Unverifiable then None
      else if g_built g = None then Some Node_Silent
      else Some Tip_Unverified)"

definition read_chain_freshness :: "int \<Rightarrow> int option \<Rightarrow> reference_reading \<Rightarrow> gate" where
  "read_chain_freshness max_lag nodeHeight tip = chain_freshness max_lag nodeHeight (rr_height tip)"

definition ORACLE_WAIT_MS :: int where
  "ORACLE_WAIT_MS = MIN_ATTEMPT_GAP_MS + REFRESH_ATTEMPT_MS + 1000"

text \<open>
  \<open>while (readTip() == null && Date.now() < deadline) { warm(); sleep 100 }\<close> and the reading the loop
  leaves with. A poll is the clock and the tip it read; \<open>None\<close> while the loop is still waiting.
\<close>

fun ask_polls :: "int \<Rightarrow> (int \<times> int option) list \<Rightarrow> int option option" where
  "ask_polls deadline [] = None"
| "ask_polls deadline ((t, tip) # ps) =
     (if tip = None \<and> t < deadline then ask_polls deadline ps else Some tip)"

definition read_chain_freshness_asking ::
  "int \<Rightarrow> int option \<Rightarrow> int \<Rightarrow> int \<Rightarrow> (int \<times> int option) list \<Rightarrow> gate option" where
  "read_chain_freshness_asking max_lag nodeHeight waitMs now polls =
     (case nodeHeight of
        None \<Rightarrow> Some (chain_freshness max_lag None (case polls of [] \<Rightarrow> None | p # _ \<Rightarrow> snd p))
      | Some n \<Rightarrow> map_option (chain_freshness max_lag (Some n)) (ask_polls (now + waitMs) polls))"

subsection \<open>walletLagGate.ts\<close>

definition WALLET_LAG_CEILING :: int where "WALLET_LAG_CEILING = 20"

definition wallet_max_lag_blocks :: "int \<Rightarrow> int" where
  "wallet_max_lag_blocks configured =
     (if configured > WALLET_LAG_CEILING then WALLET_LAG_CEILING else configured)"

definition wallet_lag_freshness :: "int \<Rightarrow> int option \<Rightarrow> int option \<Rightarrow> gate" where
  "wallet_lag_freshness max_lag walletHeight nodeHeight =
     (let mk = (\<lambda>st lag why. \<lparr>g_state = st, g_built = walletHeight, g_reference = nodeHeight,
                 g_lag = lag, g_reason = why\<rparr>) in
      case walletHeight of None \<Rightarrow> mk Unverifiable None Scan_Height_Unknown
      | Some w \<Rightarrow> (case nodeHeight of None \<Rightarrow> mk Unverifiable None Node_Tip_Unknown
          | Some n \<Rightarrow>
              let lag = n - w in
              if lag \<le> 0 then mk Safe (Some lag) Scan_Current
              else if lag > max_lag
              then mk Unsafe (Some lag) (Scan_Behind lag max_lag (w + EXPIRY_DELTA_BLOCKS) n)
              else mk Safe (Some lag) (Scan_Within lag max_lag)))"

definition may_build_from_wallet :: "gate \<Rightarrow> bool" where
  "may_build_from_wallet g = (g_state g = Safe)"

subsection \<open>retry-hint.ts\<close>

definition FRESHNESS_RETRY_SECONDS :: int where "FRESHNESS_RETRY_SECONDS = 75"

definition freshness_retry_seconds :: "gate_state \<Rightarrow> int option \<Rightarrow> int" where
  "freshness_retry_seconds st nodeHeight =
     (if st = Unverifiable \<and> nodeHeight = None then 5
      else if st = Unverifiable then 20 else FRESHNESS_RETRY_SECONDS)"

subsection \<open>tipProgress.ts\<close>

record tip_sample =
  tp_height :: int
  tp_at :: int
  tp_external :: "int option"

record tip_progress_result =
  stalled :: bool
  stalledMs :: "int option"
  networkQuiet :: bool
  next_sample :: tip_sample

definition tip_progress :: "int \<Rightarrow> tip_sample option \<Rightarrow> int \<Rightarrow> int option \<Rightarrow> int \<Rightarrow> tip_progress_result" where
  "tip_progress TIP_STALL_MS prev height externalHeight now =
     (let fresh = \<lparr>tp_height = height, tp_at = now, tp_external = externalHeight\<rparr> in
      case prev of
        None \<Rightarrow> \<lparr>stalled = False, stalledMs = None, networkQuiet = False, next_sample = fresh\<rparr>
      | Some p \<Rightarrow>
          if height \<noteq> tp_height p
          then \<lparr>stalled = False, stalledMs = Some 0, networkQuiet = False, next_sample = fresh\<rparr>
          else let ms = now - tp_at p;
                   quiet = (externalHeight \<noteq> None \<and> tp_external p \<noteq> None \<and> externalHeight = tp_external p)
               in \<lparr>stalled = (ms \<ge> TIP_STALL_MS \<and> \<not> quiet), stalledMs = Some ms, networkQuiet = quiet,
                   next_sample = p\<rparr>)"

subsection \<open>expiryTip.ts\<close>

record endpoint_tip =
  ep_endpoint :: string
  ep_height :: "int option"

record expiry_tip =
  et_height :: "int option"
  et_readings :: "endpoint_tip list"
  et_answered :: nat
  et_spread :: "int option"

definition usable_heights :: "endpoint_tip list \<Rightarrow> int list" where
  "usable_heights readings =
     map (\<lambda>r. the (ep_height r)) (filter (\<lambda>r. case ep_height r of Some h \<Rightarrow> h > 0 | None \<Rightarrow> False) readings)"

definition summarize :: "endpoint_tip list \<Rightarrow> expiry_tip" where
  "summarize readings =
     (let heights = usable_heights readings in
      \<lparr>et_height = (if heights \<noteq> [] then Some (Max (set heights)) else None), et_readings = readings,
       et_answered = length heights,
       et_spread = (if 2 \<le> length heights then Some (Max (set heights) - Min (set heights)) else None)\<rparr>)"

datatype tip_note = One_Source string | Endpoints_Disagree int int "(string \<times> int) list"

definition disagreement :: "int \<Rightarrow> expiry_tip \<Rightarrow> tip_note option" where
  "disagreement max_lag tip =
     (if et_answered tip = 0 then None
      else if et_answered tip = 1
      then Some (One_Source (case find (\<lambda>r. ep_height r \<noteq> None) (et_readings tip) of
             Some r \<Rightarrow> ep_endpoint r | None \<Rightarrow> ''unknown''))
      else case et_spread tip of
        Some s \<Rightarrow>
          if s > max_lag
          then (case et_height tip of
             Some h \<Rightarrow> Some (Endpoints_Disagree s h
               (map (\<lambda>r. (ep_endpoint r, the (ep_height r)))
                 (filter (\<lambda>r. case ep_height r of Some x \<Rightarrow> x < h | None \<Rightarrow> False) (et_readings tip))))
           | None \<Rightarrow> None)
          else None
      | None \<Rightarrow> None)"

text \<open>
  \<open>askOne\<close> maps an error or an empty reply to \<open>null\<close> and reads the height out of the reply otherwise
  (a reply the reader never returns from is not answered here, see \<open>Block_Id\<close>); no height at all throws.
\<close>

definition ask_one :: "8 word list option \<Rightarrow> int option" where
  "ask_one reply =
     (case reply of None \<Rightarrow> None
      | Some buf \<Rightarrow> (case height_from_block_id buf of Some (Some h) \<Rightarrow> Some (int h) | _ \<Rightarrow> None))"

definition tip_for_expiry :: "(string \<times> 8 word list option) list \<Rightarrow> expiry_tip option" where
  "tip_for_expiry replies =
     (let tip = summarize (map (\<lambda>(e, r). \<lparr>ep_endpoint = e, ep_height = ask_one r\<rparr>) replies)
      in if et_height tip = None then None else Some tip)"

subsection \<open>The contract of a gate\<close>

text \<open>
  Both gates compare the height something is built from with a reference and let it pass within a
  budget; without either height they do not pass. A transaction built from \<open>b\<close> expires at
  \<open>b + EXPIRY_DELTA_BLOCKS\<close>.
\<close>

locale expiry_gate =
  fixes verdict :: "int option \<Rightarrow> int option \<Rightarrow> gate" and budget :: int
  assumes unknown: "b = None \<or> r = None \<Longrightarrow> g_state (verdict b r) = Unverifiable"
    and known: "g_state (verdict (Some x) (Some y)) = (if y - x > budget then Unsafe else Safe)"
    and keeps: "g_built (verdict b r) = b"
begin

lemma safe_iff:
  "g_state (verdict b r) = Safe \<longleftrightarrow> (\<exists>x y. b = Some x \<and> r = Some y \<and> y - x \<le> budget)"
  using unknown [of b r] known by (cases b; cases r) auto

lemma safe_mono:
  assumes "g_state (verdict (Some b) (Some r)) = Safe" and "b \<le> b'" and "r' \<le> r"
  shows "g_state (verdict (Some b') (Some r')) = Safe"
  using assms by (auto simp: safe_iff)

lemma safe_margin:
  assumes "g_state (verdict b r) = Safe"
  shows "\<exists>x y. b = Some x \<and> r = Some y \<and> y + (EXPIRY_DELTA_BLOCKS - budget) \<le> x + EXPIRY_DELTA_BLOCKS"
  using assms by (auto simp: safe_iff)

lemma refusal_has_text:
  "g_state (verdict b r) \<noteq> Safe \<longleftrightarrow> freshness_refusal_text (verdict b r) \<noteq> None"
  by (cases "g_state (verdict b r)") (auto simp: freshness_refusal_text_def)

end

interpretation chain: expiry_gate "chain_freshness m" m for m
  by unfold_locales (auto simp: chain_freshness_def Let_def split: option.splits)

interpretation scan: expiry_gate "wallet_lag_freshness m" "max 0 m" for m
  by unfold_locales (auto simp: wallet_lag_freshness_def Let_def split: option.splits)

text \<open>The gates as the claim route and the reconciler ask them.\<close>

definition both_gates_pass ::
  "int \<Rightarrow> int \<Rightarrow> int option \<Rightarrow> int option \<Rightarrow> reference_reading \<Rightarrow> bool" where
  "both_gates_pass shield_conf wallet_conf walletHeight nodeHeight tip =
     (may_build_transaction (read_chain_freshness (shield_max_lag_blocks shield_conf) nodeHeight tip)
      \<and> may_build_from_wallet (wallet_lag_freshness (wallet_max_lag_blocks wallet_conf) walletHeight nodeHeight))"

lemmas [gate_defs] = may_build_transaction_def may_build_from_wallet_def read_chain_freshness_def

text \<open>The budgets are clamped so that both gates together leave ten blocks of the expiry delta.\<close>

lemma safe_gates_leave_ten:
  assumes "may_build_transaction (chain_freshness (shield_max_lag_blocks shield_conf) nodeHeight tip)"
    and "may_build_from_wallet (wallet_lag_freshness (wallet_max_lag_blocks wallet_conf) walletHeight nodeHeight)"
  shows "\<exists>w e. walletHeight = Some w \<and> tip = Some e \<and> e + 10 \<le> w + EXPIRY_DELTA_BLOCKS"
proof -
  have "shield_max_lag_blocks shield_conf \<le> 10" and "max 0 (wallet_max_lag_blocks wallet_conf) \<le> 20"
    by (simp_all add: shield_max_lag_blocks_def SHIELD_LAG_CEILING_def wallet_max_lag_blocks_def WALLET_LAG_CEILING_def)
  with assms show ?thesis
    unfolding gate_defs chain.safe_iff scan.safe_iff EXPIRY_DELTA_BLOCKS_def by fastforce
qed

subsection \<open>Facts\<close>

lemma usable_heights_set:
  "set (usable_heights rs) = {h. \<exists>r\<in>set rs. ep_height r = Some h \<and> 0 < h}"
  by (force simp: usable_heights_def image_iff split: option.splits)

lemma ask_polls_late:
  "k < length ps \<Longrightarrow> deadline \<le> fst (ps ! k) \<Longrightarrow> ask_polls deadline ps \<noteq> None"
proof (induction deadline ps arbitrary: k rule: ask_polls.induct)
  case (2 deadline t tip ps)
  then show ?case by (cases k) auto
qed simp

lemma ask_polls_known:
  "ask_polls deadline ps = Some tip \<Longrightarrow> \<exists>t. (t, tip) \<in> set ps \<and> (tip = None \<longrightarrow> deadline \<le> t)"
  by (induction deadline ps rule: ask_polls.induct) (auto split: if_splits)

text \<open>The samples one after the other, each height read with the external height and the clock.\<close>

type_synonym tip_obs = "int \<times> int option \<times> int"

definition watch_tip :: "int \<Rightarrow> tip_obs list \<Rightarrow> tip_sample option" where
  "watch_tip TIP_STALL_MS obs =
     fold (\<lambda>(h, e, t) prev. Some (next_sample (tip_progress TIP_STALL_MS prev h e t))) obs None"

lemma watch_tip_snoc:
  "watch_tip S (obs @ [(h, e, t)]) = Some (next_sample (tip_progress S (watch_tip S obs) h e t))"
  by (simp add: watch_tip_def)

lemma watch_tip_run_start:
  assumes "run \<noteq> []" and "\<forall>o'\<in>set run. fst o' = h" and "before = [] \<or> fst (last before) \<noteq> h"
    and "fst (snd (hd run)) = e0" and "snd (snd (hd run)) = t0"
  shows "watch_tip S (before @ run) = Some \<lparr>tp_height = h, tp_at = t0, tp_external = e0\<rparr>"
  using assms
proof (induction run rule: rev_induct)
  case Nil
  then show ?case by simp
next
  case (snoc o' run)
  obtain x e t where o': "o' = (x, e, t)" by (cases o') auto
  have x: "x = h" using snoc.prems(2) o' by simp
  show ?case
  proof (cases "run = []")
    case True
    have "\<exists>p. watch_tip S before = Some p \<and> tp_height p = fst (last before)" if ne: "before \<noteq> []"
    proof -
      obtain bs b where "before = bs @ [b]" using ne append_butlast_last_id [of before] by metis
      moreover obtain y ey ty where "b = (y, ey, ty)" by (cases b) auto
      ultimately show ?thesis
        by (auto simp: watch_tip_snoc tip_progress_def Let_def split: option.splits)
    qed
    moreover have "watch_tip S [] = None" by (simp add: watch_tip_def)
    ultimately have "watch_tip S before = None \<or> (\<exists>p. watch_tip S before = Some p \<and> tp_height p \<noteq> h)"
      using snoc.prems(3) by metis
    then show ?thesis
      using True snoc.prems(4,5) o' x
      by (auto simp: watch_tip_snoc tip_progress_def Let_def)
  next
    case False
    then have "watch_tip S (before @ run) = Some \<lparr>tp_height = h, tp_at = t0, tp_external = e0\<rparr>"
      using snoc by (intro snoc.IH) auto
    then show ?thesis
      using watch_tip_snoc [of S "before @ run" x e t] o' x by (simp add: tip_progress_def Let_def)
  qed
qed

subsection \<open>Properties\<close>

text \<open>
  A transaction the gates let through has ten blocks to live. When both gates pass, at any
  configured budgets (they are clamped), the wallet's scanned height and the independent tip are
  known, and the expiry height stamped from the scan lies at least ten blocks above the tip.
\<close>

theorem gates_leave_ten_blocks:
  assumes "both_gates_pass shield_conf wallet_conf walletHeight nodeHeight tip"
  shows "\<exists>w e. walletHeight = Some w \<and> rr_height tip = Some e \<and> e + 10 \<le> w + EXPIRY_DELTA_BLOCKS"
  using assms safe_gates_leave_ten [of shield_conf nodeHeight "rr_height tip" wallet_conf walletHeight]
  by (simp add: both_gates_pass_def read_chain_freshness_def)

definition ex_tip :: reference_reading where
  "ex_tip = \<lparr>rr_height = Some 1010, rr_source = Some Hosh, rr_stale = False\<rparr>"

theorem gates_leave_ten_blocks_witness:
  "\<exists>w e. Some 985 = Some w \<and> rr_height ex_tip = Some e \<and> e + 10 \<le> w + EXPIRY_DELTA_BLOCKS"
  by (rule gates_leave_ten_blocks [of 50 50 "Some 985" "Some 1005"])
    (simp add: both_gates_pass_def read_chain_freshness_def chain_freshness_def wallet_lag_freshness_def
      may_build_transaction_def may_build_from_wallet_def ex_tip_def shield_max_lag_blocks_def
      wallet_max_lag_blocks_def SHIELD_LAG_CEILING_def WALLET_LAG_CEILING_def)

text \<open>
  No stale or single friendly source vouches for the node. If the chain gate passes on the
  reference after any sequence of refreshes, some source answered within the last five minutes, and
  our node is within the budget of every source that did.
\<close>

theorem gate_passes_against_every_fresh_source:
  assumes "may_build_transaction (read_chain_freshness max_lag nodeHeight
      (reference_tip_at ab asec (ts_sources (run_refreshes as)) now))"
  shows "\<exists>n. nodeHeight = Some n \<and> fresh_samples (ts_sources (run_refreshes as)) now \<noteq> []
    \<and> (\<forall>s\<in>set (fresh_samples (ts_sources (run_refreshes as)) now). rs_height (snd s) \<le> n + max_lag)"
proof -
  let ?f = "fresh_samples (ts_sources (run_refreshes as)) now"
  note ref = reference_tip_max [OF run_refreshes_distinct, of ab asec as now]
  have "g_state (chain_freshness max_lag nodeHeight
      (rr_height (reference_tip_at ab asec (ts_sources (run_refreshes as)) now))) = Safe"
    using assms by (simp add: may_build_transaction_def read_chain_freshness_def)
  then obtain n e where n: "nodeHeight = Some n" "e - n \<le> max_lag"
    and e: "rr_height (reference_tip_at ab asec (ts_sources (run_refreshes as)) now) = Some e"
    by (auto simp: chain.safe_iff)
  with ref have f: "?f \<noteq> []" "e = Max ((\<lambda>e. rs_height (snd e)) ` set ?f)"
    by (auto split: if_splits)
  then have "\<forall>s\<in>set ?f. rs_height (snd s) \<le> e" by simp
  with n f(1) show ?thesis by fastforce
qed

definition ex_answers :: "refresh_answer list" where
  "ex_answers = [((Some 990, None), 1000), ((Some 1000, Some (1004, ''lwd'')), 100000)]"

theorem gate_passes_against_every_fresh_source_witness:
  "\<exists>n. Some 1001 = Some n \<and> fresh_samples (ts_sources (run_refreshes ex_answers)) 200000 \<noteq> []
    \<and> (\<forall>s\<in>set (fresh_samples (ts_sources (run_refreshes ex_answers)) 200000). rs_height (snd s) \<le> n + 5)"
proof (rule gate_passes_against_every_fresh_source [where ab = 20 and asec = 300])
  show "may_build_transaction (read_chain_freshness 5 (Some 1001)
      (reference_tip_at 20 300 (ts_sources (run_refreshes ex_answers)) 200000))"
    by code_simp
qed

text \<open>
  Asking for a tip is bounded and fails closed. Once a poll comes at or after the wait, the gate
  has answered; an answer that lets a send through rests on a tip some poll read, and an answer for
  want of a tip comes only after the whole wait.
\<close>

theorem asking_is_bounded_and_fails_closed:
  assumes "k < length polls" and "now + waitMs \<le> fst (polls ! k)"
  shows "\<exists>g. read_chain_freshness_asking max_lag (Some n) waitMs now polls = Some g
    \<and> (may_build_transaction g \<longrightarrow> (\<exists>t e. (t, Some e) \<in> set polls \<and> e - n \<le> max_lag))
    \<and> (g_reference g = None \<longrightarrow> (\<exists>t. (t, None) \<in> set polls \<and> now + waitMs \<le> t))"
proof -
  obtain tip where tip: "ask_polls (now + waitMs) polls = Some tip"
    using ask_polls_late [OF assms] by blast
  then obtain t where "(t, tip) \<in> set polls" "tip = None \<longrightarrow> now + waitMs \<le> t"
    using ask_polls_known by blast
  moreover have "may_build_transaction (chain_freshness max_lag (Some n) tip)
      \<Longrightarrow> \<exists>e. tip = Some e \<and> e - n \<le> max_lag"
    by (auto simp: may_build_transaction_def chain.safe_iff)
  moreover have "g_reference (chain_freshness max_lag (Some n) tip) = tip"
    by (simp add: chain_freshness_def Let_def split: option.splits)
  ultimately show ?thesis using tip by (auto simp: read_chain_freshness_asking_def)
qed

theorem asking_is_bounded_and_fails_closed_witness:
  "\<exists>g. read_chain_freshness_asking 5 (Some 100) 200 0 [(0, None), (100, None), (200, Some 103)] = Some g"
  using asking_is_bounded_and_fails_closed [of 2 "[(0, None), (100, None), (200, Some 103)]" 0 200 5 100]
  by force

text \<open>
  A stall is measured from the first sighting of the height. Whatever was sampled before, when
  the last samples all show one height the reported stall is the time since the first of them, and
  the tip counts as stalled exactly when that reaches the limit and the independent tip is not known
  to have stood still over the same time.
\<close>

theorem stall_measures_the_run:
  assumes "run \<noteq> []" and "\<forall>o'\<in>set run. fst o' = h" and "before = [] \<or> fst (last before) \<noteq> h"
  shows "let p = tip_progress S (watch_tip S (before @ run)) h e now;
             t0 = snd (snd (hd run)); e0 = fst (snd (hd run))
         in stalledMs p = Some (now - t0)
            \<and> (stalled p \<longleftrightarrow> S \<le> now - t0 \<and> \<not> (e \<noteq> None \<and> e0 \<noteq> None \<and> e = e0))"
  using watch_tip_run_start [OF assms refl refl, of S] by (simp add: tip_progress_def Let_def)

theorem stall_measures_the_run_witness:
  "stalled (tip_progress 1000 (watch_tip 1000 [(6, Some 6, 100), (7, Some 7, 500), (7, Some 8, 900)]) 7 (Some 9) 1500)"
  using stall_measures_the_run [of "[(7, Some 7, 500), (7, Some 8, 900)]" 7 "[(6, Some 6, 100)]" 1000 "Some 9" 1500]
  by (simp add: Let_def)

end
