(* ===== verification/Privacy.thy ===== *)
theory Privacy
  imports Js_String
begin

text \<open>
  What the rate limiter is keyed on: \<open>src/src/lib/privacy.ts\<close> (salted fingerprints of addresses,
  clients and subnets) and \<open>src/src/lib/clientIp.ts\<close> (which entry of \<open>X-Forwarded-For\<close> is believed).
  The hash is the parameter \<open>sha\<close>: hex digest of a string, from \<open>node:crypto\<close>.
\<close>

subsection \<open>Fingerprints\<close>

definition fingerprint :: "(string \<Rightarrow> string) \<Rightarrow> string \<Rightarrow> string \<Rightarrow> string \<Rightarrow> string" where
  "fingerprint sha salt tag v = take 32 (sha (salt @ ''|'' @ tag @ ''|'' @ v))"

definition fingerprint_ip :: "(string \<Rightarrow> string) \<Rightarrow> string \<Rightarrow> string \<Rightarrow> string" where
  "fingerprint_ip sha salt ip = fingerprint sha salt ''ip'' ip"

definition BECH32_HRPS :: "string list" where
  "BECH32_HRPS = [''utest1'', ''uregtest1'', ''ztestsapling1'', ''zregtestsapling1'']"

definition canonical_address :: "string \<Rightarrow> string" where
  "canonical_address address =
     (let t = trim address; lower = to_lower t
      in if list_ex (starts_with lower) BECH32_HRPS then lower else t)"

definition fingerprint_address :: "(string \<Rightarrow> string) \<Rightarrow> string \<Rightarrow> string \<Rightarrow> string" where
  "fingerprint_address sha salt address = fingerprint sha salt ''addr'' (canonical_address address)"

subsection \<open>Subnets\<close>

text \<open>The four octets of \<open>/^(?:::ffff:)?(\d{1,3})\.(\d{1,3})\.(\d{1,3})\.(\d{1,3})$/\<close>.\<close>

definition is_octet_text :: "string \<Rightarrow> bool" where
  "is_octet_text g = (g \<noteq> [] \<and> length g \<le> 3 \<and> list_all is_digit g)"

definition ipv4_octets :: "string \<Rightarrow> string list option" where
  "ipv4_octets raw =
     (let body = (if starts_with raw ''::ffff:'' then drop 7 raw else raw);
          parts = split_on CHR ''.'' body
      in if length parts = 4 \<and> list_all is_octet_text parts then Some parts else None)"

definition is_group :: "string \<Rightarrow> bool" where
  "is_group g = (g \<noteq> [] \<and> length g \<le> 4 \<and> list_all is_hex g)"

text \<open>\<open>g.replace(/^0+(?=.)/, "")\<close>: leading zeros go while a character follows.\<close>

fun strip_zeros :: "string \<Rightarrow> string" where
  "strip_zeros (c # d # s) = (if c = CHR ''0'' then strip_zeros (d # s) else c # d # s)"
| "strip_zeros s = s"

definition expand_ipv6 :: "string \<Rightarrow> string list option" where
  "expand_ipv6 raw =
     (let halves = split_colons raw in
      if length halves > 2 then None
      else
        let head = (if halves ! 0 = [] then [] else split_on CHR '':'' (halves ! 0));
            tail = (if length halves = 2 \<and> halves ! 1 \<noteq> [] then split_on CHR '':'' (halves ! 1) else [])
        in if length halves = 1 \<and> length head \<noteq> 8 then None
           else if length head + length tail > 8 then None
           else let groups = head @ replicate (8 - length head - length tail) ''0'' @ tail
                in if list_all is_group groups then Some (map strip_zeros groups) else None)"

definition subnet_of :: "string \<Rightarrow> string option" where
  "subnet_of ip =
     (let raw = to_lower (trim ip) in
      if raw = [] then None
      else (case ipv4_octets raw of
          Some parts \<Rightarrow>
            (let octets = map digits_value parts
             in if list_ex (\<lambda>o'. o' > 255) octets then None
                else Some (join_with ''.'' (map show_int (take 3 octets)) @ ''.0/24''))
        | None \<Rightarrow>
            if CHR '':'' \<notin> set raw then None
            else map_option (\<lambda>groups. join_with '':'' (take 3 groups) @ ''::/48'') (expand_ipv6 raw)))"

definition fingerprint_subnet :: "(string \<Rightarrow> string) \<Rightarrow> string \<Rightarrow> string \<Rightarrow> string option" where
  "fingerprint_subnet sha salt ip = map_option (fingerprint sha salt ''subnet'') (subnet_of ip)"

subsection \<open>The client's address\<close>

definition client_ip :: "nat \<Rightarrow> string option \<Rightarrow> string option" where
  "client_ip trusted xff =
     (if trusted > 0
      then (case xff of
          Some h \<Rightarrow>
            (if h = [] then None
             else let hops = filter (\<lambda>s. s \<noteq> []) (map trim (split_on CHR '','' h))
                  in if trusted \<le> length hops then Some (hops ! (length hops - trusted)) else None)
        | None \<Rightarrow> None)
      else None)"

subsection \<open>Facts\<close>

lemma canonical_to_lower:
  assumes "list_ex (starts_with (to_lower (trim a))) BECH32_HRPS"
  shows "canonical_address a = to_lower (trim a)"
  using assms by (simp add: canonical_address_def Let_def)

lemma client_ip_hops:
  assumes "rs \<noteq> []" and "\<forall>r\<in>set rs. CHR '','' \<notin> set r \<and> trim r \<noteq> []"
  shows "client_ip (length rs) (Some (p @ CHR '','' # join_with '','' rs)) = Some (trim (rs ! 0))"
proof -
  obtain us where us: "split_on CHR '','' (p @ CHR '','' # join_with '','' rs)
      = us @ split_on CHR '','' (join_with '','' rs)"
    using split_on_append by blast
  have "split_on CHR '','' (join_with '','' rs) = rs"
    using assms by (intro split_join) auto
  moreover have "filter (\<lambda>s. s \<noteq> []) (map trim rs) = map trim rs"
    using assms(2) by (simp add: filter_id_conv)
  ultimately have hops: "filter (\<lambda>s. s \<noteq> []) (map trim (split_on CHR '','' (p @ CHR '','' # join_with '','' rs)))
      = filter (\<lambda>s. s \<noteq> []) (map trim us) @ map trim rs"
    by (simp add: us)
  have "p @ CHR '','' # join_with '','' rs \<noteq> []" by simp
  then show ?thesis
    using assms(1) unfolding client_ip_def Let_def option.case hops
    by (simp add: nth_append)
qed

lemma split_colons_plain: "CHR '':'' \<notin> set w \<Longrightarrow> split_colons w = [w]"
  by (induction w rule: split_colons.induct) auto

fun no_double_colon :: "string \<Rightarrow> bool" where
  "no_double_colon (c # d # s) = (\<not> (c = CHR '':'' \<and> d = CHR '':'') \<and> no_double_colon (d # s))"
| "no_double_colon s = True"

lemma split_colons_single: "no_double_colon s \<Longrightarrow> split_colons s = [s]"
  by (induction s rule: split_colons.induct) auto

lemma split_colons_double:
  "no_double_colon s \<Longrightarrow> s \<noteq> [] \<Longrightarrow> last s \<noteq> CHR '':'' \<Longrightarrow>
     split_colons (s @ '':'' @ '':'' @ r) = s # split_colons r"
proof (induction s rule: split_colons.induct)
  case 1
  then show ?case by simp
next
  case (2 c)
  then show ?case by simp
next
  case (3 c d s)
  then show ?case by simp
qed

definition plain_word :: "string \<Rightarrow> bool" where
  "plain_word w = (w \<noteq> [] \<and> CHR '':'' \<notin> set w)"

lemma no_double_colon_cons: "no_double_colon s \<Longrightarrow> c \<noteq> CHR '':'' \<Longrightarrow> no_double_colon (c # s)"
  by (cases s) auto

lemma no_double_colon_word: "CHR '':'' \<notin> set w \<Longrightarrow> no_double_colon s \<Longrightarrow> no_double_colon (w @ s)"
  by (induction w) (auto intro: no_double_colon_cons)

lemma join_plain:
  "ws \<noteq> [] \<Longrightarrow> \<forall>w\<in>set ws. plain_word w \<Longrightarrow>
     no_double_colon (join_with '':'' ws) \<and> join_with '':'' ws \<noteq> []
     \<and> hd (join_with '':'' ws) \<noteq> CHR '':'' \<and> last (join_with '':'' ws) \<noteq> CHR '':''"
proof (induction ws rule: list_nonempty_induct)
  case (single w)
  then have "no_double_colon (w @ [])" by (intro no_double_colon_word) (auto simp: plain_word_def)
  with single show ?case by (auto simp: plain_word_def dest: hd_in_set last_in_set)
next
  case (cons w ws)
  then obtain v vs where ws: "ws = v # vs" by (meson neq_Nil_conv)
  let ?j = "join_with '':'' ws"
  have IH: "no_double_colon ?j" "?j \<noteq> []" "hd ?j \<noteq> CHR '':''" "last ?j \<noteq> CHR '':''"
    using cons by auto
  have "no_double_colon (CHR '':'' # ?j)" using IH by (cases ?j) auto
  then have "no_double_colon (w @ CHR '':'' # ?j)"
    using cons.prems by (intro no_double_colon_word) (auto simp: plain_word_def)
  moreover have "hd (w @ CHR '':'' # ?j) \<noteq> CHR '':''"
    using cons.prems by (cases w) (auto simp: plain_word_def)
  ultimately show ?case using IH by (simp add: ws)
qed

lemma is_group_plain: "is_group g \<Longrightarrow> plain_word g"
  by (auto simp: is_group_def plain_word_def list_all_iff is_hex_def is_digit_def less_eq_char_def)

lemma split_join_groups: "ws \<noteq> [] \<Longrightarrow> \<forall>w\<in>set ws. is_group w \<Longrightarrow> split_on CHR '':'' (join_with '':'' ws) = ws"
  using is_group_plain by (intro split_join) (auto simp: plain_word_def)

lemma expand_ipv6_full:
  assumes "length gs = 8" and "\<forall>g\<in>set gs. is_group g"
  shows "expand_ipv6 (join_with '':'' gs) = Some (map strip_zeros gs)"
proof -
  have ne: "gs \<noteq> []" using assms(1) by auto
  have j: "no_double_colon (join_with '':'' gs)" "join_with '':'' gs \<noteq> []"
    using join_plain [OF ne] assms(2) is_group_plain by blast+
  show ?thesis
    using assms j split_join_groups [OF ne]
    by (simp add: expand_ipv6_def split_colons_single Let_def list_all_iff)
qed

lemma expand_ipv6_compressed:
  assumes "hs \<noteq> []" and "ts \<noteq> []" and "length hs + length ts \<le> 8"
    and "\<forall>g\<in>set hs \<union> set ts. is_group g"
  shows "expand_ipv6 (join_with '':'' hs @ ''::'' @ join_with '':'' ts)
     = Some (map strip_zeros (hs @ replicate (8 - length hs - length ts) ''0'' @ ts))"
proof -
  have h: "no_double_colon (join_with '':'' hs)" "join_with '':'' hs \<noteq> []"
      "last (join_with '':'' hs) \<noteq> CHR '':''"
    using join_plain [OF assms(1)] assms(4) is_group_plain by blast+
  have t: "no_double_colon (join_with '':'' ts)" "join_with '':'' ts \<noteq> []"
    using join_plain [OF assms(2)] assms(4) is_group_plain by blast+
  have sp: "split_colons (join_with '':'' hs @ CHR '':'' # CHR '':'' # join_with '':'' ts)
      = [join_with '':'' hs, join_with '':'' ts]"
    using split_colons_double [OF h, of "join_with '':'' ts"] split_colons_single [OF t(1)] by simp
  have z: "is_group ''0''" by (simp add: is_group_def is_hex_def is_digit_def)
  show ?thesis
    using assms h t split_join_groups [OF assms(1)] split_join_groups [OF assms(2)] z
    by (auto simp: expand_ipv6_def sp Let_def list_all_iff)
qed

lemma plain_v6_not_v4:
  assumes "CHR ''.'' \<notin> set s"
  shows "ipv4_octets s = None"
proof -
  have "CHR ''.'' \<notin> set (if starts_with s ''::ffff:'' then drop 7 s else s)"
    using assms in_set_dropD [of "CHR ''.''" 7 s] by auto
  then show ?thesis by (simp add: ipv4_octets_def Let_def split_on_word)
qed

lemma group_chars: "is_group g \<Longrightarrow> c \<in> set g \<Longrightarrow> is_hex c"
  by (simp add: is_group_def list_all_iff)

lemma hex_char: "is_hex c \<Longrightarrow> lower_char c = c \<and> \<not> is_space c \<and> c \<noteq> CHR ''.''"
  by (auto simp: is_hex_def is_digit_def lower_char_def is_space_def less_eq_char_def)

lemma set_join_groups:
  "\<forall>g\<in>set gs. is_group g \<Longrightarrow> c \<in> set (join_with '':'' gs) \<Longrightarrow> is_hex c \<or> c = CHR '':''"
proof (induction gs)
  case Nil
  then show ?case by simp
next
  case (Cons g gs)
  then show ?case by (cases gs) (auto dest: group_chars)
qed

lemma subnet_of_v6_text:
  assumes "\<forall>c\<in>set s. is_hex c \<or> c = CHR '':''" and "CHR '':'' \<in> set s"
  shows "subnet_of s = map_option (\<lambda>gs. join_with '':'' (take 3 gs) @ ''::/48'') (expand_ipv6 s)"
proof -
  have colon: "lower_char CHR '':'' = CHR '':''" "\<not> is_space CHR '':''"
    by (simp_all add: lower_char_def is_space_def less_eq_char_def)
  have c: "lower_char c = c \<and> \<not> is_space c \<and> c \<noteq> CHR ''.''" if "c \<in> set s" for c
    using assms(1) that colon hex_char by auto
  have "to_lower (trim s) = s" using c by (simp add: trim_plain to_lower_def map_idI)
  moreover have "ipv4_octets s = None" using c by (intro plain_v6_not_v4) auto
  ultimately show ?thesis using assms(2) by (auto simp: subnet_of_def Let_def)
qed

definition is_bech32_text :: "string \<Rightarrow> bool" where
  "is_bech32_text t = list_ex (starts_with (to_lower t)) BECH32_HRPS"

subsection \<open>Properties\<close>

text \<open>
  Two spellings of an address share one cooldown exactly when they name the same destination:
  a bech32 address (unified, Sapling, regtest) is keyed on its lower-case form, so changing the
  case or adding white space buys no second drip, and a base58 address is keyed as typed.
\<close>

theorem address_key_canonical:
  "canonical_address a = canonical_address b \<longleftrightarrow>
     (if is_bech32_text (trim a) \<or> is_bech32_text (trim b)
      then to_lower (trim a) = to_lower (trim b) else trim a = trim b)"
proof -
  have low: "is_bech32_text (to_lower t) = is_bech32_text t" for t
    by (simp add: is_bech32_text_def)
  have can: "canonical_address x = (if is_bech32_text (trim x) then to_lower (trim x) else trim x)" for x
    by (simp add: canonical_address_def is_bech32_text_def Let_def)
  show ?thesis
    unfolding can using low [of "trim a"] low [of "trim b"]
    by (cases "is_bech32_text (trim a)"; cases "is_bech32_text (trim b)") auto
qed

text \<open>
  Entries a client puts in \<open>X-Forwarded-For\<close> are ignored. With \<open>n\<close> trusted proxies the address
  believed is the one \<open>n\<close> from the right, whatever stands to the left of the trusted entries.
\<close>

theorem forged_forwarded_for_ignored:
  assumes "rs \<noteq> []" and "\<forall>r\<in>set rs. CHR '','' \<notin> set r \<and> trim r \<noteq> []"
  shows "client_ip (length rs) (Some (forged @ CHR '','' # join_with '','' rs)) = Some (trim (hd rs))"
  using client_ip_hops [OF assms, of forged] assms(1) by (simp add: hd_conv_nth)

theorem forged_forwarded_for_ignored_witness:
  "client_ip 1 (Some (''6.6.6.6, 7.7.7.7'' @ CHR '','' # ''192.0.2.9'')) = Some ''192.0.2.9''"
  using forged_forwarded_for_ignored [of "[''192.0.2.9'']" "''6.6.6.6, 7.7.7.7''"]
  by (simp add: trim_def is_space_def)

text \<open>
  The subnet of an IPv6 address is its /48 however the address is written. A compressed address
  has the key of its full form, and that key is the first three groups without leading zeros, so
  moving inside a /48 cannot reset the subnet limit.
\<close>

theorem ipv6_subnet_key_is_slash48:
  assumes "hs \<noteq> []" and "ts \<noteq> []" and "length hs + length ts \<le> 8"
    and "\<forall>g\<in>set hs \<union> set ts. is_group g"
  shows "subnet_of (join_with '':'' hs @ ''::'' @ join_with '':'' ts)
       = subnet_of (join_with '':'' (hs @ replicate (8 - length hs - length ts) ''0'' @ ts))
     \<and> subnet_of (join_with '':'' hs @ ''::'' @ join_with '':'' ts)
       = Some (join_with '':'' (take 3 (map strip_zeros
           (hs @ replicate (8 - length hs - length ts) ''0'' @ ts))) @ ''::/48'')"
proof -
  let ?gs = "hs @ replicate (8 - length hs - length ts) ''0'' @ ts"
  have z: "is_group ''0''" by (simp add: is_group_def is_hex_def is_digit_def)
  then have g: "length ?gs = 8" "\<forall>g\<in>set ?gs. is_group g" using assms by auto
  obtain a b cs where gs: "?gs = a # b # cs" using g(1) by (cases ?gs; cases "tl ?gs") auto
  have colon: "CHR '':'' \<in> set (join_with '':'' ?gs)" unfolding gs by simp
  have full: "subnet_of (join_with '':'' ?gs)
      = map_option (\<lambda>gs. join_with '':'' (take 3 gs) @ ''::/48'') (expand_ipv6 (join_with '':'' ?gs))"
    using set_join_groups [OF g(2)] colon by (intro subnet_of_v6_text) auto
  have comp: "subnet_of (join_with '':'' hs @ ''::'' @ join_with '':'' ts)
      = map_option (\<lambda>gs. join_with '':'' (take 3 gs) @ ''::/48'')
          (expand_ipv6 (join_with '':'' hs @ ''::'' @ join_with '':'' ts))"
    using assms(4) set_join_groups [of hs] set_join_groups [of ts]
    by (intro subnet_of_v6_text) auto
  show ?thesis
    unfolding full comp expand_ipv6_full [OF g] expand_ipv6_compressed [OF assms] by simp
qed

theorem ipv6_subnet_key_is_slash48_witness:
  "subnet_of (join_with '':'' [''2001'', ''0db8''] @ ''::'' @ join_with '':'' [''1''])
     = Some ''2001:db8:0::/48''"
proof -
  have "\<forall>g\<in>set [''2001'', ''0db8''] \<union> set [''1'']. is_group g"
    by (simp add: is_group_def is_hex_def is_digit_def less_eq_char_def)
  from ipv6_subnet_key_is_slash48 [of "[''2001'', ''0db8'']" "[''1'']", OF _ _ _ this, THEN conjunct2]
  show ?thesis by (simp add: eval_nat_numeral)
qed

end
