(* ===== verification/Address.thy ===== *)
theory Address
  imports Privacy
begin

text \<open>
  Validation of a testnet address: \<open>src/src/lib/zcash/address.ts\<close>. The decoders of \<open>@scure/base\<close> are
  parameters: bech32 and bech32m answer the human-readable part and the payload, base58check the
  payload, and \<open>None\<close> stands for their exceptions (bad checksum, mixed case, bad alphabet).
\<close>

datatype address_kind = Unified | Sapling | Transparent

datatype address_reason =
  Address_Empty | Address_Too_Long | Looks_Mainnet | Looks_Regtest
| Unified_Checksum | Unified_Too_Short | Sapling_Checksum | Sapling_Size
| Transparent_Checksum | Transparent_Version | Unrecognized

record address_info =
  ai_kind :: address_kind
  ai_shielded :: bool

type_synonym payload = "nat list"

record decoders =
  bech32m_decode :: "string \<Rightarrow> (string \<times> payload) option"
  bech32_decode :: "string \<Rightarrow> (string \<times> payload) option"
  base58check_decode :: "string \<Rightarrow> payload option"

definition P2PKH_VERSION :: "nat list" where "P2PKH_VERSION = [0x1d, 0x25]"
definition P2SH_VERSION :: "nat list" where "P2SH_VERSION = [0x1c, 0xba]"

text \<open>\<open>/^(u1|zs|t1|t3)/\<close>, \<open>/^(uregtest1|zregtestsapling1)/i\<close> and \<open>/^(tm|t2)/\<close>.\<close>

definition looks_mainnet :: "string \<Rightarrow> bool" where
  "looks_mainnet addr = list_ex (starts_with addr) [''u1'', ''zs'', ''t1'', ''t3'']"

definition looks_regtest :: "string \<Rightarrow> bool" where
  "looks_regtest addr = list_ex (starts_with (to_lower addr)) [''uregtest1'', ''zregtestsapling1'']"

definition looks_transparent :: "string \<Rightarrow> bool" where
  "looks_transparent addr = list_ex (starts_with addr) [''tm'', ''t2'']"

definition validate_unified :: "decoders \<Rightarrow> string \<Rightarrow> address_reason + address_info" where
  "validate_unified dec addr =
     (case bech32m_decode dec addr of
        None \<Rightarrow> Inl Unified_Checksum
      | Some (prefix, bytes) \<Rightarrow>
          if length bytes < 48 then Inl Unified_Too_Short
          else Inr \<lparr>ai_kind = Unified, ai_shielded = True\<rparr>)"

definition validate_sapling :: "decoders \<Rightarrow> string \<Rightarrow> address_reason + address_info" where
  "validate_sapling dec addr =
     (case bech32_decode dec addr of
        None \<Rightarrow> Inl Sapling_Checksum
      | Some (prefix, bytes) \<Rightarrow>
          if length bytes \<noteq> 43 then Inl Sapling_Size
          else Inr \<lparr>ai_kind = Sapling, ai_shielded = True\<rparr>)"

definition validate_transparent :: "decoders \<Rightarrow> string \<Rightarrow> address_reason + address_info" where
  "validate_transparent dec addr =
     (case base58check_decode dec addr of
        None \<Rightarrow> Inl Transparent_Checksum
      | Some bytes \<Rightarrow>
          let version = (if starts_with addr ''tm'' then P2PKH_VERSION else P2SH_VERSION) in
          if length bytes \<noteq> 22 \<or> bytes ! 0 \<noteq> version ! 0 \<or> bytes ! 1 \<noteq> version ! 1
          then Inl Transparent_Version
          else Inr \<lparr>ai_kind = Transparent, ai_shielded = False\<rparr>)"

definition validate_testnet_address :: "decoders \<Rightarrow> string \<Rightarrow> address_reason + address_info" where
  "validate_testnet_address dec input =
     (let addr = trim input in
      if addr = [] then Inl Address_Empty
      else if length addr > 512 then Inl Address_Too_Long
      else if looks_mainnet addr then Inl Looks_Mainnet
      else if looks_regtest addr then Inl Looks_Regtest
      else if starts_with (to_lower addr) ''utest1'' then validate_unified dec addr
      else if starts_with (to_lower addr) ''ztestsapling1'' then validate_sapling dec addr
      else if looks_transparent addr then validate_transparent dec addr
      else Inl Unrecognized)"

lemma unified_ok:
  "validate_unified dec addr = Inr info \<longleftrightarrow> info = \<lparr>ai_kind = Unified, ai_shielded = True\<rparr>
     \<and> (\<exists>p bytes. bech32m_decode dec addr = Some (p, bytes) \<and> 48 \<le> length bytes)"
  by (auto simp: validate_unified_def not_less split: option.splits)

lemma sapling_ok:
  "validate_sapling dec addr = Inr info \<longleftrightarrow> info = \<lparr>ai_kind = Sapling, ai_shielded = True\<rparr>
     \<and> (\<exists>p bytes. bech32_decode dec addr = Some (p, bytes) \<and> length bytes = 43)"
  by (auto simp: validate_sapling_def split: option.splits)

lemma take2: "length bytes = 22 \<Longrightarrow> take 2 bytes = [bytes ! 0, bytes ! 1]"
  by (cases bytes; cases "tl bytes") (auto simp: numeral_2_eq_2)

lemma transparent_ok:
  "validate_transparent dec addr = Inr info \<Longrightarrow> info = \<lparr>ai_kind = Transparent, ai_shielded = False\<rparr>
     \<and> (\<exists>bytes. base58check_decode dec addr = Some bytes \<and> length bytes = 22
          \<and> take 2 bytes = (if starts_with addr ''tm'' then P2PKH_VERSION else P2SH_VERSION))"
  by (auto simp: validate_transparent_def Let_def take2 P2PKH_VERSION_def P2SH_VERSION_def
      split: option.splits if_split_asm)

lemma validated_kind:
  assumes "validate_testnet_address dec input = Inr info"
  shows "validate_unified dec (trim input) = Inr info \<or> validate_sapling dec (trim input) = Inr info
    \<or> validate_transparent dec (trim input) = Inr info"
    and "trim input \<noteq> [] \<and> length (trim input) \<le> 512 \<and> \<not> looks_mainnet (trim input)
      \<and> \<not> looks_regtest (trim input)"
  using assms unfolding validate_testnet_address_def Let_def
  by (metis Inl_Inr_False, metis Inl_Inr_False not_le)

text \<open>
  An accepted address decoded to a payable payload. Whatever the decoders, an accepted input is,
  after trimming, a non-empty text of at most 512 characters that does not start like a mainnet or
  regtest address, and its payload has the size (and for transparent addresses the version bytes of
  its own prefix) of the kind reported; only transparent addresses are reported unshielded.
\<close>

theorem accepted_address_decodes:
  assumes "validate_testnet_address dec input = Inr info"
  shows "trim input \<noteq> [] \<and> length (trim input) \<le> 512
    \<and> \<not> looks_mainnet (trim input) \<and> \<not> looks_regtest (trim input)
    \<and> (case ai_kind info of
        Unified \<Rightarrow> (\<exists>p bytes. bech32m_decode dec (trim input) = Some (p, bytes) \<and> 48 \<le> length bytes)
      | Sapling \<Rightarrow> (\<exists>p bytes. bech32_decode dec (trim input) = Some (p, bytes) \<and> length bytes = 43)
      | Transparent \<Rightarrow> (\<exists>bytes. base58check_decode dec (trim input) = Some bytes \<and> length bytes = 22
          \<and> take 2 bytes = (if starts_with (trim input) ''tm'' then P2PKH_VERSION else P2SH_VERSION)))
    \<and> (ai_shielded info \<longleftrightarrow> ai_kind info \<noteq> Transparent)"
  using validated_kind(1) [OF assms]
proof (elim disjE)
  assume "validate_unified dec (trim input) = Inr info"
  with validated_kind(2) [OF assms] show ?thesis unfolding unified_ok by simp
next
  assume "validate_sapling dec (trim input) = Inr info"
  with validated_kind(2) [OF assms] show ?thesis unfolding sapling_ok by simp
next
  assume "validate_transparent dec (trim input) = Inr info"
  from transparent_ok [OF this] validated_kind(2) [OF assms] show ?thesis by simp
qed

definition ex_decoders :: decoders where
  "ex_decoders = \<lparr>bech32m_decode = \<lambda>s. None, bech32_decode = \<lambda>s. None,
     base58check_decode = \<lambda>s. if s = ''tmAb'' then Some ([0x1d, 0x25] @ replicate 20 7) else None\<rparr>"

theorem accepted_address_decodes_witness:
  "\<exists>bytes. base58check_decode ex_decoders (trim '' tmAb'') = Some bytes \<and> take 2 bytes = P2PKH_VERSION"
proof -
  have "validate_testnet_address ex_decoders '' tmAb'' = Inr \<lparr>ai_kind = Transparent, ai_shielded = False\<rparr>"
    by code_simp
  from accepted_address_decodes [OF this]
  have "\<exists>bytes. base58check_decode ex_decoders (trim '' tmAb'') = Some bytes \<and> length bytes = 22
      \<and> take 2 bytes = (if starts_with (trim '' tmAb'') ''tm'' then P2PKH_VERSION else P2SH_VERSION)"
    by simp
  moreover have "starts_with (trim '' tmAb'') ''tm''" by code_simp
  ultimately show ?thesis by auto
qed

end
