(* ===== verification/Sender.thy ===== *)
theory Sender
  imports Complex_Main Address Send_Budget
begin

text \<open>
  Paying a claim: \<open>src/src/lib/zcash/send.ts\<close> (errors, the choice of sender),
  \<open>src/src/lib/zcash/zalletsend.ts\<close> (the JSON-RPC wallet) and \<open>src/src/lib/zcash/crosslinksend.ts\<close> (the feature
  net's donation call). What the wallet answers to each call, and how long it takes, is the record
  \<open>wallet_env\<close>; status calls are numbered. Times are whole milliseconds. A send that never returns is
  \<open>None\<close>.
\<close>

subsection \<open>Amounts\<close>

definition ZATOSHI_PER_TAZ :: int where "ZATOSHI_PER_TAZ = 100000000"

definition pad_start :: "nat \<Rightarrow> string \<Rightarrow> string" where
  "pad_start n s = replicate (n - length s) (CHR ''0'') @ s"

definition strip_trailing_zeros :: "string \<Rightarrow> string" where
  "strip_trailing_zeros s = rev (dropWhile (\<lambda>c. c = CHR ''0'') (rev s))"

definition zat_to_zec_literal :: "int \<Rightarrow> string" where
  "zat_to_zec_literal zat =
     (let whole = zat div ZATOSHI_PER_TAZ;
          frac = strip_trailing_zeros (pad_start 8 (show_int (zat mod ZATOSHI_PER_TAZ)))
      in if frac \<noteq> [] then show_int whole @ ''.'' @ frac else show_int whole)"

text \<open>What a decimal literal denotes, in zatoshi: the reading of a JSON number with at most eight decimals.\<close>

definition literal_zat :: "string \<Rightarrow> int" where
  "literal_zat s =
     (case split_on (CHR ''.'') s of
        [w, f] \<Rightarrow> digits_value w * ZATOSHI_PER_TAZ + digits_value f * 10 ^ (8 - length f)
      | _ \<Rightarrow> digits_value s * ZATOSHI_PER_TAZ)"

definition DRIPPABLE_POOLS :: "string list" where
  "DRIPPABLE_POOLS = [''ironwood'', ''orchard'', ''sapling'']"

definition KNOWN_NOT_DRIPPABLE :: "string list" where
  "KNOWN_NOT_DRIPPABLE = [''transparent'', ''sprout'']"

text \<open>The drippable total, the transparent total, and the pools that are named in the warning.\<close>

record pool_scan =
  drippable :: int
  transparent_zat :: int
  unknown_pools :: "(string \<times> int) list"

definition drippable_step :: "pool_scan \<Rightarrow> string \<times> int option \<Rightarrow> pool_scan" where
  "drippable_step acc p =
     (case p of (name, v) \<Rightarrow> case v of None \<Rightarrow> acc
      | Some zat \<Rightarrow>
          let key = to_lower name in
          if key \<in> set DRIPPABLE_POOLS then acc\<lparr>drippable := drippable acc + zat\<rparr>
          else if key = ''transparent'' then acc\<lparr>transparent_zat := transparent_zat acc + zat\<rparr>
          else if key \<notin> set KNOWN_NOT_DRIPPABLE \<and> zat > 0
          then acc\<lparr>unknown_pools := unknown_pools acc @ [(name, zat)]\<rparr> else acc)"

definition drippable_zat :: "(string \<times> int option) list \<Rightarrow> int" where
  "drippable_zat pools =
     drippable (foldl drippable_step \<lparr>drippable = 0, transparent_zat = 0, unknown_pools = []\<rparr> pools)"

subsection \<open>Errors\<close>

text \<open>One JSON-RPC round trip: the result, a JSON-RPC error, an HTTP status, or a failed fetch.\<close>

datatype 'r reply =
  Reply 'r | Rpc_Refused string int | Http_Status int string | Net_Error "string option" string

record js_error =
  je_code :: "string option"
  je_message :: string

fun rpc_error :: "string \<Rightarrow> 'r reply \<Rightarrow> js_error" where
  "rpc_error method' (Rpc_Refused msg code) =
     \<lparr>je_code = None, je_message = ''zallet RPC '' @ method' @ '': '' @ msg @ '' (code '' @ show_int code @ '')''\<rparr>"
| "rpc_error method' (Http_Status st text') =
     \<lparr>je_code = None, je_message = ''zallet RPC '' @ method' @ '' HTTP '' @ show_int st @ '' '' @ text'\<rparr>"
| "rpc_error method' (Net_Error code msg) = \<lparr>je_code = code, je_message = msg\<rparr>"
| "rpc_error method' (Reply r) = \<lparr>je_code = None, je_message = ''''\<rparr>"

definition SENDMANY :: string where "SENDMANY = ''zallet RPC z_sendmany''"

definition is_word_char :: "char \<Rightarrow> bool" where
  "is_word_char c = (is_digit c \<or> (CHR ''a'' \<le> c \<and> c \<le> CHR ''z'') \<or> (CHR ''A'' \<le> c \<and> c \<le> CHR ''Z'') \<or> c = CHR ''_'')"

text \<open>\<open>/^zallet RPC z_sendmany HTTP 4\d\d\b/\<close>.\<close>

definition http_4xx :: "string \<Rightarrow> bool" where
  "http_4xx msg =
     (starts_with msg (SENDMANY @ '' HTTP 4'') \<and>
      (case drop (length (SENDMANY @ '' HTTP 4'')) msg of
         a # b # r \<Rightarrow> is_digit a \<and> is_digit b \<and> (r = [] \<or> \<not> is_word_char (hd r))
       | _ \<Rightarrow> False))"

definition sendmany_failure_is_definite :: "js_error \<Rightarrow> bool" where
  "sendmany_failure_is_definite err =
     (starts_with (je_message err) (SENDMANY @ '': '')
      \<or> http_4xx (je_message err)
      \<or> je_code err \<in> {Some ''ECONNREFUSED'', Some ''ENOTFOUND'', Some ''EAI_AGAIN''})"

text \<open>\<open>/^zallet RPC z_sendmany: ([\s\S]*) \(code (-?\d+)\)$/\<close>, read from the end.\<close>

definition parse_code_suffix :: "string \<Rightarrow> (string \<times> int) option" where
  "parse_code_suffix s =
     (case rev s of
        [] \<Rightarrow> None
      | c # r \<Rightarrow>
          let ds = takeWhile is_digit r; rest = dropWhile is_digit r;
              neg = (rest \<noteq> [] \<and> hd rest = CHR ''-'');
              rest' = (if neg then tl rest else rest);
              v = digits_value (rev ds)
          in if c = CHR '')'' \<and> ds \<noteq> [] \<and> starts_with rest' (rev '' (code '')
             then Some (rev (drop 7 rest'), if neg then - v else v) else None)"

definition parse_sendmany_error :: "string \<Rightarrow> (string \<times> int) option" where
  "parse_sendmany_error msg =
     (if starts_with msg (SENDMANY @ '': '') then parse_code_suffix (drop (length SENDMANY + 2) msg) else None)"

definition RECIPIENT_REFUSALS :: "string list" where
  "RECIPIENT_REFUSALS =
     [''Invalid parameter, unknown address format'',
      ''Invalid parameter, duplicated recipient address'',
      ''Cannot send memo to transparent recipient'',
      ''Cannot send zero-valued output to transparent recipient'',
      ''This transaction would have transparent recipients'',
      ''This transaction would send to a transparent receiver of a unified address'',
      ''Could not send to the '',
      ''Could not send to a shielded receiver of a unified address'',
      ''Address is for '',
      ''Invalid Sapling payment address'',
      ''Invalid Orchard receiver in Unified Address'',
      ''Invalid Sapling receiver in Unified Address'']"

definition is_recipient_refusal :: "int \<Rightarrow> string \<Rightarrow> bool" where
  "is_recipient_refusal code message = (code = - 8 \<and> list_ex (starts_with message) RECIPIENT_REFUSALS)"

datatype unknown_cause =
  Reply_Lost | Still_Pending | Status_Unreadable | Result_Unreadable | Unexpected_Final | No_Txid

datatype send_error =
  Recipient_Refused string
| Outcome_Unknown string unknown_cause
| Amount_Drift int int
| Send_Failed js_error

record send_result =
  res_txid :: "string option"
  res_explorerUrl :: "string option"
  res_amountZat :: "int option"

subsection \<open>The wallet behind JSON-RPC\<close>

datatype op_status = Queued | Executing | Success | Failed_Op | Cancelled | Other_Status string

record op_result =
  or_status :: op_status
  or_txid :: "string option"
  or_error :: "string option"

record wallet_env =
  we_unlock :: "int \<times> unit reply"
  we_sendmany :: "string \<Rightarrow> int \<times> string reply"
  we_status :: "nat \<Rightarrow> int \<times> op_result option reply"
  we_result :: "int \<times> op_result option reply"

record zallet_config =
  z_address :: string
  z_passphrase :: string
  z_minConf :: int
  z_timings :: sender_timings

definition privacy_policy :: "address_kind \<Rightarrow> string" where
  "privacy_policy k = (case k of Transparent \<Rightarrow> ''AllowRevealedRecipients'' | Sapling \<Rightarrow> ''AllowRevealedAmounts''
     | Unified \<Rightarrow> ''FullPrivacy'')"

text \<open>\<open>JSON.stringify\<close> of a string without control characters.\<close>

definition json_string :: "string \<Rightarrow> string" where
  "json_string s =
     [CHR 0x22] @ concat (map (\<lambda>c. if c = CHR 0x22 \<or> c = CHR 0x5C then [CHR 0x5C, c] else [c]) s) @ [CHR 0x22]"

definition sendmany_params :: "zallet_config \<Rightarrow> address_kind \<Rightarrow> string \<Rightarrow> int \<Rightarrow> string" where
  "sendmany_params z kind toAddress amountZat =
     ''['' @ json_string (z_address z) @ '',[{'' @ json_string ''address'' @ '':'' @ json_string toAddress @ '',''
       @ json_string ''amount'' @ '':'' @ zat_to_zec_literal amountZat @ ''}],''
       @ show_int (z_minConf z) @ '',null,'' @ json_string (privacy_policy kind) @ '']''"

text \<open>\<open>pollStatus\<close>, with the number of attempts left; the sleep grows with the attempt.\<close>

fun poll_status :: "sender_timings \<Rightarrow> (nat \<Rightarrow> int \<times> op_result option reply) \<Rightarrow> nat \<Rightarrow> nat \<Rightarrow> int
    \<Rightarrow> op_result option option \<times> nat \<times> int" where
  "poll_status z st 0 n t = (None, n, t)"
| "poll_status z st (Suc left) n t =
     (let (took, r) = st n in
      case r of Reply s \<Rightarrow> (Some s, n + 1, t + took)
      | _ \<Rightarrow> poll_status z st left (n + 1) (t + took + pollMs z * (POLL_RETRIES - int left)))"

definition settled :: "op_result option \<Rightarrow> bool" where
  "settled s = (case s of None \<Rightarrow> False | Some d \<Rightarrow> or_status d \<noteq> Queued \<and> or_status d \<noteq> Executing)"

partial_function (option) await_loop ::
  "sender_timings \<Rightarrow> (nat \<Rightarrow> int \<times> op_result option reply) \<Rightarrow> int \<Rightarrow> nat \<Rightarrow> int
     \<Rightarrow> (unknown_cause option \<times> int) option" where
  "await_loop z st deadline n t =
     (case poll_status z st (nat POLL_RETRIES) n t of
        (None, n', t') \<Rightarrow> Some (Some Status_Unreadable, t')
      | (Some s, n', t') \<Rightarrow>
          if settled s then Some (None, t')
          else if t' > deadline then Some (Some Still_Pending, t')
          else await_loop z st deadline n' (t' + pollMs z))"

definition read_result :: "string \<Rightarrow> op_result option reply \<Rightarrow> send_error + string" where
  "read_result opid r =
     (case r of
        Reply None \<Rightarrow> Inl (Outcome_Unknown opid Unexpected_Final)
      | Reply (Some d) \<Rightarrow>
          if or_status d = Failed_Op \<or> or_status d = Cancelled
          then Inl (Send_Failed \<lparr>je_code = None, je_message = ''zallet send failed: '' @
            nullish (or_error d) (if or_status d = Failed_Op then ''failed'' else ''cancelled'')\<rparr>)
          else if or_status d \<noteq> Success then Inl (Outcome_Unknown opid Unexpected_Final)
          else (case or_txid d of
              None \<Rightarrow> Inl (Outcome_Unknown opid No_Txid)
            | Some txid \<Rightarrow> if txid = [] then Inl (Outcome_Unknown opid No_Txid) else Inr txid)
      | _ \<Rightarrow> Inl (Outcome_Unknown opid Result_Unreadable))"

definition await_operation ::
  "sender_timings \<Rightarrow> wallet_env \<Rightarrow> string \<Rightarrow> int \<Rightarrow> ((send_error + string) \<times> int) option" where
  "await_operation z env opid t =
     (case await_loop z (we_status env) (t + opTimeoutMs z) 0 t of
        None \<Rightarrow> None
      | Some (Some cause, t') \<Rightarrow> Some (Inl (Outcome_Unknown opid cause), t')
      | Some (None, t') \<Rightarrow>
          let (took, r) = we_result env in Some (read_result opid r, t' + took))"

definition sendmany_error :: "'r reply \<Rightarrow> send_error" where
  "sendmany_error r =
     (let err = rpc_error ''z_sendmany'' r in
      if sendmany_failure_is_definite err
      then (case parse_sendmany_error (je_message err) of
          Some (m, code) \<Rightarrow> if is_recipient_refusal code m then Recipient_Refused m else Send_Failed err
        | None \<Rightarrow> Send_Failed err)
      else Outcome_Unknown ''no-opid'' Reply_Lost)"

definition zallet_send ::
  "(string \<Rightarrow> string option) \<Rightarrow> zallet_config \<Rightarrow> wallet_env \<Rightarrow> address_kind \<Rightarrow> string \<Rightarrow> int \<Rightarrow> int
     \<Rightarrow> ((send_error + send_result) \<times> int) option" where
  "zallet_send explorer z env kind toAddress amountZat t0 =
     (if z_address z = [] then Some (Inl (Send_Failed \<lparr>je_code = None, je_message = ''FAUCET_ZALLET_ADDRESS''\<rparr>), t0)
      else
        let (unlock_took, unlock) = (if z_passphrase z = [] then (0, Reply ()) else we_unlock env);
            t1 = t0 + unlock_took
        in case unlock of
          Reply _ \<Rightarrow>
            (let (took, r) = we_sendmany env (sendmany_params z kind toAddress amountZat); t2 = t1 + took in
             case r of
               Reply opid \<Rightarrow>
                 (case await_operation (z_timings z) env opid t2 of
                    None \<Rightarrow> None
                  | Some (Inl e, t3) \<Rightarrow> Some (Inl e, t3)
                  | Some (Inr txid, t3) \<Rightarrow>
                      Some (Inr \<lparr>res_txid = Some txid, res_explorerUrl = explorer txid, res_amountZat = None\<rparr>, t3))
             | _ \<Rightarrow> Some (Inl (sendmany_error r), t2))
        | _ \<Rightarrow> Some (Inl (Send_Failed (rpc_error ''walletpassphrase'' unlock)), t1))"

subsection \<open>The feature net\<close>

definition contains_text :: "string \<Rightarrow> string \<Rightarrow> bool" where
  "contains_text s p = list_ex (\<lambda>k. starts_with (drop k s) p) [0..<Suc (length s)]"

datatype crosslink_reply =
  Cl_No_Reply string | Cl_Error string | Cl_Unusable_Amount | Cl_Amount rat

definition crosslink_send :: "int \<Rightarrow> crosslink_reply \<Rightarrow> send_error + send_result" where
  "crosslink_send expectedZat reply =
     (case reply of
        Cl_No_Reply why \<Rightarrow>
          Inl (Send_Failed \<lparr>je_code = None, je_message = ''crosslink rpc requestfaucetdonation: '' @ why\<rparr>)
      | Cl_Error msg \<Rightarrow>
          Inl (Send_Failed \<lparr>je_code = None, je_message =
            (if contains_text (to_lower msg) ''too busy'' then ''crosslink faucet is busy: ''
             else ''crosslink rpc requestfaucetdonation: '') @ msg\<rparr>)
      | Cl_Unusable_Amount \<Rightarrow>
          Inl (Send_Failed \<lparr>je_code = None, je_message = ''crosslink replied without a usable amount''\<rparr>)
      | Cl_Amount a \<Rightarrow>
          if of_int \<lfloor>a\<rfloor> \<noteq> a then Inl (Send_Failed \<lparr>je_code = None, je_message = ''RangeError''\<rparr>)
          else if \<lfloor>a\<rfloor> \<noteq> expectedZat then Inl (Amount_Drift expectedZat \<lfloor>a\<rfloor>)
          else Inr \<lparr>res_txid = None, res_explorerUrl = None, res_amountZat = Some \<lfloor>a\<rfloor>\<rparr>)"

subsection \<open>The choice of sender\<close>

datatype sender_name = Zallet_Sender | Real_Sender | Crosslink_Sender

definition get_sender :: "bool \<Rightarrow> sender_name" where
  "get_sender sender_is_zallet = (if sender_is_zallet then Zallet_Sender else Real_Sender)"

text \<open>\<open>getSenderFor\<close>: \<open>None\<close> is the exception for a disabled cTAZ.\<close>

definition get_sender_for :: "bool \<Rightarrow> bool \<Rightarrow> network \<Rightarrow> sender_name option" where
  "get_sender_for sender_is_zallet crosslink_enabled net =
     (if net \<noteq> Ctaz then Some (get_sender sender_is_zallet)
      else if \<not> crosslink_enabled then None else Some Crosslink_Sender)"

text \<open>\<open>CompositeRealSender\<close> over the two external senders.\<close>

definition composite_send ::
  "(string \<Rightarrow> int \<Rightarrow> send_error + send_result) \<Rightarrow> (string \<Rightarrow> int \<Rightarrow> send_error + send_result)
     \<Rightarrow> address_kind \<Rightarrow> string \<Rightarrow> int \<Rightarrow> send_error + send_result" where
  "composite_send realS t2z kind toAddress amountZat =
     (case kind of
        Unified \<Rightarrow> t2z toAddress amountZat
      | Sapling \<Rightarrow> Inl (Send_Failed \<lparr>je_code = None, je_message = ''Sapling-only addresses''\<rparr>)
      | Transparent \<Rightarrow> realS toAddress amountZat)"

definition safe_balance :: "'b reply \<Rightarrow> 'b option" where
  "safe_balance r = (case r of Reply b \<Rightarrow> Some b | _ \<Rightarrow> None)"

subsection \<open>Facts: numbers in text\<close>

lemma show_nat_nonempty [simp]: "show_nat n \<noteq> []"
  by (subst show_nat.simps) simp

lemma digits_value_show_nat: "digits_value (show_nat n) = int n"
proof (induction n rule: show_nat.induct)
  case (1 n)
  show ?case
  proof (cases "n < 10")
    case True
    then show ?thesis by (subst show_nat.simps) (simp add: digits_value_def)
  next
    case False
    with 1 show ?thesis
      by (subst show_nat.simps) (simp add: digits_value_snoc zmod_int zdiv_int)
  qed
qed

lemma strip_zeros_back: "\<exists>n. s = strip_trailing_zeros s @ replicate n (CHR ''0'')"
proof -
  let ?t = "takeWhile (\<lambda>c. c = CHR ''0'') (rev s)"
  have "\<forall>x\<in>set ?t. x = CHR ''0''" using set_takeWhileD [of _ "\<lambda>c. c = CHR ''0''" "rev s"] by blast
  then have "?t = replicate (length ?t) (CHR ''0'')" by (metis replicate_length_same)
  moreover have "rev s = ?t @ dropWhile (\<lambda>c. c = CHR ''0'') (rev s)" by simp
  then have "s = strip_trailing_zeros s @ rev ?t"
    unfolding strip_trailing_zeros_def by (metis rev_append rev_rev_ident)
  ultimately show ?thesis by (metis rev_replicate)
qed

lemma show_int_nonneg: "0 \<le> i \<Longrightarrow> show_int i = show_nat (nat i)"
  by (simp add: show_int_def)

lemma no_dot_digits: "CHR ''.'' \<notin> set (show_nat n)"
  using show_nat_is_digits [of n] by (auto simp: list_all_iff is_digit_def less_eq_char_def)

lemma literal_roundtrip:
  assumes "0 \<le> zat"
  shows "literal_zat (zat_to_zec_literal zat) = zat"
proof -
  define w where "w = zat div ZATOSHI_PER_TAZ"
  define f where "f = zat mod ZATOSHI_PER_TAZ"
  have f: "0 \<le> f" "f < 10 ^ 8" by (simp_all add: f_def ZATOSHI_PER_TAZ_def)
  have w: "0 \<le> w" using assms by (simp add: w_def ZATOSHI_PER_TAZ_def pos_imp_zdiv_nonneg_iff)
  have sum: "w * ZATOSHI_PER_TAZ + f = zat" by (simp add: w_def f_def)
  let ?p = "pad_start 8 (show_int f)"
  let ?s = "strip_trailing_zeros ?p"
  have len: "length (show_nat (nat f)) \<le> 8" using f by (intro length_show_nat) simp_all
  then have p: "digits_value ?p = f" "length ?p = 8"
    using f by (simp_all add: pad_start_def show_int_nonneg digits_value_append digits_value_zeros digits_value_show_nat)
  obtain n where n: "?p = ?s @ replicate n (CHR ''0'')" using strip_zeros_back by blast
  have ps: "length ?s + n = 8" using p(2) n by (metis length_append length_replicate)
  have v: "digits_value ?s * 10 ^ n = f"
    using p(1) n digits_value_append [of ?s "replicate n (CHR ''0'')"] by (simp add: digits_value_zeros)
  have nd: "CHR ''.'' \<notin> set ?p"
    using f no_dot_digits [of "nat f"] by (auto simp: pad_start_def show_int_nonneg)
  then have nds: "CHR ''.'' \<notin> set ?s" using n by (metis Un_iff set_append)
  have wd: "CHR ''.'' \<notin> set (show_int w)" using w no_dot_digits by (simp add: show_int_nonneg)
  have wv: "digits_value (show_int w) = w" using w by (simp add: show_int_nonneg digits_value_show_nat)
  show ?thesis
  proof (cases "?s = []")
    case True
    then have "f = 0" using v by (simp add: digits_value_def)
    then show ?thesis
      using True sum wv split_on_word [OF wd]
      by (simp add: zat_to_zec_literal_def literal_zat_def Let_def w_def [symmetric] f_def [symmetric])
  next
    case False
    have "split_on (CHR ''.'') (show_int w @ ''.'' @ ?s) = [show_int w, ?s]"
      using split_on_cons [OF wd] split_on_word [OF nds] by simp
    moreover have "8 - length ?s = n" using ps by simp
    ultimately show ?thesis
      using False sum wv v
      by (simp add: zat_to_zec_literal_def literal_zat_def Let_def w_def [symmetric] f_def [symmetric])
  qed
qed

subsection \<open>Facts: reading an error\<close>

lemma takeWhile_digits: "list_all is_digit ds \<Longrightarrow> r = [] \<or> \<not> is_digit (hd r) \<Longrightarrow> takeWhile is_digit (ds @ r) = ds \<and> dropWhile is_digit (ds @ r) = r"
  by (induction ds) (cases r; auto)+

lemma parse_code_suffix_show:
  "parse_code_suffix (m @ '' (code '' @ show_int c @ '')'') = Some (m, c)"
proof -
  define ds where "ds = rev (show_nat (nat \<bar>c\<bar>))"
  have ds: "list_all is_digit ds" "ds \<noteq> []" "digits_value (rev ds) = \<bar>c\<bar>"
    using show_nat_is_digits [of "nat \<bar>c\<bar>"] by (simp_all add: ds_def list_all_iff digits_value_show_nat)
  let ?sgn = "if c < 0 then ''-'' else ''''"
  let ?rest = "?sgn @ rev '' (code '' @ rev m"
  have "rev (show_int c) = ds @ ?sgn" by (simp add: show_int_def ds_def)
  define R where "R = ds @ ?rest"
  have "rev (m @ '' (code '' @ show_int c @ '')'') = CHR '')'' # R"
    using \<open>rev (show_int c) = ds @ ?sgn\<close> by (simp add: R_def)
  moreover have "\<not> is_digit (hd ?rest)" by (simp add: is_digit_def less_eq_char_def)
  then have "takeWhile is_digit R = ds" "dropWhile is_digit R = ?rest"
    unfolding R_def using takeWhile_digits [OF ds(1), of ?rest] by blast+
  ultimately show ?thesis
    unfolding parse_code_suffix_def
    using ds(2,3) by (cases "c < 0") (simp_all add: Let_def del: dropWhile_eq_Nil_conv)
qed

lemma parse_sendmany_error_refused:
  "parse_sendmany_error (je_message (rpc_error ''z_sendmany'' (Rpc_Refused m c))) = Some (m, c)"
proof -
  let ?t = "m @ '' (code '' @ show_int c @ '')''"
  have e: "je_message (rpc_error ''z_sendmany'' (Rpc_Refused m c)) = (SENDMANY @ '': '') @ ?t"
    by (simp add: SENDMANY_def)
  have "drop (length SENDMANY + 2) ((SENDMANY @ '': '') @ ?t) = ?t" by simp
  then show ?thesis
    unfolding e parse_sendmany_error_def using parse_code_suffix_show [of m c]
    by (simp only: starts_with_append if_True)
qed

text \<open>What makes a refused \<open>z_sendmany\<close> definite, on the replies themselves.\<close>

fun definite_reply :: "'r reply \<Rightarrow> bool" where
  "definite_reply (Reply r) = False"
| "definite_reply (Rpc_Refused m c) = True"
| "definite_reply (Http_Status st t) = (400 \<le> st \<and> st \<le> 499)"
| "definite_reply (Net_Error code m) = (code \<in> {Some ''ECONNREFUSED'', Some ''ENOTFOUND'', Some ''EAI_AGAIN''})"

text \<open>A failed fetch does not word its message like the client's own errors, and a status has three digits.\<close>

fun ordinary_reply :: "'r reply \<Rightarrow> bool" where
  "ordinary_reply (Net_Error code m) = (\<not> starts_with m SENDMANY)"
| "ordinary_reply (Http_Status st t) = (100 \<le> st \<and> st \<le> 599)"
| "ordinary_reply _ = True"

lemma starts_with_prefix: "starts_with s (p @ q) \<Longrightarrow> starts_with s p"
  by (auto simp: starts_with_iff)

lemma three_digits:
  assumes "100 \<le> st" and "st \<le> 599"
  shows "show_int st = [char_of (nat (st div 100) + 48), char_of (nat (st div 10 mod 10) + 48), char_of (nat (st mod 10) + 48)]"
proof -
  have n: "\<not> nat st < 10" "\<not> nat st div 10 < 10" "nat st div 10 div 10 < 10" using assms by simp_all
  have e: "nat st mod 10 = nat (st mod 10)" "nat st div 10 mod 10 = nat (st div 10 mod 10)"
    "nat st div 10 div 10 = nat (st div 100)"
    using assms by (simp_all add: nat_mod_distrib nat_div_distrib div_mult2_eq [symmetric])
  have "show_nat (nat st) = show_nat (nat st div 10) @ [char_of (nat st mod 10 + 48)]"
    using n(1) by (subst show_nat.simps) simp
  moreover have "show_nat (nat st div 10) = show_nat (nat st div 10 div 10) @ [char_of (nat st div 10 mod 10 + 48)]"
    using n(2) by (subst show_nat.simps) simp
  moreover have "show_nat (nat st div 10 div 10) = [char_of (nat st div 10 div 10 + 48)]"
    using n(3) by (subst show_nat.simps) simp
  ultimately show ?thesis using assms e by (simp add: show_int_nonneg)
qed

lemma http_4xx_status:
  assumes "100 \<le> st" and "st \<le> 599"
  shows "http_4xx (je_message (rpc_error ''z_sendmany'' (Http_Status st t))) \<longleftrightarrow> 400 \<le> st \<and> st \<le> 499"
proof -
  have m: "je_message (rpc_error ''z_sendmany'' (Http_Status st t)) =
      (SENDMANY @ '' HTTP '') @ show_int st @ '' '' @ t" by (simp add: SENDMANY_def)
  have d: "0 \<le> st div 100" "st div 100 < 10" "0 \<le> st div 10 mod 10" "st div 10 mod 10 < 10" "0 \<le> st mod 10" "st mod 10 < 10"
    using assms by simp_all
  have four: "char_of (nat (st div 100) + 48) = CHR ''4'' \<longleftrightarrow> st div 100 = 4"
  proof -
    have "CHR ''4'' = char_of (nat (st div 100) + 48) \<longleftrightarrow> of_char (CHR ''4'') = nat (st div 100) + (48::nat)"
      using digit_char(2) [of "nat (st div 100)"] d by (metis char_of_char nat_less_iff of_nat_numeral)
    then have "CHR ''4'' = char_of (nat (st div 100) + 48) \<longleftrightarrow> st div 100 = 4" using d by auto
    then show ?thesis by (simp only: eq_commute [of "CHR ''4''"])
  qed
  have dig: "is_digit (char_of (nat (st div 10 mod 10) + 48))" "is_digit (char_of (nat (st mod 10) + 48))"
    using d digit_char(1) [of "nat (st div 10 mod 10)"] digit_char(1) [of "nat (st mod 10)"] by simp_all
  have w: "\<not> is_word_char (CHR '' '')" by (simp add: is_word_char_def is_digit_def less_eq_char_def)
  have pre: "starts_with (p @ q) (p @ r) \<longleftrightarrow> starts_with q r" for p q r :: string
    by (auto simp: starts_with_iff)
  have sw: "starts_with ((SENDMANY @ '' HTTP '') @ show_int st @ '' '' @ t) (SENDMANY @ '' HTTP 4'') \<longleftrightarrow> st div 100 = 4"
    using pre [of "SENDMANY @ '' HTTP ''" "show_int st @ '' '' @ t" "''4''"] four
    by (simp add: three_digits [OF assms])
  have "drop (length (SENDMANY @ '' HTTP 4'')) ((SENDMANY @ '' HTTP '') @ show_int st @ '' '' @ t)
      = [char_of (nat (st div 10 mod 10) + 48), char_of (nat (st mod 10) + 48)] @ '' '' @ t"
    by (simp add: three_digits [OF assms])
  then have "http_4xx ((SENDMANY @ '' HTTP '') @ show_int st @ '' '' @ t) \<longleftrightarrow> st div 100 = 4"
    unfolding http_4xx_def sw using dig w by simp
  then show ?thesis unfolding m using assms by auto
qed

lemma definite_iff:
  assumes "ordinary_reply r"
  shows "sendmany_failure_is_definite (rpc_error ''z_sendmany'' r) \<longleftrightarrow> definite_reply r"
proof (cases r)
  case (Reply x)
  then show ?thesis by (simp add: sendmany_failure_is_definite_def http_4xx_def SENDMANY_def)
next
  case (Rpc_Refused m c)
  have "je_message (rpc_error ''z_sendmany'' (Rpc_Refused m c)) = (SENDMANY @ '': '') @ m @ '' (code '' @ show_int c @ '')''"
    by (simp add: SENDMANY_def)
  then have "starts_with (je_message (rpc_error ''z_sendmany'' r)) (SENDMANY @ '': '')"
    using Rpc_Refused by (metis starts_with_append)
  then show ?thesis using Rpc_Refused by (simp only: sendmany_failure_is_definite_def definite_reply.simps simp_thms)
next
  case (Http_Status st t)
  have "\<not> starts_with (je_message (rpc_error ''z_sendmany'' r)) (SENDMANY @ '': '')"
    using Http_Status by (simp add: SENDMANY_def)
  moreover have "je_code (rpc_error ''z_sendmany'' r) = None" using Http_Status by simp
  moreover have "http_4xx (je_message (rpc_error ''z_sendmany'' r)) \<longleftrightarrow> 400 \<le> st \<and> st \<le> 499"
    using Http_Status assms http_4xx_status by simp
  ultimately show ?thesis using Http_Status by (simp only: sendmany_failure_is_definite_def definite_reply.simps) simp
next
  case (Net_Error code m)
  then have n: "\<not> starts_with m SENDMANY" using assms by simp
  then have "\<not> starts_with m (SENDMANY @ '': '')" "\<not> http_4xx m"
    using starts_with_prefix [of m SENDMANY] by (auto simp: http_4xx_def)
  then show ?thesis using Net_Error by (simp add: sendmany_failure_is_definite_def)
qed

subsection \<open>Facts: the time a send takes\<close>

text \<open>Every call is answered or aborted within \<open>rpcTimeoutMs\<close>.\<close>

definition timely :: "sender_timings \<Rightarrow> wallet_env \<Rightarrow> bool" where
  "timely z env =
     ((\<forall>n. 0 \<le> fst (we_status env n) \<and> fst (we_status env n) \<le> rpcTimeoutMs z)
      \<and> 0 \<le> fst (we_unlock env) \<and> fst (we_unlock env) \<le> rpcTimeoutMs z
      \<and> (\<forall>p. 0 \<le> fst (we_sendmany env p) \<and> fst (we_sendmany env p) \<le> rpcTimeoutMs z)
      \<and> 0 \<le> fst (we_result env) \<and> fst (we_result env) \<le> rpcTimeoutMs z)"

lemma poll_status_time:
  assumes "\<forall>n. 0 \<le> fst (st n) \<and> fst (st n) \<le> rpcTimeoutMs z" and "0 \<le> pollMs z"
    and "poll_status z st (nat POLL_RETRIES) n t = (s, n', t')"
  shows "t \<le> t' \<and> t' \<le> t + 3 * rpcTimeoutMs z + (if s = None then 6 else 3) * pollMs z"
proof -
  have three: "nat POLL_RETRIES = Suc (Suc (Suc 0))" by (simp add: POLL_RETRIES_def)
  obtain a ra b rb c rc where n: "st n = (a, ra)" "st (Suc n) = (b, rb)" "st (Suc (Suc n)) = (c, rc)"
    by (metis prod.exhaust)
  have "0 \<le> a" "a \<le> rpcTimeoutMs z" "0 \<le> b" "b \<le> rpcTimeoutMs z" "0 \<le> c" "c \<le> rpcTimeoutMs z"
    using assms(1) n by (metis fst_conv)+
  then show ?thesis
    using assms(2,3) n unfolding three
    by (auto simp: POLL_RETRIES_def Let_def split: reply.splits)
qed

lemma await_loop_returns:
  assumes "\<forall>n. 0 \<le> fst (st n) \<and> fst (st n) \<le> rpcTimeoutMs z" and "0 < pollMs z"
    and "t \<le> deadline + pollMs z"
  shows "\<exists>c t'. await_loop z st deadline n t = Some (c, t') \<and> t \<le> t' \<and>
    t' \<le> deadline + pollMs z + 3 * rpcTimeoutMs z + (if c = Some Status_Unreadable then 6 else 3) * pollMs z"
  using assms(3)
proof (induction "nat (deadline + pollMs z - t)" arbitrary: n t rule: less_induct)
  case less
  obtain s n' t' where p: "poll_status z st (nat POLL_RETRIES) n t = (s, n', t')" by (metis prod_cases3)
  note b = poll_status_time [OF assms(1) _ p]
  show ?case
  proof (cases s)
    case None
    then show ?thesis using p b assms(2) less.prems by (subst await_loop.simps) simp
  next
    case (Some d)
    show ?thesis
    proof (cases "settled d \<or> t' > deadline")
      case True
      then show ?thesis using Some p b assms(2) less.prems by (subst await_loop.simps) auto
    next
      case False
      have "nat (deadline + pollMs z - (t' + pollMs z)) < nat (deadline + pollMs z - t)"
        using False b assms(2) Some by simp
      from less.hyps [OF this, of n'] False obtain c t'' where
        "await_loop z st deadline n' (t' + pollMs z) = Some (c, t'')" "t' + pollMs z \<le> t''"
        "t'' \<le> deadline + pollMs z + 3 * rpcTimeoutMs z + (if c = Some Status_Unreadable then 6 else 3) * pollMs z"
        by auto
      then show ?thesis using False Some p b assms(2) by (subst await_loop.simps) auto
    qed
  qed
qed

text \<open>The true worst case: the status calls that all fail sleep once more after the last of them.\<close>

definition true_worst_case_ms :: "sender_timings \<Rightarrow> int" where
  "true_worst_case_ms z =
     max (opTimeoutMs z + 6 * rpcTimeoutMs z + 4 * pollMs z) (opTimeoutMs z + 5 * rpcTimeoutMs z + 7 * pollMs z)"

lemma await_operation_time:
  assumes "timely z env" and "0 < pollMs z" and "0 \<le> opTimeoutMs z"
  shows "\<exists>r t'. await_operation z env opid t = Some (r, t') \<and> t \<le> t'
    \<and> t' \<le> t + true_worst_case_ms z - 2 * rpcTimeoutMs z"
proof -
  have st: "\<forall>n. 0 \<le> fst (we_status env n) \<and> fst (we_status env n) \<le> rpcTimeoutMs z"
    using assms(1) by (simp add: timely_def)
  obtain c t' where l: "await_loop z (we_status env) (t + opTimeoutMs z) 0 t = Some (c, t')" "t \<le> t'"
    "t' \<le> t + opTimeoutMs z + pollMs z + 3 * rpcTimeoutMs z + (if c = Some Status_Unreadable then 6 else 3) * pollMs z"
    using await_loop_returns [OF st assms(2), of t "t + opTimeoutMs z" 0] assms(2,3) by auto
  obtain took r where r: "we_result env = (took, r)" by fastforce
  have rb: "0 \<le> took" "took \<le> rpcTimeoutMs z" using assms(1) r by (auto simp: timely_def)
  have w: "opTimeoutMs z + 6 * rpcTimeoutMs z + 4 * pollMs z \<le> true_worst_case_ms z"
    "opTimeoutMs z + 5 * rpcTimeoutMs z + 7 * pollMs z \<le> true_worst_case_ms z"
    by (simp_all add: true_worst_case_ms_def)
  show ?thesis
  proof (cases c)
    case None
    with l r rb w show ?thesis by (simp add: await_operation_def)
  next
    case (Some x)
    with l rb w assms(2) show ?thesis by (auto simp: await_operation_def split: if_splits)
  qed
qed

lemma zallet_send_time:
  assumes "timely (z_timings z) env" and "0 < pollMs (z_timings z)" and "0 \<le> opTimeoutMs (z_timings z)"
  shows "\<exists>r t. zallet_send explorer z env kind to' amt t0 = Some (r, t) \<and> t0 \<le> t
    \<and> t \<le> t0 + true_worst_case_ms (z_timings z)"
proof -
  let ?z = "z_timings z"
  obtain a u where u: "(if z_passphrase z = [] then (0, Reply ()) else we_unlock env) = (a, u)" by fastforce
  obtain b s where s: "we_sendmany env (sendmany_params z kind to' amt) = (b, s)" by fastforce
  have rpc: "0 \<le> rpcTimeoutMs ?z" using assms(1) unfolding timely_def by (meson order_trans)
  have ab: "0 \<le> a" "a \<le> rpcTimeoutMs ?z" "0 \<le> b" "b \<le> rpcTimeoutMs ?z"
    using assms(1) u s rpc unfolding timely_def by (auto split: if_splits dest: spec [of _ "sendmany_params z kind to' amt"])
  have w: "2 * rpcTimeoutMs ?z \<le> true_worst_case_ms ?z"
    using rpc assms(2,3) unfolding true_worst_case_ms_def by linarith
  show ?thesis
  proof (cases "z_address z = [] \<or> \<not> (\<exists>x. u = Reply x) \<or> \<not> (\<exists>x. s = Reply x)")
    case True
    then show ?thesis
      using u s ab w by (cases u; cases s) (auto simp: zallet_send_def Let_def)
  next
    case False
    then obtain opid where o': "s = Reply opid" and uu: "u = Reply ()" by auto
    obtain r t' where "await_operation ?z env opid (t0 + a + b) = Some (r, t')" "t0 + a + b \<le> t'"
      "t' \<le> t0 + a + b + true_worst_case_ms ?z - 2 * rpcTimeoutMs ?z"
      using await_operation_time [OF assms] by blast
    then show ?thesis
      using False u s ab o' uu by (cases r) (auto simp: zallet_send_def Let_def)
  qed
qed

lemma drippable_fold:
  "drippable (foldl drippable_step acc pools) = drippable acc
     + sum_list (map (\<lambda>(n, v). if to_lower n \<in> set DRIPPABLE_POOLS then nullish v 0 else 0) pools)"
proof (induction pools arbitrary: acc)
  case Nil
  then show ?case by simp
next
  case (Cons p pools)
  obtain n v where p: "p = (n, v)" by fastforce
  have "drippable (drippable_step acc p) = drippable acc + (if to_lower n \<in> set DRIPPABLE_POOLS then nullish v 0 else 0)"
    by (cases v) (simp_all add: p drippable_step_def Let_def)
  with Cons show ?case by (simp add: p)
qed

lemma recipient_refusal_reply:
  assumes "sendmany_error s = Recipient_Refused m" and ord: "ordinary_reply s" and "\<forall>x. s \<noteq> Reply x"
  shows "s = Rpc_Refused m (- 8)"
proof (cases s)
  case (Rpc_Refused m' c)
  let ?err = "rpc_error ''z_sendmany'' s"
  have "parse_sendmany_error (je_message ?err) = Some (m', c)"
    using Rpc_Refused parse_sendmany_error_refused [of m' c] by (simp only:)
  then have "sendmany_error s = (if sendmany_failure_is_definite ?err
      then if is_recipient_refusal c m' then Recipient_Refused m' else Send_Failed ?err
      else Outcome_Unknown ''no-opid'' Reply_Lost)"
    by (simp only: sendmany_error_def Let_def option.case prod.case)
  then have "is_recipient_refusal c m' \<and> m' = m" using assms(1) by (auto split: if_splits)
  then show ?thesis using Rpc_Refused by (simp add: is_recipient_refusal_def)
next
  case (Http_Status st t')
  have "\<not> starts_with (je_message (rpc_error ''z_sendmany'' s)) (SENDMANY @ '': '')"
    using Http_Status by (simp add: SENDMANY_def)
  then show ?thesis
    using assms(1) by (auto simp: sendmany_error_def Let_def parse_sendmany_error_def simp del: rpc_error.simps
        split: if_splits)
next
  case (Net_Error code m')
  then have "\<not> starts_with m' (SENDMANY @ '': '')" using ord starts_with_prefix by auto
  then show ?thesis
    using assms(1) Net_Error by (auto simp: sendmany_error_def Let_def parse_sendmany_error_def split: if_splits)
next
  case (Reply x)
  with assms(3) show ?thesis by simp
qed

lemma failed_operation:
  "read_result opid r = Inl e \<Longrightarrow> \<forall>opid cause. e \<noteq> Outcome_Unknown opid cause \<Longrightarrow>
     (\<exists>d. r = Reply (Some d) \<and> (or_status d = Failed_Op \<or> or_status d = Cancelled)) \<and> (\<forall>m. e \<noteq> Recipient_Refused m)"
  by (auto simp: read_result_def split: reply.splits option.splits if_splits)

subsection \<open>Properties\<close>

text \<open>
  The amount the wallet is asked to pay is exact. The decimal literal written into the request
  for a non-negative amount in zatoshi denotes, digit by digit, that amount.
\<close>

theorem amount_literal_is_exact:
  assumes "0 \<le> zat"
  shows "literal_zat (zat_to_zec_literal zat) = zat"
  using assms by (rule literal_roundtrip)

theorem amount_literal_is_exact_witness: "literal_zat (zat_to_zec_literal 50000001) = 50000001"
  by (rule amount_literal_is_exact) simp

text \<open>
  Only pools a shielded drip can spend are counted. The drippable total is the sum of the values
  of the ironwood, orchard and sapling pools, under any capitalisation and in any order; transparent,
  sprout and unrecognised pools add nothing.
\<close>

theorem drippable_counts_spendable_pools:
  "drippable_zat pools =
     sum_list (map (\<lambda>(n, v). nullish v 0)
       (filter (\<lambda>(n, v). to_lower n \<in> {''ironwood'', ''orchard'', ''sapling''}) pools))"
proof -
  have "sum_list (map (\<lambda>(n, v). if to_lower n \<in> set DRIPPABLE_POOLS then nullish v 0 else 0) pools)
      = sum_list (map (\<lambda>(n, v). nullish v 0) (filter (\<lambda>(n, v). to_lower n \<in> set DRIPPABLE_POOLS) pools))"
    by (induction pools) auto
  moreover have "set DRIPPABLE_POOLS = {''ironwood'', ''orchard'', ''sapling''}"
    unfolding DRIPPABLE_POOLS_def by simp
  ultimately show ?thesis by (simp only: drippable_zat_def drippable_fold) simp
qed

text \<open>
  C13: How long a send lasts. When every call to the wallet is answered or aborted within the call
  timeout, a send always returns, with an answer or an error, at most \<open>senderWorstCaseMs\<close> after it
  began where the poll interval is not longer than the call timeout, as in the stock configuration; a
  longer poll interval can add no more than what it exceeds the timeout by.
\<close>

theorem send_ends_within_worst_case:
  assumes "timely (z_timings z) env" and "0 < pollMs (z_timings z)" and "0 \<le> opTimeoutMs (z_timings z)"
  shows "\<exists>r t. zallet_send explorer z env kind to' amt t0 = Some (r, t) \<and> t0 \<le> t
    \<and> t \<le> t0 + sender_worst_case_ms (z_timings z) + max 0 (pollMs (z_timings z) - rpcTimeoutMs (z_timings z))"
proof -
  obtain r t where "zallet_send explorer z env kind to' amt t0 = Some (r, t)" "t0 \<le> t"
    "t \<le> t0 + true_worst_case_ms (z_timings z)"
    using zallet_send_time [OF assms] by blast
  moreover have "true_worst_case_ms (z_timings z)
      \<le> sender_worst_case_ms (z_timings z) + max 0 (pollMs (z_timings z) - rpcTimeoutMs (z_timings z))"
    using assms(2) by (simp add: true_worst_case_ms_def sender_worst_case_ms_eq)
  ultimately show ?thesis by fastforce
qed

definition ex_zallet :: zallet_config where
  "ex_zallet = \<lparr>z_address = ''utest1x'', z_passphrase = ''pw'', z_minConf = 1, z_timings = stock_timings\<rparr>"

definition ex_wallet :: wallet_env where
  "ex_wallet = \<lparr>we_unlock = (1000, Reply ()), we_sendmany = \<lambda>_. (1000, Reply ''opid-1''),
     we_status = \<lambda>n. if n < 3 then (if n = 0 then 1000 else 0, Reply (Some \<lparr>or_status = Executing, or_txid = None, or_error = None\<rparr>))
       else (1000, Net_Error None ''TimeoutError''),
     we_result = (0, Reply None)\<rparr>"

theorem send_ends_within_worst_case_witness:
  "\<exists>r t. zallet_send (\<lambda>_. None) ex_zallet ex_wallet Unified ''utest1y'' 50000000 7 = Some (r, t) \<and> 7 \<le> t \<and> t \<le> 7 + 279000"
  using send_ends_within_worst_case [of ex_zallet ex_wallet "\<lambda>_. None" Unified "''utest1y''" 50000000 7]
  by (simp add: ex_zallet_def stock_worst_case timely_def ex_wallet_def)
    (simp add: stock_timings_def zallet_timings_def)

definition slow_zallet :: zallet_config where
  "slow_zallet = ex_zallet\<lparr>z_timings := \<lparr>opTimeoutMs = 5000, rpcTimeoutMs = 1000, pollMs = 2000\<rparr>\<rparr>"

text \<open>
  With a poll interval above the call timeout the budget is too small. At a five-second operation
  timeout, one-second calls and two-second polls, which the configuration allows, a send whose calls
  all keep their timeout ends a second after its computed worst case.
\<close>

theorem worst_case_can_be_exceeded:
  "timely (z_timings slow_zallet) ex_wallet
   \<and> sender_worst_case_ms (z_timings slow_zallet) = 23000
   \<and> zallet_send (\<lambda>_. None) slow_zallet ex_wallet Unified ''utest1y'' 50000000 0
       = Some (Inl (Outcome_Unknown ''opid-1'' Status_Unreadable), 24000)"
proof (intro conjI)
  show "timely (z_timings slow_zallet) ex_wallet"
    by (simp add: timely_def ex_wallet_def slow_zallet_def)
  show "sender_worst_case_ms (z_timings slow_zallet) = 23000"
    by (simp add: sender_worst_case_ms_eq slow_zallet_def)
  let ?z = "\<lparr>opTimeoutMs = 5000, rpcTimeoutMs = 1000, pollMs = 2000\<rparr>"
  have r: "poll_status z st (nat POLL_RETRIES) n t = poll_status z st (Suc (Suc (Suc 0))) n t" for z st n t
    by (simp add: POLL_RETRIES_def numeral_3_eq_3)
  note unroll = POLL_RETRIES_def settled_def Let_def ex_wallet_def
  have "await_loop ?z (we_status ex_wallet) 7000 3 9000 = Some (Some Status_Unreadable, 24000)"
    by (subst await_loop.simps, subst r) (simp add: unroll)
  then have "await_loop ?z (we_status ex_wallet) 7000 2 7000 = Some (Some Status_Unreadable, 24000)"
    by (subst await_loop.simps, subst r) (simp add: unroll numeral_3_eq_3 numeral_2_eq_2)
  then have "await_loop ?z (we_status ex_wallet) 7000 1 5000 = Some (Some Status_Unreadable, 24000)"
    by (subst await_loop.simps, subst r) (simp add: unroll numeral_2_eq_2)
  then have "await_loop ?z (we_status ex_wallet) 7000 0 2000 = Some (Some Status_Unreadable, 24000)"
    by (subst await_loop.simps, subst r) (simp add: unroll)
  then have "await_operation ?z ex_wallet ''opid-1'' 2000
      = Some (Inl (Outcome_Unknown ''opid-1'' Status_Unreadable), 24000)"
    by (simp add: await_operation_def)
  moreover have "we_unlock ex_wallet = (1000, Reply ())" "\<forall>p. we_sendmany ex_wallet p = (1000, Reply ''opid-1'')"
    by (simp_all add: ex_wallet_def)
  ultimately show "zallet_send (\<lambda>_. None) slow_zallet ex_wallet Unified ''utest1y'' 50000000 0
       = Some (Inl (Outcome_Unknown ''opid-1'' Status_Unreadable), 24000)"
    by (simp add: zallet_send_def slow_zallet_def ex_zallet_def Let_def)
qed

text \<open>
  C12: A definite failure did not pay. When a send fails with an error other than an unknown outcome,
  either the request was never made (no wallet address, the unlock failed), or the wallet answered
  \<open>z_sendmany\<close> with an error, a 4xx status, or the connection was never made, or the wallet itself
  reported the finished operation failed or cancelled. A refusal blamed on the recipient comes from
  an answer to \<open>z_sendmany\<close> with code -8.
\<close>

theorem definite_failure_did_not_pay:
  assumes "zallet_send explorer z env kind to' amt t0 = Some (Inl e, t)"
    and "\<forall>opid cause. e \<noteq> Outcome_Unknown opid cause"
    and "ordinary_reply (snd (we_sendmany env (sendmany_params z kind to' amt)))"
  shows "(z_address z = [] \<or> (z_passphrase z \<noteq> [] \<and> (\<forall>x. snd (we_unlock env) \<noteq> Reply x))
      \<or> definite_reply (snd (we_sendmany env (sendmany_params z kind to' amt)))
      \<or> (\<exists>d. snd (we_result env) = Reply (Some d) \<and> (or_status d = Failed_Op \<or> or_status d = Cancelled)))
    \<and> (\<forall>m. e = Recipient_Refused m \<longrightarrow>
        snd (we_sendmany env (sendmany_params z kind to' amt)) = Rpc_Refused m (- 8))"
proof -
  obtain a u where u: "(if z_passphrase z = [] then (0, Reply ()) else we_unlock env) = (a, u)" by fastforce
  obtain b s where s: "we_sendmany env (sendmany_params z kind to' amt) = (b, s)" by fastforce
  consider (addr) "z_address z = []" | (unlock) "z_address z \<noteq> []" "\<forall>x. u \<noteq> Reply x"
    | (refused) "z_address z \<noteq> []" "u = Reply ()" "\<forall>x. s \<noteq> Reply x"
    | (ran) opid where "z_address z \<noteq> []" "u = Reply ()" "s = Reply opid"
    by (metis (full_types) old.unit.exhaust)
  then show ?thesis
  proof cases
    case addr
    with assms(1) show ?thesis by (auto simp: zallet_send_def)
  next
    case unlock
    then have "z_passphrase z \<noteq> [] \<and> snd (we_unlock env) = u" using u by (auto split: if_splits)
    moreover have "e = Send_Failed (rpc_error ''walletpassphrase'' u)"
      using assms(1) unlock u by (cases u) (auto simp: zallet_send_def Let_def)
    ultimately show ?thesis using unlock by auto
  next
    case refused
    have e: "e = sendmany_error s"
      using assms(1) refused u s by (cases s) (auto simp: zallet_send_def Let_def)
    have ord: "ordinary_reply s" using assms(3) s by simp
    have "definite_reply s"
      using e assms(2) definite_iff [OF ord] by (auto simp: sendmany_error_def Let_def split: if_splits)
    moreover have "s = Rpc_Refused m (- 8)" if "e = Recipient_Refused m" for m
      using recipient_refusal_reply [OF _ ord refused(3)] e that by blast
    ultimately show ?thesis using s by simp
  next
    case ran
    obtain took r where r: "we_result env = (took, r)" by fastforce
    have "\<exists>t'. await_operation (z_timings z) env opid (t0 + a + b) = Some (Inl e, t')"
      using assms(1) ran u s by (auto simp: zallet_send_def Let_def split: option.splits sum.splits)
    then have "read_result opid r = Inl e"
      using assms(2) r by (auto simp: await_operation_def split: option.splits prod.splits)
    from failed_operation [OF this assms(2)]
    show ?thesis using r by auto
  qed
qed

definition refusing_wallet :: wallet_env where
  "refusing_wallet = ex_wallet\<lparr>we_sendmany := \<lambda>_. (20, Rpc_Refused ''Address is for main'' (- 8))\<rparr>"

theorem definite_failure_did_not_pay_witness:
  "snd (we_sendmany refusing_wallet (sendmany_params ex_zallet Unified ''u1'' 5)) = Rpc_Refused ''Address is for main'' (- 8)"
proof -
  have "zallet_send (\<lambda>_. None) ex_zallet refusing_wallet Unified ''u1'' 5 0
      = Some (Inl (Recipient_Refused ''Address is for main''), 1020)" by code_simp
  from definite_failure_did_not_pay [OF this] show ?thesis by (simp add: refusing_wallet_def)
qed

end
