(* ===== verification/Aged_Cell.thy ===== *)
theory Aged_Cell
  imports Prelude
begin

text \<open>
  The shape shared by the process-wide caches of the server: a cell holding the last value read and its
  time, a refresh that may fail and then leaves the cell alone, and a reader that gives the value out
  only up to a maximal age. Providers: the wallet status of the page, the feature net's node state and
  the external tip.
\<close>

locale aged_cell =
  fixes none :: 'c and start :: "'c \<Rightarrow> 'c" and finish :: "'v option \<Rightarrow> int \<Rightarrow> 'c \<Rightarrow> 'c"
    and give :: "int \<Rightarrow> 'c \<Rightarrow> 'v option" and max_age :: int
  assumes give_none: "give now none = None"
    and give_start: "give now (start c) = give now c"
    and give_failed: "give now (finish None a c) = give now c"
    and give_put: "0 < a \<Longrightarrow> give now (finish (Some v) a c) = (if now - a > max_age then None else Some v)"
begin

definition refreshed :: "('v option \<times> int) list \<Rightarrow> 'c" where
  "refreshed rs = foldl (\<lambda>c (v, a). finish v a (start c)) none rs"

lemma refreshed_snoc: "refreshed (rs @ [(v, a)]) = finish v a (start (refreshed rs))"
  by (simp add: refreshed_def)

text \<open>What is given out is the value of the last refresh that read one, and it is not too old.\<close>

lemma given_is_last_read:
  assumes "give now (refreshed rs) = Some v" and "\<forall>(x, a)\<in>set rs. 0 < a"
  shows "\<exists>before a after. rs = before @ (Some v, a) # after \<and> (\<forall>(x, b)\<in>set after. x = None) \<and> now - a \<le> max_age"
  using assms
proof (induction rs rule: rev_induct)
  case Nil
  then show ?case by (simp add: refreshed_def give_none)
next
  case (snoc r rs)
  obtain x a where r: "r = (x, a)" by fastforce
  show ?case
  proof (cases x)
    case None
    with snoc r obtain before b after where "rs = before @ (Some v, b) # after"
      "\<forall>(x, c)\<in>set after. x = None" "now - b \<le> max_age"
      by (auto simp: refreshed_snoc give_failed give_start)
    with None r show ?thesis
      by (intro exI [of _ before] exI [of _ b] exI [of _ "after @ [(None, a)]"]) auto
  next
    case (Some y)
    with snoc.prems r have "y = v" "now - a \<le> max_age"
      by (auto simp: refreshed_snoc give_put split: if_splits)
    with Some r show ?thesis by (intro exI [of _ rs] exI [of _ a] exI [of _ "[]"]) auto
  qed
qed

lemma given_whenever_fresh:
  assumes "0 < a" and "now - a \<le> max_age" and "\<forall>(x, b)\<in>set after. x = None"
  shows "give now (refreshed (before @ (Some v, a) # after)) = Some v"
  using assms
proof (induction after rule: rev_induct)
  case Nil
  then show ?case by (simp add: refreshed_snoc give_put)
next
  case (snoc r after)
  obtain b where "r = (None, b)" using snoc.prems(3) by (cases r) auto
  with snoc show ?case
    using refreshed_snoc [of "before @ (Some v, a) # after" None b] by (simp add: give_failed give_start)
qed

end

end
