(* ===== verification/Crosslink.thy ===== *)
theory Crosslink
  imports External_Tip Aged_Cell
begin

text \<open>
  The readiness of the feature net's node: \<open>src/src/lib/crosslink/recency.ts\<close> (the node's own view of
  its finality layer), \<open>statusFile.ts\<close> (the fallback a cron job writes), \<open>read.ts\<close> (which of the two
  answers) and \<open>cache.ts\<close> (the page's copy). JSON numbers are integers here; a field that is not a
  finite number is \<open>None\<close>. Times are whole milliseconds unless named seconds.
\<close>

subsection \<open>recency.ts\<close>

datatype ctaz_state = Ready | Behind | Stale | Not_Activated | Cannot_Verify

record recency_status =
  now_utc :: "int option"
  my_height :: "int option"
  my_round :: "int option"
  my_locked_round :: "int option"
  finalizer_count :: "int option"

record ctaz_reading =
  cz_state :: ctaz_state
  cz_height :: "int option"
  cz_roundLag :: "int option"
  cz_ageSeconds :: "int option"
  cz_finalizers :: "int option"

definition UNVERIFIABLE :: ctaz_reading where
  "UNVERIFIABLE = \<lparr>cz_state = Cannot_Verify, cz_height = None, cz_roundLag = None, cz_ageSeconds = None,
     cz_finalizers = None\<rparr>"

definition MAX_AGE_SECONDS :: int where "MAX_AGE_SECONDS = 120"
definition MAX_ROUND_LAG :: int where "MAX_ROUND_LAG = 2"
definition MAX_SYNC_LAG_BLOCKS :: int where "MAX_SYNC_LAG_BLOCKS = 2"

definition ctaz_reading_for :: "recency_status option \<Rightarrow> int \<Rightarrow> ctaz_reading" where
  "ctaz_reading_for raw nowMs =
     (case raw of None \<Rightarrow> UNVERIFIABLE
      | Some r \<Rightarrow>
        (case (now_utc r, my_height r, my_round r, my_locked_round r) of
           (Some nowUtc, Some height, Some round', Some locked) \<Rightarrow>
             let age = nowMs div 1000 - nowUtc;
                 roundLag = round' - locked;
                 facts = (\<lambda>st. \<lparr>cz_state = st, cz_height = Some height, cz_roundLag = Some roundLag,
                    cz_ageSeconds = Some age, cz_finalizers = finalizer_count r\<rparr>)
             in if age < 0 then UNVERIFIABLE
                else if age > MAX_AGE_SECONDS then facts Stale
                else if roundLag < 0
                then UNVERIFIABLE\<lparr>cz_height := Some height, cz_ageSeconds := Some age, cz_finalizers := finalizer_count r\<rparr>
                else if roundLag > MAX_ROUND_LAG then facts Behind
                else if finalizer_count r = Some 0 then facts Not_Activated
                else facts Ready
         | _ \<Rightarrow> UNVERIFIABLE))"

definition not_activated :: ctaz_reading where
  "not_activated = UNVERIFIABLE\<lparr>cz_state := Not_Activated\<rparr>"

datatype ctaz_source = From_File | From_Rpc | From_None

definition can_serve_ctaz :: "ctaz_state \<Rightarrow> int option \<Rightarrow> int option \<Rightarrow> ctaz_source \<Rightarrow> bool" where
  "can_serve_ctaz st blocks tip source =
     (if source \<noteq> From_Rpc then False
      else if st \<noteq> Ready then False
      else case (blocks, tip) of (Some b, Some t) \<Rightarrow> t - b \<le> MAX_SYNC_LAG_BLOCKS | _ \<Rightarrow> False)"

subsection \<open>statusFile.ts\<close>

record ctaz_status_file =
  sf_readable :: bool
  sf_at :: "int option"
  sf_blocks :: "int option"
  sf_tip :: "int option"
  sf_syncPercent :: "rat option"
  sf_recency :: "recency_status option"

definition STATUS_STALE_AFTER_MS :: int where "STATUS_STALE_AFTER_MS = 3 * 60000"

definition status_is_stale :: "ctaz_status_file \<Rightarrow> int \<Rightarrow> bool" where
  "status_is_stale f nowMs =
     (case sf_at f of None \<Rightarrow> True
      | Some a \<Rightarrow> nowMs - a < 0 \<or> nowMs - a > STATUS_STALE_AFTER_MS)"

subsection \<open>read.ts\<close>

text \<open>The node's answers: no reply, an error message, or a result.\<close>

datatype 'r node_reply = No_Reply | Node_Error bool | Node_Result 'r

record ctaz_node_state =
  cn_reading :: ctaz_reading
  cn_syncPercent :: "rat option"
  cn_blocks :: "int option"
  cn_tip :: "int option"
  cn_source :: ctaz_source

text \<open>\<open>readCtazRecency\<close>; an error carries whether its message says the layer is not activated.\<close>

definition read_ctaz_recency :: "recency_status option node_reply \<Rightarrow> int \<Rightarrow> ctaz_reading" where
  "read_ctaz_recency reply atReply =
     (case reply of
        No_Reply \<Rightarrow> ctaz_reading_for None atReply
      | Node_Error says_not_activated \<Rightarrow> if says_not_activated then not_activated else ctaz_reading_for None atReply
      | Node_Result r \<Rightarrow> ctaz_reading_for r atReply)"

record chain_info =
  ci_blocks :: "int option"
  ci_estimatedheight :: "int option"
  ci_headers :: "int option"

definition read_ctaz_info :: "chain_info node_reply \<Rightarrow> int option \<times> int option" where
  "read_ctaz_info reply =
     (case reply of
        Node_Result r \<Rightarrow>
          (ci_blocks r, case ci_estimatedheight r of Some h \<Rightarrow> Some h | None \<Rightarrow> ci_headers r)
      | _ \<Rightarrow> (None, None))"

definition sync_percent :: "int option \<Rightarrow> int option \<Rightarrow> rat option" where
  "sync_percent blocks tip =
     (case (blocks, tip) of
        (Some b, Some t) \<Rightarrow>
          if 0 < t then Some (min 100 (of_int (js_round (of_int b / of_int t * 1000)) / 10)) else None
      | _ \<Rightarrow> None)"

definition read_ctaz_node_state ::
  "bool \<Rightarrow> recency_status option node_reply \<Rightarrow> int \<Rightarrow> chain_info node_reply \<Rightarrow> ctaz_status_file \<Rightarrow> int
     \<Rightarrow> ctaz_node_state" where
  "read_ctaz_node_state enabled recency atReply info f nowMs =
     (let none = (\<lambda>src. \<lparr>cn_reading = ctaz_reading_for None nowMs, cn_syncPercent = None, cn_blocks = None, cn_tip = None,
                         cn_source = src\<rparr>)
      in if \<not> enabled then none From_None
      else
        let reading = read_ctaz_recency recency atReply; (blocks, tip) = read_ctaz_info info
        in if cz_state reading \<noteq> Cannot_Verify \<or> blocks \<noteq> None
           then \<lparr>cn_reading = reading, cn_syncPercent = sync_percent blocks tip, cn_blocks = blocks, cn_tip = tip,
                 cn_source = From_Rpc\<rparr>
           else if sf_at f \<noteq> None
           then if status_is_stale f nowMs then none From_File
                else if \<not> sf_readable f then none From_File
                else \<lparr>cn_reading = ctaz_reading_for (sf_recency f) nowMs, cn_syncPercent = sf_syncPercent f,
                      cn_blocks = sf_blocks f, cn_tip = sf_tip f, cn_source = From_File\<rparr>
           else none From_None)"

text \<open>The gate of the claim route: \<open>canServeCtaz(reading.state, node.blocks ?? reading.height, node.tip, node.source)\<close>.\<close>

definition ctaz_gate :: "ctaz_node_state \<Rightarrow> bool" where
  "ctaz_gate node =
     can_serve_ctaz (cz_state (cn_reading node))
       (case cn_blocks node of Some b \<Rightarrow> Some b | None \<Rightarrow> cz_height (cn_reading node))
       (cn_tip node) (cn_source node)"

subsection \<open>cache.ts\<close>

definition MAX_CACHE_AGE_MS :: int where "MAX_CACHE_AGE_MS = 180000"

record ctaz_cache =
  cc_state :: ctaz_node_state
  cc_at :: int
  cc_inflight :: bool

definition empty_ctaz_state :: "int \<Rightarrow> ctaz_node_state" where
  "empty_ctaz_state nowMs =
     \<lparr>cn_reading = ctaz_reading_for None nowMs, cn_syncPercent = None, cn_blocks = None, cn_tip = None,
      cn_source = From_None\<rparr>"

definition ctaz_refresh_start :: "ctaz_cache \<Rightarrow> ctaz_cache" where
  "ctaz_refresh_start c = c\<lparr>cc_inflight := True\<rparr>"

text \<open>A refresh ends with a state, or with an exception, which leaves the cached one.\<close>

definition ctaz_refresh_end :: "ctaz_node_state option \<Rightarrow> int \<Rightarrow> ctaz_cache \<Rightarrow> ctaz_cache" where
  "ctaz_refresh_end s now c =
     (case s of Some st \<Rightarrow> c\<lparr>cc_state := st, cc_at := now, cc_inflight := False\<rparr>
      | None \<Rightarrow> c\<lparr>cc_inflight := False\<rparr>)"

definition cached_ctaz_node_state :: "int \<Rightarrow> ctaz_cache \<Rightarrow> ctaz_node_state" where
  "cached_ctaz_node_state nowMs c =
     (if cc_at c = 0 \<or> nowMs - cc_at c > MAX_CACHE_AGE_MS then empty_ctaz_state nowMs else cc_state c)"

text \<open>The cell as an aged cell.\<close>

definition no_ctaz_cache :: "int \<Rightarrow> ctaz_cache" where
  "no_ctaz_cache nowMs = \<lparr>cc_state = empty_ctaz_state nowMs, cc_at = 0, cc_inflight = False\<rparr>"

definition raw_ctaz_state :: "int \<Rightarrow> ctaz_cache \<Rightarrow> ctaz_node_state option" where
  "raw_ctaz_state nowMs c =
     (if cc_at c = 0 \<or> nowMs - cc_at c > MAX_CACHE_AGE_MS then None else Some (cc_state c))"

interpretation ctaz_cell: aged_cell "no_ctaz_cache boot" ctaz_refresh_start ctaz_refresh_end raw_ctaz_state MAX_CACHE_AGE_MS
  for boot
  by unfold_locales
    (simp_all add: raw_ctaz_state_def no_ctaz_cache_def ctaz_refresh_start_def ctaz_refresh_end_def)

lemma cached_ctaz_raw: "cached_ctaz_node_state nowMs c = nullish (raw_ctaz_state nowMs c) (empty_ctaz_state nowMs)"
  by (simp add: cached_ctaz_node_state_def raw_ctaz_state_def)

text \<open>A cached state that would be served is one read from the node at most three minutes ago.\<close>

lemma cached_ctaz_is_recent:
  assumes "cz_state (cn_reading (cached_ctaz_node_state nowMs (ctaz_cell.refreshed boot rs))) = Ready"
    and "\<forall>(x, a)\<in>set rs. 0 < a"
  shows "\<exists>before s a after. rs = before @ (Some s, a) # after \<and> nowMs - a \<le> 180000
    \<and> cached_ctaz_node_state nowMs (ctaz_cell.refreshed boot rs) = s"
proof -
  have "cz_state (cn_reading (empty_ctaz_state nowMs)) \<noteq> Ready"
    by (simp add: empty_ctaz_state_def ctaz_reading_for_def UNVERIFIABLE_def)
  with assms(1) obtain s where s: "raw_ctaz_state nowMs (ctaz_cell.refreshed boot rs) = Some s"
    by (cases "raw_ctaz_state nowMs (ctaz_cell.refreshed boot rs)") (auto simp: cached_ctaz_raw)
  from ctaz_cell.given_is_last_read [OF s assms(2)] s show ?thesis
    by (auto simp: cached_ctaz_raw MAX_CACHE_AGE_MS_def)
qed

text \<open>
  \<open>refresh\<close> joins the one under way; the timer starts it every \<open>REFRESH_INTERVAL_MS\<close>. A cold read waits for the
  refresh in flight: \<open>flight\<close> is how long that still takes, what it brings and the clock then.
\<close>

definition REFRESH_INTERVAL_MS :: int where "REFRESH_INTERVAL_MS = 20000"

definition ctaz_refresh :: "ctaz_cache \<Rightarrow> ctaz_cache" where
  "ctaz_refresh c = (if cc_inflight c then c else ctaz_refresh_start c)"

definition start_ctaz_refresher :: "ctaz_cache \<times> bool \<Rightarrow> ctaz_cache \<times> bool" where
  "start_ctaz_refresher p = (case p of (c, timer) \<Rightarrow> if timer then (c, True) else (ctaz_refresh c, True))"

definition cached_ctaz_warm ::
  "int \<Rightarrow> int \<Rightarrow> int \<times> ctaz_node_state option \<times> int \<Rightarrow> ctaz_cache \<times> bool \<Rightarrow> (ctaz_node_state \<times> int) \<times> ctaz_cache \<times> bool" where
  "cached_ctaz_warm nowMs coldWaitMs flight p =
     (let (c, timer) = start_ctaz_refresher p;
          (takes, s, endMs) = flight;
          cold = (cc_at c = 0 \<and> cc_inflight c);
          c' = (if cold \<and> takes \<le> coldWaitMs then ctaz_refresh_end s endMs c else c)
      in ((cached_ctaz_node_state nowMs c', if cold then min takes coldWaitMs else 0), c', timer))"

text \<open>A cold read waits at most its bound and then gives what the refresh brought in that time; a warm one never waits.\<close>

lemma warm_read_is_bounded:
  assumes "cached_ctaz_warm nowMs coldWaitMs (takes, s, endMs) p = ((st, waited), p')" and "0 \<le> coldWaitMs"
  shows "waited \<le> coldWaitMs \<and> (cc_at (fst p) \<noteq> 0 \<longrightarrow> waited = 0 \<and> st = cached_ctaz_node_state nowMs (fst p))"
  using assms by (cases p)
    (auto simp: cached_ctaz_warm_def start_ctaz_refresher_def ctaz_refresh_def ctaz_refresh_start_def cached_ctaz_node_state_def
      Let_def split: if_splits)

lemma cold_read_gets_the_first_state:
  assumes "takes \<le> coldWaitMs" and "0 < nowMs" and "nowMs \<le> endMs"
  shows "fst (fst (cached_ctaz_warm nowMs coldWaitMs (takes, Some st, endMs) (no_ctaz_cache boot, False))) = st"
  using assms by (simp add: cached_ctaz_warm_def start_ctaz_refresher_def ctaz_refresh_def ctaz_refresh_start_def
      ctaz_refresh_end_def cached_ctaz_node_state_def no_ctaz_cache_def MAX_CACHE_AGE_MS_def)

subsection \<open>Properties\<close>

lemma reading_ready_iff:
  "cz_state (ctaz_reading_for raw nowMs) = Ready \<longleftrightarrow>
     (\<exists>r u h a b. raw = Some r \<and> now_utc r = Some u \<and> my_height r = Some h \<and> my_round r = Some a
        \<and> my_locked_round r = Some b \<and> 0 \<le> nowMs div 1000 - u \<and> nowMs div 1000 - u \<le> MAX_AGE_SECONDS
        \<and> 0 \<le> a - b \<and> a - b \<le> MAX_ROUND_LAG \<and> finalizer_count r \<noteq> Some 0)"
  by (auto simp: ctaz_reading_for_def UNVERIFIABLE_def Let_def not_less split: option.splits)

text \<open>
  C26: cTAZ is paid only on the node's own fresh word. When the gate lets a claim through, cTAZ is
  enabled, the node itself answered (the status file never suffices) with an answer at most two
  minutes old and not from the future, its finality rounds lag by at most two and not below zero, it
  does not report zero finalizers, it reported a tip, and it is within two blocks of it.
\<close>

theorem ctaz_served_only_on_fresh_answer:
  assumes "ctaz_gate (read_ctaz_node_state enabled recency atReply info f nowMs)"
  shows "enabled \<and> (\<exists>r u a b. recency = Node_Result (Some r) \<and> now_utc r = Some u
      \<and> my_round r = Some a \<and> my_locked_round r = Some b
      \<and> 0 \<le> atReply div 1000 - u \<and> atReply div 1000 - u \<le> 120 \<and> 0 \<le> a - b \<and> a - b \<le> 2
      \<and> finalizer_count r \<noteq> Some 0)
    \<and> (\<exists>t b. snd (read_ctaz_info info) = Some t \<and> t - b \<le> 2
        \<and> (fst (read_ctaz_info info) = Some b \<or> fst (read_ctaz_info info) = None))"
proof -
  let ?n = "read_ctaz_node_state enabled recency atReply info f nowMs"
  have src: "cn_source ?n = From_Rpc" and rd: "cz_state (cn_reading ?n) = Ready"
    using assms by (auto simp: ctaz_gate_def can_serve_ctaz_def split: if_splits)
  have enabled and n: "cn_reading ?n = read_ctaz_recency recency atReply"
    "cn_blocks ?n = fst (read_ctaz_info info)" "cn_tip ?n = snd (read_ctaz_info info)"
    using src by (auto simp: read_ctaz_node_state_def Let_def split_beta split: if_splits)
  moreover have "\<exists>t b. cn_tip ?n = Some t \<and> t - b \<le> 2 \<and> (cn_blocks ?n = Some b \<or> cn_blocks ?n = None)"
    using assms by (auto simp: ctaz_gate_def can_serve_ctaz_def MAX_SYNC_LAG_BLOCKS_def split: if_splits option.splits)
  moreover have "\<exists>r. recency = Node_Result (Some r)"
    using rd n(1) by (auto simp: read_ctaz_recency_def ctaz_reading_for_def not_activated_def UNVERIFIABLE_def
        split: node_reply.splits option.splits if_splits)
  then obtain r where r: "recency = Node_Result (Some r)" by blast
  moreover have "cz_state (ctaz_reading_for (Some r) atReply) = Ready"
    using rd n(1) r by (simp add: read_ctaz_recency_def)
  ultimately show ?thesis
    unfolding reading_ready_iff MAX_AGE_SECONDS_def MAX_ROUND_LAG_def by auto
qed

definition ex_recency :: recency_status where
  "ex_recency = \<lparr>now_utc = Some 1000, my_height = Some 50, my_round = Some 7, my_locked_round = Some 6,
     finalizer_count = Some 3\<rparr>"

definition ex_info :: "chain_info node_reply" where
  "ex_info = Node_Result \<lparr>ci_blocks = Some 99, ci_estimatedheight = Some 100, ci_headers = None\<rparr>"

definition ex_no_file :: ctaz_status_file where
  "ex_no_file = \<lparr>sf_readable = False, sf_at = None, sf_blocks = None, sf_tip = None, sf_syncPercent = None,
     sf_recency = None\<rparr>"

theorem ctaz_served_only_on_fresh_answer_witness:
  "ctaz_gate (read_ctaz_node_state True (Node_Result (Some ex_recency)) 1060000 ex_info ex_no_file 1055000)
   \<and> (1060000::int) div 1000 - 1000 \<le> 120"
proof -
  have g: "ctaz_gate (read_ctaz_node_state True (Node_Result (Some ex_recency)) 1060000 ex_info ex_no_file 1055000)"
    by code_simp
  from ctaz_served_only_on_fresh_answer [OF g] g show ?thesis by (auto simp: ex_recency_def)
qed

end
