(* ===== verification/Claim_Route.thy ===== *)
theory Claim_Route
  imports Ledger_System Send_Queue Pow Send_Health Freshness Sender Crosslink
begin

text \<open>
  The claim handler, \<open>POST /api/faucet\<close>: \<open>src/src/app/api/faucet/route.ts\<close>, composed of the parts it calls.
  What the outside answers during one request (clocks, balance, node heights, the tip, the wallets) is
  the record \<open>claim_env\<close>; the process and the ledger are the record \<open>faucet_state\<close>. Log lines are not
  modelled; of a response the status, the gate label, the retry time and the fields of a receipt are.
\<close>

subsection \<open>Requests, responses, configuration\<close>

record claim_body =
  cb_address :: string
  cb_network :: "string option"
  cb_pow :: "solution option"

datatype gate_label =
  Bad_Body | Bad_Address | Bad_Network | Ctaz_Disabled | Draining | Send_Health_Gate | Pow_Required | Pow_Failed
| Challenge_Spent | Faucet_Empty | Freshness_Gate | Wallet_Lag | Ctaz_Readiness | Cooldown | Daily_Cap
| Send_Unknown | Busy | Recipient | Send_Failed_Gate | Unhandled

record receipt =
  rc_txid :: "string option"
  rc_explorerUrl :: "string option"
  rc_paidZat :: "int option"
  rc_network :: network
  rc_sender :: sender_name
  rc_to :: address_info

datatype response =
  Error_Response int gate_label "int option"
| Ok_Response receipt

record route_config =
  rt_challenge_is_pow :: bool
  rt_pow :: pow_config
  rt_ctaz_enabled :: bool
  rt_expectedZat :: int
  rt_ctazCapZat :: int
  rt_dripZat :: int
  rt_capZat :: int
  rt_minReserveZat :: int
  rt_cooldown :: int
  rt_subnetMax :: int
  rt_ipMax :: int
  rt_lease :: int
  rt_sender_is_zallet :: bool
  rt_zallet :: zallet_config
  rt_sendDeadlineMs :: int
  rt_sendWindowMs :: int
  rt_walletMaxLag :: int
  rt_salt :: string
  rt_trustedProxies :: nat

text \<open>The functions of libraries the handler uses.\<close>

record libs =
  lib_decoders :: decoders
  lib_fingerprint :: "string \<Rightarrow> string"
  lib_hmac :: "string \<Rightarrow> 8 word list"
  lib_sha256 :: "string \<Rightarrow> 8 word list"
  lib_explorer :: "string \<Rightarrow> string option"
  lib_realSend :: "address_kind \<Rightarrow> string \<Rightarrow> int \<Rightarrow> int \<times> (send_error + send_result)"

text \<open>
  What becomes of a write the handler waits for and does not catch: it lands, or the driver throws, with
  nothing written or, when only the reply of the database was lost, with the statement carried out.
\<close>

datatype write_fate = Write_Lands | Write_Refused | Write_Unanswered

text \<open>
  \<open>ce_freshness\<close> is the answer of \<open>readChainFreshnessAsking\<close> for the node's height. The fate of the
  reservation also covers the read after it that words a refusal.
\<close>

record claim_env =
  ce_forwardedFor :: "string option"
  ce_nowMs :: int
  ce_verifyMs :: int
  ce_spendMs :: int
  ce_sendMs :: int
  ce_doneMs :: int
  ce_balance :: "int option"
  ce_walletHeight :: "int option"
  ce_nodeHeight :: "int option"
  ce_freshness :: "int option \<Rightarrow> gate"
  ce_ctaz :: ctaz_node_state
  ce_spentReadOk :: bool
  ce_spendWrite :: write_fate
  ce_reserveWrite :: write_fate
  ce_purgeLands :: bool
  ce_queueFull :: bool
  ce_wallet :: wallet_env
  ce_ctazReply :: "int \<times> crosslink_reply"
  ce_finalizeLands :: bool
  ce_bumpLands :: bool

record faucet_state =
  fs_ledger :: ledger
  fs_pow :: pow_state
  fs_sends :: send_log
  fs_draining :: bool

definition DRAIN_RETRY_SECONDS :: int where "DRAIN_RETRY_SECONDS = 20"

subsection \<open>Before the reservation\<close>

definition body_ok :: "claim_body \<Rightarrow> bool" where
  "body_ok b =
     (1 \<le> length (cb_address b) \<and> length (cb_address b) \<le> 512
      \<and> (case cb_network b of None \<Rightarrow> True | Some n \<Rightarrow> length n \<le> 16))"

record claim_ctx =
  cx_address :: string
  cx_info :: address_info
  cx_network :: network
  cx_pow :: "solution option"

definition client_keys :: "route_config \<Rightarrow> libs \<Rightarrow> claim_env \<Rightarrow> string option \<times> string option" where
  "client_keys cfg lib env =
     (case client_ip (rt_trustedProxies cfg) (ce_forwardedFor env) of
        None \<Rightarrow> (None, None)
      | Some ip \<Rightarrow> (Some (fingerprint_ip (lib_fingerprint lib) (rt_salt cfg) ip),
                    fingerprint_subnet (lib_fingerprint lib) (rt_salt cfg) ip))"

text \<open>The body, the address, the network, the drain and the health of recent sends.\<close>

definition check_request ::
  "route_config \<Rightarrow> libs \<Rightarrow> claim_env \<Rightarrow> claim_body option \<Rightarrow> faucet_state \<Rightarrow> response + claim_ctx" where
  "check_request cfg lib env body st =
     (case body of None \<Rightarrow> Inl (Error_Response 400 Bad_Body None)
      | Some b \<Rightarrow>
        if \<not> body_ok b then Inl (Error_Response 400 Bad_Body None) else
        (case validate_testnet_address (lib_decoders lib) (cb_address b) of
           Inl why \<Rightarrow> Inl (Error_Response 400 Bad_Address None)
         | Inr info \<Rightarrow>
           (case (case cb_network b of None \<Rightarrow> Some DEFAULT_NETWORK | Some n \<Rightarrow> parse_network n) of
              None \<Rightarrow> Inl (Error_Response 400 Bad_Network None)
            | Some net \<Rightarrow>
                if net = Ctaz \<and> \<not> rt_ctaz_enabled cfg then Inl (Error_Response 503 Ctaz_Disabled None)
                else if fs_draining st then Inl (Error_Response 503 Draining (Some DRAIN_RETRY_SECONDS))
                else if send_health_blocks_serving
                    (read_send_health (rt_sendWindowMs cfg) (ce_nowMs env) (fs_sends st) net)
                then Inl (Error_Response 503 Send_Health_Gate (Some (SENDS_RETRY_SECONDS (rt_sendWindowMs cfg))))
                else Inr \<lparr>cx_address = trim (cb_address b), cx_info = info, cx_network = net, cx_pow = cb_pow b\<rparr>)))"

text \<open>The proof of work is verified here and spent later.\<close>

definition check_pow ::
  "route_config \<Rightarrow> libs \<Rightarrow> claim_env \<Rightarrow> claim_ctx \<Rightarrow> faucet_state \<Rightarrow> response option \<times> faucet_state" where
  "check_pow cfg lib env cx st =
     (if \<not> rt_challenge_is_pow cfg then (None, st)
      else case cx_pow cx of None \<Rightarrow> (Some (Error_Response 403 Pow_Required None), st)
      | Some sol \<Rightarrow>
          (let (ip, sub) = client_keys cfg lib env;
               (verdict, pw, l) = verify_solution (rt_pow cfg) (lib_hmac lib) (lib_sha256 lib) sol
                  (nullish ip ''anon'') sub False (ce_verifyMs env) (fs_pow st) (fs_ledger st);
               st' = st\<lparr>fs_pow := pw, fs_ledger := l\<rparr>
           in if verdict \<noteq> None then (Some (Error_Response 403 Pow_Failed None), st')
              else if challenge_already_spent (ce_spentReadOk env) (ch_sig sol) (fs_ledger st')
              then (Some (Error_Response 403 Challenge_Spent None), st')
              else (None, st')))"

definition gates_apply :: "route_config \<Rightarrow> network \<Rightarrow> bool" where
  "gates_apply cfg net = (net = Taz \<and> rt_sender_is_zallet cfg)"

text \<open>The balance, the chain gate, the wallet gate and the feature net's readiness.\<close>

definition check_backend :: "route_config \<Rightarrow> claim_env \<Rightarrow> claim_ctx \<Rightarrow> response option" where
  "check_backend cfg env cx =
     (let net = cx_network cx;
          fresh = ce_freshness env (ce_nodeHeight env);
          lag = wallet_lag_freshness (rt_walletMaxLag cfg) (ce_walletHeight env) (ce_nodeHeight env)
      in if net = Taz \<and> (case ce_balance env of None \<Rightarrow> False | Some b \<Rightarrow> b < rt_dripZat cfg + rt_minReserveZat cfg)
         then Some (Error_Response 503 Faucet_Empty None)
         else if gates_apply cfg net \<and> \<not> may_build_transaction fresh
         then Some (Error_Response 503 Freshness_Gate (Some (freshness_retry_seconds (g_state fresh) (g_built fresh))))
         else if gates_apply cfg net \<and> \<not> may_build_from_wallet lag
         then Some (Error_Response 503 Wallet_Lag (Some FRESHNESS_RETRY_SECONDS))
         else if net = Ctaz \<and> \<not> ctaz_gate (ce_ctaz env)
         then Some (Error_Response 503 Ctaz_Readiness (Some FRESHNESS_RETRY_SECONDS))
         else None)"

definition burn_proof ::
  "route_config \<Rightarrow> claim_env \<Rightarrow> claim_ctx \<Rightarrow> faucet_state \<Rightarrow> response option \<times> faucet_state" where
  "burn_proof cfg env cx st =
     (case cx_pow cx of
        Some sol \<Rightarrow>
          if rt_challenge_is_pow cfg
          then let (ok, l) = spend_verified_solution sol (ce_spendMs env) (fs_ledger st);
                   st' = st\<lparr>fs_ledger := l\<rparr>
               in case ce_spendWrite env of
                    Write_Refused \<Rightarrow> (Some (Error_Response 500 Unhandled None), st)
                  | Write_Unanswered \<Rightarrow> (Some (Error_Response 500 Unhandled None), st')
                  | Write_Lands \<Rightarrow> (if ok then None else Some (Error_Response 403 Challenge_Spent None), st')
          else (None, st)
      | None \<Rightarrow> (None, st))"

subsection \<open>The reservation\<close>

definition claim_request_of :: "route_config \<Rightarrow> libs \<Rightarrow> claim_env \<Rightarrow> claim_ctx \<Rightarrow> claim_request" where
  "claim_request_of cfg lib env cx =
     (let (ip, sub) = client_keys cfg lib env; net = cx_network cx
      in \<lparr>cr_address = cx_address cx, cr_ip_hash = ip, cr_subnet_hash = sub,
          cr_amount_zat = (if net = Ctaz then rt_expectedZat cfg else rt_dripZat cfg),
          cr_now = ce_nowMs env div 1000, cr_cooldown_seconds = rt_cooldown cfg,
          cr_daily_cap_zat = (if net = Ctaz then rt_ctazCapZat cfg else rt_capZat cfg),
          cr_subnet_daily_max = rt_subnetMax cfg, cr_ip_daily_max = Some (rt_ipMax cfg),
          cr_network = Some net\<rparr>)"

definition refusal_response :: "refusal \<Rightarrow> response" where
  "refusal_response r =
     (if rf_kind r = Refused_Cap then Error_Response 503 Daily_Cap (rf_retry_after r)
      else Error_Response 429 Cooldown (rf_retry_after r))"

subsection \<open>The send\<close>

datatype send_run =
  Run_Queue_Full | Run_Deadline | Run_Threw send_error | Run_Sent send_result

text \<open>\<open>queue.run(() => sender.send(...), sendTaskDeadlineMs)\<close>: the task races its deadline once it starts.\<close>

definition raced :: "int \<Rightarrow> int \<times> (send_error + send_result) \<Rightarrow> send_run" where
  "raced deadline r =
     (if fst r > deadline then Run_Deadline
      else case snd r of Inl e \<Rightarrow> Run_Threw e | Inr x \<Rightarrow> Run_Sent x)"

definition send_answer ::
  "route_config \<Rightarrow> libs \<Rightarrow> claim_env \<Rightarrow> claim_ctx \<Rightarrow> sender_name \<Rightarrow> int \<Rightarrow> send_run" where
  "send_answer cfg lib env cx sender amt =
     (if ce_queueFull env then Run_Queue_Full
      else case sender of
        Zallet_Sender \<Rightarrow>
          (case zallet_send (lib_explorer lib) (rt_zallet cfg) (ce_wallet env) (ai_kind (cx_info cx))
             (cx_address cx) amt (ce_sendMs env) of
             None \<Rightarrow> Run_Deadline
           | Some (r, t) \<Rightarrow> raced (rt_sendDeadlineMs cfg) (t - ce_sendMs env, r))
      | Real_Sender \<Rightarrow> raced (rt_sendDeadlineMs cfg) (lib_realSend lib (ai_kind (cx_info cx)) (cx_address cx) amt)
      | Crosslink_Sender \<Rightarrow>
          raced (rt_sendDeadlineMs cfg)
            (fst (ce_ctazReply env), crosslink_send (rt_expectedZat cfg) (snd (ce_ctazReply env))))"

text \<open>A finalisation that throws, or whose write fails, is logged and leaves the row pending.\<close>

definition finalize_logged ::
  "claim_env \<Rightarrow> int \<Rightarrow> claim_status \<Rightarrow> string option \<Rightarrow> no_txid_reason option \<Rightarrow> network \<Rightarrow> ledger \<Rightarrow> ledger" where
  "finalize_logged env i s tx why net l =
     (if \<not> ce_finalizeLands env then l
      else case finalize_claim (ce_bumpLands env) i s tx why (ce_doneMs env) net l of Inl e \<Rightarrow> l | Inr l' \<Rightarrow> l')"

definition log_send :: "route_config \<Rightarrow> claim_env \<Rightarrow> send_outcome \<Rightarrow> network \<Rightarrow> bool \<Rightarrow> faucet_state \<Rightarrow> faucet_state" where
  "log_send cfg env out net unanswered st =
     st\<lparr>fs_sends := record_send (rt_sendWindowMs cfg) out net (ce_doneMs env) unanswered (fs_sends st)\<rparr>"

definition unknown_marker :: "send_error \<Rightarrow> string" where
  "unknown_marker e = (case e of Outcome_Unknown opid cause \<Rightarrow> ''unknown:'' @ opid | _ \<Rightarrow> ''unknown:deadline'')"

definition conclude_unknown ::
  "route_config \<Rightarrow> claim_env \<Rightarrow> int \<Rightarrow> string \<Rightarrow> bool \<Rightarrow> network \<Rightarrow> faucet_state \<Rightarrow> response \<times> faucet_state" where
  "conclude_unknown cfg env i marker unanswered net st =
     (let st1 = log_send cfg env Out_Unknown net unanswered st
      in (Error_Response 504 Send_Unknown None,
          st1\<lparr>fs_ledger := finalize_logged env i Sent (Some marker) None net (fs_ledger st1)\<rparr>))"

definition conclude_failed ::
  "claim_env \<Rightarrow> int \<Rightarrow> network \<Rightarrow> faucet_state \<Rightarrow> faucet_state" where
  "conclude_failed env i net st =
     st\<lparr>fs_ledger := finalize_logged env i Failed None None net (fs_ledger st)\<rparr>"

definition conclude_send ::
  "route_config \<Rightarrow> claim_env \<Rightarrow> claim_ctx \<Rightarrow> sender_name \<Rightarrow> int \<Rightarrow> send_run \<Rightarrow> faucet_state \<Rightarrow> response \<times> faucet_state" where
  "conclude_send cfg env cx sender i run st =
     (let net = cx_network cx in
      case run of
        Run_Deadline \<Rightarrow> conclude_unknown cfg env i ''unknown:deadline'' False net st
      | Run_Threw (Outcome_Unknown opid cause) \<Rightarrow>
          conclude_unknown cfg env i (unknown_marker (Outcome_Unknown opid cause)) (opid = ''no-opid'') net st
      | Run_Queue_Full \<Rightarrow> (Error_Response 503 Busy None, conclude_failed env i net st)
      | Run_Threw (Recipient_Refused m) \<Rightarrow>
          (Error_Response 400 Recipient None, log_send cfg env Out_Refused net False (conclude_failed env i net st))
      | Run_Threw e \<Rightarrow>
          (Error_Response 502 Send_Failed_Gate None, log_send cfg env Out_Failed net False (conclude_failed env i net st))
      | Run_Sent result \<Rightarrow>
          (let st1 = log_send cfg env Out_Ok net False st;
               why = (if sender = Crosslink_Sender then Some Network_Has_No_Txid else None)
           in (Ok_Response \<lparr>rc_txid = res_txid result, rc_explorerUrl = res_explorerUrl result,
                 rc_paidZat = res_amountZat result, rc_network = net, rc_sender = sender, rc_to = cx_info cx\<rparr>,
               st1\<lparr>fs_ledger := finalize_logged env i Sent (res_txid result) why net (fs_ledger st1)\<rparr>)))"

definition reserve_and_pay ::
  "route_config \<Rightarrow> libs \<Rightarrow> claim_env \<Rightarrow> claim_ctx \<Rightarrow> faucet_state \<Rightarrow> response \<times> faucet_state" where
  "reserve_and_pay cfg lib env cx st =
     (let req = claim_request_of cfg lib env cx;
          l0 = (if ce_purgeLands env
                then purge_sql (retention_cutoff (rt_lease cfg) (cr_now req) (cr_cooldown_seconds req)) (fs_ledger st)
                else fs_ledger st);
          (res, l) = reserve_claim (rt_lease cfg) (fingerprint_address (lib_fingerprint lib) (rt_salt cfg))
             (ce_purgeLands env) req (fs_ledger st);
          st1 = st\<lparr>fs_ledger := l\<rparr>
      in case ce_reserveWrite env of
           Write_Refused \<Rightarrow> (Error_Response 500 Unhandled None, st\<lparr>fs_ledger := l0\<rparr>)
         | Write_Unanswered \<Rightarrow> (Error_Response 500 Unhandled None, st1)
         | Write_Lands \<Rightarrow>
             (case res of
                Refused r \<Rightarrow> (refusal_response r, st1)
              | Reserved i \<Rightarrow>
                  (case get_sender_for (rt_sender_is_zallet cfg) (rt_ctaz_enabled cfg) (cx_network cx) of
                     None \<Rightarrow> (Error_Response 500 Unhandled None, st1)
                   | Some sender \<Rightarrow>
                       conclude_send cfg env cx sender i (send_answer cfg lib env cx sender (cr_amount_zat req)) st1)))"

subsection \<open>The handler\<close>

definition handle_claim ::
  "route_config \<Rightarrow> libs \<Rightarrow> claim_env \<Rightarrow> claim_body option \<Rightarrow> faucet_state \<Rightarrow> response \<times> faucet_state" where
  "handle_claim cfg lib env body st =
     (case check_request cfg lib env body st of
        Inl r \<Rightarrow> (r, st)
      | Inr cx \<Rightarrow>
          (case check_pow cfg lib env cx st of
             (Some r, st1) \<Rightarrow> (r, st1)
           | (None, st1) \<Rightarrow>
               (case check_backend cfg env cx of
                  Some r \<Rightarrow> (r, st1)
                | None \<Rightarrow>
                    (case burn_proof cfg env cx st1 of
                       (Some r, st2) \<Rightarrow> (r, st2)
                     | (None, st2) \<Rightarrow> reserve_and_pay cfg lib env cx st2))))"

end
