(* ===== verification/Claim_Safety.thy ===== *)
theory Claim_Safety
  imports Claim_Route
begin

text \<open>
  What the claim handler as a whole guarantees: which answers leave the ledger alone, what a paid,
  failed or lost send does to the reservation, and which gates a payment has passed.
\<close>

subsection \<open>Frames\<close>

lemma verify_frame: "snd (snd (verify_solution cfg hmac sha s ip sub False nowMs pw l)) = l"
  by (rule verify_ledger_frame)

lemma check_pow_frame [frame_simps]:
  "fs_ledger (snd (check_pow cfg lib env cx st)) = fs_ledger st"
  "fs_sends (snd (check_pow cfg lib env cx st)) = fs_sends st"
  using verify_frame [of "rt_pow cfg" "lib_hmac lib" "lib_sha256 lib" "the (cx_pow cx)"]
  by (auto simp: check_pow_def Let_def split_beta split: option.splits)

lemma burn_proof_frame [frame_simps]:
  "claims (fs_ledger (snd (burn_proof cfg env cx st))) = claims (fs_ledger st)"
  "last_rowid (fs_ledger (snd (burn_proof cfg env cx st))) = last_rowid (fs_ledger st)"
  "drip_days (fs_ledger (snd (burn_proof cfg env cx st))) = drip_days (fs_ledger st)"
  "fs_sends (snd (burn_proof cfg env cx st)) = fs_sends st"
  by (auto simp: burn_proof_def Let_def split_beta spend_verified_solution_def split: option.splits write_fate.splits)

lemma conclude_gate:
  "fst (conclude_send cfg env cx sender i run st) = Error_Response s g r \<Longrightarrow>
     g \<in> {Send_Unknown, Busy, Recipient, Send_Failed_Gate}"
  by (auto simp: conclude_send_def conclude_unknown_def Let_def split: send_run.splits send_error.splits)

lemma reserve_and_pay_gate:
  "fst (reserve_and_pay cfg lib env cx st) = Error_Response s g r \<Longrightarrow>
     g \<in> {Cooldown, Daily_Cap, Unhandled, Send_Unknown, Busy, Recipient, Send_Failed_Gate}"
  using conclude_gate
  by (fastforce simp: reserve_and_pay_def Let_def split_beta refusal_response_def
      split: reserve_result.splits option.splits if_splits write_fate.splits)

text \<open>The stages a request went through, by its answer.\<close>

definition reached :: "route_config \<Rightarrow> libs \<Rightarrow> claim_env \<Rightarrow> claim_body option \<Rightarrow> faucet_state \<Rightarrow> claim_ctx \<Rightarrow> faucet_state \<Rightarrow> bool" where
  "reached cfg lib env body st cx st2 =
     (check_request cfg lib env body st = Inr cx
      \<and> fst (check_pow cfg lib env cx st) = None
      \<and> check_backend cfg env cx = None
      \<and> fst (burn_proof cfg env cx (snd (check_pow cfg lib env cx st))) = None
      \<and> st2 = snd (burn_proof cfg env cx (snd (check_pow cfg lib env cx st))))"

lemma reached_frame:
  assumes "reached cfg lib env body st cx st2"
  shows "claims (fs_ledger st2) = claims (fs_ledger st)" "last_rowid (fs_ledger st2) = last_rowid (fs_ledger st)"
    "drip_days (fs_ledger st2) = drip_days (fs_ledger st)" "fs_sends st2 = fs_sends st"
  using assms by (simp_all add: reached_def burn_proof_frame check_pow_frame)

lemma handle_reached:
  "reached cfg lib env body st cx st2 \<Longrightarrow>
     handle_claim cfg lib env body st = reserve_and_pay cfg lib env cx st2"
  by (simp add: reached_def handle_claim_def split_beta split: prod.splits option.splits)

text \<open>Otherwise it was refused before the reservation, or the spend of its proof threw.\<close>

definition early_gates :: "gate_label set" where
  "early_gates = {Bad_Body, Bad_Address, Bad_Network, Ctaz_Disabled, Draining, Send_Health_Gate, Pow_Required,
     Pow_Failed, Challenge_Spent, Faucet_Empty, Freshness_Gate, Wallet_Lag, Ctaz_Readiness}"

lemma check_request_gate:
  "check_request cfg lib env body st = Inl resp \<Longrightarrow> \<exists>s g r. resp = Error_Response s g r \<and> g \<in> early_gates - {Challenge_Spent}"
  by (auto simp: check_request_def early_gates_def split: option.splits sum.splits if_splits)

lemma check_pow_gate:
  "fst (check_pow cfg lib env cx st) = Some resp \<Longrightarrow> \<exists>s g r. resp = Error_Response s g r \<and> g \<in> early_gates"
  by (auto simp: check_pow_def early_gates_def Let_def split_beta split: option.splits if_splits)

lemma check_backend_gate:
  "check_backend cfg env cx = Some resp \<Longrightarrow> \<exists>s g r. resp = Error_Response s g r \<and> g \<in> early_gates - {Challenge_Spent}"
  by (auto simp: check_backend_def early_gates_def Let_def split: if_splits)

lemma burn_proof_gate:
  "fst (burn_proof cfg env cx st) = Some resp \<Longrightarrow>
     resp = Error_Response 403 Challenge_Spent None \<or> resp = Error_Response 500 Unhandled None"
  by (auto simp: burn_proof_def Let_def split_beta split: option.splits if_splits write_fate.splits)

lemma handle_cases:
  obtains (early) s g r where "fst (handle_claim cfg lib env body st) = Error_Response s g r" "g \<in> insert Unhandled early_gates"
      "claims (fs_ledger (snd (handle_claim cfg lib env body st))) = claims (fs_ledger st)"
      "last_rowid (fs_ledger (snd (handle_claim cfg lib env body st))) = last_rowid (fs_ledger st)"
      "drip_days (fs_ledger (snd (handle_claim cfg lib env body st))) = drip_days (fs_ledger st)"
      "fs_sends (snd (handle_claim cfg lib env body st)) = fs_sends st"
      "g \<noteq> Challenge_Spent \<Longrightarrow> g \<noteq> Unhandled \<Longrightarrow> fs_ledger (snd (handle_claim cfg lib env body st)) = fs_ledger st"
  | (on) cx st2 where "reached cfg lib env body st cx st2"
      "handle_claim cfg lib env body st = reserve_and_pay cfg lib env cx st2"
proof (cases "check_request cfg lib env body st")
  case (Inl resp)
  then have h: "handle_claim cfg lib env body st = (resp, st)" by (simp add: handle_claim_def)
  from check_request_gate [OF Inl] obtain s g r where "resp = Error_Response s g r" "g \<in> early_gates" by blast
  with h show ?thesis by (intro early [of s g r]) auto
next
  case cx: (Inr cx)
  let ?p = "check_pow cfg lib env cx st"
  show ?thesis
  proof (cases "fst ?p")
    case (Some resp)
    then have h: "handle_claim cfg lib env body st = (resp, snd ?p)"
      using cx by (simp add: handle_claim_def split_beta)
    from check_pow_gate [OF Some] obtain s g r where "resp = Error_Response s g r" "g \<in> early_gates" by blast
    with h show ?thesis by (intro early) (auto simp: check_pow_frame)
  next
    case p: None
    show ?thesis
    proof (cases "check_backend cfg env cx")
      case (Some resp)
      then have h: "handle_claim cfg lib env body st = (resp, snd ?p)"
        using cx p by (simp add: handle_claim_def split_beta)
      from check_backend_gate [OF Some] obtain s g r where "resp = Error_Response s g r" "g \<in> early_gates" by blast
      with h show ?thesis by (intro early) (auto simp: check_pow_frame)
    next
      case b: None
      let ?b = "burn_proof cfg env cx (snd ?p)"
      show ?thesis
      proof (cases "fst ?b")
        case (Some resp)
        then have h: "handle_claim cfg lib env body st = (resp, snd ?b)"
          using cx p b by (simp add: handle_claim_def split_beta)
        obtain s g r where "resp = Error_Response s g r" "g = Challenge_Spent \<or> g = Unhandled"
          using burn_proof_gate [OF Some] by blast
        with h show ?thesis
          by (intro early [of s g r]) (auto simp: check_pow_frame burn_proof_frame early_gates_def)
      next
        case None
        with cx p b have "reached cfg lib env body st cx (snd ?b)" by (simp add: reached_def)
        then show ?thesis using on handle_reached by blast
      qed
    qed
  qed
qed

lemma reserved_not_early: "g \<in> early_gates \<Longrightarrow> fst (reserve_and_pay cfg lib env cx st) \<noteq> Error_Response s g r"
  using reserve_and_pay_gate [of cfg lib env cx st s g r] by (auto simp: early_gates_def)

subsection \<open>The reservation and its end\<close>

definition fp_of :: "route_config \<Rightarrow> libs \<Rightarrow> string \<Rightarrow> string" where
  "fp_of cfg lib = fingerprint_address (lib_fingerprint lib) (rt_salt cfg)"

definition opts_of :: "route_config \<Rightarrow> libs \<Rightarrow> claim_env \<Rightarrow> claim_ctx \<Rightarrow> reserve_opts" where
  "opts_of cfg lib env cx = reserve_params (rt_lease cfg) (fp_of cfg lib) (claim_request_of cfg lib env cx)"

definition purged :: "route_config \<Rightarrow> claim_env \<Rightarrow> ledger \<Rightarrow> ledger" where
  "purged cfg env l =
     (if ce_purgeLands env
      then purge_sql (retention_cutoff (rt_lease cfg) (ce_nowMs env div 1000) (rt_cooldown cfg)) l else l)"

lemma claim_request_of_sel [simp]:
  "cr_now (claim_request_of cfg lib env cx) = ce_nowMs env div 1000"
  "cr_cooldown_seconds (claim_request_of cfg lib env cx) = rt_cooldown cfg"
  "cr_address (claim_request_of cfg lib env cx) = cx_address cx"
  "cr_network (claim_request_of cfg lib env cx) = Some (cx_network cx)"
  "cr_amount_zat (claim_request_of cfg lib env cx)
     = (if cx_network cx = Ctaz then rt_expectedZat cfg else rt_dripZat cfg)"
  by (simp_all add: claim_request_of_def split_beta Let_def)

lemma opts_of_sel [simp]:
  "ro_address_hash (opts_of cfg lib env cx) = fp_of cfg lib (cx_address cx)"
  "ro_now (opts_of cfg lib env cx) = ce_nowMs env div 1000"
  "ro_network (opts_of cfg lib env cx) = cx_network cx"
  "ro_cooldown_seconds (opts_of cfg lib env cx) = rt_cooldown cfg"
  "ro_lease_seconds (opts_of cfg lib env cx) = rt_lease cfg"
  "ro_amount_zat (opts_of cfg lib env cx) = (if cx_network cx = Ctaz then rt_expectedZat cfg else rt_dripZat cfg)"
  "ro_daily_cap_zat (opts_of cfg lib env cx) = (if cx_network cx = Ctaz then rt_ctazCapZat cfg else rt_capZat cfg)"
  "ro_subnet_daily_max (opts_of cfg lib env cx) = rt_subnetMax cfg"
  "ro_ip_daily_max (opts_of cfg lib env cx) = rt_ipMax cfg"
  by (simp_all add: opts_of_def reserve_params_def claim_request_of_def split_beta Let_def)

lemma reserve_claim_eq:
  "reserve_claim (rt_lease cfg) (fp_of cfg lib) (ce_purgeLands env) (claim_request_of cfg lib env cx) l =
     (if reserve_admits (opts_of cfg lib env cx) (claims (purged cfg env l))
      then (Reserved (last_rowid l + 1), snd (reserve_sql (opts_of cfg lib env cx) (purged cfg env l)))
      else (fst (reserve_claim (rt_lease cfg) (fp_of cfg lib) (ce_purgeLands env) (claim_request_of cfg lib env cx) l),
            purged cfg env l))"
  "\<not> reserve_admits (opts_of cfg lib env cx) (claims (purged cfg env l)) \<Longrightarrow>
     \<exists>r. fst (reserve_claim (rt_lease cfg) (fp_of cfg lib) (ce_purgeLands env) (claim_request_of cfg lib env cx) l) = Refused r"
  by (auto simp: reserve_claim_def opts_of_def purged_def Let_def reserve_sql_def purge_sql_def split_beta)

text \<open>How a handler that reached the reservation ends.\<close>

lemma reserve_and_pay_cases:
  obtains (refused) resp where "(\<exists>r. resp = refusal_response r) \<or> resp = Error_Response 500 Unhandled None"
      "reserve_and_pay cfg lib env cx st = (resp, st\<lparr>fs_ledger := purged cfg env (fs_ledger st)\<rparr>)"
  | (unanswered) "reserve_admits (opts_of cfg lib env cx) (claims (purged cfg env (fs_ledger st)))"
      "ce_reserveWrite env = Write_Unanswered"
      "reserve_and_pay cfg lib env cx st = (Error_Response 500 Unhandled None,
         st\<lparr>fs_ledger := snd (reserve_sql (opts_of cfg lib env cx) (purged cfg env (fs_ledger st)))\<rparr>)"
  | (no_sender) "reserve_admits (opts_of cfg lib env cx) (claims (purged cfg env (fs_ledger st)))"
      "cx_network cx = Ctaz" "\<not> rt_ctaz_enabled cfg"
  | (ran) sender where "reserve_admits (opts_of cfg lib env cx) (claims (purged cfg env (fs_ledger st)))"
      "ce_reserveWrite env = Write_Lands"
      "get_sender_for (rt_sender_is_zallet cfg) (rt_ctaz_enabled cfg) (cx_network cx) = Some sender"
      "reserve_and_pay cfg lib env cx st =
         conclude_send cfg env cx sender (last_rowid (fs_ledger st) + 1)
           (send_answer cfg lib env cx sender (ro_amount_zat (opts_of cfg lib env cx)))
           (st\<lparr>fs_ledger := snd (reserve_sql (opts_of cfg lib env cx) (purged cfg env (fs_ledger st)))\<rparr>)"
proof (cases "ce_reserveWrite env = Write_Refused")
  case True
  then have "reserve_and_pay cfg lib env cx st = (Error_Response 500 Unhandled None, st\<lparr>fs_ledger := purged cfg env (fs_ledger st)\<rparr>)"
    by (simp add: reserve_and_pay_def Let_def split_beta purged_def)
  then show ?thesis by (intro refused) simp_all
next
  case nr: False
  note e = reserve_claim_eq [where l = "fs_ledger st" and cfg = cfg and env = env and lib = lib and cx = cx]
  show ?thesis
  proof (cases "reserve_admits (opts_of cfg lib env cx) (claims (purged cfg env (fs_ledger st)))")
    case False
    from e(2) [OF False] obtain r where r: "fst (reserve_claim (rt_lease cfg) (fp_of cfg lib) (ce_purgeLands env)
        (claim_request_of cfg lib env cx) (fs_ledger st)) = Refused r" by blast
    have "reserve_claim (rt_lease cfg) (fp_of cfg lib) (ce_purgeLands env) (claim_request_of cfg lib env cx) (fs_ledger st)
        = (Refused r, purged cfg env (fs_ledger st))"
      using e(1) False r by simp
    then have "reserve_and_pay cfg lib env cx st = (refusal_response r, st\<lparr>fs_ledger := purged cfg env (fs_ledger st)\<rparr>)
        \<or> reserve_and_pay cfg lib env cx st = (Error_Response 500 Unhandled None, st\<lparr>fs_ledger := purged cfg env (fs_ledger st)\<rparr>)"
      unfolding reserve_and_pay_def fp_of_def [symmetric] using nr by (cases "ce_reserveWrite env") (simp_all add: Let_def)
    then show ?thesis using refused by blast
  next
    case True
    then have e: "reserve_claim (rt_lease cfg) (fp_of cfg lib) (ce_purgeLands env) (claim_request_of cfg lib env cx) (fs_ledger st)
        = (Reserved (last_rowid (fs_ledger st) + 1), snd (reserve_sql (opts_of cfg lib env cx) (purged cfg env (fs_ledger st))))"
      using e(1) by simp
    note rp = reserve_and_pay_def [of cfg lib env cx st, folded fp_of_def, unfolded e Let_def split_conv]
    show ?thesis
    proof (cases "ce_reserveWrite env")
      case Write_Refused
      with nr show ?thesis by simp
    next
      case Write_Unanswered
      then have "reserve_and_pay cfg lib env cx st = (Error_Response 500 Unhandled None,
           st\<lparr>fs_ledger := snd (reserve_sql (opts_of cfg lib env cx) (purged cfg env (fs_ledger st)))\<rparr>)"
        by (simp add: rp)
      with True Write_Unanswered show ?thesis by (rule unanswered)
    next
      case Write_Lands
      show ?thesis
      proof (cases "get_sender_for (rt_sender_is_zallet cfg) (rt_ctaz_enabled cfg) (cx_network cx)")
        case None
        then have "cx_network cx = Ctaz \<and> \<not> rt_ctaz_enabled cfg" by (auto simp: get_sender_for_def split: if_splits)
        with True show ?thesis by (intro no_sender) simp_all
      next
        case (Some sender)
        then have "reserve_and_pay cfg lib env cx st =
             conclude_send cfg env cx sender (last_rowid (fs_ledger st) + 1)
               (send_answer cfg lib env cx sender (ro_amount_zat (opts_of cfg lib env cx)))
               (st\<lparr>fs_ledger := snd (reserve_sql (opts_of cfg lib env cx) (purged cfg env (fs_ledger st)))\<rparr>)"
          using Write_Lands by (simp add: rp)
        with True Write_Lands Some show ?thesis by (rule ran)
      qed
    qed
  qed
qed

text \<open>What a run settles its row to: the status and the stored id.\<close>

fun settlement :: "send_run \<Rightarrow> claim_status \<times> string option" where
  "settlement Run_Queue_Full = (Failed, None)"
| "settlement Run_Deadline = (Sent, Some ''unknown:deadline'')"
| "settlement (Run_Threw (Outcome_Unknown opid cause)) = (Sent, Some (''unknown:'' @ opid))"
| "settlement (Run_Threw e) = (Failed, None)"
| "settlement (Run_Sent r) = (Sent, if truthy (res_txid r) then res_txid r else None)"

text \<open>A result without a transaction id is settled only for a sender that has none.\<close>

definition settles_run :: "sender_name \<Rightarrow> send_run \<Rightarrow> bool" where
  "settles_run sender run = (\<forall>r. run = Run_Sent r \<longrightarrow> truthy (res_txid r) \<or> sender = Crosslink_Sender)"

lemma finalize_logged_claims:
  "ce_finalizeLands env \<Longrightarrow> st \<noteq> Sent \<or> truthy tx \<or> why \<noteq> None \<Longrightarrow>
     claims (finalize_logged env i st tx why net l)
       = claims (finalize_sql st (if truthy tx then tx else None) i l)
     \<and> last_rowid (finalize_logged env i st tx why net l) = last_rowid l"
  by (auto simp: finalize_logged_def finalize_claim_def Let_def split: sum.splits)

lemma finalize_logged_lost:
  "\<not> ce_finalizeLands env \<or> (st = Sent \<and> \<not> truthy tx \<and> why = None) \<Longrightarrow>
     finalize_logged env i st tx why net l = l"
  by (auto simp: finalize_logged_def finalize_claim_def)

lemma conclude_send_ledger:
  "claims (fs_ledger (snd (conclude_send cfg env cx sender i run st))) =
     (if ce_finalizeLands env \<and> settles_run sender run
      then claims (finalize_sql (fst (settlement run)) (snd (settlement run)) i (fs_ledger st))
      else claims (fs_ledger st))"
  "last_rowid (fs_ledger (snd (conclude_send cfg env cx sender i run st))) = last_rowid (fs_ledger st)"
proof -
  have fl: "claims (finalize_logged env i s tx why net l) =
      (if ce_finalizeLands env \<and> (s \<noteq> Sent \<or> truthy tx \<or> why \<noteq> None)
       then claims (finalize_sql s (if truthy tx then tx else None) i l) else claims l)"
    "last_rowid (finalize_logged env i s tx why net l) = last_rowid l" for s tx why net l
    using finalize_logged_claims [of env s tx why i net l] finalize_logged_lost [of env s tx why i net l]
    by (cases "ce_finalizeLands env \<and> (s \<noteq> Sent \<or> truthy tx \<or> why \<noteq> None)"; auto)+
  note d = conclude_send_def conclude_unknown_def conclude_failed_def log_send_def Let_def unknown_marker_def fl
    settles_run_def
  show "claims (fs_ledger (snd (conclude_send cfg env cx sender i run st))) =
     (if ce_finalizeLands env \<and> settles_run sender run
      then claims (finalize_sql (fst (settlement run)) (snd (settlement run)) i (fs_ledger st))
      else claims (fs_ledger st))"
  proof (cases run)
    case (Run_Threw e)
    then show ?thesis by (cases e) (simp_all add: d)
  qed (auto simp: d)
  show "last_rowid (fs_ledger (snd (conclude_send cfg env cx sender i run st))) = last_rowid (fs_ledger st)"
  proof (cases run)
    case (Run_Threw e)
    then show ?thesis by (cases e) (simp_all add: d)
  qed (simp_all add: d)
qed

lemma conclude_send_response:
  "(case fst (conclude_send cfg env cx sender i run st) of
      Ok_Response rc \<Rightarrow> \<exists>r. run = Run_Sent r \<and> rc_txid rc = res_txid r \<and> rc_network rc = cx_network cx \<and> rc_sender rc = sender
    | Error_Response s g r \<Rightarrow>
        (g = Send_Unknown \<longleftrightarrow> run = Run_Deadline \<or> (\<exists>opid cause. run = Run_Threw (Outcome_Unknown opid cause)))
        \<and> \<not> (\<exists>r. run = Run_Sent r))"
proof (cases run)
  case (Run_Threw e)
  then show ?thesis by (cases e) (simp_all add: conclude_send_def conclude_unknown_def Let_def)
qed (simp_all add: conclude_send_def conclude_unknown_def Let_def)

text \<open>The row this handler inserted.\<close>

definition new_row :: "faucet_state \<Rightarrow> claim \<Rightarrow> bool" where
  "new_row st c = (claim_id c = last_rowid (fs_ledger st) + 1)"

lemma settled_row:
  assumes "reserve_admits o' rows" and "l' = snd (reserve_sql o' l)" and "rows = claims l"
    and "i = last_rowid l + 1"
  shows "\<exists>c\<in>set (claims (finalize_sql s tx i l')). claim_id c = i \<and> status c = s \<and> claim_txid c = tx
      \<and> address_hash c = ro_address_hash o' \<and> claim_network c = ro_network o' \<and> amount_zat c = ro_amount_zat o'
      \<and> created_at c = ro_now o'"
  using assms by (auto simp: reserve_sql_def Let_def finalize_sql_def reserve_row_def)

lemma purged_frame [simp]: "last_rowid (purged cfg env l) = last_rowid l"
  by (simp add: purged_def purge_sql_def)

lemma answer_of_settlement:
  assumes c: "conclude_send cfg env cx sender i run st = (resp, st')"
    and row: "status row = fst (settlement run)" "claim_txid row = snd (settlement run)"
  shows "case resp of
        Ok_Response rc \<Rightarrow> status row = Sent \<and> rc_network rc = cx_network cx \<and> (truthy (rc_txid rc) \<longrightarrow> claim_txid row = rc_txid rc)
      | Error_Response s g r \<Rightarrow>
          if g = Send_Unknown then status row = Sent else g \<in> {Busy, Recipient, Send_Failed_Gate} \<and> status row = Failed"
proof -
  note resp = conclude_send_response [where cfg = cfg and env = env and cx = cx and sender = sender and i = i
      and run = run and st = st, unfolded c fst_conv]
  have gate: "g \<in> {Send_Unknown, Busy, Recipient, Send_Failed_Gate}" if "resp = Error_Response s g r" for s g r
    using conclude_gate [of cfg env cx sender i run st] c that by simp
  show ?thesis
  proof (cases resp)
    case (Ok_Response rc)
    with resp row show ?thesis by auto
  next
    case (Error_Response s g r)
    have "settlement run = (Failed, None)" if "g \<noteq> Send_Unknown"
    proof (cases run)
      case (Run_Threw e)
      with resp that Error_Response show ?thesis by (cases e) auto
    qed (use resp that Error_Response in auto)
    moreover have "fst (settlement run) = Sent" if "g = Send_Unknown"
      using resp that Error_Response by auto
    ultimately show ?thesis using Error_Response gate [of s g r] row by auto
  qed
qed

lemma receipt_settles_run:
  assumes "conclude_send cfg env cx sender i run st = (resp, st')"
  shows "settles_run sender run \<longleftrightarrow> (\<forall>rc. resp = Ok_Response rc \<longrightarrow> truthy (rc_txid rc) \<or> rc_sender rc = Crosslink_Sender)"
proof -
  note resp = conclude_send_response [where cfg = cfg and env = env and cx = cx and sender = sender and i = i
      and run = run and st = st, unfolded assms fst_conv]
  show ?thesis using resp by (cases resp) (auto simp: settles_run_def)
qed

text \<open>What the answer says became of the row the handler inserted.\<close>

definition row_as_answered :: "claim_env \<Rightarrow> network \<Rightarrow> response \<Rightarrow> claim \<Rightarrow> bool" where
  "row_as_answered env net resp c =
     (case resp of
        Ok_Response rc \<Rightarrow> rc_network rc = net
          \<and> (if ce_finalizeLands env \<and> (truthy (rc_txid rc) \<or> rc_sender rc = Crosslink_Sender)
              then status c = Sent \<and> (truthy (rc_txid rc) \<longrightarrow> claim_txid c = rc_txid rc)
              else status c = Pending)
      | Error_Response s g r \<Rightarrow> g \<in> {Send_Unknown, Busy, Recipient, Send_Failed_Gate, Unhandled}
          \<and> status c = (if g = Unhandled \<or> \<not> ce_finalizeLands env then Pending else if g = Send_Unknown then Sent else Failed))"

lemma inserted_row:
  assumes "reserve_admits o' (claims l)" and "l' = snd (reserve_sql o' l)" and "i = last_rowid l + 1"
  shows "\<exists>c\<in>set (claims l'). claim_id c = i \<and> status c = Pending
      \<and> address_hash c = ro_address_hash o' \<and> claim_network c = ro_network o' \<and> created_at c = ro_now o'"
  using assms by (auto simp: reserve_sql_def Let_def reserve_row_def)

lemma concluded_row:
  assumes adm: "reserve_admits o' (claims l)" and i: "i = last_rowid l + 1"
    and c: "conclude_send cfg env cx sender i run (st\<lparr>fs_ledger := snd (reserve_sql o' l)\<rparr>) = (resp, st')"
  shows "\<exists>c\<in>set (claims (fs_ledger st')). claim_id c = i \<and> address_hash c = ro_address_hash o' \<and> claim_network c = ro_network o'
    \<and> created_at c = ro_now o' \<and> row_as_answered env (cx_network cx) resp c"
proof (cases "ce_finalizeLands env \<and> settles_run sender run")
  case True
  let ?fin = "finalize_sql (fst (settlement run)) (snd (settlement run)) i (snd (reserve_sql o' l))"
  have cl: "claims (fs_ledger st') = claims ?fin"
    using conclude_send_ledger(1) [of cfg env cx sender i run "st\<lparr>fs_ledger := snd (reserve_sql o' l)\<rparr>"] c True by simp
  obtain row where row: "row \<in> set (claims (fs_ledger st'))" "claim_id row = i" "status row = fst (settlement run)"
    "claim_txid row = snd (settlement run)" "address_hash row = ro_address_hash o'"
    "claim_network row = ro_network o'" "created_at row = ro_now o'"
    using settled_row [OF adm refl refl i, of "fst (settlement run)" "snd (settlement run)"] unfolding cl by blast
  have "row_as_answered env (cx_network cx) resp row"
    using answer_of_settlement [OF c row(3,4)] True receipt_settles_run [OF c]
    by (auto simp: row_as_answered_def split: response.splits if_splits)
  with row show ?thesis by blast
next
  case False
  have cl: "claims (fs_ledger st') = claims (snd (reserve_sql o' l))"
    using conclude_send_ledger(1) [of cfg env cx sender i run "st\<lparr>fs_ledger := snd (reserve_sql o' l)\<rparr>"] c False by auto
  obtain row where row: "row \<in> set (claims (fs_ledger st'))" "claim_id row = i" "status row = Pending"
    "address_hash row = ro_address_hash o'" "claim_network row = ro_network o'" "created_at row = ro_now o'"
    using inserted_row [OF adm refl i] unfolding cl by blast
  note resp = conclude_send_response [where cfg = cfg and env = env and cx = cx and sender = sender and i = i
      and run = run and st = "st\<lparr>fs_ledger := snd (reserve_sql o' l)\<rparr>", unfolded c fst_conv]
  have gate: "g \<in> {Send_Unknown, Busy, Recipient, Send_Failed_Gate}" if "resp = Error_Response s g r" for s g r
    using conclude_gate [of cfg env cx sender i run] c that by (metis fst_conv)
  have "row_as_answered env (cx_network cx) resp row"
    using row(3) resp gate False receipt_settles_run [OF c]
    by (cases resp) (auto simp: row_as_answered_def settles_run_def)
  with row show ?thesis by blast
qed

lemma settled_answer:
  assumes "handle_claim cfg lib env body st = (resp, st')"
    and "last_rowid (fs_ledger st') \<noteq> last_rowid (fs_ledger st)"
  shows "\<exists>cx c. check_request cfg lib env body st = Inr cx \<and> c \<in> set (claims (fs_ledger st')) \<and> new_row st c
    \<and> address_hash c = fp_of cfg lib (cx_address cx) \<and> claim_network c = cx_network cx
    \<and> created_at c = ce_nowMs env div 1000 \<and> row_as_answered env (cx_network cx) resp c
    \<and> ((\<exists>s r. resp = Error_Response s Unhandled r) \<longrightarrow> fs_sends st' = fs_sends st)"
proof (cases rule: handle_cases [of cfg lib env body st])
  case (early s g r)
  with assms show ?thesis by simp
next
  case (on cx st2)
  note fr = reached_frame [OF on(1)]
  have ck: "check_request cfg lib env body st = Inr cx" using on(1) by (simp add: reached_def)
  have h: "reserve_and_pay cfg lib env cx st2 = (resp, st')" using on(2) assms(1) by simp
  let ?o = "opts_of cfg lib env cx" and ?l = "purged cfg env (fs_ledger st2)"
  have i: "last_rowid (fs_ledger st2) + 1 = last_rowid ?l + 1" by simp
  show ?thesis
  proof (cases rule: reserve_and_pay_cases [of cfg lib env cx st2])
    case (refused q)
    with h assms(2) fr show ?thesis by auto
  next
    case no_sender
    then show ?thesis using ck by (auto simp: check_request_def split: option.splits sum.splits if_splits)
  next
    case unanswered
    then have st': "resp = Error_Response 500 Unhandled None" "st' = st2\<lparr>fs_ledger := snd (reserve_sql ?o ?l)\<rparr>" using h by auto
    obtain c where "c \<in> set (claims (fs_ledger st'))" "claim_id c = last_rowid ?l + 1" "status c = Pending"
      "address_hash c = ro_address_hash ?o" "claim_network c = ro_network ?o" "created_at c = ro_now ?o"
      using inserted_row [OF unanswered(1) refl refl] st'(2) by auto
    then show ?thesis using ck fr st'
      by (intro exI [of _ cx] exI [of _ c]) (simp add: new_row_def row_as_answered_def)
  next
    case (ran sender)
    have c: "conclude_send cfg env cx sender (last_rowid (fs_ledger st2) + 1) (send_answer cfg lib env cx sender (ro_amount_zat ?o))
        (st2\<lparr>fs_ledger := snd (reserve_sql ?o ?l)\<rparr>) = (resp, st')" using ran(4) h by simp
    have "resp \<noteq> Error_Response s Unhandled r" for s r
      using conclude_gate [where cfg = cfg and env = env and cx = cx and sender = sender and g = Unhandled and s = s and r = r
          and i = "last_rowid (fs_ledger st2) + 1" and run = "send_answer cfg lib env cx sender (ro_amount_zat ?o)"
          and st = "st2\<lparr>fs_ledger := snd (reserve_sql ?o ?l)\<rparr>", unfolded c fst_conv] by auto
    then show ?thesis using concluded_row [OF ran(1) i c] ck fr by (auto simp: new_row_def)
  qed
qed

lemma answered_row:
  assumes "handle_claim cfg lib env body st = (resp, st')"
    and "(\<exists>rc. resp = Ok_Response rc) \<or> (\<exists>s r. resp = Error_Response s Send_Unknown r)"
  shows "last_rowid (fs_ledger st') \<noteq> last_rowid (fs_ledger st)"
proof (cases rule: handle_cases [of cfg lib env body st])
  case (early s g r)
  with assms show ?thesis by (auto simp: early_gates_def)
next
  case (on cx st2)
  note fr = reached_frame [OF on(1)]
  have ck: "check_request cfg lib env body st = Inr cx" using on(1) by (simp add: reached_def)
  have p: "reserve_and_pay cfg lib env cx st2 = (resp, st')" using on(2) assms(1) by simp
  show ?thesis
  proof (cases rule: reserve_and_pay_cases [of cfg lib env cx st2])
    case (refused q)
    with p assms(2) show ?thesis by (auto simp: refusal_response_def split: if_splits)
  next
    case unanswered
    with p assms(2) show ?thesis by auto
  next
    case no_sender
    then show ?thesis using ck by (auto simp: check_request_def split: option.splits sum.splits if_splits)
  next
    case (ran sender)
    let ?st = "st2\<lparr>fs_ledger := snd (reserve_sql (opts_of cfg lib env cx) (purged cfg env (fs_ledger st2)))\<rparr>"
    have "st' = snd (conclude_send cfg env cx sender (last_rowid (fs_ledger st2) + 1)
        (send_answer cfg lib env cx sender (ro_amount_zat (opts_of cfg lib env cx))) ?st)"
      by (simp only: ran(4) [symmetric] p snd_conv)
    then have "last_rowid (fs_ledger st') = last_rowid (fs_ledger ?st)" by (simp only: conclude_send_ledger(2))
    also have "\<dots> = last_rowid (fs_ledger st2) + 1" using ran(1) by (simp add: reserve_sql_def Let_def)
    finally show ?thesis using fr by simp
  qed
qed

text \<open>
  C5: What the answer says about the reservation. Whenever the handler inserts a row, it is for the request's
  address and network, and the answer settles it. A receipt means the row is marked sent, with the
  receipt's transaction id, provided the last write lands and the receipt has an id or comes from the feature
  net, which gives none; otherwise the row of a payment stays pending. An outcome nobody knows marks it sent,
  holding the cooldown; busy, recipient and send failed mark it failed, releasing the address; each of
  them leaves it pending when the last write is lost. The one answer left is the unhandled 500, of a
  reservation whose reply was lost: its row is pending and no send was made. Pending rows hold the address
  for the lease.
\<close>

theorem answer_settles_the_claim:
  assumes "handle_claim cfg lib env body st = (resp, st')"
    and "last_rowid (fs_ledger st') \<noteq> last_rowid (fs_ledger st)"
  shows "\<exists>cx c. check_request cfg lib env body st = Inr cx \<and> c \<in> set (claims (fs_ledger st')) \<and> new_row st c
    \<and> address_hash c = fp_of cfg lib (cx_address cx) \<and> claim_network c = cx_network cx
    \<and> created_at c = ce_nowMs env div 1000
    \<and> (case resp of
        Ok_Response rc \<Rightarrow> rc_network rc = cx_network cx
          \<and> (if ce_finalizeLands env \<and> (truthy (rc_txid rc) \<or> rc_sender rc = Crosslink_Sender)
              then status c = Sent \<and> (truthy (rc_txid rc) \<longrightarrow> claim_txid c = rc_txid rc)
              else status c = Pending)
      | Error_Response s g r \<Rightarrow> g \<in> {Send_Unknown, Busy, Recipient, Send_Failed_Gate, Unhandled}
          \<and> status c = (if g = Unhandled \<or> \<not> ce_finalizeLands env then Pending else if g = Send_Unknown then Sent else Failed)
          \<and> (g = Unhandled \<longrightarrow> fs_sends st' = fs_sends st))"
  using settled_answer [OF assms] unfolding row_as_answered_def by (cases resp) auto

subsection \<open>A concrete faucet\<close>

definition ex_route :: route_config where
  "ex_route = \<lparr>rt_challenge_is_pow = False, rt_pow = ex_cfg, rt_ctaz_enabled = True, rt_expectedZat = 50,
     rt_ctazCapZat = 1000, rt_dripZat = 70, rt_capZat = 1000, rt_minReserveZat = 0, rt_cooldown = 86400,
     rt_subnetMax = 20, rt_ipMax = 5, rt_lease = 5000, rt_sender_is_zallet = True, rt_zallet = ex_zallet,
     rt_sendDeadlineMs = 309000, rt_sendWindowMs = 900000, rt_walletMaxLag = 10, rt_salt = ''s'',
     rt_trustedProxies = 1\<rparr>"

definition ex_libs :: libs where
  "ex_libs = \<lparr>lib_decoders = ex_decoders, lib_fingerprint = rev, lib_hmac = ex_hmac, lib_sha256 = ex_sha,
     lib_explorer = (\<lambda>_. None), lib_realSend = (\<lambda>_ _ _. (0, Inl (Recipient_Refused '''')))\<rparr>"

definition ex_ctaz_ready :: ctaz_node_state where
  "ex_ctaz_ready = read_ctaz_node_state True (Node_Result (Some ex_recency)) 1060000 ex_info ex_no_file 1055000"

definition ex_env :: "int \<Rightarrow> crosslink_reply \<Rightarrow> claim_env" where
  "ex_env nowMs reply' = \<lparr>ce_forwardedFor = Some ''9.9.9.9'', ce_nowMs = nowMs, ce_verifyMs = nowMs, ce_spendMs = nowMs,
     ce_sendMs = nowMs, ce_doneMs = nowMs + 900, ce_balance = None, ce_walletHeight = None, ce_nodeHeight = None,
     ce_freshness = (\<lambda>n. chain_freshness 5 n None), ce_ctaz = ex_ctaz_ready, ce_spentReadOk = True, ce_spendWrite = Write_Lands, ce_reserveWrite = Write_Lands,
     ce_purgeLands = True, ce_queueFull = False, ce_wallet = ex_wallet, ce_ctazReply = (700, reply'),
     ce_finalizeLands = True, ce_bumpLands = True\<rparr>"

definition ex_body :: "claim_body option" where
  "ex_body = Some \<lparr>cb_address = ''tmAb'', cb_network = Some ''ctaz'', cb_pow = None\<rparr>"

definition ex_state :: faucet_state where
  "ex_state = \<lparr>fs_ledger = empty_ledger, fs_pow = empty_pow, fs_sends = [], fs_draining = False\<rparr>"

definition paid_state :: faucet_state where
  "paid_state = snd (handle_claim ex_route ex_libs (ex_env 2000000 (Cl_Amount 50)) ex_body ex_state)"

definition drifted_state :: faucet_state where
  "drifted_state = snd (handle_claim ex_route ex_libs (ex_env 2000000 (Cl_Amount 60)) ex_body ex_state)"

lemma paid_run:
  "fst (handle_claim ex_route ex_libs (ex_env 2000000 (Cl_Amount 50)) ex_body ex_state)
     = Ok_Response \<lparr>rc_txid = None, rc_explorerUrl = None, rc_paidZat = Some 50, rc_network = Ctaz,
         rc_sender = Crosslink_Sender, rc_to = \<lparr>ai_kind = Transparent, ai_shielded = False\<rparr>\<rparr>
   \<and> last_rowid (fs_ledger paid_state) = 1"
  by code_simp

theorem answer_settles_the_claim_witness:
  "\<exists>c\<in>set (claims (fs_ledger paid_state)). new_row ex_state c \<and> status c = Sent"
proof -
  have f: "ce_finalizeLands (ex_env 2000000 (Cl_Amount 50))" by (simp add: ex_env_def)
  have z: "last_rowid (fs_ledger ex_state) = 0" by (simp add: ex_state_def empty_ledger_def)
  have h: "handle_claim ex_route ex_libs (ex_env 2000000 (Cl_Amount 50)) ex_body ex_state =
     (Ok_Response \<lparr>rc_txid = None, rc_explorerUrl = None, rc_paidZat = Some 50, rc_network = Ctaz,
         rc_sender = Crosslink_Sender, rc_to = \<lparr>ai_kind = Transparent, ai_shielded = False\<rparr>\<rparr>, paid_state)"
    using paid_run by (simp add: paid_state_def prod_eq_iff)
  from answer_settles_the_claim [OF h] paid_run z f show ?thesis by auto
qed

text \<open>A failed row is seen by no rule of the reservation.\<close>

lemma failed_row_unseen: "status c = Failed \<Longrightarrow> reserve_admits o' (rows @ [c]) = reserve_admits o' rows"
  by (simp add: reserve_admits_def address_blocked_def ip_count_def ip_live_def subnet_count_def subnet_live_def
      cap_sum_def cap_live_def live_after_def live_from_def)

lemma failed_claim_unseen:
  assumes "reserve_admits oo (claims l)" and "\<forall>c\<in>set (claims l). claim_id c \<le> last_rowid l"
  shows "reserve_admits o' (claims (finalize_sql Failed tx (last_rowid l + 1) (snd (reserve_sql oo l)))) = reserve_admits o' (claims l)"
proof -
  have "map (\<lambda>c. if claim_id c = last_rowid l + 1 then c\<lparr>status := Failed, claim_txid := tx\<rparr> else c) (claims l) = claims l"
    using assms(2) by (intro map_idI) auto
  then have "claims (finalize_sql Failed tx (last_rowid l + 1) (snd (reserve_sql oo l)))
      = claims l @ [(reserve_row oo (last_rowid l + 1))\<lparr>status := Failed, claim_txid := tx\<rparr>]"
    using assms(1) by (simp add: finalize_sql_def reserve_sql_def Let_def reserve_row_def)
  then show ?thesis by (simp add: failed_row_unseen)
qed

lemma crosslink_fails:
  assumes "reply \<noteq> Cl_Amount (of_int expected)"
  obtains e where "crosslink_send expected reply = Inl e" "\<forall>opid why. e \<noteq> Outcome_Unknown opid why"
    "\<forall>m. e \<noteq> Recipient_Refused m"
proof (cases reply)
  case (Cl_Amount a)
  then show ?thesis using that assms by (cases "of_int \<lfloor>a\<rfloor> = a") (auto simp: crosslink_send_def)
qed (use that in \<open>auto simp: crosslink_send_def\<close>)

lemma thrown_claim_fails:
  assumes "conclude_send cfg env cx sender i (Run_Threw e) st = (resp, st')" and "ce_finalizeLands env"
    and "\<forall>opid why. e \<noteq> Outcome_Unknown opid why" and "\<forall>m. e \<noteq> Recipient_Refused m"
  shows "resp = Error_Response 502 Send_Failed_Gate None \<and> claims (fs_ledger st') = claims (finalize_sql Failed None i (fs_ledger st))"
proof
  show "resp = Error_Response 502 Send_Failed_Gate None"
    using assms by (cases e) (auto simp: conclude_send_def Let_def)
  have "settlement (Run_Threw e) = (Failed, None)" using assms(3) by (cases e) auto
  then show "claims (fs_ledger st') = claims (finalize_sql Failed None i (fs_ledger st))"
    using conclude_send_ledger(1) [of cfg env cx sender i "Run_Threw e" st] assms(1,2) by (simp add: settles_run_def)
qed

text \<open>
  C15: A feature-net payment that is not of the expected amount leaves no trace. Take any request for the
  feature network that gets its reservation and whose donation call is answered in time with anything but the
  expected amount, an amount the node has paid included. The sender throws, the handler answers the 502
  that says nothing left the wallet, the row is marked failed, and from then on every reservation, of
  this address or another, is admitted or refused as if the request had never come: the same address can
  be paid again at once.
\<close>

theorem drift_is_paid_again:
  assumes "handle_claim cfg lib env body st = (resp, st')" and "last_rowid (fs_ledger st') \<noteq> last_rowid (fs_ledger st)"
    and "check_request cfg lib env body st = Inr cx" and "cx_network cx = Ctaz"
    and "ce_ctazReply env = (took, reply)" and "took \<le> rt_sendDeadlineMs cfg" and "reply \<noteq> Cl_Amount (of_int (rt_expectedZat cfg))"
    and "\<not> ce_queueFull env" and "ce_finalizeLands env" and "ce_reserveWrite env = Write_Lands"
    and "\<forall>c\<in>set (claims (fs_ledger st)). claim_id c \<le> last_rowid (fs_ledger st)"
  shows "resp = Error_Response 502 Send_Failed_Gate None
    \<and> (\<exists>c\<in>set (claims (fs_ledger st')). new_row st c \<and> status c = Failed \<and> address_hash c = fp_of cfg lib (cx_address cx))
    \<and> (\<forall>o'. reserve_admits o' (claims (fs_ledger st')) \<longleftrightarrow> reserve_admits o' (claims (purged cfg env (fs_ledger st))))"
proof (cases rule: handle_cases [of cfg lib env body st])
  case (early s g r)
  with assms(1,2) show ?thesis by simp
next
  case (on cx' st2)
  have cx': "cx' = cx" using on(1) assms(3) by (simp add: reached_def)
  note fr = reached_frame [OF on(1)]
  have h: "reserve_and_pay cfg lib env cx st2 = (resp, st')" using on(2) assms(1) cx' by simp
  have same: "claims (purged cfg env (fs_ledger st2)) = claims (purged cfg env (fs_ledger st))"
    using fr(1) by (simp add: purged_def purge_sql_def)
  show ?thesis
  proof (cases rule: reserve_and_pay_cases [of cfg lib env cx st2])
    case (refused q)
    with h assms(2) fr show ?thesis by auto
  next
    case unanswered
    with assms(10) show ?thesis by simp
  next
    case no_sender
    then show ?thesis using assms(3) by (auto simp: check_request_def split: option.splits sum.splits if_splits)
  next
    case (ran sender)
    let ?o = "opts_of cfg lib env cx" and ?l = "purged cfg env (fs_ledger st2)"
    have "sender = Crosslink_Sender" using ran(3) assms(4) by (auto simp: get_sender_for_def split: if_splits)
    moreover obtain e where e: "crosslink_send (rt_expectedZat cfg) reply = Inl e" "\<forall>opid why. e \<noteq> Outcome_Unknown opid why"
      "\<forall>m. e \<noteq> Recipient_Refused m" using crosslink_fails [OF assms(7)] .
    ultimately have "send_answer cfg lib env cx sender (ro_amount_zat ?o) = Run_Threw e"
      using assms(5,6,8) by (simp add: send_answer_def raced_def)
    with ran(4) h have c: "conclude_send cfg env cx sender (last_rowid (fs_ledger st2) + 1) (Run_Threw e)
        (st2\<lparr>fs_ledger := snd (reserve_sql ?o ?l)\<rparr>) = (resp, st')" by simp
    note t = thrown_claim_fails [OF c assms(9) e(2,3)]
    have ids: "\<forall>c\<in>set (claims ?l). claim_id c \<le> last_rowid ?l"
      using assms(11) fr(1,2) by (auto simp: purged_def purge_sql_def)
    have i: "last_rowid (fs_ledger st2) + 1 = last_rowid ?l + 1" by simp
    have "\<exists>c\<in>set (claims (fs_ledger st')). new_row st c \<and> status c = Failed \<and> address_hash c = fp_of cfg lib (cx_address cx)"
      using settled_row [OF ran(1) refl refl i, of Failed None] t fr(2) by (auto simp: new_row_def)
    moreover have "reserve_admits o' (claims (fs_ledger st')) \<longleftrightarrow> reserve_admits o' (claims (purged cfg env (fs_ledger st)))" for o'
      using failed_claim_unseen [OF ran(1) ids, of o' None] t same by simp
    ultimately show ?thesis using t by blast
  qed
qed

text \<open>A node that paid 60 where 50 was expected, and ten seconds later pays the same address again.\<close>

lemma drift_run:
  "check_request ex_route ex_libs (ex_env 2000000 (Cl_Amount 60)) ex_body ex_state
     = Inr \<lparr>cx_address = ''tmAb'', cx_info = \<lparr>ai_kind = Transparent, ai_shielded = False\<rparr>, cx_network = Ctaz, cx_pow = None\<rparr>
   \<and> last_rowid (fs_ledger drifted_state) = 1
   \<and> fst (handle_claim ex_route ex_libs (ex_env 2010000 (Cl_Amount 50)) ex_body drifted_state)
       = Ok_Response \<lparr>rc_txid = None, rc_explorerUrl = None, rc_paidZat = Some 50, rc_network = Ctaz,
           rc_sender = Crosslink_Sender, rc_to = \<lparr>ai_kind = Transparent, ai_shielded = False\<rparr>\<rparr>
   \<and> map status (claims (fs_ledger (snd (handle_claim ex_route ex_libs (ex_env 2010000 (Cl_Amount 50)) ex_body drifted_state))))
       = [Failed, Sent]"
  by code_simp

theorem drift_is_paid_again_witness:
  "fst (handle_claim ex_route ex_libs (ex_env 2000000 (Cl_Amount 60)) ex_body ex_state) = Error_Response 502 Send_Failed_Gate None
   \<and> (\<exists>c\<in>set (claims (fs_ledger drifted_state)). status c = Failed)
   \<and> fst (handle_claim ex_route ex_libs (ex_env 2010000 (Cl_Amount 50)) ex_body drifted_state)
       = Ok_Response \<lparr>rc_txid = None, rc_explorerUrl = None, rc_paidZat = Some 50, rc_network = Ctaz,
           rc_sender = Crosslink_Sender, rc_to = \<lparr>ai_kind = Transparent, ai_shielded = False\<rparr>\<rparr>
   \<and> map status (claims (fs_ledger (snd (handle_claim ex_route ex_libs (ex_env 2010000 (Cl_Amount 50)) ex_body drifted_state))))
       = [Failed, Sent]"
proof -
  obtain resp where h: "handle_claim ex_route ex_libs (ex_env 2000000 (Cl_Amount 60)) ex_body ex_state = (resp, drifted_state)"
    by (simp add: drifted_state_def prod_eq_iff)
  have z: "last_rowid (fs_ledger drifted_state) \<noteq> last_rowid (fs_ledger ex_state)"
    using drift_run by (simp add: ex_state_def empty_ledger_def)
  have reply: "ce_ctazReply (ex_env 2000000 (Cl_Amount 60)) = (700, Cl_Amount 60)" by (simp add: ex_env_def)
  have "resp = Error_Response 502 Send_Failed_Gate None
    \<and> (\<exists>c\<in>set (claims (fs_ledger drifted_state)). new_row ex_state c \<and> status c = Failed \<and> address_hash c = fp_of ex_route ex_libs ''tmAb'')"
    using drift_is_paid_again [OF h z conjunct1 [OF drift_run] _ reply]
    by (simp add: ex_env_def ex_route_def ex_state_def empty_ledger_def)
  then show ?thesis using h drift_run by auto
qed

text \<open>
  A refusal before the reservation costs the visitor nothing. An answer with any label of a gate in
  front of the reservation leaves every claim, the row counter, the drip counts and the record of
  sends as they were, and unless the label is that of a spent challenge the whole ledger, spent
  challenges included.
\<close>

theorem early_refusal_costs_nothing:
  assumes "handle_claim cfg lib env body st = (Error_Response s g r, st')" and "g \<in> early_gates"
  shows "claims (fs_ledger st') = claims (fs_ledger st) \<and> last_rowid (fs_ledger st') = last_rowid (fs_ledger st)
    \<and> drip_days (fs_ledger st') = drip_days (fs_ledger st) \<and> fs_sends st' = fs_sends st
    \<and> (g \<noteq> Challenge_Spent \<longrightarrow> fs_ledger st' = fs_ledger st)"
proof (cases rule: handle_cases [of cfg lib env body st])
  case (early s' g' r')
  with assms show ?thesis by (auto simp: early_gates_def)
next
  case (on cx st2)
  with assms reserved_not_early [of g cfg lib env cx st2 s r] show ?thesis by simp
qed

theorem early_refusal_costs_nothing_witness:
  "fs_ledger (snd (handle_claim ex_route ex_libs (ex_env 2010000 (Cl_Amount 50)) None paid_state)) = fs_ledger paid_state"
proof -
  have "handle_claim ex_route ex_libs (ex_env 2010000 (Cl_Amount 50)) None paid_state
      = (Error_Response 400 Bad_Body None, paid_state)" by (simp add: handle_claim_def check_request_def)
  from early_refusal_costs_nothing [OF this] show ?thesis
    using \<open>handle_claim _ _ _ _ _ = _\<close> by (simp add: early_gates_def)
qed

subsection \<open>What a reservation has passed\<close>




lemma inserted_reached:
  assumes "handle_claim cfg lib env body st = (resp, st')"
    and "last_rowid (fs_ledger st') \<noteq> last_rowid (fs_ledger st)"
  obtains cx st2 where "reached cfg lib env body st cx st2"
proof (cases rule: handle_cases [of cfg lib env body st])
  case (early s g r)
  with assms show ?thesis by simp
next
  case (on cx st2)
  then show ?thesis using that by blast
qed

text \<open>
  C8: No testnet drip is built to die. When the handler inserts a claim on the public testnet paid
  through the wallet, both freshness gates had passed on the heights it read: the wallet's scanned
  height and the independent tip are known, and the expiry height the wallet will stamp is at least
  ten blocks above the tip, at any configured budgets.
\<close>

theorem taz_claim_has_ten_blocks:
  assumes "handle_claim cfg lib env body st = (resp, st')"
    and "last_rowid (fs_ledger st') \<noteq> last_rowid (fs_ledger st)"
    and "check_request cfg lib env body st = Inr cx" and "cx_network cx = Taz" and "rt_sender_is_zallet cfg"
    and "rt_walletMaxLag cfg = wallet_max_lag_blocks wallet_conf"
    and "ce_freshness env (ce_nodeHeight env) = chain_freshness (shield_max_lag_blocks shield_conf) (ce_nodeHeight env) tip"
  shows "\<exists>w e. ce_walletHeight env = Some w \<and> tip = Some e \<and> e + 10 \<le> w + EXPIRY_DELTA_BLOCKS"
proof -
  obtain cx' st2 where "reached cfg lib env body st cx' st2" using inserted_reached [OF assms(1,2)] .
  then have "check_backend cfg env cx = None" using assms(3) by (simp add: reached_def)
  then show ?thesis
    using assms(4-7)
    by (intro safe_gates_leave_ten) (auto simp: check_backend_def Let_def gates_apply_def split: if_splits)
qed

definition taz_env :: claim_env where
  "taz_env = (ex_env 2000000 (Cl_Amount 50))\<lparr>ce_queueFull := True, ce_walletHeight := Some 985, ce_nodeHeight := Some 990,
     ce_freshness := (\<lambda>n. chain_freshness 5 n (Some 992))\<rparr>"

definition taz_body :: "claim_body option" where
  "taz_body = Some \<lparr>cb_address = ''tmAb'', cb_network = None, cb_pow = None\<rparr>"

theorem taz_claim_has_ten_blocks_witness:
  "\<exists>w e. Some 985 = Some w \<and> Some 992 = Some e \<and> e + 10 \<le> w + EXPIRY_DELTA_BLOCKS"
proof -
  obtain resp st' where h: "handle_claim ex_route ex_libs taz_env taz_body ex_state = (resp, st')" by fastforce
  have "last_rowid (fs_ledger (snd (handle_claim ex_route ex_libs taz_env taz_body ex_state))) = 1
      \<and> check_request ex_route ex_libs taz_env taz_body ex_state
          = Inr \<lparr>cx_address = ''tmAb'', cx_info = \<lparr>ai_kind = Transparent, ai_shielded = False\<rparr>, cx_network = Taz, cx_pow = None\<rparr>"
    by code_simp
  then have "last_rowid (fs_ledger st') \<noteq> last_rowid (fs_ledger ex_state)"
    and "check_request ex_route ex_libs taz_env taz_body ex_state
          = Inr \<lparr>cx_address = ''tmAb'', cx_info = \<lparr>ai_kind = Transparent, ai_shielded = False\<rparr>, cx_network = Taz, cx_pow = None\<rparr>"
    using h by (simp_all add: ex_state_def empty_ledger_def)
  from taz_claim_has_ten_blocks [OF h this, of 10 5 "Some 992"]
  show ?thesis
    by (simp add: ex_route_def taz_env_def wallet_max_lag_blocks_def WALLET_LAG_CEILING_def
        shield_max_lag_blocks_def SHIELD_LAG_CEILING_def)
qed







end
