(* ===== verification/Claim_System.thy ===== *)
theory Claim_System
  imports Ledger_System Claim_Safety
begin

text \<open>
  Serving claim requests is running the steps of \<open>Ledger_System\<close>: a simulation of the whole handler of
  \<open>Claim_Route\<close> by the reservation's step relation, and what follows for a faucet that serves a list of
  requests.
\<close>

subsection \<open>One request\<close>

definition policy_of :: "route_config \<Rightarrow> policy" where
  "policy_of cfg = \<lparr>pol_cooldown = rt_cooldown cfg, pol_lease = rt_lease cfg,
     pol_cap = (\<lambda>n. if n = Ctaz then rt_ctazCapZat cfg else rt_capZat cfg),
     pol_subnet_max = rt_subnetMax cfg, pol_ip_max = rt_ipMax cfg\<rparr>"

text \<open>The part of the ledger the reservation rules read.\<close>

definition same_claims :: "ledger \<Rightarrow> ledger \<Rightarrow> bool" where
  "same_claims l m = (claims l = claims m \<and> last_rowid l = last_rowid m)"

lemma same_claims_reserve:
  "same_claims l m \<Longrightarrow> same_claims (snd (reserve_sql o' l)) (snd (reserve_sql o' m))"
  by (auto simp: same_claims_def reserve_sql_def Let_def)

lemma same_claims_purged:
  "same_claims l m \<Longrightarrow> same_claims (purged cfg env l) (purged cfg env m)"
  by (auto simp: same_claims_def purged_def purge_sql_def)

lemma obeys_opts:
  "0 \<le> rt_dripZat cfg \<Longrightarrow> 0 \<le> rt_expectedZat cfg \<Longrightarrow> obeys (policy_of cfg) (opts_of cfg lib env cx)"
  by (simp add: obeys_def policy_of_def)

lemma purge_steps:
  assumes "ce_nowMs env div 1000 \<le> w_clock w"
  shows "(ledger_step (policy_of cfg))\<^sup>*\<^sup>* w (w\<lparr>w_ledger := purged cfg env (w_ledger w)\<rparr>)"
proof (cases "ce_purgeLands env")
  case True
  have "ledger_step (policy_of cfg) w (w\<lparr>w_ledger := purge_sql (retention_cutoff (pol_lease (policy_of cfg))
      (ce_nowMs env div 1000) (pol_cooldown (policy_of cfg))) (w_ledger w)\<rparr>)"
    using assms by (rule step_purge)
  with True show ?thesis by (simp add: purged_def policy_of_def)
next
  case False
  then show ?thesis by (simp add: purged_def)
qed

lemma reserve_steps:
  assumes "0 \<le> rt_dripZat cfg" and "0 \<le> rt_expectedZat cfg"
    and "ce_nowMs env div 1000 \<le> w_clock w" and "w_clock w \<le> ce_nowMs env div 1000 + 3600"
  shows "\<exists>w'. (ledger_step (policy_of cfg))\<^sup>*\<^sup>* w w' \<and> w_clock w' = w_clock w
    \<and> w_ledger w' = snd (reserve_sql (opts_of cfg lib env cx) (purged cfg env (w_ledger w)))"
proof -
  let ?w = "w\<lparr>w_ledger := purged cfg env (w_ledger w)\<rparr>"
  let ?w' = "?w\<lparr>w_ledger := snd (reserve_sql (opts_of cfg lib env cx) (w_ledger ?w)),
         w_history := (if reserve_admits (opts_of cfg lib env cx) (claims (w_ledger ?w))
           then w_history ?w @ [reserve_row (opts_of cfg lib env cx) (last_rowid (w_ledger ?w) + 1)] else w_history ?w)\<rparr>"
  have "ledger_step (policy_of cfg) ?w ?w'"
    using assms by (intro step_reserve) (simp_all add: obeys_opts)
  with purge_steps [OF assms(3)] have "(ledger_step (policy_of cfg))\<^sup>*\<^sup>* w ?w'"
    by (rule rtranclp.rtrancl_into_rtrancl)
  then show ?thesis by (intro exI [of _ ?w'] conjI) simp_all
qed

lemma settlement_done: "fst (settlement run) \<noteq> Pending"
  by (cases run rule: settlement.cases) auto

lemma settle_steps:
  assumes "reserve_admits o' (claims l)" and "w_ledger w = snd (reserve_sql o' l)" and "w_clock w \<le> t"
    and "t < ro_now o' + pol_lease pol" and "s \<noteq> Pending"
  shows "\<exists>w'. (ledger_step pol)\<^sup>*\<^sup>* w w' \<and> w_clock w' = t
    \<and> w_ledger w' = finalize_sql s tx (last_rowid l + 1) (w_ledger w)"
proof -
  let ?t = "w\<lparr>w_clock := t\<rparr>"
  have tick: "ledger_step pol w ?t" using assms(3) by (rule step_tick)
  have "settles pol ?t (last_rowid l + 1)"
    using assms(1,2,4) by (auto simp: settles_def reserve_sql_def Let_def reserve_row_def)
  let ?w' = "?t\<lparr>w_ledger := finalize_sql s tx (last_rowid l + 1) (w_ledger ?t),
      w_history := map (set_status s tx (last_rowid l + 1)) (w_history ?t)\<rparr>"
  have "ledger_step pol ?t ?w'"
    using assms(5) \<open>settles pol ?t (last_rowid l + 1)\<close> by (rule step_finalize)
  with tick have "(ledger_step pol)\<^sup>*\<^sup>* w ?w'" by auto
  then show ?thesis by (intro exI [of _ ?w'] conjI) simp_all
qed

text \<open>One request, from a world whose claims are those of the process.\<close>

definition on_time :: "route_config \<Rightarrow> claim_env \<Rightarrow> int \<Rightarrow> bool" where
  "on_time cfg env clock =
     (ce_nowMs env div 1000 \<le> clock \<and> clock \<le> ce_nowMs env div 1000 + 3600
      \<and> clock \<le> ce_doneMs env div 1000 \<and> ce_doneMs env div 1000 < ce_nowMs env div 1000 + rt_lease cfg)"

text \<open>A reservation that held, and the end of its send.\<close>

lemma ran_steps:
  assumes "0 \<le> rt_dripZat cfg" and "0 \<le> rt_expectedZat cfg" and t: "on_time cfg env (w_clock w)"
    and same: "same_claims (w_ledger w) l"
    and adm: "reserve_admits (opts_of cfg lib env cx) (claims (purged cfg env l))"
  shows "\<exists>w'. (ledger_step (policy_of cfg))\<^sup>*\<^sup>* w w' \<and> w_clock w' \<le> ce_doneMs env div 1000
    \<and> same_claims (w_ledger w') (fs_ledger (snd (conclude_send cfg env cx sender (last_rowid l + 1) run
          (st\<lparr>fs_ledger := snd (reserve_sql (opts_of cfg lib env cx) (purged cfg env l))\<rparr>))))"
proof -
  let ?o = "opts_of cfg lib env cx" and ?i = "last_rowid l + 1"
  let ?l = "snd (reserve_sql ?o (purged cfg env l))"
  note pu = same_claims_purged [OF same, of cfg env]
  have t1: "ce_nowMs env div 1000 \<le> w_clock w" "w_clock w \<le> ce_nowMs env div 1000 + 3600"
    "w_clock w \<le> ce_doneMs env div 1000" using t by (simp_all add: on_time_def)
  obtain w1 where w1: "(ledger_step (policy_of cfg))\<^sup>*\<^sup>* w w1" "w_clock w1 = w_clock w"
    "w_ledger w1 = snd (reserve_sql ?o (purged cfg env (w_ledger w)))"
    using reserve_steps [OF assms(1,2) t1(1,2)] by blast
  have s1: "same_claims (w_ledger w1) ?l" using same_claims_reserve [OF pu] w1(3) by simp
  note fin = conclude_send_ledger [of cfg env cx sender ?i run "st\<lparr>fs_ledger := ?l\<rparr>"]
  show ?thesis
  proof (cases "ce_finalizeLands env \<and> settles_run sender run")
    case False
    have "same_claims (w_ledger w1) (fs_ledger (snd (conclude_send cfg env cx sender ?i run (st\<lparr>fs_ledger := ?l\<rparr>))))"
      using s1 unfolding same_claims_def fin if_not_P [OF False] by simp
    with w1 t1(3) show ?thesis by auto
  next
    case True
    have lease: "ce_doneMs env div 1000 < ro_now ?o + pol_lease (policy_of cfg)"
      using t by (simp add: policy_of_def on_time_def)
    have clk: "w_clock w1 \<le> ce_doneMs env div 1000" using w1(2) t1(3) by simp
    have ad: "reserve_admits ?o (claims (purged cfg env (w_ledger w)))" using adm pu by (simp add: same_claims_def)
    obtain w2 where w2: "(ledger_step (policy_of cfg))\<^sup>*\<^sup>* w1 w2" "w_clock w2 = ce_doneMs env div 1000"
      "w_ledger w2 = finalize_sql (fst (settlement run)) (snd (settlement run))
         (last_rowid (purged cfg env (w_ledger w)) + 1) (w_ledger w1)"
      using settle_steps [OF ad w1(3) clk lease settlement_done] by blast
    have "last_rowid (purged cfg env (w_ledger w)) + 1 = ?i" using same by (simp add: same_claims_def)
    with w2(3) s1 have "same_claims (w_ledger w2) (fs_ledger (snd (conclude_send cfg env cx sender ?i run (st\<lparr>fs_ledger := ?l\<rparr>))))"
      unfolding same_claims_def fin if_P [OF True] by (simp add: finalize_sql_def)
    moreover have "(ledger_step (policy_of cfg))\<^sup>*\<^sup>* w w2" using w1(1) w2(1) by (rule rtranclp_trans)
    ultimately show ?thesis using w2(2) by auto
  qed
qed

lemma handler_steps:
  assumes "0 \<le> rt_dripZat cfg" and "0 \<le> rt_expectedZat cfg" and "on_time cfg env (w_clock w)"
    and "same_claims (w_ledger w) (fs_ledger st)"
  shows "\<exists>w'. (ledger_step (policy_of cfg))\<^sup>*\<^sup>* w w'
    \<and> same_claims (w_ledger w') (fs_ledger (snd (handle_claim cfg lib env body st)))
    \<and> w_clock w' \<le> ce_doneMs env div 1000"
proof (cases rule: handle_cases [of cfg lib env body st])
  case (early s g r)
  then show ?thesis using assms(3,4) by (intro exI [of _ w]) (auto simp: same_claims_def on_time_def)
next
  case (on cx st2)
  have same: "same_claims (w_ledger w) (fs_ledger st2)"
    using assms(4) reached_frame [OF on(1)] by (simp add: same_claims_def)
  show ?thesis
  proof (cases rule: reserve_and_pay_cases [of cfg lib env cx st2])
    case unanswered
    obtain w' where w': "(ledger_step (policy_of cfg))\<^sup>*\<^sup>* w w'" "w_clock w' = w_clock w"
      "w_ledger w' = snd (reserve_sql (opts_of cfg lib env cx) (purged cfg env (w_ledger w)))"
      using reserve_steps [OF assms(1,2)] assms(3) unfolding on_time_def by blast
    have "same_claims (w_ledger w') (fs_ledger (snd (handle_claim cfg lib env body st)))"
      unfolding w'(3) on(2) using same_claims_reserve [OF same_claims_purged [OF same]] unanswered(3) by simp
    with w' show ?thesis using assms(3) by (intro exI [of _ w']) (simp add: on_time_def)
  next
    case (refused r)
    have "ce_nowMs env div 1000 \<le> w_clock w" using assms(3) by (simp add: on_time_def)
    then show ?thesis
      using refused purge_steps [of env w cfg] same_claims_purged [OF same, of cfg env] on(2) assms(3)
      by (intro exI [of _ "w\<lparr>w_ledger := purged cfg env (w_ledger w)\<rparr>"]) (simp add: on_time_def)
  next
    case no_sender
    then show ?thesis using on(1) by (auto simp: reached_def check_request_def split: option.splits sum.splits if_splits)
  next
    case (ran sender)
    then show ?thesis
      using ran_steps [OF assms(1-3) same ran(1), where st = st2 and sender = sender
          and run = "send_answer cfg lib env cx sender (ro_amount_zat (opts_of cfg lib env cx))"] on(2)
      by auto
  qed
qed

subsection \<open>A list of requests\<close>

fun serve :: "route_config \<Rightarrow> libs \<Rightarrow> (claim_env \<times> claim_body option) list \<Rightarrow> faucet_state \<Rightarrow> faucet_state" where
  "serve cfg lib [] st = st"
| "serve cfg lib ((env, body) # rs) st = serve cfg lib rs (snd (handle_claim cfg lib env body st))"

text \<open>Each request starts after the one before it ended and ends inside its own lease.\<close>

fun in_order :: "route_config \<Rightarrow> int \<Rightarrow> (claim_env \<times> claim_body option) list \<Rightarrow> bool" where
  "in_order cfg t [] = True"
| "in_order cfg t ((env, body) # rs) =
     (t \<le> ce_nowMs env div 1000 \<and> ce_nowMs env div 1000 \<le> ce_doneMs env div 1000
      \<and> ce_doneMs env div 1000 < ce_nowMs env div 1000 + rt_lease cfg
      \<and> in_order cfg (ce_doneMs env div 1000) rs)"

lemma history_payouts_apart:
  assumes "ledger_reachable pol w" and "c \<in> set (w_history w)" and "d \<in> set (w_history w)"
    and "claim_id c \<noteq> claim_id d" and "status c = Sent" and "status d = Sent"
    and "address_hash c = address_hash d" and "claim_network c = claim_network d"
  shows "pol_cooldown pol \<le> \<bar>created_at c - created_at d\<bar>"
proof -
  obtain i j where ij: "i < length (w_history w)" "w_history w ! i = c"
      "j < length (w_history w)" "w_history w ! j = d"
    using assms(2,3) by (auto simp: in_set_conv_nth)
  then have "i \<noteq> j" using assms(4) by auto
  then consider "i < j" | "j < i" by linarith
  then show ?thesis
    using reachable_payouts_apart [OF assms(1)] ij assms(5-8) by cases fastforce+
qed

lemma reachable_steps:
  "(ledger_step pol)\<^sup>*\<^sup>* w w' \<Longrightarrow> ledger_reachable pol w \<Longrightarrow> ledger_reachable pol w'"
  by (induction rule: rtranclp_induct) (auto intro: reach_step)

fun ends :: "int \<Rightarrow> (claim_env \<times> claim_body option) list \<Rightarrow> int" where
  "ends t [] = t"
| "ends t ((env, body) # rs) = ends (ce_doneMs env div 1000) rs"

lemma in_order_append:
  "in_order cfg t (as @ bs) \<longleftrightarrow> in_order cfg t as \<and> in_order cfg (ends t as) bs"
  by (induction cfg t as rule: in_order.induct) auto

lemma serve_append: "serve cfg lib (as @ bs) st = serve cfg lib bs (serve cfg lib as st)"
  by (induction cfg lib as st rule: serve.induct) auto

lemma tick_handler:
  assumes "0 \<le> rt_dripZat cfg" and "0 \<le> rt_expectedZat cfg" and "in_order cfg t ((env, body) # rs)"
    and "w_clock w \<le> t" and "same_claims (w_ledger w) (fs_ledger st)"
  shows "\<exists>w'. (ledger_step (policy_of cfg))\<^sup>*\<^sup>* w w'
    \<and> same_claims (w_ledger w') (fs_ledger (snd (handle_claim cfg lib env body st)))
    \<and> w_clock w' \<le> ce_doneMs env div 1000"
proof -
  let ?w = "w\<lparr>w_clock := ce_nowMs env div 1000\<rparr>"
  have tick: "ledger_step (policy_of cfg) w ?w" using assms(3,4) by (intro step_tick) simp
  have "on_time cfg env (w_clock ?w)" using assms(3) by (simp add: on_time_def)
  moreover have "same_claims (w_ledger ?w) (fs_ledger st)" using assms(5) by simp
  ultimately obtain w' where "(ledger_step (policy_of cfg))\<^sup>*\<^sup>* ?w w'"
    "same_claims (w_ledger w') (fs_ledger (snd (handle_claim cfg lib env body st)))"
    "w_clock w' \<le> ce_doneMs env div 1000"
    using handler_steps [OF assms(1,2)] by blast
  with tick show ?thesis by (meson converse_rtranclp_into_rtranclp)
qed

lemma serve_steps:
  assumes "0 \<le> rt_dripZat cfg" and "0 \<le> rt_expectedZat cfg"
  shows "in_order cfg t reqs \<Longrightarrow> w_clock w \<le> t \<Longrightarrow> same_claims (w_ledger w) (fs_ledger st) \<Longrightarrow>
    \<exists>w'. (ledger_step (policy_of cfg))\<^sup>*\<^sup>* w w' \<and> same_claims (w_ledger w') (fs_ledger (serve cfg lib reqs st))
      \<and> w_clock w' \<le> ends t reqs"
proof (induction reqs arbitrary: t w st)
  case Nil
  then show ?case by auto
next
  case (Cons r rs)
  obtain env body where r: "r = (env, body)" by fastforce
  obtain w' where w': "(ledger_step (policy_of cfg))\<^sup>*\<^sup>* w w'"
    "same_claims (w_ledger w') (fs_ledger (snd (handle_claim cfg lib env body st)))"
    "w_clock w' \<le> ce_doneMs env div 1000"
    using tick_handler [OF assms Cons.prems(1) [unfolded r] Cons.prems(2,3)] by blast
  have "in_order cfg (ce_doneMs env div 1000) rs" using Cons.prems(1) r by simp
  from Cons.IH [OF this w'(3,2)] r w'(1) show ?case
    by (metis rtranclp_trans serve.simps(2) ends.simps(2))
qed

text \<open>A paid row stays in the history, paid, for ever.\<close>

definition paid_in :: "int \<Rightarrow> string \<Rightarrow> network \<Rightarrow> int \<Rightarrow> world \<Rightarrow> bool" where
  "paid_in i h n t w = (\<exists>c\<in>set (w_history w). claim_id c = i \<and> status c = Sent \<and> address_hash c = h \<and> claim_network c = n \<and> created_at c = t)"

lemma paid_stays:
  assumes "ledger_step pol w w'" and wk: "well_kept pol w" and "paid_in i h n t w"
  shows "paid_in i h n t w'"
  using assms(1)
proof (cases rule: ledger_step.cases)
  case (step_finalize s k tx)
  obtain c where c: "c \<in> set (w_history w)" "claim_id c = i" "status c = Sent" "address_hash c = h" "claim_network c = n" "created_at c = t"
    using assms(3) by (auto simp: paid_in_def)
  obtain r where r: "r \<in> set (w_history w)" "claim_id r = k" "status r = Pending"
    using step_finalize(3) well_kept_table [OF wk] by (auto simp: settles_def)
  have "claim_id c \<noteq> k" using wk c r by (auto simp: well_kept_def distinct_map dest: inj_onD)
  then have "set_status s tx k c = c" by (simp add: set_status_def)
  then have "c \<in> set (w_history w')" using c(1) step_finalize(1) by (simp add: rev_image_eqI)
  with c show ?thesis by (auto simp: paid_in_def)
qed (use assms(3) in \<open>auto simp: paid_in_def\<close>)

lemma paid_stays_steps:
  assumes "(ledger_step pol)\<^sup>*\<^sup>* w w'" and "ledger_reachable pol w" and "paid_in i h n t w"
  shows "paid_in i h n t w'"
  using assms(1)
proof (induction rule: rtranclp_induct)
  case base
  then show ?case by (rule assms(3))
next
  case (step y z)
  then show ?case
    using paid_stays reachable_well_kept [OF reachable_steps [OF step.hyps(1) assms(2)]] by blast
qed

lemma ends_later: "in_order cfg t reqs \<Longrightarrow> t \<le> ends t reqs"
  by (induction cfg t reqs rule: in_order.induct) auto

text \<open>An answer that holds the address for the cooldown, and the row it leaves.\<close>

definition pays_on_record :: "response \<Rightarrow> bool" where
  "pays_on_record resp =
     (case resp of
        Ok_Response rc \<Rightarrow> truthy (rc_txid rc) \<or> rc_sender rc = Crosslink_Sender
      | Error_Response s g r \<Rightarrow> g = Send_Unknown)"

lemma recorded_row:
  assumes "ce_finalizeLands env" and "handle_claim cfg lib env body st = (resp, st')" and "pays_on_record resp"
    and "check_request cfg lib env body st = Inr cx"
  shows "\<exists>c\<in>set (claims (fs_ledger st')). claim_id c = last_rowid (fs_ledger st) + 1 \<and> status c = Sent
    \<and> address_hash c = fp_of cfg lib (cx_address cx) \<and> claim_network c = cx_network cx \<and> created_at c = ce_nowMs env div 1000"
proof -
  have "last_rowid (fs_ledger st') \<noteq> last_rowid (fs_ledger st)"
    using answered_row [OF assms(2)] assms(3) by (cases resp) (auto simp: pays_on_record_def)
  from settled_answer [OF assms(2) this] assms(1,3,4) show ?thesis
    by (cases resp) (auto simp: new_row_def row_as_answered_def pays_on_record_def)
qed

text \<open>
  The worlds of a run with two requests marked: before the second request the row of the first is in the
  history, paid; after it both are, the second whatever it came to.
\<close>

definition row_in :: "int \<Rightarrow> string \<Rightarrow> network \<Rightarrow> int \<Rightarrow> world \<Rightarrow> bool" where
  "row_in i h n t w = (\<exists>c\<in>set (w_history w). claim_id c = i \<and> address_hash c = h \<and> claim_network c = n \<and> created_at c = t)"

lemma reachable_ids_sorted:
  "ledger_reachable pol w \<Longrightarrow> sorted_wrt (\<lambda>c d. claim_id c < claim_id d) (w_history w)"
proof (induction rule: ledger_reachable.induct)
  case (reach_init t)
  then show ?case by simp
next
  case (reach_step w w')
  have below: "claim_id c \<le> last_rowid (w_ledger w)" if "c \<in> set (w_history w)" for c
    using reachable_well_kept [OF reach_step(1)] that by (simp add: well_kept_def)
  from reach_step(2,3) show ?case
  proof cases
    case (step_finalize s k tx)
    have "claim_id (set_status s k' x c) = claim_id c" for k' x c by (simp add: set_status_def)
    then show ?thesis using reach_step(3) step_finalize(1) by (simp add: sorted_wrt_map)
  qed (auto simp: sorted_wrt_append reserve_row_def dest: below)
qed

lemma paid_row_before:
  assumes "ledger_reachable pol w" and "paid_in i h n t1 w" and "row_in j h n t2 w" and "i < j"
  shows "t1 + pol_cooldown pol \<le> t2"
proof -
  obtain c d where c: "c \<in> set (w_history w)" "claim_id c = i" "status c = Sent" "address_hash c = h"
      "claim_network c = n" "created_at c = t1"
    and d: "d \<in> set (w_history w)" "claim_id d = j" "address_hash d = h" "claim_network d = n" "created_at d = t2"
    using assms(2,3) by (auto simp: paid_in_def row_in_def)
  obtain a b where ab: "a < length (w_history w)" "w_history w ! a = c" "b < length (w_history w)" "w_history w ! b = d"
    using c(1) d(1) by (auto simp: in_set_conv_nth)
  have "\<not> b \<le> a"
    using sorted_wrt_nth_less [OF reachable_ids_sorted [OF assms(1)], of b a] ab c(2) d(2) assms(4)
    by (auto simp: le_less)
  then show ?thesis
    using reachable_payouts_apart [OF assms(1), of a b] ab c d by simp
qed

lemma paid_then_inserted:
  assumes "0 \<le> rt_dripZat cfg" and "0 \<le> rt_expectedZat cfg" and "fs_ledger st = empty_ledger"
    and io: "in_order cfg t (before @ (env1, body1) # between @ [(env2, body2)])"
    and h1: "handle_claim cfg lib env1 body1 (serve cfg lib before st) = (resp1, st1)"
    and h2: "handle_claim cfg lib env2 body2 (serve cfg lib between st1) = (resp2, st2)"
    and paid1: "\<exists>c\<in>set (claims (fs_ledger st1)). claim_id c = last_rowid (fs_ledger (serve cfg lib before st)) + 1
        \<and> status c = Sent \<and> address_hash c = h \<and> claim_network c = n \<and> created_at c = t1"
    and row2: "\<exists>c\<in>set (claims (fs_ledger st2)). claim_id c = last_rowid (fs_ledger (serve cfg lib between st1)) + 1
        \<and> address_hash c = h \<and> claim_network c = n \<and> created_at c = t2"
  shows "\<exists>w i j. ledger_reachable (policy_of cfg) w \<and> i < j \<and> paid_in i h n t1 w \<and> row_in j h n t2 w"
proof -
  let ?pol = "policy_of cfg" and ?w0 = "\<lparr>w_ledger = empty_ledger, w_clock = t, w_history = []\<rparr>"
  have io: "in_order cfg t before" "in_order cfg (ends t before) ((env1, body1) # between @ [(env2, body2)])"
    "in_order cfg (ce_doneMs env1 div 1000) between" "in_order cfg (ends (ce_doneMs env1 div 1000) between) [(env2, body2)]"
    using io by (auto simp: in_order_append)
  obtain wa where wa: "(ledger_step ?pol)\<^sup>*\<^sup>* ?w0 wa" "same_claims (w_ledger wa) (fs_ledger (serve cfg lib before st))"
    "w_clock wa \<le> ends t before"
    using serve_steps [OF assms(1,2) io(1), of ?w0 st lib] assms(3) by (auto simp: same_claims_def)
  obtain wb where wb: "(ledger_step ?pol)\<^sup>*\<^sup>* wa wb" "same_claims (w_ledger wb) (fs_ledger st1)"
    "w_clock wb \<le> ce_doneMs env1 div 1000"
    using tick_handler [OF assms(1,2) io(2) wa(3,2), of lib] h1 by auto
  obtain wc where wc: "(ledger_step ?pol)\<^sup>*\<^sup>* wb wc" "same_claims (w_ledger wc) (fs_ledger (serve cfg lib between st1))"
    "w_clock wc \<le> ends (ce_doneMs env1 div 1000) between"
    using serve_steps [OF assms(1,2) io(3) wb(3,2)] by blast
  obtain wd where wd: "(ledger_step ?pol)\<^sup>*\<^sup>* wc wd" "same_claims (w_ledger wd) (fs_ledger st2)"
    using tick_handler [OF assms(1,2) io(4) wc(3,2), of lib] h2 by auto
  have re: "ledger_reachable ?pol wb" "ledger_reachable ?pol wc" "ledger_reachable ?pol wd"
    using reachable_steps reach_init [where pol = ?pol and t = t] wa(1) wb(1) wc(1) wd(1) by blast+
  note table = well_kept_table [OF reachable_well_kept [OF re(1)]] well_kept_table [OF reachable_well_kept [OF re(3)]]
  define i where "i = last_rowid (fs_ledger (serve cfg lib before st)) + 1"
  define j where "j = last_rowid (fs_ledger (serve cfg lib between st1)) + 1"
  have "paid_in i h n t1 wb" using paid1 wb(2) table(1) by (auto simp: paid_in_def same_claims_def i_def)
  then have "paid_in i h n t1 wc" and "paid_in i h n t1 wd"
    using paid_stays_steps [OF _ re(1)] paid_stays_steps [OF _ re(2)] wc(1) wd(1) by blast+
  moreover have "row_in j h n t2 wd" using row2 wd(2) table(2) by (auto simp: row_in_def same_claims_def j_def)
  moreover have "i < j"
    using \<open>paid_in i h n t1 wc\<close> reachable_well_kept [OF re(2)] wc(2)
    by (force simp: paid_in_def well_kept_def same_claims_def j_def)
  ultimately show ?thesis using re(3) by blast
qed

subsection \<open>Properties\<close>

text \<open>
  C4: The handler implements the reservation's contract. From any world with the same claims as the
  process, handling one request, whatever its body, its client, the wallet's answers and the writes that
  fail, is a sequence of steps of the ledger's relation (purge, reserve, wait, finalise), as long as the
  send ends inside the pending lease; so every invariant of those steps holds of the running faucet.
\<close>

theorem handler_is_ledger_steps:
  assumes "0 \<le> rt_dripZat cfg" and "0 \<le> rt_expectedZat cfg" and "on_time cfg env (w_clock w)"
    and "same_claims (w_ledger w) (fs_ledger st)"
  shows "\<exists>w'. (ledger_step (policy_of cfg))\<^sup>*\<^sup>* w w'
    \<and> same_claims (w_ledger w') (fs_ledger (snd (handle_claim cfg lib env body st)))
    \<and> w_clock w' \<le> ce_doneMs env div 1000"
  using assms by (rule handler_steps)

theorem handler_is_ledger_steps_witness:
  "\<exists>w'. (ledger_step (policy_of ex_route))\<^sup>*\<^sup>* \<lparr>w_ledger = empty_ledger, w_clock = 2000, w_history = []\<rparr> w'
    \<and> map status (claims (w_ledger w')) = [Sent]"
proof -
  have "\<exists>w'. (ledger_step (policy_of ex_route))\<^sup>*\<^sup>* \<lparr>w_ledger = empty_ledger, w_clock = 2000, w_history = []\<rparr> w'
    \<and> same_claims (w_ledger w') (fs_ledger (snd (handle_claim ex_route ex_libs (ex_env 2000000 (Cl_Amount 50)) ex_body ex_state)))
    \<and> w_clock w' \<le> ce_doneMs (ex_env 2000000 (Cl_Amount 50)) div 1000"
    by (rule handler_is_ledger_steps)
      (simp_all add: ex_route_def on_time_def ex_env_def same_claims_def ex_state_def)
  moreover have "map status (claims (fs_ledger (snd (handle_claim ex_route ex_libs (ex_env 2000000 (Cl_Amount 50)) ex_body ex_state)))) = [Sent]"
    by code_simp
  ultimately show ?thesis by (auto simp: same_claims_def)
qed

text \<open>
  C1: A paid address waits out its cooldown. Take a faucet that starts from an empty ledger and serves
  any list of requests, one after another, each ending inside its own lease. Let one of them be answered
  in a way that puts the payment on record (a receipt with a readable id or from the feature net, or
  the answer that the outcome is unknown) and let the last write of that request land. Then no later request for
  the same address on the same network gets a reservation, and so none is sent to or answered with a
  receipt, before a full cooldown has passed, whatever its own answer or the fate of its writes.
\<close>

theorem receipts_are_a_cooldown_apart:
  assumes "0 \<le> rt_dripZat cfg" and "0 \<le> rt_expectedZat cfg" and "fs_ledger st = empty_ledger"
    and "in_order cfg t (before @ (env1, body1) # between @ [(env2, body2)])"
    and "handle_claim cfg lib env1 body1 (serve cfg lib before st) = (resp1, st1)"
    and "handle_claim cfg lib env2 body2 (serve cfg lib between st1) = (resp2, st2)"
    and "check_request cfg lib env1 body1 (serve cfg lib before st) = Inr cx1"
    and "check_request cfg lib env2 body2 (serve cfg lib between st1) = Inr cx2"
    and "cx_address cx1 = cx_address cx2" and "cx_network cx1 = cx_network cx2"
    and "ce_finalizeLands env1" and "pays_on_record resp1"
    and "last_rowid (fs_ledger st2) \<noteq> last_rowid (fs_ledger (serve cfg lib between st1)) \<or> (\<exists>rc. resp2 = Ok_Response rc)"
  shows "ce_nowMs env1 div 1000 + rt_cooldown cfg \<le> ce_nowMs env2 div 1000"
proof -
  let ?h = "fp_of cfg lib (cx_address cx1)" and ?n = "cx_network cx1"
  let ?t1 = "ce_nowMs env1 div 1000" and ?t2 = "ce_nowMs env2 div 1000"
  have paid1: "\<exists>c\<in>set (claims (fs_ledger st1)). claim_id c = last_rowid (fs_ledger (serve cfg lib before st)) + 1
      \<and> status c = Sent \<and> address_hash c = ?h \<and> claim_network c = ?n \<and> created_at c = ?t1"
    by (rule recorded_row [OF assms(11,5,12,7)])
  have "last_rowid (fs_ledger st2) \<noteq> last_rowid (fs_ledger (serve cfg lib between st1))"
    using assms(13) answered_row [OF assms(6)] by blast
  from settled_answer [OF assms(6) this] assms(8)
  have row2: "\<exists>c\<in>set (claims (fs_ledger st2)). claim_id c = last_rowid (fs_ledger (serve cfg lib between st1)) + 1
      \<and> address_hash c = ?h \<and> claim_network c = ?n \<and> created_at c = ?t2"
    unfolding assms(9,10) by (auto simp: new_row_def)
  obtain w i j where "ledger_reachable (policy_of cfg) w" "i < j" "paid_in i ?h ?n ?t1 w" "row_in j ?h ?n ?t2 w"
    using paid_then_inserted [OF assms(1-6) paid1 row2] by blast
  then have "?t1 + pol_cooldown (policy_of cfg) \<le> ?t2" using paid_row_before by blast
  then show ?thesis by (simp add: policy_of_def)
qed

text \<open>The example faucet pays an address, and pays it again a day later.\<close>

definition ex_receipt :: receipt where
  "ex_receipt = \<lparr>rc_txid = None, rc_explorerUrl = None, rc_paidZat = Some 50, rc_network = Ctaz,
     rc_sender = Crosslink_Sender, rc_to = \<lparr>ai_kind = Transparent, ai_shielded = False\<rparr>\<rparr>"

definition ex_ctx :: claim_ctx where
  "ex_ctx = \<lparr>cx_address = ''tmAb'', cx_info = \<lparr>ai_kind = Transparent, ai_shielded = False\<rparr>, cx_network = Ctaz, cx_pow = None\<rparr>"

definition later_env :: claim_env where
  "later_env = ex_env 88400000 (Cl_Amount 50)"

lemma paid_twice:
  "fst (handle_claim ex_route ex_libs (ex_env 2000000 (Cl_Amount 50)) ex_body ex_state) = Ok_Response ex_receipt"
  "fst (handle_claim ex_route ex_libs later_env ex_body paid_state) = Ok_Response ex_receipt"
  "check_request ex_route ex_libs (ex_env 2000000 (Cl_Amount 50)) ex_body ex_state = Inr ex_ctx"
  "check_request ex_route ex_libs later_env ex_body paid_state = Inr ex_ctx"
  by code_simp+

theorem receipts_are_a_cooldown_apart_witness:
  "ce_nowMs (ex_env 2000000 (Cl_Amount 50)) div 1000 + rt_cooldown ex_route \<le> ce_nowMs later_env div 1000"
proof -
  have 1: "handle_claim ex_route ex_libs (ex_env 2000000 (Cl_Amount 50)) ex_body (serve ex_route ex_libs [] ex_state)
      = (Ok_Response ex_receipt, paid_state)"
    using paid_twice(1) by (simp add: paid_state_def prod_eq_iff)
  have 2: "handle_claim ex_route ex_libs later_env ex_body (serve ex_route ex_libs [] paid_state)
      = (Ok_Response ex_receipt, snd (handle_claim ex_route ex_libs later_env ex_body paid_state))"
    using paid_twice(2) by (simp add: prod_eq_iff)
  show ?thesis
    by (rule receipts_are_a_cooldown_apart [OF _ _ _ _ 1 2, where t = 0 and ?cx1.0 = ex_ctx and ?cx2.0 = ex_ctx])
      (simp_all add: paid_twice, simp_all add: ex_route_def ex_state_def ex_env_def later_env_def ex_receipt_def ex_ctx_def
        pays_on_record_def)
qed

end
