(* ===== verification/Node_Status.thy ===== *)
theory Node_Status
  imports Freshness Aged_Cell
begin

text \<open>
  Our node, as the wallet reports it: \<open>src/src/lib/zcash/nodeStatus.ts\<close> (one read of \<open>getwalletstatus\<close>
  with its attempts), \<open>src/src/lib/zcash/chainIdentity.ts\<close> (are we on the network's chain) and
  \<open>src/src/lib/zcash/nodeStatusCache.ts\<close> (the copy the page is served from). Heights and milliseconds
  are integers; the counters and log lines of \<open>nodeStatusFailure.ts\<close> are not part of the state here.
\<close>

subsection \<open>chainIdentity.ts\<close>

datatype identity_state = Same_Chain | Different_Rules | Forked | Identity_Unknown

datatype identity_reason =
  Rules_Differ string string | Branch_Missing bool bool | No_Common_Height | Hash_Missing int
| History_Differs int string string | History_Same string int

record identity_facts =
  ourBranchId :: "string option"
  theirBranchId :: "string option"
  comparedAtHeight :: "int option"
  ourHashAtHeight :: "string option"
  theirHashAtHeight :: "string option"

record identity_verdict =
  iv_state :: identity_state
  iv_reason :: identity_reason

definition COMPARE_DEPTH_BLOCKS :: int where "COMPARE_DEPTH_BLOCKS = 20"

definition comparison_height :: "int option \<Rightarrow> int option \<Rightarrow> int option" where
  "comparison_height ourTip theirTip =
     (case (ourTip, theirTip) of
        (Some a, Some b) \<Rightarrow>
          let common = min a b - COMPARE_DEPTH_BLOCKS in if common > 0 then Some common else None
      | _ \<Rightarrow> None)"

definition classify_chain_identity :: "identity_facts \<Rightarrow> identity_verdict" where
  "classify_chain_identity f =
     (case (ourBranchId f, theirBranchId f) of
        (Some a, Some b) \<Rightarrow>
          if a \<noteq> b then \<lparr>iv_state = Different_Rules, iv_reason = Rules_Differ a b\<rparr>
          else (case comparedAtHeight f of
              None \<Rightarrow> \<lparr>iv_state = Identity_Unknown, iv_reason = No_Common_Height\<rparr>
            | Some h \<Rightarrow>
                (case (ourHashAtHeight f, theirHashAtHeight f) of
                   (Some x, Some y) \<Rightarrow>
                     if to_lower x \<noteq> to_lower y
                     then \<lparr>iv_state = Forked, iv_reason = History_Differs h x y\<rparr>
                     else \<lparr>iv_state = Same_Chain, iv_reason = History_Same a h\<rparr>
                 | _ \<Rightarrow> \<lparr>iv_state = Identity_Unknown, iv_reason = Hash_Missing h\<rparr>))
      | (a, b) \<Rightarrow> \<lparr>iv_state = Identity_Unknown, iv_reason = Branch_Missing (a = None) (b = None)\<rparr>)"

definition is_chain_problem :: "identity_verdict \<Rightarrow> bool" where
  "is_chain_problem v = (iv_state v = Forked \<or> iv_state v = Different_Rules)"

subsection \<open>nodeStatus.ts\<close>

datatype read_purpose = For_Claim | For_Page

text \<open>\<open>nodeStatusTimeoutMs\<close>: the environment's number, from one second on, or twelve seconds.\<close>

definition node_status_timeout_ms :: "int option \<Rightarrow> int" where
  "node_status_timeout_ms raw =
     (case raw of Some r \<Rightarrow> if r \<ge> 1000 then r else 12000 | None \<Rightarrow> 12000)"

definition node_status_budget_ms :: "int option \<Rightarrow> read_purpose \<Rightarrow> int" where
  "node_status_budget_ms raw purpose =
     (let budget = node_status_timeout_ms raw in if purpose = For_Page then min budget 6000 else budget)"

definition node_status_attempts_ms :: "int option \<Rightarrow> read_purpose \<Rightarrow> int list" where
  "node_status_attempts_ms raw purpose =
     (let budget = node_status_budget_ms raw purpose in
      if purpose = For_Page then [budget]
      else let first = max 1000 (budget div 3) in [first, budget - first])"

text \<open>
  A fetch given \<open>ms\<close> milliseconds: how long it took and what it gave, an answer or an exception. The
  body of an answer holds the two heights where they are numbers; a body may fail to parse.
\<close>

datatype status_answer = Status_Body "int option" "int option" | Status_Http int | Status_Unparsable

fun attempt_loop :: "int list \<Rightarrow> (nat \<Rightarrow> int \<Rightarrow> int \<times> status_answer option) \<Rightarrow> nat \<Rightarrow> int
    \<Rightarrow> status_answer option \<times> int" where
  "attempt_loop [] fetch i t = (None, t)"
| "attempt_loop (ms # rest) fetch i t =
     (let (took, answered) = fetch i ms in
      case answered of Some a \<Rightarrow> (Some a, t + took)
      | None \<Rightarrow> if rest = [] then (None, t + took) else attempt_loop rest fetch (i + 1) (t + took))"

record status_config =
  sc_sender_is_zallet :: bool
  sc_timeoutMs :: "int option"
  sc_freezeBlocks :: int
  sc_tipStallMs :: int
  sc_shieldMaxLag :: int
  sc_walletMaxLag :: int

record node_status =
  ns_ready :: bool
  ns_syncPercent :: "rat option"
  ns_height :: "int option"
  ns_nodeHeight :: "int option"
  ns_externalHeight :: "int option"
  ns_frozen :: bool
  ns_behind :: bool
  ns_tipStalledMs :: "int option"
  ns_networkQuiet :: bool
  ns_shield :: gate
  ns_chain :: identity_verdict
  ns_canBuildTx :: bool

text \<open>The status made of the two heights; the last tip sample is module state.\<close>

definition status_of ::
  "status_config \<Rightarrow> int \<Rightarrow> int \<Rightarrow> reference_reading \<Rightarrow> identity_verdict \<Rightarrow> int \<Rightarrow> tip_sample option
     \<Rightarrow> node_status \<times> tip_sample option" where
  "status_of cfg w n tip identity now lastTip =
     (let externalHeight = rr_height tip;
          behind = (case externalHeight of None \<Rightarrow> False | Some e \<Rightarrow> e - n > sc_freezeBlocks cfg);
          progress = tip_progress (sc_tipStallMs cfg) lastTip n externalHeight now;
          frozen = (behind \<or> stalled progress);
          shield = read_chain_freshness (sc_shieldMaxLag cfg) (Some n) tip;
          caughtUp = (n > 0 \<and> may_build_from_wallet (wallet_lag_freshness (sc_walletMaxLag cfg) (Some w) (Some n)))
      in (\<lparr>ns_ready = (caughtUp \<and> \<not> frozen),
           ns_syncPercent = (if n > 0 then Some (min 100 (of_int w / of_int n * 100)) else None),
           ns_height = Some w, ns_nodeHeight = Some n, ns_externalHeight = externalHeight,
           ns_frozen = frozen, ns_behind = behind, ns_tipStalledMs = stalledMs progress,
           ns_networkQuiet = networkQuiet progress, ns_shield = shield, ns_chain = identity,
           ns_canBuildTx = may_build_transaction shield\<rparr>,
          Some (next_sample progress)))"

definition get_node_status ::
  "status_config \<Rightarrow> read_purpose \<Rightarrow> (nat \<Rightarrow> int \<Rightarrow> int \<times> status_answer option) \<Rightarrow> reference_reading
     \<Rightarrow> identity_verdict \<Rightarrow> int \<Rightarrow> tip_sample option \<Rightarrow> node_status option \<times> tip_sample option" where
  "get_node_status cfg purpose fetch tip identity now lastTip =
     (if \<not> sc_sender_is_zallet cfg then (None, lastTip)
      else
        (case fst (attempt_loop (node_status_attempts_ms (sc_timeoutMs cfg) purpose) fetch 0 now) of
           Some (Status_Body (Some w) (Some n)) \<Rightarrow>
             (let (s, nxt) = status_of cfg w n tip identity
                  (snd (attempt_loop (node_status_attempts_ms (sc_timeoutMs cfg) purpose) fetch 0 now)) lastTip
              in (Some s, nxt))
         | _ \<Rightarrow> (None, lastTip)))"

subsection \<open>nodeStatusCache.ts\<close>

definition REFRESH_AFTER_MS :: int where "REFRESH_AFTER_MS = 2000"
definition NODE_STATUS_MAX_AGE_MS :: int where "NODE_STATUS_MAX_AGE_MS = 15000"

record status_cell =
  cell_status :: "node_status option"
  cell_at :: int
  cell_inflight :: bool

definition empty_cell :: status_cell where
  "empty_cell = \<lparr>cell_status = None, cell_at = 0, cell_inflight = False\<rparr>"

text \<open>A refresh in flight is joined; its end keeps the cell when the read gave nothing.\<close>

definition cell_refresh_start :: "status_cell \<Rightarrow> status_cell" where
  "cell_refresh_start c = c\<lparr>cell_inflight := True\<rparr>"

definition cell_refresh_end :: "node_status option \<Rightarrow> int \<Rightarrow> status_cell \<Rightarrow> status_cell" where
  "cell_refresh_end s now c =
     (case s of
        Some x \<Rightarrow> c\<lparr>cell_status := Some x, cell_at := now, cell_inflight := False\<rparr>
      | None \<Rightarrow> c\<lparr>cell_inflight := False\<rparr>)"

definition cached_node_status :: "int \<Rightarrow> reference_reading \<Rightarrow> int \<Rightarrow> status_cell \<Rightarrow> node_status option" where
  "cached_node_status max_lag tip nowMs c =
     (if cell_at c = 0 \<or> nowMs - cell_at c > NODE_STATUS_MAX_AGE_MS then None
      else case cell_status c of None \<Rightarrow> None
        | Some s \<Rightarrow>
            let shield = read_chain_freshness max_lag (ns_nodeHeight s) tip
            in Some (s\<lparr>ns_shield := shield, ns_canBuildTx := may_build_transaction shield\<rparr>))"

definition cached_node_status_age_ms :: "int \<Rightarrow> status_cell \<Rightarrow> int option" where
  "cached_node_status_age_ms nowMs c =
     (if cell_at c = 0 then None
      else if nowMs - cell_at c > NODE_STATUS_MAX_AGE_MS then None else Some (nowMs - cell_at c))"

datatype page_plan = Await_Refresh | Refresh_Behind | Serve_As_Is

text \<open>\<open>nodeStatusForPage\<close>: what to do about the cell before it is read once more.\<close>

definition page_plan_for :: "int \<Rightarrow> reference_reading \<Rightarrow> int \<Rightarrow> status_cell \<Rightarrow> page_plan" where
  "page_plan_for max_lag tip nowMs c =
     (if cached_node_status max_lag tip nowMs c = None then Await_Refresh
      else if cell_at c = 0 \<or> nowMs - cell_at c > REFRESH_AFTER_MS then Refresh_Behind else Serve_As_Is)"

definition node_status_for_page ::
  "int \<Rightarrow> reference_reading \<Rightarrow> int \<Rightarrow> (node_status option \<times> int) \<Rightarrow> status_cell \<Rightarrow> node_status option \<times> status_cell" where
  "node_status_for_page max_lag tip nowMs reading c =
     (case page_plan_for max_lag tip nowMs c of
        Await_Refresh \<Rightarrow>
          let c' = cell_refresh_end (fst reading) (snd reading) (cell_refresh_start c)
          in (cached_node_status max_lag tip nowMs c', c')
      | Refresh_Behind \<Rightarrow> (cached_node_status max_lag tip nowMs c, cell_refresh_start c)
      | Serve_As_Is \<Rightarrow> (cached_node_status max_lag tip nowMs c, c))"

subsection \<open>Facts\<close>

text \<open>The cell as an aged cell; its reader is \<open>cached_node_status\<close> before the gate is asked again.\<close>

definition raw_status :: "int \<Rightarrow> status_cell \<Rightarrow> node_status option" where
  "raw_status nowMs c =
     (if cell_at c = 0 \<or> nowMs - cell_at c > NODE_STATUS_MAX_AGE_MS then None else cell_status c)"

interpretation page_cell: aged_cell empty_cell cell_refresh_start cell_refresh_end raw_status NODE_STATUS_MAX_AGE_MS
  by unfold_locales
    (simp_all add: raw_status_def empty_cell_def cell_refresh_start_def cell_refresh_end_def)

definition regated :: "int \<Rightarrow> reference_reading \<Rightarrow> node_status \<Rightarrow> node_status" where
  "regated max_lag tip s =
     (let shield = read_chain_freshness max_lag (ns_nodeHeight s) tip
      in s\<lparr>ns_shield := shield, ns_canBuildTx := may_build_transaction shield\<rparr>)"

lemma cached_raw: "cached_node_status max_lag tip nowMs c = map_option (regated max_lag tip) (raw_status nowMs c)"
  by (auto simp: cached_node_status_def raw_status_def regated_def Let_def split: option.splits)

lemma attempts_sum:
  "sum_list (node_status_attempts_ms raw purpose) = node_status_budget_ms raw purpose"
  by (simp add: node_status_attempts_ms_def Let_def)

lemma attempts_nonneg: "\<forall>ms\<in>set (node_status_attempts_ms raw purpose). 0 \<le> ms"
  by (auto simp: node_status_attempts_ms_def node_status_budget_ms_def node_status_timeout_ms_def Let_def
      split: option.splits)

lemma attempt_loop_time:
  assumes "\<forall>i ms. 0 \<le> ms \<longrightarrow> 0 \<le> fst (fetch i ms) \<and> fst (fetch i ms) \<le> ms" and "\<forall>ms\<in>set mss. 0 \<le> ms"
  shows "t \<le> snd (attempt_loop mss fetch i t) \<and> snd (attempt_loop mss fetch i t) \<le> t + sum_list mss"
  using assms(2)
proof (induction mss arbitrary: i t)
  case Nil
  then show ?case by simp
next
  case (Cons ms rest)
  obtain took answered where f: "fetch i ms = (took, answered)" by fastforce
  have took: "0 \<le> took" "took \<le> ms" using assms(1) Cons.prems f by (metis fst_conv list.set_intros(1))+
  have rest: "0 \<le> sum_list rest" using Cons.prems by (intro sum_list_nonneg) simp
  have "t + took \<le> snd (attempt_loop rest fetch (i + 1) (t + took))
      \<and> snd (attempt_loop rest fetch (i + 1) (t + took)) \<le> t + took + sum_list rest"
    by (rule Cons.IH) (use Cons.prems in simp)
  with f took rest show ?case by (cases answered) auto
qed

text \<open>Which answer the loop hands on: the first that is one.\<close>

lemma attempt_loop_first:
  "fst (attempt_loop mss fetch i t) = Some a \<Longrightarrow>
     \<exists>k<length mss. snd (fetch (i + k) (mss ! k)) = Some a \<and> (\<forall>j<k. snd (fetch (i + j) (mss ! j)) = None)"
proof (induction mss arbitrary: i t)
  case Nil
  then show ?case by simp
next
  case (Cons ms rest)
  obtain took answered where f: "fetch i ms = (took, answered)" by fastforce
  show ?case
  proof (cases answered)
    case None
    with f Cons.prems have "fst (attempt_loop rest fetch (i + 1) (t + took)) = Some a"
      by (auto split: if_splits)
    from Cons.IH [OF this] obtain k where k: "k < length rest" "snd (fetch (i + 1 + k) (rest ! k)) = Some a"
      "\<forall>j<k. snd (fetch (i + 1 + j) (rest ! j)) = None" by blast
    have "snd (fetch (i + j) ((ms # rest) ! j)) = None" if "j < Suc k" for j
      using that k(3) f None by (cases j) simp_all
    with k show ?thesis by (intro exI [of _ "Suc k"]) simp
  next
    case (Some b)
    with f Cons.prems show ?thesis by (intro exI [of _ 0]) simp
  qed
qed

subsection \<open>Properties\<close>

text \<open>
  C30: The page never shows a wallet status older than fifteen seconds, and never the verdict of an old
  tip. Whatever refreshes succeeded or failed, a status handed out is the one of the last successful
  read, at most fifteen seconds old, and it says a transaction may be built only if the node height in
  it is within the budget of the independent tip of now.
\<close>

theorem page_status_is_recent_and_regated:
  assumes "cached_node_status max_lag tip nowMs (page_cell.refreshed rs) = Some s" and "\<forall>(x, a)\<in>set rs. 0 < a"
  shows "(\<exists>before s0 a after. rs = before @ (Some s0, a) # after \<and> (\<forall>(x, b)\<in>set after. x = None)
      \<and> nowMs - a \<le> 15000 \<and> ns_height s = ns_height s0 \<and> ns_nodeHeight s = ns_nodeHeight s0 \<and> ns_ready s = ns_ready s0)
    \<and> (ns_canBuildTx s \<longleftrightarrow> (\<exists>n e. ns_nodeHeight s = Some n \<and> rr_height tip = Some e \<and> e - n \<le> max_lag))"
proof -
  obtain s0 where s0: "raw_status nowMs (page_cell.refreshed rs) = Some s0" "s = regated max_lag tip s0"
    using assms(1) by (auto simp: cached_raw)
  from page_cell.given_is_last_read [OF s0(1) assms(2)] obtain before a after where
    "rs = before @ (Some s0, a) # after" "\<forall>(x, b)\<in>set after. x = None" "nowMs - a \<le> 15000"
    by (auto simp: NODE_STATUS_MAX_AGE_MS_def)
  moreover have "ns_canBuildTx s \<longleftrightarrow> (\<exists>n e. ns_nodeHeight s = Some n \<and> rr_height tip = Some e \<and> e - n \<le> max_lag)"
    by (simp add: s0(2) regated_def Let_def may_build_transaction_def read_chain_freshness_def chain.safe_iff)
  moreover have "ns_height s = ns_height s0" "ns_nodeHeight s = ns_nodeHeight s0" "ns_ready s = ns_ready s0"
    by (simp_all add: s0(2) regated_def Let_def)
  ultimately show ?thesis by blast
qed

definition ex_identity :: identity_verdict where
  "ex_identity = classify_chain_identity \<lparr>ourBranchId = Some ''c2'', theirBranchId = Some ''c2'',
     comparedAtHeight = Some 900, ourHashAtHeight = Some ''0A'', theirHashAtHeight = Some ''0a''\<rparr>"

definition ex_status_config :: status_config where
  "ex_status_config = \<lparr>sc_sender_is_zallet = True, sc_timeoutMs = None, sc_freezeBlocks = 200, sc_tipStallMs = 1200000,
     sc_shieldMaxLag = 5, sc_walletMaxLag = 10\<rparr>"

definition ex_read :: "node_status option \<times> tip_sample option" where
  "ex_read = get_node_status ex_status_config For_Page (\<lambda>_ _. (400, Some (Status_Body (Some 996) (Some 1006))))
     ex_tip ex_identity 5000 None"

theorem page_status_is_recent_and_regated_witness:
  "\<exists>s. cached_node_status 5 ex_tip 21000 (page_cell.refreshed [(fst ex_read, 6000), (None, 9000)]) = Some s
     \<and> ns_canBuildTx s = (\<exists>n e. ns_nodeHeight s = Some n \<and> rr_height ex_tip = Some e \<and> e - n \<le> 5)"
proof -
  have "cached_node_status 5 ex_tip 21000 (page_cell.refreshed [(fst ex_read, 6000), (None, 9000)]) \<noteq> None"
    unfolding page_cell.refreshed_def by code_simp
  then obtain s where s: "cached_node_status 5 ex_tip 21000 (page_cell.refreshed [(fst ex_read, 6000), (None, 9000)]) = Some s"
    by blast
  from page_status_is_recent_and_regated [OF s] s show ?thesis by auto
qed

text \<open>
  A read of the wallet's status ends within its budget. When every fetch is answered or aborted
  within the time it is given, the attempts together take at most the purpose's budget, whatever the
  configuration, and on the page's path never more than six seconds.
\<close>

theorem status_read_ends_in_budget:
  assumes "\<forall>i ms. 0 \<le> ms \<longrightarrow> 0 \<le> fst (fetch i ms) \<and> fst (fetch i ms) \<le> ms"
  shows "snd (attempt_loop (node_status_attempts_ms raw purpose) fetch 0 t) \<le> t + node_status_budget_ms raw purpose
    \<and> (purpose = For_Page \<longrightarrow> node_status_budget_ms raw purpose \<le> 6000)"
  using attempt_loop_time [OF assms attempts_nonneg, where i = 0 and t = t]
  by (auto simp: attempts_sum node_status_budget_ms_def Let_def)

theorem status_read_ends_in_budget_witness:
  "snd (attempt_loop (node_status_attempts_ms (Some 9000) For_Claim) (\<lambda>i ms. (ms, None)) 0 100) \<le> 9100"
  using status_read_ends_in_budget [where fetch = "\<lambda>i ms. (ms, None)" and raw = "Some 9000" and purpose = For_Claim and t = 100]
  by (simp add: node_status_budget_ms_def node_status_timeout_ms_def)

end
