(* ===== verification/Api.thy ===== *)
theory Api
  imports Claim_Route
begin

text \<open>
  The wrapper around every route (\<open>withApi\<close>, \<open>apiError\<close>, \<open>notAllowed\<close> of
  \<open>src/src/lib/api.ts\<close>), the operator token (\<open>src/src/lib/opsToken.ts\<close>) and the boot guard of the
  salt (\<open>src/src/lib/saltGuard.ts\<close>).

  A gate is a string, because a cast may put any string in the slot; a response is its status,
  the fields of its JSON body in order, and its headers. The log line is a record of its fields.
\<close>

subsection \<open>The closed set of gates\<close>

definition GATES :: "string list" where
  "GATES =
     [''badBody'', ''badAddress'', ''badNetwork'', ''badTxid'', ''methodNotAllowed'', ''notFound'',
      ''powRequired'', ''powFailed'', ''challengeSpent'', ''cooldown'', ''lookupRate'', ''recipient'',
      ''emptyMessage'', ''tooLong'', ''feedbackRate'',
      ''ctazDisabled'', ''draining'', ''sendHealth'', ''empty'', ''freshness'', ''walletLag'',
      ''ctazReadiness'', ''dailyCap'', ''busy'', ''notReady'',
      ''sendFailed'', ''sendUnknown'', ''backend'', ''ledger'', ''accountFailed'', ''unhandled'',
      ''unclassified'']"

definition is_gate :: "string \<Rightarrow> bool" where
  "is_gate v = (v \<in> set GATES)"

subsection \<open>Requests, responses, log lines\<close>

datatype json = J_Null | J_Bool bool | J_Int int | J_Num rat | J_Text string

record api_request =
  rq_method :: string
  rq_path :: string
  rq_forwardedFor :: "string option"

record api_response =
  rs_status :: int
  rs_body :: "(string \<times> json) list"
  rs_headers :: "(string \<times> string) list"

datatype log_line =
  Error_Line string string "string option" string
| Info_Line string string string int int "string option" "string option"

text \<open>What the context holds while a handler runs: the last gate set, and the error lines written.\<close>

record api_ctx =
  ac_request_id :: string
  ac_route :: string
  ac_gate :: "string option"
  ac_lines :: "log_line list"

definition set_gate :: "string \<Rightarrow> api_ctx \<Rightarrow> api_ctx" where
  "set_gate g cx = cx\<lparr>ac_gate := Some g\<rparr>"

definition log_error :: "string \<Rightarrow> string option \<Rightarrow> api_ctx \<Rightarrow> api_ctx" where
  "log_error err note' cx =
     cx\<lparr>ac_lines := ac_lines cx @ [Error_Line (ac_request_id cx) (ac_route cx) note' err]\<rparr>"

text \<open>\<open>{ ok: false, error, requestId, ...extra }\<close>: a later field of the same name replaces.\<close>

definition api_error ::
  "int \<Rightarrow> string \<Rightarrow> string \<Rightarrow> (string \<times> json) list \<Rightarrow> api_ctx \<Rightarrow> api_response \<times> api_ctx" where
  "api_error st err g extra cx =
     (\<lparr>rs_status = st,
       rs_body = foldl (\<lambda>b (k, v). AList.update k v b)
         [(''ok'', J_Bool False), (''error'', J_Text err), (''requestId'', J_Text (ac_request_id cx))] extra,
       rs_headers = []\<rparr>,
      set_gate g cx)"

definition GENERIC_500 :: string where
  "GENERIC_500 = ''Something went wrong on our side. Try again in a moment.''"

subsection \<open>withApi\<close>

text \<open>A handler returns a response or throws; either way it leaves its context.\<close>

type_synonym api_handler = "api_ctx \<Rightarrow> (string + api_response) \<times> api_ctx"

definition labelled :: "int \<Rightarrow> string option \<Rightarrow> string option" where
  "labelled st g =
     (if st < 400 then None
      else case g of Some v \<Rightarrow> if is_gate v then Some v else Some ''unclassified''
           | None \<Rightarrow> Some ''unclassified'')"

definition with_api ::
  "nat \<Rightarrow> (string \<Rightarrow> string) \<Rightarrow> string \<Rightarrow> string \<Rightarrow> int \<Rightarrow> int \<Rightarrow> api_handler \<Rightarrow> api_request
     \<Rightarrow> api_response \<times> log_line list" where
  "with_api trusted fp_ip requestId route started ended handler req =
     (let cx0 = \<lparr>ac_request_id = requestId, ac_route = route, ac_gate = None, ac_lines = []\<rparr>;
          (res, cx) = (case handler cx0 of
              (Inr r, cx1) \<Rightarrow> (r, cx1)
            | (Inl e, cx1) \<Rightarrow> api_error 500 GENERIC_500 ''unhandled'' [] (log_error e (Some ''unhandled'') cx1));
          ip = client_ip trusted (rq_forwardedFor req)
      in (res\<lparr>rs_headers := AList.update ''x-request-id'' requestId (rs_headers res)\<rparr>,
          ac_lines cx @ [Info_Line requestId (rq_method req) (rq_path req) (rs_status res) (ended - started)
             (labelled (rs_status res) (ac_gate cx)) (map_option fp_ip ip)]))"

definition not_allowed :: api_handler where
  "not_allowed cx =
     (let (r, cx') = api_error 405 ''That method is not supported on this endpoint.'' ''methodNotAllowed'' [] cx
      in (Inr r, cx'))"

definition HTTP_METHODS :: "string list" where
  "HTTP_METHODS = [''GET'', ''POST'', ''PUT'', ''PATCH'', ''DELETE'']"

subsection \<open>The claim handler's labels\<close>

fun gate_name :: "gate_label \<Rightarrow> string" where
  "gate_name Bad_Body = ''badBody''" | "gate_name Bad_Address = ''badAddress''"
| "gate_name Bad_Network = ''badNetwork''" | "gate_name Ctaz_Disabled = ''ctazDisabled''"
| "gate_name Draining = ''draining''" | "gate_name Send_Health_Gate = ''sendHealth''"
| "gate_name Pow_Required = ''powRequired''" | "gate_name Pow_Failed = ''powFailed''"
| "gate_name Challenge_Spent = ''challengeSpent''" | "gate_name Faucet_Empty = ''empty''"
| "gate_name Freshness_Gate = ''freshness''" | "gate_name Wallet_Lag = ''walletLag''"
| "gate_name Ctaz_Readiness = ''ctazReadiness''" | "gate_name Cooldown = ''cooldown''"
| "gate_name Daily_Cap = ''dailyCap''" | "gate_name Send_Unknown = ''sendUnknown''"
| "gate_name Busy = ''busy''" | "gate_name Recipient = ''recipient''"
| "gate_name Send_Failed_Gate = ''sendFailed''" | "gate_name Unhandled = ''unhandled''"

text \<open>
  The claim handler as a handler of the wrapper: a refusal goes through \<open>apiError\<close> with its gate, a
  receipt is a plain 200, and the throw of \<open>getSenderFor\<close> is a throw.
\<close>

definition claim_api :: "response \<Rightarrow> (string \<times> json) list \<Rightarrow> api_handler" where
  "claim_api r body cx =
     (case r of
        Ok_Response x \<Rightarrow> (Inr \<lparr>rs_status = 200, rs_body = body, rs_headers = []\<rparr>, cx)
      | Error_Response st g retry \<Rightarrow>
          if g = Unhandled then (Inl ''no sender'', cx)
          else (let (res, cx') = api_error st ''refused'' (gate_name g)
                      (case retry of None \<Rightarrow> [] | Some s \<Rightarrow> [(''retryAfterSeconds'', J_Int s)]) cx
                in (Inr res, cx')))"

subsection \<open>opsToken.ts\<close>

definition OPS_HEADER :: string where "OPS_HEADER = ''x-faucet-ops''"

text \<open>\<open>utf8\<close> is \<open>Buffer.from(s, "utf8")\<close>; \<open>timingSafeEqual\<close> compares the bytes.\<close>

definition ops_token_matches :: "(string \<Rightarrow> 8 word list) \<Rightarrow> string option \<Rightarrow> string option \<Rightarrow> bool" where
  "ops_token_matches utf8 presented configured =
     (let want = trim (nullish configured ''''); got = trim (nullish presented '''')
      in if length want < 16 \<or> got = [] then False
         else length (utf8 got) = length (utf8 want) \<and> utf8 got = utf8 want)"

subsection \<open>saltGuard.ts\<close>

definition PLACEHOLDER_MARKERS :: "string list" where
  "PLACEHOLDER_MARKERS = [''__fill_me__'', ''change-me'', ''changeme'']"

fun contains :: "string \<Rightarrow> string \<Rightarrow> bool" where
  "contains [] m = (m = [])"
| "contains (c # s) m = (starts_with (c # s) m \<or> contains s m)"

datatype salt_rejection = Salt_Not_Set | Salt_Is_Placeholder string

definition salt_rejection_reason :: "string \<Rightarrow> bool \<Rightarrow> string \<Rightarrow> salt_rejection option" where
  "salt_rejection_reason raw production challenge_kind =
     (if \<not> production then None
      else if challenge_kind \<noteq> ''pow'' \<and> challenge_kind \<noteq> ''turnstile'' then None
      else let salt = trim raw; lower = to_lower salt
           in if salt = [] then Some Salt_Not_Set
              else if list_ex (contains lower) PLACEHOLDER_MARKERS then Some (Salt_Is_Placeholder salt)
              else None)"

subsection \<open>Facts\<close>

lemma labelled_closed: "labelled st g = None \<longleftrightarrow> st < 400"
  "labelled st g = Some v \<Longrightarrow> is_gate v"
proof -
  have u: "is_gate ''unclassified''" by (simp add: is_gate_def GATES_def)
  show "labelled st g = None \<longleftrightarrow> st < 400"
    by (auto simp: labelled_def split: option.splits)
  show "labelled st g = Some v \<Longrightarrow> is_gate v"
    using u by (auto simp: labelled_def split: option.splits if_splits)
qed

lemma gate_names: "is_gate (gate_name g) \<and> gate_name g \<noteq> ''unclassified''"
  by (cases g) (simp_all add: is_gate_def GATES_def)

text \<open>
  whatever a handler does (returns any status, sets any string as its gate, throws), the
  wrapper answers once, stamps the request id on the answer, and writes exactly one request line:
  its gate is absent exactly below status 400 and otherwise a member of the closed set, so no
  other string of the handler reaches that field, and the client's address appears in it only as
  its fingerprint. A throw is a 500 under its own gate, after a line with the error.
\<close>

theorem every_answer_is_labelled:
  assumes h: "handler \<lparr>ac_request_id = rid, ac_route = route, ac_gate = None, ac_lines = []\<rparr> = (out, cx)"
    and w: "with_api trusted fp rid route t0 t1 handler req = (res, lines)"
  shows "(\<exists>g. last lines = Info_Line rid (rq_method req) (rq_path req) (rs_status res) (t1 - t0) g
           (map_option fp (client_ip trusted (rq_forwardedFor req)))
        \<and> (g = None \<longleftrightarrow> rs_status res < 400) \<and> (\<forall>v. g = Some v \<longrightarrow> v \<in> set GATES))
    \<and> map_of (rs_headers res) ''x-request-id'' = Some rid
    \<and> (\<forall>e. out = Inl e \<longrightarrow> rs_status res = 500
        \<and> lines = ac_lines cx @ [Error_Line (ac_request_id cx) (ac_route cx) (Some ''unhandled'') e, last lines])"
proof (intro conjI)
  show "\<exists>g. last lines = Info_Line rid (rq_method req) (rq_path req) (rs_status res) (t1 - t0) g
           (map_option fp (client_ip trusted (rq_forwardedFor req)))
        \<and> (g = None \<longleftrightarrow> rs_status res < 400) \<and> (\<forall>v. g = Some v \<longrightarrow> v \<in> set GATES)"
    using w labelled_closed
    by (auto simp: with_api_def Let_def is_gate_def split: prod.splits sum.splits)
  show "map_of (rs_headers res) ''x-request-id'' = Some rid"
    using w by (auto simp: with_api_def Let_def update_conv split: prod.splits)
  show "\<forall>e. out = Inl e \<longrightarrow> rs_status res = 500
      \<and> lines = ac_lines cx @ [Error_Line (ac_request_id cx) (ac_route cx) (Some ''unhandled'') e, last lines]"
    using w h by (auto simp: with_api_def Let_def api_error_def set_gate_def log_error_def)
qed

lemma every_answer_is_labelled_witness:
  "last (snd (with_api 1 (\<lambda>ip. ''#'' @ ip) ''r1'' ''ready'' 10 14
       (\<lambda>cx. (Inr \<lparr>rs_status = 503, rs_body = [], rs_headers = []\<rparr>, set_gate ''u1abc...an address'' cx))
       \<lparr>rq_method = ''GET'', rq_path = ''/api/ready'', rq_forwardedFor = Some ''9.9.9.9''\<rparr>))
   = Info_Line ''r1'' ''GET'' ''/api/ready'' 503 4 (Some ''unclassified'') (Some ''#9.9.9.9'')"
proof -
  let ?h = "\<lambda>cx. (Inr \<lparr>rs_status = 503, rs_body = [], rs_headers = []\<rparr> :: string + api_response,
      set_gate ''u1abc...an address'' cx)"
  let ?rq = "\<lparr>rq_method = ''GET'', rq_path = ''/api/ready'', rq_forwardedFor = Some ''9.9.9.9''\<rparr>"
  obtain res lines where w: "with_api 1 (\<lambda>ip. ''#'' @ ip) ''r1'' ''ready'' 10 14 ?h ?rq = (res, lines)"
    by (rule prod.exhaust)
  have st: "rs_status res = 503" using w by (auto simp: with_api_def Let_def)
  from every_answer_is_labelled [OF refl w]
  obtain g where "last lines = Info_Line ''r1'' ''GET'' ''/api/ready'' 503 4 g
      (map_option (\<lambda>ip. ''#'' @ ip) (client_ip 1 (Some ''9.9.9.9'')))"
    unfolding st by auto
  moreover have "client_ip 1 (Some ''9.9.9.9'') = Some ''9.9.9.9''" by code_simp
  moreover have "last lines = Info_Line ''r1'' ''GET'' ''/api/ready'' 503 4 (Some ''unclassified'')
      (map_option (\<lambda>ip. ''#'' @ ip) (client_ip 1 (Some ''9.9.9.9'')))"
    using w by (auto simp: with_api_def Let_def labelled_def set_gate_def is_gate_def GATES_def)
  ultimately show ?thesis using w by simp
qed

subsection \<open>The claim route never lands in the blind spot\<close>

fun refused_from :: "response \<Rightarrow> bool" where
  "refused_from (Error_Response st g r) = (400 \<le> st)"
| "refused_from (Ok_Response x) = True"

lemma check_request_status: "check_request cfg lib env body st = Inl r \<Longrightarrow> refused_from r"
  by (auto simp: check_request_def Let_def split: option.splits if_splits sum.splits)

lemma check_pow_status: "fst (check_pow cfg lib env cx st) = Some r \<Longrightarrow> refused_from r"
  by (auto simp: check_pow_def Let_def split: option.splits if_splits prod.splits)

lemma check_backend_status: "check_backend cfg env cx = Some r \<Longrightarrow> refused_from r"
  by (auto simp: check_backend_def Let_def split: if_splits)

lemma burn_proof_status: "fst (burn_proof cfg env cx st) = Some r \<Longrightarrow> refused_from r"
  by (auto simp: burn_proof_def Let_def split: option.splits if_splits prod.splits write_fate.splits)

lemma conclude_status: "refused_from (fst (conclude_send cfg env cx sender i run st))"
  by (auto simp: conclude_send_def conclude_unknown_def Let_def split: send_run.split send_error.split)

lemma reserve_and_pay_status: "refused_from (fst (reserve_and_pay cfg lib env cx st))"
  by (auto simp: reserve_and_pay_def refusal_response_def Let_def conclude_status
      split: prod.split reserve_result.split option.split write_fate.split)

lemma handle_claim_status: "refused_from (fst (handle_claim cfg lib env body st))"
  using check_request_status [of cfg lib env body st] check_pow_status [of cfg lib env _ st]
    check_backend_status [of cfg env] burn_proof_status [of cfg env] reserve_and_pay_status [of cfg lib env]
  by (auto simp: handle_claim_def split: sum.split option.split prod.split)
     (metis fst_conv)+

text \<open>
  the request line of a claim names the gate that refused it and never the catch-all for
  unlabelled refusals: a receipt is logged without a gate, every refusal under its own.
\<close>

theorem claim_refusals_are_classified:
  "let answer = fst (handle_claim cfg lib env body st);
       (res, lines) = with_api trusted fp rid ''faucet'' t0 t1 (claim_api answer receipt_body) req
   in \<exists>g. last lines = Info_Line rid (rq_method req) (rq_path req) (rs_status res) (t1 - t0) g
           (map_option fp (client_ip trusted (rq_forwardedFor req)))
      \<and> g \<noteq> Some ''unclassified''
      \<and> (case answer of Ok_Response x \<Rightarrow> g = None | Error_Response s label retry \<Rightarrow> g = Some (gate_name label))"
  using handle_claim_status [of cfg lib env body st] gate_names gate_names [of Unhandled]
  by (cases "fst (handle_claim cfg lib env body st)")
     (auto simp: with_api_def Let_def claim_api_def api_error_def set_gate_def log_error_def labelled_def)

text \<open>What passing the boot guard and presenting a token mean.\<close>

lemma salt_guard:
  assumes "salt_rejection_reason raw True kind = None" and "kind = ''pow'' \<or> kind = ''turnstile''"
  shows "trim raw \<noteq> [] \<and> (\<forall>m\<in>set PLACEHOLDER_MARKERS. \<not> contains (to_lower (trim raw)) m)"
  using assms by (auto simp: salt_rejection_reason_def Let_def list_ex_iff split: if_splits)

lemma ops_token_guard:
  assumes "ops_token_matches utf8 presented configured"
  shows "16 \<le> length (trim (nullish configured ''''))
    \<and> utf8 (trim (nullish presented '''')) = utf8 (trim (nullish configured ''''))"
  using assms by (auto simp: ops_token_matches_def Let_def split: if_splits)

end
