(* ===== verification/Readiness.thy ===== *)
theory Readiness
  imports Node_Status Api Claim_Safety
begin

text \<open>
  The readiness probe: the ledger probe and its cached verdict (\<open>src/src/lib/db/probe.ts\<close>, with the
  cell \<open>src/src/lib/db/index.ts\<close> keeps it in), the reachability of the chain backends
  (\<open>src/src/lib/zcash/lightwalletd.ts\<close>), the ladder of reasons (\<open>src/src/lib/readiness.ts\<close>) and the
  route \<open>GET /api/ready\<close> (\<open>src/src/app/api/ready/route.ts\<close>). The texts of a detail are the values
  they interpolate.
\<close>

subsection \<open>probe.ts\<close>

datatype ledger_state = Ledger_Ok | Ledger_Broken | Ledger_Unknown

datatype ledger_detail =
  Answered_Read | Not_Answered_Within int | Failed_Read string
| Not_Probed_Yet | Too_Old int int ledger_state

record ledger_health =
  lh_state :: ledger_state
  lh_detail :: ledger_detail

definition PROBE_TIMEOUT_MS :: int where "PROBE_TIMEOUT_MS = 2000"
definition PROBE_EVERY_MS :: int where "PROBE_EVERY_MS = 30000"
definition LEDGER_MAX_AGE_MS :: int where "LEDGER_MAX_AGE_MS = 3 * PROBE_EVERY_MS"

text \<open>
  A read settles after some milliseconds, with an answer or a throw. A read on the event loop's own
  thread (\<open>blocking\<close>, better-sqlite3) settles before the timer can fire.
\<close>

datatype probe_read = Read_Answers int | Read_Throws int string

fun read_ms :: "probe_read \<Rightarrow> int" where
  "read_ms (Read_Answers t) = t"
| "read_ms (Read_Throws t m) = t"

definition probe_ledger :: "bool \<Rightarrow> int \<Rightarrow> probe_read \<Rightarrow> ledger_health" where
  "probe_ledger blocking timeoutMs r =
     (if \<not> blocking \<and> timeoutMs \<le> read_ms r
      then \<lparr>lh_state = Ledger_Unknown, lh_detail = Not_Answered_Within timeoutMs\<rparr>
      else case r of Read_Answers t \<Rightarrow> \<lparr>lh_state = Ledger_Ok, lh_detail = Answered_Read\<rparr>
           | Read_Throws t m \<Rightarrow> \<lparr>lh_state = Ledger_Broken, lh_detail = Failed_Read m\<rparr>)"

definition ledger_blocks_serving :: "ledger_health \<Rightarrow> bool" where
  "ledger_blocks_serving h = (lh_state h = Ledger_Broken)"

text \<open>\<open>LedgerCacheEntry\<close>: the last answer and its time.\<close>

definition verdict_for :: "(ledger_health \<times> int) option \<Rightarrow> int \<Rightarrow> ledger_health" where
  "verdict_for entry now =
     (case entry of
        None \<Rightarrow> \<lparr>lh_state = Ledger_Unknown, lh_detail = Not_Probed_Yet\<rparr>
      | Some (h, at') \<Rightarrow>
          let age = now - at' in
          if age > LEDGER_MAX_AGE_MS
          then \<lparr>lh_state = Ledger_Unknown,
                lh_detail = Too_Old (round_div age 1000) (round_div LEDGER_MAX_AGE_MS 1000) (lh_state h)\<rparr>
          else h)"

text \<open>The process-wide cell, its coalesced refresh, and the synchronous reader.\<close>

record ledger_cell =
  lc_entry :: "(ledger_health \<times> int) option"
  lc_inflight :: bool

definition reset_ledger_health_cache :: ledger_cell where
  "reset_ledger_health_cache = \<lparr>lc_entry = None, lc_inflight = False\<rparr>"

definition refresh_start :: "ledger_cell \<Rightarrow> ledger_cell" where
  "refresh_start c = c\<lparr>lc_inflight := True\<rparr>"

definition refresh_end :: "ledger_health option \<Rightarrow> int \<Rightarrow> ledger_cell \<Rightarrow> ledger_cell" where
  "refresh_end h now c =
     (case h of Some x \<Rightarrow> c\<lparr>lc_entry := Some (x, now), lc_inflight := False\<rparr>
      | None \<Rightarrow> c\<lparr>lc_inflight := False\<rparr>)"

definition cached_ledger_health :: "int \<Rightarrow> ledger_cell \<Rightarrow> ledger_health \<times> ledger_cell" where
  "cached_ledger_health now c =
     (let verdict = verdict_for (lc_entry c) now
      in (verdict, if lh_state verdict = Ledger_Unknown \<and> \<not> lc_inflight c then refresh_start c else c))"

text \<open>The cell is an aged cell, so the verdict given out is a probe of the last ninety seconds.\<close>

definition raw_ledger :: "int \<Rightarrow> ledger_cell \<Rightarrow> ledger_health option" where
  "raw_ledger now c =
     (case lc_entry c of None \<Rightarrow> None | Some (h, at') \<Rightarrow> if now - at' > LEDGER_MAX_AGE_MS then None else Some h)"

interpretation ledger_cell: aged_cell reset_ledger_health_cache refresh_start refresh_end raw_ledger LEDGER_MAX_AGE_MS
  by unfold_locales
    (simp_all add: raw_ledger_def reset_ledger_health_cache_def refresh_start_def refresh_end_def)

lemma verdict_raw:
  "lh_state (fst (cached_ledger_health now c)) \<noteq> Ledger_Unknown \<Longrightarrow>
     raw_ledger now c = Some (fst (cached_ledger_health now c))"
  by (auto simp: cached_ledger_health_def verdict_for_def raw_ledger_def Let_def split: option.splits if_splits)

subsection \<open>lightwalletd.ts\<close>

text \<open>One \<open>HEAD\<close> per configured endpoint: any HTTP answer is reachable.\<close>

record backend_status =
  bk_endpoint :: string
  bk_reachable :: bool
  bk_tried :: "(string \<times> bool) list"

definition ping_backend :: "(string \<Rightarrow> bool) \<Rightarrow> string list \<Rightarrow> backend_status" where
  "ping_backend probe endpoints =
     (let tried = map (\<lambda>e. (e, probe e)) endpoints
      in case find snd tried of
           Some (e, _) \<Rightarrow> \<lparr>bk_endpoint = e, bk_reachable = True, bk_tried = tried\<rparr>
         | None \<Rightarrow> \<lparr>bk_endpoint = hd endpoints, bk_reachable = False, bk_tried = tried\<rparr>)"

fun resolve_endpoint :: "(string \<Rightarrow> bool) \<Rightarrow> string list \<Rightarrow> string option" where
  "resolve_endpoint probe [] = None"
| "resolve_endpoint probe (e # es) = (if probe e then Some e else resolve_endpoint probe es)"

lemma resolve_is_ping:
  "resolve_endpoint probe es = (if bk_reachable (ping_backend probe es) then Some (bk_endpoint (ping_backend probe es)) else None)"
  by (induction es) (auto simp: ping_backend_def Let_def split: option.splits)

subsection \<open>readiness.ts\<close>

datatype not_ready_reason =
  Ledger_Unreadable | Backend_Unreachable | Node_Status_Unknown | Node_Frozen
| Wallet_Rescanning "int option" | Node_Blocks_Behind "int option" | Wallet_Balance_Unknown
| Sends_Failing send_reason | Below_Reserve

record readiness_inputs =
  ri_ledgerBlocks :: bool
  ri_backendReachable :: bool
  ri_node :: "node_status option"
  ri_nodeExpected :: bool
  ri_balanceZat :: "int option"
  ri_sends :: send_health
  ri_floorZat :: int

definition readiness_reason :: "readiness_inputs \<Rightarrow> not_ready_reason option" where
  "readiness_reason i =
     (if ri_ledgerBlocks i then Some Ledger_Unreadable
      else if \<not> ri_backendReachable i then Some Backend_Unreachable
      else if ri_nodeExpected i \<and> ri_node i = None then Some Node_Status_Unknown
      else if (case ri_node i of None \<Rightarrow> False | Some n \<Rightarrow> ns_frozen n) then Some Node_Frozen
      else if (case ri_node i of None \<Rightarrow> False | Some n \<Rightarrow> \<not> ns_ready n)
      then Some (Wallet_Rescanning (case ri_node i of None \<Rightarrow> None
             | Some n \<Rightarrow> (case (ns_nodeHeight n, ns_height n) of (Some a, Some b) \<Rightarrow> Some (a - b) | _ \<Rightarrow> None)))
      else if (case ri_node i of None \<Rightarrow> False | Some n \<Rightarrow> g_state (ns_shield n) = Unsafe)
      then Some (Node_Blocks_Behind (case ri_node i of None \<Rightarrow> None | Some n \<Rightarrow> g_lag (ns_shield n)))
      else if ri_balanceZat i = None then Some Wallet_Balance_Unknown
      else if send_health_blocks_serving (ri_sends i) then Some (Sends_Failing (sh_reason (ri_sends i)))
      else if the (ri_balanceZat i) < ri_floorZat i then Some Below_Reserve
      else None)"

subsection \<open>The route\<close>

text \<open>The readings of one request, and the answer: status, gate and the part of the body they decide.\<close>

record ready_readings =
  rd_backend :: backend_status
  rd_balance :: "int option"
  rd_node :: "node_status option"
  rd_sends :: send_health

record ready_answer =
  ra_status :: int
  ra_gate :: "string option"
  ra_ready :: bool
  ra_reason :: "not_ready_reason option"
  ra_node :: "node_status option"
  ra_ledger :: ledger_health

definition ready_route :: "route_config \<Rightarrow> ready_readings \<Rightarrow> int \<Rightarrow> ledger_cell \<Rightarrow> ready_answer \<times> ledger_cell" where
  "ready_route cfg rd now c =
     (let (ledger, c') = cached_ledger_health now c;
          reason = readiness_reason
            \<lparr>ri_ledgerBlocks = ledger_blocks_serving ledger, ri_backendReachable = bk_reachable (rd_backend rd),
             ri_node = rd_node rd, ri_nodeExpected = rt_sender_is_zallet cfg, ri_balanceZat = rd_balance rd,
             ri_sends = rd_sends rd, ri_floorZat = rt_dripZat cfg + rt_minReserveZat cfg\<rparr>;
          ready = (reason = None)
      in (\<lparr>ra_status = (if ready then 200 else 503), ra_gate = (if ready then None else Some ''notReady''),
           ra_ready = ready, ra_reason = reason, ra_node = rd_node rd, ra_ledger = ledger\<rparr>, c'))"

subsection \<open>A ready faucet serves\<close>

lemma ready_none:
  assumes "readiness_reason i = None"
  shows "\<not> ri_ledgerBlocks i" and "ri_backendReachable i"
    and "ri_nodeExpected i \<Longrightarrow> ri_node i \<noteq> None"
    and "ri_node i = Some n \<Longrightarrow> \<not> ns_frozen n \<and> ns_ready n \<and> g_state (ns_shield n) \<noteq> Unsafe"
    and "\<exists>b. ri_balanceZat i = Some b \<and> ri_floorZat i \<le> b" and "\<not> send_health_blocks_serving (ri_sends i)"
  using assms by (auto simp: readiness_reason_def split: if_splits option.splits)

lemma ready_200:
  assumes "ready_route cfg rd now c = (a, c')" and "ra_status a = 200"
  shows "readiness_reason
      \<lparr>ri_ledgerBlocks = ledger_blocks_serving (fst (cached_ledger_health now c)),
       ri_backendReachable = bk_reachable (rd_backend rd), ri_node = rd_node rd,
       ri_nodeExpected = rt_sender_is_zallet cfg, ri_balanceZat = rd_balance rd,
       ri_sends = rd_sends rd, ri_floorZat = rt_dripZat cfg + rt_minReserveZat cfg\<rparr> = None"
  using assms by (auto simp: ready_route_def Let_def split: prod.splits if_splits)

lemma served_not_degraded:
  assumes "\<not> send_health_blocks_serving (read_send_health_served w now records (served_networks ctaz))"
  shows "\<not> send_health_blocks_serving (read_send_health w now records Taz)"
    and "ctaz \<Longrightarrow> \<not> send_health_blocks_serving (read_send_health w now records Ctaz)"
  using assms
  by (auto simp: send_health_blocks_serving_def read_send_health_served_def served_networks_def
      NETWORKS_def DEFAULT_NETWORK_def split: if_splits)

text \<open>
  C34: a 200 of the readiness probe predicts the claim: on the same readings, a claim on the main
  test network passes the send-health gate, the balance gate and the wallet gate, and passes the
  chain gate exactly when the body says so, \<open>node.canBuildTx\<close>; when it does not, the refusal is
  the one for an unverifiable tip and nothing else.
\<close>

theorem ready_predicts_claim:
  assumes ready: "ready_route cfg rd now c = (a, c')" "ra_status a = 200"
    and zallet: "rt_sender_is_zallet cfg"
    and node: "rd_node rd = Some n" "n = fst (status_of scfg w h tip identity t0 last')"
    and sends: "rd_sends rd = read_send_health_served (rt_sendWindowMs cfg) now records (served_networks (rt_ctaz_enabled cfg))"
    and lag: "sc_walletMaxLag scfg = rt_walletMaxLag cfg"
    and env: "ce_balance env = rd_balance rd" "ce_walletHeight env = Some w" "ce_nodeHeight env = Some h"
      "ce_freshness env = (\<lambda>x. read_chain_freshness (sc_shieldMaxLag scfg) x tip)"
    and net: "cx_network cx = Taz"
  shows "check_backend cfg env cx =
      (if ns_canBuildTx n then None else Some (Error_Response 503 Freshness_Gate (Some 20)))
    \<and> \<not> send_health_blocks_serving (read_send_health (rt_sendWindowMs cfg) now records Taz)"
proof
  note none = ready_200 [OF ready]
  have n: "ns_ready n" "g_state (ns_shield n) \<noteq> Unsafe" using ready_none(4) [OF none] node(1) by simp_all
  have wallet: "may_build_from_wallet (wallet_lag_freshness (rt_walletMaxLag cfg) (Some w) (Some h))"
    using n(1) by (auto simp: node(2) status_of_def Let_def lag)
  have shield: "ns_shield n = read_chain_freshness (sc_shieldMaxLag scfg) (Some h) tip"
    "ns_canBuildTx n = may_build_transaction (ns_shield n)" by (simp_all add: node(2) status_of_def Let_def)
  have built: "g_built (ns_shield n) = Some h"
    by (simp add: shield(1) read_chain_freshness_def chain_freshness_def Let_def split: option.split)
  obtain b where b: "rd_balance rd = Some b" "rt_dripZat cfg + rt_minReserveZat cfg \<le> b"
    using ready_none(5) [OF none] by auto
  have "ns_canBuildTx n \<or> g_state (ns_shield n) = Unverifiable"
    using n(2) by (cases "g_state (ns_shield n)") (simp_all add: shield(2) may_build_transaction_def)
  then show "check_backend cfg env cx =
      (if ns_canBuildTx n then None else Some (Error_Response 503 Freshness_Gate (Some 20)))"
    using b wallet built
    by (auto simp: check_backend_def Let_def env net gates_apply_def zallet shield(2) freshness_retry_seconds_def
        shield(1) [symmetric])
  show "\<not> send_health_blocks_serving (read_send_health (rt_sendWindowMs cfg) now records Taz)"
    using ready_none(6) [OF none] served_not_degraded(1) by (simp add: sends)
qed

definition ex_node :: node_status where
  "ex_node = fst (status_of ex_status_config 996 1006 ex_tip ex_identity 5000 None)"

definition ex_readings :: ready_readings where
  "ex_readings = \<lparr>rd_backend = ping_backend (\<lambda>_. True) [''lwd''], rd_balance = Some 100, rd_node = Some ex_node,
     rd_sends = read_send_health_served 900000 7000 [] (served_networks True)\<rparr>"

definition ex_claim_env :: claim_env where
  "ex_claim_env = (ex_env 2000000 (Cl_Amount 50))\<lparr>ce_balance := Some 100, ce_walletHeight := Some 996,
     ce_nodeHeight := Some 1006, ce_freshness := (\<lambda>x. read_chain_freshness 5 x ex_tip)\<rparr>"

lemma ready_predicts_claim_witness:
  "check_backend ex_route ex_claim_env \<lparr>cx_address = ''a'', cx_info = \<lparr>ai_kind = Unified, ai_shielded = True\<rparr>, cx_network = Taz, cx_pow = None\<rparr> = None"
proof -
  let ?cx = "\<lparr>cx_address = ''a'', cx_info = \<lparr>ai_kind = Unified, ai_shielded = True\<rparr>, cx_network = Taz, cx_pow = None\<rparr>"
  obtain a c' where r: "ready_route ex_route ex_readings 7000 reset_ledger_health_cache = (a, c')"
    by (rule prod.exhaust)
  have "ra_status (fst (ready_route ex_route ex_readings 7000 reset_ledger_health_cache)) = 200"
    by code_simp
  then have st: "ra_status a = 200" by (simp add: r)
  have "ns_canBuildTx ex_node" by code_simp
  moreover have "check_backend ex_route ex_claim_env ?cx =
      (if ns_canBuildTx ex_node then None else Some (Error_Response 503 Freshness_Gate (Some 20)))"
    by (rule ready_predicts_claim [OF r st _ _ ex_node_def, THEN conjunct1])
       (simp_all add: ex_route_def ex_readings_def ex_claim_env_def ex_status_config_def)
  ultimately show ?thesis by simp
qed

subsection \<open>Only a ledger that threw makes the faucet not ready\<close>

definition probed :: "(bool \<times> probe_read \<times> int) list \<Rightarrow> ledger_cell" where
  "probed ps = ledger_cell.refreshed (map (\<lambda>(b, r, t). (Some (probe_ledger b PROBE_TIMEOUT_MS r), t)) ps)"

text \<open>
  the readiness probe blames the ledger only when its last probe ended within the last ninety
  seconds in an exception; a ledger that is slow, was never probed, or whose timer died leaves the
  verdict unknown, which does not block.
\<close>

theorem ledger_blame_needs_a_throw:
  assumes "ready_route cfg rd now (probed ps) = (a, c')" and "ra_reason a = Some Ledger_Unreadable"
    and "\<forall>(b, r, t)\<in>set ps. 0 < t"
  shows "\<exists>b ms m t. last ps = (b, Read_Throws ms m, t) \<and> (b \<or> ms < 2000) \<and> now - t \<le> 90000
    \<and> lh_detail (ra_ledger a) = Failed_Read m"
proof -
  let ?v = "fst (cached_ledger_health now (probed ps))"
  let ?rs = "map (\<lambda>(b, r, t). (Some (probe_ledger b PROBE_TIMEOUT_MS r), t)) ps"
  have broken: "lh_state ?v = Ledger_Broken" and v: "ra_ledger a = ?v"
    using assms(1,2)
    by (auto simp: ready_route_def Let_def readiness_reason_def ledger_blocks_serving_def
        split: prod.splits if_splits option.splits)
  have "raw_ledger now (ledger_cell.refreshed ?rs) = Some ?v"
    using verdict_raw [of now "probed ps"] broken by (simp add: probed_def)
  moreover have "\<forall>(x, t)\<in>set ?rs. 0 < t" using assms(3) by auto
  ultimately obtain before t after where split: "?rs = before @ (Some ?v, t) # after"
    "\<forall>(x, b)\<in>set after. x = None" and age: "now - t \<le> LEDGER_MAX_AGE_MS"
    using ledger_cell.given_is_last_read by blast
  have "after = []"
  proof (rule ccontr)
    assume "after \<noteq> []"
    then have "last after \<in> set ?rs" "last after \<in> set after" by (simp_all add: split(1))
    then show False using split(2) by auto
  qed
  with split have "last ?rs = (Some ?v, t)" "?rs \<noteq> []" by simp_all
  then obtain b r where l: "last ps = (b, r, t)" and p: "?v = probe_ledger b PROBE_TIMEOUT_MS r"
    by (cases "last ps") (auto simp: last_map)
  obtain ms m where "r = Read_Throws ms m" "b \<or> ms < 2000" "lh_detail ?v = Failed_Read m"
    using broken unfolding p by (cases r) (auto simp: probe_ledger_def PROBE_TIMEOUT_MS_def split: if_splits)
  with l age v show ?thesis by (auto simp: LEDGER_MAX_AGE_MS_def PROBE_EVERY_MS_def)
qed

lemma ledger_blame_needs_a_throw_witness:
  "\<exists>b ms m t. last [(True, Read_Answers 3, 1000), (True, Read_Throws 4 ''disk I/O error'', 31000 :: int)] = (b, Read_Throws ms m, t)
     \<and> (b \<or> ms < 2000) \<and> 100000 - t \<le> 90000"
proof -
  let ?ps = "[(True, Read_Answers 3, 1000), (True, Read_Throws 4 ''disk I/O error'', 31000 :: int)]"
  obtain a c' where r: "ready_route ex_route ex_readings 100000 (probed ?ps) = (a, c')" by (rule prod.exhaust)
  have "ra_reason (fst (ready_route ex_route ex_readings 100000 (probed ?ps))) = Some Ledger_Unreadable"
    unfolding probed_def ledger_cell.refreshed_def by code_simp
  then have "ra_reason a = Some Ledger_Unreadable" by (simp add: r)
  from ledger_blame_needs_a_throw [OF r this] show ?thesis by auto
qed

end
