(* ===== verification/Reserve.thy ===== *)
theory Reserve
  imports Sender Node_Status
begin

text \<open>
  The reserve loop that shields mined coinbase into the wallet: the rules of
  \<open>src/src/lib/reserve/decide.ts\<close>, \<open>select.ts\<close> and \<open>stepFailure.ts\<close>, the reconciler's state and
  tick of \<open>reconciler.ts\<close>, and the shielding step of \<open>zalletRefiller.ts\<close>. Zatoshi, counts and
  milliseconds are integers; log lines are not modelled.
\<close>

subsection \<open>decide.ts\<close>

record reserve_levels =
  lowZat :: int
  targetZat :: int

definition decide_refilling :: "bool \<Rightarrow> int option \<Rightarrow> reserve_levels \<Rightarrow> bool" where
  "decide_refilling refilling spendableZat levels =
     (case spendableZat of None \<Rightarrow> refilling
      | Some s \<Rightarrow> if s < lowZat levels then True else if s \<ge> targetZat levels then False else refilling)"

definition initial_refilling :: "int option \<Rightarrow> reserve_levels \<Rightarrow> bool option" where
  "initial_refilling spendableZat levels =
     (case spendableZat of None \<Rightarrow> None | Some s \<Rightarrow> Some (s < targetZat levels))"

definition should_start_step :: "bool \<Rightarrow> bool \<Rightarrow> bool \<Rightarrow> bool \<Rightarrow> int \<Rightarrow> bool" where
  "should_start_step refilling harvesting canAct stepInFlight queueDepth =
     ((refilling \<or> harvesting) \<and> canAct \<and> \<not> stepInFlight \<and> queueDepth = 0)"

definition should_harvest :: "bool \<Rightarrow> int option \<Rightarrow> int \<Rightarrow> bool \<Rightarrow> int option \<Rightarrow> int \<Rightarrow> bool" where
  "should_harvest spendableKnown knownRemainingUTXOs minUTXOs lastSweepMoved msSinceLastHarvest intervalMs =
     (if intervalMs \<le> 0 then False
      else if \<not> spendableKnown then False
      else let draining = (lastSweepMoved \<and> (case knownRemainingUTXOs of None \<Rightarrow> False | Some k \<Rightarrow> k \<ge> minUTXOs))
           in if draining then True
              else (case msSinceLastHarvest of None \<Rightarrow> True | Some ms \<Rightarrow> ms \<ge> intervalMs))"

text \<open>What a step reports; a refusal carries the gate that refused.\<close>

record step_outcome =
  so_moved :: bool
  so_refused :: "gate option"
  so_remaining :: "int option"

datatype sweep_verdict = Sweep_Refused | Sweep_Moved | Nothing_Visible | Present_But_Unspendable | Count_Not_Reported

definition classify_sweep :: "step_outcome \<Rightarrow> sweep_verdict" where
  "classify_sweep outcome =
     (if so_refused outcome \<noteq> None then Sweep_Refused
      else if so_moved outcome then Sweep_Moved
      else case so_remaining outcome of None \<Rightarrow> Count_Not_Reported
        | Some k \<Rightarrow> if k > 0 then Present_But_Unspendable else Nothing_Visible)"

subsection \<open>select.ts\<close>

datatype refiller_kind = Noop_Refiller | Zallet_Refiller

definition select_refiller_kind :: "bool \<Rightarrow> bool \<Rightarrow> refiller_kind" where
  "select_refiller_kind shieldCoinbase sender_is_zallet =
     (if \<not> shieldCoinbase then Noop_Refiller else if sender_is_zallet then Zallet_Refiller else Noop_Refiller)"

subsection \<open>stepFailure.ts\<close>

datatype failure_kind = Waiting | Resyncing | Step_Error

text \<open>
  \<open>/insufficient balance/i\<close>, \<open>/no (spendable )?(coinbase|utxos?) /i\<close> and
  \<open>/recovering from a chain reorgani[sz]ation/i\<close>, as the texts they match.
\<close>

definition NOTHING_TO_SHIELD :: "string list" where
  "NOTHING_TO_SHIELD = [''insufficient balance'', ''no coinbase '', ''no utxo '', ''no utxos '',
     ''no spendable coinbase '', ''no spendable utxo '', ''no spendable utxos '']"

definition RESYNCING :: "string list" where
  "RESYNCING = [''recovering from a chain reorganisation'', ''recovering from a chain reorganization'']"

definition classify_step_failure :: "string \<Rightarrow> failure_kind" where
  "classify_step_failure message =
     (if list_ex (contains_text (to_lower message)) RESYNCING then Resyncing
      else if list_ex (contains_text (to_lower message)) NOTHING_TO_SHIELD then Waiting else Step_Error)"

definition MAX_BACKOFF_TICKS :: int where "MAX_BACKOFF_TICKS = 20"

definition backoff_ticks :: "int \<Rightarrow> int" where
  "backoff_ticks consecutiveFailures =
     (if consecutiveFailures \<le> 0 then 0 else min MAX_BACKOFF_TICKS (2 ^ nat (consecutiveFailures - 1)))"

definition should_attempt :: "int \<Rightarrow> int \<Rightarrow> bool" where
  "should_attempt consecutiveFailures ticksSinceLastAttempt = (ticksSinceLastAttempt \<ge> backoff_ticks consecutiveFailures)"

subsection \<open>reconciler.ts\<close>

definition LOUD_TICKS :: int where "LOUD_TICKS = 5"
definition SAMPLE_EVERY :: int where "SAMPLE_EVERY = 20"

definition should_say :: "int \<Rightarrow> bool" where
  "should_say consecutive = (consecutive \<le> LOUD_TICKS \<or> consecutive mod SAMPLE_EVERY = 0)"

record reserve_config =
  rv_levels :: reserve_levels
  rv_shieldCoinbase :: bool
  rv_harvestMinUTXOs :: int
  rv_harvestIntervalSeconds :: int

record reconciler =
  rc_refilling :: "bool option"
  rc_spendableZat :: "int option"
  rc_stepInFlight :: bool
  rc_ticking :: bool
  rc_blindTicks :: int
  rc_emptySweeps :: int
  rc_shieldRefusals :: int
  rc_forbiddenTicks :: int
  rc_failedSteps :: int
  rc_lastFailure :: "(failure_kind \<times> string) option"
  rc_ticksSinceAttempt :: int
  rc_lastRefusal :: "gate option"
  rc_remainingUTXOs :: "int option"
  rc_lastHarvestAt :: "int option"
  rc_lastSweepMoved :: bool
  rc_movedWithoutCount :: int
  rc_harvesting :: bool

definition new_reconciler :: reconciler where
  "new_reconciler = \<lparr>rc_refilling = None, rc_spendableZat = None, rc_stepInFlight = False, rc_ticking = False,
     rc_blindTicks = 0, rc_emptySweeps = 0, rc_shieldRefusals = 0, rc_forbiddenTicks = 0, rc_failedSteps = 0,
     rc_lastFailure = None, rc_ticksSinceAttempt = 0, rc_lastRefusal = None, rc_remainingUTXOs = None,
     rc_lastHarvestAt = None, rc_lastSweepMoved = True, rc_movedWithoutCount = 0, rc_harvesting = False\<rparr>"

text \<open>A tick enters, unless one is still waiting for its balance.\<close>

definition tick_enter :: "reconciler \<Rightarrow> reconciler option" where
  "tick_enter s = (if rc_ticking s then None else Some (s\<lparr>rc_ticking := True\<rparr>))"

text \<open>The balance has arrived: the counters and the hysteresis.\<close>

definition observe_balance :: "reserve_config \<Rightarrow> int option \<Rightarrow> reconciler \<Rightarrow> reconciler" where
  "observe_balance cfg balance s =
     (let refilling = (case rc_refilling s of None \<Rightarrow> initial_refilling balance (rv_levels cfg)
                       | Some r \<Rightarrow> Some (decide_refilling r balance (rv_levels cfg)))
      in s\<lparr>rc_spendableZat := balance,
           rc_blindTicks := (if balance = None then rc_blindTicks s + 1 else 0),
           rc_refilling := refilling,
           rc_forbiddenTicks := (if refilling = Some True \<and> \<not> rv_shieldCoinbase cfg then rc_forbiddenTicks s + 1 else 0)\<rparr>)"

definition harvest_due :: "reserve_config \<Rightarrow> int \<Rightarrow> reconciler \<Rightarrow> bool" where
  "harvest_due cfg now s =
     should_harvest (rc_spendableZat s \<noteq> None) (rc_remainingUTXOs s) (rv_harvestMinUTXOs cfg) (rc_lastSweepMoved s)
       (map_option (\<lambda>at'. now - at') (rc_lastHarvestAt s)) (rv_harvestIntervalSeconds cfg * 1000)"

text \<open>
  The rest of the tick: whether it starts a step, and with which harvest clock to go back to. Leaving the
  tick clears \<open>rc_ticking\<close>.
\<close>

definition tick_decide :: "reserve_config \<Rightarrow> int \<Rightarrow> int \<Rightarrow> reconciler \<Rightarrow> int option option \<times> reconciler" where
  "tick_decide cfg now queueDepth s =
     (let harvest = harvest_due cfg now s;
          start = should_start_step (rc_refilling s = Some True) harvest (rv_shieldCoinbase cfg) (rc_stepInFlight s) queueDepth
      in if \<not> start
         then (None, s\<lparr>rc_harvesting := (if rc_stepInFlight s then rc_harvesting s else False), rc_ticking := False\<rparr>)
         else
           let s1 = s\<lparr>rc_harvesting := (harvest \<and> rc_refilling s \<noteq> Some True),
                      rc_ticksSinceAttempt := rc_ticksSinceAttempt s + 1\<rparr>
           in if \<not> should_attempt (rc_failedSteps s1) (rc_ticksSinceAttempt s1)
              then (None, s1\<lparr>rc_harvesting := False, rc_ticking := False\<rparr>)
              else (Some (rc_lastHarvestAt s1),
                    s1\<lparr>rc_ticksSinceAttempt := 0, rc_stepInFlight := True,
                       rc_lastHarvestAt := (if rc_harvesting s1 then Some now else rc_lastHarvestAt s1),
                       rc_ticking := False\<rparr>))"

definition reserve_tick :: "reserve_config \<Rightarrow> int option \<Rightarrow> int \<Rightarrow> int \<Rightarrow> reconciler \<Rightarrow> int option option \<times> reconciler" where
  "reserve_tick cfg balance now queueDepth s =
     (case tick_enter s of None \<Rightarrow> (None, s)
      | Some s1 \<Rightarrow> tick_decide cfg now queueDepth (observe_balance cfg balance s1))"

text \<open>The step returned.\<close>

definition step_returned :: "int option \<Rightarrow> step_outcome \<Rightarrow> reconciler \<Rightarrow> reconciler" where
  "step_returned harvestClockBefore outcome s0 =
     (let s = s0\<lparr>rc_failedSteps := 0, rc_lastFailure := None\<rparr>;
          s1 = (if so_refused outcome = None
                then s\<lparr>rc_remainingUTXOs := so_remaining outcome, rc_lastSweepMoved := so_moved outcome\<rparr> else s);
          s2 = (case so_refused outcome of
              Some g \<Rightarrow> s1\<lparr>rc_lastHarvestAt := harvestClockBefore, rc_shieldRefusals := rc_shieldRefusals s1 + 1,
                          rc_lastRefusal := Some g\<rparr>
            | None \<Rightarrow>
                let s3 = s1\<lparr>rc_shieldRefusals := 0, rc_lastRefusal := None\<rparr> in
                if so_moved outcome
                then s3\<lparr>rc_emptySweeps := 0,
                        rc_movedWithoutCount := (if so_remaining outcome = None then rc_movedWithoutCount s3 + 1 else 0)\<rparr>
                else s3\<lparr>rc_emptySweeps := rc_emptySweeps s3 + 1\<rparr>)
      in s2\<lparr>rc_stepInFlight := False\<rparr>)"

text \<open>The step threw, or lost the race against its deadline.\<close>

definition step_threw :: "string \<Rightarrow> reconciler \<Rightarrow> reconciler" where
  "step_threw reason s =
     s\<lparr>rc_failedSteps := rc_failedSteps s + 1, rc_lastFailure := Some (classify_step_failure reason, reason),
       rc_lastSweepMoved := False, rc_stepInFlight := False\<rparr>"

subsection \<open>zalletRefiller.ts\<close>

definition SHIELD_UTXO_LIMIT :: int where "SHIELD_UTXO_LIMIT = 50"

record shield_env =
  sv_status :: "node_status option"
  sv_tip :: reference_reading
  sv_shieldcoinbase :: "string \<Rightarrow> int \<times> (string option \<times> int option) reply"
  sv_opStatus :: "nat \<Rightarrow> int \<times> op_result option reply"
  sv_opResult :: "int \<times> op_result option reply"

definition shield_params :: "string \<Rightarrow> string \<Rightarrow> string" where
  "shield_params account address =
     ''['' @ json_string account @ '','' @ json_string address @ '',null,'' @ show_int SHIELD_UTXO_LIMIT @ '']''"

definition pending_word :: "op_result option \<Rightarrow> string" where
  "pending_word s = (case s of None \<Rightarrow> ''pending'' | Some d \<Rightarrow>
     (case or_status d of Queued \<Rightarrow> ''queued'' | Executing \<Rightarrow> ''executing'' | Success \<Rightarrow> ''success''
      | Failed_Op \<Rightarrow> ''failed'' | Cancelled \<Rightarrow> ''cancelled'' | Other_Status w \<Rightarrow> w))"

text \<open>\<open>awaitOperation\<close>: here any failed call throws.\<close>

partial_function (option) shield_loop ::
  "sender_timings \<Rightarrow> string \<Rightarrow> (nat \<Rightarrow> int \<times> op_result option reply) \<Rightarrow> int \<Rightarrow> nat \<Rightarrow> int \<Rightarrow> (string option \<times> int) option" where
  "shield_loop z opid st deadline n t =
     (case st n of (took, r) \<Rightarrow>
        (case r of
           Reply s \<Rightarrow>
             if settled s then Some (None, t + took)
             else if t + took > deadline
             then Some (Some (''zallet shield '' @ opid @ '' timed out (still '' @ pending_word s @ '').''), t + took)
             else shield_loop z opid st deadline (n + 1) (t + took + pollMs z)
         | _ \<Rightarrow> Some (Some (je_message (rpc_error ''z_getoperationstatus'' r)), t + took)))"

definition shield_result :: "op_result option reply \<Rightarrow> string option" where
  "shield_result r =
     (case r of
        Reply (Some d) \<Rightarrow>
          if or_status d = Success then None
          else Some (''zallet shield failed: '' @ nullish (or_error d) (pending_word (Some d)))
      | Reply None \<Rightarrow> Some ''zallet shield failed: unknown error''
      | _ \<Rightarrow> Some (je_message (rpc_error ''z_getoperationresult'' r)))"

definition shield_await :: "sender_timings \<Rightarrow> shield_env \<Rightarrow> string \<Rightarrow> int \<Rightarrow> (string option \<times> int) option" where
  "shield_await z env opid t =
     (case shield_loop z opid (sv_opStatus env) (t + opTimeoutMs z) 0 t of
        None \<Rightarrow> None
      | Some (Some e, t') \<Rightarrow> Some (Some e, t')
      | Some (None, t') \<Rightarrow> let (took, r) = sv_opResult env in Some (shield_result r, t' + took))"

definition refusal_of :: "gate \<Rightarrow> step_outcome" where
  "refusal_of g = \<lparr>so_moved = False, so_refused = Some g, so_remaining = None\<rparr>"

text \<open>
  A step: what it threw or reported, the time it ended, and whether it asked the wallet to shield. The lag
  budgets are the two gates'.
\<close>

definition shield_step ::
  "sender_timings \<Rightarrow> string \<Rightarrow> string \<Rightarrow> int \<Rightarrow> int \<Rightarrow> shield_env \<Rightarrow> int \<Rightarrow> ((string + step_outcome) \<times> int \<times> bool) option" where
  "shield_step z account address shieldMax walletMax env t =
     (if account = [] then Some (Inl ''ZALLET_ACCOUNT (account UUID) is required to shield coinbase.'', t, False)
      else if address = [] then Some (Inl ''ZALLET_ADDRESS is required to shield coinbase.'', t, False)
      else
        let gate = (case sv_status env of Some s \<Rightarrow> ns_shield s | None \<Rightarrow> read_chain_freshness shieldMax None (sv_tip env))
        in if \<not> may_build_transaction gate then Some (Inr (refusal_of gate), t, False)
        else
          let lag = wallet_lag_freshness walletMax (Option.bind (sv_status env) ns_height)
                      (Option.bind (sv_status env) ns_nodeHeight)
          in if \<not> may_build_from_wallet lag then Some (Inr (refusal_of lag), t, False)
          else
            let (took, r) = sv_shieldcoinbase env (shield_params account address); t1 = t + took
            in case r of
                 Reply (opid, remaining) \<Rightarrow>
                   (case opid of
                      Some i \<Rightarrow>
                        if i = [] then Some (Inr \<lparr>so_moved = False, so_refused = None, so_remaining = remaining\<rparr>, t1, True)
                        else (case shield_await z env i t1 of
                            None \<Rightarrow> None
                          | Some (Some e, t2) \<Rightarrow> Some (Inl e, t2, True)
                          | Some (None, t2) \<Rightarrow>
                              Some (Inr \<lparr>so_moved = True, so_refused = None, so_remaining = remaining\<rparr>, t2, True))
                    | None \<Rightarrow> Some (Inr \<lparr>so_moved = False, so_refused = None, so_remaining = remaining\<rparr>, t1, True))
               | _ \<Rightarrow> Some (Inl (je_message (rpc_error ''z_shieldcoinbase'' r)), t1, True))"

text \<open>The refiller the configuration selects.\<close>

definition refiller_step ::
  "refiller_kind \<Rightarrow> sender_timings \<Rightarrow> string \<Rightarrow> string \<Rightarrow> int \<Rightarrow> int \<Rightarrow> shield_env \<Rightarrow> int
     \<Rightarrow> ((string + step_outcome) \<times> int \<times> bool) option" where
  "refiller_step kind z account address shieldMax walletMax env t =
     (case kind of
        Noop_Refiller \<Rightarrow> Some (Inr \<lparr>so_moved = False, so_refused = None, so_remaining = None\<rparr>, t, False)
      | Zallet_Refiller \<Rightarrow> shield_step z account address shieldMax walletMax env t)"

subsection \<open>Runs of the loop\<close>

text \<open>
  A run is the ticks and the ends of steps in the order they happen; beside the reconciler it keeps what
  the promise of the step in flight holds, the harvest clock from before it.
\<close>

datatype reserve_event = Tick "int option" int int | Returned step_outcome | Threw string

fun reserve_event_step :: "reserve_config \<Rightarrow> reserve_event \<Rightarrow> reconciler \<times> int option option \<Rightarrow> reconciler \<times> int option option" where
  "reserve_event_step cfg (Tick balance now depth) (s, inflight) =
     (case reserve_tick cfg balance now depth s of
        (Some clock, s') \<Rightarrow> (s', Some clock)
      | (None, s') \<Rightarrow> (s', inflight))"
| "reserve_event_step cfg (Returned outcome) (s, inflight) =
     (case inflight of Some clock \<Rightarrow> (step_returned clock outcome s, None) | None \<Rightarrow> (s, None))"
| "reserve_event_step cfg (Threw reason) (s, inflight) =
     (case inflight of Some clock \<Rightarrow> (step_threw reason s, None) | None \<Rightarrow> (s, None))"

definition reserve_run :: "reserve_config \<Rightarrow> reserve_event list \<Rightarrow> reconciler \<times> int option option \<Rightarrow> reconciler \<times> int option option" where
  "reserve_run cfg es w = foldl (\<lambda>w e. reserve_event_step cfg e w) w es"

text \<open>The tick starts a step, as a harvest.\<close>

definition starts :: "reserve_config \<Rightarrow> int option \<Rightarrow> int \<Rightarrow> int \<Rightarrow> reconciler \<Rightarrow> bool" where
  "starts cfg balance now depth s = (fst (reserve_tick cfg balance now depth s) \<noteq> None)"

definition starts_harvest :: "reserve_config \<Rightarrow> int option \<Rightarrow> int \<Rightarrow> int \<Rightarrow> reconciler \<Rightarrow> bool" where
  "starts_harvest cfg balance now depth s =
     (starts cfg balance now depth s \<and> rc_harvesting (snd (reserve_tick cfg balance now depth s)))"

definition draining :: "reserve_config \<Rightarrow> reconciler \<Rightarrow> bool" where
  "draining cfg s = (rc_lastSweepMoved s \<and> (\<exists>k. rc_remainingUTXOs s = Some k \<and> k \<ge> rv_harvestMinUTXOs cfg))"

text \<open>An end of a step that leaves known work behind, or that never asked the wallet.\<close>

definition leaves_work :: "reserve_config \<Rightarrow> reserve_event \<Rightarrow> bool" where
  "leaves_work cfg e =
     (case e of Returned r \<Rightarrow> so_refused r \<noteq> None
          \<or> (so_moved r \<and> (\<exists>k. so_remaining r = Some k \<and> k \<ge> rv_harvestMinUTXOs cfg))
      | _ \<Rightarrow> False)"

fun event_after :: "int \<Rightarrow> reserve_event \<Rightarrow> bool" where
  "event_after t (Tick b now d) = (t \<le> now)"
| "event_after t _ = True"

lemma observe_frame [frame_simps]:
  "rc_stepInFlight (observe_balance cfg b s) = rc_stepInFlight s"
  "rc_ticking (observe_balance cfg b s) = rc_ticking s"
  "rc_lastHarvestAt (observe_balance cfg b s) = rc_lastHarvestAt s"
  "rc_lastSweepMoved (observe_balance cfg b s) = rc_lastSweepMoved s"
  "rc_remainingUTXOs (observe_balance cfg b s) = rc_remainingUTXOs s"
  "rc_failedSteps (observe_balance cfg b s) = rc_failedSteps s"
  "rc_ticksSinceAttempt (observe_balance cfg b s) = rc_ticksSinceAttempt s"
  "rc_spendableZat (observe_balance cfg b s) = b"
  by (simp_all add: observe_balance_def Let_def)

lemma tick_keeps_count [frame_simps]:
  "rc_remainingUTXOs (snd (reserve_tick cfg b now d s)) = rc_remainingUTXOs s"
  "rc_lastSweepMoved (snd (reserve_tick cfg b now d s)) = rc_lastSweepMoved s"
  "rc_failedSteps (snd (reserve_tick cfg b now d s)) = rc_failedSteps s"
  by (simp_all add: reserve_tick_def tick_enter_def tick_decide_def Let_def observe_frame)

lemma tick_in_flight:
  "rc_stepInFlight (snd (reserve_tick cfg b now d s)) = (starts cfg b now d s \<or> rc_stepInFlight s)"
  "starts cfg b now d s \<Longrightarrow> \<not> rc_stepInFlight s \<and> \<not> rc_ticking s \<and> d = 0 \<and> rv_shieldCoinbase cfg"
  by (auto simp: starts_def reserve_tick_def tick_enter_def tick_decide_def should_start_step_def Let_def
      observe_frame split: if_splits)

lemma tick_harvest_clock:
  "rc_lastHarvestAt (snd (reserve_tick cfg b now d s)) =
     (if starts_harvest cfg b now d s then Some now else rc_lastHarvestAt s)"
  by (simp add: starts_harvest_def starts_def reserve_tick_def tick_enter_def tick_decide_def Let_def observe_frame)

lemma harvest_reason:
  assumes "starts_harvest cfg b now d s"
  shows "b \<noteq> None \<and> 0 < rv_harvestIntervalSeconds cfg
    \<and> (draining cfg s \<or> rc_lastHarvestAt s = None
       \<or> (\<exists>a. rc_lastHarvestAt s = Some a \<and> rv_harvestIntervalSeconds cfg * 1000 \<le> now - a))"
proof -
  have "harvest_due cfg now (observe_balance cfg b (s\<lparr>rc_ticking := True\<rparr>))"
    using assms by (auto simp: starts_harvest_def starts_def reserve_tick_def tick_enter_def tick_decide_def Let_def
        split: if_splits)
  then show ?thesis
    by (auto simp: harvest_due_def should_harvest_def draining_def Let_def observe_frame split: if_splits option.splits)
qed

text \<open>After a harvest has started at \<open>t\<close> and nothing has left work behind since.\<close>

definition paced :: "reserve_config \<Rightarrow> int \<Rightarrow> reconciler \<times> int option option \<Rightarrow> bool" where
  "paced cfg t w =
     ((\<exists>a. rc_lastHarvestAt (fst w) = Some a \<and> t \<le> a) \<and> rc_stepInFlight (fst w) = (snd w \<noteq> None)
      \<and> (snd w = None \<longrightarrow> \<not> draining cfg (fst w)))"

lemma draining_tick: "draining cfg (snd (reserve_tick cfg b now d s)) = draining cfg s"
  by (simp add: draining_def tick_keeps_count)

lemma paced_step:
  assumes "paced cfg t (s, inflight)" and "event_after t e" and "\<not> leaves_work cfg e"
  shows "paced cfg t (reserve_event_step cfg e (s, inflight))"
proof (cases e)
  case (Tick b now d)
  obtain r s' where rt: "reserve_tick cfg b now d s = (r, s')" by fastforce
  have fl: "rc_stepInFlight s' = (r \<noteq> None \<or> rc_stepInFlight s)"
    using tick_in_flight(1) [of cfg b now d s] rt by (simp add: starts_def)
  have cl: "\<exists>a. rc_lastHarvestAt s' = Some a \<and> t \<le> a"
    using tick_harvest_clock [of cfg b now d s] rt assms(1,2) Tick by (auto simp: paced_def split: if_splits)
  have dr: "draining cfg s' = draining cfg s" using draining_tick [of cfg b now d s] rt by simp
  have "inflight = None" if "r \<noteq> None"
    using that tick_in_flight(2) [of cfg b now d s] rt assms(1) by (auto simp: starts_def paced_def)
  then show ?thesis using rt fl cl dr assms(1) Tick by (cases r) (auto simp: paced_def)
next
  case (Returned o')
  with assms show ?thesis
    by (cases inflight)
      (auto simp: paced_def step_returned_def draining_def leaves_work_def Let_def split: option.splits)
next
  case (Threw m)
  with assms show ?thesis by (cases inflight) (auto simp: paced_def step_threw_def draining_def)
qed

lemma paced_run:
  assumes "paced cfg t w" and "\<forall>e\<in>set es. event_after t e \<and> \<not> leaves_work cfg e"
  shows "paced cfg t (reserve_run cfg es w)"
  using assms
proof (induction es arbitrary: w)
  case Nil
  then show ?case by (simp add: reserve_run_def)
next
  case (Cons e es)
  obtain s i where w: "w = (s, i)" by fastforce
  have "paced cfg t (reserve_event_step cfg e w)" using Cons.prems paced_step w by auto
  from Cons.IH [OF this] Cons.prems(2) show ?case by (simp add: reserve_run_def)
qed

lemma harvest_started_paced:
  assumes "starts_harvest cfg b now d s"
  shows "paced cfg now (reserve_event_step cfg (Tick b now d) (s, inflight))"
proof -
  obtain c s' where rt: "reserve_tick cfg b now d s = (Some c, s')"
    using assms by (cases "reserve_tick cfg b now d s") (auto simp: starts_harvest_def starts_def)
  have "rc_stepInFlight s'" "rc_lastHarvestAt s' = Some now"
    using tick_in_flight(1) [of cfg b now d s] tick_harvest_clock [of cfg b now d s] assms rt
    by (simp_all add: starts_harvest_def)
  with rt show ?thesis by (simp add: paced_def)
qed

subsection \<open>Hysteresis and backoff\<close>

definition refilling_after :: "reserve_config \<Rightarrow> int option list \<Rightarrow> bool option" where
  "refilling_after cfg readings = rc_refilling (foldl (\<lambda>s b. observe_balance cfg b s) new_reconciler readings)"

lemma refilling_after_snoc:
  "refilling_after cfg (bs @ [b]) =
     (case refilling_after cfg bs of None \<Rightarrow> initial_refilling b (rv_levels cfg)
      | Some r \<Rightarrow> Some (decide_refilling r b (rv_levels cfg)))"
  by (simp add: refilling_after_def observe_balance_def Let_def)

definition outside_band :: "reserve_levels \<Rightarrow> int \<Rightarrow> bool" where
  "outside_band lv s = (s < lowZat lv \<or> s \<ge> targetZat lv)"

text \<open>The last known reading outside the band, and the first known reading at all.\<close>

fun known_readings :: "int option list \<Rightarrow> int list" where
  "known_readings [] = []"
| "known_readings (None # bs) = known_readings bs"
| "known_readings (Some x # bs) = x # known_readings bs"

definition last_outside :: "reserve_levels \<Rightarrow> int option list \<Rightarrow> int option" where
  "last_outside lv readings = find (outside_band lv) (rev (known_readings readings))"

lemma known_snoc: "known_readings (bs @ [b]) = known_readings bs @ (case b of None \<Rightarrow> [] | Some x \<Rightarrow> [x])"
  by (induction bs rule: known_readings.induct) (auto split: option.splits)

lemma refilling_by_last_crossing:
  assumes "lowZat (rv_levels cfg) < targetZat (rv_levels cfg)"
  shows "refilling_after cfg bs =
     (if known_readings bs = [] then None
      else Some (case last_outside (rv_levels cfg) bs of None \<Rightarrow> True | Some s \<Rightarrow> s < lowZat (rv_levels cfg)))"
proof (induction bs rule: rev_induct)
  case Nil
  then show ?case by (simp add: refilling_after_def new_reconciler_def)
next
  case (snoc b bs)
  show ?case
  proof (cases b)
    case None
    with snoc show ?thesis
      by (auto simp: refilling_after_snoc known_snoc last_outside_def initial_refilling_def decide_refilling_def)
  next
    case (Some x)
    show ?thesis
      using snoc assms Some
      by (auto simp: refilling_after_snoc known_snoc last_outside_def outside_band_def initial_refilling_def
          decide_refilling_def split: option.splits)
  qed
qed

lemma backoff_bounds: "backoff_ticks n \<le> 20"
  by (simp add: backoff_ticks_def MAX_BACKOFF_TICKS_def)

text \<open>A tick that wants to refill either starts a step or counts up.\<close>

lemma wanting_tick:
  assumes "rv_shieldCoinbase cfg" and "b = Some x" and "x < lowZat (rv_levels cfg)"
    and "lowZat (rv_levels cfg) < targetZat (rv_levels cfg)" and "\<not> rc_stepInFlight s" and "\<not> rc_ticking s"
    and "\<not> starts cfg b now 0 s"
  shows "rc_ticksSinceAttempt (snd (reserve_tick cfg b now 0 s)) = rc_ticksSinceAttempt s + 1
    \<and> \<not> rc_stepInFlight (snd (reserve_tick cfg b now 0 s)) \<and> \<not> rc_ticking (snd (reserve_tick cfg b now 0 s))
    \<and> rc_ticksSinceAttempt s + 1 < backoff_ticks (rc_failedSteps s)"
proof -
  have "rc_refilling (observe_balance cfg b (s\<lparr>rc_ticking := True\<rparr>)) = Some True"
    using assms(2-4) by (simp add: observe_balance_def initial_refilling_def decide_refilling_def Let_def split: option.splits)
  with assms show ?thesis
    by (auto simp: starts_def reserve_tick_def tick_enter_def tick_decide_def should_start_step_def should_attempt_def
        Let_def observe_frame split: if_splits)
qed

lemma wanting_ticks:
  assumes "rv_shieldCoinbase cfg" and "lowZat (rv_levels cfg) < targetZat (rv_levels cfg)"
    and "\<forall>(x, now)\<in>set ticks. x < lowZat (rv_levels cfg)" and "\<not> rc_stepInFlight s" and "\<not> rc_ticking s"
    and "0 \<le> rc_ticksSinceAttempt s"
    and "\<forall>k<length ticks. \<not> starts cfg (Some (fst (ticks ! k))) (snd (ticks ! k)) 0
           (foldl (\<lambda>s (x, now). snd (reserve_tick cfg (Some x) now 0 s)) s (take k ticks))"
  shows "rc_ticksSinceAttempt s + int (length ticks) < backoff_ticks (rc_failedSteps s) \<or> ticks = []"
  using assms(3-7)
proof (induction ticks arbitrary: s)
  case Nil
  then show ?case by simp
next
  case (Cons p ps)
  obtain x now where p: "p = (x, now)" by fastforce
  let ?s = "snd (reserve_tick cfg (Some x) now 0 s)"
  have no: "\<not> starts cfg (Some x) now 0 s" using Cons.prems(5) p by (auto dest: spec [of _ 0])
  have x: "x < lowZat (rv_levels cfg)" using Cons.prems(1) p by simp
  note w = wanting_tick [OF assms(1) refl x assms(2) Cons.prems(2,3) no]
  have rest: "\<forall>k<length ps. \<not> starts cfg (Some (fst (ps ! k))) (snd (ps ! k)) 0
      (foldl (\<lambda>s (x, now). snd (reserve_tick cfg (Some x) now 0 s)) ?s (take k ps))"
  proof (intro allI impI)
    fix k assume "k < length ps"
    then show "\<not> starts cfg (Some (fst (ps ! k))) (snd (ps ! k)) 0
      (foldl (\<lambda>s (x, now). snd (reserve_tick cfg (Some x) now 0 s)) ?s (take k ps))"
      using spec [OF Cons.prems(5), of "Suc k"] p by simp
  qed
  have "rc_ticksSinceAttempt ?s + int (length ps) < backoff_ticks (rc_failedSteps ?s) \<or> ps = []"
    by (rule Cons.IH) (use Cons.prems w rest in auto)
  with w show ?case by (auto simp: tick_keeps_count)
qed

subsection \<open>The shielding step\<close>

definition prompt :: "sender_timings \<Rightarrow> shield_env \<Rightarrow> bool" where
  "prompt z env =
     ((\<forall>n. 0 \<le> fst (sv_opStatus env n) \<and> fst (sv_opStatus env n) \<le> rpcTimeoutMs z)
      \<and> (\<forall>p. 0 \<le> fst (sv_shieldcoinbase env p) \<and> fst (sv_shieldcoinbase env p) \<le> rpcTimeoutMs z)
      \<and> 0 \<le> fst (sv_opResult env) \<and> fst (sv_opResult env) \<le> rpcTimeoutMs z)"

lemma shield_loop_returns:
  assumes "\<forall>n. 0 \<le> fst (st n) \<and> fst (st n) \<le> rpcTimeoutMs z" and "0 < pollMs z" and "t \<le> deadline + pollMs z"
  shows "\<exists>e t'. shield_loop z opid st deadline n t = Some (e, t') \<and> t \<le> t' \<and> t' \<le> deadline + pollMs z + rpcTimeoutMs z"
  using assms(3)
proof (induction "nat (deadline + pollMs z - t)" arbitrary: n t rule: less_induct)
  case less
  obtain took r where p: "st n = (took, r)" by fastforce
  have b: "0 \<le> took" "took \<le> rpcTimeoutMs z" using assms(1) p by (metis fst_conv)+
  show ?case
  proof (cases "\<exists>d. r = Reply d \<and> \<not> settled d \<and> t + took \<le> deadline")
    case False
    then show ?thesis using p b less.prems by (subst shield_loop.simps) (auto split: reply.splits)
  next
    case True
    then obtain d where d: "r = Reply d" "\<not> settled d" "t + took \<le> deadline" by blast
    have "nat (deadline + pollMs z - (t + took + pollMs z)) < nat (deadline + pollMs z - t)"
      using d(3) b assms(2) by simp
    from less.hyps [OF this, of "n + 1"] d(3) obtain e t' where
      "shield_loop z opid st deadline (n + 1) (t + took + pollMs z) = Some (e, t')" "t + took + pollMs z \<le> t'"
      "t' \<le> deadline + pollMs z + rpcTimeoutMs z" by auto
    then show ?thesis using p b d assms(2) by (subst shield_loop.simps) auto
  qed
qed

lemma shield_await_time:
  assumes "prompt z env" and "0 < pollMs z" and "0 \<le> opTimeoutMs z"
  shows "\<exists>e t'. shield_await z env opid t = Some (e, t') \<and> t \<le> t'
    \<and> t' \<le> t + opTimeoutMs z + pollMs z + 2 * rpcTimeoutMs z"
proof -
  have "\<forall>n. 0 \<le> fst (sv_opStatus env n) \<and> fst (sv_opStatus env n) \<le> rpcTimeoutMs z" using assms(1) by (simp add: prompt_def)
  from shield_loop_returns [OF this assms(2), of t "t + opTimeoutMs z" opid 0] assms(2,3)
  obtain e t' where l: "shield_loop z opid (sv_opStatus env) (t + opTimeoutMs z) 0 t = Some (e, t')" "t \<le> t'"
    "t' \<le> t + opTimeoutMs z + pollMs z + rpcTimeoutMs z" by auto
  obtain took r where r: "sv_opResult env = (took, r)" by fastforce
  have "0 \<le> took" "took \<le> rpcTimeoutMs z" using assms(1) r by (simp_all add: prompt_def)
  with l r show ?thesis by (cases e) (auto simp: shield_await_def)
qed

lemma asked_only_when_safe:
  assumes "shield_step z account address shieldMax walletMax env t = Some (r, t', True)"
  shows "\<exists>s. sv_status env = Some s \<and> may_build_transaction (ns_shield s)
    \<and> may_build_from_wallet (wallet_lag_freshness walletMax (ns_height s) (ns_nodeHeight s))"
proof (cases "sv_status env")
  case None
  then show ?thesis using assms
    by (auto simp: shield_step_def Let_def may_build_transaction_def read_chain_freshness_def chain_freshness_def
        split: if_splits)
next
  case (Some s)
  then show ?thesis using assms by (auto simp: shield_step_def Let_def split: if_splits)
qed

subsection \<open>Properties\<close>

text \<open>
  A harvest repeats quickly only while it makes progress. Once a tick has started a harvest, no later
  tick starts one before the configured interval is over, whatever ticks, refills, failures and fruitless
  sweeps come between, unless a step in between moved funds and reported at least the minimal count left,
  or was refused before it asked the wallet.
\<close>

theorem quick_harvest_needs_progress:
  assumes "starts_harvest cfg b1 t1 d1 s"
    and "reserve_run cfg (Tick b1 t1 d1 # between) (s, inflight) = (s2, inflight2)"
    and "\<forall>e\<in>set between. event_after t1 e \<and> \<not> leaves_work cfg e"
    and "starts_harvest cfg b2 t2 d2 s2"
  shows "t1 + rv_harvestIntervalSeconds cfg * 1000 \<le> t2"
proof -
  have "paced cfg t1 (s2, inflight2)"
    using paced_run [OF harvest_started_paced [OF assms(1)] assms(3), of inflight] assms(2)
    by (simp add: reserve_run_def)
  moreover have "\<not> rc_stepInFlight s2" using tick_in_flight(2) [of cfg b2 t2 d2 s2] assms(4) by (simp add: starts_harvest_def)
  ultimately obtain a where "rc_lastHarvestAt s2 = Some a" "t1 \<le> a" "\<not> draining cfg s2"
    by (auto simp: paced_def)
  with harvest_reason [OF assms(4)] show ?thesis by auto
qed

definition ex_reserve :: reserve_config where
  "ex_reserve = \<lparr>rv_levels = \<lparr>lowZat = 100, targetZat = 1000\<rparr>, rv_shieldCoinbase = True, rv_harvestMinUTXOs = 10,
     rv_harvestIntervalSeconds = 3600\<rparr>"

definition ex_between :: "reserve_event list" where
  "ex_between = [Returned \<lparr>so_moved = False, so_refused = None, so_remaining = Some 40\<rparr>, Tick (Some 2000) 30000 0]"

theorem quick_harvest_needs_progress_witness:
  "0 + rv_harvestIntervalSeconds ex_reserve * 1000 \<le> (3600000::int)"
proof -
  obtain s2 i2 where r: "reserve_run ex_reserve (Tick (Some 2000) 0 0 # ex_between) (new_reconciler, None) = (s2, i2)"
    by fastforce
  have "starts_harvest ex_reserve (Some 2000) 0 0 new_reconciler" by code_simp
  moreover have "starts_harvest ex_reserve (Some 2000) 3600000 0
      (fst (reserve_run ex_reserve (Tick (Some 2000) 0 0 # ex_between) (new_reconciler, None)))" by code_simp
  ultimately show ?thesis
    using quick_harvest_needs_progress [OF _ r, of "Some 2000" 3600000 0] r
    by (simp add: ex_between_def leaves_work_def)
qed

text \<open>
  C24: Hysteresis. With the low mark below the target, what the loop decides after any sequence of
  balance readings, unreadable ones included, is settled by the last known reading outside the band:
  refilling when it was below the low mark, not refilling when it had reached the target. If every known
  reading was inside the band it is refilling, and it is undecided only while no reading was known.
\<close>

theorem hysteresis_by_last_crossing:
  assumes "lowZat (rv_levels cfg) < targetZat (rv_levels cfg)"
  shows "refilling_after cfg readings =
     (if known_readings readings = [] then None
      else Some (case last_outside (rv_levels cfg) readings of None \<Rightarrow> True | Some s \<Rightarrow> s < lowZat (rv_levels cfg)))"
  using assms by (rule refilling_by_last_crossing)

theorem hysteresis_by_last_crossing_witness:
  "refilling_after ex_reserve [None, Some 50, None, Some 400, Some 999] = Some True"
  using hysteresis_by_last_crossing [of ex_reserve "[None, Some 50, None, Some 400, Some 999]"]
  by (simp add: ex_reserve_def last_outside_def outside_band_def)

text \<open>
  C25: A needed refill is attempted. However many steps have failed before, among any twenty consecutive
  ticks that read a balance below the low mark, find the send queue empty and are permitted to shield,
  starting with no step in flight, one starts a step.
\<close>

theorem needed_refill_is_attempted:
  assumes "rv_shieldCoinbase cfg" and "lowZat (rv_levels cfg) < targetZat (rv_levels cfg)"
    and "length ticks = 20" and "\<forall>(x, now)\<in>set ticks. x < lowZat (rv_levels cfg)"
    and "\<not> rc_stepInFlight s" and "\<not> rc_ticking s" and "0 \<le> rc_ticksSinceAttempt s"
  shows "\<exists>k<20. starts cfg (Some (fst (ticks ! k))) (snd (ticks ! k)) 0
           (foldl (\<lambda>s (x, now). snd (reserve_tick cfg (Some x) now 0 s)) s (take k ticks))"
proof (rule ccontr)
  assume "\<not> ?thesis"
  then have "rc_ticksSinceAttempt s + int (length ticks) < backoff_ticks (rc_failedSteps s) \<or> ticks = []"
    using wanting_ticks [OF assms(1,2,4-7)] assms(3) by auto
  with assms(3,7) backoff_bounds [of "rc_failedSteps s"] show False by auto
qed

definition failing :: reconciler where
  "failing = new_reconciler\<lparr>rc_failedSteps := 9, rc_lastSweepMoved := False\<rparr>"

definition ex_ticks :: "(int \<times> int) list" where
  "ex_ticks = map (\<lambda>i. (50, int i)) [0..<20]"

theorem needed_refill_is_attempted_witness:
  "\<exists>k<20. starts ex_reserve (Some (fst (ex_ticks ! k))) (snd (ex_ticks ! k)) 0
     (foldl (\<lambda>s (x, now). snd (reserve_tick ex_reserve (Some x) now 0 s)) failing (take k ex_ticks))"
  by (rule needed_refill_is_attempted) (auto simp: ex_reserve_def failing_def new_reconciler_def ex_ticks_def)

text \<open>
  C23: A sweep is broadcast only if it can still confirm. When the step asks the wallet to shield, on a
  status just read from the wallet, the independent tip is known and at least ten blocks short of the
  expiry height the wallet would stamp from its scanned height.
\<close>

theorem sweep_leaves_ten_blocks:
  assumes "shield_step z account address (shield_max_lag_blocks shieldConf) (wallet_max_lag_blocks walletConf) env t
      = Some (r, t', True)"
    and "sv_status env = fst (get_node_status scfg purpose fetch tip identity now lastTip)"
    and "sc_shieldMaxLag scfg = shield_max_lag_blocks shieldConf"
  shows "\<exists>s w e. sv_status env = Some s \<and> ns_height s = Some w \<and> rr_height tip = Some e
    \<and> e + 10 \<le> w + EXPIRY_DELTA_BLOCKS"
proof -
  obtain s where s: "sv_status env = Some s" "may_build_transaction (ns_shield s)"
    "may_build_from_wallet (wallet_lag_freshness (wallet_max_lag_blocks walletConf) (ns_height s) (ns_nodeHeight s))"
    using asked_only_when_safe [OF assms(1)] by blast
  obtain w n now' where "ns_height s = Some w" "ns_nodeHeight s = Some n"
    "ns_shield s = read_chain_freshness (shield_max_lag_blocks shieldConf) (Some n) tip"
    using s(1) assms(2,3) by (auto simp: get_node_status_def status_of_def Let_def split_beta
        split: if_splits option.splits status_answer.splits)
  with s(2,3) have "\<exists>w' e. Some w = Some w' \<and> rr_height tip = Some e \<and> e + 10 \<le> w' + EXPIRY_DELTA_BLOCKS"
    by (intro safe_gates_leave_ten) (simp_all add: read_chain_freshness_def)
  with s(1) \<open>ns_height s = Some w\<close> show ?thesis by blast
qed

definition ex_shield_env :: shield_env where
  "ex_shield_env = \<lparr>sv_status = fst ex_read, sv_tip = ex_tip, sv_shieldcoinbase = \<lambda>_. (900, Reply (None, Some 0)),
     sv_opStatus = \<lambda>_. (0, Reply None), sv_opResult = (0, Reply None)\<rparr>"

theorem sweep_leaves_ten_blocks_witness:
  "\<exists>s w e. sv_status ex_shield_env = Some s \<and> ns_height s = Some w \<and> rr_height ex_tip = Some e \<and> e + 10 \<le> w + EXPIRY_DELTA_BLOCKS"
proof -
  have "case shield_step stock_timings ''a'' ''u'' (shield_max_lag_blocks 5) (wallet_max_lag_blocks 10) ex_shield_env 0 of
      Some (r, t, asked) \<Rightarrow> asked | None \<Rightarrow> False"
    by (simp add: shield_step_def ex_shield_env_def ex_read_def get_node_status_def ex_status_config_def status_of_def
        node_status_attempts_ms_def node_status_budget_ms_def node_status_timeout_ms_def Let_def ex_tip_def
        may_build_transaction_def may_build_from_wallet_def read_chain_freshness_def chain_freshness_def
        wallet_lag_freshness_def shield_max_lag_blocks_def SHIELD_LAG_CEILING_def wallet_max_lag_blocks_def
        WALLET_LAG_CEILING_def)
  then obtain r t' where "shield_step stock_timings ''a'' ''u'' (shield_max_lag_blocks 5) (wallet_max_lag_blocks 10) ex_shield_env 0
      = Some (r, t', True)" by (auto split: option.splits)
  from sweep_leaves_ten_blocks [OF this, of ex_status_config For_Page "\<lambda>_ _. (400, Some (Status_Body (Some 996) (Some 1006)))"
      ex_tip ex_identity 5000 None]
  show ?thesis
    by (simp add: ex_shield_env_def ex_read_def ex_status_config_def shield_max_lag_blocks_def SHIELD_LAG_CEILING_def)
qed

text \<open>
  A sweep holds the send queue no longer than a drip may. When every call to the wallet is answered or
  aborted within the call timeout, the step returns, with an outcome or an error, within the worst case
  the queue's deadlines are computed from.
\<close>

theorem sweep_ends_within_worst_case:
  assumes "prompt z env" and "0 < pollMs z" and "0 \<le> opTimeoutMs z"
  shows "\<exists>r t' asked. shield_step z account address shieldMax walletMax env t = Some (r, t', asked)
    \<and> t' \<le> t + sender_worst_case_ms z"
proof -
  obtain took r where r: "sv_shieldcoinbase env (shield_params account address) = (took, r)" by fastforce
  have took: "0 \<le> took" "took \<le> rpcTimeoutMs z" using assms(1) r unfolding prompt_def by (metis fst_conv)+
  have w: "took \<le> sender_worst_case_ms z" "0 \<le> sender_worst_case_ms z"
    using took assms(2,3) by (simp_all add: sender_worst_case_ms_eq)
  have a: "\<exists>e t'. shield_await z env i (t + took) = Some (e, t') \<and> t' \<le> t + sender_worst_case_ms z" for i
    using shield_await_time [OF assms, of i "t + took"] took assms(2) by (fastforce simp: sender_worst_case_ms_eq)
  show ?thesis
  proof (cases "\<exists>i rem. r = Reply (Some i, rem) \<and> i \<noteq> []")
    case False
    with r w show ?thesis
      by (cases r) (auto simp: shield_step_def Let_def split: option.splits)
  next
    case True
    then obtain i rem e t' where "r = Reply (Some i, rem)" "i \<noteq> []" "shield_await z env i (t + took) = Some (e, t')"
      "t' \<le> t + sender_worst_case_ms z" using a by blast
    with r w show ?thesis
      by (cases e) (auto simp: shield_step_def Let_def)
  qed
qed

theorem sweep_ends_within_worst_case_witness:
  "\<exists>r t' asked. shield_step stock_timings ''a'' ''u'' 5 10 ex_shield_env 0 = Some (r, t', asked) \<and> t' \<le> 279000"
  using sweep_ends_within_worst_case [of stock_timings ex_shield_env "''a''" "''u''" 5 10 0]
  by (simp add: stock_worst_case) (simp add: prompt_def ex_shield_env_def stock_timings_def zallet_timings_def)

end
