(* ===== verification/Ledger_Stats.thy ===== *)
theory Ledger_Stats
  imports Ledger
begin

text \<open>
  The counts the ledger answers: drips by UTC day and the one-time seed of that counter
  (\<open>countDrips\<close>, \<open>seedDripDays\<close>), and the farming signals (\<open>farmingSignals\<close>) of
  \<open>src/src/lib/db/index.ts\<close> over the statements of \<open>src/src/lib/db/sql.ts\<close>.

  A UTC day is its number since 1970-01-01; the source writes it as \<open>YYYY-MM-DD\<close>, which
  orders the same way. A driver call that throws is a \<open>False\<close> of the schedule the operation
  takes, so every catch of the source is a branch.
\<close>

subsection \<open>Windows\<close>

text \<open>\<open>utcDayWindow\<close>: the loop from \<open>days - 1\<close> days back down to today.\<close>

fun utc_day_window :: "int \<Rightarrow> nat \<Rightarrow> utc_day list" where
  "utc_day_window nowMs 0 = []"
| "utc_day_window nowMs (Suc back) =
     utc_day_of (nowMs - int back * 86400000) # utc_day_window nowMs back"

lemma utc_day_back: "utc_day_of (nowMs - int k * 86400000) = utc_day_of nowMs - int k"
proof -
  have "nowMs - int k * 86400000 = nowMs + (- int k) * 86400000" by simp
  then show ?thesis unfolding utc_day_of_def by (simp only: div_mult_self1)
qed

lemma utc_day_window_upto:
  "utc_day_window nowMs n = [utc_day_of nowMs - int n + 1 .. utc_day_of nowMs]"
proof (induction n)
  case (Suc n)
  then show ?case by (simp add: utc_day_back upto_rec1)
qed simp

subsection \<open>The statements over drip\_days\<close>

type_synonym drip_table = "((network \<times> utc_day) \<times> int) list"

record drip_totals =
  dt_allTime :: int
  dt_last30d :: int
  dt_last7d :: int
  dt_countingSince :: "utc_day option"

text \<open>\<open>COALESCE(SUM(CASE WHEN P THEN sent END), 0)\<close> and \<open>MIN(day)\<close> over one network's rows.\<close>

definition sum_sent :: "((network \<times> utc_day) \<Rightarrow> bool) \<Rightarrow> drip_table \<Rightarrow> int" where
  "sum_sent P rows = sum_list (map snd (filter (\<lambda>r. P (fst r)) rows))"

definition min_day :: "network \<Rightarrow> drip_table \<Rightarrow> utc_day option" where
  "min_day n rows =
     (case map (snd \<circ> fst) (filter (\<lambda>r. fst (fst r) = n) rows) of
        [] \<Rightarrow> None | d # ds \<Rightarrow> Some (fold min ds d))"

definition drip_totals_sql :: "utc_day \<Rightarrow> utc_day \<Rightarrow> utc_day \<Rightarrow> network \<Rightarrow> drip_table \<Rightarrow> drip_totals" where
  "drip_totals_sql first30 today first7 n rows =
     \<lparr>dt_allTime = sum_sent (\<lambda>k. fst k = n) rows,
      dt_last30d = sum_sent (\<lambda>k. fst k = n \<and> first30 \<le> snd k \<and> snd k \<le> today) rows,
      dt_last7d = sum_sent (\<lambda>k. fst k = n \<and> first7 \<le> snd k \<and> snd k \<le> today) rows,
      dt_countingSince = min_day n rows\<rparr>"

definition drip_by_day_sql :: "network \<Rightarrow> utc_day \<Rightarrow> utc_day \<Rightarrow> drip_table \<Rightarrow> (utc_day \<times> int) list" where
  "drip_by_day_sql n first today rows =
     map (\<lambda>r. (snd (fst r), snd r))
       (filter (\<lambda>r. fst (fst r) = n \<and> first \<le> snd (fst r) \<and> snd (fst r) \<le> today) rows)"

definition drip_any_sql :: "drip_table \<Rightarrow> int" where
  "drip_any_sql rows = int (length rows)"

definition drip_seed_sql :: "network \<Rightarrow> utc_day \<Rightarrow> int \<Rightarrow> ledger \<Rightarrow> ledger" where
  "drip_seed_sql n d sent l =
     l\<lparr>drip_days := AList.update (n, d)
        (case map_of (drip_days l) (n, d) of None \<Rightarrow> sent | Some old \<Rightarrow> max old sent) (drip_days l)\<rparr>"

subsection \<open>The seed\<close>

definition sent_on :: "utc_day \<Rightarrow> claim list \<Rightarrow> int" where
  "sent_on d rows =
     int (length (filter (\<lambda>c. status c = Sent \<and> d * 86400 \<le> created_at c
        \<and> created_at c < d * 86400 + 86400) rows))"

text \<open>
  The loop over the three candidate days. \<open>ok\<close> says for a day whether its count and its
  write were answered; the loop stops at the first one that was not, with the writes made so
  far kept, and the result is whether it ran to the end.
\<close>

fun seed_each :: "(utc_day \<Rightarrow> bool) \<Rightarrow> utc_day list \<Rightarrow> ledger \<Rightarrow> bool \<times> ledger" where
  "seed_each ok [] l = (True, l)"
| "seed_each ok (d # ds) l =
     (if ok d
      then seed_each ok ds
             (if sent_on d (claims l) > 0 then drip_seed_sql Taz d (sent_on d (claims l)) l else l)
      else (False, l))"

definition seed_drip_days :: "(utc_day \<Rightarrow> bool) \<Rightarrow> int \<Rightarrow> ledger \<Rightarrow> bool \<times> ledger" where
  "seed_drip_days ok nowMs l =
     (if drip_any_sql (drip_days l) > 0 then (True, l)
      else seed_each ok (utc_day_window nowMs 3) l)"

subsection \<open>countDrips\<close>

record drip_counts =
  dc_allTime :: int
  dc_last7d :: int
  dc_last30d :: int
  dc_countingSince :: "utc_day option"
  dc_byDay :: "(utc_day \<times> int) list"

text \<open>The series: the window, filled from the rows keyed by day, a missing day being zero.\<close>

definition drip_series :: "utc_day list \<Rightarrow> (utc_day \<times> int) list \<Rightarrow> (utc_day \<times> int) list" where
  "drip_series days rows = map (\<lambda>d. (d, nullish (map_of (rev rows) d) 0)) days"

definition drip_answer :: "int \<Rightarrow> network \<Rightarrow> drip_table \<Rightarrow> drip_table \<Rightarrow> drip_counts" where
  "drip_answer nowMs n totals_at days_at =
     (let window30 = utc_day_window nowMs 30;
          today = last window30;
          row = drip_totals_sql (hd window30) today (hd (utc_day_window nowMs 7)) n totals_at
      in \<lparr>dc_allTime = dt_allTime row, dc_last7d = dt_last7d row, dc_last30d = dt_last30d row,
          dc_countingSince = dt_countingSince row,
          dc_byDay = drip_series window30 (drip_by_day_sql n (hd window30) today days_at)\<rparr>)"

text \<open>
  One call. \<open>seeded\<close> is \<open>seedOnce\<close>: a seed that failed is forgotten, one that finished is not
  run again. The two reads go out together, so what other connections write may land between
  them: \<open>between\<close>. A read that throws, and a seed that throws, is a \<open>None\<close>.
\<close>

definition count_drips ::
  "(utc_day \<Rightarrow> bool) \<Rightarrow> bool \<Rightarrow> (ledger \<Rightarrow> ledger) \<Rightarrow> int \<Rightarrow> network \<Rightarrow> bool \<times> ledger
     \<Rightarrow> drip_counts option \<times> (bool \<times> ledger)" where
  "count_drips seed_ok reads_ok between nowMs n s =
     (let (done, l1) = (if fst s then (True, snd s) else seed_drip_days seed_ok nowMs (snd s));
          l2 = between l1
      in (if done \<and> reads_ok then Some (drip_answer nowMs n (drip_days l1) (drip_days l2)) else None,
          (done, l2)))"

subsection \<open>Farming signals\<close>

record farming_signals =
  fa_claims1h :: int
  fa_distinctIps1h :: int
  fa_distinctAddrs1h :: int
  fa_zat1h :: int
  fa_claims24h :: int
  fa_distinctIps24h :: int
  fa_distinctAddrs24h :: int
  fa_zat24h :: int
  fa_claimsPerIp24h :: "(int \<times> int) option"

definition farmed_rows :: "int \<Rightarrow> claim list \<Rightarrow> claim list" where
  "farmed_rows cut' rows = filter (\<lambda>c. status c \<noteq> Failed \<and> created_at c \<ge> cut') rows"

definition distinct_count :: "(claim \<Rightarrow> string) \<Rightarrow> claim list \<Rightarrow> int" where
  "distinct_count key rows = int (length (remdups (map key rows)))"

text \<open>
  Amounts stay in zatoshi here (the source divides by \<open>1e8\<close> for display) and the ratio is the
  pair it divides, absent when there is nothing to divide by.
\<close>

definition farming_signals_of :: "int \<Rightarrow> claim list \<Rightarrow> farming_signals" where
  "farming_signals_of now rows =
     (let hour = farmed_rows (now - 3600) rows; day = farmed_rows (now - 86400) rows;
          ips = distinct_count ip_hash day
      in \<lparr>fa_claims1h = int (length hour), fa_distinctIps1h = distinct_count ip_hash hour,
          fa_distinctAddrs1h = distinct_count address_hash hour,
          fa_zat1h = sum_list (map amount_zat hour),
          fa_claims24h = int (length day), fa_distinctIps24h = ips,
          fa_distinctAddrs24h = distinct_count address_hash day,
          fa_zat24h = sum_list (map amount_zat day),
          fa_claimsPerIp24h = (if ips > 0 then Some (int (length day), ips) else None)\<rparr>)"

subsection \<open>The table keeps one row per network and day\<close>

definition drips_ok :: "drip_table \<Rightarrow> bool" where
  "drips_ok rows = (distinct (map fst rows) \<and> (\<forall>r\<in>set rows. 0 \<le> snd r))"

lemma drips_ok_empty [simp]: "drips_ok []"
  by (simp add: drips_ok_def)

lemma set_alist_update: "set (AList.update k v rows) \<subseteq> insert (k, v) (set rows)"
  by (induction rows) auto

lemma drips_ok_update: "drips_ok rows \<Longrightarrow> 0 \<le> v \<Longrightarrow> drips_ok (AList.update k v rows)"
  using set_alist_update [of k v rows] by (force simp: drips_ok_def distinct_update)

lemma drips_ok_old: "drips_ok rows \<Longrightarrow> map_of rows k = Some v \<Longrightarrow> 0 \<le> v"
  by (auto simp: drips_ok_def dest: map_of_SomeD)

lemma drips_ok_bump: "drips_ok (drip_days l) \<Longrightarrow> drips_ok (drip_days (drip_bump_sql n d l))"
  by (cases "map_of (drip_days l) (n, d)")
     (auto simp: drip_bump_sql_def intro!: drips_ok_update dest: drips_ok_old)

lemma drips_ok_seed:
  "drips_ok (drip_days l) \<Longrightarrow> 0 \<le> sent \<Longrightarrow> drips_ok (drip_days (drip_seed_sql n d sent l))"
  by (auto simp: drip_seed_sql_def intro!: drips_ok_update split: option.split)

lemma drips_ok_seed_each:
  "drips_ok (drip_days l) \<Longrightarrow> drips_ok (drip_days (snd (seed_each ok ds l)))"
  by (induction ok ds l rule: seed_each.induct) (simp_all add: drips_ok_seed)

subsection \<open>The series and the totals agree\<close>

lemma map_of_rev_distinct: "distinct (map fst ps) \<Longrightarrow> map_of (rev ps) = map_of ps"
  by (rule ext, rule option.expand)
     (auto simp: map_of_eq_None_iff rev_map [symmetric] dom_map_of_conv_image_fst
        dest: map_of_SomeD)

lemma sum_of_table:
  fixes ps :: "('a \<times> int) list"
  assumes "distinct (map fst ps)" and "set (map fst ps) \<subseteq> set ds" and "distinct ds"
  shows "sum_list (map (\<lambda>d. nullish (map_of ps d) 0) ds) = sum_list (map snd ps)"
  using assms(1,2)
proof (induction ps)
  case Nil
  then show ?case by (simp add: sum_list_0)
next
  case (Cons p ps)
  obtain d v where p: "p = (d, v)" by force
  have new: "map_of ps d = None" and d: "d \<in> set ds"
    using Cons.prems by (auto simp: p map_of_eq_None_iff)
  have "sum_list (map (\<lambda>x. nullish (map_of (p # ps) x) 0) ds)
      = (\<Sum>x\<in>set ds. nullish (map_of (p # ps) x) 0)"
    using assms(3) by (simp add: sum_list_distinct_conv_sum_set)
  also have "\<dots> = v + (\<Sum>x\<in>set ds - {d}. nullish (map_of ps x) 0)"
    using d by (simp add: sum.remove [of "set ds" d] p)
  also have "(\<Sum>x\<in>set ds - {d}. nullish (map_of ps x) 0) = (\<Sum>x\<in>set ds. nullish (map_of ps x) 0)"
    using d new by (simp add: sum.remove [of "set ds" d])
  also have "\<dots> = sum_list (map snd ps)"
    using Cons assms(3) by (simp add: sum_list_distinct_conv_sum_set)
  finally show ?case by (simp add: p)
qed

lemma by_day_keys:
  "map fst (drip_by_day_sql n a b rows)
     = map snd (filter (\<lambda>k. fst k = n \<and> a \<le> snd k \<and> snd k \<le> b) (map fst rows))"
  by (induction rows) (auto simp: drip_by_day_sql_def)

lemma by_day_distinct:
  assumes "drips_ok rows"
  shows "distinct (map fst (drip_by_day_sql n a b rows))"
proof -
  have "distinct (filter (\<lambda>k. fst k = n \<and> a \<le> snd k \<and> snd k \<le> b) (map fst rows))" (is "distinct ?ks")
    using assms by (simp add: drips_ok_def)
  moreover have "inj_on snd (set ?ks)" by (auto intro!: inj_onI)
  ultimately show ?thesis unfolding by_day_keys distinct_map by blast
qed

lemma by_day_sum:
  "sum_list (map snd (drip_by_day_sql n a b rows))
     = sum_sent (\<lambda>k. fst k = n \<and> a \<le> snd k \<and> snd k \<le> b) rows"
  by (simp add: drip_by_day_sql_def sum_sent_def comp_def)

lemma series_sum:
  assumes "drips_ok rows" and "a' \<le> a"
  shows "sum_list (map (\<lambda>d. nullish (map_of (rev (drip_by_day_sql n a' b rows)) d) 0) [a..b])
      = sum_sent (\<lambda>k. fst k = n \<and> a \<le> snd k \<and> snd k \<le> b) rows"
proof -
  have eq: "map_of (rev (drip_by_day_sql n a' b rows)) d = map_of (drip_by_day_sql n a b rows) d"
    if "d \<in> set [a..b]" for d
  proof (rule option.expand)
    let ?A = "drip_by_day_sql n a' b rows" and ?B = "drip_by_day_sql n a b rows"
    have in_iff: "(d, v) \<in> set ?A \<longleftrightarrow> (d, v) \<in> set ?B" for v
      using that assms(2) by (auto simp: drip_by_day_sql_def)
    have A: "map_of ?A d = Some v \<longleftrightarrow> (d, v) \<in> set ?A" for v
      using by_day_distinct [OF assms(1)] by (simp add: map_of_eq_Some_iff)
    have B: "map_of ?B d = Some v \<longleftrightarrow> (d, v) \<in> set ?B" for v
      using by_day_distinct [OF assms(1)] by (simp add: map_of_eq_Some_iff)
    have "map_of ?A d = map_of ?B d"
      using A B in_iff by (metis option.exhaust)
    then show "(map_of (rev ?A) d = None) = (map_of ?B d = None)"
      and "the (map_of (rev ?A) d) = the (map_of ?B d)"
      by (simp_all add: map_of_rev_distinct by_day_distinct assms(1))
  qed
  have "sum_list (map (\<lambda>d. nullish (map_of (rev (drip_by_day_sql n a' b rows)) d) 0) [a..b])
      = sum_list (map (\<lambda>d. nullish (map_of (drip_by_day_sql n a b rows) d) 0) [a..b])"
    using eq by (intro arg_cong [where f = sum_list] map_cong) simp_all
  also have "\<dots> = sum_list (map snd (drip_by_day_sql n a b rows))"
    by (rule sum_of_table [OF by_day_distinct [OF assms(1)]]) (auto simp: by_day_keys)
  finally show ?thesis by (simp add: by_day_sum)
qed

lemma sum_sent_mono:
  assumes "drips_ok rows" and "\<And>k. P k \<Longrightarrow> Q k"
  shows "sum_sent P rows \<le> sum_sent Q rows"
  unfolding sum_sent_def by (rule sum_list_filter_mono) (use assms in \<open>auto simp: drips_ok_def\<close>)

lemma last_upto: "i \<le> j \<Longrightarrow> last [i..j] = j"
  by (simp add: upto_rec2)

lemma drip_answer_eq:
  "drip_answer nowMs n rows rows' =
     (let today = utc_day_of nowMs; row = drip_totals_sql (today - 29) today (today - 6) n rows
      in \<lparr>dc_allTime = dt_allTime row, dc_last7d = dt_last7d row, dc_last30d = dt_last30d row,
          dc_countingSince = dt_countingSince row,
          dc_byDay = drip_series [today - 29 .. today] (drip_by_day_sql n (today - 29) today rows')\<rparr>)"
  by (simp add: drip_answer_def Let_def utc_day_window_upto last_upto upto_rec1)

lemma drop_upto: "int k \<le> j - i + 1 \<Longrightarrow> drop k [i..j] = [i + int k .. j]"
  by (induction k arbitrary: i) (simp_all add: upto_rec1 algebra_simps)

text \<open>What a call leaves of the table, and which table its answer is read from.\<close>

lemma drips_ok_counted:
  assumes "drips_ok (drip_days l)" and "count_drips ok r id nowMs n (s, l) = (res, s', l')"
  shows "drips_ok (drip_days l')"
  using assms drips_ok_seed_each [OF assms(1)]
  by (auto simp: count_drips_def seed_drip_days_def Let_def split: prod.splits if_splits)
     (metis snd_conv)+

lemma counted_answer:
  assumes "count_drips ok r id nowMs n (s, l) = (Some dc, s', l')"
  shows "dc = drip_answer nowMs n (drip_days l') (drip_days l')"
  using assms by (auto simp: count_drips_def Let_def split: prod.splits if_splits)

lemma answer_adds_up:
  assumes "drips_ok rows" and "dc = drip_answer nowMs n rows rows"
  shows "map fst (dc_byDay dc) = [utc_day_of nowMs - 29 .. utc_day_of nowMs]"
    and "sum_list (map snd (dc_byDay dc)) = dc_last30d dc"
    and "sum_list (map snd (drop 23 (dc_byDay dc))) = dc_last7d dc"
    and "0 \<le> dc_last7d dc" and "dc_last7d dc \<le> dc_last30d dc" and "dc_last30d dc \<le> dc_allTime dc"
proof -
  note dc = assms(2) [unfolded drip_answer_eq Let_def]
  show "map fst (dc_byDay dc) = [utc_day_of nowMs - 29 .. utc_day_of nowMs]"
    by (simp add: dc drip_series_def comp_def)
  show "sum_list (map snd (dc_byDay dc)) = dc_last30d dc"
    by (simp add: dc drip_series_def drip_totals_sql_def comp_def series_sum [OF assms(1)])
  show "sum_list (map snd (drop 23 (dc_byDay dc))) = dc_last7d dc"
    by (simp add: dc drip_series_def drip_totals_sql_def comp_def drop_map drop_upto
          series_sum [OF assms(1)])
  show "0 \<le> dc_last7d dc"
    using sum_list_filter_nonneg [of rows snd] assms(1)
    by (simp add: dc drip_totals_sql_def sum_sent_def drips_ok_def)
  show "dc_last7d dc \<le> dc_last30d dc" and "dc_last30d dc \<le> dc_allTime dc"
    by (auto simp: dc drip_totals_sql_def intro!: sum_sent_mono assms(1))
qed

text \<open>
  the 30-day series the page draws has one entry for every UTC day of the window, adds up
  to the 30-day figure printed beside it, its last seven entries add up to the 7-day figure,
  and the three totals are ordered.
\<close>

theorem drip_series_adds_up:
  assumes "drips_ok (drip_days l)"
    and "count_drips ok r id nowMs n (s, l) = (Some dc, s', l')"
  shows "map fst (dc_byDay dc) = [utc_day_of nowMs - 29 .. utc_day_of nowMs]
    \<and> sum_list (map snd (dc_byDay dc)) = dc_last30d dc
    \<and> sum_list (map snd (drop 23 (dc_byDay dc))) = dc_last7d dc
    \<and> 0 \<le> dc_last7d dc \<and> dc_last7d dc \<le> dc_last30d dc \<and> dc_last30d dc \<le> dc_allTime dc"
  using answer_adds_up [OF drips_ok_counted [OF assms] counted_answer [OF assms(2)]] by blast

definition ex_drips :: ledger where
  "ex_drips = empty_ledger\<lparr>drip_days :=
     [((Taz, 20000), 3), ((Ctaz, 20001), 5), ((Taz, 20028), 2), ((Taz, 19900), 7)]\<rparr>"

lemma ex_answer:
  "dc_allTime (drip_answer (20029 * 86400000 + 5) Taz (drip_days ex_drips) (drip_days ex_drips)) = 12"
  "dc_last30d (drip_answer (20029 * 86400000 + 5) Taz (drip_days ex_drips) (drip_days ex_drips)) = 5"
  "dc_last7d (drip_answer (20029 * 86400000 + 5) Taz (drip_days ex_drips) (drip_days ex_drips)) = 2"
  by (simp_all add: drip_answer_eq drip_totals_sql_def sum_sent_def ex_drips_def utc_day_of_def)

lemma drip_series_adds_up_witness:
  "\<exists>dc. fst (count_drips (\<lambda>_. True) True id (20029 * 86400000 + 5) Taz (False, ex_drips)) = Some dc
     \<and> dc_allTime dc = 12 \<and> dc_last30d dc = 5 \<and> dc_last7d dc = 2
     \<and> sum_list (map snd (dc_byDay dc)) = dc_last30d dc"
proof -
  let ?now = "20029 * 86400000 + 5 :: int"
  let ?d = "drip_days ex_drips"
  have c: "count_drips (\<lambda>_. True) True id ?now Taz (False, ex_drips)
      = (Some (drip_answer ?now Taz ?d ?d), True, ex_drips)"
    by (simp add: count_drips_def seed_drip_days_def drip_any_sql_def ex_drips_def)
  have ok: "drips_ok ?d" by (simp add: ex_drips_def drips_ok_def)
  have sum: "sum_list (map snd (dc_byDay (drip_answer ?now Taz ?d ?d)))
      = dc_last30d (drip_answer ?now Taz ?d ?d)"
    using drip_series_adds_up [OF ok c] by blast
  show ?thesis unfolding c fst_conv using ex_answer sum by blast
qed

subsection \<open>Every drip is counted once\<close>

lemma sum_sent_update:
  assumes "drips_ok rows"
  shows "sum_sent P (AList.update k v rows)
    = sum_sent P rows + (if P k then v - nullish (map_of rows k) 0 else 0)"
proof -
  have "distinct (map fst rows) \<Longrightarrow> ?thesis"
  proof (induction rows)
    case Nil
    then show ?case by (simp add: sum_sent_def)
  next
    case (Cons r rows)
    then show ?case by (cases r) (auto simp: sum_sent_def map_of_eq_None_iff)
  qed
  then show ?thesis using assms by (simp add: drips_ok_def)
qed

lemma sum_sent_bump:
  assumes "drips_ok (drip_days l)"
  shows "sum_sent P (drip_days (drip_bump_sql n d l))
    = sum_sent P (drip_days l) + (if P (n, d) then 1 else 0)"
  using assms by (simp add: drip_bump_sql_def sum_sent_update)

lemma sum_sent_seed:
  assumes "drips_ok (drip_days l)" and "0 \<le> sent"
  shows "sum_sent P (drip_days l) \<le> sum_sent P (drip_days (drip_seed_sql n d sent l))"
  using assms by (cases "map_of (drip_days l) (n, d)") (auto simp: drip_seed_sql_def sum_sent_update)

lemma drip_days_finalize [simp]: "drip_days (finalize_sql st tx i l) = drip_days l"
  by (simp add: finalize_sql_def)

text \<open>
  a claim settled as sent, whose counter write lands, raises its own network's all-time,
  30-day and 7-day counts by exactly one, for as long as that day is in the window, and moves
  the other network's counts by nothing; a claim settled as failed moves no count.
\<close>

theorem settled_drip_is_counted_once:
  assumes ok: "drips_ok (drip_days l)"
    and fin: "finalize_claim True i st tx why nowMs n l = Inr l'"
    and win: "utc_day_of nowMs \<le> utc_day_of later" "utc_day_of later < utc_day_of nowMs + 7"
  shows "(let before = drip_answer later m (drip_days l) (drip_days l);
              after = drip_answer later m (drip_days l') (drip_days l');
              step = (if st = Sent \<and> m = n then 1 else 0)
          in dc_allTime after = dc_allTime before + step
           \<and> dc_last30d after = dc_last30d before + step
           \<and> dc_last7d after = dc_last7d before + step)"
proof -
  have l': "l' = (if st = Sent
      then drip_bump_sql n (utc_day_of nowMs) (finalize_sql st (if truthy tx then tx else None) i l)
      else finalize_sql st (if truthy tx then tx else None) i l)"
    using fin by (auto simp: finalize_claim_def Let_def split: if_splits)
  show ?thesis
    using win unfolding l' Let_def drip_answer_eq
    by (auto simp: drip_totals_sql_def sum_sent_bump ok)
qed

lemma settled_drip_is_counted_once_witness:
  "dc_allTime (drip_answer (20029 * 86400000 + 5) Taz
      (drip_days (projr (finalize_claim True 1 Sent (Some ''ab'') None (20029 * 86400000 + 5) Taz ex_drips)))
      (drip_days (projr (finalize_claim True 1 Sent (Some ''ab'') None (20029 * 86400000 + 5) Taz ex_drips)))) = 13"
proof -
  let ?now = "20029 * 86400000 + 5 :: int"
  have ok: "drips_ok (drip_days ex_drips)" by (simp add: ex_drips_def drips_ok_def)
  have fin: "finalize_claim True 1 Sent (Some ''ab'') None ?now Taz ex_drips
      = Inr (projr (finalize_claim True 1 Sent (Some ''ab'') None ?now Taz ex_drips))"
    by (simp add: finalize_claim_def)
  show ?thesis
    using settled_drip_is_counted_once [OF ok fin, of ?now Taz] ex_answer by (simp add: Let_def)
qed

subsection \<open>The seed runs once, and not again after half of it\<close>

lemma claims_seed [simp]: "claims (drip_seed_sql n d k l) = claims l"
  by (simp add: drip_seed_sql_def)

lemma claims_seed_each [simp]: "claims (snd (seed_each ok ds l)) = claims l"
  by (induction ok ds l rule: seed_each.induct) simp_all

lemma length_update: "length rows \<le> length (AList.update k v rows) \<and> AList.update k v rows \<noteq> []"
  by (induction rows) auto

lemma length_seed: "0 < drip_any_sql (drip_days (drip_seed_sql n d k l))"
  using length_update [of "drip_days l"] by (simp add: drip_seed_sql_def drip_any_sql_def)

text \<open>The first write of a seed that finds anything already closes it.\<close>

lemma seeded_table_stays:
  assumes "0 < drip_any_sql (drip_days l)"
  shows "snd (snd (count_drips ok r id nowMs n (False, l))) = l"
  using assms by (simp add: count_drips_def seed_drip_days_def Let_def)

lemma seed_stops:
  assumes "ok d1" "0 < sent_on d1 (claims l)" "\<not> ok d2"
  shows "seed_each ok (d1 # d2 # ds) l = (False, drip_seed_sql Taz d1 (sent_on d1 (claims l)) l)"
  using assms by simp

text \<open>
  when the seed fails between two of its days, the retry the source makes finds a row and
  does nothing: the days after the failure are never folded in, although their sent rows are
  still in the ledger. The answer of the retry counts the first day alone.
\<close>

theorem interrupted_seed_is_never_finished:
  assumes empty: "drip_days l = []"
    and days: "utc_day_window nowMs 3 = [d1, d2, d3]"
    and some: "0 < sent_on d1 (claims l)" and fails: "ok d1" "\<not> ok d2"
    and first: "count_drips ok r id nowMs Taz (False, l) = (res1, s1)"
    and retry: "count_drips (\<lambda>_. True) True id nowMs Taz s1 = (res2, s2)"
  shows "res1 = None \<and> fst s1 = False
    \<and> (\<exists>dc. res2 = Some dc \<and> dc_allTime dc = sent_on d1 (claims l) \<and> claims (snd s2) = claims l)"
proof -
  let ?l1 = "drip_seed_sql Taz d1 (sent_on d1 (claims l)) l"
  have "seed_drip_days ok nowMs l = (False, ?l1)"
    using days by (simp add: seed_drip_days_def drip_any_sql_def empty seed_stops some fails
        del: utc_day_window.simps seed_each.simps)
  then have r1: "res1 = None" and s1: "s1 = (False, ?l1)"
    using first by (auto simp: count_drips_def)
  have any: "0 < drip_any_sql (drip_days ?l1)" by (rule length_seed)
  then have "res2 = Some (drip_answer nowMs Taz (drip_days ?l1) (drip_days ?l1))" and s2: "snd s2 = ?l1"
    using retry by (auto simp: s1 count_drips_def seed_drip_days_def)
  moreover have "dc_allTime (drip_answer nowMs Taz (drip_days ?l1) (drip_days ?l1)) = sent_on d1 (claims l)"
    by (simp add: drip_answer_eq Let_def drip_totals_sql_def sum_sent_def drip_seed_sql_def empty)
  ultimately show ?thesis using r1 s1 by simp
qed

definition ex_sent :: "int \<Rightarrow> int \<Rightarrow> claim" where
  "ex_sent i t = \<lparr>claim_id = i, address_hash = ''a'', ip_hash = ''i'', subnet_hash = None,
     amount_zat = 50, claim_txid = Some ''t'', status = Sent, created_at = t, claim_network = Taz\<rparr>"

lemma interrupted_seed_is_never_finished_witness:
  "\<exists>dc. fst (count_drips (\<lambda>_. True) True id (20029 * 86400000) Taz
        (snd (count_drips (\<lambda>d. d = 20027) True id (20029 * 86400000) Taz
          (False, empty_ledger\<lparr>claims := [ex_sent 1 (20027 * 86400), ex_sent 2 (20028 * 86400)]\<rparr>))))
      = Some dc \<and> dc_allTime dc = 1"
proof -
  let ?now = "20029 * 86400000 :: int"
  let ?l = "empty_ledger\<lparr>claims := [ex_sent 1 (20027 * 86400), ex_sent 2 (20028 * 86400)]\<rparr>"
  have empty: "drip_days ?l = []" by (simp add: empty_ledger_def)
  have days: "utc_day_window ?now 3 = [20027, 20028, 20029]"
    by (simp add: utc_day_of_def numeral_3_eq_3)
  have one: "sent_on 20027 (claims ?l) = 1" by (simp add: sent_on_def ex_sent_def empty_ledger_def)
  obtain res1 s1 where first: "count_drips (\<lambda>d. d = 20027) True id ?now Taz (False, ?l) = (res1, s1)"
    by (rule prod.exhaust)
  obtain res2 s2 where retry: "count_drips (\<lambda>_. True) True id ?now Taz s1 = (res2, s2)" by (rule prod.exhaust)
  have pos: "0 < sent_on 20027 (claims ?l)" by (simp only: one)
  have "(20027 :: int) = 20027" "\<not> (20028 :: int) = 20027" by simp_all
  from interrupted_seed_is_never_finished [OF empty days pos this first retry]
  obtain dc where "res2 = Some dc" "dc_allTime dc = 1" unfolding one by blast
  then show ?thesis unfolding first snd_conv retry fst_conv by blast
qed

subsection \<open>Farming signals\<close>

lemma farmed_hour_day: "set (farmed_rows (now - 3600) rows) \<subseteq> set (farmed_rows (now - 86400) rows)"
  by (auto simp: farmed_rows_def)

lemma distinct_count_card: "distinct_count key rows = int (card (key ` set rows))"
  by (simp add: distinct_count_def length_remdups_card_conv)

lemma distinct_count_le: "distinct_count key rows \<le> int (length rows)"
  using length_remdups_leq [of "map key rows"] by (simp add: distinct_count_def)

lemma distinct_count_mono: "set rows \<subseteq> set rows' \<Longrightarrow> distinct_count key rows \<le> distinct_count key rows'"
  by (simp add: distinct_count_card card_mono image_mono)

text \<open>
  the farming signals are consistent: the hour never exceeds the day, a distinct count never
  exceeds the claims it is taken over, and the ratio is present exactly when some live claim
  exists, with a numerator at least its denominator.
\<close>

theorem farming_signals_consistent:
  assumes f: "f = farming_signals_of now rows"
  shows "fa_claims1h f \<le> fa_claims24h f \<and> fa_distinctIps1h f \<le> fa_distinctIps24h f
    \<and> fa_distinctAddrs1h f \<le> fa_distinctAddrs24h f
    \<and> fa_distinctIps24h f \<le> fa_claims24h f \<and> fa_distinctAddrs24h f \<le> fa_claims24h f
    \<and> (fa_claimsPerIp24h f = None \<longleftrightarrow> fa_claims24h f = 0)
    \<and> (\<forall>n d. fa_claimsPerIp24h f = Some (n, d) \<longrightarrow> 0 < d \<and> d \<le> n)"
proof -
  have len: "length (farmed_rows (now - 3600) rows) \<le> length (farmed_rows (now - 86400) rows)"
    using sum_list_filter_mono [of rows "\<lambda>_. 1"
        "\<lambda>c. status c \<noteq> Failed \<and> now - 3600 \<le> created_at c"
        "\<lambda>c. status c \<noteq> Failed \<and> now - 86400 \<le> created_at c"]
    by (simp add: farmed_rows_def flip: length_filter_sum)
  have pos: "distinct_count ip_hash day > 0 \<longleftrightarrow> day \<noteq> []" for day
    by (cases day) (simp_all add: distinct_count_card card_gt_0_iff)
  show ?thesis
    using len farmed_hour_day [of now rows] distinct_count_le [of ip_hash "farmed_rows (now - 86400) rows"]
    by (auto simp: f farming_signals_of_def Let_def pos distinct_count_le intro: distinct_count_mono)
qed

end
