(* ===== verification/Json_Value.thy ===== *)
theory Json_Value
  imports Js_String Complex_Main
begin

text \<open>
  What \<open>JSON.parse\<close> returns, for the readers of files other processes write: a number literal is a finite
  number or, too large for a double, an infinity; an object keeps the last value of a repeated key.
\<close>

datatype jnum = Fin rat | Pos_Inf | Neg_Inf

datatype jval =
  Jv_Null | Jv_Bool bool | Jv_Num jnum | Jv_Text string | Jv_Array "jval list" | Jv_Object "(string \<times> jval) list"

text \<open>\<open>o.k\<close> on a value of type object that is not null: \<open>None\<close> is \<open>undefined\<close>.\<close>

fun field :: "jval \<Rightarrow> string \<Rightarrow> jval option" where
  "field (Jv_Object kvs) k = map_of (rev kvs) k"
| "field _ k = None"

text \<open>\<open>v == null || typeof v !== "object"\<close>, negated.\<close>

fun is_object :: "jval \<Rightarrow> bool" where
  "is_object (Jv_Object _) = True"
| "is_object (Jv_Array _) = True"
| "is_object _ = False"

fun a_number :: "jval option \<Rightarrow> jnum option" where
  "a_number (Some (Jv_Num n)) = Some n"
| "a_number _ = None"

fun finite_number :: "jval option \<Rightarrow> rat option" where
  "finite_number (Some (Jv_Num (Fin n))) = Some n"
| "finite_number _ = None"

fun a_text :: "jval option \<Rightarrow> string option" where
  "a_text (Some (Jv_Text s)) = Some s"
| "a_text _ = None"

fun filled_text :: "jval option \<Rightarrow> string option" where
  "filled_text (Some (Jv_Text s)) = (if s = [] then None else Some s)"
| "filled_text _ = None"

lemma finite_number_Some: "finite_number v = Some n \<longleftrightarrow> v = Some (Jv_Num (Fin n))"
  by (cases v rule: finite_number.cases) auto

lemma a_number_Some: "a_number v = Some n \<longleftrightarrow> v = Some (Jv_Num n)"
  by (cases v rule: a_number.cases) auto

lemma a_text_Some: "a_text v = Some s \<longleftrightarrow> v = Some (Jv_Text s)"
  by (cases v rule: a_text.cases) auto

end
