(* ===== verification/Miner.thy ===== *)
theory Miner
  imports Json_Value
begin

text \<open>
  The miner as the faucet sees it: the classification of the heartbeat file the miner writes
  (miner/heartbeat.ts, miner/read.ts) and what the page makes of the reading (minerLabel.ts, without
  the sentences). \<open>Date.parse\<close>, whose reading of a stamp is the engine's, is a parameter: milliseconds, or
  nothing for \<open>NaN\<close>.
\<close>

datatype miner_state = Running | Waiting | Stalled | Not_Writing | Cannot_Verify_Miner | Not_Configured

datatype miner_mode = Submit | Proposal

text \<open>The public half of a reading, and the reading: it extends the public half by the operator's.\<close>

record miner_view =
  mv_state :: miner_state
  mv_beatAgoSeconds :: "rat option"
  mv_templateAgoSeconds :: "rat option"
  mv_lastTemplateHeight :: "jnum option"
  mv_mode :: "miner_mode option"
  mv_lastErrorStage :: "string option"
  mv_consecutiveErrors :: "jnum option"
  mv_solvedCount :: "jnum option"
  mv_submittedAccepted :: "jnum option"
  mv_submittedRejected :: "jnum option"
  mv_solvedAgoSeconds :: "rat option"
  mv_nodeLag :: "rat option"
  mv_waitingAgoSeconds :: "rat option"
  mv_waitingReason :: "string option"

record miner_operator =
  mo_lastRejectReason :: "string option"
  mo_abandonedCount :: "jnum option"
  mo_abandonedAgoSeconds :: "rat option"

record miner_reading = miner_view +
  mr_operator :: miner_operator

definition public_miner_view :: "miner_reading \<Rightarrow> miner_view" where
  "public_miner_view r = miner_view.truncate r"

definition no_operator :: miner_operator where
  "no_operator = \<lparr>mo_lastRejectReason = None, mo_abandonedCount = None, mo_abandonedAgoSeconds = None\<rparr>"

definition nothing_read :: "miner_state \<Rightarrow> miner_reading" where
  "nothing_read st =
     \<lparr>mv_state = st, mv_beatAgoSeconds = None, mv_templateAgoSeconds = None, mv_lastTemplateHeight = None,
      mv_mode = None, mv_lastErrorStage = None, mv_consecutiveErrors = None, mv_solvedCount = None,
      mv_submittedAccepted = None, mv_submittedRejected = None, mv_solvedAgoSeconds = None, mv_nodeLag = None,
      mv_waitingAgoSeconds = None, mv_waitingReason = None, mr_operator = no_operator\<rparr>"

definition UNCONFIGURED :: miner_reading where "UNCONFIGURED = nothing_read Not_Configured"
definition UNVERIFIABLE_MINER :: miner_reading where "UNVERIFIABLE_MINER = nothing_read Cannot_Verify_Miner"

text \<open>A stamp ahead of us is unreadable, not fresh.\<close>

definition age_seconds :: "(string \<Rightarrow> int option) \<Rightarrow> jval option \<Rightarrow> int \<Rightarrow> rat option" where
  "age_seconds date_parse stamp nowMs =
     (case a_text stamp of None \<Rightarrow> None
      | Some s \<Rightarrow> (case date_parse s of None \<Rightarrow> None
          | Some t \<Rightarrow> let age = of_int (nowMs - t) / 1000 in if age < 0 then None else Some age))"

definition positive_number :: "jval option \<Rightarrow> rat option" where
  "positive_number v = (case finite_number v of None \<Rightarrow> None | Some n \<Rightarrow> if n > 0 then Some n else None)"

definition mode_of :: "jval option \<Rightarrow> miner_mode option" where
  "mode_of v = (if v = Some (Jv_Text ''submit'') then Some Submit
     else if v = Some (Jv_Text ''proposal'') then Some Proposal else None)"

definition heartbeat_facts :: "(string \<Rightarrow> int option) \<Rightarrow> jval \<Rightarrow> rat \<Rightarrow> int \<Rightarrow> miner_state \<Rightarrow> miner_reading" where
  "heartbeat_facts date_parse h beatAgo nowMs st =
     \<lparr>mv_state = st, mv_beatAgoSeconds = Some beatAgo,
      mv_templateAgoSeconds = age_seconds date_parse (field h ''lastTemplateAt'') nowMs,
      mv_lastTemplateHeight = a_number (field h ''lastTemplateHeight''),
      mv_mode = mode_of (field h ''mode''),
      mv_lastErrorStage = a_text (field h ''lastErrorStage''),
      mv_consecutiveErrors = a_number (field h ''consecutiveErrors''),
      mv_solvedCount = a_number (field h ''solvedCount''),
      mv_submittedAccepted = a_number (field h ''submittedAccepted''),
      mv_submittedRejected = a_number (field h ''submittedRejected''),
      mv_solvedAgoSeconds = age_seconds date_parse (field h ''lastSolvedAt'') nowMs,
      mv_nodeLag = (case finite_number (field h ''nodeLag'') of None \<Rightarrow> None
        | Some n \<Rightarrow> if n \<ge> 0 then Some n else None),
      mv_waitingAgoSeconds = age_seconds date_parse (field h ''waitingSince'') nowMs,
      mv_waitingReason = filled_text (field h ''waitingReason''),
      mr_operator =
        \<lparr>mo_lastRejectReason = filled_text (field h ''lastRejectReason''),
         mo_abandonedCount = a_number (field h ''abandonedCount''),
         mo_abandonedAgoSeconds = age_seconds date_parse (field h ''lastAbandonedAt'') nowMs\<rparr>\<rparr>"

definition miner_reading_for :: "(string \<Rightarrow> int option) \<Rightarrow> jval option \<Rightarrow> int \<Rightarrow> miner_reading" where
  "miner_reading_for date_parse raw nowMs =
     (case raw of None \<Rightarrow> UNVERIFIABLE_MINER
      | Some h \<Rightarrow>
          if \<not> is_object h then UNVERIFIABLE_MINER
          else if field h ''schema'' \<noteq> Some (Jv_Num (Fin 1)) then UNVERIFIABLE_MINER
          else case (positive_number (field h ''staleAfterSeconds''),
                     positive_number (field h ''templateStaleAfterSeconds''),
                     age_seconds date_parse (field h ''writtenAt'') nowMs) of
            (Some staleAfter, Some templateStaleAfter, Some beatAgo) \<Rightarrow>
              (let facts = heartbeat_facts date_parse h beatAgo nowMs in
               if beatAgo > staleAfter then facts Not_Writing
               else if mv_waitingAgoSeconds (facts Waiting) \<noteq> None
                       \<and> mv_consecutiveErrors (facts Waiting) = Some (Fin 0) then facts Waiting
               else (case mv_templateAgoSeconds (facts Stalled) of None \<Rightarrow> facts Stalled
                     | Some t \<Rightarrow> if t > templateStaleAfter then facts Stalled else facts Running))
          | _ \<Rightarrow> UNVERIFIABLE_MINER)"

text \<open>\<open>readMinerHeartbeat\<close>: \<open>file\<close> is the parsed file, \<open>None\<close> when it cannot be read or parsed.\<close>

definition read_miner_heartbeat ::
  "(string \<Rightarrow> int option) \<Rightarrow> string \<Rightarrow> jval option \<Rightarrow> int \<Rightarrow> miner_reading" where
  "read_miner_heartbeat date_parse path file nowMs =
     (if path = [] then UNCONFIGURED else miner_reading_for date_parse file nowMs)"

definition is_active :: "miner_state \<Rightarrow> bool" where
  "is_active st = (st = Running)"

section \<open>What the page makes of it\<close>

definition miner_is_parked :: "miner_view \<Rightarrow> string option \<Rightarrow> bool" where
  "miner_is_parked r unit = (mv_state r = Not_Writing \<and> unit = Some ''inactive'')"

definition miner_chip :: "miner_view \<Rightarrow> string option \<Rightarrow> string" where
  "miner_chip r unit =
     (case mv_state r of
        Running \<Rightarrow> if mv_mode r = Some Proposal then ''proposing'' else ''mining''
      | Waiting \<Rightarrow> ''waiting''
      | Stalled \<Rightarrow> ''no blocks''
      | Not_Writing \<Rightarrow> if miner_is_parked r unit then ''parked''
                      else if unit = Some ''failed'' then ''unit failed'' else ''no signal''
      | Cannot_Verify_Miner \<Rightarrow> ''unknown''
      | Not_Configured \<Rightarrow> ''unwatched'')"

definition miner_is_bad :: "miner_view \<Rightarrow> string option \<Rightarrow> bool" where
  "miner_is_bad r unit =
     (if mv_state r = Running then False
      else if mv_state r = Waiting
      then mv_waitingReason r = Some ''no-peers'' \<and> nullish (mv_waitingAgoSeconds r) 0 \<ge> 120
      else \<not> miner_is_parked r unit)"

text \<open>The state as a word on the wire, and \<open>readingFromStatus\<close>, which rebuilds a reading from an answer.\<close>

fun state_word :: "miner_state \<Rightarrow> string" where
  "state_word Running = ''running''"
| "state_word Waiting = ''waiting''"
| "state_word Stalled = ''stalled''"
| "state_word Not_Writing = ''not-writing''"
| "state_word Cannot_Verify_Miner = ''cannot-verify''"
| "state_word Not_Configured = ''not-configured''"

text \<open>The answer's block: every field may be missing; \<open>active\<close> is what an older server sent.\<close>

record miner_wire =
  mw_state :: "string option"
  mw_view :: miner_view
  mw_operator :: "miner_operator option"
  mw_active :: bool

definition reading_from_status :: "miner_wire option \<Rightarrow> miner_reading" where
  "reading_from_status m =
     (let known = (case m of None \<Rightarrow> None | Some w \<Rightarrow> mw_state w);
          st = (case find (\<lambda>s. known = Some (state_word s)) [Running, Waiting, Stalled, Not_Writing, Not_Configured] of
                  Some s \<Rightarrow> s | None \<Rightarrow> Cannot_Verify_Miner);
          v = (case m of None \<Rightarrow> public_miner_view UNVERIFIABLE_MINER | Some w \<Rightarrow> mw_view w);
          oper = (case m of None \<Rightarrow> no_operator | Some w \<Rightarrow> nullish (mw_operator w) no_operator)
      in miner_view.extend (v\<lparr>mv_state := st\<rparr>) (miner_reading.fields oper))"

text \<open>What \<open>/api/status\<close> sends about the miner to a caller without the operator's token.\<close>

definition public_wire :: "miner_reading \<Rightarrow> miner_wire" where
  "public_wire r =
     \<lparr>mw_state = Some (state_word (mv_state r)), mw_view = public_miner_view r, mw_operator = None,
      mw_active = is_active (mv_state r)\<rparr>"

section \<open>Facts\<close>

lemma age_seconds_Some:
  "age_seconds date_parse v now = Some a \<longleftrightarrow>
     (\<exists>s t. v = Some (Jv_Text s) \<and> date_parse s = Some t \<and> a = of_int (now - t) / 1000 \<and> t \<le> now)"
  by (auto simp: age_seconds_def Let_def a_text_Some divide_less_0_iff not_less split: option.splits if_splits
      simp flip: of_int_diff)

text \<open>The stamp of a heartbeat read as a time that is not in the future.\<close>

definition stamped :: "(string \<Rightarrow> int option) \<Rightarrow> jval \<Rightarrow> string \<Rightarrow> int \<Rightarrow> int \<Rightarrow> bool" where
  "stamped date_parse h k now t = (\<exists>s. field h k = Some (Jv_Text s) \<and> date_parse s = Some t \<and> t \<le> now)"

lemma stamped_age: "stamped date_parse h k now t \<Longrightarrow> age_seconds date_parse (field h k) now = Some (of_int (now - t) / 1000)"
  by (auto simp: stamped_def age_seconds_Some)

lemma age_stamped: "age_seconds date_parse (field h k) now = Some a \<Longrightarrow>
    \<exists>t. stamped date_parse h k now t \<and> a = of_int (now - t) / 1000"
  by (auto simp: stamped_def age_seconds_Some)

lemma heartbeat_facts_simps [simp]:
  "mv_state (heartbeat_facts dp h b now st) = st"
  "mv_waitingAgoSeconds (heartbeat_facts dp h b now st) = age_seconds dp (field h ''waitingSince'') now"
  "mv_consecutiveErrors (heartbeat_facts dp h b now st) = a_number (field h ''consecutiveErrors'')"
  "mv_templateAgoSeconds (heartbeat_facts dp h b now st) = age_seconds dp (field h ''lastTemplateAt'') now"
  by (simp_all add: heartbeat_facts_def)

text \<open>
  the panel's \<open>active\<close> is an observation: the miner is reported running exactly when the file parsed
  to a heartbeat of the known schema whose writer's stamp is in the past and no older than the staleness
  the file itself declares, whose last template is likewise in the past and young enough, and which does
  not declare a wait beside a clean error count. In particular a process that keeps writing but fetches
  nothing, a stopped writer, and a stamp from the future are never reported running.
\<close>

theorem running_is_observed:
  "is_active (mv_state (read_miner_heartbeat dp path file now)) \<longleftrightarrow>
     path \<noteq> [] \<and> (\<exists>h stale tstale w t. file = Some h \<and> is_object h \<and> field h ''schema'' = Some (Jv_Num (Fin 1))
        \<and> field h ''staleAfterSeconds'' = Some (Jv_Num (Fin stale))
        \<and> field h ''templateStaleAfterSeconds'' = Some (Jv_Num (Fin tstale))
        \<and> stamped dp h ''writtenAt'' now w \<and> of_int (now - w) \<le> 1000 * stale
        \<and> stamped dp h ''lastTemplateAt'' now t \<and> of_int (now - t) \<le> 1000 * tstale \<and> 0 < tstale \<and> 0 < stale
        \<and> \<not> ((\<exists>s. stamped dp h ''waitingSince'' now s) \<and> field h ''consecutiveErrors'' = Some (Jv_Num (Fin 0))))"
  (is "?l \<longleftrightarrow> ?r")
proof
  assume ?l
  then obtain h stale tstale b where p: "path \<noteq> []" "file = Some h" "is_object h" "field h ''schema'' = Some (Jv_Num (Fin 1))"
    "positive_number (field h ''staleAfterSeconds'') = Some stale"
    "positive_number (field h ''templateStaleAfterSeconds'') = Some tstale"
    "age_seconds dp (field h ''writtenAt'') now = Some b" and b: "b \<le> stale"
    and w: "\<not> (age_seconds dp (field h ''waitingSince'') now \<noteq> None \<and> a_number (field h ''consecutiveErrors'') = Some (Fin 0))"
    and t: "\<exists>a. age_seconds dp (field h ''lastTemplateAt'') now = Some a \<and> a \<le> tstale"
    by (auto simp: read_miner_heartbeat_def miner_reading_for_def is_active_def UNCONFIGURED_def UNVERIFIABLE_MINER_def nothing_read_def
        Let_def not_less split: if_splits option.splits)
  obtain wt where wt: "stamped dp h ''writtenAt'' now wt" "b = of_int (now - wt) / 1000" using age_stamped [OF p(7)] by blast
  obtain a tt where tt: "stamped dp h ''lastTemplateAt'' now tt" "a = of_int (now - tt) / 1000" "a \<le> tstale"
    using t age_stamped by blast
  have pos: "field h ''staleAfterSeconds'' = Some (Jv_Num (Fin stale))" "0 < stale"
    "field h ''templateStaleAfterSeconds'' = Some (Jv_Num (Fin tstale))" "0 < tstale"
    using p(5,6) by (auto simp: positive_number_def finite_number_Some split: option.splits if_splits)
  have nw: "\<not> ((\<exists>s. stamped dp h ''waitingSince'' now s) \<and> field h ''consecutiveErrors'' = Some (Jv_Num (Fin 0)))"
    using w stamped_age by (fastforce simp: a_number_Some)
  show ?r using p wt tt pos nw b
    by (intro conjI exI [of _ h] exI [of _ stale] exI [of _ tstale] exI [of _ wt] exI [of _ tt]) auto
next
  assume ?r
  then obtain h stale tstale w t where p: "path \<noteq> []" "file = Some h" "is_object h" "field h ''schema'' = Some (Jv_Num (Fin 1))"
    "field h ''staleAfterSeconds'' = Some (Jv_Num (Fin stale))" "field h ''templateStaleAfterSeconds'' = Some (Jv_Num (Fin tstale))"
    "0 < tstale" "0 < stale"
    and w: "stamped dp h ''writtenAt'' now w" "of_int (now - w) \<le> 1000 * stale"
    and t: "stamped dp h ''lastTemplateAt'' now t" "of_int (now - t) \<le> 1000 * tstale"
    and nw: "\<not> ((\<exists>s. stamped dp h ''waitingSince'' now s) \<and> field h ''consecutiveErrors'' = Some (Jv_Num (Fin 0)))"
    by blast
  have "\<not> (age_seconds dp (field h ''waitingSince'') now \<noteq> None \<and> a_number (field h ''consecutiveErrors'') = Some (Fin 0))"
    using nw age_stamped by (fastforce simp: a_number_Some)
  then show ?l using p w(2) t(2)
    by (auto simp: read_miner_heartbeat_def miner_reading_for_def is_active_def positive_number_def Let_def
        stamped_age [OF w(1)] stamped_age [OF t(1)])
qed

text \<open>
  what the page rebuilds from the public answer is the reading without its operator half: every
  public fact arrives unchanged, the state survives its word, nothing of the operator's half is in the
  public answer, and an answer without a state (an older server's) reads as cannot tell, whatever its
  \<open>active\<close> says.
\<close>

theorem public_miner_roundtrip:
  "reading_from_status (Some (public_wire r)) = r\<lparr>mr_operator := no_operator\<rparr>
   \<and> public_wire (r\<lparr>mr_operator := other\<rparr>) = public_wire r
   \<and> mv_state (reading_from_status (Some (w\<lparr>mw_state := None\<rparr>))) = Cannot_Verify_Miner"
proof (intro conjI)
  show "reading_from_status (Some (public_wire r)) = r\<lparr>mr_operator := no_operator\<rparr>"
    by (cases r; cases "mv_state r")
      (simp_all add: reading_from_status_def public_wire_def public_miner_view_def miner_view.defs miner_reading.defs)
  show "public_wire (r\<lparr>mr_operator := other\<rparr>) = public_wire r"
    by (simp add: public_wire_def public_miner_view_def miner_view.defs)
  show "mv_state (reading_from_status (Some (w\<lparr>mw_state := None\<rparr>))) = Cannot_Verify_Miner"
    by (simp add: reading_from_status_def miner_view.defs Let_def)
qed

end
