(* ===== verification/Box.thy ===== *)
theory Box
  imports Json_Value
begin

text \<open>
  The box's own integrity: the report a unit on the host writes, as the faucet reads it
  (boxIntegrityFile.ts), the two verdicts over it (boxIntegrity.ts) and the one word the public is told
  (boxLabel.ts). The reasons' sentences are constructors here.
\<close>

definition STALE_AFTER_MS :: rat where "STALE_AFTER_MS = 30 * 60000"
definition DRIFT_STALE_AFTER_MS :: rat where "DRIFT_STALE_AFTER_MS = 90 * 60000"

record drift_audit =
  da_rc :: rat
  da_findings :: rat
  da_unverified :: rat

record drift_report =
  dr_at :: rat
  dr_repoSha :: "string option"
  dr_config :: drift_audit
  dr_access :: drift_audit

record integrity_report =
  ir_expected :: rat
  ir_present :: rat
  ir_notEnabled :: rat
  ir_enabledUndeclared :: "rat option"
  ir_watchdogRestarts :: "rat option"
  ir_watchdogRestartsDelta :: "rat option"
  ir_platform :: "string option"
  ir_minerBinary :: "string option"
  ir_minerUnit :: "string option"
  ir_watchdogUnit :: "string option"
  ir_alertBridge :: "string option"
  ir_at :: "rat option"
  ir_readable :: bool
  ir_drift :: "drift_report option option"

section \<open>boxIntegrityFile.ts\<close>

definition audit_counts :: "jval option \<Rightarrow> drift_audit option" where
  "audit_counts x =
     (case x of None \<Rightarrow> None
      | Some c \<Rightarrow>
          if \<not> is_object c then None
          else case (finite_number (field c ''rc''), finite_number (field c ''findings''), finite_number (field c ''unverified'')) of
            (Some rc, Some f, Some u) \<Rightarrow> Some \<lparr>da_rc = rc, da_findings = f, da_unverified = u\<rparr>
          | _ \<Rightarrow> None)"

definition is_sha :: "string \<Rightarrow> bool" where
  "is_sha s = (length s = 40 \<and> list_all is_hex s)"

definition read_drift :: "jval \<Rightarrow> drift_report option" where
  "read_drift v =
     (if \<not> is_object v then None
      else case (finite_number (field v ''at''), audit_counts (field v ''config''), audit_counts (field v ''access'')) of
        (Some t, Some c, Some a) \<Rightarrow>
          Some \<lparr>dr_at = t,
                dr_repoSha = (case a_text (field v ''repoSha'') of None \<Rightarrow> None | Some s \<Rightarrow> if is_sha s then Some s else None),
                dr_config = c, dr_access = a\<rparr>
      | _ \<Rightarrow> None)"

text \<open>
  \<open>file\<close> is the parsed file, \<open>None\<close> when it cannot be read or parsed; a file that is no object throws (on
  \<open>null\<close>) or has no number in it, and both give no report.
\<close>

definition read_box_integrity :: "jval option \<Rightarrow> integrity_report option" where
  "read_box_integrity file =
     (case file of None \<Rightarrow> None
      | Some j \<Rightarrow>
          if field j ''readable'' = Some (Jv_Bool False) then
            Some \<lparr>ir_expected = 0, ir_present = 0, ir_notEnabled = 0, ir_enabledUndeclared = None,
                  ir_watchdogRestarts = None, ir_watchdogRestartsDelta = None, ir_platform = None,
                  ir_minerBinary = None, ir_minerUnit = None, ir_watchdogUnit = None, ir_alertBridge = None,
                  ir_at = None, ir_readable = False, ir_drift = Some None\<rparr>
          else case (finite_number (field j ''expected''), finite_number (field j ''present''),
                     finite_number (field j ''notEnabled''), finite_number (field j ''at'')) of
            (Some e, Some p, Some n, Some t) \<Rightarrow>
              Some \<lparr>ir_expected = e, ir_present = p, ir_notEnabled = n,
                    ir_enabledUndeclared = finite_number (field j ''enabledUndeclared''),
                    ir_watchdogRestarts = finite_number (field j ''watchdogRestarts''),
                    ir_watchdogRestartsDelta = finite_number (field j ''watchdogRestartsDelta''),
                    ir_platform = filled_text (field j ''platform''),
                    ir_minerBinary = filled_text (field j ''minerBinary''),
                    ir_minerUnit = filled_text (field j ''minerUnit''),
                    ir_watchdogUnit = filled_text (field j ''watchdogUnit''),
                    ir_alertBridge = filled_text (field j ''alertBridge''),
                    ir_at = Some t, ir_readable = True,
                    ir_drift = (case field j ''drift'' of None \<Rightarrow> None | Some d \<Rightarrow> Some (read_drift d))\<rparr>
          | _ \<Rightarrow> None)"

section \<open>boxIntegrity.ts\<close>

datatype drift_state = Drift_Clean | Drift_Drift | Drift_Incomplete | Drift_Stale | Drift_Unknown

datatype drift_reason =
  Report_Predates_Field | No_Audit_Published | Audit_Stopped int | Audit_Could_Not_Run
| Findings "rat option" | Checks_Did_Not_Run rat | Matches_Repo

record drift_status =
  dst_state :: drift_state
  dst_findings :: "rat option"
  dst_unverified :: "rat option"
  dst_ageSeconds :: "int option"
  dst_repoSha :: "string option"
  dst_reason :: drift_reason

text \<open>\<open>Math.round\<close>.\<close>

definition half_up :: "rat \<Rightarrow> int" where "half_up x = \<lfloor>x + 1 / 2\<rfloor>"

definition classify_drift :: "drift_report option option \<Rightarrow> rat \<Rightarrow> drift_status" where
  "classify_drift d now =
     (case d of
        None \<Rightarrow> \<lparr>dst_state = Drift_Unknown, dst_findings = None, dst_unverified = None, dst_ageSeconds = None,
                 dst_repoSha = None, dst_reason = Report_Predates_Field\<rparr>
      | Some None \<Rightarrow> \<lparr>dst_state = Drift_Unknown, dst_findings = None, dst_unverified = None, dst_ageSeconds = None,
                 dst_repoSha = None, dst_reason = No_Audit_Published\<rparr>
      | Some (Some r) \<Rightarrow>
          let ageMs = max 0 (now - dr_at r);
              age = half_up (ageMs / 1000);
              findings = da_findings (dr_config r) + da_findings (dr_access r);
              unverified = da_unverified (dr_config r) + da_unverified (dr_access r);
              carried = (\<lambda>st reason. \<lparr>dst_state = st, dst_findings = Some findings, dst_unverified = Some unverified,
                 dst_ageSeconds = Some age, dst_repoSha = dr_repoSha r, dst_reason = reason\<rparr>)
          in if ageMs > DRIFT_STALE_AFTER_MS then carried Drift_Stale (Audit_Stopped (half_up (of_int age / 60)))
             else if da_rc (dr_config r) \<ge> 3 \<or> da_rc (dr_access r) \<ge> 3 then carried Drift_Incomplete Audit_Could_Not_Run
             else if da_rc (dr_config r) = 1 \<or> da_rc (dr_access r) = 1 \<or> findings > 0
             then carried Drift_Drift (Findings (if findings > 0 then Some findings else None))
             else if unverified > 0 \<or> da_rc (dr_config r) = 2 \<or> da_rc (dr_access r) = 2
             then carried Drift_Incomplete (Checks_Did_Not_Run unverified)
             else carried Drift_Clean Matches_Repo)"

datatype integrity_state = Box_Complete | Box_Incomplete | Box_Unknown

datatype integrity_reason =
  Not_Reported | Report_Too_Old int | Parts "(rat \<times> rat) option" "rat option" | All_Installed rat

record integrity_status =
  is_state :: integrity_state
  is_expected :: "rat option"
  is_present :: "rat option"
  is_missing :: "rat option"
  is_notEnabled :: "rat option"
  is_enabledUndeclared :: "rat option"
  is_watchdogRestarts :: "rat option"
  is_watchdogRestartsDelta :: "rat option"
  is_platform :: "string option"
  is_minerBinary :: "string option"
  is_minerUnit :: "string option"
  is_watchdogUnit :: "string option"
  is_alertBridge :: "string option"
  is_ageSeconds :: "int option"
  is_drift :: drift_status
  is_reason :: integrity_reason

definition unknown_box :: "int option \<Rightarrow> drift_status \<Rightarrow> integrity_reason \<Rightarrow> integrity_status" where
  "unknown_box age drift reason =
     \<lparr>is_state = Box_Unknown, is_expected = None, is_present = None, is_missing = None, is_notEnabled = None,
      is_enabledUndeclared = None, is_watchdogRestarts = None, is_watchdogRestartsDelta = None,
      is_platform = None, is_minerBinary = None, is_minerUnit = None, is_watchdogUnit = None,
      is_alertBridge = None, is_ageSeconds = age, is_drift = drift, is_reason = reason\<rparr>"

definition classify_integrity :: "integrity_report option \<Rightarrow> rat \<Rightarrow> integrity_status" where
  "classify_integrity r now =
     (let drift = classify_drift (case r of None \<Rightarrow> None | Some x \<Rightarrow> ir_drift x) now in
      case r of None \<Rightarrow> unknown_box None drift Not_Reported
      | Some x \<Rightarrow>
          (case ir_at x of None \<Rightarrow> unknown_box None drift Not_Reported
           | Some t \<Rightarrow>
               if \<not> ir_readable x then unknown_box None drift Not_Reported
               else
                 let ageMs = max 0 (now - t); age = half_up (ageMs / 1000) in
                 if ageMs > STALE_AFTER_MS then unknown_box (Some age) drift (Report_Too_Old (half_up (of_int age / 60)))
                 else
                   let missing = max 0 (ir_expected x - ir_present x);
                       bad = (missing > 0 \<or> ir_notEnabled x > 0)
                   in \<lparr>is_state = (if bad then Box_Incomplete else Box_Complete),
                       is_expected = Some (ir_expected x), is_present = Some (ir_present x),
                       is_missing = Some (if bad then missing else 0),
                       is_notEnabled = Some (if bad then ir_notEnabled x else 0),
                       is_enabledUndeclared = ir_enabledUndeclared x,
                       is_watchdogRestarts = ir_watchdogRestarts x,
                       is_watchdogRestartsDelta = ir_watchdogRestartsDelta x, is_platform = ir_platform x,
                       is_minerBinary = ir_minerBinary x, is_minerUnit = ir_minerUnit x,
                       is_watchdogUnit = ir_watchdogUnit x, is_alertBridge = ir_alertBridge x,
                       is_ageSeconds = Some age, is_drift = drift,
                       is_reason = (if bad then Parts (if missing > 0 then Some (missing, ir_expected x) else None)
                                        (if ir_notEnabled x > 0 then Some (ir_notEnabled x) else None)
                                    else All_Installed (ir_expected x))\<rparr>))"

definition is_integrity_failing :: "integrity_status \<Rightarrow> bool" where
  "is_integrity_failing s = (is_state s \<noteq> Box_Complete)"

section \<open>boxLabel.ts\<close>

definition watchdog_looping :: "integrity_status \<Rightarrow> bool" where
  "watchdog_looping s = (nullish (is_watchdogRestartsDelta s) 0 \<ge> 2)"

definition watchdog_stopped :: "integrity_status \<Rightarrow> bool" where
  "watchdog_stopped s =
     (is_watchdogUnit s = Some ''inactive'' \<or> is_watchdogUnit s = Some ''failed'' \<or> is_watchdogUnit s = Some ''deactivating'')"

definition alert_bridge_down :: "integrity_status \<Rightarrow> bool" where
  "alert_bridge_down s =
     (is_alertBridge s = Some ''down'' \<or> is_alertBridge s = Some ''unlinked'' \<or> is_alertBridge s = Some ''none''
      \<or> is_alertBridge s = Some ''misconfigured'')"

definition box_is_bad :: "integrity_status \<Rightarrow> bool" where
  "box_is_bad s = (is_state s \<noteq> Box_Complete \<or> watchdog_looping s \<or> watchdog_stopped s \<or> alert_bridge_down s)"

datatype public_box_state = Public_Ok | Public_Attention | Public_Unknown

record public_box_answer =
  pb_state :: public_box_state
  pb_minerUnit :: "string option"
  pb_drift :: drift_state

definition public_box :: "integrity_status \<Rightarrow> public_box_answer" where
  "public_box s =
     (let watchdogAffirmed = (is_watchdogUnit s = Some ''active'' \<or> is_watchdogUnit s = Some ''activating'');
          pagerAffirmed = (is_alertBridge s = Some ''ok'' \<or> is_alertBridge s = Some ''webhook'')
      in \<lparr>pb_state = (if is_state s = Box_Unknown then Public_Unknown
                      else if box_is_bad s then Public_Attention
                      else if is_state s = Box_Complete \<and> watchdogAffirmed \<and> pagerAffirmed then Public_Ok
                      else Public_Unknown),
          pb_minerUnit = is_minerUnit s, pb_drift = dst_state (is_drift s)\<rparr>)"

definition public_box_chip :: "public_box_answer \<Rightarrow> string option" where
  "public_box_chip b =
     (case pb_state b of Public_Ok \<Rightarrow> None | Public_Attention \<Rightarrow> Some ''OPS ATTENTION'' | Public_Unknown \<Rightarrow> Some ''unknown'')"

definition public_box_row :: "public_box_answer \<Rightarrow> string" where
  "public_box_row b =
     (case pb_state b of
        Public_Ok \<Rightarrow> ''ok, everything the repo requires is installed and running''
      | Public_Attention \<Rightarrow> ''needs the operator's attention (detail is on the box, not here)''
      | Public_Unknown \<Rightarrow> ''unknown, the box has not reported recently'')"

definition public_box_is_bad :: "public_box_answer \<Rightarrow> bool" where
  "public_box_is_bad b = (pb_state b \<noteq> Public_Ok)"

section \<open>What the words mean\<close>

lemma box_report_read:
  "(\<exists>x. read_box_integrity file = Some x \<and> ir_readable x \<and> P x) \<longleftrightarrow>
     (\<exists>j e p n t. file = Some j \<and> field j ''readable'' \<noteq> Some (Jv_Bool False)
        \<and> finite_number (field j ''expected'') = Some e \<and> finite_number (field j ''present'') = Some p
        \<and> finite_number (field j ''notEnabled'') = Some n \<and> finite_number (field j ''at'') = Some t
        \<and> P \<lparr>ir_expected = e, ir_present = p, ir_notEnabled = n,
             ir_enabledUndeclared = finite_number (field j ''enabledUndeclared''),
             ir_watchdogRestarts = finite_number (field j ''watchdogRestarts''),
             ir_watchdogRestartsDelta = finite_number (field j ''watchdogRestartsDelta''),
             ir_platform = filled_text (field j ''platform''),
             ir_minerBinary = filled_text (field j ''minerBinary''),
             ir_minerUnit = filled_text (field j ''minerUnit''),
             ir_watchdogUnit = filled_text (field j ''watchdogUnit''),
             ir_alertBridge = filled_text (field j ''alertBridge''),
             ir_at = Some t, ir_readable = True,
             ir_drift = (case field j ''drift'' of None \<Rightarrow> None | Some d \<Rightarrow> Some (read_drift d))\<rparr>)"
proof (cases "file")
  case (Some j)
  show ?thesis unfolding Some read_box_integrity_def option.case
    by (cases "finite_number (field j ''expected'')"; cases "finite_number (field j ''present'')";
        cases "finite_number (field j ''notEnabled'')"; cases "finite_number (field j ''at'')";
        cases "field j ''readable'' = Some (Jv_Bool False)")
      (simp_all only: option.case prod.case if_True if_False option.inject option.distinct simp_thms ex_simps
        integrity_report.simps)
qed (simp add: read_box_integrity_def)

lemma public_ok_state:
  "pb_state (public_box s) = Public_Ok \<longleftrightarrow> is_state s = Box_Complete \<and> \<not> watchdog_looping s
     \<and> (is_watchdogUnit s = Some ''active'' \<or> is_watchdogUnit s = Some ''activating'')
     \<and> (is_alertBridge s = Some ''ok'' \<or> is_alertBridge s = Some ''webhook'')"
  by (cases "is_state s") (auto simp: public_box_def box_is_bad_def watchdog_stopped_def alert_bridge_down_def Let_def)

lemma public_ok_iff:
  "pb_state (public_box (classify_integrity r now)) = Public_Ok \<longleftrightarrow>
     (\<exists>x t. r = Some x \<and> ir_readable x \<and> ir_at x = Some t \<and> now - t \<le> STALE_AFTER_MS
        \<and> ir_expected x \<le> ir_present x \<and> ir_notEnabled x \<le> 0 \<and> nullish (ir_watchdogRestartsDelta x) 0 < 2
        \<and> (ir_watchdogUnit x = Some ''active'' \<or> ir_watchdogUnit x = Some ''activating'')
        \<and> (ir_alertBridge x = Some ''ok'' \<or> ir_alertBridge x = Some ''webhook''))"
proof (cases "\<exists>x t. r = Some x \<and> ir_readable x \<and> ir_at x = Some t")
  case False
  then have "is_state (classify_integrity r now) = Box_Unknown"
    by (auto simp: classify_integrity_def unknown_box_def Let_def split: option.split)
  then show ?thesis using False by (auto simp: public_box_def)
next
  case True
  then obtain x t where x: "r = Some x" "ir_readable x" "ir_at x = Some t" by blast
  have fresh: "max 0 (now - t) > STALE_AFTER_MS \<longleftrightarrow> \<not> now - t \<le> STALE_AFTER_MS"
    by (auto simp: STALE_AFTER_MS_def max_def)
  show ?thesis
  proof (cases "now - t \<le> STALE_AFTER_MS")
    case False
    then show ?thesis using x fresh by (simp add: public_box_def classify_integrity_def unknown_box_def Let_def)
  next
    case True
    then have nf: "\<not> max 0 (now - t) > STALE_AFTER_MS" using fresh by blast
    let ?s = "classify_integrity r now"
    have miss: "max 0 (a - b) > 0 \<longleftrightarrow> b < a" for a b :: rat by (auto simp: max_def)
    have "is_state ?s = Box_Complete \<longleftrightarrow> ir_expected x \<le> ir_present x \<and> ir_notEnabled x \<le> 0"
      using x by (simp add: classify_integrity_def Let_def nf miss not_less)
    moreover have "is_watchdogUnit ?s = ir_watchdogUnit x" "is_alertBridge ?s = ir_alertBridge x"
      "is_watchdogRestartsDelta ?s = ir_watchdogRestartsDelta x"
      using x by (simp_all add: classify_integrity_def Let_def nf)
    ultimately show ?thesis using x True by (simp add: public_ok_state watchdog_looping_def not_le)
  qed
qed

text \<open>
  the public word \<open>ok\<close> is affirmative: it is shown exactly when the box's file parsed to a report
  that does not call itself unreadable, whose four counts and stamp are all numbers, no older than
  thirty minutes, with no required file missing, no unit disabled, a watchdog systemd calls active and
  not looping, and a pager the box itself found working. A missing field, an absent file, an unknown
  watchdog or pager never reads as \<open>ok\<close>.
\<close>

theorem public_ok_is_affirmative:
  "pb_state (public_box (classify_integrity (read_box_integrity file) now)) = Public_Ok \<longleftrightarrow>
     (\<exists>j e p n t. file = Some j \<and> field j ''readable'' \<noteq> Some (Jv_Bool False)
        \<and> finite_number (field j ''expected'') = Some e \<and> finite_number (field j ''present'') = Some p
        \<and> finite_number (field j ''notEnabled'') = Some n \<and> finite_number (field j ''at'') = Some t
        \<and> now - t \<le> 1800000 \<and> e \<le> p \<and> n \<le> 0 \<and> nullish (finite_number (field j ''watchdogRestartsDelta'')) 0 < 2
        \<and> (filled_text (field j ''watchdogUnit'') = Some ''active'' \<or> filled_text (field j ''watchdogUnit'') = Some ''activating'')
        \<and> (filled_text (field j ''alertBridge'') = Some ''ok'' \<or> filled_text (field j ''alertBridge'') = Some ''webhook''))"
  (is "?l \<longleftrightarrow> ?r")
proof -
  let ?ok = "\<lambda>x. \<exists>t. ir_at x = Some t \<and> now - t \<le> STALE_AFTER_MS
        \<and> ir_expected x \<le> ir_present x \<and> ir_notEnabled x \<le> 0 \<and> nullish (ir_watchdogRestartsDelta x) 0 < 2
        \<and> (ir_watchdogUnit x = Some ''active'' \<or> ir_watchdogUnit x = Some ''activating'')
        \<and> (ir_alertBridge x = Some ''ok'' \<or> ir_alertBridge x = Some ''webhook'')"
  have "?l \<longleftrightarrow> (\<exists>x. read_box_integrity file = Some x \<and> ir_readable x \<and> ?ok x)"
    unfolding public_ok_iff by blast
  also have "\<dots> \<longleftrightarrow> ?r"
    unfolding box_report_read integrity_report.simps option.inject
    by (simp only: STALE_AFTER_MS_def mult_numeral_left_semiring_numeral) auto
  finally show ?thesis .
qed

text \<open>
  the drift word \<open>clean\<close> is reported exactly when the report carried an audit of the published shape, no
  older than ninety minutes, whose both parts ran, neither said it found or skipped anything, and whose
  counts are not positive; and the exit code outranks the count: whenever either part's own exit says
  findings and both ran, the word is \<open>drift\<close> even at a count of zero.
\<close>

theorem drift_clean_is_affirmative:
  "(dst_state (classify_drift d now) = Drift_Clean \<longleftrightarrow>
      (\<exists>r. d = Some (Some r) \<and> now - dr_at r \<le> 5400000
         \<and> da_rc (dr_config r) < 3 \<and> da_rc (dr_access r) < 3 \<and> da_rc (dr_config r) \<notin> {1, 2} \<and> da_rc (dr_access r) \<notin> {1, 2}
         \<and> da_findings (dr_config r) + da_findings (dr_access r) \<le> 0
         \<and> da_unverified (dr_config r) + da_unverified (dr_access r) \<le> 0))
   \<and> dst_state (classify_drift (Some (Some r)) now) =
       (if now - dr_at r > 5400000 then Drift_Stale
        else if da_rc (dr_config r) \<ge> 3 \<or> da_rc (dr_access r) \<ge> 3 then Drift_Incomplete
        else if da_rc (dr_config r) = 1 \<or> da_rc (dr_access r) = 1
                \<or> da_findings (dr_config r) + da_findings (dr_access r) > 0 then Drift_Drift
        else if da_unverified (dr_config r) + da_unverified (dr_access r) > 0
                \<or> da_rc (dr_config r) = 2 \<or> da_rc (dr_access r) = 2 then Drift_Incomplete
        else Drift_Clean)"
proof -
  have stale: "max 0 (now - t) > DRIFT_STALE_AFTER_MS \<longleftrightarrow> now - t > 5400000" for t
    by (auto simp: DRIFT_STALE_AFTER_MS_def max_def)
  have st: "dst_state (classify_drift (Some (Some r)) now) =
       (if now - dr_at r > 5400000 then Drift_Stale
        else if da_rc (dr_config r) \<ge> 3 \<or> da_rc (dr_access r) \<ge> 3 then Drift_Incomplete
        else if da_rc (dr_config r) = 1 \<or> da_rc (dr_access r) = 1
                \<or> da_findings (dr_config r) + da_findings (dr_access r) > 0 then Drift_Drift
        else if da_unverified (dr_config r) + da_unverified (dr_access r) > 0
                \<or> da_rc (dr_config r) = 2 \<or> da_rc (dr_access r) = 2 then Drift_Incomplete
        else Drift_Clean)" for r
    by (simp add: classify_drift_def Let_def stale)
  have "dst_state (classify_drift d now) = Drift_Clean \<longleftrightarrow>
      (\<exists>r. d = Some (Some r) \<and> dst_state (classify_drift (Some (Some r)) now) = Drift_Clean)"
    by (cases d; cases "the d") (auto simp: classify_drift_def [of None] classify_drift_def [of "Some None"])
  moreover have "dst_state (classify_drift (Some (Some r)) now) = Drift_Clean \<longleftrightarrow>
      now - dr_at r \<le> 5400000
         \<and> da_rc (dr_config r) < 3 \<and> da_rc (dr_access r) < 3 \<and> da_rc (dr_config r) \<notin> {1, 2} \<and> da_rc (dr_access r) \<notin> {1, 2}
         \<and> da_findings (dr_config r) + da_findings (dr_access r) \<le> 0
         \<and> da_unverified (dr_config r) + da_unverified (dr_access r) \<le> 0" for r
    unfolding st by (simp add: not_less not_le)
  ultimately show ?thesis using st [of r] by simp
qed

text \<open>
  a report stamped ahead of the faucet's clock never goes stale before that clock catches up: at
  every moment before its stamp it reads zero seconds old and carries its verdict, unlike the miner's
  heartbeat, whose reader treats a future stamp as unreadable.
\<close>

theorem future_report_reads_fresh:
  assumes "ir_readable r" and "ir_at r = Some t" and "now \<le> t"
  shows "is_ageSeconds (classify_integrity (Some r) now) = Some 0
    \<and> is_state (classify_integrity (Some r) now) = (if ir_expected r > ir_present r \<or> ir_notEnabled r > 0
         then Box_Incomplete else Box_Complete)"
proof -
  have m: "max 0 (now - t) = 0" using assms(3) by simp
  have miss: "max 0 (a - b) > 0 \<longleftrightarrow> b < a" for a b :: rat by (auto simp: max_def)
  have h: "half_up (0 / 1000) = 0" by (simp add: half_up_def floor_eq_iff)
  show ?thesis using assms(1,2)
    by (simp add: classify_integrity_def Let_def STALE_AFTER_MS_def m h miss del: div_0)
qed

lemma future_report_reads_fresh_witness:
  "is_state (classify_integrity (read_box_integrity (Some (Jv_Object
     [(''expected'', Jv_Num (Fin 3)), (''present'', Jv_Num (Fin 3)), (''notEnabled'', Jv_Num (Fin 0)),
      (''at'', Jv_Num (Fin 9000000))]))) 1000) = Box_Complete"
proof -
  let ?r = "\<lparr>ir_expected = 3, ir_present = 3, ir_notEnabled = 0, ir_enabledUndeclared = None, ir_watchdogRestarts = None,
     ir_watchdogRestartsDelta = None, ir_platform = None, ir_minerBinary = None, ir_minerUnit = None,
     ir_watchdogUnit = None, ir_alertBridge = None, ir_at = Some 9000000, ir_readable = True, ir_drift = None\<rparr>"
  have "read_box_integrity (Some (Jv_Object
     [(''expected'', Jv_Num (Fin 3)), (''present'', Jv_Num (Fin 3)), (''notEnabled'', Jv_Num (Fin 0)),
      (''at'', Jv_Num (Fin 9000000))])) = Some ?r"
    by (simp add: read_box_integrity_def)
  then show ?thesis using future_report_reads_fresh [of ?r 9000000 1000] by simp
qed

end
