(* ===== verification/Js_Number.thy ===== *)
theory Js_Number
  imports Js_String Complex_Main
begin

text \<open>
  JavaScript's numbers as the configuration uses them: \<open>Number(text)\<close> with the rounding to a double, the
  product of two numbers, \<open>Math.round\<close> and \<open>Math.floor\<close>. A finite number is the rational it stands for
  (the two zeros are one), \<open>None\<close> is \<open>NaN\<close> or an infinity.
\<close>

section \<open>Rounding to a double\<close>

fun bit_length :: "nat \<Rightarrow> nat" where
  "bit_length n = (if n = 0 then 0 else Suc (bit_length (n div 2)))"

declare bit_length.simps [simp del]

text \<open>The exponent of the binade of a positive number: \<open>2 powi e \<le> x < 2 powi (e + 1)\<close>.\<close>

definition binade :: "rat \<Rightarrow> int" where
  "binade x =
     (case quotient_of x of (n, d) \<Rightarrow>
        let e = int (bit_length (nat n)) - int (bit_length (nat d))
        in if 2 powi e \<le> x then e else e - 1)"

definition round_even :: "rat \<Rightarrow> int" where
  "round_even y =
     (let f = \<lfloor>y\<rfloor>; r = y - of_int f
      in if r < 1 / 2 then f else if r > 1 / 2 then f + 1 else if even f then f else f + 1)"

definition double_of :: "rat \<Rightarrow> rat" where
  "double_of x =
     (if x = 0 then 0
      else let q = 2 powi (max (binade \<bar>x\<bar> - 52) (- 1074)) in of_int (round_even (x / q)) * q)"

definition js_finite :: "rat \<Rightarrow> rat option" where
  "js_finite x = (if \<bar>x\<bar> < 2 ^ 1024 then Some x else None)"

definition js_times :: "rat \<Rightarrow> rat \<Rightarrow> rat option" where
  "js_times x y = js_finite (double_of (x * y))"

definition math_round :: "rat \<Rightarrow> int" where
  "math_round x = \<lfloor>x + 1 / 2\<rfloor>"

section \<open>Number(text)\<close>

abbreviation digits :: "string \<Rightarrow> bool" where
  "digits s \<equiv> list_all is_digit s"

text \<open>A mantissa: digits with at most one point and at least one digit.\<close>

definition mantissa_value :: "string \<Rightarrow> rat option" where
  "mantissa_value m =
     (case split_on (CHR ''.'') m of
        [w] \<Rightarrow> if w \<noteq> [] \<and> digits w then Some (of_int (digits_value w)) else None
      | [w, f] \<Rightarrow>
          if w @ f \<noteq> [] \<and> digits (w @ f) then Some (of_int (digits_value (w @ f)) / 10 ^ length f) else None
      | _ \<Rightarrow> None)"

fun unsigned :: "string \<Rightarrow> int \<times> string" where
  "unsigned (c # s) = (if c = CHR ''-'' then (- 1, s) else if c = CHR ''+'' then (1, s) else (1, c # s))"
| "unsigned [] = (1, [])"

definition exponent_value :: "string \<Rightarrow> int option" where
  "exponent_value s =
     (case s of [] \<Rightarrow> Some 0
      | e # t \<Rightarrow> (case unsigned t of (sg, ds) \<Rightarrow>
          if ds \<noteq> [] \<and> digits ds then Some (sg * digits_value ds) else None))"

definition is_exponent_mark :: "char \<Rightarrow> bool" where
  "is_exponent_mark c = (c = CHR ''e'' \<or> c = CHR ''E'')"

definition decimal_value :: "string \<Rightarrow> rat option" where
  "decimal_value s =
     (case unsigned s of (sg, t) \<Rightarrow>
        case mantissa_value (takeWhile (\<lambda>c. \<not> is_exponent_mark c) t) of None \<Rightarrow> None
      | Some m \<Rightarrow>
          (case exponent_value (dropWhile (\<lambda>c. \<not> is_exponent_mark c) t) of None \<Rightarrow> None
           | Some e \<Rightarrow> Some (of_int sg * m * 10 powi e)))"

definition digit_in :: "int \<Rightarrow> char \<Rightarrow> int option" where
  "digit_in base c =
     (let l = lower_char c;
          d = (if is_digit l then int (of_char l) - 48
               else if CHR ''a'' \<le> l \<and> l \<le> CHR ''z'' then int (of_char l) - 87 else base)
      in if d < base then Some d else None)"

definition radix_value :: "int \<Rightarrow> string \<Rightarrow> rat option" where
  "radix_value base s =
     (if s = [] \<or> list_ex (\<lambda>c. digit_in base c = None) s then None
      else Some (of_int (foldl (\<lambda>v c. base * v + the (digit_in base c)) 0 s)))"

definition literal_value :: "string \<Rightarrow> rat option" where
  "literal_value s =
     (let p = to_lower (take 2 s) in
      if p = ''0x'' then radix_value 16 (drop 2 s)
      else if p = ''0o'' then radix_value 8 (drop 2 s)
      else if p = ''0b'' then radix_value 2 (drop 2 s)
      else decimal_value s)"

definition js_number :: "string \<Rightarrow> rat option" where
  "js_number raw =
     (if trim raw = [] then Some 0
      else case literal_value (trim raw) of None \<Rightarrow> None | Some x \<Rightarrow> js_finite (double_of x))"

section \<open>Facts\<close>

lemma bit_length_bounds: "0 < n \<Longrightarrow> 2 ^ (bit_length n - 1) \<le> n \<and> n < 2 ^ bit_length n \<and> 0 < bit_length n"
proof (induction n rule: bit_length.induct)
  case (1 n)
  show ?case
  proof (cases "n = 1")
    case True
    then show ?thesis by (simp add: bit_length.simps [of "Suc 0"] bit_length.simps [of 0])
  next
    case False
    with 1 have "2 ^ (bit_length (n div 2) - 1) \<le> n div 2" "n div 2 < 2 ^ bit_length (n div 2)" "0 < bit_length (n div 2)"
      by auto
    moreover have "(2::nat) ^ bit_length (n div 2) = 2 * 2 ^ (bit_length (n div 2) - 1)"
      using calculation(3) by (metis power_minus_mult mult.commute)
    moreover have "2 * (n div 2) \<le> n" "n < 2 * (n div 2) + 2" by simp_all
    ultimately have "2 ^ bit_length (n div 2) \<le> n" "n < 2 * 2 ^ bit_length (n div 2)" by linarith+
    then show ?thesis using 1(2) by (simp add: bit_length.simps [of n])
  qed
qed

lemma binade_bounds:
  assumes "0 < x"
  shows "2 powi binade x \<le> x \<and> x < 2 powi (binade x + 1)"
proof -
  obtain n d where q: "quotient_of x = (n, d)" by (rule prod.exhaust)
  have d: "0 < d" using quotient_of_denom_pos [OF q] .
  have x: "x = of_int n / of_int d" using quotient_of_div [OF q] .
  have n: "0 < n" using assms d by (simp add: x zero_less_divide_iff)
  let ?a = "bit_length (nat n)" and ?b = "bit_length (nat d)"
  have A: "2 ^ (?a - 1) \<le> nat n" "nat n < 2 ^ ?a" "0 < ?a" using bit_length_bounds [of "nat n"] n by simp_all
  have B: "2 ^ (?b - 1) \<le> nat d" "nat d < 2 ^ ?b" "0 < ?b" using bit_length_bounds [of "nat d"] d by simp_all
  have nr: "(2::rat) ^ (?a - 1) \<le> of_int n" "(of_int n::rat) < 2 ^ ?a"
    using A n by (metis (no_types) int_nat_eq less_imp_le of_int_of_nat_eq of_nat_le_iff of_nat_numeral of_nat_power,
      metis (no_types) int_nat_eq less_imp_le of_int_of_nat_eq of_nat_less_iff of_nat_numeral of_nat_power n)
  have dr: "(2::rat) ^ (?b - 1) \<le> of_int d" "(of_int d::rat) < 2 ^ ?b"
    using B d by (metis (no_types) int_nat_eq less_imp_le of_int_of_nat_eq of_nat_le_iff of_nat_numeral of_nat_power,
      metis (no_types) int_nat_eq less_imp_le of_int_of_nat_eq of_nat_less_iff of_nat_numeral of_nat_power d)
  let ?e = "int ?a - int ?b"
  have "x < 2 ^ ?a / 2 ^ (?b - 1)" unfolding x using nr dr n d by (intro frac_less) auto
  also have "\<dots> = 2 powi (?e + 1)" using B(3) by (simp add: power_int_diff power_int_add of_nat_diff flip: power_int_of_nat)
  finally have up: "x < 2 powi (?e + 1)" .
  have "2 ^ (?a - 1) / 2 ^ ?b \<le> x" unfolding x using nr dr n d by (intro frac_le) auto
  moreover have "(2::rat) ^ (?a - 1) / 2 ^ ?b = 2 powi (?e - 1)"
    using A(3) by (simp add: power_int_diff of_nat_diff flip: power_int_of_nat)
  ultimately have low: "2 powi (?e - 1) \<le> x" by simp
  show ?thesis using up low by (simp add: binade_def q Let_def)
qed

lemma round_even_error: "\<bar>of_int (round_even y) - y\<bar> \<le> 1 / 2"
proof -
  have "of_int \<lfloor>y\<rfloor> \<le> y" "y < of_int \<lfloor>y\<rfloor> + 1" by linarith+
  then show ?thesis by (auto simp: round_even_def Let_def)
qed

text \<open>The relative error of rounding a positive number that is not subnormal.\<close>

lemma double_error:
  assumes "1 / 2 ^ 27 \<le> x"
  shows "\<bar>double_of x - x\<bar> \<le> x / 2 ^ 53"
proof -
  have pos: "0 < x" using assms by (rule less_le_trans [rotated]) simp
  note b = binade_bounds [OF pos]
  have "- 28 < binade x"
  proof (rule ccontr)
    assume "\<not> - 28 < binade x"
    then have "(2::rat) powi (binade x + 1) \<le> 2 powi (- 27)" by (intro power_int_increasing) auto
    then have "(2::rat) powi (binade x + 1) \<le> 1 / 2 ^ 27"
      by (simp only: power_int_minus power_int_numeral inverse_eq_divide)
    with b assms show False by linarith
  qed
  then have q: "max (binade x - 52) (- 1074) = binade x - 52" by simp
  let ?q = "2 powi (binade x - 52) :: rat"
  have qpos: "0 < ?q" by (simp add: zero_less_power_int)
  have d: "double_of x = of_int (round_even (x / ?q)) * ?q"
    using pos by (simp add: double_of_def Let_def q)
  have "double_of x - x = (of_int (round_even (x / ?q)) - x / ?q) * ?q"
    using qpos by (simp add: d left_diff_distrib)
  then have "\<bar>double_of x - x\<bar> = \<bar>of_int (round_even (x / ?q)) - x / ?q\<bar> * ?q"
    using qpos by (simp add: abs_mult)
  also have "\<dots> \<le> 1 / 2 * ?q" using round_even_error qpos by (intro mult_right_mono) auto
  also have "\<dots> = 2 powi binade x / 2 ^ 53"
    by (simp add: power_int_diff)
  also have "\<dots> \<le> x / 2 ^ 53" using b by (intro divide_right_mono) auto
  finally show ?thesis .
qed

lemma js_finiteI: "\<bar>x\<bar> < 2 ^ 51 \<Longrightarrow> js_finite x = Some x"
proof -
  assume "\<bar>x\<bar> < 2 ^ 51"
  moreover have "(2::rat) ^ 51 \<le> 2 ^ 1024" by (rule power_increasing) simp_all
  ultimately have "\<bar>x\<bar> < 2 ^ 1024" by (rule less_le_trans)
  then show "js_finite x = Some x" by (simp only: js_finite_def if_True)
qed

lemma double_of_0 [simp]: "double_of 0 = 0"
  by (simp add: double_of_def)

text \<open>
  A decimal of at most eight places, read and multiplied by \<open>10\<^sup>8\<close>, rounds to the integer it stands for.
\<close>

lemma round_trip_zatoshi:
  assumes "0 < k" and "k \<le> 2 ^ 50"
  defines "r \<equiv> double_of (of_int k / 10 ^ 8)"
  shows "js_finite r = Some r" and "\<exists>p. js_times r (10 ^ 8) = Some p \<and> math_round p = k"
proof -
  let ?k = "of_int k :: rat"
  let ?x = "?k / 10 ^ 8"
  have "?k \<le> of_int (2 ^ 50)" using assms(2) by (simp only: of_int_le_iff)
  then have k: "1 \<le> ?k" "?k \<le> 2 ^ 50" using assms(1) by simp_all
  have "(1::rat) / 2 ^ 27 \<le> ?x" using k by simp
  then have e1: "\<bar>r - ?x\<bar> \<le> ?x / 2 ^ 53" unfolding r_def by (rule double_error)
  let ?p = "r * 10 ^ 8"
  have e2: "\<bar>?p - ?k\<bar> \<le> ?k / 2 ^ 53" using e1 by (simp add: abs_le_iff field_simps)
  have s: "?k / 2 ^ 53 \<le> ?k / 8" "?k / 2 ^ 53 \<le> 1 / 8" using k by (simp_all add: field_simps)
  have "\<bar>?p - ?k\<bar> \<le> ?k / 8" using e2 s(1) by (rule order_trans)
  then have p: "1 / 2 \<le> ?p" "?p \<le> 2 * ?k" using k unfolding abs_le_iff by linarith+
  have e3: "\<bar>double_of ?p - ?p\<bar> \<le> ?p / 2 ^ 53" using p(1) by (intro double_error) simp
  have "?p / 2 ^ 53 \<le> 1 / 4" using p(2) k(2) by (simp add: field_simps)
  then have e: "\<bar>double_of ?p - ?k\<bar> \<le> 3 / 8" using e2 e3 s(2) by linarith
  have two: "(2::rat) ^ 51 = 2 * 2 ^ 50" "(1::rat) \<le> 2 ^ 50" by simp_all
  have "\<bar>double_of ?p\<bar> < 2 ^ 51" using e k two unfolding abs_le_iff abs_less_iff by linarith
  then have fin: "js_finite (double_of ?p) = Some (double_of ?p)" by (rule js_finiteI)
  have "math_round (double_of ?p) = k" using e unfolding math_round_def by (intro floor_unique) linarith+
  with fin show "\<exists>p. js_times r (10 ^ 8) = Some p \<and> math_round p = k" by (simp add: js_times_def)
  have "\<bar>r\<bar> < 2 ^ 51" using p k two unfolding abs_less_iff by simp
  then show "js_finite r = Some r" by (rule js_finiteI)
qed

text \<open>What \<open>Number\<close> reads in a plain decimal of two digit strings.\<close>

lemma digit_no_mark: "digits s \<Longrightarrow> \<forall>c\<in>set s. \<not> is_exponent_mark c \<and> c \<noteq> CHR ''.'' \<and> \<not> is_space c \<and> c \<noteq> CHR ''-'' \<and> c \<noteq> CHR ''+''"
  by (auto simp: list_all_iff is_digit_def is_exponent_mark_def is_space_def less_eq_char_def)

lemma number_of_decimal:
  assumes w: "w \<noteq> []" "digits w" and f: "digits f"
  shows "js_number (w @ ''.'' @ f) = js_finite (double_of (of_int (digits_value (w @ f)) / 10 ^ length f))"
proof -
  note W = digit_no_mark [OF w(2)] and F = digit_no_mark [OF f]
  let ?s = "w @ ''.'' @ f"
  have plain: "\<forall>c\<in>set ?s. \<not> is_exponent_mark c \<and> \<not> is_space c" using W F
    by (auto simp: is_exponent_mark_def is_space_def)
  have t: "trim ?s = ?s" using plain by (intro trim_plain) blast
  have tw: "takeWhile (\<lambda>c. \<not> is_exponent_mark c) ?s = ?s" "dropWhile (\<lambda>c. \<not> is_exponent_mark c) ?s = []"
    using plain by (auto simp: takeWhile_eq_all_conv dropWhile_eq_Nil_conv)
  have sp: "split_on (CHR ''.'') ?s = [w, f]"
  proof -
    have "CHR ''.'' \<notin> set w" "CHR ''.'' \<notin> set f" using W F by blast+
    then show ?thesis using split_on_cons [of "CHR ''.''" w f] split_on_word [of "CHR ''.''" f] by simp
  qed
  have us: "unsigned ?s = (1, ?s)" using w W by (cases w) auto
  have dec: "decimal_value ?s = Some (of_int (digits_value (w @ f)) / 10 ^ length f)"
    unfolding decimal_value_def us tw prod.case exponent_value_def list.case mantissa_value_def sp
    using w f by simp
  have "to_lower (take 2 ?s) \<notin> {''0x'', ''0o'', ''0b''}"
  proof -
    obtain c u where c: "w = c # u" using w(1) by (cases w) auto
    show ?thesis
    proof (cases u)
      case Nil
      then show ?thesis by (simp add: c to_lower_def lower_char_def less_eq_char_def)
    next
      case (Cons d v)
      then have "is_digit d" using w(2) c by simp
      then have "lower_char d = d" "d \<noteq> CHR ''x''" "d \<noteq> CHR ''o''" "d \<noteq> CHR ''b''"
        by (auto simp: is_digit_def lower_char_def less_eq_char_def)
      then show ?thesis using Cons by (simp add: c to_lower_def)
    qed
  qed
  then have "literal_value ?s = decimal_value ?s" by (auto simp: literal_value_def Let_def)
  then show ?thesis using t dec w(1) by (simp add: js_number_def)
qed

lemma number_of_blank: "\<forall>c\<in>set s. is_space c \<Longrightarrow> js_number s = Some 0"
proof -
  assume "\<forall>c\<in>set s. is_space c"
  then have "dropWhile is_space s = []" by (simp add: dropWhile_eq_Nil_conv)
  then have "trim s = []" unfolding trim_def by (simp only: rev.simps dropWhile.simps)
  then show ?thesis by (simp add: js_number_def)
qed

text \<open>Integers a double holds exactly.\<close>

lemma round_even_int [simp]: "round_even (of_int i) = i"
  by (simp add: round_even_def Let_def)

lemma double_of_int:
  assumes "0 \<le> n" and "n < 2 ^ 53"
  shows "double_of (of_int n) = of_int n"
proof (cases "n = 0")
  case False
  let ?x = "of_int n :: rat"
  have "?x < of_int (2 ^ 53)" using assms(2) by (simp only: of_int_less_iff)
  then have x: "1 \<le> ?x" "?x < 2 powi 53" using False assms(1) by simp_all
  then have "0 < ?x" by simp
  note b = binade_bounds [OF this]
  have low: "0 \<le> binade ?x"
  proof (rule ccontr)
    assume "\<not> 0 \<le> binade ?x"
    then have "(2::rat) powi (binade ?x + 1) \<le> 2 powi 0" by (intro power_int_increasing) auto
    with b x(1) show False by simp
  qed
  have high: "binade ?x \<le> 52"
  proof (rule ccontr)
    assume "\<not> binade ?x \<le> 52"
    then have "(2::rat) powi 53 \<le> 2 powi (binade ?x)" by (intro power_int_increasing) auto
    with b x(2) show False by linarith
  qed
  let ?m = "nat (52 - binade ?x)"
  have q: "(2::rat) powi (binade ?x - 52) = 1 / 2 ^ ?m"
  proof -
    have "binade ?x - 52 = - int ?m" using high by simp
    then show ?thesis by (simp only: power_int_minus power_int_of_nat inverse_eq_divide)
  qed
  have "max (binade ?x - 52) (- 1074) = binade ?x - 52" using low by simp
  then have "double_of ?x = of_int (round_even (?x / (1 / 2 ^ ?m))) * (1 / 2 ^ ?m)"
    using x(1) by (simp add: double_of_def Let_def q)
  moreover have "?x / (1 / 2 ^ ?m) = of_int (n * 2 ^ ?m)" by simp
  ultimately show ?thesis by (simp only: round_even_int) simp
qed simp

lemma js_times_int:
  assumes "0 \<le> n" and "n * 10 ^ 8 < 2 ^ 51"
  shows "js_times (of_int n) (10 ^ 8) = Some (of_int (n * 10 ^ 8))"
proof -
  have "double_of (of_int (n * 10 ^ 8)) = of_int (n * 10 ^ 8)" using assms by (intro double_of_int) auto
  moreover have "(of_int (n * 10 ^ 8) :: rat) < of_int (2 ^ 51)" using assms(2) by (simp only: of_int_less_iff)
  then have "js_finite (of_int (n * 10 ^ 8)) = Some (of_int (n * 10 ^ 8))" using assms(1) by (intro js_finiteI) simp
  ultimately show ?thesis by (simp add: js_times_def)
qed

lemma math_round_int [simp]: "math_round (of_int n) = n"
  unfolding math_round_def by linarith

end
