(* ===== verification/Config.thy ===== *)
theory Config
  imports Js_Number Api
begin

text \<open>
  The configuration (config.ts): every value read from the environment at boot, in the order the
  module reads it, the refusals of values it cannot read, the clamps, the relation between the reserve
  marks, and the checks of a process about to serve (\<open>assertServingConfig\<close>, with the salt guard of
  saltGuard.ts). The environment is a map; the configuration keeps the values the modelled parts use.
  Sums of milliseconds beyond \<open>2\<^sup>5\<^sup>3\<close>, where a double is no exact integer, are not rounded here.
\<close>

type_synonym env_map = "string \<Rightarrow> string option"

datatype config_error =
  Must_Be_A_Number string string
| Must_Be_Whole_Seconds string
| Must_Be_Whole_Count string
| Unknown_Sender string
| Unknown_Challenge string
| Amount_Out_Of_Range
| Low_Not_Below_Target int int
| Salt_Refused salt_rejection
| Turnstile_Not_Served

fun and_then :: "config_error + 'a \<Rightarrow> ('a \<Rightarrow> config_error + 'b) \<Rightarrow> config_error + 'b" where
  "and_then (Inl e) f = Inl e"
| "and_then (Inr x) f = f x"

section \<open>Reading one value\<close>

definition SENDERS :: "string list" where "SENDERS = [''zallet'', ''real'']"
definition CHALLENGES :: "string list" where "CHALLENGES = [''pow'', ''turnstile'', ''none'']"

definition sender_from_env :: "env_map \<Rightarrow> config_error + string" where
  "sender_from_env env =
     (let raw = trim (nullish (env ''FAUCET_SENDER'') ''zallet'') in
      if raw \<in> set SENDERS then Inr raw else Inl (Unknown_Sender raw))"

definition challenge_from_env :: "env_map \<Rightarrow> config_error + string" where
  "challenge_from_env env =
     (let raw = trim (nullish (env ''FAUCET_CHALLENGE'') []) in
      if raw = [] then Inr ''pow''
      else if raw \<in> set CHALLENGES then Inr raw else Inl (Unknown_Challenge raw))"

definition num :: "env_map \<Rightarrow> string \<Rightarrow> rat \<Rightarrow> config_error + rat" where
  "num env name fallback =
     (case env name of None \<Rightarrow> Inr fallback
      | Some raw \<Rightarrow>
          if raw = [] then Inr fallback
          else case js_number raw of None \<Rightarrow> Inl (Must_Be_A_Number name raw) | Some n \<Rightarrow> Inr n)"

definition is_integer :: "rat \<Rightarrow> bool" where
  "is_integer n = (of_int \<lfloor>n\<rfloor> = n)"

definition whole_seconds :: "env_map \<Rightarrow> string \<Rightarrow> rat \<Rightarrow> config_error + int" where
  "whole_seconds env name fallback =
     and_then (num env name fallback) (\<lambda>n.
       if n < 0 \<or> \<not> is_integer n then Inl (Must_Be_Whole_Seconds name) else Inr \<lfloor>n\<rfloor>)"

definition whole_count :: "env_map \<Rightarrow> string \<Rightarrow> rat \<Rightarrow> config_error + int" where
  "whole_count env name fallback =
     and_then (num env name fallback) (\<lambda>n.
       if n < 1 \<or> \<not> is_integer n then Inl (Must_Be_Whole_Count name) else Inr \<lfloor>n\<rfloor>)"

definition taz_to_zatoshi :: "rat \<Rightarrow> config_error + int" where
  "taz_to_zatoshi taz =
     (case js_times taz (10 ^ 8) of None \<Rightarrow> Inl Amount_Out_Of_Range | Some p \<Rightarrow> Inr (math_round p))"

text \<open>\<open>Math.floor(num(...))\<close> and \<open>tazToZatoshi(num(...))\<close>, as the literal composes them.\<close>

definition floor_num :: "env_map \<Rightarrow> string \<Rightarrow> rat \<Rightarrow> config_error + int" where
  "floor_num env name fallback = and_then (num env name fallback) (\<lambda>n. Inr \<lfloor>n\<rfloor>)"

definition taz_num :: "env_map \<Rightarrow> string \<Rightarrow> rat \<Rightarrow> config_error + int" where
  "taz_num env name fallback = and_then (num env name fallback) taz_to_zatoshi"

definition comma_list :: "string \<Rightarrow> string list" where
  "comma_list raw = filter (\<lambda>s. s \<noteq> []) (map trim (split_on (CHR '','') raw))"

definition endpoint_list :: "env_map \<Rightarrow> string list" where
  "endpoint_list env =
     (let ls = comma_list (nullish (env ''LIGHTWALLETD_ENDPOINT'') ''https://testnet.zec.rocks:443'') in
      if ls \<noteq> [] then ls else [''https://testnet.zec.rocks:443''])"

definition tip_endpoint_list :: "env_map \<Rightarrow> string list" where
  "tip_endpoint_list env =
     (case env ''TIP_ORACLE_ENDPOINT'' of None \<Rightarrow> endpoint_list env | Some raw \<Rightarrow> comma_list raw)"

definition bech32_char :: "char \<Rightarrow> bool" where
  "bech32_char c = (c \<in> set ''023456789acdefghjklmnpqrstuvwxyz'')"

definition mainnet_unified_or_empty :: "string \<Rightarrow> string" where
  "mainnet_unified_or_empty raw =
     (let addr = trim raw in
      if addr = [] then []
      else if starts_with addr ''utest1'' \<or> starts_with addr ''ztestsapling''
              \<or> starts_with addr ''tm'' \<or> starts_with addr ''t2'' then []
      else if \<not> (starts_with addr ''u1'' \<and> 40 \<le> length (drop 2 addr) \<and> list_all bech32_char (drop 2 addr)) then []
      else addr)"

section \<open>The configuration\<close>

record faucet_config =
  cf_timings :: sender_timings
  cf_dripTaz :: rat
  cf_cooldownSeconds :: rat
  cf_dailyCapZatoshi :: int
  cf_subnetDailyMax :: int
  cf_ipDailyMax :: int
  cf_trustedProxyCount :: int
  cf_minReserveZatoshi :: int
  cf_endpoints :: "string list"
  cf_tipEndpoints :: "string list"
  cf_sender :: string
  cf_minConf :: int
  cf_unlockSeconds :: int
  cf_targetZatoshi :: int
  cf_lowZatoshi :: int
  cf_checkSeconds :: int
  cf_shieldCoinbase :: bool
  cf_harvestIntervalSeconds :: int
  cf_harvestMinUTXOs :: int
  cf_minerActive :: bool
  cf_ctazEnabled :: bool
  cf_ctazExpectedZat :: int
  cf_ctazRpcTimeoutMs :: rat
  cf_maintenanceAddress :: string
  cf_sendQueueMaxPending :: int
  cf_txWindowSeconds :: int
  cf_txMax :: int
  cf_sendTaskDeadlineMs :: int
  cf_sendResidenceMs :: int
  cf_challenge :: string
  cf_pow :: "int \<times> int \<times> int \<times> int"

definition is_true :: "env_map \<Rightarrow> string \<Rightarrow> bool" where
  "is_true env name = (env name = Some ''true'')"

text \<open>The amounts: drip, cooldown, cap, per-range limits, proxies, reserve floor.\<close>

definition read_amounts :: "env_map \<Rightarrow> faucet_config \<Rightarrow> config_error + faucet_config" where
  "read_amounts env cf =
     and_then (num env ''FAUCET_DRIP_TAZ'' (double_of (1 / 10))) (\<lambda>drip.
     and_then (num env ''FAUCET_COOLDOWN_SECONDS'' 86400) (\<lambda>cooldown.
     and_then (taz_num env ''FAUCET_DAILY_CAP_TAZ'' 100) (\<lambda>cap.
     and_then (floor_num env ''FAUCET_SUBNET_DAILY_MAX'' 20) (\<lambda>subnet.
     and_then (floor_num env ''FAUCET_IP_DAILY_MAX'' 5) (\<lambda>ip.
     and_then (floor_num env ''TRUSTED_PROXY_COUNT'' 0) (\<lambda>proxies.
     and_then (taz_num env ''FAUCET_MIN_RESERVE_TAZ'' 0) (\<lambda>reserve.
       Inr (cf\<lparr>cf_dripTaz := drip, cf_cooldownSeconds := cooldown, cf_dailyCapZatoshi := cap,
               cf_subnetDailyMax := max 1 subnet, cf_ipDailyMax := max 1 ip,
               cf_trustedProxyCount := max 0 proxies, cf_minReserveZatoshi := reserve,
               cf_endpoints := endpoint_list env, cf_tipEndpoints := tip_endpoint_list env\<rparr>))))))))"

definition read_sender :: "env_map \<Rightarrow> faucet_config \<Rightarrow> config_error + faucet_config" where
  "read_sender env cf =
     and_then (sender_from_env env) (\<lambda>sender.
     and_then (floor_num env ''ZALLET_MIN_CONF'' 10) (\<lambda>minConf.
     and_then (floor_num env ''ZALLET_UNLOCK_SECONDS'' 60) (\<lambda>unlock.
       Inr (cf\<lparr>cf_sender := sender, cf_minConf := max 0 minConf, cf_unlockSeconds := max 1 unlock\<rparr>))))"

definition read_reserve :: "env_map \<Rightarrow> faucet_config \<Rightarrow> config_error + faucet_config" where
  "read_reserve env cf =
     and_then (taz_num env ''FAUCET_RESERVE_TARGET_TAZ'' 10000) (\<lambda>target.
     and_then (taz_num env ''FAUCET_RESERVE_LOW_TAZ'' 5000) (\<lambda>low.
     and_then (floor_num env ''FAUCET_RESERVE_CHECK_SECONDS'' 30) (\<lambda>check.
     and_then (whole_seconds env ''FAUCET_HARVEST_INTERVAL_SECONDS'' 3600) (\<lambda>interval.
     and_then (whole_count env ''FAUCET_HARVEST_MIN_UTXOS'' 50) (\<lambda>utxos.
       Inr (cf\<lparr>cf_targetZatoshi := target, cf_lowZatoshi := low, cf_checkSeconds := max 5 check,
               cf_shieldCoinbase := is_true env ''FAUCET_SHIELD_COINBASE'',
               cf_harvestIntervalSeconds := interval, cf_harvestMinUTXOs := utxos,
               cf_minerActive := is_true env ''FAUCET_MINER_ACTIVE''\<rparr>))))))"

definition read_ctaz :: "env_map \<Rightarrow> faucet_config \<Rightarrow> config_error + faucet_config" where
  "read_ctaz env cf =
     and_then (num env ''FAUCET_CTAZ_EXPECTED_ZAT'' 50000000) (\<lambda>expected.
     and_then (num env ''FAUCET_CTAZ_RPC_TIMEOUT_MS'' 30000) (\<lambda>timeout.
       Inr (cf\<lparr>cf_ctazEnabled := is_true env ''FAUCET_CTAZ_ENABLED'',
               cf_ctazExpectedZat := math_round expected, cf_ctazRpcTimeoutMs := timeout,
               cf_maintenanceAddress := mainnet_unified_or_empty (nullish (env ''FAUCET_MAINTENANCE_ADDRESS'') [])\<rparr>)))"

text \<open>The queue's bounds; the deadline's fallback is derived from the sender's timings.\<close>

definition read_limits :: "env_map \<Rightarrow> faucet_config \<Rightarrow> config_error + faucet_config" where
  "read_limits env cf =
     and_then (floor_num env ''SEND_QUEUE_MAX_PENDING'' 20) (\<lambda>pending.
     and_then (floor_num env ''TX_LOOKUP_RATE_WINDOW_SECONDS'' 60) (\<lambda>window.
     and_then (floor_num env ''TX_LOOKUP_RATE_MAX'' 60) (\<lambda>txMax.
     and_then (floor_num env ''SEND_TASK_DEADLINE_MS'' (of_int (default_task_deadline_ms (cf_timings cf)))) (\<lambda>deadline.
       Inr (cf\<lparr>cf_sendQueueMaxPending := max 1 pending, cf_txWindowSeconds := max 1 window,
               cf_txMax := max 1 txMax,
               cf_sendTaskDeadlineMs := send_task_deadline_ms (Some deadline) (cf_timings cf),
               cf_sendResidenceMs := send_residence_ms (Some deadline) (cf_timings cf)\<rparr>)))))"

definition read_gate :: "env_map \<Rightarrow> faucet_config \<Rightarrow> config_error + faucet_config" where
  "read_gate env cf =
     and_then (challenge_from_env env) (\<lambda>challenge.
     and_then (floor_num env ''FAUCET_POW_BITS'' 20) (\<lambda>base.
     and_then (floor_num env ''FAUCET_POW_ESCALATE_BITS'' 2) (\<lambda>esc.
     and_then (floor_num env ''FAUCET_POW_MAX_BITS'' 26) (\<lambda>maxb.
     and_then (floor_num env ''FAUCET_POW_TTL_SECONDS'' 600) (\<lambda>ttl.
       Inr (cf\<lparr>cf_challenge := challenge, cf_pow := (base, esc, maxb, ttl)\<rparr>))))))"

definition read_timings :: "env_map \<Rightarrow> config_error + sender_timings" where
  "read_timings env =
     and_then (floor_num env ''ZALLET_RPC_TIMEOUT_MS'' 15000) (\<lambda>rpc.
     and_then (floor_num env ''ZALLET_OP_TIMEOUT_MS'' 180000) (\<lambda>op.
     and_then (floor_num env ''ZALLET_POLL_MS'' 1500) (\<lambda>poll.
       Inr (zallet_timings rpc op poll))))"

definition blank_config :: "sender_timings \<Rightarrow> faucet_config" where
  "blank_config z =
     \<lparr>cf_timings = z, cf_dripTaz = 0, cf_cooldownSeconds = 0, cf_dailyCapZatoshi = 0, cf_subnetDailyMax = 0,
      cf_ipDailyMax = 0, cf_trustedProxyCount = 0, cf_minReserveZatoshi = 0, cf_endpoints = [],
      cf_tipEndpoints = [], cf_sender = [], cf_minConf = 0, cf_unlockSeconds = 0, cf_targetZatoshi = 0,
      cf_lowZatoshi = 0, cf_checkSeconds = 0, cf_shieldCoinbase = False, cf_harvestIntervalSeconds = 0,
      cf_harvestMinUTXOs = 0, cf_minerActive = False, cf_ctazEnabled = False, cf_ctazExpectedZat = 0, cf_ctazRpcTimeoutMs = 0,
      cf_maintenanceAddress = [], cf_sendQueueMaxPending = 0, cf_txWindowSeconds = 0, cf_txMax = 0,
      cf_sendTaskDeadlineMs = 0, cf_sendResidenceMs = 0, cf_challenge = [], cf_pow = (0, 0, 0, 0)\<rparr>"

text \<open>The module body: the timings, the literal from its first field to its last, the check of the marks.\<close>

definition load_config :: "env_map \<Rightarrow> config_error + faucet_config" where
  "load_config env =
     and_then (read_timings env) (\<lambda>z.
     and_then (read_amounts env (blank_config z)) (\<lambda>c1.
     and_then (read_sender env c1) (\<lambda>c2.
     and_then (read_reserve env c2) (\<lambda>c3.
     and_then (read_ctaz env c3) (\<lambda>c4.
     and_then (read_limits env c4) (\<lambda>c5.
     and_then (read_gate env c5) (\<lambda>cf.
       if cf_lowZatoshi cf \<ge> cf_targetZatoshi cf
       then Inl (Low_Not_Below_Target (cf_lowZatoshi cf) (cf_targetZatoshi cf)) else Inr cf)))))))"

text \<open>The getters: \<open>config.dripZatoshi\<close>, \<open>config.crosslink.dailyCapZatoshi\<close>, \<open>config.pow\<close> (its clamps).\<close>

definition drip_zatoshi :: "faucet_config \<Rightarrow> config_error + int" where
  "drip_zatoshi cf = taz_to_zatoshi (cf_dripTaz cf)"

definition ctaz_daily_cap_zatoshi :: "env_map \<Rightarrow> config_error + int" where
  "ctaz_daily_cap_zatoshi env = taz_num env ''FAUCET_CTAZ_DAILY_CAP'' 25"

definition config_pow :: "faucet_config \<Rightarrow> int \<Rightarrow> pow_config" where
  "config_pow cf windowSeconds =
     (case cf_pow cf of (base, esc, maxb, ttl) \<Rightarrow> pow_config_of base esc maxb ttl windowSeconds)"

datatype boot_warning = Turnstile_Key_Ignored | Gate_Is_Off | No_Trusted_Proxy

definition assert_serving_config :: "env_map \<Rightarrow> faucet_config \<Rightarrow> config_error + boot_warning list" where
  "assert_serving_config env cf =
     (let production = (env ''NODE_ENV'' = Some ''production'') in
      case salt_rejection_reason (nullish (env ''RATE_LIMIT_SALT'') []) production (cf_challenge cf) of
        Some reason \<Rightarrow> Inl (Salt_Refused reason)
      | None \<Rightarrow>
          if cf_challenge cf = ''turnstile'' then Inl Turnstile_Not_Served
          else Inr ((if trim (nullish (env ''TURNSTILE_SECRET_KEY'') []) \<noteq> [] then [Turnstile_Key_Ignored] else [])
                    @ (if cf_challenge cf = ''none'' \<and> production then [Gate_Is_Off] else [])
                    @ (if cf_trustedProxyCount cf = 0 \<and> production then [No_Trusted_Proxy] else [])))"

section \<open>What an accepted environment gives\<close>

lemma and_then_Inr: "and_then r f = Inr y \<longleftrightarrow> (\<exists>x. r = Inr x \<and> f x = Inr y)"
  by (cases r) auto

lemma and_then_Inl: "and_then r f = Inl e \<longleftrightarrow> r = Inl e \<or> (\<exists>x. r = Inr x \<and> f x = Inl e)"
  by (cases r) auto

definition well_formed :: "faucet_config \<Rightarrow> bool" where
  "well_formed cf \<longleftrightarrow>
     1 \<le> cf_subnetDailyMax cf \<and> 1 \<le> cf_ipDailyMax cf \<and> 0 \<le> cf_trustedProxyCount cf
     \<and> cf_endpoints cf \<noteq> [] \<and> cf_sender cf \<in> set SENDERS \<and> 0 \<le> cf_minConf cf \<and> 1 \<le> cf_unlockSeconds cf
     \<and> cf_lowZatoshi cf < cf_targetZatoshi cf \<and> 5 \<le> cf_checkSeconds cf \<and> 0 \<le> cf_harvestIntervalSeconds cf
     \<and> 1 \<le> cf_harvestMinUTXOs cf \<and> 1 \<le> cf_sendQueueMaxPending cf \<and> 1 \<le> cf_txWindowSeconds cf \<and> 1 \<le> cf_txMax cf
     \<and> 1000 \<le> rpcTimeoutMs (cf_timings cf) \<and> 5000 \<le> opTimeoutMs (cf_timings cf) \<and> 250 \<le> pollMs (cf_timings cf)
     \<and> 1000 \<le> cf_sendTaskDeadlineMs cf
     \<and> cf_sendTaskDeadlineMs cf \<le> cf_sendResidenceMs cf \<and> sender_worst_case_ms (cf_timings cf) \<le> cf_sendResidenceMs cf
     \<and> cf_challenge cf \<in> set CHALLENGES
     \<and> (cf_maintenanceAddress cf = [] \<or> starts_with (cf_maintenanceAddress cf) ''u1''
          \<and> 42 \<le> length (cf_maintenanceAddress cf) \<and> list_all bech32_char (drop 2 (cf_maintenanceAddress cf)))"

lemma maintenance_address:
  "mainnet_unified_or_empty raw = a \<Longrightarrow> a = [] \<or> starts_with a ''u1'' \<and> 42 \<le> length a \<and> list_all bech32_char (drop 2 a)"
  by (auto simp: mainnet_unified_or_empty_def Let_def split: if_splits)

lemma endpoint_list_nonempty: "endpoint_list env \<noteq> []"
  by (simp add: endpoint_list_def Let_def)

lemma read_results:
  "read_timings env = Inr z \<Longrightarrow> \<exists>a b c. z = zallet_timings a b c"
  "sender_from_env env = Inr s \<Longrightarrow> s \<in> set SENDERS"
  "challenge_from_env env = Inr c \<Longrightarrow> c \<in> set CHALLENGES"
  "whole_seconds env n d = Inr i \<Longrightarrow> 0 \<le> i"
  "whole_count env n d = Inr i \<Longrightarrow> 1 \<le> i"
  by (auto simp: read_timings_def sender_from_env_def challenge_from_env_def whole_seconds_def
      whole_count_def and_then_Inr Let_def CHALLENGES_def split: if_splits)

lemmas reader_defs =
  load_config_def read_timings_def read_amounts_def read_sender_def read_reserve_def read_ctaz_def
  read_limits_def read_gate_def

text \<open>What each group of values looks like after it has been read.\<close>

lemma amounts_read:
  "read_amounts env cf = Inr c \<Longrightarrow> \<exists>drip cool cap s i p r. c = cf\<lparr>cf_dripTaz := drip, cf_cooldownSeconds := cool,
     cf_dailyCapZatoshi := cap, cf_subnetDailyMax := max 1 s, cf_ipDailyMax := max 1 i,
     cf_trustedProxyCount := max 0 p, cf_minReserveZatoshi := r,
     cf_endpoints := endpoint_list env, cf_tipEndpoints := tip_endpoint_list env\<rparr>"
  by (simp only: read_amounts_def and_then_Inr sum.inject) blast

lemma sender_read:
  "read_sender env cf = Inr c \<Longrightarrow> \<exists>s m u. c = cf\<lparr>cf_sender := s, cf_minConf := max 0 m, cf_unlockSeconds := max 1 u\<rparr>
     \<and> s \<in> set SENDERS"
  using read_results(2) by (simp only: read_sender_def and_then_Inr sum.inject) blast

lemma reserve_read:
  "read_reserve env cf = Inr c \<Longrightarrow> \<exists>t l k b i u v. c = cf\<lparr>cf_targetZatoshi := t, cf_lowZatoshi := l, cf_checkSeconds := max 5 k,
     cf_shieldCoinbase := b, cf_harvestIntervalSeconds := i, cf_harvestMinUTXOs := u, cf_minerActive := v\<rparr> \<and> 0 \<le> i \<and> 1 \<le> u"
  using read_results(4,5) by (simp only: read_reserve_def and_then_Inr sum.inject) blast

lemma ctaz_read:
  "read_ctaz env cf = Inr c \<Longrightarrow> \<exists>b x t raw. c = cf\<lparr>cf_ctazEnabled := b, cf_ctazExpectedZat := x, cf_ctazRpcTimeoutMs := t,
     cf_maintenanceAddress := mainnet_unified_or_empty raw\<rparr>"
  by (simp only: read_ctaz_def and_then_Inr sum.inject) blast

lemma limits_read:
  "read_limits env cf = Inr c \<Longrightarrow> \<exists>p w m d. c = cf\<lparr>cf_sendQueueMaxPending := max 1 p, cf_txWindowSeconds := max 1 w,
     cf_txMax := max 1 m, cf_sendTaskDeadlineMs := send_task_deadline_ms (Some d) (cf_timings cf),
     cf_sendResidenceMs := send_residence_ms (Some d) (cf_timings cf)\<rparr>"
  by (simp only: read_limits_def and_then_Inr sum.inject) blast

lemma gate_read:
  "read_gate env cf = Inr c \<Longrightarrow> \<exists>ch b e m t. c = cf\<lparr>cf_challenge := ch, cf_pow := (b, e, m, t)\<rparr>
     \<and> challenge_from_env env = Inr ch"
  by (simp only: read_gate_def and_then_Inr sum.inject) blast

text \<open>
  C38: what a configuration that boots is sure of, whatever the environment said. At least one drip
  per subnet and per client a day, no negative proxy count, at least one light client endpoint, a sender and a
  gate among the known ones, the reserve's low mark below its target and checked no more often than
  every five seconds, harvests of at least one output, a queue that holds at least one send, a
  transaction window of at least a second, the wallet's call, operation and poll times at or above their
  floors of 1000, 5000 and 250 ms, a send deadline of at least a second which never exceeds the residence the
  pending lease is built on, a residence that covers the sender's worst case, proof-of-work knobs within
  their clamps, and a maintenance address that is absent or a lower-case mainnet unified address of at least 42
  characters. The cooldown, the amount of a drip, the daily caps and the feature net's call timeout are
  not among them: they are taken as they are read.
\<close>

theorem accepted_config_is_well_formed:
  assumes "load_config env = Inr cf"
  shows "well_formed cf \<and> (let p = config_pow cf window in
     8 \<le> baseBits p \<and> baseBits p \<le> 28 \<and> 12 \<le> maxBits p \<and> maxBits p \<le> 30 \<and> 0 \<le> escalateBits p \<and> 30 \<le> ttlSeconds p)"
proof -
  from assms obtain z c1 c2 c3 c4 c5 where z: "read_timings env = Inr z"
    and c1: "read_amounts env (blank_config z) = Inr c1" and c2: "read_sender env c1 = Inr c2"
    and c3: "read_reserve env c2 = Inr c3" and c4: "read_ctaz env c3 = Inr c4"
    and c5: "read_limits env c4 = Inr c5" and cf: "read_gate env c5 = Inr cf"
    and marks: "cf_lowZatoshi cf < cf_targetZatoshi cf"
    by (auto simp: load_config_def and_then_Inr split: if_splits)
  obtain a b c where zt: "z = zallet_timings a b c" using read_results(1) [OF z] by blast
  have cf_is: "\<exists>ch b e m t. cf = c5\<lparr>cf_challenge := ch, cf_pow := (b, e, m, t)\<rparr> \<and> ch \<in> set CHALLENGES"
    using gate_read [OF cf] read_results(3) by blast
  have "well_formed cf"
    using amounts_read [OF c1] sender_read [OF c2] reserve_read [OF c3] ctaz_read [OF c4] limits_read [OF c5] cf_is marks
      maintenance_address [OF refl] endpoint_list_nonempty [of env] unfolding well_formed_def
    by (elim exE conjE) (simp add: blank_config_def zt zallet_timings_def send_residence_ms_def send_task_deadline_ms_def)
  moreover have "let p = config_pow cf window in
     8 \<le> baseBits p \<and> baseBits p \<le> 28 \<and> 12 \<le> maxBits p \<and> maxBits p \<le> 30 \<and> 0 \<le> escalateBits p \<and> 30 \<le> ttlSeconds p"
    by (cases "cf_pow cf") (simp add: config_pow_def pow_config_of_def)
  ultimately show ?thesis by simp
qed

text \<open>
  C39: an amount of at most eight decimals is exactly the zatoshi it names. Whatever amount variable it
  stands in, a literal \<open>w.f\<close> with up to eight digits after the point, worth at most \<open>2\<^sup>5\<^sup>0\<close> zatoshi (over
  eleven million TAZ), is read as that integer, although both the number and its product with
  \<open>10\<^sup>8\<close> are rounded to a double on the way.
\<close>

theorem taz_amounts_are_exact:
  assumes "env name = Some (w @ ''.'' @ f)" and "w \<noteq> []" and "list_all is_digit w" and "list_all is_digit f"
    and "length f \<le> 8" and k: "k = digits_value (w @ f) * 10 ^ (8 - length f)" and "0 < k" and "k \<le> 2 ^ 50"
  shows "taz_num env name fallback = Inr k"
proof -
  have p: "(10::rat) ^ 8 = 10 ^ length f * 10 ^ (8 - length f)" using assms(5) by (simp flip: power_add)
  have x: "(of_int (digits_value (w @ f)) / 10 ^ length f :: rat) = of_int k / 10 ^ 8"
    unfolding p k of_int_mult of_int_power of_int_numeral by simp
  have "js_number (w @ ''.'' @ f) = Some (double_of (of_int k / 10 ^ 8))"
    using number_of_decimal [OF assms(2-4)] round_trip_zatoshi(1) [OF assms(7,8)] by (simp only: x)
  then have "num env name fallback = Inr (double_of (of_int k / 10 ^ 8))"
    using assms(1,2) by (simp add: num_def)
  then show ?thesis using round_trip_zatoshi(2) [OF assms(7,8)] by (auto simp: taz_num_def taz_to_zatoshi_def)
qed

lemma taz_amounts_are_exact_witness:
  "taz_num [''FAUCET_DAILY_CAP_TAZ'' \<mapsto> ''12.5''] ''FAUCET_DAILY_CAP_TAZ'' 100 = Inr 1250000000"
  using taz_amounts_are_exact [of "[''FAUCET_DAILY_CAP_TAZ'' \<mapsto> ''12.5'']" "''FAUCET_DAILY_CAP_TAZ''" "''12''" "''5''" 1250000000]
  by (simp add: digits_value_def is_digit_def less_eq_char_def)

lemma taz_of_int: "0 \<le> n \<Longrightarrow> n * 10 ^ 8 < 2 ^ 51 \<Longrightarrow> taz_to_zatoshi (of_int n) = Inr (n * 10 ^ 8)"
  unfolding taz_to_zatoshi_def by (simp only: js_times_int option.case math_round_int)

lemma default_amounts:
  "taz_to_zatoshi 100 = Inr 10000000000" "taz_to_zatoshi 0 = Inr 0"
  "taz_to_zatoshi 10000 = Inr 1000000000000" "taz_to_zatoshi 5000 = Inr 500000000000"
  using taz_of_int [of 100] taz_of_int [of 0] taz_of_int [of 10000] taz_of_int [of 5000] by simp_all

lemma unset_num: "env name = None \<Longrightarrow> num env name d = Inr d"
  by (simp add: num_def)

text \<open>An environment that sets at most the cooldown, to a text that reads as a number.\<close>

lemma bare_env_boots:
  assumes "\<forall>n. n \<noteq> ''FAUCET_COOLDOWN_SECONDS'' \<longrightarrow> env n = None"
    and "num env ''FAUCET_COOLDOWN_SECONDS'' 86400 = Inr c"
  shows "\<exists>cf. load_config env = Inr cf \<and> cf_cooldownSeconds cf = c \<and> cf_challenge cf = ''pow''"
  using assms(2)
  by (simp add: reader_defs assms(1) unset_num floor_num_def taz_num_def whole_seconds_def whole_count_def
      default_amounts sender_from_env_def challenge_from_env_def SENDERS_def is_integer_def trim_def is_space_def)

lemma accepted_config_is_well_formed_witness:
  "\<exists>cf. load_config (\<lambda>_. None) = Inr cf \<and> cf_lowZatoshi cf < cf_targetZatoshi cf"
proof -
  obtain cf where "load_config (\<lambda>_. None) = Inr cf"
    using bare_env_boots [of "\<lambda>_. None"] by (auto simp: unset_num)
  then show ?thesis using accepted_config_is_well_formed [of "\<lambda>_. None" cf] by (auto simp: well_formed_def)
qed

text \<open>The numbers read while the module loads.\<close>

definition numeric_names :: "string list" where
  "numeric_names =
     [''ZALLET_RPC_TIMEOUT_MS'', ''ZALLET_OP_TIMEOUT_MS'', ''ZALLET_POLL_MS'', ''FAUCET_DRIP_TAZ'',
      ''FAUCET_COOLDOWN_SECONDS'', ''FAUCET_DAILY_CAP_TAZ'', ''FAUCET_SUBNET_DAILY_MAX'', ''FAUCET_IP_DAILY_MAX'',
      ''TRUSTED_PROXY_COUNT'', ''FAUCET_MIN_RESERVE_TAZ'', ''ZALLET_MIN_CONF'', ''ZALLET_UNLOCK_SECONDS'',
      ''FAUCET_RESERVE_TARGET_TAZ'', ''FAUCET_RESERVE_LOW_TAZ'', ''FAUCET_RESERVE_CHECK_SECONDS'',
      ''FAUCET_HARVEST_INTERVAL_SECONDS'', ''FAUCET_HARVEST_MIN_UTXOS'', ''FAUCET_CTAZ_EXPECTED_ZAT'',
      ''FAUCET_CTAZ_RPC_TIMEOUT_MS'', ''SEND_QUEUE_MAX_PENDING'', ''TX_LOOKUP_RATE_WINDOW_SECONDS'',
      ''TX_LOOKUP_RATE_MAX'', ''SEND_TASK_DEADLINE_MS'', ''FAUCET_POW_BITS'', ''FAUCET_POW_ESCALATE_BITS'',
      ''FAUCET_POW_MAX_BITS'', ''FAUCET_POW_TTL_SECONDS'']"

lemma num_other: "n \<noteq> m \<Longrightarrow> num (env(m := v)) n d = num env n d"
  by (simp add: num_def)

lemma endpoints_other:
  "endpoint_list (env(''FAUCET_CTAZ_DAILY_CAP'' := v)) = endpoint_list env"
  "tip_endpoint_list (env(''FAUCET_CTAZ_DAILY_CAP'' := v)) = tip_endpoint_list env"
  by (simp_all add: endpoint_list_def tip_endpoint_list_def split: option.split)

lemma cap_not_read:
  defines "other env v \<equiv> env(''FAUCET_CTAZ_DAILY_CAP'' := v :: string option)"
  shows "read_timings (other env v) = read_timings env" "read_amounts (other env v) = read_amounts env"
    "read_sender (other env v) = read_sender env" "read_reserve (other env v) = read_reserve env"
    "read_ctaz (other env v) = read_ctaz env" "read_limits (other env v) = read_limits env"
    "read_gate (other env v) = read_gate env"
  by (simp_all add: fun_eq_iff other_def reader_defs floor_num_def taz_num_def whole_seconds_def whole_count_def num_other
      sender_from_env_def challenge_from_env_def endpoints_other is_true_def)

definition unreadable :: "env_map \<Rightarrow> string \<Rightarrow> bool" where
  "unreadable env name = (\<exists>raw. env name = Some raw \<and> raw \<noteq> [] \<and> js_number raw = None)"

lemma unreadable_num: "num env name d = Inr x \<Longrightarrow> \<not> unreadable env name"
  by (auto simp: num_def unreadable_def split: option.splits if_splits)

lemma booted_reads_everything:
  assumes "load_config env = Inr cf"
  shows "\<forall>n\<in>set numeric_names. \<not> unreadable env n"
  using assms
  by (auto simp: numeric_names_def reader_defs and_then_Inr floor_num_def taz_num_def whole_seconds_def
      whole_count_def dest!: unreadable_num)

text \<open>
  a number that cannot be read never becomes a default: whichever of the numeric variables read at
  boot holds a non-empty text that is no finite number, the module throws; and the one number that is
  read later, the feature net's daily cap, does not stop the boot, but throws at every use.
\<close>

theorem unreadable_number_refuses_to_boot:
  "(\<forall>name\<in>set numeric_names. unreadable env name \<longrightarrow> (\<exists>e. load_config env = Inl e))
   \<and> load_config (env(''FAUCET_CTAZ_DAILY_CAP'' := v)) = load_config env
   \<and> (unreadable env ''FAUCET_CTAZ_DAILY_CAP'' \<longrightarrow>
        (\<exists>raw. ctaz_daily_cap_zatoshi env = Inl (Must_Be_A_Number ''FAUCET_CTAZ_DAILY_CAP'' raw)))"
proof (intro conjI ballI impI)
  fix name assume "name \<in> set numeric_names" "unreadable env name"
  then show "\<exists>e. load_config env = Inl e" using booted_reads_everything [of env] by (cases "load_config env") auto
next
  show "load_config (env(''FAUCET_CTAZ_DAILY_CAP'' := v)) = load_config env"
    unfolding load_config_def cap_not_read by (rule refl)
next
  assume "unreadable env ''FAUCET_CTAZ_DAILY_CAP''"
  then show "\<exists>raw. ctaz_daily_cap_zatoshi env = Inl (Must_Be_A_Number ''FAUCET_CTAZ_DAILY_CAP'' raw)"
    by (auto simp: unreadable_def ctaz_daily_cap_zatoshi_def taz_num_def num_def)
qed

lemma unreadable_number_refuses_to_boot_witness:
  "(\<exists>e. load_config [''TX_LOOKUP_RATE_MAX'' \<mapsto> ''sixty''] = Inl e)
   \<and> ctaz_daily_cap_zatoshi [''FAUCET_CTAZ_DAILY_CAP'' \<mapsto> ''25 TAZ'']
       = Inl (Must_Be_A_Number ''FAUCET_CTAZ_DAILY_CAP'' ''25 TAZ'')"
proof
  have "js_number ''sixty'' = None" "js_number ''25 TAZ'' = None" by code_simp+
  then have u: "unreadable [''TX_LOOKUP_RATE_MAX'' \<mapsto> ''sixty''] ''TX_LOOKUP_RATE_MAX''"
      "unreadable [''FAUCET_CTAZ_DAILY_CAP'' \<mapsto> ''25 TAZ''] ''FAUCET_CTAZ_DAILY_CAP''"
    by (simp_all add: unreadable_def)
  show "\<exists>e. load_config [''TX_LOOKUP_RATE_MAX'' \<mapsto> ''sixty''] = Inl e"
    using unreadable_number_refuses_to_boot [of "[''TX_LOOKUP_RATE_MAX'' \<mapsto> ''sixty'']"] u(1)
    by (simp add: numeric_names_def)
  show "ctaz_daily_cap_zatoshi [''FAUCET_CTAZ_DAILY_CAP'' \<mapsto> ''25 TAZ'']
       = Inl (Must_Be_A_Number ''FAUCET_CTAZ_DAILY_CAP'' ''25 TAZ'')"
    using unreadable_number_refuses_to_boot [of "[''FAUCET_CTAZ_DAILY_CAP'' \<mapsto> ''25 TAZ'']"] u(2)
    by (auto simp: ctaz_daily_cap_zatoshi_def taz_num_def num_def \<open>js_number ''25 TAZ'' = None\<close>)
qed

lemma negative_number:
  "js_number ''-5'' = Some (- 5)"
proof -
  have r: "double_of (- 5) = - 5"
  proof -
    have "binade 5 = 2"
    proof -
      note b = binade_bounds [of 5]
      have "binade 5 < 3"
      proof (rule ccontr)
        assume "\<not> binade 5 < 3"
        then have "(2::rat) powi 3 \<le> 2 powi binade 5" by (intro power_int_increasing) auto
        with b show False by simp
      qed
      moreover have "2 \<le> binade 5"
      proof (rule ccontr)
        assume "\<not> 2 \<le> binade 5"
        then have "(2::rat) powi (binade 5 + 1) \<le> 2 powi 2" by (intro power_int_increasing) auto
        with b show False by simp
      qed
      ultimately show ?thesis by simp
    qed
    then have m: "max (binade 5 - 52) (- 1074) = (- 50 :: int)" by simp
    have q: "(2::rat) powi max (binade 5 - 52) (- 1074) = 1 / 2 ^ 50"
      unfolding m by (simp only: power_int_minus power_int_numeral inverse_eq_divide)
    have "(- 5) / (1 / 2 ^ 50 :: rat) = of_int (- 5 * 2 ^ 50)" by simp
    then show ?thesis by (simp only: double_of_def Let_def abs_minus_cancel abs_numeral q round_even_int) simp
  qed
  have "decimal_value ''-5'' = Some (- 5)" by code_simp
  then show ?thesis using js_finiteI [of "- 5"] by (simp add: js_number_def literal_value_def Let_def trim_def is_space_def to_lower_def lower_char_def less_eq_char_def r)
qed

text \<open>
  not every mistyped period is refused: a cooldown set to white space reads as the number zero and
  one set to a negative number is taken as it stands; both boot, although a threshold that cannot mean
  what the operator wrote is what the refusal to boot is written for.
\<close>

theorem blank_cooldown_boots_without_cooldown:
  assumes "s \<noteq> []" and "\<forall>c\<in>set s. is_space c"
  shows "(\<exists>cf. load_config [''FAUCET_COOLDOWN_SECONDS'' \<mapsto> s] = Inr cf \<and> cf_cooldownSeconds cf = 0)
    \<and> (\<exists>cf. load_config [''FAUCET_COOLDOWN_SECONDS'' \<mapsto> ''-5''] = Inr cf \<and> cf_cooldownSeconds cf = - 5)"
proof
  have "num [''FAUCET_COOLDOWN_SECONDS'' \<mapsto> s] ''FAUCET_COOLDOWN_SECONDS'' 86400 = Inr 0"
    using assms by (simp add: num_def number_of_blank)
  then show "\<exists>cf. load_config [''FAUCET_COOLDOWN_SECONDS'' \<mapsto> s] = Inr cf \<and> cf_cooldownSeconds cf = 0"
    using bare_env_boots [of "[''FAUCET_COOLDOWN_SECONDS'' \<mapsto> s]"] by auto
  have "num [''FAUCET_COOLDOWN_SECONDS'' \<mapsto> ''-5''] ''FAUCET_COOLDOWN_SECONDS'' 86400 = Inr (- 5)"
    by (simp add: num_def negative_number)
  then show "\<exists>cf. load_config [''FAUCET_COOLDOWN_SECONDS'' \<mapsto> ''-5''] = Inr cf \<and> cf_cooldownSeconds cf = - 5"
    using bare_env_boots [of "[''FAUCET_COOLDOWN_SECONDS'' \<mapsto> ''-5'']"] by auto
qed

lemma blank_cooldown_boots_without_cooldown_witness:
  "\<exists>cf. load_config [''FAUCET_COOLDOWN_SECONDS'' \<mapsto> '' ''] = Inr cf \<and> cf_cooldownSeconds cf = 0"
  using blank_cooldown_boots_without_cooldown [of "'' ''"] by (simp add: is_space_def)

text \<open>
  a production server that starts serving has its gate accounted for: the gate is proof of work, with
  a signing salt that is neither empty nor one of the template's placeholders, or it was switched off by
  name and the log says so; an operator who says nothing gets proof of work, and the captcha mode that
  no client can serve never starts.
\<close>

theorem serving_faucet_is_gated:
  assumes "load_config env = Inr cf" and "assert_serving_config env cf = Inr warnings"
    and "env ''NODE_ENV'' = Some ''production''"
  shows "(cf_challenge cf = ''pow'' \<and> (let salt = trim (nullish (env ''RATE_LIMIT_SALT'') []) in
            salt \<noteq> [] \<and> (\<forall>m\<in>set PLACEHOLDER_MARKERS. \<not> contains (to_lower salt) m))
          \<or> cf_challenge cf = ''none'' \<and> trim (nullish (env ''FAUCET_CHALLENGE'') []) = ''none'' \<and> Gate_Is_Off \<in> set warnings)
     \<and> (cf_trustedProxyCount cf = 0 \<longrightarrow> No_Trusted_Proxy \<in> set warnings)"
proof -
  obtain c5 where "read_gate env c5 = Inr cf" using assms(1) by (auto simp: load_config_def and_then_Inr split: if_splits)
  from gate_read [OF this] have ch: "challenge_from_env env = Inr (cf_challenge cf)" by auto
  have salt: "salt_rejection_reason (nullish (env ''RATE_LIMIT_SALT'') []) True (cf_challenge cf) = None"
    and nt: "cf_challenge cf \<noteq> ''turnstile''"
    and ws: "cf_challenge cf = ''none'' \<longrightarrow> Gate_Is_Off \<in> set warnings"
      "cf_trustedProxyCount cf = 0 \<longrightarrow> No_Trusted_Proxy \<in> set warnings"
    using assms(2,3) by (auto simp: assert_serving_config_def Let_def split: option.splits if_splits)
  from ch nt have "cf_challenge cf = ''pow'' \<or> cf_challenge cf = ''none'' \<and> trim (nullish (env ''FAUCET_CHALLENGE'') []) = ''none''"
    by (auto simp: challenge_from_env_def CHALLENGES_def Let_def split: if_splits)
  then show ?thesis using salt_guard [OF salt] ws by (auto simp: Let_def)
qed

lemma serving_faucet_is_gated_witness:
  "\<exists>env cf. load_config env = Inr cf \<and> cf_challenge cf = ''pow''
     \<and> \<not> contains (to_lower (trim (nullish (env ''RATE_LIMIT_SALT'') []))) ''changeme''"
proof -
  let ?env = "[''NODE_ENV'' \<mapsto> ''production'', ''RATE_LIMIT_SALT'' \<mapsto> ''s3cr3t'']"
  have b: "load_config ?env = load_config (\<lambda>_. None)"
    by (simp add: reader_defs floor_num_def taz_num_def whole_seconds_def whole_count_def num_def
        sender_from_env_def challenge_from_env_def endpoint_list_def tip_endpoint_list_def is_true_def)
  obtain cf where cf: "load_config (\<lambda>_. None) = Inr cf" "cf_challenge cf = ''pow''"
    using bare_env_boots [of "\<lambda>_. None"] by (auto simp: unset_num)
  have "salt_rejection_reason ''s3cr3t'' True ''pow'' = None" by code_simp
  then have "\<exists>ws. assert_serving_config ?env cf = Inr ws"
    using cf(2) by (simp add: assert_serving_config_def Let_def)
  then obtain ws where "assert_serving_config ?env cf = Inr ws" ..
  from serving_faucet_is_gated [OF _ this] b cf show ?thesis
    by (intro exI [of _ ?env] exI [of _ cf]) (simp add: Let_def PLACEHOLDER_MARKERS_def)
qed

end
