(* ===== verification/Status_Route.thy ===== *)
theory Status_Route
  imports Readiness Reserve Ledger_Stats Miner Box Config
begin

text \<open>
  The public status: \<open>GET /api/status\<close> (app/api/status/route.ts), the operator's token (opsToken.ts), the
  uptime reading (uptime.ts) and the reserve loop's report (\<open>ReserveReconciler.status\<close>). The readings the
  route makes are a record of their results; the sentence \<open>minerRow\<close> renders for the operator is kept as the
  reading and the unit's word it renders.
\<close>

section \<open>uptime.ts\<close>

record uptime_reading =
  up_uptimeSeconds :: int
  up_startedAt :: int

text \<open>\<open>startedAt\<close> as epoch milliseconds; a time is cut to whole milliseconds.\<close>

definition uptime_reading_of :: "rat \<Rightarrow> int \<Rightarrow> uptime_reading" where
  "uptime_reading_of processUptimeSeconds nowMs =
     (let seconds = max 0 processUptimeSeconds
      in \<lparr>up_uptimeSeconds = \<lfloor>seconds\<rfloor>, up_startedAt = \<lfloor>of_int nowMs - seconds * 1000\<rfloor>\<rparr>)"

section \<open>ReserveReconciler.status\<close>

text \<open>\<open>Number(zat) / Number(ZATOSHI_PER_TAZ)\<close>.\<close>

definition to_taz :: "int \<Rightarrow> rat" where
  "to_taz zat = double_of (double_of (of_int zat) / 10 ^ 8)"

record reserve_status =
  rvs_targetTaz :: rat
  rvs_lowTaz :: rat
  rvs_refilling :: bool
  rvs_spendableTaz :: "rat option"
  rvs_shieldCoinbase :: bool
  rvs_blindTicks :: int
  rvs_emptySweeps :: int
  rvs_forbiddenTicks :: int
  rvs_shieldRefusals :: int
  rvs_lastRefusal :: "gate option"
  rvs_remainingUTXOs :: "int option"
  rvs_harvesting :: bool
  rvs_stepInFlight :: bool
  rvs_movedWithoutCount :: int
  rvs_harvestAgeSeconds :: "int option"
  rvs_harvestMinUTXOs :: int
  rvs_harvestIntervalSeconds :: int
  rvs_failedSteps :: int
  rvs_lastFailure :: "(failure_kind \<times> string) option"

definition reserve_status_of :: "faucet_config \<Rightarrow> int \<Rightarrow> reconciler \<Rightarrow> reserve_status" where
  "reserve_status_of cf nowMs r =
     \<lparr>rvs_targetTaz = to_taz (cf_targetZatoshi cf), rvs_lowTaz = to_taz (cf_lowZatoshi cf),
      rvs_refilling = (rc_refilling r = Some True), rvs_spendableTaz = map_option to_taz (rc_spendableZat r),
      rvs_shieldCoinbase = cf_shieldCoinbase cf, rvs_blindTicks = rc_blindTicks r,
      rvs_emptySweeps = rc_emptySweeps r, rvs_forbiddenTicks = rc_forbiddenTicks r,
      rvs_shieldRefusals = rc_shieldRefusals r, rvs_lastRefusal = rc_lastRefusal r,
      rvs_remainingUTXOs = rc_remainingUTXOs r, rvs_harvesting = rc_harvesting r,
      rvs_stepInFlight = rc_stepInFlight r, rvs_movedWithoutCount = rc_movedWithoutCount r,
      rvs_harvestAgeSeconds = (case rc_lastHarvestAt r of None \<Rightarrow> None | Some t \<Rightarrow> Some ((nowMs - t) div 1000)),
      rvs_harvestMinUTXOs = cf_harvestMinUTXOs cf, rvs_harvestIntervalSeconds = cf_harvestIntervalSeconds cf,
      rvs_failedSteps = rc_failedSteps r, rvs_lastFailure = rc_lastFailure r\<rparr>"

section \<open>The route\<close>

record ctaz_block =
  cb_sends :: send_health
  cb_readiness :: ctaz_state
  cb_servable :: bool
  cb_height :: "int option"
  cb_roundLag :: "int option"
  cb_finalizers :: "int option"
  cb_ageSeconds :: "int option"
  cb_syncPercent :: "rat option"
  cb_blocks :: "int option"
  cb_tip :: "int option"
  cb_source :: ctaz_source
  cb_dripZat :: int
  cb_drips :: "drip_counts option"
definition ctaz_block_of ::
  "faucet_config \<Rightarrow> ctaz_node_state \<Rightarrow> drip_counts option \<Rightarrow> send_health \<Rightarrow> ctaz_block option" where
  "ctaz_block_of cf node drips sends =
     (if \<not> cf_ctazEnabled cf then None
      else let reading = cn_reading node in Some
        \<lparr>cb_sends = sends, cb_readiness = cz_state reading,
         cb_servable = can_serve_ctaz (cz_state reading)
           (case cn_blocks node of Some b \<Rightarrow> Some b | None \<Rightarrow> cz_height reading) (cn_tip node) (cn_source node),
         cb_height = cz_height reading, cb_roundLag = cz_roundLag reading, cb_finalizers = cz_finalizers reading,
         cb_ageSeconds = cz_ageSeconds reading, cb_syncPercent = cn_syncPercent node, cb_blocks = cn_blocks node,
         cb_tip = cn_tip node, cb_source = cn_source node, cb_dripZat = cf_ctazExpectedZat cf, cb_drips = drips\<rparr>)"

text \<open>
  One request: what its header and the environment hold, and what the readings of the route returned.
  \<open>se_queueDepth\<close> is the sum over both queues.
\<close>

record status_env =
  se_presented :: "string option"
  se_opsToken :: "string option"
  se_buildCommit :: "string option"
  se_uptimeSeconds :: rat
  se_nowMs :: int
  se_boxFile :: "jval option"
  se_minerPath :: string
  se_minerFile :: "jval option"
  se_backend :: backend_status
  se_balance :: "int option"
  se_node :: "node_status option"
  se_queueDepth :: int
  se_sends :: send_health
  se_drips :: "drip_counts option"
  se_reserve :: reconciler
  se_ctazNode :: ctaz_node_state
  se_ctazDrips :: "drip_counts option"
  se_ctazSends :: send_health
  se_donationAddress :: string
  se_miningAddress :: string

datatype box_answer = Box_For_Operator integrity_status public_box_state | Box_For_Public public_box_answer

text \<open>The miner's block: the public view with its ages rounded, and the operator's two fields.\<close>

record miner_answer =
  ma_view :: miner_view
  ma_active :: bool
  ma_detail :: "(miner_reading \<times> string option) option"
  ma_operator :: "miner_operator option"

record status_body =
  sa_buildCommit :: "string option"
  sa_startedAt :: "int option"
  sa_uptimeSeconds :: int
  sa_dripTaz :: rat
  sa_cooldownSeconds :: rat
  sa_sender :: string
  sa_challenge :: string
  sa_balanceTaz :: "rat option"
  sa_empty :: bool
  sa_donationAddress :: string
  sa_miningAddress :: string
  sa_maintenanceAddress :: string
  sa_queueDepth :: int
  sa_sends :: send_health
  sa_drips :: "drip_counts option"
  sa_backend :: backend_status
  sa_box :: box_answer
  sa_node :: "node_status option"
  sa_miner :: miner_answer
  sa_reserve :: reserve_status
  sa_ctaz :: "ctaz_block option"

definition round_age :: "rat option \<Rightarrow> rat option" where
  "round_age n = map_option (\<lambda>x. of_int (half_up x)) n"

definition miner_answer_of :: "bool \<Rightarrow> miner_reading \<Rightarrow> string option \<Rightarrow> miner_answer" where
  "miner_answer_of ops r unit =
     (let v = public_miner_view r in
      \<lparr>ma_view = v\<lparr>mv_beatAgoSeconds := round_age (mv_beatAgoSeconds r),
                   mv_templateAgoSeconds := round_age (mv_templateAgoSeconds r),
                   mv_waitingAgoSeconds := round_age (mv_waitingAgoSeconds r)\<rparr>,
       ma_active = is_active (mv_state r),
       ma_detail = (if ops then Some (r, unit) else None),
       ma_operator = (if ops then Some (mr_operator r) else None)\<rparr>)"

text \<open>\<open>config.dripZatoshi\<close> is only read when there is a balance; a drip out of range throws there.\<close>

definition is_empty :: "faucet_config \<Rightarrow> int option \<Rightarrow> config_error + bool" where
  "is_empty cf balance =
     (case balance of None \<Rightarrow> Inr False
      | Some b \<Rightarrow> and_then (drip_zatoshi cf) (\<lambda>d. Inr (b < d + cf_minReserveZatoshi cf)))"

definition build_commit :: "string option \<Rightarrow> string" where
  "build_commit c = (if truthy c then the c else ''unknown'')"

definition status_route ::
  "(string \<Rightarrow> 8 word list) \<Rightarrow> (string \<Rightarrow> int option) \<Rightarrow> faucet_config \<Rightarrow> status_env \<Rightarrow> config_error + status_body" where
  "status_route utf8 date_parse cf e =
     (let ops = ops_token_matches utf8 (se_presented e) (se_opsToken e);
          box = classify_integrity (read_box_integrity (se_boxFile e)) (of_int (se_nowMs e));
          reading = read_miner_heartbeat date_parse (se_minerPath e) (se_minerFile e) (se_nowMs e);
          balanceTaz = map_option to_taz (se_balance e);
          uptime = uptime_reading_of (se_uptimeSeconds e) (se_nowMs e)
      in and_then (is_empty cf (se_balance e)) (\<lambda>empty.
         Inr \<lparr>sa_buildCommit = (if ops then Some (build_commit (se_buildCommit e)) else None),
              sa_startedAt = (if ops then Some (up_startedAt uptime) else None),
              sa_uptimeSeconds = up_uptimeSeconds uptime, sa_dripTaz = cf_dripTaz cf,
              sa_cooldownSeconds = cf_cooldownSeconds cf, sa_sender = cf_sender cf, sa_challenge = cf_challenge cf,
              sa_balanceTaz = balanceTaz, sa_empty = empty, sa_donationAddress = se_donationAddress e,
              sa_miningAddress = se_miningAddress e, sa_maintenanceAddress = cf_maintenanceAddress cf,
              sa_queueDepth = se_queueDepth e, sa_sends = se_sends e, sa_drips = se_drips e,
              sa_backend = se_backend e,
              sa_box = (if ops then Box_For_Operator box (pb_state (public_box box)) else Box_For_Public (public_box box)),
              sa_node = se_node e, sa_miner = miner_answer_of ops reading (is_minerUnit box),
              sa_reserve = (reserve_status_of cf (se_nowMs e) (se_reserve e))\<lparr>rvs_spendableTaz := balanceTaz\<rparr>,
              sa_ctaz = ctaz_block_of cf (se_ctazNode e) (se_ctazDrips e) (se_ctazSends e)\<rparr>))"

section \<open>Who sees what\<close>

text \<open>Two requests a member of the public cannot tell apart: they differ in the operator's facts only.\<close>

definition same_to_public :: "(string \<Rightarrow> int option) \<Rightarrow> status_env \<Rightarrow> status_env \<Rightarrow> bool" where
  "same_to_public date_parse e e' \<longleftrightarrow>
     (\<exists>token presented commit box minerFile.
        e' = e\<lparr>se_presented := presented, se_opsToken := token, se_buildCommit := commit, se_boxFile := box,
               se_minerFile := minerFile\<rparr>
        \<and> public_box (classify_integrity (read_box_integrity box) (of_int (se_nowMs e)))
            = public_box (classify_integrity (read_box_integrity (se_boxFile e)) (of_int (se_nowMs e)))
        \<and> public_miner_view (read_miner_heartbeat date_parse (se_minerPath e) minerFile (se_nowMs e))
            = public_miner_view (read_miner_heartbeat date_parse (se_minerPath e) (se_minerFile e) (se_nowMs e)))"

lemma public_answer_of_view:
  "public_miner_view r = public_miner_view r' \<Longrightarrow> miner_answer_of False r u = miner_answer_of False r' u'"
  by (simp add: miner_answer_of_def public_miner_view_def miner_view.defs)

text \<open>
  C40: without the token the status says nothing the public word does not say. Take two states of the
  world that agree on the public box verdict and on the public half of the miner's reading but differ as
  they like in the box's named faults, the commit, the token and the operator's half of the heartbeat:
  a caller whose header does not match gets the very same answer in both, with no commit, no start time
  and no operator block in it; a token shorter than sixteen characters, or none, opens it to nobody.
\<close>

theorem public_status_hides_operator_facts:
  assumes "same_to_public date_parse e e'"
    and "\<not> ops_token_matches utf8 (se_presented e) (se_opsToken e)"
    and "\<not> ops_token_matches utf8 (se_presented e') (se_opsToken e')"
  shows "status_route utf8 date_parse cf e = status_route utf8 date_parse cf e'
    \<and> (\<forall>a. status_route utf8 date_parse cf e = Inr a \<longrightarrow> sa_buildCommit a = None \<and> sa_startedAt a = None
         \<and> ma_operator (sa_miner a) = None \<and> ma_detail (sa_miner a) = None)"
proof -
  obtain token presented commit box minerFile
    where e': "e' = e\<lparr>se_presented := presented, se_opsToken := token, se_buildCommit := commit, se_boxFile := box,
               se_minerFile := minerFile\<rparr>"
      and b: "public_box (classify_integrity (read_box_integrity box) (of_int (se_nowMs e)))
            = public_box (classify_integrity (read_box_integrity (se_boxFile e)) (of_int (se_nowMs e)))"
      and m: "public_miner_view (read_miner_heartbeat date_parse (se_minerPath e) minerFile (se_nowMs e))
            = public_miner_view (read_miner_heartbeat date_parse (se_minerPath e) (se_minerFile e) (se_nowMs e))"
    using assms(1) by (auto simp: same_to_public_def)
  have n: "\<not> ops_token_matches utf8 presented token" using assms(3) by (simp add: e')
  show ?thesis using assms(2) n public_answer_of_view [OF m]
    by (auto simp: status_route_def Let_def e' b and_then_Inr miner_answer_of_def)
qed

definition ex_status_env :: status_env where
  "ex_status_env =
     \<lparr>se_presented = None, se_opsToken = Some ''correct-horse-battery'', se_buildCommit = Some ''abc123'',
      se_uptimeSeconds = 12, se_nowMs = 5000, se_boxFile = None, se_minerPath = [], se_minerFile = None,
      se_backend = \<lparr>bk_endpoint = ''e'', bk_reachable = True, bk_tried = []\<rparr>, se_balance = None, se_node = None,
      se_queueDepth = 0, se_sends = classify_sends 900000 [], se_drips = None, se_reserve = new_reconciler,
      se_ctazNode = empty_ctaz_state 5000, se_ctazDrips = None, se_ctazSends = classify_sends 900000 [],
      se_donationAddress = [], se_miningAddress = []\<rparr>"

lemma public_status_hides_operator_facts_witness:
  "status_route (\<lambda>_. []) (\<lambda>_. None) (blank_config stock_timings) ex_status_env =
   status_route (\<lambda>_. []) (\<lambda>_. None) (blank_config stock_timings)
     (ex_status_env\<lparr>se_boxFile := Some (Jv_Object [(''readable'', Jv_Bool False)]), se_buildCommit := Some ''def456''\<rparr>)"
proof -
  let ?e' = "ex_status_env\<lparr>se_boxFile := Some (Jv_Object [(''readable'', Jv_Bool False)]), se_buildCommit := Some ''def456''\<rparr>"
  have b: "public_box (classify_integrity (read_box_integrity (Some (Jv_Object [(''readable'', Jv_Bool False)]))) 5000)
      = public_box (classify_integrity (read_box_integrity None) 5000)"
    by (simp add: read_box_integrity_def classify_integrity_def unknown_box_def classify_drift_def public_box_def Let_def)
  have "same_to_public (\<lambda>_. None) ex_status_env ?e'"
    unfolding same_to_public_def
    by (intro exI [of _ "se_opsToken ex_status_env"] exI [of _ "se_presented ex_status_env"] exI [of _ "Some ''def456''"]
        exI [of _ "Some (Jv_Object [(''readable'', Jv_Bool False)])"] exI [of _ None])
      (simp add: ex_status_env_def b)
  moreover have "\<not> ops_token_matches (\<lambda>_. []) (se_presented ex_status_env) (se_opsToken ex_status_env)"
    "\<not> ops_token_matches (\<lambda>_. []) (se_presented ?e') (se_opsToken ?e')"
    by (simp_all add: ops_token_matches_def ex_status_env_def trim_def)
  ultimately show ?thesis by (rule public_status_hides_operator_facts [THEN conjunct1])
qed

end
