(* ===== verification/Page_Phase.thy ===== *)
theory Page_Phase
  imports Status_Route
begin

text \<open>
  What the claim page makes of the server: the phase of the faucet from a status answer
  (lib/faucetPhase.ts), the word and the dot of its badge (lib/readinessBadge.ts), and the silent retry of
  a refused claim (lib/claimRetry.ts, with the loop of app/page.tsx around the request). A sentence is the
  constructor of what it says.
\<close>

section \<open>faucetPhase.ts\<close>

datatype phase =
  Ph_Checking | Ph_Syncing | Ph_Fault | Ph_Queued | Ph_Empty | Ph_Degraded | Ph_Ready
| Ph_Submitting | Ph_Success | Ph_Cooldown | Ph_Error

definition holding :: "phase \<Rightarrow> bool" where
  "holding p = (p = Ph_Checking \<or> p = Ph_Syncing \<or> p = Ph_Fault)"

text \<open>The part of the answer the phase is read from; a field an older server does not send is \<open>None\<close>.\<close>

record page_node =
  pn_ready :: bool
  pn_frozen :: "bool option"
  pn_behind :: "bool option"
  pn_nodeHeight :: "int option"
  pn_externalHeight :: "int option"
  pn_canBuildTx :: "bool option"
  pn_shield :: "(gate_state \<times> int option) option"

record page_status =
  ps_sender :: string
  ps_balanceTaz :: "rat option"
  ps_empty :: bool
  ps_reachable :: bool
  ps_node :: "page_node option"
  ps_sends :: "send_state option"
  ps_ctaz :: "bool option"

definition node_gap :: "page_status \<Rightarrow> int option" where
  "node_gap s =
     (case ps_node s of None \<Rightarrow> None
      | Some n \<Rightarrow> (case (pn_externalHeight n, pn_nodeHeight n) of
            (Some e, Some h) \<Rightarrow> if e > h then Some (e - h) else None
          | _ \<Rightarrow> None))"

datatype fault_reason =
  Indexer_Unreachable | Wallet_Not_Answering | Blocks_Behind_Network int | Stopped_Following
| Would_Expire "int option" | Not_Verifiable | Balance_Unreadable

definition fault_reason_of :: "page_status \<Rightarrow> fault_reason option" where
  "fault_reason_of s =
     (if \<not> ps_reachable s then Some Indexer_Unreachable
      else if ps_sender s = ''zallet'' \<and> ps_node s = None \<and> ps_balanceTaz s = None then Some Wallet_Not_Answering
      else case ps_node s of None \<Rightarrow> None
      | Some n \<Rightarrow>
          if pn_frozen n = Some True
          then (case node_gap s of
                  Some g \<Rightarrow> if pn_behind n = Some True then Some (Blocks_Behind_Network g) else Some Stopped_Following
                | None \<Rightarrow> Some Stopped_Following)
          else if pn_canBuildTx n = Some False
          then (case pn_shield n of
                  Some (Unsafe, lag) \<Rightarrow> Some (Would_Expire lag)
                | _ \<Rightarrow> Some Not_Verifiable)
          else if pn_ready n \<and> ps_balanceTaz s = None then Some Balance_Unreadable
          else None)"

definition base_phase :: "page_status option \<Rightarrow> network \<Rightarrow> phase" where
  "base_phase page net =
     (case page of None \<Rightarrow> Ph_Checking
      | Some s \<Rightarrow>
          if net = Ctaz then
            (case ps_ctaz s of None \<Rightarrow> Ph_Syncing | Some servable \<Rightarrow> if servable then Ph_Ready else Ph_Syncing)
          else if fault_reason_of s \<noteq> None then Ph_Fault
          else if (case ps_node s of None \<Rightarrow> False | Some n \<Rightarrow> \<not> pn_ready n) then Ph_Syncing
          else case ps_balanceTaz s of None \<Rightarrow> Ph_Syncing
          | Some b \<Rightarrow>
              if b \<le> 0 \<or> ps_empty s then Ph_Empty
              else if ps_sends s = Some Sends_Degraded then Ph_Degraded
              else if ps_sender s = ''zallet'' \<and> ps_node s = None then Ph_Checking
              else Ph_Ready)"

text \<open>The page's reading of this server's own answer.\<close>

definition page_node_of :: "node_status \<Rightarrow> page_node" where
  "page_node_of n =
     \<lparr>pn_ready = ns_ready n, pn_frozen = Some (ns_frozen n), pn_behind = Some (ns_behind n),
      pn_nodeHeight = ns_nodeHeight n, pn_externalHeight = ns_externalHeight n,
      pn_canBuildTx = Some (ns_canBuildTx n), pn_shield = Some (g_state (ns_shield n), g_lag (ns_shield n))\<rparr>"

definition page_status_of :: "status_body \<Rightarrow> page_status" where
  "page_status_of a =
     \<lparr>ps_sender = sa_sender a, ps_balanceTaz = sa_balanceTaz a, ps_empty = sa_empty a,
      ps_reachable = bk_reachable (sa_backend a), ps_node = map_option page_node_of (sa_node a),
      ps_sends = Some (sh_state (sa_sends a)), ps_ctaz = map_option cb_servable (sa_ctaz a)\<rparr>"

section \<open>readinessBadge.ts\<close>

datatype dot = Dot_Empty | Dot_Accent | Dot_Live | Dot_Muted

record shell_badge =
  bd_word :: string
  bd_dot :: dot

definition readiness_badge :: "phase \<Rightarrow> bool \<Rightarrow> bool \<Rightarrow> bool \<Rightarrow> shell_badge" where
  "readiness_badge phase queuedBehindFault refilling live =
     (let faulted = (phase = Ph_Fault \<or> phase = Ph_Queued \<and> queuedBehindFault)
      in \<lparr>bd_word =
            (if phase = Ph_Checking then ''CHECKING''
             else if faulted then ''NOT READY''
             else if phase = Ph_Syncing \<or> phase = Ph_Queued then ''PREPARING''
             else if phase = Ph_Empty then (if refilling then ''TOPPING UP'' else ''EMPTY'')
             else if phase = Ph_Degraded then ''DEGRADED''
             else ''LIVE''),
          bd_dot =
            (if phase = Ph_Empty then (if refilling then Dot_Accent else Dot_Empty)
             else if phase = Ph_Degraded \<or> faulted then Dot_Empty
             else if live then Dot_Live else Dot_Muted)\<rparr>)"

definition CHECKING_BADGE :: shell_badge where
  "CHECKING_BADGE = readiness_badge Ph_Checking False False False"

section \<open>claimRetry.ts\<close>

definition SILENT_RETRY_MAX_SECONDS :: rat where "SILENT_RETRY_MAX_SECONDS = 10"
definition SILENT_RETRY_CAP :: nat where "SILENT_RETRY_CAP = 2"

text \<open>What the page reads of a refusal; \<open>kind\<close> and the wait are \<open>None\<close> when they are not of their type.\<close>

record claim_refusal =
  cl_status :: int
  cl_kind :: "string option"
  cl_retryAfterSeconds :: "rat option"

definition silent_retry_wait_seconds :: "claim_refusal \<Rightarrow> nat \<Rightarrow> rat option" where
  "silent_retry_wait_seconds refusal attemptsSoFar =
     (if cl_status refusal \<noteq> 503 then None
      else if attemptsSoFar \<ge> SILENT_RETRY_CAP then None
      else if (case cl_kind refusal of None \<Rightarrow> False | Some k \<Rightarrow> k \<noteq> []) then None
      else case cl_retryAfterSeconds refusal of None \<Rightarrow> None
      | Some wait \<Rightarrow> if wait \<le> 0 \<or> wait > SILENT_RETRY_MAX_SECONDS then None else Some wait)"

text \<open>
  The loop around the request: \<open>answer n\<close> is the server's answer to the attempt after \<open>n\<close> silent retries;
  the result is the number of retries made and the seconds waited.
\<close>

function silent_retries :: "(nat \<Rightarrow> claim_refusal) \<Rightarrow> nat \<Rightarrow> nat \<times> rat" where
  "silent_retries answer n =
     (case silent_retry_wait_seconds (answer n) n of None \<Rightarrow> (n, 0)
      | Some wait \<Rightarrow> (case silent_retries answer (Suc n) of (m, t) \<Rightarrow> (m, wait + t)))"
  by pat_completeness auto

termination
  by (relation "measure (\<lambda>(answer, n). SILENT_RETRY_CAP - n)")
    (auto simp: silent_retry_wait_seconds_def split: if_splits)

declare silent_retries.simps [simp del]

text \<open>The server's refusal as the page receives it: \<open>apiError\<close>'s status, its hint and its \<open>kind\<close>.\<close>

definition kind_of_gate :: "gate_label \<Rightarrow> string option" where
  "kind_of_gate g =
     (case g of Draining \<Rightarrow> Some ''restarting'' | Send_Health_Gate \<Rightarrow> Some ''sends'' | Busy \<Rightarrow> Some ''busy''
      | Recipient \<Rightarrow> Some ''recipient'' | Daily_Cap \<Rightarrow> Some ''cap'' | Cooldown \<Rightarrow> Some ''cooldown'' | _ \<Rightarrow> None)"

definition refusal_of_response :: "response \<Rightarrow> claim_refusal" where
  "refusal_of_response r =
     (case r of
        Error_Response st g hint \<Rightarrow>
          \<lparr>cl_status = st, cl_kind = kind_of_gate g, cl_retryAfterSeconds = map_option of_int hint\<rparr>
      | Ok_Response rc \<Rightarrow> \<lparr>cl_status = 200, cl_kind = None, cl_retryAfterSeconds = None\<rparr>)"

section \<open>A page that says LIVE\<close>

lemma double_of_pos:
  assumes "1 / 2 ^ 27 \<le> x"
  shows "x / 2 \<le> double_of x" and "double_of x \<le> 2 * x"
proof -
  have pos: "0 < x" using assms by (rule less_le_trans [rotated]) simp
  have "x / 2 ^ 53 \<le> x / 2" using pos by (simp add: field_simps)
  with double_error [OF assms] pos show "x / 2 \<le> double_of x" "double_of x \<le> 2 * x" by linarith+
qed

lemma to_taz_pos: "1 \<le> b \<Longrightarrow> 0 < to_taz b"
proof -
  assume b: "1 \<le> b"
  let ?x = "double_of (of_int b)"
  have i: "(1::rat) \<le> of_int b" using b by simp
  have e: "\<bar>?x - of_int b\<bar> \<le> of_int b / 2 ^ 53" using i by (intro double_error) simp
  have "(of_int b :: rat) / 2 ^ 53 \<le> of_int b / 8" using i by (simp add: field_simps)
  then have "7 / 8 \<le> ?x" using e i by linarith
  then have "1 / 2 ^ 27 \<le> ?x / 10 ^ 8" by simp
  from double_of_pos(1) [OF this] \<open>7 / 8 \<le> ?x\<close> show "0 < to_taz b"
    by (simp add: to_taz_def)
qed

text \<open>The inputs of the readiness ladder, over the readings the status route made.\<close>

definition readings_of :: "status_env \<Rightarrow> ready_readings" where
  "readings_of e = \<lparr>rd_backend = se_backend e, rd_balance = se_balance e, rd_node = se_node e, rd_sends = se_sends e\<rparr>"

lemma page_fields:
  assumes "status_route utf8 dp cf e = Inr a"
  shows "page_status_of a = \<lparr>ps_sender = cf_sender cf, ps_balanceTaz = map_option to_taz (se_balance e),
      ps_empty = sa_empty a, ps_reachable = bk_reachable (se_backend e), ps_node = map_option page_node_of (se_node e),
      ps_sends = Some (sh_state (se_sends e)),
      ps_ctaz = map_option cb_servable (ctaz_block_of cf (se_ctazNode e) (se_ctazDrips e) (se_ctazSends e))\<rparr>"
    and "is_empty cf (se_balance e) = Inr (sa_empty a)"
  using assms by (auto simp: status_route_def page_status_of_def Let_def and_then_Inr)

lemma no_fault_iff:
  "fault_reason_of s = None \<longleftrightarrow> ps_reachable s \<and> \<not> (ps_sender s = ''zallet'' \<and> ps_node s = None \<and> ps_balanceTaz s = None)
     \<and> (\<forall>n. ps_node s = Some n \<longrightarrow> pn_frozen n \<noteq> Some True \<and> pn_canBuildTx n \<noteq> Some False
          \<and> \<not> (pn_ready n \<and> ps_balanceTaz s = None))"
  by (auto simp: fault_reason_of_def split: option.split gate_state.split)

text \<open>
  C32: the page and the readiness route agree but for the ledger. On the main test network, with the
  wallet sender and a positive floor, and from the same readings: \<open>GET /api/ready\<close> answers 200 and the
  wallet's own gate says a transaction may be built, if and only if the claim page is in the phase
  \<open>ready\<close> and the ledger answers. So the page holds back on one thing beyond the route, a chain nobody could
  vouch for, and on one thing less: with a ledger that does not answer the route says 503 while the page
  can still be ready.
\<close>

theorem page_live_iff_ready_and_verified:
  assumes "status_route utf8 dp cf e = Inr a" and "cf_sender cf = ''zallet''" and "rt_sender_is_zallet cfg"
    and "drip_zatoshi cf = Inr (rt_dripZat cfg)" and "cf_minReserveZatoshi cf = rt_minReserveZat cfg"
    and floor: "0 < rt_dripZat cfg + rt_minReserveZat cfg"
    and gate: "\<forall>n. se_node e = Some n \<longrightarrow> ns_canBuildTx n = may_build_transaction (ns_shield n)"
  shows "base_phase (Some (page_status_of a)) Taz = Ph_Ready \<and> \<not> ledger_blocks_serving (fst (cached_ledger_health now c)) \<longleftrightarrow>
    ra_status (fst (ready_route cfg (readings_of e) now c)) = 200 \<and> (\<exists>n. se_node e = Some n \<and> ns_canBuildTx n)"
proof -
  let ?b = "ledger_blocks_serving (fst (cached_ledger_health now c))"
  let ?i = "\<lparr>ri_ledgerBlocks = ?b, ri_backendReachable = bk_reachable (se_backend e), ri_node = se_node e,
     ri_nodeExpected = True, ri_balanceZat = se_balance e, ri_sends = se_sends e,
     ri_floorZat = rt_dripZat cfg + rt_minReserveZat cfg\<rparr>"
  have route: "ra_status (fst (ready_route cfg (readings_of e) now c)) = 200 \<longleftrightarrow> readiness_reason ?i = None"
    using assms(3) by (simp add: ready_route_def readings_of_def Let_def split_beta)
  have empty: "sa_empty a = (case se_balance e of None \<Rightarrow> False | Some b \<Rightarrow> b < rt_dripZat cfg + rt_minReserveZat cfg)"
    using page_fields(2) [OF assms(1)] assms(4,5) by (auto simp: is_empty_def split: option.splits)
  note page = page_fields(1) [OF assms(1)]
  show ?thesis
  proof (cases "se_node e")
    case None
    then show ?thesis unfolding page route
      by (auto simp: base_phase_def fault_reason_of_def assms(2) split: option.splits)
  next
    case (Some n)
    have safe: "ns_canBuildTx n \<Longrightarrow> g_state (ns_shield n) \<noteq> Unsafe"
      using gate Some by (auto simp: may_build_transaction_def)
    have pos: "\<not> b < rt_dripZat cfg + rt_minReserveZat cfg \<Longrightarrow> 0 < to_taz b" for b
      using floor to_taz_pos [of b] by simp
    show ?thesis unfolding page route using Some safe
      by (cases "se_balance e")
        (auto simp: base_phase_def no_fault_iff readiness_reason_def page_node_of_def assms(2) empty
          send_health_blocks_serving_def not_le dest: pos)
  qed
qed

definition ex_faucet :: faucet_config where
  "ex_faucet = (blank_config stock_timings)\<lparr>cf_sender := ''zallet'', cf_dripTaz := of_int 1\<rparr>"

definition ex_page_route :: route_config where
  "ex_page_route = ex_route\<lparr>rt_sender_is_zallet := True, rt_dripZat := 100000000\<rparr>"

lemma page_live_iff_ready_and_verified_witness:
  "\<exists>a. status_route (\<lambda>_. []) (\<lambda>_. None) ex_faucet (ex_status_env\<lparr>se_balance := Some 300000000\<rparr>) = Inr a
     \<and> (base_phase (Some (page_status_of a)) Taz = Ph_Ready \<longleftrightarrow>
          ra_status (fst (ready_route ex_page_route (readings_of (ex_status_env\<lparr>se_balance := Some 300000000\<rparr>)) 5000
            reset_ledger_health_cache)) = 200 \<and> (\<exists>n. se_node ex_status_env = Some n \<and> ns_canBuildTx n))"
proof -
  let ?e = "ex_status_env\<lparr>se_balance := Some 300000000\<rparr>"
  have drip: "drip_zatoshi ex_faucet = Inr 100000000"
    using taz_of_int [of 1] by (simp add: drip_zatoshi_def ex_faucet_def)
  then obtain a where a: "status_route (\<lambda>_. []) (\<lambda>_. None) ex_faucet ?e = Inr a"
    by (simp add: status_route_def is_empty_def ex_status_env_def Let_def)
  have "\<not> ledger_blocks_serving (fst (cached_ledger_health 5000 reset_ledger_health_cache))" by code_simp
  with page_live_iff_ready_and_verified [OF a, of ex_page_route 5000 reset_ledger_health_cache] drip a show ?thesis
    by (intro exI [of _ a]) (simp add: ex_faucet_def ex_page_route_def ex_route_def ex_status_env_def blank_config_def)
qed

section \<open>A silent retry\<close>

lemma retry_wait_Some:
  "silent_retry_wait_seconds r n = Some w \<Longrightarrow> cl_status r = 503 \<and> n < 2 \<and> 0 < w \<and> w \<le> 10 \<and> cl_retryAfterSeconds r = Some w
     \<and> (cl_kind r = None \<or> cl_kind r = Some [])"
  by (auto simp: silent_retry_wait_seconds_def SILENT_RETRY_CAP_def SILENT_RETRY_MAX_SECONDS_def
      split: if_splits option.splits)

lemma silent_retries_bound:
  "n \<le> 2 \<Longrightarrow> n \<le> fst (silent_retries answer n) \<and> fst (silent_retries answer n) \<le> 2
     \<and> 0 \<le> snd (silent_retries answer n) \<and> snd (silent_retries answer n) \<le> 10 * of_nat (fst (silent_retries answer n) - n)"
proof (induction answer n rule: silent_retries.induct)
  case (1 answer n)
  show ?case
  proof (cases "silent_retry_wait_seconds (answer n) n")
    case None
    then show ?thesis using 1(2) by (simp add: silent_retries.simps [of answer n])
  next
    case (Some w)
    note w = retry_wait_Some [OF Some]
    obtain m t where mt: "silent_retries answer (Suc n) = (m, t)" by (rule prod.exhaust)
    have ih: "Suc n \<le> m" "m \<le> 2" "0 \<le> t" "t \<le> 10 * of_nat (m - Suc n)" using 1(1) [OF Some] w mt by auto
    have s: "silent_retries answer n = (m, w + t)" by (simp add: silent_retries.simps [of answer n] Some mt)
    have "(of_nat (m - n) :: rat) = of_nat (m - Suc n) + 1" using ih(1) by (simp add: of_nat_diff)
    then show ?thesis using ih w by (simp add: s)
  qed
qed

lemma conclude_503:
  "fst (conclude_send cfg env cx sender i run st) = Error_Response 503 g r \<Longrightarrow> g = Busy"
  by (auto simp: conclude_send_def conclude_unknown_def Let_def split: send_run.splits send_error.splits)

lemma reserve_503:
  "fst (reserve_and_pay cfg lib env cx st) = Error_Response 503 g r \<Longrightarrow> g = Busy \<or> g = Daily_Cap"
  using conclude_503
  by (fastforce simp: reserve_and_pay_def Let_def split_beta refusal_response_def
      split: reserve_result.splits option.splits if_splits write_fate.splits)

lemma check_request_hint:
  "check_request cfg lib env body st = Inl (Error_Response 503 g (Some h)) \<Longrightarrow> g = Draining \<or> g = Send_Health_Gate"
  by (auto simp: check_request_def split: option.splits sum.splits if_splits)

lemma check_pow_403: "fst (check_pow cfg lib env cx st) = Some (Error_Response s g r) \<Longrightarrow> s = 403"
  by (auto simp: check_pow_def Let_def split_beta split: option.splits if_splits)

lemma burn_proof_403:
  "fst (burn_proof cfg env cx st) = Some (Error_Response s g r) \<Longrightarrow> s = 403 \<or> s = 500 \<and> g = Unhandled"
  by (auto simp: burn_proof_def Let_def split_beta split: option.splits if_splits write_fate.splits)

lemma check_backend_hint:
  assumes "check_backend cfg env cx = Some (Error_Response 503 g (Some h))" and "h \<le> 10"
  shows "g = Freshness_Gate \<and> h = 5 \<and> g_state (ce_freshness env (ce_nodeHeight env)) = Unverifiable
    \<and> g_built (ce_freshness env (ce_nodeHeight env)) = None"
  using assms by (auto simp: check_backend_def Let_def freshness_retry_seconds_def FRESHNESS_RETRY_SECONDS_def split: if_splits)

text \<open>
  the page retries in silence only for the one refusal that heals by itself. If the handler's answer
  to a claim makes the page wait and ask again, that answer is the chain gate's refusal with the
  five-second hint, given because our own node's height could not be read; it changed nothing in the
  ledger, so the proof of work sent again is still unspent. And whatever the server answers, a claim is
  repeated at most twice and at most twenty seconds are waited before the visitor sees the refusal.
\<close>

theorem silent_retry_is_our_own_wobble:
  assumes "handle_claim cfg lib env body st = (resp, st')"
    and "silent_retry_wait_seconds (refusal_of_response resp) n = Some w"
  shows "resp = Error_Response 503 Freshness_Gate (Some 5) \<and> w = 5 \<and> n < 2
      \<and> g_state (ce_freshness env (ce_nodeHeight env)) = Unverifiable
      \<and> g_built (ce_freshness env (ce_nodeHeight env)) = None
      \<and> fs_ledger st' = fs_ledger st
      \<and> fst (silent_retries answer 0) \<le> 2 \<and> snd (silent_retries answer 0) \<le> 20"
proof -
  have bound: "fst (silent_retries answer 0) \<le> 2 \<and> snd (silent_retries answer 0) \<le> 20"
  proof -
    have b: "fst (silent_retries answer 0) \<le> 2" "snd (silent_retries answer 0) \<le> 10 * of_nat (fst (silent_retries answer 0))"
      using silent_retries_bound [of 0 answer] by auto
    have "(of_nat (fst (silent_retries answer 0)) :: rat) \<le> of_nat 2" using b(1) by (simp only: of_nat_le_iff)
    with b show ?thesis by simp
  qed
  note w = retry_wait_Some [OF assms(2)]
  obtain g h where r: "resp = Error_Response 503 g (Some h)" "0 < h" "h \<le> 10" "w = of_int h" "kind_of_gate g = None"
    using w by (cases resp) (auto simp: refusal_of_response_def kind_of_gate_def split: gate_label.splits)
  have claim: "handle_claim cfg lib env body st = (Error_Response 503 g (Some h), st')" using assms(1) r(1) by simp
  obtain cx where cx: "check_request cfg lib env body st = Inr cx"
    using claim check_request_hint r(5) by (fastforce simp: handle_claim_def kind_of_gate_def split: sum.splits)
  have pow: "fst (check_pow cfg lib env cx st) = None"
  proof (cases "fst (check_pow cfg lib env cx st)")
    case (Some x)
    with claim cx have "fst (check_pow cfg lib env cx st) = Some (Error_Response 503 g (Some h))"
      by (simp add: handle_claim_def split_beta split: prod.splits)
    from check_pow_403 [OF this] show ?thesis by simp
  qed
  have "check_backend cfg env cx = Some (Error_Response 503 g (Some h)) \<and> st' = snd (check_pow cfg lib env cx st)"
  proof (cases "check_backend cfg env cx")
    case (Some x)
    with claim cx pow show ?thesis by (simp add: handle_claim_def split_beta split: prod.splits)
  next
    case None
    let ?b = "burn_proof cfg env cx (snd (check_pow cfg lib env cx st))"
    show ?thesis
    proof (cases "fst ?b")
      case (Some x)
      with claim cx pow None have "fst ?b = Some (Error_Response 503 g (Some h))"
        by (simp add: handle_claim_def split_beta split: prod.splits)
      from burn_proof_403 [OF this] show ?thesis by simp
    next
      case no: None
      with claim cx pow None have "reserve_and_pay cfg lib env cx (snd ?b) = (Error_Response 503 g (Some h), st')"
        by (simp add: handle_claim_def split_beta split: prod.splits)
      then have "g = Busy \<or> g = Daily_Cap" by (intro reserve_503 [of cfg lib env cx "snd ?b" g "Some h"]) simp
      with r(5) show ?thesis by (auto simp: kind_of_gate_def)
    qed
  qed
  then show ?thesis using check_backend_hint [OF _ r(3)] r(1,4) bound w by (auto simp: check_pow_frame)
qed

lemma silent_retry_is_our_own_wobble_witness:
  "fs_ledger (snd (handle_claim ex_route ex_libs (ex_claim_env\<lparr>ce_nodeHeight := None\<rparr>)
     (Some ((the ex_body)\<lparr>cb_network := Some ''taz''\<rparr>)) ex_state)) = fs_ledger ex_state"
proof -
  let ?h = "handle_claim ex_route ex_libs (ex_claim_env\<lparr>ce_nodeHeight := None\<rparr>)
     (Some ((the ex_body)\<lparr>cb_network := Some ''taz''\<rparr>)) ex_state"
  have "fst ?h = Error_Response 503 Freshness_Gate (Some 5)" by code_simp
  then have h: "?h = (Error_Response 503 Freshness_Gate (Some 5), snd ?h)" by (simp add: prod_eq_iff)
  have "silent_retry_wait_seconds (refusal_of_response (Error_Response 503 Freshness_Gate (Some 5))) 0 = Some 5"
    by (simp add: silent_retry_wait_seconds_def refusal_of_response_def kind_of_gate_def SILENT_RETRY_CAP_def
        SILENT_RETRY_MAX_SECONDS_def)
  from silent_retry_is_our_own_wobble [OF h this] show ?thesis by simp
qed

text \<open>
  the badge never contradicts itself: the word is LIVE only in the phases in which nothing holds a
  claim back, a holding phase never reads LIVE or EMPTY, red means a fault or an empty reserve that is
  not refilling, and what a page shows before it has looked is CHECKING on a muted dot.
\<close>

theorem badge_matches_phase:
  "(bd_word (readiness_badge p q refilling live) = ''LIVE'' \<longleftrightarrow> p \<in> {Ph_Ready, Ph_Submitting, Ph_Success, Ph_Cooldown, Ph_Error})
   \<and> (bd_dot (readiness_badge p q refilling live) = Dot_Empty \<longleftrightarrow>
        p = Ph_Fault \<or> p = Ph_Degraded \<or> p = Ph_Queued \<and> q \<or> p = Ph_Empty \<and> \<not> refilling)
   \<and> (bd_dot (readiness_badge p q refilling False) \<noteq> Dot_Live)
   \<and> bd_word (readiness_badge (base_phase None net) q refilling live) = ''CHECKING''
   \<and> CHECKING_BADGE = \<lparr>bd_word = ''CHECKING'', bd_dot = Dot_Muted\<rparr>"
  by (cases p) (auto simp: readiness_badge_def Let_def base_phase_def CHECKING_BADGE_def)

end
