(* ===== verification/Feedback.thy ===== *)
theory Feedback
  imports Api Privacy
begin

text \<open>
  The feedback form: the limits of \<open>src/src/lib/feedbackLimits.ts\<close>, the writes of
  \<open>recordFeedback\<close> and \<open>purgeFeedback\<close> (\<open>src/src/lib/db/index.ts\<close>, over the statements and the
  table of \<open>src/src/lib/db/sql.ts\<close>), and the route \<open>POST /api/feedback\<close>
  (\<open>src/src/app/api/feedback/route.ts\<close>). The count and the insert are two driver calls, so a
  request is two steps and other requests may run between them.
\<close>

subsection \<open>Table and limits\<close>

definition MAX_FEEDBACK_BODY :: nat where "MAX_FEEDBACK_BODY = 2000"
definition MAX_FEEDBACK_REPLY_TO :: nat where "MAX_FEEDBACK_REPLY_TO = 200"
definition FEEDBACK_PER_DAY :: int where "FEEDBACK_PER_DAY = 5"
definition FEEDBACK_RETENTION_SECONDS :: int where "FEEDBACK_RETENTION_SECONDS = 30 * 86400"

record feedback_row =
  fb_created_at :: int
  fb_body :: string
  fb_reply_to :: "string option"
  fb_ip_hash :: "string option"
  fb_sent_at :: "int option"
  fb_attempts :: int
  fb_last_error :: "string option"

definition feedback_insert_sql :: "int \<Rightarrow> string \<Rightarrow> string option \<Rightarrow> string \<Rightarrow> feedback_row list \<Rightarrow> feedback_row list" where
  "feedback_insert_sql t body reply key rows =
     rows @ [\<lparr>fb_created_at = t, fb_body = body, fb_reply_to = reply, fb_ip_hash = Some key,
              fb_sent_at = None, fb_attempts = 0, fb_last_error = None\<rparr>]"

definition feedback_recent_sql :: "string \<Rightarrow> int \<Rightarrow> feedback_row list \<Rightarrow> int" where
  "feedback_recent_sql key since rows =
     int (length (filter (\<lambda>r. fb_ip_hash r = Some key \<and> fb_created_at r \<ge> since) rows))"

definition feedback_purge_sql :: "int \<Rightarrow> feedback_row list \<Rightarrow> feedback_row list" where
  "feedback_purge_sql cut' rows = filter (\<lambda>r. \<not> fb_created_at r < cut') rows"

subsection \<open>recordFeedback and purgeFeedback\<close>

record feedback_opts =
  fo_body :: string
  fo_replyTo :: "string option"
  fo_ipHash :: "string option"
  fo_now :: int

datatype feedback_reason = Fb_Empty | Fb_Too_Long | Fb_Rate | Fb_Ledger

datatype feedback_result = Fb_Ok | Fb_Refused feedback_reason

text \<open>\<open>opts.replyTo?.trim() || null\<close>, the key of the allowance, and the clock in seconds.\<close>

definition reply_of :: "feedback_opts \<Rightarrow> string option" where
  "reply_of f = (case fo_replyTo f of None \<Rightarrow> None
     | Some r \<Rightarrow> if trim r = [] then None else Some (trim r))"

definition feedback_key :: "feedback_opts \<Rightarrow> string" where
  "feedback_key f = nullish (fo_ipHash f) ''anon''"

text \<open>Everything before the insert: the validation and the count. \<open>read_ok\<close>: the count answered.\<close>

definition feedback_check :: "bool \<Rightarrow> feedback_opts \<Rightarrow> feedback_row list \<Rightarrow> feedback_reason option" where
  "feedback_check read_ok f rows =
     (let body = trim (fo_body f) in
      if body = [] then Some Fb_Empty
      else if length body > MAX_FEEDBACK_BODY then Some Fb_Too_Long
      else if (case reply_of f of None \<Rightarrow> False | Some r \<Rightarrow> length r > MAX_FEEDBACK_REPLY_TO) then Some Fb_Too_Long
      else if \<not> read_ok then Some Fb_Ledger
      else if feedback_recent_sql (feedback_key f) (fo_now f div 1000 - 86400) rows \<ge> FEEDBACK_PER_DAY
      then Some Fb_Rate
      else None)"

definition feedback_write :: "bool \<Rightarrow> feedback_opts \<Rightarrow> feedback_row list \<Rightarrow> feedback_result \<times> feedback_row list" where
  "feedback_write write_ok f rows =
     (if write_ok
      then (Fb_Ok, feedback_insert_sql (fo_now f div 1000) (trim (fo_body f)) (reply_of f) (feedback_key f) rows)
      else (Fb_Refused Fb_Ledger, rows))"

text \<open>One call with nothing between its two steps.\<close>

definition record_feedback ::
  "bool \<Rightarrow> bool \<Rightarrow> feedback_opts \<Rightarrow> feedback_row list \<Rightarrow> feedback_result \<times> feedback_row list" where
  "record_feedback read_ok write_ok f rows =
     (case feedback_check read_ok f rows of
        Some why \<Rightarrow> (Fb_Refused why, rows)
      | None \<Rightarrow> feedback_write write_ok f rows)"

definition purge_feedback :: "bool \<Rightarrow> int \<Rightarrow> feedback_row list \<Rightarrow> feedback_row list" where
  "purge_feedback ok nowMs rows =
     (if ok then feedback_purge_sql (nowMs div 1000 - FEEDBACK_RETENTION_SECONDS) rows else rows)"

subsection \<open>The route\<close>

text \<open>The body as it was narrowed: not JSON, or the two fields where they are strings.\<close>

datatype feedback_payload = Not_Json | Payload "string option" "string option"

definition feedback_route ::
  "(string \<Rightarrow> string) \<Rightarrow> string \<Rightarrow> nat \<Rightarrow> bool \<Rightarrow> bool \<Rightarrow> int \<Rightarrow> string option \<Rightarrow> feedback_payload
     \<Rightarrow> feedback_row list \<Rightarrow> api_ctx \<Rightarrow> ((string + api_response) \<times> api_ctx) \<times> feedback_row list" where
  "feedback_route fp salt trusted read_ok write_ok nowMs xff payload rows cx =
     (let answer = (\<lambda>(r, cx'). (Inr r, cx')) in
      case payload of
        Not_Json \<Rightarrow> (answer (api_error 400 ''The request body is not JSON.'' ''badBody''
           [(''kind'', J_Text ''bad-request'')] cx), rows)
      | Payload None reply \<Rightarrow> (answer (api_error 400 ''The request needs a body string.'' ''badBody''
           [(''kind'', J_Text ''bad-request'')] cx), rows)
      | Payload (Some body) reply \<Rightarrow>
          (let f = \<lparr>fo_body = body, fo_replyTo = reply,
                    fo_ipHash = map_option (fingerprint_ip fp salt) (client_ip trusted xff), fo_now = nowMs\<rparr>;
               (res, rows') = record_feedback read_ok write_ok f rows
           in ((case res of
                  Fb_Ok \<Rightarrow> (Inr \<lparr>rs_status = 202, rs_body = [(''ok'', J_Bool True), (''kind'', J_Text ''queued'')],
                               rs_headers = []\<rparr>, cx)
                | Fb_Refused Fb_Empty \<Rightarrow> answer (api_error 400 ''The message is empty.'' ''emptyMessage''
                    [(''kind'', J_Text ''empty'')] cx)
                | Fb_Refused Fb_Too_Long \<Rightarrow> answer (api_error 400 ''The message is too long.'' ''tooLong''
                    [(''kind'', J_Text ''too-long''), (''maxBody'', J_Int (int MAX_FEEDBACK_BODY))] cx)
                | Fb_Refused Fb_Rate \<Rightarrow> answer (api_error 429 ''Too many messages today. Try again tomorrow.''
                    ''feedbackRate'' [(''kind'', J_Text ''rate'')] cx)
                | Fb_Refused Fb_Ledger \<Rightarrow>
                    answer (api_error 503 ''We could not store the message right now. Try again shortly.''
                      ''ledger'' [(''kind'', J_Text ''ledger'')]
                      (log_error ''feedback write refused by the ledger'' (Some ''feedback'') cx))),
               rows')))"

subsection \<open>Requests one at a time\<close>

text \<open>Rows of a key created within a day from \<open>lo\<close>.\<close>

definition day_rows :: "string \<Rightarrow> int \<Rightarrow> feedback_row list \<Rightarrow> int" where
  "day_rows key lo rows =
     int (length (filter (\<lambda>r. fb_ip_hash r = Some key \<and> lo \<le> fb_created_at r \<and> fb_created_at r \<le> lo + 86400) rows))"

definition within_allowance :: "feedback_row list \<Rightarrow> bool" where
  "within_allowance rows = (\<forall>key lo. day_rows key lo rows \<le> FEEDBACK_PER_DAY)"

lemma day_rows_recent: "now - 86400 \<le> lo \<Longrightarrow> day_rows key lo rows \<le> feedback_recent_sql key (now - 86400) rows"
  unfolding day_rows_def feedback_recent_sql_def length_filter_sum
  by (rule sum_list_filter_mono) auto

lemma allowance_purge: "within_allowance rows \<Longrightarrow> within_allowance (purge_feedback ok nowMs rows)"
  unfolding within_allowance_def
proof (intro allI)
  fix key lo
  assume all: "\<forall>key lo. day_rows key lo rows \<le> FEEDBACK_PER_DAY"
  have "day_rows key lo (purge_feedback ok nowMs rows) \<le> day_rows key lo rows"
    unfolding day_rows_def purge_feedback_def feedback_purge_sql_def filter_filter length_filter_sum
    by (auto intro: sum_list_filter_mono)
  with all show "day_rows key lo (purge_feedback ok nowMs rows) \<le> FEEDBACK_PER_DAY"
    by (meson order_trans)
qed

lemma allowance_record:
  assumes "within_allowance rows"
  shows "within_allowance (snd (record_feedback read_ok write_ok f rows))"
proof (cases "feedback_check read_ok f rows = None \<and> write_ok")
  case False
  then show ?thesis using assms by (auto simp: record_feedback_def feedback_write_def split: option.split)
next
  case True
  then have few: "feedback_recent_sql (feedback_key f) (fo_now f div 1000 - 86400) rows < FEEDBACK_PER_DAY"
    by (auto simp: feedback_check_def Let_def split: if_splits)
  let ?rows' = "feedback_insert_sql (fo_now f div 1000) (trim (fo_body f)) (reply_of f) (feedback_key f) rows"
  have "day_rows key lo ?rows' \<le> FEEDBACK_PER_DAY" for key lo
  proof (cases "key = feedback_key f \<and> lo \<le> fo_now f div 1000 \<and> fo_now f div 1000 \<le> lo + 86400")
    case True
    then have "day_rows key lo rows < FEEDBACK_PER_DAY"
      using few day_rows_recent [of "fo_now f div 1000" lo key rows] by simp
    then show ?thesis by (auto simp: day_rows_def feedback_insert_sql_def)
  next
    case False
    then have "day_rows key lo ?rows' = day_rows key lo rows"
      by (auto simp: day_rows_def feedback_insert_sql_def)
    then show ?thesis using assms by (simp add: within_allowance_def)
  qed
  with True show ?thesis by (simp add: record_feedback_def feedback_write_def within_allowance_def)
qed

datatype feedback_call = Call_Record bool bool feedback_opts | Call_Purge bool int

fun feedback_serve :: "feedback_call list \<Rightarrow> feedback_row list \<Rightarrow> feedback_row list" where
  "feedback_serve [] rows = rows"
| "feedback_serve (Call_Record r w f # cs) rows = feedback_serve cs (snd (record_feedback r w f rows))"
| "feedback_serve (Call_Purge ok nowMs # cs) rows = feedback_serve cs (purge_feedback ok nowMs rows)"

text \<open>
  messages recorded one after another, with purges anywhere between them and whatever the
  clock does, never leave more than five of one fingerprint in any day-long window; callers
  without a fingerprint share one such allowance.
\<close>

theorem sequential_feedback_keeps_the_allowance: "day_rows key lo (feedback_serve calls []) \<le> FEEDBACK_PER_DAY"
proof -
  have "within_allowance rows \<Longrightarrow> within_allowance (feedback_serve calls rows)" for rows
    by (induction calls rows rule: feedback_serve.induct) (simp_all add: allowance_record allowance_purge)
  moreover have "within_allowance []" by (simp add: within_allowance_def day_rows_def FEEDBACK_PER_DAY_def)
  ultimately show ?thesis by (simp add: within_allowance_def)
qed

subsection \<open>Requests at the same time\<close>

text \<open>A request that passed its check holds its options until it writes.\<close>

datatype feedback_step = Step_Check feedback_opts | Step_Write

fun feedback_run ::
  "feedback_step list \<Rightarrow> feedback_opts list \<times> feedback_row list \<Rightarrow> feedback_opts list \<times> feedback_row list" where
  "feedback_run [] s = s"
| "feedback_run (Step_Check f # ss) (held, rows) =
     feedback_run ss (if feedback_check True f rows = None then held @ [f] else held, rows)"
| "feedback_run (Step_Write # ss) (held, rows) =
     feedback_run ss (case held of [] \<Rightarrow> ([], rows) | f # fs \<Rightarrow> (fs, snd (feedback_write True f rows)))"

lemma feedback_run_append: "feedback_run (xs @ ys) s = feedback_run ys (feedback_run xs s)"
  by (induction xs s rule: feedback_run.induct) simp_all

lemma run_checks:
  "feedback_check True f rows = None \<Longrightarrow>
     feedback_run (replicate n (Step_Check f)) (held, rows) = (held @ replicate n f, rows)"
  by (induction n arbitrary: held) (simp_all add: replicate_append_same)

lemma run_writes:
  "snd (feedback_run (replicate n Step_Write) (replicate n f, rows))
     = rows @ replicate n (last (snd (feedback_write True f [])))"
proof (induction n arbitrary: rows)
  case (Suc n)
  then show ?case by (simp add: feedback_write_def feedback_insert_sql_def replicate_append_same)
qed simp

text \<open>
  the allowance does not hold between concurrent requests: any number of requests of one
  fingerprint whose counts are taken before the first of them writes are all stored.
\<close>

theorem concurrent_feedback_exceeds_the_allowance:
  assumes f: "f = \<lparr>fo_body = ''hi'', fo_replyTo = None, fo_ipHash = Some key, fo_now = 1000 * t\<rparr>"
  shows "day_rows key t (snd (feedback_run (replicate n (Step_Check f) @ replicate n Step_Write) ([], []))) = int n"
proof -
  have trim: "trim ''hi'' = ''hi''" by code_simp
  have "feedback_check True f [] = None"
    by (simp add: feedback_check_def f trim MAX_FEEDBACK_BODY_def reply_of_def feedback_recent_sql_def
        FEEDBACK_PER_DAY_def)
  then show ?thesis
    by (simp add: feedback_run_append run_checks run_writes)
       (simp add: day_rows_def feedback_write_def feedback_insert_sql_def f feedback_key_def filter_replicate)
qed

lemma concurrent_feedback_exceeds_the_allowance_witness:
  "FEEDBACK_PER_DAY < day_rows ''k'' 7 (snd (feedback_run
     (replicate 9 (Step_Check \<lparr>fo_body = ''hi'', fo_replyTo = None, fo_ipHash = Some ''k'', fo_now = 1000 * 7\<rparr>)
       @ replicate 9 Step_Write) ([], [])))"
  unfolding concurrent_feedback_exceeds_the_allowance [OF refl] by (simp add: FEEDBACK_PER_DAY_def)

subsection \<open>What the route says is what it did\<close>

lemma record_feedback_stored:
  assumes "record_feedback r w f rows = (Fb_Ok, rows')"
  shows "trim (fo_body f) \<noteq> []
    \<and> rows' = feedback_insert_sql (fo_now f div 1000) (trim (fo_body f)) (reply_of f) (feedback_key f) rows"
  using assms
  by (auto simp: record_feedback_def feedback_write_def feedback_check_def Let_def split: option.splits if_splits)

lemma record_feedback_refused: "record_feedback r w f rows = (Fb_Refused why, rows') \<Longrightarrow> rows' = rows"
  by (auto simp: record_feedback_def feedback_write_def split: option.splits if_splits)

text \<open>
  the feedback route answers 202 exactly when it stored the visitor's words whole (only the
  white space around them is dropped), and with any other answer the table is untouched and the
  answer carries a gate of the closed set; it never reports a message it shortened or lost.
\<close>

theorem feedback_answer_is_what_happened:
  assumes "feedback_route fp salt trusted read_ok write_ok nowMs xff payload rows cx = ((Inr res, cx'), rows')"
  shows "(rs_status res = 202 \<and> (\<exists>body reply row. payload = Payload (Some body) reply
             \<and> rows' = rows @ [row] \<and> fb_body row = trim body \<and> trim body \<noteq> []
             \<and> fb_reply_to row = (case reply of None \<Rightarrow> None | Some r \<Rightarrow> if trim r = [] then None else Some (trim r))
             \<and> fb_sent_at row = None \<and> fb_created_at row = nowMs div 1000))
    \<or> (400 \<le> rs_status res \<and> rows' = rows \<and> (\<exists>g. ac_gate cx' = Some g \<and> is_gate g))"
proof (cases payload)
  case Not_Json
  with assms show ?thesis
    by (auto simp: feedback_route_def api_error_def set_gate_def is_gate_def GATES_def)
next
  case (Payload body reply)
  show ?thesis
  proof (cases body)
    case None
    with Payload assms show ?thesis
      by (auto simp: feedback_route_def api_error_def set_gate_def is_gate_def GATES_def)
  next
    case (Some b)
    let ?f = "\<lparr>fo_body = b, fo_replyTo = reply,
      fo_ipHash = map_option (fingerprint_ip fp salt) (client_ip trusted xff), fo_now = nowMs\<rparr>"
    obtain out rows1 where out: "record_feedback read_ok write_ok ?f rows = (out, rows1)" by (rule prod.exhaust)
    show ?thesis
    proof (cases out)
      case Fb_Ok
      then show ?thesis
        using record_feedback_stored [OF out [unfolded Fb_Ok]] assms Payload Some out
        by (auto simp: feedback_route_def feedback_insert_sql_def reply_of_def)
    next
      case (Fb_Refused why)
      then have "rows1 = rows" using record_feedback_refused out by blast
      then show ?thesis
        using assms Payload Some out Fb_Refused
        by (cases why) (auto simp: feedback_route_def api_error_def set_gate_def is_gate_def GATES_def)
    qed
  qed
qed

lemma feedback_answer_is_what_happened_witness:
  "\<exists>res cx' rows'. feedback_route rev ''s'' 0 True True 5000 None (Payload (Some '' hello '') None) []
       \<lparr>ac_request_id = ''r'', ac_route = ''feedback'', ac_gate = None, ac_lines = []\<rparr> = ((Inr res, cx'), rows')
     \<and> rs_status res = 202 \<and> map fb_body rows' = [''hello'']"
proof -
  let ?cx = "\<lparr>ac_request_id = ''r'', ac_route = ''feedback'', ac_gate = None, ac_lines = []\<rparr>"
  let ?r = "feedback_route rev ''s'' 0 True True 5000 None (Payload (Some '' hello '') None) [] ?cx"
  have t: "trim '' hello '' = ''hello''" by code_simp
  obtain res cx' rows' where r: "?r = ((Inr res, cx'), rows')" and st: "rs_status res = 202"
    by (simp add: feedback_route_def record_feedback_def feedback_check_def t MAX_FEEDBACK_BODY_def reply_of_def
        feedback_recent_sql_def FEEDBACK_PER_DAY_def feedback_write_def Let_def)
  show ?thesis
    using feedback_answer_is_what_happened [OF r] r st t by auto
qed

end
