(* ===== verification/Migrations.thy ===== *)
theory Migrations
  imports Prelude
begin

text \<open>
  Opening the ledger file: \<open>SCHEMA\<close>, \<open>MIGRATIONS\<close> and \<open>INDEXES\<close> of
  \<open>src/src/lib/db/sql.ts\<close>, run in that order by the constructor of \<open>SqliteDriver\<close>
  (\<open>src/src/lib/db/driver.ts\<close>).

  A database is its tables (columns, primary key, rows of values) and its named indexes. The
  statements are the ones the three texts use; each is atomic and commits on its own, as
  SQLite's \<open>exec\<close> of a text without a transaction does, and fails where SQLite fails. The
  hidden sequence of \<open>AUTOINCREMENT\<close> is not modelled.
\<close>

subsection \<open>Databases and statements\<close>

datatype sql_value = V_Null | V_Int int | V_Text string

record column =
  co_name :: string
  co_type :: string
  co_notnull :: bool
  co_default :: sql_value

record sql_table =
  tb_columns :: "column list"
  tb_key :: "string list"
  tb_rows :: "sql_value list list"

record database =
  db_tables :: "string \<Rightarrow> sql_table option"
  db_indexes :: "string \<Rightarrow> (string \<times> string list) option"

datatype sql_error =
  Table_Exists string | No_Such_Table string | Duplicate_Column string | No_Such_Column string
| Not_Null_Needs_Default string | Not_Null_Failed string | Unique_Failed string

datatype select_item = Literal sql_value | Selected string

datatype statement =
  Create_Table bool string "column list" "string list"
| Add_Column string column
| Insert_Select string "string list" "select_item list" string
| Drop_Table string
| Rename_Table string string
| Create_Index string string "string list"
| Drop_Index string

definition column_names :: "sql_table \<Rightarrow> string list" where
  "column_names t = map co_name (tb_columns t)"

definition cell :: "sql_table \<Rightarrow> string \<Rightarrow> sql_value list \<Rightarrow> sql_value" where
  "cell t c row = nullish (map_of (zip (column_names t) row) c) V_Null"

fun select_value :: "sql_table \<Rightarrow> sql_value list \<Rightarrow> select_item \<Rightarrow> sql_value" where
  "select_value t row (Literal v) = v"
| "select_value t row (Selected c) = cell t c row"

fun selects :: "sql_table \<Rightarrow> select_item \<Rightarrow> bool" where
  "selects t (Literal v) = True"
| "selects t (Selected c) = (c \<in> set (column_names t))"

text \<open>The row inserted for one row of the source: the listed columns take the selected
  values, the others their defaults.\<close>

definition inserted_row :: "sql_table \<Rightarrow> string list \<Rightarrow> sql_value list \<Rightarrow> sql_value list" where
  "inserted_row t cols vals =
     map (\<lambda>c. nullish (map_of (zip cols vals) (co_name c)) (co_default c)) (tb_columns t)"

definition row_key :: "sql_table \<Rightarrow> sql_value list \<Rightarrow> sql_value list" where
  "row_key t row = map (\<lambda>c. cell t c row) (tb_key t)"

definition null_refused :: "sql_table \<Rightarrow> sql_value list list \<Rightarrow> bool" where
  "null_refused t rows =
     list_ex (\<lambda>row. list_ex (\<lambda>(c, v). co_notnull c \<and> v = V_Null) (zip (tb_columns t) row)) rows"

fun run_statement :: "statement \<Rightarrow> database \<Rightarrow> sql_error + database" where
  "run_statement (Create_Table if_not_exists t cols key) d =
     (if db_tables d t \<noteq> None then (if if_not_exists then Inr d else Inl (Table_Exists t))
      else Inr (d\<lparr>db_tables := (db_tables d)(t := Some \<lparr>tb_columns = cols, tb_key = key, tb_rows = []\<rparr>)\<rparr>))"
| "run_statement (Add_Column t c) d =
     (case db_tables d t of None \<Rightarrow> Inl (No_Such_Table t)
      | Some tb \<Rightarrow>
          if co_name c \<in> set (column_names tb) then Inl (Duplicate_Column (co_name c))
          else if co_notnull c \<and> co_default c = V_Null then Inl (Not_Null_Needs_Default (co_name c))
          else Inr (d\<lparr>db_tables := (db_tables d)(t := Some (tb\<lparr>tb_columns := tb_columns tb @ [c],
                 tb_rows := map (\<lambda>row. row @ [co_default c]) (tb_rows tb)\<rparr>))\<rparr>))"
| "run_statement (Insert_Select t cols items src) d =
     (case (db_tables d t, db_tables d src) of
        (None, _) \<Rightarrow> Inl (No_Such_Table t)
      | (_, None) \<Rightarrow> Inl (No_Such_Table src)
      | (Some tb, Some sb) \<Rightarrow>
          if \<not> list_all (selects sb) items then Inl (No_Such_Column src)
          else if \<not> list_all (\<lambda>c. c \<in> set (column_names tb)) cols then Inl (No_Such_Column t)
          else (let new = map (\<lambda>row. inserted_row tb cols (map (select_value sb row) items)) (tb_rows sb)
                in if null_refused tb new then Inl (Not_Null_Failed t)
                   else if \<not> distinct (map (row_key tb) (tb_rows tb @ new)) then Inl (Unique_Failed t)
                   else Inr (d\<lparr>db_tables := (db_tables d)(t := Some (tb\<lparr>tb_rows := tb_rows tb @ new\<rparr>))\<rparr>)))"
| "run_statement (Drop_Table t) d =
     (case db_tables d t of None \<Rightarrow> Inl (No_Such_Table t)
      | Some tb \<Rightarrow> Inr \<lparr>db_tables = (db_tables d)(t := None),
          db_indexes = (\<lambda>i. case db_indexes d i of None \<Rightarrow> None
                          | Some (t', cols) \<Rightarrow> if t' = t then None else Some (t', cols))\<rparr>)"
| "run_statement (Rename_Table t u) d =
     (case db_tables d t of None \<Rightarrow> Inl (No_Such_Table t)
      | Some tb \<Rightarrow>
          if db_tables d u \<noteq> None then Inl (Table_Exists u)
          else Inr \<lparr>db_tables = (db_tables d)(t := None, u := Some tb),
             db_indexes = (\<lambda>i. case db_indexes d i of None \<Rightarrow> None
                             | Some (t', cols) \<Rightarrow> Some (if t' = t then u else t', cols))\<rparr>)"
| "run_statement (Create_Index i t cols) d =
     (if db_indexes d i \<noteq> None then Inr d
      else case db_tables d t of None \<Rightarrow> Inl (No_Such_Table t)
         | Some tb \<Rightarrow>
             if \<not> list_all (\<lambda>c. c \<in> set (column_names tb)) cols then Inl (No_Such_Column t)
             else Inr (d\<lparr>db_indexes := (db_indexes d)(i := Some (t, cols))\<rparr>))"
| "run_statement (Drop_Index i) d = Inr (d\<lparr>db_indexes := (db_indexes d)(i := None)\<rparr>)"

fun exec :: "statement list \<Rightarrow> database \<Rightarrow> sql_error + database" where
  "exec [] d = Inr d"
| "exec (s # ss) d = (case run_statement s d of Inl e \<Rightarrow> Inl e | Inr d' \<Rightarrow> exec ss d')"

lemma exec_append:
  "exec (ss @ ts) d = (case exec ss d of Inl e \<Rightarrow> Inl e | Inr d' \<Rightarrow> exec ts d')"
  by (induction ss arbitrary: d) (auto split: sum.split)

subsection \<open>The three texts\<close>

definition col :: "string \<Rightarrow> string \<Rightarrow> bool \<Rightarrow> sql_value \<Rightarrow> column" where
  "col n t nn dflt = \<lparr>co_name = n, co_type = t, co_notnull = nn, co_default = dflt\<rparr>"

definition subnet_column :: column where
  "subnet_column = col ''subnet_hash'' ''TEXT'' False V_Null"

definition network_column :: column where
  "network_column = col ''network'' ''TEXT'' True (V_Text ''taz'')"

definition claims_base :: "column list" where
  "claims_base =
     [col ''id'' ''INTEGER'' False V_Null, col ''address_hash'' ''TEXT'' True V_Null,
      col ''ip_hash'' ''TEXT'' True V_Null, col ''amount_zat'' ''INTEGER'' True V_Null,
      col ''txid'' ''TEXT'' False V_Null, col ''status'' ''TEXT'' True (V_Text ''pending''),
      col ''created_at'' ''INTEGER'' True V_Null]"

definition claims_columns :: "column list" where
  "claims_columns = claims_base @ [subnet_column, network_column]"

definition used_columns :: "column list" where
  "used_columns = [col ''sig'' ''TEXT'' False V_Null, col ''exp'' ''INTEGER'' True V_Null]"

definition day_columns :: "column list" where
  "day_columns = [col ''day'' ''TEXT'' True V_Null, col ''sent'' ''INTEGER'' True (V_Int 0)]"

definition drip_columns :: "column list" where
  "drip_columns = col ''network'' ''TEXT'' True V_Null # day_columns"

definition feedback_columns :: "column list" where
  "feedback_columns =
     [col ''id'' ''INTEGER'' False V_Null, col ''created_at'' ''INTEGER'' True V_Null,
      col ''body'' ''TEXT'' True V_Null, col ''reply_to'' ''TEXT'' False V_Null,
      col ''ip_hash'' ''TEXT'' False V_Null, col ''sent_at'' ''INTEGER'' False V_Null,
      col ''attempts'' ''INTEGER'' True (V_Int 0), col ''last_error'' ''TEXT'' False V_Null]"

definition SCHEMA :: "statement list" where
  "SCHEMA =
     [Create_Table True ''claims'' claims_columns [''id''],
      Create_Table True ''used_challenges'' used_columns [''sig''],
      Create_Table True ''drip_days'' drip_columns [''network'', ''day''],
      Create_Table True ''feedback'' feedback_columns [''id'']]"

definition INDEXES :: "statement list" where
  "INDEXES =
     [Drop_Index ''idx_claims_addrhash'',
      Create_Index ''idx_claims_addr_net'' ''claims'' [''address_hash'', ''network'', ''created_at''],
      Create_Index ''idx_claims_iphash'' ''claims'' [''ip_hash'', ''created_at''],
      Create_Index ''idx_claims_created'' ''claims'' [''created_at''],
      Create_Index ''idx_used_exp'' ''used_challenges'' [''exp''],
      Create_Index ''idx_feedback_undelivered'' ''feedback'' [''sent_at'', ''created_at'']]"

record migration =
  mg_id :: string
  mg_table :: string
  mg_column :: string
  mg_sql :: "statement list"

definition rebuild_drip_days :: "statement list" where
  "rebuild_drip_days =
     [Create_Table False ''drip_days_rebuild'' drip_columns [''network'', ''day''],
      Insert_Select ''drip_days_rebuild'' [''network'', ''day'', ''sent'']
        [Literal (V_Text ''taz''), Selected ''day'', Selected ''sent''] ''drip_days'',
      Drop_Table ''drip_days'',
      Rename_Table ''drip_days_rebuild'' ''drip_days'']"

definition MIGRATIONS :: "migration list" where
  "MIGRATIONS =
     [\<lparr>mg_id = ''claims.subnet_hash'', mg_table = ''claims'', mg_column = ''subnet_hash'',
       mg_sql = [Add_Column ''claims'' subnet_column]\<rparr>,
      \<lparr>mg_id = ''claims.network'', mg_table = ''claims'', mg_column = ''network'',
       mg_sql = [Add_Column ''claims'' network_column]\<rparr>,
      \<lparr>mg_id = ''drip_days.network'', mg_table = ''drip_days'', mg_column = ''network'',
       mg_sql = rebuild_drip_days\<rparr>]"

subsection \<open>Opening the file\<close>

text \<open>\<open>PRAGMA table\_info\<close>: no columns for a table that is not there.\<close>

definition table_columns :: "string \<Rightarrow> database \<Rightarrow> string list" where
  "table_columns t d = (case db_tables d t of None \<Rightarrow> [] | Some tb \<Rightarrow> column_names tb)"

fun migrate :: "migration list \<Rightarrow> database \<Rightarrow> sql_error + database" where
  "migrate [] d = Inr d"
| "migrate (m # ms) d =
     (if mg_column m \<in> set (table_columns (mg_table m) d) then migrate ms d
      else case exec (mg_sql m) d of Inl e \<Rightarrow> Inl e | Inr d' \<Rightarrow> migrate ms d')"

definition open_ledger :: "database \<Rightarrow> sql_error + database" where
  "open_ledger d =
     (case exec SCHEMA d of Inl e \<Rightarrow> Inl e
      | Inr d1 \<Rightarrow> (case migrate MIGRATIONS d1 of Inl e \<Rightarrow> Inl e | Inr d2 \<Rightarrow> exec INDEXES d2))"

definition no_database :: database where
  "no_database = \<lparr>db_tables = (\<lambda>_. None), db_indexes = (\<lambda>_. None)\<rparr>"

definition shape :: "database \<Rightarrow> string \<Rightarrow> (column list \<times> string list) option" where
  "shape d t = map_option (\<lambda>tb. (tb_columns tb, tb_key tb)) (db_tables d t)"

definition rows_of :: "database \<Rightarrow> string \<Rightarrow> sql_value list list" where
  "rows_of d t = (case db_tables d t of None \<Rightarrow> [] | Some tb \<Rightarrow> tb_rows tb)"

subsection \<open>Files written by earlier versions\<close>

text \<open>
  What an existing file may hold: \<open>claims\<close> with none, one or both of its later columns;
  \<open>drip_days\<close> absent, keyed by day, or keyed by network and day; the other two tables absent or
  present; any of the known indexes.
\<close>

datatype drip_history =
  No_Drips | By_Day "(string \<times> int) list" | By_Network "((string \<times> string) \<times> int) list"

definition claims_table :: "nat \<Rightarrow> sql_value list list \<Rightarrow> sql_table" where
  "claims_table k rows =
     \<lparr>tb_columns = claims_base @ take k [subnet_column, network_column], tb_key = [''id''], tb_rows = rows\<rparr>"

definition day_row :: "string \<times> int \<Rightarrow> sql_value list" where
  "day_row r = [V_Text (fst r), V_Int (snd r)]"

definition drip_row :: "(string \<times> string) \<times> int \<Rightarrow> sql_value list" where
  "drip_row r = [V_Text (fst (fst r)), V_Text (snd (fst r)), V_Int (snd r)]"

fun drip_days_table :: "drip_history \<Rightarrow> sql_table option" where
  "drip_days_table No_Drips = None"
| "drip_days_table (By_Day ds) =
     Some \<lparr>tb_columns = day_columns, tb_key = [''day''], tb_rows = map day_row ds\<rparr>"
| "drip_days_table (By_Network ds) =
     Some \<lparr>tb_columns = drip_columns, tb_key = [''network'', ''day''], tb_rows = map drip_row ds\<rparr>"

definition written_tables ::
  "nat \<Rightarrow> sql_value list list \<Rightarrow> drip_history \<Rightarrow> sql_value list list option
     \<Rightarrow> sql_value list list option \<Rightarrow> string \<Rightarrow> sql_table option" where
  "written_tables k rows h used fb t =
     (if t = ''claims'' then Some (claims_table k rows)
      else if t = ''drip_days'' then drip_days_table h
      else if t = ''used_challenges''
        then map_option (\<lambda>r. \<lparr>tb_columns = used_columns, tb_key = [''sig''], tb_rows = r\<rparr>) used
      else if t = ''feedback''
        then map_option (\<lambda>r. \<lparr>tb_columns = feedback_columns, tb_key = [''id''], tb_rows = r\<rparr>) fb
      else None)"

definition current_indexes :: "string \<Rightarrow> (string \<times> string list) option" where
  "current_indexes i =
     (if i = ''idx_claims_addr_net'' then Some (''claims'', [''address_hash'', ''network'', ''created_at''])
      else if i = ''idx_claims_iphash'' then Some (''claims'', [''ip_hash'', ''created_at''])
      else if i = ''idx_claims_created'' then Some (''claims'', [''created_at''])
      else if i = ''idx_used_exp'' then Some (''used_challenges'', [''exp''])
      else if i = ''idx_feedback_undelivered'' then Some (''feedback'', [''sent_at'', ''created_at''])
      else None)"

definition known_indexes :: "(string \<Rightarrow> (string \<times> string list) option) \<Rightarrow> bool" where
  "known_indexes ix =
     (\<forall>i. if i = ''idx_claims_addrhash'' then ix i = None \<or> ix i = Some (''claims'', [''address_hash'', ''created_at''])
          else ix i = None \<or> ix i = current_indexes i)"

fun opened_history :: "drip_history \<Rightarrow> drip_history" where
  "opened_history No_Drips = By_Network []"
| "opened_history (By_Day ds) = By_Network (map (\<lambda>(d, n). ((''taz'', d), n)) ds)"
| "opened_history (By_Network ds) = By_Network ds"

lemmas text_defs =
  col_def subnet_column_def network_column_def claims_base_def claims_columns_def used_columns_def
  day_columns_def drip_columns_def feedback_columns_def

lemma schema_run:
  "exec SCHEMA \<lparr>db_tables = written_tables k rows h used fb, db_indexes = ix\<rparr>
     = Inr \<lparr>db_tables = written_tables k rows (if h = No_Drips then By_Network [] else h)
              (Some (nullish used [])) (Some (nullish fb [])), db_indexes = ix\<rparr>"
  by (cases h; cases used; cases fb)
     (auto simp: SCHEMA_def written_tables_def fun_eq_iff)

lemma claims_run:
  assumes "k \<le> 2"
  shows "migrate MIGRATIONS \<lparr>db_tables = written_tables k rows h used fb, db_indexes = ix\<rparr>
     = migrate [last MIGRATIONS] \<lparr>db_tables = written_tables 2
           (map (\<lambda>r. r @ drop k [V_Null, V_Text ''taz'']) rows) h used fb, db_indexes = ix\<rparr>"
proof -
  have k: "k = 0 \<or> k = 1 \<or> k = 2" using assms by auto
  have c: "written_tables j r h used fb ''claims'' = Some (claims_table j r)" for j r
    by (simp add: written_tables_def)
  have add: "run_statement (Add_Column ''claims'' subnet_column)
        \<lparr>db_tables = written_tables 0 r h used fb, db_indexes = ix\<rparr>
      = Inr \<lparr>db_tables = written_tables 1 (map (\<lambda>r. r @ [V_Null]) r) h used fb, db_indexes = ix\<rparr>"
    "run_statement (Add_Column ''claims'' network_column)
        \<lparr>db_tables = written_tables 1 r h used fb, db_indexes = ix\<rparr>
      = Inr \<lparr>db_tables = written_tables 2 (map (\<lambda>r. r @ [V_Text ''taz'']) r) h used fb, db_indexes = ix\<rparr>" for r
    by (auto simp: c claims_table_def column_names_def text_defs written_tables_def fun_eq_iff numeral_2_eq_2)
  have has: "''subnet_hash'' \<in> set (table_columns ''claims'' \<lparr>db_tables = written_tables j r h used fb, db_indexes = ix\<rparr>)
        \<longleftrightarrow> 1 \<le> j"
    "''network'' \<in> set (table_columns ''claims'' \<lparr>db_tables = written_tables j r h used fb, db_indexes = ix\<rparr>)
        \<longleftrightarrow> 2 \<le> j" if "j \<in> {0, 1, 2}" for j r
    using that by (auto simp: table_columns_def c claims_table_def column_names_def text_defs)
  show ?thesis
    using k
    by (elim disjE) (simp_all add: MIGRATIONS_def has add [unfolded One_nat_def] comp_def del: run_statement.simps)
qed

lemma select_day_rows:
  "map (\<lambda>row. inserted_row \<lparr>tb_columns = drip_columns, tb_key = [''network'', ''day''], tb_rows = []\<rparr>
       [''network'', ''day'', ''sent'']
       (map (select_value \<lparr>tb_columns = day_columns, tb_key = [''day''], tb_rows = rows\<rparr> row)
         [Literal (V_Text ''taz''), Selected ''day'', Selected ''sent'']))
     (map day_row ds)
   = map drip_row (map (\<lambda>(d, n). ((''taz'', d), n)) ds)"
  by (induction ds) (auto simp: inserted_row_def cell_def column_names_def text_defs day_row_def drip_row_def)

lemma drip_rows_ok:
  assumes "distinct (map fst ds)"
  shows "\<not> null_refused \<lparr>tb_columns = drip_columns, tb_key = [''network'', ''day''], tb_rows = []\<rparr> (map drip_row ds)"
    and "distinct (map (row_key \<lparr>tb_columns = drip_columns, tb_key = [''network'', ''day''], tb_rows = []\<rparr>) (map drip_row ds))"
proof -
  show "\<not> null_refused \<lparr>tb_columns = drip_columns, tb_key = [''network'', ''day''], tb_rows = []\<rparr> (map drip_row ds)"
    by (induction ds) (auto simp: null_refused_def text_defs drip_row_def)
  have "map (row_key \<lparr>tb_columns = drip_columns, tb_key = [''network'', ''day''], tb_rows = []\<rparr>) (map drip_row ds)
      = map (\<lambda>k. [V_Text (fst k), V_Text (snd k)]) (map fst ds)"
    by (simp add: row_key_def cell_def column_names_def text_defs drip_row_def)
  moreover have "inj_on (\<lambda>k. [V_Text (fst k), V_Text (snd k)]) (set (map fst ds))"
    by (auto intro!: inj_onI)
  ultimately show "distinct (map (row_key \<lparr>tb_columns = drip_columns, tb_key = [''network'', ''day''], tb_rows = []\<rparr>) (map drip_row ds))"
    using assms by (simp only: distinct_map [of _ "map fst ds"])
qed

lemma retagged_distinct:
  "distinct (map fst ds) \<Longrightarrow> distinct (map fst (map (\<lambda>(d, n). ((''taz'', d), n)) ds))"
  by (induction ds) (auto simp: image_iff)

lemma known_index_table:
  assumes "known_indexes ix" and "ix i = Some (t, cols)"
  shows "t = ''claims'' \<or> t = ''used_challenges'' \<or> t = ''feedback''"
  using assms(1) [unfolded known_indexes_def, THEN spec, of i] assms(2)
  by (auto simp: current_indexes_def split: if_splits)

lemma no_drip_indexes:
  assumes "known_indexes ix"
  shows "ix i \<noteq> Some (''drip_days'', cols)" and "ix i \<noteq> Some (''drip_days_rebuild'', cols)"
  using known_index_table [OF assms, of i _ cols] by auto

text \<open>The four statements of the rebuild, over any tables they apply to.\<close>

abbreviation building :: "sql_value list list \<Rightarrow> sql_table" where
  "building rows \<equiv> \<lparr>tb_columns = drip_columns, tb_key = [''network'', ''day''], tb_rows = rows\<rparr>"

abbreviation retagged :: "(string \<times> int) list \<Rightarrow> sql_value list list" where
  "retagged ds \<equiv> map drip_row (map (\<lambda>(d, n). ((''taz'', d), n)) ds)"

lemma create_step:
  assumes "T ''drip_days_rebuild'' = None"
  shows "run_statement (rebuild_drip_days ! 0) \<lparr>db_tables = T, db_indexes = ix\<rparr>
     = Inr \<lparr>db_tables = T(''drip_days_rebuild'' := Some (building [])), db_indexes = ix\<rparr>"
  using assms by (simp add: rebuild_drip_days_def)

lemma insert_step:
  assumes "distinct (map fst ds)" and "T ''drip_days'' = drip_days_table (By_Day ds)"
  shows "run_statement (rebuild_drip_days ! 1)
       \<lparr>db_tables = T(''drip_days_rebuild'' := Some (building [])), db_indexes = ix\<rparr>
     = Inr \<lparr>db_tables = T(''drip_days_rebuild'' := Some (building (retagged ds))), db_indexes = ix\<rparr>"
proof -
  have ok: "list_all (selects \<lparr>tb_columns = day_columns, tb_key = [''day''], tb_rows = map day_row ds\<rparr>)
      [Literal (V_Text ''taz''), Selected ''day'', Selected ''sent'']"
    "list_all (\<lambda>c. c \<in> set (column_names (building []))) [''network'', ''day'', ''sent'']"
    by (simp_all add: column_names_def text_defs)
  show ?thesis
    using drip_rows_ok [OF retagged_distinct [OF assms(1)]] ok assms(2)
    by (simp add: rebuild_drip_days_def select_day_rows Let_def del: list.map map_map)
qed

lemma drop_step:
  assumes "known_indexes ix" and "T ''drip_days'' \<noteq> None"
  shows "run_statement (rebuild_drip_days ! 2) \<lparr>db_tables = T, db_indexes = ix\<rparr>
     = Inr \<lparr>db_tables = T(''drip_days'' := None), db_indexes = ix\<rparr>"
  using assms(2)
  by (auto simp: rebuild_drip_days_def numeral_2_eq_2 fun_eq_iff no_drip_indexes [OF assms(1)] split: option.split)

lemma rename_step:
  assumes "known_indexes ix" and "T ''drip_days'' = None" and "T ''drip_days_rebuild'' = Some tb"
  shows "run_statement (rebuild_drip_days ! 3) \<lparr>db_tables = T, db_indexes = ix\<rparr>
     = Inr \<lparr>db_tables = T(''drip_days_rebuild'' := None, ''drip_days'' := Some tb), db_indexes = ix\<rparr>"
  using assms(2,3)
  by (auto simp: rebuild_drip_days_def numeral_3_eq_3 fun_eq_iff no_drip_indexes [OF assms(1)] split: option.split)

lemma rebuild_statements:
  "rebuild_drip_days = [rebuild_drip_days ! 0, rebuild_drip_days ! 1, rebuild_drip_days ! 2, rebuild_drip_days ! 3]"
  by (simp add: rebuild_drip_days_def numeral_3_eq_3)

text \<open>What each number of them leaves of an old file.\<close>

lemma rebuild_steps:
  assumes "distinct (map fst ds)" and "known_indexes ix"
    and T: "T = written_tables k rows (By_Day ds) used fb"
  shows "exec (take 1 rebuild_drip_days) \<lparr>db_tables = T, db_indexes = ix\<rparr>
      = Inr \<lparr>db_tables = T(''drip_days_rebuild'' := Some (building [])), db_indexes = ix\<rparr>"
    and "exec (take 2 rebuild_drip_days) \<lparr>db_tables = T, db_indexes = ix\<rparr>
      = Inr \<lparr>db_tables = T(''drip_days_rebuild'' := Some (building (retagged ds))), db_indexes = ix\<rparr>"
    and "exec (take 3 rebuild_drip_days) \<lparr>db_tables = T, db_indexes = ix\<rparr>
      = Inr \<lparr>db_tables = T(''drip_days_rebuild'' := Some (building (retagged ds)), ''drip_days'' := None),
             db_indexes = ix\<rparr>"
    and "exec rebuild_drip_days \<lparr>db_tables = T, db_indexes = ix\<rparr>
      = Inr \<lparr>db_tables = T(''drip_days'' := Some (building (retagged ds))), db_indexes = ix\<rparr>"
proof -
  have d: "T ''drip_days_rebuild'' = None" "T ''drip_days'' = drip_days_table (By_Day ds)"
    by (simp_all add: T written_tables_def)
  have some: "(T(''drip_days_rebuild'' := x)) ''drip_days'' \<noteq> None" for x by (simp add: d)
  have rename: "run_statement (rebuild_drip_days ! 3)
      \<lparr>db_tables = T(''drip_days_rebuild'' := Some (building (retagged ds)), ''drip_days'' := None), db_indexes = ix\<rparr>
    = Inr \<lparr>db_tables = T(''drip_days_rebuild'' := Some (building (retagged ds)), ''drip_days'' := None,
        ''drip_days_rebuild'' := None, ''drip_days'' := Some (building (retagged ds))), db_indexes = ix\<rparr>"
    by (rule rename_step [OF assms(2)]) simp_all
  note steps = create_step [where T = T, OF d(1)] insert_step [where T = T, OF assms(1) d(2)]
    drop_step [where T = "T(''drip_days_rebuild'' := Some (building (retagged ds)))", OF assms(2) some]
  note go = steps exec.simps sum.case
  show "exec (take 1 rebuild_drip_days) \<lparr>db_tables = T, db_indexes = ix\<rparr>
      = Inr \<lparr>db_tables = T(''drip_days_rebuild'' := Some (building [])), db_indexes = ix\<rparr>"
    by (subst rebuild_statements) (simp only: go take_Suc_Cons take0 One_nat_def)
  show "exec (take 2 rebuild_drip_days) \<lparr>db_tables = T, db_indexes = ix\<rparr>
      = Inr \<lparr>db_tables = T(''drip_days_rebuild'' := Some (building (retagged ds))), db_indexes = ix\<rparr>"
    by (subst rebuild_statements) (simp only: go take_Suc_Cons take0 numeral_2_eq_2)
  show "exec (take 3 rebuild_drip_days) \<lparr>db_tables = T, db_indexes = ix\<rparr>
      = Inr \<lparr>db_tables = T(''drip_days_rebuild'' := Some (building (retagged ds)), ''drip_days'' := None),
             db_indexes = ix\<rparr>"
    by (subst rebuild_statements) (simp only: go take_Suc_Cons take0 numeral_3_eq_3)
  show "exec rebuild_drip_days \<lparr>db_tables = T, db_indexes = ix\<rparr>
      = Inr \<lparr>db_tables = T(''drip_days'' := Some (building (retagged ds))), db_indexes = ix\<rparr>"
    by (subst rebuild_statements, simp only: go rename, simp add: fun_eq_iff d)
qed

lemma rebuild_run:
  assumes "distinct (map fst ds)" and "known_indexes ix"
  shows "exec rebuild_drip_days \<lparr>db_tables = written_tables k rows (By_Day ds) used fb, db_indexes = ix\<rparr>
     = Inr \<lparr>db_tables = written_tables k rows (opened_history (By_Day ds)) used fb, db_indexes = ix\<rparr>"
  using rebuild_steps(4) [OF assms refl] by (simp add: written_tables_def fun_eq_iff)

subsection \<open>Fresh and migrated databases converge\<close>

lemma drip_run:
  assumes "h \<noteq> No_Drips" and "\<And>ds. h = By_Day ds \<Longrightarrow> distinct (map fst ds)" and "known_indexes ix"
  shows "migrate [last MIGRATIONS] \<lparr>db_tables = written_tables k rows h used fb, db_indexes = ix\<rparr>
     = Inr \<lparr>db_tables = written_tables k rows (opened_history h) used fb, db_indexes = ix\<rparr>"
proof (cases h)
  case (By_Day ds)
  have "''network'' \<notin> set (table_columns ''drip_days''
      \<lparr>db_tables = written_tables k rows (By_Day ds) used fb, db_indexes = ix\<rparr>)"
    by (simp add: table_columns_def written_tables_def column_names_def text_defs)
  with assms By_Day show ?thesis
    by (simp add: MIGRATIONS_def rebuild_run del: opened_history.simps)
next
  case (By_Network ds)
  have "''network'' \<in> set (table_columns ''drip_days''
      \<lparr>db_tables = written_tables k rows (By_Network ds) used fb, db_indexes = ix\<rparr>)"
    by (simp add: table_columns_def written_tables_def column_names_def text_defs)
  with By_Network show ?thesis by (simp add: MIGRATIONS_def)
qed (use assms in simp)

lemma index_run:
  assumes "known_indexes ix"
    and c: "T ''claims'' = Some (claims_table 2 rows)"
      "T ''used_challenges'' = Some \<lparr>tb_columns = used_columns, tb_key = [''sig''], tb_rows = u\<rparr>"
      "T ''feedback'' = Some \<lparr>tb_columns = feedback_columns, tb_key = [''id''], tb_rows = f\<rparr>"
  shows "exec INDEXES \<lparr>db_tables = T, db_indexes = ix\<rparr> = Inr \<lparr>db_tables = T, db_indexes = current_indexes\<rparr>"
proof -
  have ix: "i \<noteq> ''idx_claims_addrhash'' \<Longrightarrow> ix i = None \<or> ix i = current_indexes i" for i
    using assms(1) [unfolded known_indexes_def, THEN spec, of i] by simp
  have make: "run_statement (Create_Index i t cols) \<lparr>db_tables = T, db_indexes = jx\<rparr>
      = Inr \<lparr>db_tables = T, db_indexes = jx(i := Some (t, cols))\<rparr>"
    if "jx i = None \<or> jx i = Some (t, cols)" and "T t = Some tb"
      and "list_all (\<lambda>c. c \<in> set (column_names tb)) cols" for i t cols jx tb
    using that by (auto simp: fun_upd_idem)
  have cols: "list_all (\<lambda>c. c \<in> set (column_names (claims_table 2 rows))) [''address_hash'', ''network'', ''created_at'']"
    "list_all (\<lambda>c. c \<in> set (column_names (claims_table 2 rows))) [''ip_hash'', ''created_at'']"
    "list_all (\<lambda>c. c \<in> set (column_names (claims_table 2 rows))) [''created_at'']"
    "list_all (\<lambda>c. c \<in> set (column_names \<lparr>tb_columns = used_columns, tb_key = [''sig''], tb_rows = u\<rparr>)) [''exp'']"
    "list_all (\<lambda>c. c \<in> set (column_names \<lparr>tb_columns = feedback_columns, tb_key = [''id''], tb_rows = f\<rparr>))
       [''sent_at'', ''created_at'']"
    by (simp_all add: column_names_def claims_table_def text_defs)
  have other: "current_indexes i = None \<Longrightarrow> i \<noteq> ''idx_claims_addrhash'' \<Longrightarrow> ix i = None" for i
    using ix [of i] by auto
  show ?thesis
    using ix [of "''idx_claims_addr_net''"] ix [of "''idx_claims_iphash''"] ix [of "''idx_claims_created''"]
      ix [of "''idx_used_exp''"] ix [of "''idx_feedback_undelivered''"]
    unfolding INDEXES_def
    by (simp add: make [OF _ c(1) cols(1)] make [OF _ c(1) cols(2)] make [OF _ c(1) cols(3)]
          make [OF _ c(2) cols(4)] make [OF _ c(3) cols(5)] current_indexes_def
          del: run_statement.simps(6))
       (auto simp: fun_eq_iff current_indexes_def other)
qed

text \<open>A file this program, or any earlier version of it, has left behind.\<close>

definition known_file ::
  "nat \<Rightarrow> drip_history \<Rightarrow> (string \<Rightarrow> (string \<times> string list) option) \<Rightarrow> bool" where
  "known_file k h ix =
     (k \<le> 2 \<and> (\<forall>ds. h = By_Day ds \<longrightarrow> distinct (map fst ds)) \<and> known_indexes ix)"

lemma open_known:
  assumes "known_file k h ix"
  shows "open_ledger \<lparr>db_tables = written_tables k rows h used fb, db_indexes = ix\<rparr>
     = Inr \<lparr>db_tables = written_tables 2 (map (\<lambda>r. r @ drop k [V_Null, V_Text ''taz'']) rows)
              (opened_history h) (Some (nullish used [])) (Some (nullish fb [])),
            db_indexes = current_indexes\<rparr>"
proof -
  let ?h = "if h = No_Drips then By_Network [] else h"
  have h: "?h \<noteq> No_Drips" "opened_history ?h = opened_history h"
    by (cases h; simp)+
  have k: "k \<le> 2" and ix: "known_indexes ix" and d: "\<And>ds. ?h = By_Day ds \<Longrightarrow> distinct (map fst ds)"
    using assms by (auto simp: known_file_def split: if_splits)
  have drip: "migrate [last MIGRATIONS] \<lparr>db_tables = written_tables j r ?h u f, db_indexes = ix\<rparr>
     = Inr \<lparr>db_tables = written_tables j r (opened_history h) u f, db_indexes = ix\<rparr>" for j r u f
    unfolding h(2) [symmetric] by (rule drip_run [OF h(1) d ix])
  show ?thesis
    unfolding open_ledger_def schema_run sum.case claims_run [OF k] drip
    by (rule index_run [OF ix]) (simp_all add: written_tables_def)
qed

text \<open>
  C35: opening any file an earlier version left behind gives exactly the tables, keys and
  indexes of a file created today, keeps every row of every table, and fills the columns the row
  predates with the value that was true of it (no subnet, the first network).
\<close>

theorem migrated_database_converges:
  assumes "known_file k h ix"
  shows "\<exists>d. open_ledger \<lparr>db_tables = written_tables k rows h used fb, db_indexes = ix\<rparr> = Inr d
    \<and> (\<exists>fresh. open_ledger no_database = Inr fresh \<and> shape d = shape fresh \<and> db_indexes d = db_indexes fresh)
    \<and> rows_of d ''claims'' = map (\<lambda>r. r @ drop k [V_Null, V_Text ''taz'']) rows
    \<and> rows_of d ''drip_days'' = (case h of No_Drips \<Rightarrow> []
        | By_Day ds \<Rightarrow> map (\<lambda>(day, n). [V_Text ''taz'', V_Text day, V_Int n]) ds
        | By_Network ds \<Rightarrow> map drip_row ds)
    \<and> rows_of d ''used_challenges'' = nullish used [] \<and> rows_of d ''feedback'' = nullish fb []"
proof -
  have fresh_schema: "exec SCHEMA no_database = exec SCHEMA
      \<lparr>db_tables = written_tables 2 [] No_Drips None None, db_indexes = (\<lambda>_. None)\<rparr>"
    by (simp add: SCHEMA_def no_database_def)
       (auto simp: fun_eq_iff written_tables_def claims_table_def claims_columns_def)
  have "known_file 2 No_Drips (\<lambda>_. None)" by (simp add: known_file_def known_indexes_def)
  from open_known [OF this, of "[]" None None]
  have fresh: "open_ledger no_database = Inr \<lparr>db_tables = written_tables 2 [] (By_Network []) (Some []) (Some []),
      db_indexes = current_indexes\<rparr>"
    by (simp add: open_ledger_def fresh_schema)
  have hist: "rows_of \<lparr>db_tables = written_tables 2 r (opened_history h) u f, db_indexes = i\<rparr> ''drip_days''
      = (case h of No_Drips \<Rightarrow> [] | By_Day ds \<Rightarrow> map (\<lambda>(day, n). [V_Text ''taz'', V_Text day, V_Int n]) ds
         | By_Network ds \<Rightarrow> map drip_row ds)" for r u f i
    by (cases h) (auto simp: rows_of_def written_tables_def drip_row_def)
  have shape: "shape \<lparr>db_tables = written_tables 2 r (opened_history h) (Some u) (Some f), db_indexes = i\<rparr>
      = shape \<lparr>db_tables = written_tables 2 [] (By_Network []) (Some []) (Some []), db_indexes = i\<rparr>" for r u f i
    by (cases h) (auto simp: shape_def written_tables_def claims_table_def fun_eq_iff)
  show ?thesis
    unfolding open_known [OF assms] fresh
    by (intro exI conjI) (rule refl shape hist | simp add: rows_of_def written_tables_def claims_table_def)+
qed

definition ex_old_tables :: "string \<Rightarrow> sql_table option" where
  "ex_old_tables = written_tables 0
     [[V_Int 1, V_Text ''a'', V_Text ''i'', V_Int 50, V_Null, V_Text ''sent'', V_Int 9]]
     (By_Day [(''2026-07-01'', 4), (''2026-07-02'', 6)]) None None"

lemma ex_old_known:
  "known_file 0 (By_Day [(''2026-07-01'', 4), (''2026-07-02'', 6)])
     [''idx_claims_addrhash'' \<mapsto> (''claims'', [''address_hash'', ''created_at''])]"
  by (simp add: known_file_def known_indexes_def)

lemma migrated_database_converges_witness:
  "\<exists>d. open_ledger \<lparr>db_tables = ex_old_tables,
         db_indexes = [''idx_claims_addrhash'' \<mapsto> (''claims'', [''address_hash'', ''created_at''])]\<rparr> = Inr d
     \<and> rows_of d ''claims'' =
         [[V_Int 1, V_Text ''a'', V_Text ''i'', V_Int 50, V_Null, V_Text ''sent'', V_Int 9, V_Null, V_Text ''taz'']]"
  using migrated_database_converges [OF ex_old_known,
      of "[[V_Int 1, V_Text ''a'', V_Text ''i'', V_Int 50, V_Null, V_Text ''sent'', V_Int 9]]" None None]
  unfolding ex_old_tables_def by auto

text \<open>
  opening is idempotent: a file that was opened once is opened again with nothing changed.
\<close>

theorem opening_twice_changes_nothing:
  assumes "known_file k h ix"
    and "open_ledger \<lparr>db_tables = written_tables k rows h used fb, db_indexes = ix\<rparr> = Inr d"
  shows "open_ledger d = Inr d"
proof -
  have h: "opened_history (opened_history h) = opened_history h" by (cases h) simp_all
  have ix: "known_indexes current_indexes" by (simp add: known_indexes_def current_indexes_def)
  have "\<And>ds. opened_history h \<noteq> By_Day ds" by (cases h) simp_all
  then have "known_file 2 (opened_history h) current_indexes" by (simp add: known_file_def ix)
  from open_known [OF this] show ?thesis
    using assms(2) unfolding open_known [OF assms(1)] by (auto simp: h)
qed

lemma opening_twice_changes_nothing_witness:
  "\<exists>d. open_ledger \<lparr>db_tables = ex_old_tables,
         db_indexes = [''idx_claims_addrhash'' \<mapsto> (''claims'', [''address_hash'', ''created_at''])]\<rparr> = Inr d
     \<and> open_ledger d = Inr d"
  using opening_twice_changes_nothing [OF ex_old_known open_known [OF ex_old_known]]
    open_known [OF ex_old_known]
  unfolding ex_old_tables_def by blast

subsection \<open>The rebuild is not atomic\<close>

lemma schema_present:
  assumes "\<And>t. t \<in> {''claims'', ''used_challenges'', ''drip_days'', ''feedback''} \<Longrightarrow> db_tables d t \<noteq> None"
  shows "exec SCHEMA d = Inr d"
  using assms by (simp add: SCHEMA_def)

lemma claims_current:
  assumes "db_tables d ''claims'' = Some (claims_table 2 rows)"
  shows "migrate MIGRATIONS d = migrate [last MIGRATIONS] d"
proof -
  have "''subnet_hash'' \<in> set (table_columns ''claims'' d)" "''network'' \<in> set (table_columns ''claims'' d)"
    using assms by (simp_all add: table_columns_def claims_table_def column_names_def text_defs)
  then show ?thesis by (simp add: MIGRATIONS_def)
qed

text \<open>
  a process that dies inside the rebuild of the drip counter leaves a file that no later start
  repairs: after the first or second statement every open fails on the half-built table, and after
  the third the open succeeds with an empty counter while the counts stay in a table nothing reads.
\<close>

theorem interrupted_rebuild_is_not_repaired:
  assumes days: "distinct (map fst ds)" and ix: "known_indexes ix" and j: "1 \<le> j" "j \<le> 3"
    and died: "exec (take j rebuild_drip_days)
        \<lparr>db_tables = written_tables 2 rows (By_Day ds) (Some u) (Some f), db_indexes = ix\<rparr> = Inr d"
  shows "if j < 3 then open_ledger d = Inl (Table_Exists ''drip_days_rebuild'')
    else \<exists>d'. open_ledger d = Inr d' \<and> rows_of d' ''drip_days'' = []
           \<and> rows_of d' ''drip_days_rebuild'' = map (\<lambda>(day, n). [V_Text ''taz'', V_Text day, V_Int n]) ds"
proof -
  let ?T = "written_tables 2 rows (By_Day ds) (Some u) (Some f)"
  note run = rebuild_steps [OF days ix refl, of 2 rows "Some u" "Some f"]
  have blocked: "open_ledger \<lparr>db_tables = ?T(''drip_days_rebuild'' := Some tb), db_indexes = ix\<rparr>
      = Inl (Table_Exists ''drip_days_rebuild'')" for tb
  proof -
    let ?d = "\<lparr>db_tables = ?T(''drip_days_rebuild'' := Some tb), db_indexes = ix\<rparr>"
    have "exec SCHEMA ?d = Inr ?d" by (rule schema_present) (auto simp: written_tables_def)
    moreover have "migrate MIGRATIONS ?d = migrate [last MIGRATIONS] ?d"
      by (rule claims_current) (simp add: written_tables_def)
    moreover have "migrate [last MIGRATIONS] ?d = Inl (Table_Exists ''drip_days_rebuild'')"
      by (simp add: MIGRATIONS_def table_columns_def column_names_def text_defs written_tables_def
          rebuild_drip_days_def)
    ultimately show ?thesis by (simp add: open_ledger_def)
  qed
  consider "j = 1" | "j = 2" | "j = 3" using j by linarith
  then show ?thesis
  proof cases
    case 1
    have "d = \<lparr>db_tables = ?T(''drip_days_rebuild'' := Some (building [])), db_indexes = ix\<rparr>"
      using died unfolding 1 run(1) by simp
    then show ?thesis using 1 blocked by simp
  next
    case 2
    have "d = \<lparr>db_tables = ?T(''drip_days_rebuild'' := Some (building (retagged ds))), db_indexes = ix\<rparr>"
      using died unfolding 2 run(2) by simp
    then show ?thesis using 2 blocked by simp
  next
    case 3
    let ?d = "?T(''drip_days_rebuild'' := Some (building (retagged ds)), ''drip_days'' := Some (building []))"
    have d: "d = \<lparr>db_tables = ?T(''drip_days_rebuild'' := Some (building (retagged ds)), ''drip_days'' := None),
        db_indexes = ix\<rparr>" using died unfolding 3 run(3) by simp
    have "exec SCHEMA d = Inr \<lparr>db_tables = ?d, db_indexes = ix\<rparr>"
      by (simp add: d SCHEMA_def written_tables_def)
    moreover have "migrate MIGRATIONS \<lparr>db_tables = ?d, db_indexes = ix\<rparr> = Inr \<lparr>db_tables = ?d, db_indexes = ix\<rparr>"
      using claims_current [of "\<lparr>db_tables = ?d, db_indexes = ix\<rparr>" rows]
      by (simp add: written_tables_def MIGRATIONS_def table_columns_def column_names_def text_defs)
    moreover have "exec INDEXES \<lparr>db_tables = ?d, db_indexes = ix\<rparr> = Inr \<lparr>db_tables = ?d, db_indexes = current_indexes\<rparr>"
      by (rule index_run [OF ix]) (simp_all add: written_tables_def)
    ultimately have "open_ledger d = Inr \<lparr>db_tables = ?d, db_indexes = current_indexes\<rparr>"
      by (simp add: open_ledger_def)
    then show ?thesis using 3 by (simp add: rows_of_def) (auto simp: drip_row_def)
  qed
qed

lemma interrupted_rebuild_is_not_repaired_witness:
  "\<exists>d. exec (take 2 rebuild_drip_days)
        \<lparr>db_tables = written_tables 2 [] (By_Day [(''2026-07-01'', 4)]) (Some []) (Some []), db_indexes = (\<lambda>_. None)\<rparr> = Inr d
     \<and> open_ledger d = Inl (Table_Exists ''drip_days_rebuild'')"
proof -
  have days: "distinct (map fst [(''2026-07-01'', 4 :: int)])" by simp
  have ix: "known_indexes (\<lambda>_. None)" by (simp add: known_indexes_def)
  note run = rebuild_steps(2) [OF days ix refl, of 2 "[]" "Some []" "Some []"]
  show ?thesis
    using interrupted_rebuild_is_not_repaired [OF days ix _ _ run] run by auto
qed

end
