(* ===== verification/Fork_Reference.thy ===== *)
theory Fork_Reference
  imports Block_Id Pow Node_Status Readiness
begin

unbundle bit_operations_syntax

text \<open>
  The independent chain's block hash the watchdog compares with our node's: the encoder and the
  reader of \<open>src/src/lib/zcash/externalBlock.ts\<close>, the cell of \<open>src/src/lib/zcash/forkReference.ts\<close>,
  and the consensus-rules half, \<open>src/src/lib/zcash/chainIdentityOracle.ts\<close>. Numbers and indices are
  as in the reader of block ids; gRPC and RPC answers are arguments.
\<close>

subsection \<open>externalBlock.ts\<close>

definition REFERENCE_DEPTH :: int where "REFERENCE_DEPTH = 10"

text \<open>\<open>for (;;) { b = v & 0x7f; v >>= 7; if (v === 0) ... }\<close> on a BigInt, which may be negative.\<close>

partial_function (option) varint_loop :: "int \<Rightarrow> 8 word list option" where
  "varint_loop v =
     (let b = v mod 128; v' = v div 128 in
      if v' = 0 then Some [word_of_int b]
      else Option.bind (varint_loop v') (\<lambda>bs. Some (word_of_int (b + 128) # bs)))"

definition encode_block_id_height :: "int \<Rightarrow> 8 word list option" where
  "encode_block_id_height height = map_option (\<lambda>bs. 0x08 # bs) (varint_loop height)"

datatype block_step = Block_Answer "string option" | Block_At int

definition compact_round :: "8 word list \<Rightarrow> int \<Rightarrow> block_step" where
  "compact_round buf i =
     (let tag = unat (byte_at buf i); field = tag div 8; wire = tag mod 8
      in if wire = 2
         then (case read_length buf (i + 1) 0 0 of None \<Rightarrow> Block_Answer None
               | Some (len, j) \<Rightarrow>
                   if j + sint len > int (length buf) then Block_Answer None
                   else if field = 3
                   then Block_Answer (if sint len \<noteq> 32 then None
                          else Some (hex_of_bytes (rev (take 32 (drop (nat j) buf)))))
                   else Block_At (j + sint len))
         else if wire = 0
         then (case skip_varint buf (i + 1) of None \<Rightarrow> Block_Answer None | Some j \<Rightarrow> Block_At j)
         else if wire = 5 then Block_At (i + 1 + 4)
         else if wire = 1 then Block_At (i + 1 + 8)
         else Block_Answer None)"

partial_function (option) compact_loop :: "8 word list \<Rightarrow> int \<Rightarrow> string option option" where
  "compact_loop buf i =
     (if i < int (length buf)
      then (case compact_round buf i of Block_Answer a \<Rightarrow> Some a | Block_At j \<Rightarrow> compact_loop buf j)
      else Some None)"

definition hash_from_compact_block :: "8 word list \<Rightarrow> string option option" where
  "hash_from_compact_block buf = compact_loop buf 0"

text \<open>\<open>dialBlockHash\<close>: \<open>null\<close> for an error or no answer, else what the reader makes of the bytes.\<close>

definition dial_block_hash :: "8 word list option \<Rightarrow> string option option" where
  "dial_block_hash answer' = (case answer' of None \<Rightarrow> Some None | Some buf \<Rightarrow> hash_from_compact_block buf)"

subsection \<open>forkReference.ts\<close>

definition REFRESH_MS :: int where "REFRESH_MS = 60000"
definition DIAL_TIMEOUT_MS :: int where "DIAL_TIMEOUT_MS = 8000"

record fork_reference =
  fr_height :: "int option"
  fr_hash :: "string option"
  fr_ageSeconds :: "int option"
  fr_depth :: int

record fork_cell =
  fk_last :: "(int \<times> string \<times> int) option"
  fk_inFlight :: "int option"

definition reset_fork_reference :: fork_cell where
  "reset_fork_reference = \<lparr>fk_last = None, fk_inFlight = None\<rparr>"

text \<open>\<open>kick\<close>: starts one background dial for a height, or does nothing.\<close>

definition kick :: "int \<Rightarrow> int option \<Rightarrow> fork_cell \<Rightarrow> fork_cell" where
  "kick nowMs tip c =
     (if fk_inFlight c \<noteq> None then c
      else if (case fk_last c of None \<Rightarrow> False | Some (h, x, t) \<Rightarrow> nowMs - t < REFRESH_MS) then c
      else (case tip of None \<Rightarrow> c
            | Some e \<Rightarrow> if e - REFERENCE_DEPTH \<le> 0 then c else c\<lparr>fk_inFlight := Some (e - REFERENCE_DEPTH)\<rparr>))"

text \<open>The end of the dial, with the hash it gave, if any (no endpoint, an error and no hash alike).\<close>

definition dial_ends :: "string option \<Rightarrow> int \<Rightarrow> fork_cell \<Rightarrow> fork_cell" where
  "dial_ends hash nowMs c =
     (case fk_inFlight c of None \<Rightarrow> c
      | Some h \<Rightarrow>
          (case hash of Some x \<Rightarrow> if x \<noteq> [] then \<lparr>fk_last = Some (h, x, nowMs), fk_inFlight = None\<rparr>
                                 else c\<lparr>fk_inFlight := None\<rparr>
           | None \<Rightarrow> c\<lparr>fk_inFlight := None\<rparr>))"

definition read_fork_reference :: "int \<Rightarrow> int option \<Rightarrow> fork_cell \<Rightarrow> fork_reference \<times> fork_cell" where
  "read_fork_reference nowMs tip c =
     (let c' = kick nowMs tip c
      in (\<lparr>fr_height = map_option fst (fk_last c'), fr_hash = map_option (fst \<circ> snd) (fk_last c'),
           fr_ageSeconds = map_option (\<lambda>(h, x, t). round_div (nowMs - t) 1000) (fk_last c'),
           fr_depth = REFERENCE_DEPTH\<rparr>, c'))"

subsection \<open>chainIdentityOracle.ts\<close>

definition IDENTITY_STALE_MS :: int where "IDENTITY_STALE_MS = 60000"
definition IDENTITY_MAX_AGE_MS :: int where "IDENTITY_MAX_AGE_MS = 600000"

record rpc_envelope =
  env_chaintip :: "string option"
  env_branch :: "string option"
  env_error :: "(string option \<times> int option) option"

definition branch_id_from_rpc :: "rpc_envelope \<Rightarrow> string option" where
  "branch_id_from_rpc j = (case env_chaintip j of Some x \<Rightarrow> Some x | None \<Rightarrow> env_branch j)"

datatype failure_detail = Rpc_Error string "int option" | No_Branch_Id

definition failure_detail_of :: "rpc_envelope \<Rightarrow> failure_detail option" where
  "failure_detail_of j =
     (case env_error j of
        Some (m, code) \<Rightarrow>
          Some (Rpc_Error (if trim (nullish m '''') = [] then ''RPC error'' else trim (nullish m '''')) code)
      | None \<Rightarrow> if branch_id_from_rpc j = None then Some No_Branch_Id else None)"

text \<open>The wallet's answer to \<open>getblockchaininfo\<close>: no endpoint, an HTTP failure, no answer, or JSON.\<close>

datatype branch_reply = No_Endpoint | Branch_Http int | Branch_Unreachable string | Branch_Json rpc_envelope

definition our_branch_id :: "branch_reply \<Rightarrow> string option" where
  "our_branch_id r =
     (case r of Branch_Json j \<Rightarrow> if env_error j \<noteq> None then None else branch_id_from_rpc j | _ \<Rightarrow> None)"

definition identity_facts_of :: "branch_reply \<Rightarrow> string option \<Rightarrow> identity_facts" where
  "identity_facts_of ours theirs =
     \<lparr>ourBranchId = our_branch_id ours, theirBranchId = theirs, comparedAtHeight = None,
      ourHashAtHeight = None, theirHashAtHeight = None\<rparr>"

datatype identity_report = Not_Read_Yet | Verdict identity_verdict | Verdict_Too_Old int

record identity_cell =
  ic_verdict :: "identity_verdict option"
  ic_at :: int
  ic_refreshing :: bool

definition identity_start :: "identity_cell \<Rightarrow> identity_cell" where
  "identity_start c = c\<lparr>ic_refreshing := True\<rparr>"

definition identity_refresh :: "branch_reply \<Rightarrow> string option \<Rightarrow> int \<Rightarrow> identity_cell \<Rightarrow> identity_cell" where
  "identity_refresh ours theirs nowMs c =
     \<lparr>ic_verdict = Some (classify_chain_identity (identity_facts_of ours theirs)), ic_at = nowMs,
      ic_refreshing = False\<rparr>"

definition get_chain_identity :: "int \<Rightarrow> identity_cell \<Rightarrow> identity_report \<times> identity_cell" where
  "get_chain_identity nowMs c =
     (let age = nowMs - ic_at c;
          c' = (if (ic_at c = 0 \<or> age > IDENTITY_STALE_MS) \<and> \<not> ic_refreshing c then identity_start c else c)
      in (if ic_at c = 0 then Not_Read_Yet
          else if age > IDENTITY_MAX_AGE_MS then Verdict_Too_Old (round_div age 60000)
          else (case ic_verdict c of None \<Rightarrow> Not_Read_Yet | Some v \<Rightarrow> Verdict v), c'))"

subsection \<open>Facts about the bytes\<close>

lemma varint_loop_encode: "varint_loop (int n) = Some (encode_varint n)"
proof (induction n rule: encode_varint.induct)
  case (1 n)
  have m: "int n mod 128 = int (n mod 128)" "int n div 128 = int (n div 128)"
    by (simp_all add: zmod_int zdiv_int)
  show ?case
  proof (cases "n < 128")
    case True
    then show ?thesis
      by (subst varint_loop.simps, subst encode_varint.simps) (simp add: m)
  next
    case False
    then have "n div 128 \<noteq> 0" by (simp add: div_eq_0_iff)
    with False 1 show ?thesis
      by (subst varint_loop.simps, subst encode_varint.simps) (simp add: m Let_def)
  qed
qed

lemma encode_height: "0 \<le> h \<Longrightarrow> encode_block_id_height h = Some (height_field (nat h))"
  using varint_loop_encode [of "nat h"] by (simp add: encode_block_id_height_def height_field_def)

lemma varint_loop_negative:
  assumes "v < 0"
  shows "varint_loop v = None"
proof -
  have "\<not> v < 0" if "varint_loop v = Some y" for v y
  proof (rule varint_loop.raw_induct [OF _ that])
    fix f v y
    assume IH: "\<And>v y. f v = Some y \<Longrightarrow> \<not> v < 0"
      and step: "(let b = v mod 128; v' = v div 128 in if v' = 0 then Some [word_of_int b]
        else Option.bind (f v') (\<lambda>bs. Some (word_of_int (b + 128) # bs))) = Some y"
    show "\<not> v < 0"
    proof
      assume neg: "v < 0"
      then have "v div 128 < 0" by (simp add: neg_imp_zdiv_neg_iff)
      with step IH [of "v div 128"] show False by (auto simp: Let_def bind_eq_Some_conv)
    qed
  qed
  with assms show ?thesis by (cases "varint_loop v") auto
qed

subsection \<open>Round trips\<close>

text \<open>
  the height encoder is read back by the reader of block ids at every height from zero up, and
  at a negative height it never returns.
\<close>

theorem block_id_height_roundtrip:
  "(0 \<le> h \<longrightarrow> (\<exists>bs. encode_block_id_height h = Some bs \<and> height_from_block_id (bs @ t) = Some (Some (nat h))))
   \<and> (h < 0 \<longrightarrow> encode_block_id_height h = None)"
  using encode_height [of h] height_read_back [of "nat h" t] varint_loop_negative [of h]
  by (auto simp: encode_block_id_height_def)

lemma block_id_height_roundtrip_witness:
  "\<exists>bs. encode_block_id_height 3210987 = Some bs \<and> height_from_block_id (bs @ []) = Some (Some 3210987)"
  using block_id_height_roundtrip [of 3210987 "[]"] by simp

text \<open>The fields of a \<open>CompactBlock\<close> in front of its hash are varints.\<close>

definition varint_field :: "nat \<times> nat \<Rightarrow> 8 word list" where
  "varint_field fv = word_of_nat (8 * fst fv) # encode_varint (snd fv)"

definition block_hash_field :: "8 word list \<Rightarrow> 8 word list" where
  "block_hash_field hash = 0x1a # word_of_nat (length hash) # hash"

lemma compact_round_varint:
  assumes "i = int (length p)" and "f < 32"
  shows "compact_round (p @ varint_field (f, v) @ t) i = Block_At (i + int (length (varint_field (f, v))))"
proof -
  have u: "unat (word_of_nat (8 * f) :: 8 word) = 8 * f"
    using assms(2) unfolding unsigned_of_nat by (simp add: take_bit_nat_eq_self_iff)
  have tag: "unat (byte_at (p @ varint_field (f, v) @ t) i) = 8 * f"
    using assms(1) u by (simp add: varint_field_def byte_at_append del: of_nat_mult)
  have "skip_varint ((p @ [word_of_nat (8 * f)]) @ encode_varint v @ t) (i + 1)
      = Some (i + 1 + int (length (encode_varint v)))"
    using assms(1) by (intro skip_varint_encode) simp
  then show ?thesis by (simp add: compact_round_def Let_def tag) (simp add: varint_field_def)
qed

lemma compact_round_hash:
  assumes "i = int (length p)" and "length hash = 32"
  shows "compact_round (p @ block_hash_field hash @ t) i = Block_Answer (Some (hex_of_bytes (rev hash)))"
proof -
  have tag: "unat (byte_at (p @ block_hash_field hash @ t) i) = 26"
    using assms(1) by (simp add: block_hash_field_def byte_at_append)
  obtain len where "read_length (p @ block_hash_field hash @ t) (i + 1) 0 0 = Some (len, i + 2)" "sint len = 32"
    using read_length_short [of "i + 1" "p @ [0x1a]" "length hash" "hash @ t"] assms
    by (auto simp: block_hash_field_def)
  moreover have "take 32 (drop (nat (i + 2)) (p @ block_hash_field hash @ t)) = hash"
  proof -
    have "nat (i + 2) = length (p @ [0x1a, word_of_nat (length hash)])" using assms(1) by simp
    then have "drop (nat (i + 2)) (p @ block_hash_field hash @ t) = hash @ t"
      by (simp add: block_hash_field_def)
    then show ?thesis using assms(2) by simp
  qed
  moreover have "i + 2 + 32 \<le> int (length (p @ block_hash_field hash @ t))"
    using assms by (simp add: block_hash_field_def)
  ultimately show ?thesis by (simp add: compact_round_def Let_def tag)
qed

text \<open>
  the hash of a well-formed compact block is read back in display order, whatever varint
  fields stand in front of it and whatever follows.
\<close>

theorem compact_block_hash_roundtrip:
  assumes "length hash = 32" and "\<forall>fv\<in>set fs. fst fv < 32"
  shows "hash_from_compact_block (concat (map varint_field fs) @ block_hash_field hash @ t)
    = Some (Some (hex_of_bytes (rev hash)))"
proof -
  have "compact_loop (p @ concat (map varint_field fs) @ block_hash_field hash @ t) (int (length p))
      = Some (Some (hex_of_bytes (rev hash)))" for p
    using assms(2)
  proof (induction fs arbitrary: p)
    case Nil
    have "int (length p) < int (length (p @ block_hash_field hash @ t))" by (simp add: block_hash_field_def)
    then show ?case
      using compact_round_hash [of "int (length p)" p hash t] assms(1) by (subst compact_loop.simps) simp
  next
    case (Cons fv fs)
    obtain f v where fv: "fv = (f, v)" by force
    let ?rest = "concat (map varint_field fs) @ block_hash_field hash @ t"
    have IH: "compact_loop ((p @ varint_field (f, v)) @ ?rest) (int (length (p @ varint_field (f, v))))
        = Some (Some (hex_of_bytes (rev hash)))"
      using Cons.IH [of "p @ varint_field (f, v)"] Cons.prems by simp
    have "int (length p) < int (length (p @ varint_field (f, v) @ ?rest))" by (simp add: varint_field_def)
    then show ?case
      using compact_round_varint [of "int (length p)" p f v ?rest] IH Cons.prems fv
      by (subst compact_loop.simps) simp
  qed
  from this [of "[]"] show ?thesis by (simp add: hash_from_compact_block_def)
qed

lemma compact_block_hash_roundtrip_witness:
  "hash_from_compact_block (concat (map varint_field [(1, 1), (2, 3210977)]) @ block_hash_field (replicate 32 0xab) @ [0x22])
    = Some (Some (hex_of_bytes (rev (replicate 32 0xab))))"
  by (rule compact_block_hash_roundtrip) simp_all

lemma compact_hang: "compact_round hang_bytes 0 = Block_At 0"
  by code_simp

lemma compact_reader_hangs: "hash_from_compact_block hang_bytes = None"
proof -
  have "\<not> (buf = hang_bytes \<and> i = 0)" if "compact_loop buf i = Some y" for buf i y
  proof (rule compact_loop.raw_induct [OF _ that])
    fix f buf i y
    assume IH: "\<And>buf i y. f buf i = Some y \<Longrightarrow> \<not> (buf = hang_bytes \<and> i = 0)"
      and step: "(if i < int (length buf)
        then (case compact_round buf i of Block_Answer a \<Rightarrow> Some a | Block_At j \<Rightarrow> f buf j) else Some None) = Some y"
    show "\<not> (buf = hang_bytes \<and> i = 0)"
    proof
      assume "buf = hang_bytes \<and> i = 0"
      moreover have "0 < int (length hang_bytes)" by (simp add: hang_bytes_def)
      ultimately have "f hang_bytes 0 = Some y" using step compact_hang by simp
      with IH show False by blast
    qed
  qed
  then have "compact_loop hang_bytes 0 \<noteq> Some y" for y by blast
  then show ?thesis unfolding hash_from_compact_block_def by (metis option.exhaust)
qed

subsection \<open>The published reference\<close>

datatype fork_event = Fork_Read int "int option" | Fork_Dial_Ends "string option" int

fun fork_step :: "fork_event \<Rightarrow> fork_cell \<Rightarrow> fork_cell" where
  "fork_step (Fork_Read nowMs tip) c = kick nowMs tip c"
| "fork_step (Fork_Dial_Ends h nowMs) c = dial_ends h nowMs c"

text \<open>
  What a published pair stands for: some read started a dial ten blocks under the tip it saw, and
  that dial ended with this hash at the time the age is counted from.
\<close>

definition asked :: "fork_event list \<Rightarrow> int \<Rightarrow> bool" where
  "asked es h = (0 < h \<and> (\<exists>t e. Fork_Read t (Some e) \<in> set es \<and> h = e - REFERENCE_DEPTH))"

definition justified :: "fork_event list \<Rightarrow> fork_cell \<Rightarrow> bool" where
  "justified es c =
     ((\<forall>h. fk_inFlight c = Some h \<longrightarrow> asked es h)
      \<and> (\<forall>h x t. fk_last c = Some (h, x, t) \<longrightarrow> asked es h \<and> Fork_Dial_Ends (Some x) t \<in> set es))"

lemma asked_later: "asked es h \<Longrightarrow> asked (es @ [e]) h"
  by (auto simp: asked_def)

lemma asked_now: "REFERENCE_DEPTH < e \<Longrightarrow> asked (es @ [Fork_Read t (Some e)]) (e - REFERENCE_DEPTH)"
  by (auto simp: asked_def)

lemma justified_step:
  assumes "justified es c"
  shows "justified (es @ [e]) (fork_step e c)"
proof (cases e)
  case (Fork_Read nowMs tip)
  with assms show ?thesis
    by (auto simp: justified_def kick_def asked_later asked_now split: option.split)
next
  case (Fork_Dial_Ends h nowMs)
  with assms show ?thesis
    by (auto simp: justified_def dial_ends_def asked_later split: option.split)
qed

text \<open>
  a hash the readiness body publishes was answered by an endpoint, for the height published
  beside it, which lies exactly ten blocks under an independent tip some request had read, and its
  age counts from that answer; a failed dial never takes the pair away nor mixes two dials.
\<close>

theorem published_reference_was_read:
  assumes "read_fork_reference nowMs tip (foldl (\<lambda>c e. fork_step e c) reset_fork_reference es) = (r, c)"
    and "fr_hash r = Some x"
  shows "\<exists>h t t' e. fr_height r = Some h \<and> 0 < h \<and> h = e - 10 \<and> Fork_Read t' (Some e) \<in> set es
    \<and> Fork_Dial_Ends (Some x) t \<in> set es \<and> fr_ageSeconds r = Some (round_div (nowMs - t) 1000)"
proof -
  have inv: "justified es (foldl (\<lambda>c e. fork_step e c) reset_fork_reference es)"
  proof (induction es rule: rev_induct)
    case Nil
    then show ?case by (simp add: justified_def reset_fork_reference_def)
  next
    case (snoc e es)
    then show ?case using justified_step by simp
  qed
  have "fk_last (kick nowMs tip s) = fk_last s" for s by (simp add: kick_def split: option.split)
  with assms obtain h t where last': "fk_last (foldl (\<lambda>c e. fork_step e c) reset_fork_reference es) = Some (h, x, t)"
    and r: "fr_height r = Some h" "fr_ageSeconds r = Some (round_div (nowMs - t) 1000)"
    by (auto simp: read_fork_reference_def)
  from inv last' have "asked es h" "Fork_Dial_Ends (Some x) t \<in> set es"
    by (simp_all add: justified_def)
  with r show ?thesis
    unfolding asked_def REFERENCE_DEPTH_def by blast
qed

lemma published_reference_was_read_witness:
  "\<exists>h t t' e. Some (1000 :: int) = Some h \<and> h = e - 10 \<and> Fork_Read t' (Some e) \<in> set
      [Fork_Read 5000 (Some 1010), Fork_Dial_Ends (Some ''ab'') 6000] \<and> (0 :: int) < h \<and> t = (6000 :: int)"
proof -
  let ?es = "[Fork_Read 5000 (Some 1010), Fork_Dial_Ends (Some ''ab'') 6000]"
  obtain r c where r: "read_fork_reference 9000 None (foldl (\<lambda>c e. fork_step e c) reset_fork_reference ?es) = (r, c)"
    by (rule prod.exhaust)
  have "fr_hash (fst (read_fork_reference 9000 None (foldl (\<lambda>c e. fork_step e c) reset_fork_reference ?es))) = Some ''ab''"
    "fr_height (fst (read_fork_reference 9000 None (foldl (\<lambda>c e. fork_step e c) reset_fork_reference ?es))) = Some 1000"
    by code_simp+
  then have "fr_hash r = Some ''ab''" "fr_height r = Some 1000" unfolding r by simp_all
  with published_reference_was_read [OF r] show ?thesis by auto
qed

subsection \<open>The reach of the identity oracle\<close>

text \<open>The heights and hashes are never filled in, so history is never judged.\<close>

lemma oracle_judges_rules_only:
  "iv_state (classify_chain_identity (identity_facts_of ours theirs)) =
     (case (our_branch_id ours, theirs) of
        (Some a, Some b) \<Rightarrow> if a \<noteq> b then Different_Rules else Identity_Unknown
      | _ \<Rightarrow> Identity_Unknown)"
  by (auto simp: classify_chain_identity_def identity_facts_of_def split: option.split)

lemma identity_verdict_is_recent:
  assumes "fst (get_chain_identity nowMs c) = Verdict v"
  shows "ic_verdict c = Some v \<and> ic_at c \<noteq> 0 \<and> nowMs - ic_at c \<le> 600000"
  using assms by (auto simp: get_chain_identity_def Let_def IDENTITY_MAX_AGE_MS_def split: if_splits option.splits)

end
