(* ===== verification/Donations.thy ===== *)
theory Donations
  imports Sender
begin

text \<open>
  Donations: which receipts of the faucet's own account are somebody else's money (zcash/donations.ts),
  the paged scan of the account's history (\<open>ZalletSender.donations\<close>), and the cache through which the
  donation page reads the total without ever waiting for the scan (\<open>safeDonations\<close> of zcash/send.ts).
  The wallet's answers are parameters.
\<close>

section \<open>The tally\<close>

definition DONATION_POOLS :: "string list" where
  "DONATION_POOLS = [''ironwood'', ''orchard'', ''sapling'']"

text \<open>A JSON value as the wallet serialises it: an integer, another number, a text, or nothing.\<close>

datatype wallet_value = Val_Integer int | Val_Other_Number | Val_Text string | Val_Missing

record wallet_output =
  wo_pool :: "string option"
  wo_from_account :: "string option"
  wo_value :: wallet_value
  wo_is_change :: bool

record wallet_tx =
  wt_mined_height :: "int option"
  wt_expired_unmined :: bool
  wt_sent_note_count :: "int option"
  wt_outputs :: "wallet_output list option"

record donation_tally =
  dt_count :: nat
  dt_zat :: int
  dt_lastHeight :: "int option"
  dt_unattributedCount :: nat
  dt_unattributedZat :: int

definition MAX_SAFE_INTEGER :: int where "MAX_SAFE_INTEGER = 2 ^ 53 - 1"

fun zat :: "wallet_value \<Rightarrow> int option" where
  "zat Val_Missing = None"
| "zat Val_Other_Number = None"
| "zat (Val_Integer n) = (if n > MAX_SAFE_INTEGER \<or> n < 0 then None else Some n)"
| "zat (Val_Text s) =
     (if s = [] then None
      else if trim s = [] \<or> \<not> list_all is_digit (trim s) then None
      else Some (digits_value (trim s)))"

definition empty_tally :: donation_tally where
  "empty_tally = \<lparr>dt_count = 0, dt_zat = 0, dt_lastHeight = None, dt_unattributedCount = 0, dt_unattributedZat = 0\<rparr>"

text \<open>The body of the inner loop: one output of a transaction mined at \<open>height\<close>.\<close>

definition tally_output :: "int \<Rightarrow> wallet_output \<Rightarrow> donation_tally \<Rightarrow> donation_tally" where
  "tally_output height out t =
     (if truthy (wo_from_account out) then t
      else if wo_is_change out then t
      else case zat (wo_value out) of None \<Rightarrow> t
      | Some v \<Rightarrow>
          if v = 0 then t
          else if to_lower (nullish (wo_pool out) []) \<in> set DONATION_POOLS then
            t\<lparr>dt_count := dt_count t + 1, dt_zat := dt_zat t + v,
              dt_lastHeight := (case dt_lastHeight t of None \<Rightarrow> Some height
                | Some l \<Rightarrow> if height > l then Some height else Some l)\<rparr>
          else t\<lparr>dt_unattributedCount := dt_unattributedCount t + 1,
                 dt_unattributedZat := dt_unattributedZat t + v\<rparr>)"

definition tally_tx :: "wallet_tx \<Rightarrow> donation_tally \<Rightarrow> donation_tally" where
  "tally_tx tx t =
     (case wt_mined_height tx of None \<Rightarrow> t
      | Some height \<Rightarrow>
          if wt_expired_unmined tx then t
          else if nullish (wt_sent_note_count tx) 0 > 0 then t
          else fold (tally_output height) (nullish (wt_outputs tx) []) t)"

definition tally_donations :: "wallet_tx list \<Rightarrow> donation_tally" where
  "tally_donations txs = fold tally_tx txs empty_tally"

subsection \<open>The total is a sum over the receipts we did not fund\<close>

text \<open>
  The reference: the receipts of a history, each with its height, its pool and its value. A receipt is
  an output of a confirmed transaction that spent no note of ours, with no account of ours behind it.
\<close>

definition ours :: "wallet_tx \<Rightarrow> bool" where
  "ours tx = (nullish (wt_sent_note_count tx) 0 > 0)"

definition receipts_of :: "wallet_tx \<Rightarrow> (int \<times> string \<times> int) list" where
  "receipts_of tx =
     (case wt_mined_height tx of None \<Rightarrow> []
      | Some h \<Rightarrow> if wt_expired_unmined tx \<or> ours tx then []
          else [(h, to_lower (nullish (wo_pool out) []), the (zat (wo_value out))).
                out \<leftarrow> nullish (wt_outputs tx) [], \<not> truthy (wo_from_account out), \<not> wo_is_change out,
                zat (wo_value out) \<notin> {None, Some 0}])"

definition external_receipts :: "wallet_tx list \<Rightarrow> (int \<times> string \<times> int) list" where
  "external_receipts txs = concat (map receipts_of txs)"

definition shielded :: "int \<times> string \<times> int \<Rightarrow> bool" where
  "shielded r = (fst (snd r) \<in> set DONATION_POOLS)"

definition add_receipt :: "int \<times> string \<times> int \<Rightarrow> donation_tally \<Rightarrow> donation_tally" where
  "add_receipt r t = (case r of (h, p, v) \<Rightarrow>
     if p \<in> set DONATION_POOLS then
       t\<lparr>dt_count := dt_count t + 1, dt_zat := dt_zat t + v,
         dt_lastHeight := Some (case dt_lastHeight t of None \<Rightarrow> h | Some l \<Rightarrow> max l h)\<rparr>
     else t\<lparr>dt_unattributedCount := dt_unattributedCount t + 1,
            dt_unattributedZat := dt_unattributedZat t + v\<rparr>)"

lemma zat_nonneg: "zat v = Some n \<Longrightarrow> 0 \<le> n"
  by (cases v) (auto split: if_splits intro: digits_value_nonneg)

lemma tally_output_receipt:
  "tally_output h out t =
     (if \<not> truthy (wo_from_account out) \<and> \<not> wo_is_change out \<and> zat (wo_value out) \<notin> {None, Some 0}
      then add_receipt (h, to_lower (nullish (wo_pool out) []), the (zat (wo_value out))) t else t)"
  by (auto simp: tally_output_def add_receipt_def split: option.splits)

lemma fold_if_receipt:
  "fold (\<lambda>out t. if P out then add_receipt (f out) t else t) outs t
     = fold add_receipt (concat (map (\<lambda>out. if P out then [f out] else []) outs)) t"
  by (induction outs arbitrary: t) auto

lemma tally_tx_receipts: "tally_tx tx t = fold add_receipt (receipts_of tx) t"
proof (cases "wt_mined_height tx")
  case (Some h)
  have "tally_output h = (\<lambda>out t. if \<not> truthy (wo_from_account out) \<and> \<not> wo_is_change out
      \<and> zat (wo_value out) \<notin> {None, Some 0}
      then add_receipt (h, to_lower (nullish (wo_pool out) []), the (zat (wo_value out))) t else t)"
    by (intro ext) (rule tally_output_receipt)
  then show ?thesis unfolding tally_tx_def receipts_of_def Some option.case ours_def
    by (simp only: fold_if_receipt) (auto intro!: arg_cong [where f = "\<lambda>xs. fold add_receipt xs t"] arg_cong [where f = concat])
qed (simp add: tally_tx_def receipts_of_def)

lemma tally_is_fold: "tally_donations txs = fold add_receipt (external_receipts txs) empty_tally"
proof -
  have "fold tally_tx txs t = fold add_receipt (external_receipts txs) t" for t
    by (induction txs arbitrary: t) (simp_all add: external_receipts_def tally_tx_receipts)
  then show ?thesis by (simp add: tally_donations_def)
qed

lemma fold_receipts:
  "dt_count (fold add_receipt rs t) = dt_count t + length (filter shielded rs)"
  "dt_zat (fold add_receipt rs t) = dt_zat t + (\<Sum>(h, p, v)\<leftarrow>filter shielded rs. v)"
  "dt_unattributedCount (fold add_receipt rs t) = dt_unattributedCount t + length (filter (\<lambda>r. \<not> shielded r) rs)"
  "dt_unattributedZat (fold add_receipt rs t) = dt_unattributedZat t + (\<Sum>(h, p, v)\<leftarrow>filter (\<lambda>r. \<not> shielded r) rs. v)"
  by (induction rs arbitrary: t) (auto simp: add_receipt_def shielded_def)

abbreviation higher :: "int \<Rightarrow> int option \<Rightarrow> int option" where
  "higher h l \<equiv> Some (case l of None \<Rightarrow> h | Some l \<Rightarrow> max l h)"

lemma fold_higher: "fold higher hs l = (if hs = [] then l else Some (Max (set_option l \<union> set hs)))"
proof (induction hs rule: rev_induct)
  case (snoc h hs)
  then show ?case by (cases l; cases "hs = []") (simp_all add: Max_insert2 max.commute)
qed simp

lemma fold_last_height:
  "dt_lastHeight (fold add_receipt rs t) = fold higher (map fst (filter shielded rs)) (dt_lastHeight t)"
  by (induction rs arbitrary: t) (auto simp: add_receipt_def shielded_def cong: option.case_cong)

text \<open>
  C37: the published count, total and last height are exactly the number, the sum and the highest block
  of the shielded receipts of confirmed transactions that spent no note of ours and name no account of
  ours; every other external receipt goes to the unattributed pair, so no value is counted twice, and
  a longer history never shows a smaller total.
\<close>

theorem tally_is_sum_of_external_receipts:
  "(let t = tally_donations txs; rs = external_receipts txs; hs = map fst (filter shielded rs) in
     dt_count t = length (filter shielded rs) \<and> dt_zat t = (\<Sum>(h, p, v)\<leftarrow>filter shielded rs. v)
     \<and> dt_lastHeight t = (if hs = [] then None else Some (Max (set hs)))
     \<and> dt_zat t + dt_unattributedZat t = (\<Sum>(h, p, v)\<leftarrow>rs. v)
     \<and> dt_count t + dt_unattributedCount t = length rs
     \<and> dt_zat t \<le> dt_zat (tally_donations (txs @ newer)))"
proof -
  have val: "0 \<le> v" if "(h, p, v) \<in> set (external_receipts xs)" for h p v xs
    using that by (auto simp: external_receipts_def receipts_of_def split: option.splits if_splits dest: zat_nonneg)
  have split: "(\<Sum>(h, p, v)\<leftarrow>filter shielded rs. v) + (\<Sum>(h, p, v)\<leftarrow>filter (\<lambda>r. \<not> shielded r) rs. v)
      = (\<Sum>(h, p, v)\<leftarrow>rs. v)" for rs :: "(int \<times> string \<times> int) list"
    by (induction rs) auto
  have pos: "0 \<le> (\<Sum>(h, p, v)\<leftarrow>filter shielded (external_receipts newer). v)"
    by (rule sum_list_nonneg) (auto dest: val)
  have app: "external_receipts (txs @ newer) = external_receipts txs @ external_receipts newer"
    by (simp add: external_receipts_def)
  show ?thesis unfolding Let_def tally_is_fold fold_receipts fold_last_height
    using split [of "external_receipts txs"] pos sum_length_filter_compl [of shielded "external_receipts txs"]
    by (simp add: empty_tally_def app fold_higher)
qed

section \<open>The paged scan\<close>

definition DONATION_PAGE :: nat where "DONATION_PAGE = 500"
definition DONATION_MAX_PAGES :: nat where "DONATION_MAX_PAGES = 20"

text \<open>
  The loop of \<open>donations\<close>: \<open>answer offset\<close> is what the wallet replies to the call for the page at that
  offset (\<open>None\<close> a result that is no array, which reads as an empty page); a failing call throws out of
  the loop. \<open>left\<close> counts the pages still allowed.
\<close>

fun donation_pages ::
  "(nat \<Rightarrow> wallet_tx list option reply) \<Rightarrow> nat \<Rightarrow> nat \<Rightarrow> wallet_tx list \<Rightarrow> js_error + (wallet_tx list \<times> bool)" where
  "donation_pages answer 0 page txs = Inr (txs, False)"
| "donation_pages answer (Suc left) page txs =
     (case answer (page * DONATION_PAGE) of
        Reply batch \<Rightarrow>
          (let rows = nullish batch []; txs' = txs @ rows in
           if length rows < DONATION_PAGE then Inr (txs', True)
           else donation_pages answer left (page + 1) txs')
      | failed \<Rightarrow> Inl (rpc_error ''z_listtransactions'' failed))"

definition donations ::
  "string \<Rightarrow> (nat \<Rightarrow> wallet_tx list option reply) \<Rightarrow> js_error + (donation_tally \<times> bool)" where
  "donations account answer =
     (if account = [] then
        Inl \<lparr>je_code = None,
             je_message = ''FAUCET_ZALLET_ACCOUNT (account UUID) is required to read donations.''\<rparr>
      else case donation_pages answer DONATION_MAX_PAGES 0 [] of
        Inl e \<Rightarrow> Inl e
      | Inr (txs, whole) \<Rightarrow> Inr (tally_donations txs, whole))"

text \<open>A wallet that serves its history by offset and limit.\<close>

definition serves_history :: "wallet_tx list \<Rightarrow> (nat \<Rightarrow> wallet_tx list option reply) \<Rightarrow> bool" where
  "serves_history h answer = (\<forall>off. answer off = Reply (Some (take DONATION_PAGE (drop off h))))"

lemma donation_pages_of_history:
  assumes "serves_history h answer" and "page * DONATION_PAGE \<le> length h"
  shows "donation_pages answer left page (take (page * DONATION_PAGE) h) =
    Inr (take ((page + left) * DONATION_PAGE) h, length h < (page + left) * DONATION_PAGE)"
  using assms(2)
proof (induction left arbitrary: page)
  case 0
  then show ?case by simp
next
  case (Suc left)
  let ?rows = "take DONATION_PAGE (drop (page * DONATION_PAGE) h)"
  have answer: "answer (page * DONATION_PAGE) = Reply (Some ?rows)"
    using assms(1) by (simp add: serves_history_def)
  have join: "take (page * DONATION_PAGE) h @ ?rows = take ((page + 1) * DONATION_PAGE) h"
    by (simp add: take_add [symmetric] add.commute)
  show ?case
  proof (cases "length h < (page + 1) * DONATION_PAGE")
    case True
    then have "length h \<le> (page + Suc left) * DONATION_PAGE"
      by (metis add_Suc_right add_mono_thms_linordered_semiring(1) le_add1 less_or_eq_imp_le mult_le_mono1 order.trans plus_1_eq_Suc Suc_eq_plus1)
    moreover have "length h < (page + Suc left) * DONATION_PAGE"
      using True by (simp add: add_mult_distrib)
    moreover have "length h - page * DONATION_PAGE < DONATION_PAGE" using True Suc.prems by simp
    ultimately show ?thesis using True Suc.prems by (simp add: answer join Let_def)
  next
    case False
    then have "\<not> length h - page * DONATION_PAGE < DONATION_PAGE" by simp
    with False Suc.IH [of "page + 1"] show ?thesis by (simp add: answer join Let_def min_def)
  qed
qed

text \<open>
  on a wallet that serves its history page by page, the scan ends after at most twenty pages; it
  reports itself complete exactly when the history is shorter than the cap, and a complete scan's tally
  is the tally of the whole history, with no receipt lost or read twice at a page border.
\<close>

theorem complete_scan_is_the_whole_history:
  assumes "serves_history h answer" and "account \<noteq> []"
  shows "\<exists>t. donations account answer = Inr (t, length h < 10000)
    \<and> (length h < 10000 \<longrightarrow> t = tally_donations h)"
  using donation_pages_of_history [OF assms(1), of 0 DONATION_MAX_PAGES] assms(2)
  by (simp add: donations_def DONATION_MAX_PAGES_def DONATION_PAGE_def)

definition ex_donation :: wallet_tx where
  "ex_donation = \<lparr>wt_mined_height = Some 100, wt_expired_unmined = False, wt_sent_note_count = Some 0,
     wt_outputs = Some [\<lparr>wo_pool = Some ''Orchard'', wo_from_account = None, wo_value = Val_Integer 500,
       wo_is_change = False\<rparr>]\<rparr>"

lemma complete_scan_is_the_whole_history_witness:
  "\<exists>t. donations ''acct'' (\<lambda>off. Reply (Some (take DONATION_PAGE (drop off [ex_donation])))) = Inr (t, True)
     \<and> dt_zat t = 500"
proof -
  have s: "serves_history [ex_donation] (\<lambda>off. Reply (Some (take DONATION_PAGE (drop off [ex_donation]))))"
    by (simp add: serves_history_def)
  have "dt_zat (tally_donations [ex_donation]) = 500" by code_simp
  with complete_scan_is_the_whole_history [OF s, of "''acct''"] show ?thesis by simp
qed

section \<open>The cache behind the donation page\<close>

text \<open>
  The module state of send.ts: the cached value with its time, the single-flight guard, the epoch the
  test seam bumps, and the scans in flight. A scan remembers the epoch it was started in; \<open>ds_outcome\<close>
  is what its promise resolved to (the body of the refresh ran), \<open>ds_settled\<close> that its \<open>finally\<close> ran.
\<close>

datatype scan_outcome = Scan_Throws | Scan_Done donation_tally bool

record donation_scan =
  ds_epoch :: nat
  ds_outcome :: "(scan_outcome \<times> int) option"
  ds_settled :: bool

record donation_cache =
  dc_cache :: "(int \<times> donation_tally option) option"
  dc_refresh :: bool
  dc_epoch :: nat
  dc_scans :: "donation_scan list"

definition DONATION_CACHE_MS :: int where "DONATION_CACHE_MS = 120000"

definition no_donations_read :: donation_cache where
  "no_donations_read = \<lparr>dc_cache = None, dc_refresh = False, dc_epoch = 0, dc_scans = []\<rparr>"

definition safe_donations :: "sender_name \<Rightarrow> int \<Rightarrow> donation_cache \<Rightarrow> donation_tally option \<times> donation_cache" where
  "safe_donations sender now c =
     (if sender \<noteq> Zallet_Sender then (None, c)
      else
        let fresh = (case dc_cache c of None \<Rightarrow> False | Some (t, _) \<Rightarrow> now - t < DONATION_CACHE_MS);
            c' = (if \<not> fresh \<and> \<not> dc_refresh c then
                    c\<lparr>dc_refresh := True,
                      dc_scans := dc_scans c @ [\<lparr>ds_epoch = dc_epoch c, ds_outcome = None, ds_settled = False\<rparr>]\<rparr>
                  else c)
        in (case dc_cache c of None \<Rightarrow> None | Some (_, v) \<Rightarrow> v, c'))"

fun published :: "scan_outcome \<Rightarrow> donation_tally option" where
  "published Scan_Throws = None"
| "published (Scan_Done tally whole) = (if whole then Some tally else None)"

text \<open>The scan \<open>i\<close> comes back at \<open>now\<close>; later its \<open>finally\<close> runs; a test resets the module.\<close>

definition scan_lands :: "nat \<Rightarrow> scan_outcome \<Rightarrow> int \<Rightarrow> donation_cache \<Rightarrow> donation_cache" where
  "scan_lands i r now c =
     (let s = dc_scans c ! i;
          c' = c\<lparr>dc_scans := (dc_scans c)[i := s\<lparr>ds_outcome := Some (r, now)\<rparr>]\<rparr>
      in if ds_epoch s = dc_epoch c then c'\<lparr>dc_cache := Some (now, published r)\<rparr> else c')"

definition scan_settles :: "nat \<Rightarrow> donation_cache \<Rightarrow> donation_cache" where
  "scan_settles i c =
     (let s = dc_scans c ! i;
          c' = c\<lparr>dc_scans := (dc_scans c)[i := s\<lparr>ds_settled := True\<rparr>]\<rparr>
      in if ds_epoch s = dc_epoch c then c'\<lparr>dc_refresh := False\<rparr> else c')"

definition reset_donation_cache :: "donation_cache \<Rightarrow> donation_cache" where
  "reset_donation_cache c = c\<lparr>dc_epoch := dc_epoch c + 1, dc_cache := None, dc_refresh := False\<rparr>"

inductive donation_step :: "donation_cache \<Rightarrow> donation_cache \<Rightarrow> bool" where
  Asked: "donation_step c (snd (safe_donations sender now c))"
| Landed: "i < length (dc_scans c) \<Longrightarrow> ds_outcome (dc_scans c ! i) = None \<Longrightarrow> donation_step c (scan_lands i r now c)"
| Settled: "i < length (dc_scans c) \<Longrightarrow> ds_outcome (dc_scans c ! i) \<noteq> None \<Longrightarrow> \<not> ds_settled (dc_scans c ! i) \<Longrightarrow>
    donation_step c (scan_settles i c)"
| Reset: "donation_step c (reset_donation_cache c)"

text \<open>The scans that can still publish: of the current epoch and not settled.\<close>

definition live_scans :: "donation_cache \<Rightarrow> donation_scan list" where
  "live_scans c = filter (\<lambda>s. ds_epoch s = dc_epoch c \<and> \<not> ds_settled s) (dc_scans c)"

definition donation_inv :: "donation_cache \<Rightarrow> bool" where
  "donation_inv c \<longleftrightarrow>
     (\<forall>s\<in>set (dc_scans c). ds_epoch s \<le> dc_epoch c)
     \<and> length (live_scans c) = (if dc_refresh c then 1 else 0)
     \<and> (\<forall>s\<in>set (dc_scans c). ds_settled s \<longrightarrow> ds_outcome s \<noteq> None)
     \<and> (\<forall>t v. dc_cache c = Some (t, Some v) \<longrightarrow>
          (\<exists>s\<in>set (dc_scans c). ds_epoch s = dc_epoch c \<and> ds_outcome s = Some (Scan_Done v True, t)))"

lemma length_filter_update:
  assumes "i < length xs"
  shows "length (filter P (xs[i := y])) + (if P (xs ! i) then 1 else 0) = length (filter P xs) + (if P y then 1 else 0)"
proof -
  have "xs = take i xs @ xs ! i # drop (Suc i) xs" using assms by (rule id_take_nth_drop)
  then have "length (filter P xs) = length (filter P (take i xs @ xs ! i # drop (Suc i) xs))" by (rule arg_cong)
  then show ?thesis using assms by (simp add: upd_conv_take_nth_drop)
qed

lemma stale_scans_stay:
  "\<forall>s\<in>set ss. ds_epoch s \<le> e \<Longrightarrow> filter (\<lambda>s. ds_epoch s = Suc e \<and> \<not> ds_settled s) ss = []"
  by (auto simp: filter_empty_conv)

lemma set_update_cases: "s \<in> set (xs[i := y]) \<Longrightarrow> s = y \<or> s \<in> set xs"
  by (metis insertE set_update_subset_insert subsetD)

lemma asked_inv:
  assumes "donation_inv c"
  shows "donation_inv (snd (safe_donations sender now c))"
  using assms by (auto simp: donation_inv_def safe_donations_def live_scans_def Let_def split: if_splits)

lemma landed_inv:
  assumes inv: "donation_inv c" and i: "i < length (dc_scans c)" and out: "ds_outcome (dc_scans c ! i) = None"
  shows "donation_inv (scan_lands i r now c)"
proof -
  let ?s = "dc_scans c ! i"
  let ?s' = "?s\<lparr>ds_outcome := Some (r, now)\<rparr>"
  let ?c = "scan_lands i r now c"
  have scans: "dc_scans ?c = (dc_scans c)[i := ?s']" and rest: "dc_epoch ?c = dc_epoch c" "dc_refresh ?c = dc_refresh c"
    and cache: "dc_cache ?c = (if ds_epoch ?s = dc_epoch c then Some (now, published r) else dc_cache c)"
    by (simp_all add: scan_lands_def Let_def)
  have mem: "?s \<in> set (dc_scans c)" using i by simp
  have new: "?s' \<in> set (dc_scans ?c)" using i by (simp add: scans set_update_memI)
  have kept: "s \<in> set (dc_scans ?c)" if "s \<in> set (dc_scans c)" "ds_outcome s \<noteq> None" for s
    using that i out by (auto simp: scans in_set_conv_nth nth_list_update) (metis nth_list_update_neq option.distinct(1))
  have "length (live_scans ?c) = length (live_scans c)"
    using length_filter_update [OF i, of "\<lambda>s. ds_epoch s = dc_epoch c \<and> \<not> ds_settled s" ?s']
    by (simp add: live_scans_def scans rest split: if_splits)
  moreover have "\<exists>s\<in>set (dc_scans ?c). ds_epoch s = dc_epoch ?c \<and> ds_outcome s = Some (Scan_Done v True, t)"
    if "dc_cache ?c = Some (t, Some v)" for t v
  proof (cases "ds_epoch ?s = dc_epoch c")
    case True
    with that have "t = now" "r = Scan_Done v True" by (auto simp: cache elim!: published.elims split: if_splits)
    with True rest(1) show ?thesis by (intro bexI [OF _ new]) simp
  next
    case False
    with that inv obtain s where "s \<in> set (dc_scans c)" "ds_epoch s = dc_epoch c" "ds_outcome s = Some (Scan_Done v True, t)"
      by (auto simp: cache donation_inv_def)
    then show ?thesis using kept [of s] by (auto simp: rest)
  qed
  moreover have "\<forall>s\<in>set (dc_scans ?c). ds_epoch s \<le> dc_epoch ?c \<and> (ds_settled s \<longrightarrow> ds_outcome s \<noteq> None)"
    using inv mem by (auto simp: donation_inv_def scans rest dest!: set_update_cases)
  ultimately show ?thesis using inv by (simp add: donation_inv_def rest)
qed

lemma settled_inv:
  assumes inv: "donation_inv c" and i: "i < length (dc_scans c)" and out: "ds_outcome (dc_scans c ! i) \<noteq> None"
    and live: "\<not> ds_settled (dc_scans c ! i)"
  shows "donation_inv (scan_settles i c)"
proof -
  let ?s = "dc_scans c ! i"
  let ?s' = "?s\<lparr>ds_settled := True\<rparr>"
  let ?c = "scan_settles i c"
  have scans: "dc_scans ?c = (dc_scans c)[i := ?s']" and rest: "dc_epoch ?c = dc_epoch c" "dc_cache ?c = dc_cache c"
    and flag: "dc_refresh ?c = (dc_refresh c \<and> ds_epoch ?s \<noteq> dc_epoch c)"
    by (simp_all add: scan_settles_def Let_def)
  have mem: "?s \<in> set (dc_scans c)" using i by simp
  have new: "?s' \<in> set (dc_scans ?c)" using i by (simp add: scans set_update_memI)
  have "length (live_scans ?c) = (if dc_refresh ?c then 1 else 0)"
    using length_filter_update [OF i, of "\<lambda>s. ds_epoch s = dc_epoch c \<and> \<not> ds_settled s" ?s'] inv live
    by (simp add: live_scans_def scans rest flag donation_inv_def split: if_splits)
  moreover have "\<exists>s\<in>set (dc_scans ?c). ds_epoch s = e \<and> ds_outcome s = q" if "s \<in> set (dc_scans c)" "ds_epoch s = e" "ds_outcome s = q"
    for s e q
  proof -
    from that(1) obtain j where j: "j < length (dc_scans c)" "s = dc_scans c ! j" by (auto simp: in_set_conv_nth)
    then have "dc_scans ?c ! j \<in> set (dc_scans ?c)" by (intro nth_mem) (simp add: scans)
    moreover have "ds_epoch (dc_scans ?c ! j) = e" "ds_outcome (dc_scans ?c ! j) = q"
      using that j i by (auto simp: scans nth_list_update)
    ultimately show ?thesis by blast
  qed
  moreover have "\<forall>s\<in>set (dc_scans ?c). ds_epoch s \<le> dc_epoch ?c \<and> (ds_settled s \<longrightarrow> ds_outcome s \<noteq> None)"
    using inv mem out by (auto simp: donation_inv_def scans rest dest!: set_update_cases)
  ultimately show ?thesis using inv by (simp add: donation_inv_def rest) metis
qed

lemma reset_inv: "donation_inv c \<Longrightarrow> donation_inv (reset_donation_cache c)"
  by (auto simp: donation_inv_def reset_donation_cache_def live_scans_def filter_empty_conv intro: le_SucI)

lemma donation_reachable_inv: "donation_step\<^sup>*\<^sup>* no_donations_read c \<Longrightarrow> donation_inv c"
proof (induction rule: rtranclp_induct)
  case base
  then show ?case by (simp add: donation_inv_def no_donations_read_def live_scans_def)
next
  case (step c c')
  from step(2,3) show ?case
    by cases (auto intro: asked_inv landed_inv settled_inv reset_inv)
qed

text \<open>
  in every run of page views, landing scans and resets, what a view is given is the tally of a scan
  that was started since the last reset, walked the whole history and came back at the cached time
  (never a partial sum, never a scan from before a reset, never a zero for a wallet that did not
  answer); at most one scan of the current epoch is in flight; and the guard is never stuck: while it
  is up there is such a scan, whose end takes it down again, whether it failed or not.
\<close>

theorem published_donations_were_counted:
  assumes "donation_step\<^sup>*\<^sup>* no_donations_read c"
  shows "(\<forall>tally. fst (safe_donations sender now c) = Some tally \<longrightarrow>
        (\<exists>s\<in>set (dc_scans c). \<exists>t. ds_epoch s = dc_epoch c \<and> ds_outcome s = Some (Scan_Done tally True, t)))
     \<and> length (live_scans (snd (safe_donations sender now c))) \<le> 1
     \<and> (dc_refresh c \<longrightarrow> (\<exists>i < length (dc_scans c). dc_scans c ! i \<in> set (live_scans c)
          \<and> \<not> dc_refresh (scan_settles i c)))"
proof (intro conjI impI allI)
  note inv = donation_reachable_inv [OF assms]
  fix tally assume "fst (safe_donations sender now c) = Some tally"
  then obtain t where "dc_cache c = Some (t, Some tally)"
    by (auto simp: safe_donations_def Let_def split: if_splits option.splits)
  with inv show "\<exists>s\<in>set (dc_scans c). \<exists>t. ds_epoch s = dc_epoch c \<and> ds_outcome s = Some (Scan_Done tally True, t)"
    by (auto simp: donation_inv_def)
next
  show "length (live_scans (snd (safe_donations sender now c))) \<le> 1"
    using asked_inv [OF donation_reachable_inv [OF assms], of sender now] by (simp add: donation_inv_def)
next
  assume "dc_refresh c"
  with donation_reachable_inv [OF assms] have "length (live_scans c) = 1" by (simp add: donation_inv_def)
  then have "hd (live_scans c) \<in> set (live_scans c)" by (intro hd_in_set) auto
  then obtain i where "i < length (dc_scans c)" "dc_scans c ! i \<in> set (live_scans c)"
    by (metis (no_types, lifting) filter_is_subset in_set_conv_nth live_scans_def subsetD)
  then show "\<exists>i < length (dc_scans c). dc_scans c ! i \<in> set (live_scans c) \<and> \<not> dc_refresh (scan_settles i c)"
    by (intro exI [of _ i]) (simp add: scan_settles_def live_scans_def Let_def)
qed

lemma published_donations_were_counted_witness:
  "let c = scan_lands 0 (Scan_Done empty_tally False) 9000 (snd (safe_donations Zallet_Sender 10 no_donations_read))
   in fst (safe_donations Zallet_Sender 9001 c) \<noteq> Some empty_tally"
proof -
  let ?c1 = "snd (safe_donations Zallet_Sender 10 no_donations_read)"
  let ?c = "scan_lands 0 (Scan_Done empty_tally False) 9000 ?c1"
  have c1: "?c1 = \<lparr>dc_cache = None, dc_refresh = True, dc_epoch = 0,
      dc_scans = [\<lparr>ds_epoch = 0, ds_outcome = None, ds_settled = False\<rparr>]\<rparr>"
    by (simp add: safe_donations_def no_donations_read_def Let_def)
  have "donation_step no_donations_read ?c1" by (rule Asked)
  moreover have "donation_step ?c1 ?c" by (rule Landed) (simp_all add: c1)
  ultimately have "donation_step\<^sup>*\<^sup>* no_donations_read ?c" by (meson rtranclp.rtrancl_into_rtrancl rtranclp.rtrancl_refl)
  from published_donations_were_counted [OF this, THEN conjunct1, of Zallet_Sender 9001] show ?thesis
    unfolding Let_def c1 by (auto simp: scan_lands_def Let_def)
qed

end
