(* ===== verification/Node_Counters.thy ===== *)
theory Node_Counters
  imports Node_Status
begin

text \<open>
  What the faucet counts about its reads of the wallet: \<open>src/src/lib/zcash/nodeStatusFailure.ts\<close>
  (failures by kind, how long answered reads took, the throttled log lines) and \<open>getNodeStatus\<close> of
  \<open>nodeStatus.ts\<close> with its calls to them. The module's objects are one record; \<open>console.warn\<close> appends to its
  log. A line is the values its text interpolates. Milliseconds are differences of \<open>Date.now()\<close>.
\<close>

section \<open>Failures by kind\<close>

datatype read_failure = Timed_Out | Bad_Http | Bad_Body | No_Connection

definition NODE_STATUS_FAILURE_KINDS :: "read_failure list" where
  "NODE_STATUS_FAILURE_KINDS = [Timed_Out, Bad_Http, Bad_Body, No_Connection]"

definition NODE_STATUS_SCOPES :: "read_purpose list" where
  "NODE_STATUS_SCOPES = [For_Claim, For_Page]"

definition THROTTLE_MS :: int where "THROTTLE_MS = 60000"

text \<open>\<open>err.name\<close>, empty when the thrown value has none.\<close>

definition classify_node_status_error :: "string \<Rightarrow> read_failure" where
  "classify_node_status_error err_name =
     (if err_name = ''TimeoutError'' \<or> err_name = ''AbortError'' then Timed_Out
      else if err_name = ''SyntaxError'' then Bad_Body
      else No_Connection)"

datatype height_shape = Height_Present | Height_Missing | Height_Not_A_Number

datatype failure_note =
  Status_Detail int read_purpose
| Heights_Detail height_shape height_shape read_purpose
| After_Detail int read_purpose

datatype shape_span = Minutes int | Seconds int

datatype node_line =
  First_Failure read_failure "failure_note option"
| More_Failures read_failure "failure_note option" int int
| Shape_Line "int list" read_purpose shape_span int int int "(int option \<times> int option) option" "int option" int "(string \<times> int) list"

text \<open>The counters of one path, and the whole module.\<close>

record shape_counters =
  sh_latency :: "int list"
  sh_censored :: int
  sh_slowestMs :: int
  sh_recovered :: int
  sh_countingSince :: int
  sh_failed :: int
  sh_fastestFailure :: "int option"
  sh_slowestFailure :: "int option"
  sh_lastShapeAt :: int
  sh_everReported :: bool

record node_counters =
  nc_counts :: "read_failure \<Rightarrow> int"
  nc_lastLoggedAt :: "read_failure \<times> read_purpose \<rightharpoonup> int"
  nc_sinceLastLog :: "read_failure \<times> read_purpose \<rightharpoonup> int"
  nc_countsByPath :: "read_failure \<times> read_purpose \<rightharpoonup> int"
  nc_byScope :: "read_purpose \<Rightarrow> shape_counters"
  nc_log :: "node_line list"

definition write_line :: "node_line \<Rightarrow> node_counters \<Rightarrow> node_counters" where
  "write_line line s = s\<lparr>nc_log := nc_log s @ [line]\<rparr>"

text \<open>\<open>recordNodeStatusFailure\<close>: count, and write at most one line a minute for each kind and path.\<close>

definition record_node_status_failure ::
  "read_failure \<Rightarrow> failure_note option \<Rightarrow> int \<Rightarrow> read_purpose \<Rightarrow> node_counters \<Rightarrow> node_line option \<times> node_counters" where
  "record_node_status_failure kind detail now scope s =
     (let key = (kind, scope);
          n = nullish (nc_sinceLastLog s key) 0 + 1;
          total = nullish (nc_countsByPath s key) 0 + 1;
          s1 = s\<lparr>nc_counts := (nc_counts s)(kind := nc_counts s kind + 1),
                 nc_sinceLastLog := (nc_sinceLastLog s)(key \<mapsto> n),
                 nc_countsByPath := (nc_countsByPath s)(key \<mapsto> total)\<rparr>;
          first = (total = 1);
          due = (now - nullish (nc_lastLoggedAt s key) 0 \<ge> THROTTLE_MS)
      in if \<not> first \<and> \<not> due then (None, s1)
         else let line = (if first then First_Failure kind detail else More_Failures kind detail n total)
              in (Some line, write_line line (s1\<lparr>nc_lastLoggedAt := (nc_lastLoggedAt s1)(key \<mapsto> now),
                                             nc_sinceLastLog := (nc_sinceLastLog s1)(key \<mapsto> 0)\<rparr>)))"

section \<open>How long answered reads took\<close>

definition LATENCY_BUCKET_EDGES_MS :: "int list" where
  "LATENCY_BUCKET_EDGES_MS = [50, 250, 1000, 2000, 4000, 8000, 12000]"

definition LATENCY_LABELS :: "string list" where
  "LATENCY_LABELS = [''<50ms'', ''50-250ms'', ''250ms-1s'', ''1-2s'', ''2-4s'', ''4-8s'', ''8-12s'', ''>=12s'']"

definition empty_counters :: shape_counters where
  "empty_counters =
     \<lparr>sh_latency = replicate (length LATENCY_LABELS) 0, sh_censored = 0, sh_slowestMs = 0, sh_recovered = 0,
      sh_countingSince = 0, sh_failed = 0, sh_fastestFailure = None, sh_slowestFailure = None,
      sh_lastShapeAt = 0, sh_everReported = False\<rparr>"

fun bucket_from :: "int list \<Rightarrow> int \<Rightarrow> nat \<Rightarrow> nat" where
  "bucket_from [] ms i = length LATENCY_LABELS - 1"
| "bucket_from (edge # edges) ms i = (if ms < edge then i else bucket_from edges ms (i + 1))"

definition bucket_of :: "int \<Rightarrow> nat" where
  "bucket_of ms = bucket_from LATENCY_BUCKET_EDGES_MS ms 0"

definition start_counting :: "int \<Rightarrow> shape_counters \<Rightarrow> shape_counters" where
  "start_counting now c = (if sh_countingSince c = 0 then c\<lparr>sh_countingSince := now\<rparr> else c)"

definition record_latency :: "int \<Rightarrow> int \<Rightarrow> shape_counters \<Rightarrow> shape_counters" where
  "record_latency ms now c =
     (if ms < 0 then c
      else let c1 = start_counting now c; i = bucket_of ms
           in c1\<lparr>sh_latency := (sh_latency c1)[i := sh_latency c1 ! i + 1],
                 sh_slowestMs := (if ms > sh_slowestMs c1 then ms else sh_slowestMs c1)\<rparr>)"

definition record_failed_attempt :: "int \<Rightarrow> int \<Rightarrow> shape_counters \<Rightarrow> shape_counters" where
  "record_failed_attempt ms now c =
     (let c1 = (start_counting now c)\<lparr>sh_failed := sh_failed c + 1\<rparr>
      in if ms < 0 then c1
         else c1\<lparr>sh_fastestFailure := (case sh_fastestFailure c1 of None \<Rightarrow> Some ms
                                        | Some f \<Rightarrow> if ms < f then Some ms else Some f),
                 sh_slowestFailure := (case sh_slowestFailure c1 of None \<Rightarrow> Some ms
                                        | Some f \<Rightarrow> if ms > f then Some ms else Some f)\<rparr>)"

definition record_censored_read :: "int \<Rightarrow> shape_counters \<Rightarrow> shape_counters" where
  "record_censored_read now c = (start_counting now c)\<lparr>sh_censored := sh_censored c + 1\<rparr>"

definition record_recovered_on_retry :: "shape_counters \<Rightarrow> shape_counters" where
  "record_recovered_on_retry c = c\<lparr>sh_recovered := sh_recovered c + 1\<rparr>"

definition in_scope :: "read_purpose \<Rightarrow> (shape_counters \<Rightarrow> shape_counters) \<Rightarrow> node_counters \<Rightarrow> node_counters" where
  "in_scope scope f s = s\<lparr>nc_byScope := (nc_byScope s)(scope := f (nc_byScope s scope))\<rparr>"

definition no_counters :: node_counters where
  "no_counters = \<lparr>nc_counts = (\<lambda>_. 0), nc_lastLoggedAt = Map.empty, nc_sinceLastLog = Map.empty,
     nc_countsByPath = Map.empty, nc_byScope = (\<lambda>_. empty_counters), nc_log = []\<rparr>"

text \<open>\<open>resetNodeStatusFailures\<close>; what has been written stays written.\<close>

definition reset_node_status_failures :: "node_counters \<Rightarrow> node_counters" where
  "reset_node_status_failures s = no_counters\<lparr>nc_log := nc_log s\<rparr>"

text \<open>\<open>reportNodeStatusShape\<close>: at most one line a minute and path, and none before anything was counted.\<close>

definition reads_of :: "shape_counters \<Rightarrow> int" where
  "reads_of c = sum_list (sh_latency c)"

definition report_node_status_shape :: "int \<Rightarrow> read_purpose \<Rightarrow> int list \<Rightarrow> node_counters \<Rightarrow> node_line option \<times> node_counters" where
  "report_node_status_shape now scope ladder s =
     (let c = nc_byScope s scope; reads = reads_of c in
      if reads = 0 \<and> sh_censored c = 0 \<and> sh_failed c = 0 then (None, s)
      else if sh_everReported c \<and> now - sh_lastShapeAt c < THROTTLE_MS then (None, s)
      else
        let overMs = max 0 (now - sh_countingSince c);
            line = Shape_Line ladder scope
                   (if overMs \<ge> 60000 then Minutes (round_div overMs 60000) else Seconds (round_div overMs 1000))
                   (sh_recovered c) (sh_censored c) (sh_failed c)
                   (if sh_failed c > 0 then Some (sh_fastestFailure c, sh_slowestFailure c) else None)
                   (if reads = 0 then None else Some (sh_slowestMs c)) reads
                   (filter (\<lambda>(label, n). n > 0) (zip LATENCY_LABELS (sh_latency c)))
        in (Some line, write_line line (in_scope scope (\<lambda>c. c\<lparr>sh_everReported := True, sh_lastShapeAt := now\<rparr>) s)))"

section \<open>A read of the status with its counters\<close>

text \<open>
  A height in the answer's body; a body; what a fetch gives. A thrown value is its \<open>name\<close>. The body is
  taken to be read when the answer arrives.
\<close>

datatype height_field = Height_Number int | Height_Null | Height_Other

datatype reply_body = Heights height_field height_field | Body_Throws string

datatype wallet_reply = Reply_Ok reply_body | Reply_Http int | Reply_Throws string

fun height_of_field :: "height_field \<Rightarrow> int option" where
  "height_of_field (Height_Number n) = Some n"
| "height_of_field _ = None"

fun height_shape_of :: "height_field \<Rightarrow> height_shape" where
  "height_shape_of (Height_Number _) = Height_Present"
| "height_shape_of Height_Null = Height_Missing"
| "height_shape_of Height_Other = Height_Not_A_Number"

type_synonym wallet_fetch = "nat \<Rightarrow> int \<Rightarrow> int \<times> wallet_reply"

definition count_attempt :: "read_purpose \<Rightarrow> wallet_reply \<Rightarrow> int \<Rightarrow> int \<Rightarrow> node_counters \<Rightarrow> node_counters" where
  "count_attempt purpose r took now =
     in_scope purpose
       (case r of Reply_Ok _ \<Rightarrow> record_latency took now
        | Reply_Http _ \<Rightarrow> record_failed_attempt took now
        | Reply_Throws e \<Rightarrow>
            if classify_node_status_error e = Timed_Out then record_censored_read now
            else record_failed_attempt took now)"

text \<open>The loop over the attempts; \<open>ladder\<close> is all of them, for the log.\<close>

fun counted_attempts ::
  "read_purpose \<Rightarrow> int list \<Rightarrow> int list \<Rightarrow> wallet_fetch \<Rightarrow> nat \<Rightarrow> int \<Rightarrow> node_counters
     \<Rightarrow> wallet_reply \<times> int \<times> node_counters" where
  "counted_attempts purpose ladder [] fetch i t s = (Reply_Throws ''Error'', t, s)"
| "counted_attempts purpose ladder (ms # rest) fetch i t s =
     (let (took, r) = fetch i ms; t' = t + took; s1 = count_attempt purpose r took t' s in
      case r of
        Reply_Throws e \<Rightarrow>
          if rest = [] then (r, t', s1) else counted_attempts purpose ladder rest fetch (i + 1) t' s1
      | _ \<Rightarrow>
          let s2 = snd (report_node_status_shape t' purpose ladder s1)
          in (r, t', if i > 0 then in_scope purpose record_recovered_on_retry s2 else s2))"

definition counted_node_status ::
  "status_config \<Rightarrow> read_purpose \<Rightarrow> wallet_fetch \<Rightarrow> reference_reading \<Rightarrow> identity_verdict \<Rightarrow> int \<Rightarrow> tip_sample option
     \<Rightarrow> node_counters \<Rightarrow> (node_status option \<times> tip_sample option) \<times> node_counters" where
  "counted_node_status cfg purpose fetch tip identity now lastTip s =
     (if \<not> sc_sender_is_zallet cfg then ((None, lastTip), s)
      else
        let ladder = node_status_attempts_ms (sc_timeoutMs cfg) purpose;
            (r, t, s1) = counted_attempts purpose ladder ladder fetch 0 now s;
            failed = (\<lambda>kind detail. ((None, lastTip), snd (record_node_status_failure kind (Some detail) t purpose s1)));
            thrown = (\<lambda>e. let (res, s2) = failed (classify_node_status_error e)
                                  (After_Detail (node_status_budget_ms (sc_timeoutMs cfg) purpose) purpose)
                          in (res, snd (report_node_status_shape t purpose ladder s2)))
        in case r of
             Reply_Http code \<Rightarrow> failed Bad_Http (Status_Detail code purpose)
           | Reply_Ok (Heights w n) \<Rightarrow>
               (case (height_of_field w, height_of_field n) of
                  (Some wh, Some nh) \<Rightarrow>
                    let (st, nxt) = status_of cfg wh nh tip identity t lastTip in ((Some st, nxt), s1)
                | _ \<Rightarrow> failed Bad_Body (Heights_Detail (height_shape_of w) (height_shape_of n) purpose))
           | Reply_Ok (Body_Throws e) \<Rightarrow> thrown e
           | Reply_Throws e \<Rightarrow> thrown e)"

section \<open>Every failure is in exactly one line\<close>

record failure_event =
  fe_kind :: read_failure
  fe_detail :: "failure_note option"
  fe_now :: int
  fe_scope :: read_purpose

definition fe_key :: "failure_event \<Rightarrow> read_failure \<times> read_purpose" where
  "fe_key f = (fe_kind f, fe_scope f)"

type_synonym stamped_line = "(read_failure \<times> read_purpose) \<times> int \<times> node_line"

definition failure_step :: "stamped_line list \<times> node_counters \<Rightarrow> failure_event \<Rightarrow> stamped_line list \<times> node_counters" where
  "failure_step acc f =
     (case record_node_status_failure (fe_kind f) (fe_detail f) (fe_now f) (fe_scope f) (snd acc) of
        (None, s) \<Rightarrow> (fst acc, s)
      | (Some l, s) \<Rightarrow> (fst acc @ [(fe_key f, fe_now f, l)], s))"

definition run_failures :: "failure_event list \<Rightarrow> stamped_line list \<times> node_counters" where
  "run_failures fs = foldl failure_step ([], no_counters) fs"

text \<open>How many failures a line stands for.\<close>

fun covered :: "node_line \<Rightarrow> int" where
  "covered (First_Failure _ _) = 1"
| "covered (More_Failures _ _ n _) = n"
| "covered _ = 0"

definition covered_for :: "read_failure \<times> read_purpose \<Rightarrow> stamped_line list \<Rightarrow> int" where
  "covered_for key ls = sum_list (map (\<lambda>(k, t, l). covered l) (filter (\<lambda>(k, t, l). k = key) ls))"

definition failures_for :: "read_failure \<times> read_purpose \<Rightarrow> failure_event list \<Rightarrow> int" where
  "failures_for key fs = int (length (filter (\<lambda>f. fe_key f = key) fs))"

definition throttled :: "stamped_line list \<Rightarrow> bool" where
  "throttled = sorted_wrt (\<lambda>(k, t, l) (k', t', l'). k = k' \<longrightarrow> t + THROTTLE_MS \<le> t')"

definition failures_ok :: "failure_event list \<Rightarrow> stamped_line list \<times> node_counters \<Rightarrow> bool" where
  "failures_ok fs acc \<longleftrightarrow> (case acc of (ls, s) \<Rightarrow>
     (\<forall>key. nullish (nc_countsByPath s key) 0 = failures_for key fs
        \<and> failures_for key fs = covered_for key ls + nullish (nc_sinceLastLog s key) 0
        \<and> (failures_for key fs = 0 \<longrightarrow> nullish (nc_sinceLastLog s key) 0 = 0))
     \<and> (\<forall>k. nc_counts s k = int (length (filter (\<lambda>f. fe_kind f = k) fs)))
     \<and> (\<forall>(key, t, l)\<in>set ls. 0 < failures_for key fs \<and> (\<exists>u. nc_lastLoggedAt s key = Some u \<and> t \<le> u))
     \<and> throttled ls)"

lemma failures_for_snoc: "failures_for key (fs @ [f]) = failures_for key fs + (if fe_key f = key then 1 else 0)"
  by (simp add: failures_for_def)

lemma failures_for_nonneg: "0 \<le> failures_for key fs"
  by (simp add: failures_for_def)

lemma covered_for_snoc: "covered_for key (ls @ [(k, t, l)]) = covered_for key ls + (if k = key then covered l else 0)"
  by (simp add: covered_for_def)

lemma throttled_snoc:
  "throttled (ls @ [(k, t, l)]) \<longleftrightarrow> throttled ls \<and> (\<forall>(k', t', l')\<in>set ls. k' = k \<longrightarrow> t' + THROTTLE_MS \<le> t)"
  by (auto simp: throttled_def sorted_wrt_append)

lemma run_failures_snoc: "run_failures (fs @ [f]) = failure_step (run_failures fs) f"
  by (simp add: run_failures_def)

lemma failures_okI:
  assumes "\<And>k. nullish (nc_countsByPath s k) 0 = failures_for k fs"
    and "\<And>k. failures_for k fs = covered_for k ls + nullish (nc_sinceLastLog s k) 0"
    and "\<And>k. failures_for k fs = 0 \<Longrightarrow> nullish (nc_sinceLastLog s k) 0 = 0"
    and "\<And>k. nc_counts s k = int (length (filter (\<lambda>f. fe_kind f = k) fs))"
    and "\<And>k t l. (k, t, l) \<in> set ls \<Longrightarrow> 0 < failures_for k fs \<and> (\<exists>u. nc_lastLoggedAt s k = Some u \<and> t \<le> u)"
    and "throttled ls"
  shows "failures_ok fs (ls, s)"
  using assms unfolding failures_ok_def by blast

lemma failure_step_ok:
  assumes "failures_ok fs (ls, s)"
  shows "failures_ok (fs @ [f]) (failure_step (ls, s) f)"
proof -
  let ?k = "fe_key f"
  let ?n = "nullish (nc_sinceLastLog s ?k) 0 + 1" and ?total = "nullish (nc_countsByPath s ?k) 0 + 1"
  have c1: "nullish (nc_countsByPath s k) 0 = failures_for k fs"
    and c2: "failures_for k fs = covered_for k ls + nullish (nc_sinceLastLog s k) 0"
    and c6: "failures_for k fs = 0 \<Longrightarrow> nullish (nc_sinceLastLog s k) 0 = 0"
    and c3: "nc_counts s m = int (length (filter (\<lambda>f. fe_kind f = m) fs))" and c5: "throttled ls" for k m
    using assms unfolding failures_ok_def prod.case by blast+
  have c4: "0 < failures_for k fs \<and> (\<exists>u. nc_lastLoggedAt s k = Some u \<and> t \<le> u)" if "(k, t, l) \<in> set ls" for k t l
    using assms that by (fastforce simp: failures_ok_def simp del: split_paired_All)
  have key: "(fe_kind f, fe_scope f) = ?k" by (simp add: fe_key_def)
  have total: "?total = failures_for ?k fs + 1" by (simp add: c1)
  show ?thesis
  proof (cases "?total \<noteq> 1 \<and> \<not> fe_now f - nullish (nc_lastLoggedAt s ?k) 0 \<ge> THROTTLE_MS")
    case True
    then have "failure_step (ls, s) f = (ls, s\<lparr>nc_counts := (nc_counts s)(fe_kind f := nc_counts s (fe_kind f) + 1),
        nc_sinceLastLog := (nc_sinceLastLog s)(?k \<mapsto> ?n), nc_countsByPath := (nc_countsByPath s)(?k \<mapsto> ?total)\<rparr>)"
      by (simp add: failure_step_def record_node_status_failure_def Let_def key)
    moreover have "0 < failures_for k (fs @ [f])" if "(k, t, l) \<in> set ls" for k t l
      using c4 [OF that] by (simp add: failures_for_snoc)
    moreover have "failures_for k (fs @ [f]) \<noteq> 0" if "k = ?k" for k
      using failures_for_nonneg [of k fs] that by (simp add: failures_for_snoc)
    ultimately show ?thesis using c1 c2 c3 c4 c5 c6
      by (auto intro!: failures_okI simp: failures_for_snoc split: if_splits)
  next
    case False
    have early: "t' + THROTTLE_MS \<le> fe_now f" if m: "(?k, t', l') \<in> set ls" for t' l'
    proof -
      from c4 [OF m] obtain u where "0 < failures_for ?k fs" "nc_lastLoggedAt s ?k = Some u" "t' \<le> u" by blast
      with False total show ?thesis by auto
    qed
    define l where "l = (if ?total = 1 then First_Failure (fe_kind f) (fe_detail f) else More_Failures (fe_kind f) (fe_detail f) ?n ?total)"
    define s' where "s' = write_line l (s\<lparr>nc_counts := (nc_counts s)(fe_kind f := nc_counts s (fe_kind f) + 1),
          nc_countsByPath := (nc_countsByPath s)(?k \<mapsto> ?total), nc_lastLoggedAt := (nc_lastLoggedAt s)(?k \<mapsto> fe_now f),
          nc_sinceLastLog := (nc_sinceLastLog s)(?k \<mapsto> 0)\<rparr>)"
    have step: "failure_step (ls, s) f = (ls @ [(?k, fe_now f, l)], s')"
      using False by (auto simp: failure_step_def record_node_status_failure_def Let_def key l_def s'_def)
    have cover: "covered l = ?n" using c6 [of ?k] total by (auto simp: l_def)
    show ?thesis unfolding step
    proof (rule failures_okI)
      fix k
      show "nullish (nc_countsByPath s' k) 0 = failures_for k (fs @ [f])"
        using c1 [of k] by (simp add: s'_def write_line_def failures_for_snoc)
      show "failures_for k (fs @ [f]) = covered_for k (ls @ [(?k, fe_now f, l)]) + nullish (nc_sinceLastLog s' k) 0"
        using c2 [of k] cover by (simp add: s'_def write_line_def failures_for_snoc covered_for_snoc)
      show "nullish (nc_sinceLastLog s' k) 0 = 0" if "failures_for k (fs @ [f]) = 0"
        using c6 [of k] that by (simp add: s'_def write_line_def failures_for_snoc split: if_splits)
      show "0 < failures_for k (fs @ [f]) \<and> (\<exists>u. nc_lastLoggedAt s' k = Some u \<and> t \<le> u)"
        if "(k, t, m) \<in> set (ls @ [(?k, fe_now f, l)])" for t m
        using c4 [of k t m] early [of t m] failures_for_nonneg [of k fs] that
        by (auto simp: s'_def write_line_def failures_for_snoc THROTTLE_MS_def)
    next
      show "throttled (ls @ [(?k, fe_now f, l)])" using c5 early by (auto simp: throttled_snoc)
    qed (use c3 in \<open>simp add: s'_def write_line_def\<close>)
  qed
qed

lemma run_failures_ok: "failures_ok fs (run_failures fs)"
proof (induction fs rule: rev_induct)
  case Nil
  show ?case unfolding run_failures_def foldl_Nil
    by (rule failures_okI) (simp_all add: no_counters_def failures_for_def covered_for_def throttled_def)
next
  case (snoc f fs)
  then show ?case unfolding run_failures_snoc using failure_step_ok by (cases "run_failures fs") auto
qed

lemma run_failures_log: "nc_log (snd (run_failures fs)) = map (\<lambda>(k, t, l). l) (fst (run_failures fs))"
proof (induction fs rule: rev_induct)
  case (snoc f fs)
  then show ?case
    by (auto simp: run_failures_snoc failure_step_def record_node_status_failure_def Let_def write_line_def
        split: option.splits if_splits prod.splits)
qed (simp add: run_failures_def no_counters_def)

text \<open>
  the throttle loses nothing. Whatever failures come on whatever paths and clocks, the lines written for
  one kind and path are at least a minute apart, the first failure and the counts in the later lines add
  up, with what is pending since the last line, to exactly the failures of that path, and the total of a kind
  is the sum over all of them.
\<close>

theorem throttled_lines_lose_nothing:
  assumes "run_failures fs = (ls, s)"
  shows "failures_for key fs = covered_for key ls + nullish (nc_sinceLastLog s key) 0
    \<and> nc_counts s kind = failures_for (kind, For_Claim) fs + failures_for (kind, For_Page) fs
    \<and> nc_log s = map (\<lambda>(k, t, l). l) ls
    \<and> (\<forall>i j. i < j \<longrightarrow> j < length ls \<longrightarrow> fst (ls ! i) = fst (ls ! j)
         \<longrightarrow> fst (snd (ls ! i)) + 60000 \<le> fst (snd (ls ! j)))"
proof -
  have ok: "failures_ok fs (ls, s)" using run_failures_ok [of fs] assms by simp
  have "int (length (filter (\<lambda>f. fe_kind f = kind) fs))
      = failures_for (kind, For_Claim) fs + failures_for (kind, For_Page) fs"
  proof (induction fs)
    case (Cons f fs)
    then show ?case by (cases "fe_scope f") (auto simp: failures_for_def fe_key_def)
  qed (simp add: failures_for_def)
  moreover have "fst (snd (ls ! i)) + 60000 \<le> fst (snd (ls ! j))"
    if "i < j" "j < length ls" "fst (ls ! i) = fst (ls ! j)" for i j
    using ok that sorted_wrt_nth_less [of _ ls i j]
    by (fastforce simp: failures_ok_def throttled_def split_beta THROTTLE_MS_def)
  moreover have "failures_for key fs = covered_for key ls + nullish (nc_sinceLastLog s key) 0"
    and "nc_counts s kind = int (length (filter (\<lambda>f. fe_kind f = kind) fs))"
    using ok unfolding failures_ok_def prod.case by blast+
  ultimately show ?thesis using run_failures_log [of fs] assms by simp
qed

theorem throttled_lines_lose_nothing_witness:
  "let f = \<lparr>fe_kind = Timed_Out, fe_detail = None, fe_now = 0, fe_scope = For_Claim\<rparr>;
       (ls, s) = run_failures [f, f\<lparr>fe_now := 10\<rparr>, f\<lparr>fe_now := 60000\<rparr>, f\<lparr>fe_now := 60010\<rparr>]
   in map (\<lambda>(k, t, l). covered l) ls = [1, 2] \<and> covered_for (Timed_Out, For_Claim) ls + nullish (nc_sinceLastLog s (Timed_Out, For_Claim)) 0 = 4"
proof -
  let ?f = "\<lparr>fe_kind = Timed_Out, fe_detail = None, fe_now = 0, fe_scope = For_Claim\<rparr>"
  let ?fs = "[?f, ?f\<lparr>fe_now := 10\<rparr>, ?f\<lparr>fe_now := 60000\<rparr>, ?f\<lparr>fe_now := 60010\<rparr>]"
  obtain ls s where r: "run_failures ?fs = (ls, s)" by (cases "run_failures ?fs")
  have "failures_for (Timed_Out, For_Claim) ?fs = 4" by (simp add: failures_for_def fe_key_def)
  moreover have "map (\<lambda>(k, t, l). covered l) (fst (run_failures ?fs)) = [1, 2]" by code_simp
  ultimately show ?thesis using throttled_lines_lose_nothing [OF r] r by (simp add: Let_def)
qed

section \<open>The histogram\<close>

definition bucket_low :: "nat \<Rightarrow> int" where
  "bucket_low i = (if i = 0 then 0 else LATENCY_BUCKET_EDGES_MS ! (i - 1))"

definition in_bucket :: "nat \<Rightarrow> int \<Rightarrow> bool" where
  "in_bucket i ms \<longleftrightarrow> bucket_low i \<le> ms \<and> (i < length LATENCY_BUCKET_EDGES_MS \<longrightarrow> ms < LATENCY_BUCKET_EDGES_MS ! i)"

lemma bucket_of_less: "bucket_of ms < 8"
  by (simp add: bucket_of_def LATENCY_BUCKET_EDGES_MS_def LATENCY_LABELS_def)

lemma bucket_of_iff:
  assumes "0 \<le> ms" and "i < 8"
  shows "bucket_of ms = i \<longleftrightarrow> in_bucket i ms"
proof -
  from assms(2) have "i \<in> {0, 1, 2, 3, 4, 5, 6, 7}" by auto
  then show ?thesis using assms(1)
    by (auto simp: bucket_of_def in_bucket_def bucket_low_def LATENCY_BUCKET_EDGES_MS_def LATENCY_LABELS_def)
qed

definition run_latencies :: "(int \<times> int) list \<Rightarrow> shape_counters" where
  "run_latencies xs = foldl (\<lambda>c (ms, now). record_latency ms now c) empty_counters xs"

definition valid_ms :: "(int \<times> int) list \<Rightarrow> int list" where
  "valid_ms xs = filter (\<lambda>ms. 0 \<le> ms) (map fst xs)"

lemma start_counting_frame [simp]:
  "sh_latency (start_counting now c) = sh_latency c" "sh_slowestMs (start_counting now c) = sh_slowestMs c"
  "sh_censored (start_counting now c) = sh_censored c" "sh_failed (start_counting now c) = sh_failed c"
  by (simp_all add: start_counting_def)

lemma sum_list_bump: "i < length xs \<Longrightarrow> sum_list (xs[i := xs ! i + 1]) = sum_list xs + (1 :: int)"
  by (induction xs arbitrary: i) (auto split: nat.split)

lemma reads_of_record:
  "0 \<le> ms \<Longrightarrow> length (sh_latency c) = 8 \<Longrightarrow> reads_of (record_latency ms now c) = reads_of c + 1"
  using bucket_of_less [of ms] by (simp add: record_latency_def Let_def reads_of_def sum_list_bump)

lemma run_latencies_ok:
  "length (sh_latency (run_latencies xs)) = 8
   \<and> (\<forall>i<8. sh_latency (run_latencies xs) ! i = int (length (filter (in_bucket i) (valid_ms xs))))
   \<and> reads_of (run_latencies xs) = int (length (valid_ms xs))
   \<and> sh_slowestMs (run_latencies xs) = Max (insert 0 (set (valid_ms xs)))"
proof (induction xs rule: rev_induct)
  case Nil
  show ?case by (auto simp: run_latencies_def valid_ms_def empty_counters_def reads_of_def LATENCY_LABELS_def nth_Cons' )
next
  case (snoc x xs)
  obtain ms now where x: "x = (ms, now)" by (cases x)
  have step: "run_latencies (xs @ [x]) = record_latency ms now (run_latencies xs)" by (simp add: run_latencies_def x)
  show ?case
  proof (cases "ms < 0")
    case True
    then show ?thesis using snoc step by (simp add: record_latency_def valid_ms_def x)
  next
    case False
    have v: "valid_ms (xs @ [x]) = valid_ms xs @ [ms]" using False by (simp add: valid_ms_def x)
    have m: "Max (insert 0 (set (valid_ms xs @ [ms]))) = max ms (Max (insert 0 (set (valid_ms xs))))"
      by (simp add: insert_commute [of 0 ms])
    have "sh_slowestMs (record_latency ms now (run_latencies xs)) = max ms (sh_slowestMs (run_latencies xs))"
      using False by (simp add: record_latency_def Let_def max_def)
    moreover have "reads_of (record_latency ms now (run_latencies xs)) = reads_of (run_latencies xs) + 1"
      using snoc False by (intro reads_of_record) auto
    moreover have "sh_latency (record_latency ms now (run_latencies xs)) ! i
        = int (length (filter (in_bucket i) (valid_ms xs @ [ms])))" if "i < 8" for i
      using snoc False that bucket_of_iff [of ms i] bucket_of_less [of ms]
      by (auto simp: record_latency_def Let_def nth_list_update)
    moreover have "length (sh_latency (record_latency ms now (run_latencies xs))) = 8"
      using snoc False by (simp add: record_latency_def Let_def)
    ultimately show ?thesis using snoc unfolding step v m by simp
  qed
qed

text \<open>
  the histogram is exact. After any reads, each bucket holds the number of recorded times between its
  two edges, every time is in exactly one bucket, the buckets add up to the reads, and the slowest is the
  maximum; a time a clock step made negative is not recorded.
\<close>

theorem latency_histogram_is_exact:
  "(\<forall>i<8. sh_latency (run_latencies xs) ! i = int (length (filter (in_bucket i) (valid_ms xs))))
   \<and> (\<forall>ms\<in>set (valid_ms xs). \<exists>!i. i < 8 \<and> in_bucket i ms)
   \<and> reads_of (run_latencies xs) = int (length (valid_ms xs))
   \<and> sh_slowestMs (run_latencies xs) = Max (insert 0 (set (valid_ms xs)))"
proof -
  have "\<exists>!i. i < 8 \<and> in_bucket i ms" if "ms \<in> set (valid_ms xs)" for ms
  proof (rule ex1I [of _ "bucket_of ms"])
    have "0 \<le> ms" using that by (auto simp: valid_ms_def)
    then show "bucket_of ms < 8 \<and> in_bucket (bucket_of ms) ms" and "\<And>i. i < 8 \<and> in_bucket i ms \<Longrightarrow> i = bucket_of ms"
      using bucket_of_less [of ms] bucket_of_iff [of ms] by auto
  qed
  then show ?thesis using run_latencies_ok [of xs] by blast
qed

section \<open>Every attempt and every null answer is counted\<close>

fun plain_reply :: "wallet_reply \<Rightarrow> status_answer option" where
  "plain_reply (Reply_Ok (Heights w n)) = Some (Status_Body (height_of_field w) (height_of_field n))"
| "plain_reply (Reply_Ok (Body_Throws e)) = Some Status_Unparsable"
| "plain_reply (Reply_Http code) = Some (Status_Http code)"
| "plain_reply (Reply_Throws e) = None"

definition plain_fetch :: "wallet_fetch \<Rightarrow> nat \<Rightarrow> int \<Rightarrow> int \<times> status_answer option" where
  "plain_fetch fetch i ms = map_prod id plain_reply (fetch i ms)"

fun attempts_made :: "int list \<Rightarrow> wallet_fetch \<Rightarrow> nat \<Rightarrow> int" where
  "attempts_made [] fetch i = 0"
| "attempts_made (ms # rest) fetch i =
     1 + (case snd (fetch i ms) of Reply_Throws _ \<Rightarrow> attempts_made rest fetch (i + 1) | _ \<Rightarrow> 0)"

definition failures_total :: "node_counters \<Rightarrow> int" where
  "failures_total s = sum_list (map (nc_counts s) NODE_STATUS_FAILURE_KINDS)"

definition attempts_counted :: "shape_counters \<Rightarrow> int" where
  "attempts_counted c = reads_of c + sh_censored c + sh_failed c"

definition counters_ok :: "node_counters \<Rightarrow> bool" where
  "counters_ok s \<longleftrightarrow> (\<forall>p. length (sh_latency (nc_byScope s p)) = 8)"

text \<open>\<open>same_sums p n s s'\<close>: the path \<open>p\<close> has counted \<open>n\<close> attempts more, the other path and the failures nothing.\<close>

definition same_sums :: "read_purpose \<Rightarrow> int \<Rightarrow> node_counters \<Rightarrow> node_counters \<Rightarrow> bool" where
  "same_sums p n s s' \<longleftrightarrow> counters_ok s' \<and> nc_counts s' = nc_counts s
     \<and> attempts_counted (nc_byScope s' p) = attempts_counted (nc_byScope s p) + n
     \<and> (\<forall>q. q \<noteq> p \<longrightarrow> nc_byScope s' q = nc_byScope s q)"

lemma same_sums_trans: "same_sums p n s s1 \<Longrightarrow> same_sums p m s1 s2 \<Longrightarrow> same_sums p (n + m) s s2"
  by (simp add: same_sums_def)

lemma in_scope_sums:
  assumes "counters_ok s" and "length (sh_latency (f (nc_byScope s p))) = 8"
    and "attempts_counted (f (nc_byScope s p)) = attempts_counted (nc_byScope s p) + n"
  shows "same_sums p n s (in_scope p f s)"
  using assms by (simp add: same_sums_def in_scope_def counters_ok_def)

lemma count_attempt_sums:
  assumes "counters_ok s" and "0 \<le> took"
  shows "same_sums p 1 s (count_attempt p r took now s)"
  unfolding count_attempt_def
proof (rule in_scope_sums [OF assms(1)])
  let ?c = "nc_byScope s p"
  have len: "length (sh_latency ?c) = 8" using assms(1) by (simp add: counters_ok_def)
  have frame: "sh_latency (record_failed_attempt took now ?c) = sh_latency ?c"
      "attempts_counted (record_failed_attempt took now ?c) = attempts_counted ?c + 1"
      "sh_latency (record_censored_read now ?c) = sh_latency ?c"
      "attempts_counted (record_censored_read now ?c) = attempts_counted ?c + 1"
      "length (sh_latency (record_latency took now ?c)) = 8"
      "sh_censored (record_latency took now ?c) = sh_censored ?c" "sh_failed (record_latency took now ?c) = sh_failed ?c"
    using len by (simp_all add: record_failed_attempt_def record_censored_read_def record_latency_def Let_def
        attempts_counted_def reads_of_def)
  have "attempts_counted (record_latency took now ?c) = attempts_counted ?c + 1"
    using reads_of_record [OF assms(2) len] frame(6,7) by (simp add: attempts_counted_def)
  then show "attempts_counted ((case r of Reply_Ok _ \<Rightarrow> record_latency took now
        | Reply_Http _ \<Rightarrow> record_failed_attempt took now
        | Reply_Throws e \<Rightarrow> if classify_node_status_error e = Timed_Out then record_censored_read now
            else record_failed_attempt took now) ?c) = attempts_counted ?c + 1"
    using frame by (simp split: wallet_reply.split)
  show "length (sh_latency ((case r of Reply_Ok _ \<Rightarrow> record_latency took now
        | Reply_Http _ \<Rightarrow> record_failed_attempt took now
        | Reply_Throws e \<Rightarrow> if classify_node_status_error e = Timed_Out then record_censored_read now
            else record_failed_attempt took now) ?c)) = 8"
    using frame len by (simp split: wallet_reply.split)
qed

lemma report_sums: "counters_ok s \<Longrightarrow> same_sums p 0 s (snd (report_node_status_shape now p ladder s))"
  by (auto simp: report_node_status_shape_def same_sums_def Let_def write_line_def in_scope_def counters_ok_def
      attempts_counted_def reads_of_def)

lemma recovered_sums: "counters_ok s \<Longrightarrow> same_sums p 0 s (in_scope p record_recovered_on_retry s)"
  by (rule in_scope_sums)
    (simp_all add: counters_ok_def record_recovered_on_retry_def attempts_counted_def reads_of_def)

lemma same_sums_ok: "same_sums p n s s' \<Longrightarrow> counters_ok s'"
  by (simp add: same_sums_def)

lemma answered_sums:
  assumes "counters_ok s" and "0 \<le> took"
  shows "same_sums p 1 s (let s2 = snd (report_node_status_shape t p ladder (count_attempt p r took t s))
      in if i > (0::nat) then in_scope p record_recovered_on_retry s2 else s2)"
proof -
  note a = count_attempt_sums [OF assms, of p r t]
  note b = same_sums_trans [OF a report_sums [OF same_sums_ok [OF a], of p t ladder]]
  show ?thesis using b same_sums_trans [OF b recovered_sums [OF same_sums_ok [OF b], of p]] by (simp add: Let_def)
qed

lemma counted_attempts_sums:
  assumes "counters_ok s" and "\<And>i ms. 0 \<le> fst (fetch i ms)" and "counted_attempts p ladder ats fetch i t s = (r, t', s')"
  shows "same_sums p (attempts_made ats fetch i) s s' \<and> attempt_loop ats (plain_fetch fetch) i t = (plain_reply r, t')"
  using assms(1,3)
proof (induction ats arbitrary: i t s)
  case Nil
  then show ?case by (auto simp: same_sums_def)
next
  case (Cons ms rest)
  obtain took a where f: "fetch i ms = (took, a)" by (cases "fetch i ms")
  have took: "0 \<le> took" using assms(2) [of i ms] f by simp
  note ans = answered_sums [OF Cons.prems(1) took, of p "t + took" ladder a i]
  note thr = count_attempt_sums [OF Cons.prems(1) took, of p a "t + took"]
  show ?case
  proof (cases a)
    case (Reply_Throws e)
    show ?thesis
    proof (cases "rest = []")
      case True
      then show ?thesis using Cons.prems(2) thr Reply_Throws by (auto simp: f plain_fetch_def Let_def)
    next
      case False
      with Cons.prems(2) Reply_Throws have "counted_attempts p ladder rest fetch (i + 1) (t + took)
          (count_attempt p a took (t + took) s) = (r, t', s')" by (simp add: f Let_def)
      from Cons.IH [OF same_sums_ok [OF thr] this] same_sums_trans [OF thr] False Reply_Throws
      show ?thesis by (auto simp: f plain_fetch_def)
    qed
  next
    case (Reply_Ok b)
    then show ?thesis using Cons.prems(2) ans by (cases b) (auto simp: f plain_fetch_def Let_def split: if_splits)
  next
    case (Reply_Http c)
    then show ?thesis using Cons.prems(2) ans by (auto simp: f plain_fetch_def Let_def split: if_splits)
  qed
qed

lemma record_failure_sums:
  "failures_total (snd (record_node_status_failure k d now p s)) = failures_total s + 1"
  "nc_byScope (snd (record_node_status_failure k d now p s)) = nc_byScope s"
  by (cases k; simp add: record_node_status_failure_def Let_def write_line_def failures_total_def
      NODE_STATUS_FAILURE_KINDS_def)+

text \<open>
  no read of the wallet's status goes uncounted. Counting changes nothing the reader sees: the status is
  the one of the read without counters. Each fetch that was issued is in exactly one of the three sums of
  its own path (answered, cut off at our deadline, failed), and an answer of \<open>null\<close> raises the failures by
  exactly one, a status by none, so the failures are the number of reads that came to nothing.
\<close>

theorem status_reads_are_counted:
  assumes "counted_node_status cfg purpose fetch tip identity now lastTip s = (res, s')"
    and "sc_sender_is_zallet cfg" and "counters_ok s" and "\<And>i ms. 0 \<le> fst (fetch i ms)"
  shows "res = get_node_status cfg purpose (plain_fetch fetch) tip identity now lastTip
    \<and> failures_total s' = failures_total s + (if fst res = None then 1 else 0)
    \<and> attempts_counted (nc_byScope s' purpose) = attempts_counted (nc_byScope s purpose)
        + attempts_made (node_status_attempts_ms (sc_timeoutMs cfg) purpose) fetch 0
    \<and> (\<forall>q. q \<noteq> purpose \<longrightarrow> nc_byScope s' q = nc_byScope s q) \<and> counters_ok s'"
proof -
  let ?ladder = "node_status_attempts_ms (sc_timeoutMs cfg) purpose"
  obtain r t s1 where c: "counted_attempts purpose ?ladder ?ladder fetch 0 now s = (r, t, s1)"
    by (cases "counted_attempts purpose ?ladder ?ladder fetch 0 now s") auto
  note sums = counted_attempts_sums [OF assms(3,4) c]
  have base: "failures_total s1 = failures_total s" using sums by (simp add: same_sums_def failures_total_def)
  have fail: "failures_total (snd (record_node_status_failure k d t purpose s1)) = failures_total s + 1" for k d
    by (simp add: record_failure_sums base)
  have after: "same_sums purpose 0 (snd (record_node_status_failure k d t purpose s1))
      (snd (report_node_status_shape t purpose ?ladder (snd (record_node_status_failure k d t purpose s1))))" for k d
    using sums by (intro report_sums) (simp add: counters_ok_def record_failure_sums same_sums_def)
  have loud: "failures_total (snd (report_node_status_shape t purpose ?ladder
      (snd (record_node_status_failure k d t purpose s1)))) = failures_total s + 1" for k d
    using after [of k d] fail [of k d] by (simp add: same_sums_def failures_total_def)
  show ?thesis
  proof (cases r)
    case (Reply_Ok b)
    show ?thesis
    proof (cases b)
      case (Heights w n)
      then show ?thesis using assms(1,2) c sums fail base Reply_Ok
        by (auto simp: counted_node_status_def get_node_status_def Let_def record_failure_sums same_sums_def
            counters_ok_def split: option.splits prod.splits)
    next
      case (Body_Throws e)
      then show ?thesis using assms(1,2) c sums loud after Reply_Ok
        by (auto simp: counted_node_status_def get_node_status_def Let_def record_failure_sums same_sums_def)
    qed
  next
    case (Reply_Http code)
    then show ?thesis using assms(1,2) c sums fail
      by (auto simp: counted_node_status_def get_node_status_def Let_def record_failure_sums same_sums_def counters_ok_def)
  next
    case (Reply_Throws e)
    then show ?thesis using assms(1,2) c sums loud after
      by (auto simp: counted_node_status_def get_node_status_def Let_def record_failure_sums same_sums_def)
  qed
qed

definition ex_fetch :: wallet_fetch where
  "ex_fetch i ms = (if i = 0 then (4000, Reply_Throws ''TimeoutError'') else (40, Reply_Http 503))"

theorem status_reads_are_counted_witness:
  "let s' = snd (counted_node_status ex_status_config For_Claim ex_fetch ex_tip ex_identity 5000 None no_counters)
   in failures_total s' = 1 \<and> attempts_counted (nc_byScope s' For_Claim) = 2"
proof -
  have ok: "counters_ok no_counters"
    by (simp add: counters_ok_def no_counters_def empty_counters_def LATENCY_LABELS_def)
  obtain res s' where c: "counted_node_status ex_status_config For_Claim ex_fetch ex_tip ex_identity 5000 None no_counters = (res, s')"
    by (cases "counted_node_status ex_status_config For_Claim ex_fetch ex_tip ex_identity 5000 None no_counters")
  have g: "get_node_status ex_status_config For_Claim (plain_fetch ex_fetch) ex_tip ex_identity 5000 None = (None, None)"
    by (simp add: get_node_status_def ex_status_config_def plain_fetch_def ex_fetch_def node_status_attempts_ms_def
        node_status_budget_ms_def node_status_timeout_ms_def Let_def)
  have "failures_total no_counters = 0" "attempts_counted (nc_byScope no_counters For_Claim) = 0"
    "attempts_made (node_status_attempts_ms (sc_timeoutMs ex_status_config) For_Claim) ex_fetch 0 = 2"
    by code_simp+
  then show ?thesis using status_reads_are_counted [OF c _ ok] g c
    by (simp add: ex_status_config_def ex_fetch_def)
qed

end
