(* ===== verification/Payouts.thy ===== *)
theory Payouts
  imports Freshness Js_String
begin

text \<open>
  What became of a payout: the wallet's own record of a transaction (\<open>src/src/lib/zcash/txstatus.ts\<close>),
  the verdict on its expiry (\<open>src/src/lib/zcash/payoutDead.ts\<close>), and the public explorers asked by hand
  (\<open>src/src/lib/zcash/payoutExternal.ts\<close>). Replies are arguments; reasons are the values they name.
\<close>

subsection \<open>txstatus.ts\<close>

definition is_txid :: "string \<Rightarrow> bool" where
  "is_txid s = (length s = 64 \<and> list_all is_hex (to_lower s))"

record tx_status =
  tx_known :: "bool option"
  tx_confirmations :: "int option"
  tx_height :: "int option"
  tx_expiryHeight :: "int option"

definition TX_UNKNOWN :: tx_status where
  "TX_UNKNOWN = \<lparr>tx_known = None, tx_confirmations = None, tx_height = None, tx_expiryHeight = None\<rparr>"

record raw_transaction =
  raw_confirmations :: "int option"
  raw_height :: "int option"
  raw_expiryheight :: "int option"

text \<open>The reply: a throw (timeout, network, bad JSON), an HTTP failure, or JSON with its error code
  and its result.\<close>

datatype tx_reply = Tx_Throws | Tx_Http int | Tx_Json "int option" "raw_transaction option"

definition not_negative :: "int option \<Rightarrow> int option" where
  "not_negative x = (case x of Some n \<Rightarrow> if n \<ge> 0 then Some n else None | None \<Rightarrow> None)"

definition get_tx_status :: "bool \<Rightarrow> string \<Rightarrow> tx_reply \<Rightarrow> tx_status" where
  "get_tx_status sender_is_zallet txid reply =
     (if \<not> sender_is_zallet \<or> \<not> is_txid txid then TX_UNKNOWN
      else case reply of
        Tx_Throws \<Rightarrow> TX_UNKNOWN
      | Tx_Http st \<Rightarrow> TX_UNKNOWN
      | Tx_Json (Some code) r \<Rightarrow> if code = -5 then TX_UNKNOWN\<lparr>tx_known := Some False\<rparr> else TX_UNKNOWN
      | Tx_Json None None \<Rightarrow> TX_UNKNOWN
      | Tx_Json None (Some r) \<Rightarrow>
          \<lparr>tx_known = Some True, tx_confirmations = Some (nullish (raw_confirmations r) 0),
           tx_height = not_negative (raw_height r), tx_expiryHeight = not_negative (raw_expiryheight r)\<rparr>)"

subsection \<open>payoutDead.ts\<close>

datatype payout_fate = Mined | Dead | Payout_Pending | Cannot_Tell

datatype payout_reason =
  Mined_With int | Wallet_Could_Not_Answer | Wallet_Has_No_Record | Tip_Not_Known | No_Expiry_Reported
| Never_Expires | Expired_Unmined int int | Headroom_Left int int

record payout_facts =
  pf_knownByWallet :: "bool option"
  pf_confirmations :: "int option"
  pf_expiryHeight :: "int option"
  pf_tip :: "int option"

record payout_verdict =
  pv_fate :: payout_fate
  pv_reason :: payout_reason

definition classify_payout :: "payout_facts \<Rightarrow> payout_verdict" where
  "classify_payout f =
     (if nullish (pf_confirmations f) 0 > 0
      then \<lparr>pv_fate = Mined, pv_reason = Mined_With (the (pf_confirmations f))\<rparr>
      else case pf_knownByWallet f of
        None \<Rightarrow> \<lparr>pv_fate = Cannot_Tell, pv_reason = Wallet_Could_Not_Answer\<rparr>
      | Some known \<Rightarrow>
          if \<not> known then \<lparr>pv_fate = Cannot_Tell, pv_reason = Wallet_Has_No_Record\<rparr>
          else (case pf_tip f of None \<Rightarrow> \<lparr>pv_fate = Cannot_Tell, pv_reason = Tip_Not_Known\<rparr>
           | Some tip \<Rightarrow>
               (case pf_expiryHeight f of None \<Rightarrow> \<lparr>pv_fate = Cannot_Tell, pv_reason = No_Expiry_Reported\<rparr>
                | Some e \<Rightarrow>
                    if e = 0 then \<lparr>pv_fate = Payout_Pending, pv_reason = Never_Expires\<rparr>
                    else if tip \<ge> e then \<lparr>pv_fate = Dead, pv_reason = Expired_Unmined tip e\<rparr>
                    else \<lparr>pv_fate = Payout_Pending, pv_reason = Headroom_Left (e - tip) tip\<rparr>)))"

definition should_alarm :: "payout_verdict \<Rightarrow> bool" where
  "should_alarm v = (pv_fate v = Dead)"

definition facts_of :: "tx_status \<Rightarrow> int option \<Rightarrow> payout_facts" where
  "facts_of s tip = \<lparr>pf_knownByWallet = tx_known s, pf_confirmations = tx_confirmations s,
     pf_expiryHeight = tx_expiryHeight s, pf_tip = tip\<rparr>"

subsection \<open>payoutExternal.ts\<close>

datatype external_state = Ext_Confirmed | Ext_Absent | Ext_Cannot_Verify

datatype sighting_detail =
  Not_A_Txid | No_Answer string | Http_Not_Negative int | Not_Json_Answer | Not_An_Object
| Different_Transaction string | Mined_At int | Says_Missing | Height_Without_Echo int
| Echo_Without_Height | Proves_Nothing

record sighting =
  sg_state :: external_state
  sg_height :: "int option"
  sg_source :: string
  sg_detail :: sighting_detail

text \<open>The fields of the object a source answered with, where they have the type asked for.\<close>

record explorer_body =
  xb_txid :: "string option"
  xb_hash :: "string option"
  xb_blockHeight :: "int option"
  xb_height :: "int option"
  xb_status :: "string option"
  xb_found_false :: bool

datatype explorer_reply =
  Xr_Throws string | Xr_Http int | Xr_Not_Json | Xr_Not_Object | Xr_Object explorer_body

definition unverifiable :: "string \<Rightarrow> sighting_detail \<Rightarrow> sighting" where
  "unverifiable src d = \<lparr>sg_state = Ext_Cannot_Verify, sg_height = None, sg_source = src, sg_detail = d\<rparr>"

definition or_else :: "'a option \<Rightarrow> 'a option \<Rightarrow> 'a option" where
  "or_else a b = (case a of Some x \<Rightarrow> Some x | None \<Rightarrow> b)"

definition echo_of :: "explorer_body \<Rightarrow> string option" where
  "echo_of d = or_else (xb_txid d) (xb_hash d)"

definition height_of :: "explorer_body \<Rightarrow> int option" where
  "height_of d = or_else (xb_blockHeight d) (xb_height d)"

definition mined_height_of :: "explorer_body \<Rightarrow> int option" where
  "mined_height_of d = (case height_of d of Some h \<Rightarrow> if h > 0 then Some h else None | None \<Rightarrow> None)"

definition explicitly_missing :: "explorer_body \<Rightarrow> bool" where
  "explicitly_missing d =
     (xb_found_false d \<or> to_lower (nullish (xb_status d) []) \<in> {''not_found'', ''notfound'', ''unknown''})"

definition judge_body :: "string \<Rightarrow> string \<Rightarrow> explorer_body \<Rightarrow> sighting" where
  "judge_body txid src d =
     (if (case echo_of d of Some e \<Rightarrow> to_lower e \<noteq> to_lower txid | None \<Rightarrow> False)
      then unverifiable src (Different_Transaction (take 12 (the (echo_of d))))
      else if mined_height_of d \<noteq> None \<and> echo_of d \<noteq> None
      then \<lparr>sg_state = Ext_Confirmed, sg_height = mined_height_of d, sg_source = src,
            sg_detail = Mined_At (the (mined_height_of d))\<rparr>
      else if explicitly_missing d
      then \<lparr>sg_state = Ext_Absent, sg_height = None, sg_source = src, sg_detail = Says_Missing\<rparr>
      else if mined_height_of d \<noteq> None then unverifiable src (Height_Without_Echo (the (mined_height_of d)))
      else if echo_of d \<noteq> None then unverifiable src Echo_Without_Height
      else unverifiable src Proves_Nothing)"

definition ask_one_source :: "string \<Rightarrow> string \<times> explorer_reply \<Rightarrow> sighting" where
  "ask_one_source txid sr =
     (if \<not> is_txid txid then unverifiable (fst sr) Not_A_Txid
      else case snd sr of
        Xr_Throws name \<Rightarrow> unverifiable (fst sr) (No_Answer name)
      | Xr_Http st \<Rightarrow> unverifiable (fst sr) (Http_Not_Negative st)
      | Xr_Not_Json \<Rightarrow> unverifiable (fst sr) Not_Json_Answer
      | Xr_Not_Object \<Rightarrow> unverifiable (fst sr) Not_An_Object
      | Xr_Object d \<Rightarrow> judge_body txid (fst sr) d)"

datatype external_detail =
  Disagree_On_Height "int option list" | Confirmed_By "string list" | All_Say_Missing "string list"
| Each_Detail "(string \<times> sighting_detail) list"

record external_verdict =
  ev_state :: external_state
  ev_height :: "int option"
  ev_sightings :: "sighting list"
  ev_detail :: external_detail

definition confirm_externally :: "string \<Rightarrow> (string \<times> explorer_reply) list \<Rightarrow> external_verdict" where
  "confirm_externally txid srcs =
     (let sightings = map (ask_one_source txid) srcs;
          confirmed = filter (\<lambda>s. sg_state s = Ext_Confirmed) sightings;
          absent = filter (\<lambda>s. sg_state s = Ext_Absent) sightings;
          heights = remdups (map sg_height confirmed)
      in if length heights > 1
         then \<lparr>ev_state = Ext_Cannot_Verify, ev_height = None, ev_sightings = sightings,
               ev_detail = Disagree_On_Height heights\<rparr>
         else if confirmed \<noteq> [] \<and> absent = []
         then \<lparr>ev_state = Ext_Confirmed, ev_height = sg_height (hd confirmed), ev_sightings = sightings,
               ev_detail = Confirmed_By (map sg_source confirmed)\<rparr>
         else if length absent \<ge> 2 \<and> length absent = length sightings
         then \<lparr>ev_state = Ext_Absent, ev_height = None, ev_sightings = sightings,
               ev_detail = All_Say_Missing (map sg_source absent)\<rparr>
         else \<lparr>ev_state = Ext_Cannot_Verify, ev_height = None, ev_sightings = sightings,
               ev_detail = Each_Detail (map (\<lambda>s. (sg_source s, sg_detail s)) sightings)\<rparr>)"

definition DEFAULT_SOURCES :: "string list" where "DEFAULT_SOURCES = [''cipherscan'']"

subsection \<open>The alarm is exact\<close>

lemma dead_iff:
  "should_alarm (classify_payout f) \<longleftrightarrow>
     \<not> nullish (pf_confirmations f) 0 > 0 \<and> pf_knownByWallet f = Some True
     \<and> (\<exists>tip e. pf_tip f = Some tip \<and> pf_expiryHeight f = Some e \<and> e \<noteq> 0 \<and> e \<le> tip)"
  by (auto simp: should_alarm_def classify_payout_def split: option.splits)

lemma not_negative_Some: "not_negative x = Some n \<longleftrightarrow> x = Some n \<and> 0 \<le> n"
  by (auto simp: not_negative_def split: option.splits)

lemma status_known:
  "tx_known (get_tx_status zallet txid reply) = Some True \<longleftrightarrow>
     zallet \<and> is_txid txid \<and> (\<exists>r. reply = Tx_Json None (Some r))"
  by (cases reply) (auto simp: get_tx_status_def TX_UNKNOWN_def split: option.split)

text \<open>
  the alarm is raised for a transaction exactly when our wallet answered that it knows it, that
  it has no confirmation and that it has an expiry, and our node's tip has reached that expiry;
  every failure of the lookup (no answer, an HTTP error, an unknown transaction, an unreadable id)
  leaves the alarm silent, and while the wallet's answer stands it stays raised at every later tip.
\<close>

theorem alarm_is_exact_and_stable:
  "(should_alarm (classify_payout (facts_of (get_tx_status zallet txid reply) tip)) \<longleftrightarrow>
      zallet \<and> is_txid txid \<and> (\<exists>r t e. reply = Tx_Json None (Some r) \<and> nullish (raw_confirmations r) 0 \<le> 0
        \<and> raw_expiryheight r = Some e \<and> 0 < e \<and> tip = Some t \<and> e \<le> t))
   \<and> (\<forall>t'\<ge>t. should_alarm (classify_payout (facts_of s (Some t))) \<longrightarrow>
      should_alarm (classify_payout (facts_of s (Some t'))))"
proof
  have get: "get_tx_status zallet txid (Tx_Json None (Some r)) =
      \<lparr>tx_known = Some True, tx_confirmations = Some (nullish (raw_confirmations r) 0),
       tx_height = not_negative (raw_height r), tx_expiryHeight = not_negative (raw_expiryheight r)\<rparr>"
    if "zallet" "is_txid txid" for r using that by (simp add: get_tx_status_def)
  show "should_alarm (classify_payout (facts_of (get_tx_status zallet txid reply) tip)) \<longleftrightarrow>
      zallet \<and> is_txid txid \<and> (\<exists>r t e. reply = Tx_Json None (Some r) \<and> nullish (raw_confirmations r) 0 \<le> 0
        \<and> raw_expiryheight r = Some e \<and> 0 < e \<and> tip = Some t \<and> e \<le> t)"
  proof (cases "zallet \<and> is_txid txid \<and> (\<exists>r. reply = Tx_Json None (Some r))")
    case True
    then obtain r where z: "zallet" "is_txid txid" and r: "reply = Tx_Json None (Some r)" by blast
    show ?thesis unfolding r get [OF z] dead_iff facts_of_def using z by (auto simp: not_negative_Some not_less)
  next
    case False
    then have "tx_known (get_tx_status zallet txid reply) \<noteq> Some True" by (simp add: status_known)
    then have "\<not> should_alarm (classify_payout (facts_of (get_tx_status zallet txid reply) tip))"
      by (simp add: dead_iff facts_of_def)
    then show ?thesis using False by blast
  qed
  show "\<forall>t'\<ge>t. should_alarm (classify_payout (facts_of s (Some t))) \<longrightarrow>
      should_alarm (classify_payout (facts_of s (Some t')))"
    by (auto simp: dead_iff facts_of_def)
qed

lemma alarm_is_exact_and_stable_witness:
  "should_alarm (classify_payout (facts_of (get_tx_status True (replicate 64 CHR ''a'')
     (Tx_Json None (Some \<lparr>raw_confirmations = None, raw_height = None, raw_expiryheight = Some 900\<rparr>))) (Some 900)))"
  using alarm_is_exact_and_stable [THEN conjunct1, of True "replicate 64 CHR ''a''"
      "Tx_Json None (Some \<lparr>raw_confirmations = None, raw_height = None, raw_expiryheight = Some 900\<rparr>)" "Some 900"]
  by (simp add: is_txid_def to_lower_def lower_char_def is_hex_def is_digit_def list_all_iff)

text \<open>
  a payout the gates let through is not dead when it is made: with both chain gates passed, the
  expiry the wallet stamps (its scanned height plus the delta) leaves at least ten blocks under the
  independent tip and at least twenty under our own node's, so the verdict is pending with that much
  headroom, and no later than ten further blocks of the reference can the alarm ring.
\<close>

theorem gated_payout_has_headroom:
  assumes gates: "both_gates_pass shield_conf wallet_conf (Some w) (Some n) tip"
    and f: "f = \<lparr>pf_knownByWallet = Some True, pf_confirmations = Some 0,
                 pf_expiryHeight = Some (w + EXPIRY_DELTA_BLOCKS), pf_tip = Some t\<rparr>"
    and t: "t \<le> n + 19 \<or> (\<exists>e. rr_height tip = Some e \<and> t \<le> e + 9)" and pos: "0 \<le> w"
  shows "classify_payout f = \<lparr>pv_fate = Payout_Pending,
      pv_reason = Headroom_Left (w + EXPIRY_DELTA_BLOCKS - t) t\<rparr>"
proof -
  have ref: "\<exists>e. rr_height tip = Some e \<and> e + 10 \<le> w + EXPIRY_DELTA_BLOCKS"
    using safe_gates_leave_ten [of shield_conf "Some n" "rr_height tip" wallet_conf "Some w"] gates
    by (simp add: both_gates_pass_def read_chain_freshness_def)
  have own: "n + 20 \<le> w + EXPIRY_DELTA_BLOCKS"
    using gates by (auto simp: both_gates_pass_def may_build_from_wallet_def wallet_lag_freshness_def
        wallet_max_lag_blocks_def WALLET_LAG_CEILING_def EXPIRY_DELTA_BLOCKS_def Let_def split: if_splits)
  have "t < w + EXPIRY_DELTA_BLOCKS" using t ref own by auto
  moreover have "w + EXPIRY_DELTA_BLOCKS \<noteq> 0" using pos by (simp add: EXPIRY_DELTA_BLOCKS_def)
  ultimately show ?thesis by (simp add: classify_payout_def f)
qed

lemma gated_payout_has_headroom_witness:
  "pv_fate (classify_payout \<lparr>pf_knownByWallet = Some True, pf_confirmations = Some 0,
      pf_expiryHeight = Some (985 + EXPIRY_DELTA_BLOCKS), pf_tip = Some 1015\<rparr>) = Payout_Pending"
proof -
  have "both_gates_pass 50 50 (Some 985) (Some 1005) ex_tip" by code_simp
  from gated_payout_has_headroom [OF this refl, of 1015] show ?thesis by (simp add: ex_tip_def)
qed

subsection \<open>Explorers are believed only on positive evidence\<close>

lemma confirmed_sighting:
  assumes "sg_state (ask_one_source txid sr) = Ext_Confirmed"
  shows "\<exists>d h e. snd sr = Xr_Object d \<and> height_of d = Some h \<and> 0 < h \<and> echo_of d = Some e
    \<and> to_lower e = to_lower txid \<and> sg_height (ask_one_source txid sr) = Some h"
  using assms
  by (auto simp: ask_one_source_def judge_body_def unverifiable_def mined_height_of_def
      split: if_splits explorer_reply.splits option.splits)

lemma absent_sighting:
  assumes "sg_state (ask_one_source txid sr) = Ext_Absent"
  shows "\<exists>d. snd sr = Xr_Object d \<and> explicitly_missing d"
  using assms
  by (auto simp: ask_one_source_def judge_body_def unverifiable_def split: if_splits explorer_reply.splits)

text \<open>
  a confirmation names a source that answered about this very transaction with a mined height,
  which is the height reported, and no source denied it; a denial needs at least two sources, every
  one of them saying in so many words that it has no such transaction. With the one configured
  source a denial is impossible.
\<close>

theorem explorers_need_positive_evidence:
  "(ev_state (confirm_externally txid srcs) = Ext_Confirmed \<longrightarrow>
      (\<exists>sr\<in>set srcs. \<exists>d h e. snd sr = Xr_Object d \<and> height_of d = Some h \<and> 0 < h \<and> echo_of d = Some e
         \<and> to_lower e = to_lower txid \<and> ev_height (confirm_externally txid srcs) = Some h)
      \<and> (\<forall>sr\<in>set srcs. sg_state (ask_one_source txid sr) \<noteq> Ext_Absent))
   \<and> (ev_state (confirm_externally txid srcs) = Ext_Absent \<longrightarrow>
      2 \<le> length srcs \<and> (\<forall>sr\<in>set srcs. \<exists>d. snd sr = Xr_Object d \<and> explicitly_missing d))"
proof (intro conjI impI)
  let ?ss = "map (ask_one_source txid) srcs"
  let ?conf = "filter (\<lambda>s. sg_state s = Ext_Confirmed) ?ss"
  let ?abs = "filter (\<lambda>s. sg_state s = Ext_Absent) ?ss"
  {
    assume "ev_state (confirm_externally txid srcs) = Ext_Confirmed"
    then have c: "?conf \<noteq> []" "?abs = []"
      and h: "ev_height (confirm_externally txid srcs) = sg_height (hd ?conf)"
      by (auto simp: confirm_externally_def Let_def split: if_splits)
    from c(1) have "hd ?conf \<in> set ?conf" by (rule hd_in_set)
    then obtain sr where sr: "sr \<in> set srcs" "hd ?conf = ask_one_source txid sr"
      "sg_state (ask_one_source txid sr) = Ext_Confirmed" by auto
    from confirmed_sighting [OF sr(3)] sr h
    show "\<exists>sr\<in>set srcs. \<exists>d h e. snd sr = Xr_Object d \<and> height_of d = Some h \<and> 0 < h \<and> echo_of d = Some e
         \<and> to_lower e = to_lower txid \<and> ev_height (confirm_externally txid srcs) = Some h" by metis
    from c(2) show "\<forall>sr\<in>set srcs. sg_state (ask_one_source txid sr) \<noteq> Ext_Absent"
      by (auto simp: filter_empty_conv)
  next
    assume "ev_state (confirm_externally txid srcs) = Ext_Absent"
    then have l: "2 \<le> length ?abs" "length ?abs = length ?ss"
      by (auto simp: confirm_externally_def Let_def split: if_splits)
    then show "2 \<le> length srcs" by simp
    have all: "sg_state s = Ext_Absent" if "s \<in> set ?ss" for s
    proof (rule ccontr)
      assume "sg_state s \<noteq> Ext_Absent"
      with length_filter_less [of s ?ss "\<lambda>s. sg_state s = Ext_Absent"] that l(2) show False by simp
    qed
    show "\<forall>sr\<in>set srcs. \<exists>d. snd sr = Xr_Object d \<and> explicitly_missing d"
    proof
      fix sr assume "sr \<in> set srcs"
      then have "sg_state (ask_one_source txid sr) = Ext_Absent" by (intro all) simp
      then show "\<exists>d. snd sr = Xr_Object d \<and> explicitly_missing d" by (rule absent_sighting)
    qed
  }
qed

lemma explorers_need_positive_evidence_witness:
  "ev_state (confirm_externally (replicate 64 CHR ''a'')
     [(''cipherscan'', Xr_Object \<lparr>xb_txid = None, xb_hash = None, xb_blockHeight = None, xb_height = None,
        xb_status = Some ''not_found'', xb_found_false = True\<rparr>)]) \<noteq> Ext_Absent"
  using explorers_need_positive_evidence [THEN conjunct2, of "replicate 64 CHR ''a''"
      "[(''cipherscan'', Xr_Object \<lparr>xb_txid = None, xb_hash = None, xb_blockHeight = None, xb_height = None,
        xb_status = Some ''not_found'', xb_found_false = True\<rparr>)]"]
  by auto

end
