(* ===== verification/Rate_Limit.thy ===== *)
theory Rate_Limit
  imports Prelude "HOL-Library.AList"
begin

text \<open>
  The in-memory limiter in front of the read endpoints: \<open>src/src/lib/rateLimit.ts\<close>. Fixed windows
  per key, in whole seconds; the \<open>Map\<close> of windows is an association list in insertion order.
\<close>

definition MAX_TRACKED_KEYS :: nat where
  "MAX_TRACKED_KEYS = 20000"

record rl_verdict =
  allowed :: bool
  rl_retryAfterSeconds :: int

record rl_window =
  startedAt :: int
  rl_count :: int

record rate_limiter =
  rl_windowSeconds :: int
  rl_max :: int
  windows :: "(string \<times> rl_window) list"
  nextSweep :: int

definition create_rate_limiter :: "int \<Rightarrow> int \<Rightarrow> int \<Rightarrow> rate_limiter" where
  "create_rate_limiter windowSeconds mx now =
     (let w = max 1 windowSeconds
      in \<lparr>rl_windowSeconds = w, rl_max = max 1 mx, windows = [], nextSweep = now + w\<rparr>)"

definition rl_stale :: "int \<Rightarrow> int \<Rightarrow> rl_window \<Rightarrow> bool" where
  "rl_stale windowSeconds at w = (at - startedAt w \<ge> windowSeconds)"

definition sweep :: "int \<Rightarrow> rate_limiter \<Rightarrow> rate_limiter" where
  "sweep at r =
     r\<lparr>windows := filter (\<lambda>e. \<not> rl_stale (rl_windowSeconds r) at (snd e)) (windows r),
       nextSweep := at + rl_windowSeconds r\<rparr>"

definition check :: "string \<Rightarrow> int \<Rightarrow> rate_limiter \<Rightarrow> rl_verdict \<times> rate_limiter" where
  "check key at r0 =
     (let r = (if at \<ge> nextSweep r0 \<or> MAX_TRACKED_KEYS < length (windows r0) then sweep at r0 else r0);
          existing = map_of (windows r) key;
          yes = \<lparr>allowed = True, rl_retryAfterSeconds = 0\<rparr>;
          fresh = r\<lparr>windows := AList.update key \<lparr>startedAt = at, rl_count = 1\<rparr> (windows r)\<rparr>
      in case existing of
           None \<Rightarrow> if length (windows r) \<ge> MAX_TRACKED_KEYS then (yes, r) else (yes, fresh)
         | Some w \<Rightarrow>
             if rl_stale (rl_windowSeconds r) at w then (yes, fresh)
             else if rl_count w < rl_max r
             then (yes, r\<lparr>windows := AList.update key (w\<lparr>rl_count := rl_count w + 1\<rparr>) (windows r)\<rparr>)
             else (\<lparr>allowed = False,
                    rl_retryAfterSeconds = max 1 (rl_windowSeconds r - (at - startedAt w))\<rparr>, r))"

text \<open>A run of checks, as the requests arrive.\<close>

definition check_all :: "(string \<times> int) list \<Rightarrow> rate_limiter \<Rightarrow> rate_limiter" where
  "check_all ks r = fold (\<lambda>(k, at) r. snd (check k at r)) ks r"

fun allowed_count :: "string \<Rightarrow> (string \<times> int) list \<Rightarrow> rate_limiter \<Rightarrow> int" where
  "allowed_count k [] r = 0"
| "allowed_count k ((x, at) # ks) r =
     (if x = k \<and> allowed (fst (check x at r)) then 1 else 0) + allowed_count k ks (snd (check x at r))"

subsection \<open>Facts\<close>

definition rl_ok :: "rate_limiter \<Rightarrow> bool" where
  "rl_ok r = (distinct (map fst (windows r)) \<and> length (windows r) \<le> MAX_TRACKED_KEYS
     \<and> 1 \<le> rl_windowSeconds r \<and> 1 \<le> rl_max r)"

text \<open>The window of a key that still counts at a time.\<close>

definition live_window :: "rate_limiter \<Rightarrow> string \<Rightarrow> int \<Rightarrow> rl_window option" where
  "live_window r k at =
     (case map_of (windows r) k of None \<Rightarrow> None
      | Some w \<Rightarrow> if rl_stale (rl_windowSeconds r) at w then None else Some w)"

lemma map_of_filter_distinct:
  "distinct (map fst m) \<Longrightarrow> map_of (filter (\<lambda>e. P (snd e)) m) k =
     (case map_of m k of None \<Rightarrow> None | Some v \<Rightarrow> if P v then Some v else None)"
proof (induction m)
  case Nil
  then show ?case by simp
next
  case (Cons e m)
  have "map_of m k = None" if "fst e = k"
    using Cons.prems that by (simp add: map_of_eq_None_iff image_image)
  with Cons show ?case by (cases e) (auto split: option.splits)
qed

lemma sweep_fields [simp]:
  "rl_windowSeconds (sweep at r) = rl_windowSeconds r" "rl_max (sweep at r) = rl_max r"
  by (simp_all add: sweep_def)

lemma sweep_ok: "rl_ok r \<Longrightarrow> rl_ok (sweep at r)"
  by (auto simp: rl_ok_def sweep_def distinct_map_filter intro: order_trans [OF length_filter_le])

lemma sweep_live:
  assumes "rl_ok r" and "at \<le> t"
  shows "live_window (sweep at r) k t = live_window r k t"
proof -
  have "map_of (windows (sweep at r)) k = (case map_of (windows r) k of None \<Rightarrow> None
      | Some v \<Rightarrow> if \<not> rl_stale (rl_windowSeconds r) at v then Some v else None)"
    using map_of_filter_distinct [where P = "\<lambda>w. \<not> rl_stale (rl_windowSeconds r) at w" and m = "windows r"]
      assms(1) unfolding sweep_def rl_ok_def by simp
  moreover have "rl_stale (rl_windowSeconds r) t v" if "rl_stale (rl_windowSeconds r) at v" for v
    using that assms(2) by (simp add: rl_stale_def)
  ultimately show ?thesis by (auto simp: live_window_def split: option.splits)
qed

lemma update_length:
  "length (AList.update k v m) = (if k \<in> fst ` set m then length m else Suc (length m))"
  by (induction m) (auto split: if_splits)

definition swept :: "int \<Rightarrow> rate_limiter \<Rightarrow> rate_limiter" where
  "swept at r = (if at \<ge> nextSweep r \<or> MAX_TRACKED_KEYS < length (windows r) then sweep at r else r)"

lemma swept_facts:
  "rl_windowSeconds (swept at r) = rl_windowSeconds r" "rl_max (swept at r) = rl_max r"
  "rl_ok r \<Longrightarrow> rl_ok (swept at r)" "length (windows (swept at r)) \<le> length (windows r)"
  by (simp_all add: swept_def sweep_ok) (simp add: sweep_def)

lemma swept_live: "rl_ok r \<Longrightarrow> at \<le> t \<Longrightarrow> live_window (swept at r) k t = live_window r k t"
  by (simp add: swept_def sweep_live)

lemma check_swept:
  "check k at r0 =
     (let r = swept at r0; yes = \<lparr>allowed = True, rl_retryAfterSeconds = 0\<rparr> in
      case live_window r k at of
        Some w \<Rightarrow>
          if rl_count w < rl_max r
          then (yes, r\<lparr>windows := AList.update k (w\<lparr>rl_count := rl_count w + 1\<rparr>) (windows r)\<rparr>)
          else (\<lparr>allowed = False,
                 rl_retryAfterSeconds = max 1 (rl_windowSeconds r - (at - startedAt w))\<rparr>, r)
      | None \<Rightarrow>
          (yes, if map_of (windows r) k = None \<and> MAX_TRACKED_KEYS \<le> length (windows r) then r
                else r\<lparr>windows := AList.update k \<lparr>startedAt = at, rl_count = 1\<rparr> (windows r)\<rparr>))"
proof -
  have "check k at r0 = (let r = swept at r0;
          existing = map_of (windows r) k;
          yes = \<lparr>allowed = True, rl_retryAfterSeconds = 0\<rparr>;
          fresh = r\<lparr>windows := AList.update k \<lparr>startedAt = at, rl_count = 1\<rparr> (windows r)\<rparr>
      in case existing of
           None \<Rightarrow> if length (windows r) \<ge> MAX_TRACKED_KEYS then (yes, r) else (yes, fresh)
         | Some w \<Rightarrow>
             if rl_stale (rl_windowSeconds r) at w then (yes, fresh)
             else if rl_count w < rl_max r
             then (yes, r\<lparr>windows := AList.update k (w\<lparr>rl_count := rl_count w + 1\<rparr>) (windows r)\<rparr>)
             else (\<lparr>allowed = False,
                    rl_retryAfterSeconds = max 1 (rl_windowSeconds r - (at - startedAt w))\<rparr>, r))"
    by (simp only: check_def swept_def)
  then show ?thesis by (auto simp: Let_def live_window_def split: option.splits)
qed

lemma check_ok: "rl_ok r \<Longrightarrow> rl_ok (snd (check k at r))"
proof -
  assume "rl_ok r"
  then have s: "rl_ok (swept at r)" by (simp add: swept_facts)
  have in_dom: "k \<in> fst ` set (windows (swept at r))" if "map_of (windows (swept at r)) k = Some w" for w
    using that by (force dest: map_of_SomeD)
  have out: "k \<notin> fst ` set (windows (swept at r))" if "map_of (windows (swept at r)) k = None"
    using that by (simp add: map_of_eq_None_iff)
  show ?thesis
    using s in_dom out unfolding check_swept Let_def live_window_def
    by (auto simp: rl_ok_def distinct_update update_length split: option.splits if_splits)
qed

lemma check_frame:
  "rl_windowSeconds (snd (check k at r)) = rl_windowSeconds r" "rl_max (snd (check k at r)) = rl_max r"
  "length (windows (snd (check k at r))) \<le> Suc (length (windows r))"
  using swept_facts(4) [of at r]
  by (auto simp: check_swept swept_facts Let_def update_length intro: le_SucI
      split: option.splits)

lemma check_other_live:
  assumes "rl_ok r" and "at \<le> t" and "k' \<noteq> k"
  shows "live_window (snd (check k' at r)) k t = live_window r k t"
proof -
  have "live_window (snd (check k' at r)) k t = live_window (swept at r) k t"
    using assms(3)
    by (auto simp: check_swept Let_def live_window_def update_conv'
        split: option.splits)
  with assms show ?thesis by (simp add: swept_live)
qed

text \<open>One check of the key itself, by the state of its window.\<close>

lemma check_own:
  assumes "rl_ok r"
  shows "live_window r k at = Some w \<Longrightarrow> rl_count w < rl_max r \<Longrightarrow>
      allowed (fst (check k at r)) \<and> map_of (windows (snd (check k at r))) k = Some (w\<lparr>rl_count := rl_count w + 1\<rparr>)"
    and "live_window r k at = Some w \<Longrightarrow> rl_max r \<le> rl_count w \<Longrightarrow>
      fst (check k at r) = \<lparr>allowed = False, rl_retryAfterSeconds = max 1 (rl_windowSeconds r - (at - startedAt w))\<rparr>
      \<and> map_of (windows (snd (check k at r))) k = Some w"
    and "live_window r k at = None \<Longrightarrow> length (windows r) < MAX_TRACKED_KEYS \<Longrightarrow>
      allowed (fst (check k at r)) \<and> map_of (windows (snd (check k at r))) k = Some \<lparr>startedAt = at, rl_count = 1\<rparr>"
    and "live_window r k at = None \<Longrightarrow> allowed (fst (check k at r))"
proof -
  have s: "live_window (swept at r) k at = live_window r k at" using assms by (simp add: swept_live)
  note d = check_swept Let_def swept_facts
  have l: "length (windows (swept at r)) < MAX_TRACKED_KEYS" if "length (windows r) < MAX_TRACKED_KEYS"
    using that swept_facts(4) [of at r] by simp
  show "live_window r k at = Some w \<Longrightarrow> rl_count w < rl_max r \<Longrightarrow>
      allowed (fst (check k at r)) \<and> map_of (windows (snd (check k at r))) k = Some (w\<lparr>rl_count := rl_count w + 1\<rparr>)"
    using s by (simp add: d update_conv')
  show "live_window r k at = Some w \<Longrightarrow> rl_max r \<le> rl_count w \<Longrightarrow>
      fst (check k at r) = \<lparr>allowed = False, rl_retryAfterSeconds = max 1 (rl_windowSeconds r - (at - startedAt w))\<rparr>
      \<and> map_of (windows (snd (check k at r))) k = Some w"
    using s by (auto simp: d live_window_def split: option.splits if_splits)
  show "live_window r k at = None \<Longrightarrow> length (windows r) < MAX_TRACKED_KEYS \<Longrightarrow>
      allowed (fst (check k at r)) \<and> map_of (windows (snd (check k at r))) k = Some \<lparr>startedAt = at, rl_count = 1\<rparr>"
    using s l by (simp add: d update_conv')
  show "live_window r k at = None \<Longrightarrow> allowed (fst (check k at r))"
    using s by (simp add: d)
qed

text \<open>Within one window length after its start a window admits what is left of the maximum.\<close>

lemma allowed_in_window:
  assumes "rl_ok r" and "map_of (windows r) k = Some w" and "\<forall>(x, at)\<in>set ks. at < startedAt w + rl_windowSeconds r"
    and "rl_count w \<le> rl_max r"
  shows "allowed_count k ks r \<le> rl_max r - rl_count w"
  using assms
proof (induction ks arbitrary: r w)
  case Nil
  then show ?case by simp
next
  case (Cons a ks)
  obtain x at where a: "a = (x, at)" by fastforce
  let ?r = "snd (check x at r)"
  have ok: "rl_ok ?r" using Cons.prems(1) by (rule check_ok)
  have live: "live_window r k at = Some w"
    using Cons.prems(2,3) a by (simp add: live_window_def rl_stale_def)
  have rest: "\<forall>(x, at)\<in>set ks. at < startedAt w + rl_windowSeconds ?r"
    using Cons.prems(3) by (simp add: check_frame)
  show ?case
  proof (cases "x = k")
    case False
    have "live_window ?r k at = Some w" using check_other_live Cons.prems(1) False live by simp
    then have m: "map_of (windows ?r) k = Some w" by (simp add: live_window_def split: option.splits if_splits)
    from Cons.IH [OF ok m rest] Cons.prems(4) False show ?thesis by (simp add: a check_frame)
  next
    case True
    show ?thesis
    proof (cases "rl_count w < rl_max r")
      case c: True
      with check_own(1) [OF Cons.prems(1), of k at w] live True
      have "map_of (windows ?r) k = Some (w\<lparr>rl_count := rl_count w + 1\<rparr>)" by simp
      from Cons.IH [OF ok this] rest c True show ?thesis by (simp add: a check_frame)
    next
      case c: False
      with check_own(2) [OF Cons.prems(1), of k at w] live True
      have "map_of (windows ?r) k = Some w" and "\<not> allowed (fst (check x at r))" by simp_all
      from Cons.IH [OF ok this(1) rest] this(2) Cons.prems(4) show ?thesis by (simp add: a check_frame)
    qed
  qed
qed

definition rl_counts :: "rate_limiter \<Rightarrow> bool" where
  "rl_counts r = (1 \<le> rl_max r \<and> (\<forall>k w. map_of (windows r) k = Some w \<longrightarrow> rl_count w \<le> rl_max r))"

lemma swept_map:
  assumes "rl_ok r"
  shows "map_of (windows (swept at r)) k = map_of (windows r) k \<or> map_of (windows (swept at r)) k = None"
  using assms map_of_filter_distinct [where P = "\<lambda>w. \<not> rl_stale (rl_windowSeconds r) at w" and m = "windows r" and k = k]
  by (auto simp: swept_def sweep_def rl_ok_def split: option.splits)

lemma check_other_map:
  assumes "rl_ok r" and "x \<noteq> k"
  shows "map_of (windows (snd (check x at r))) k = map_of (windows r) k
    \<or> map_of (windows (snd (check x at r))) k = None"
  using swept_map [OF assms(1), of at k] assms(2)
  by (auto simp: check_swept Let_def update_conv' split: option.splits)

lemma check_counts:
  assumes "rl_ok r" and "rl_counts r"
  shows "rl_counts (snd (check x at r))"
proof -
  have "rl_counts (swept at r)"
    using assms(2) swept_map [OF assms(1), of at] unfolding rl_counts_def swept_facts by (metis option.distinct(1))
  then show ?thesis
    by (auto simp: check_swept Let_def rl_counts_def update_conv' live_window_def split: option.splits if_splits)
qed

definition remaining :: "rate_limiter \<Rightarrow> string \<Rightarrow> int" where
  "remaining r k = (case map_of (windows r) k of None \<Rightarrow> 0 | Some w \<Rightarrow> rl_max r - rl_count w)"

lemma remaining_nonneg: "rl_counts r \<Longrightarrow> 0 \<le> remaining r k"
  by (auto simp: remaining_def rl_counts_def split: option.splits)

lemma allowed_in_interval:
  assumes "rl_ok r" and "rl_counts r"
    and "\<forall>(x, at)\<in>set ks. t0 \<le> at \<and> at < t0 + rl_windowSeconds r"
    and "length (windows r) + length ks \<le> MAX_TRACKED_KEYS"
  shows "allowed_count k ks r \<le> remaining r k + rl_max r"
  using assms
proof (induction ks arbitrary: r)
  case Nil
  then show ?case using remaining_nonneg [of r k] by (simp add: rl_counts_def)
next
  case (Cons a ks)
  obtain x at where a: "a = (x, at)" by fastforce
  let ?r = "snd (check x at r)"
  have ok: "rl_ok ?r" and cnt: "rl_counts ?r" using Cons.prems check_ok check_counts by blast+
  have rest: "\<forall>(x, at)\<in>set ks. t0 \<le> at \<and> at < t0 + rl_windowSeconds ?r"
    using Cons.prems(3) by (simp add: check_frame)
  have room: "length (windows ?r) + length ks \<le> MAX_TRACKED_KEYS"
    using Cons.prems(4) check_frame(3) [of x at r] by simp
  note IH = Cons.IH [OF ok cnt rest room, unfolded check_frame]
  have step: "allowed_count k (a # ks) r
      = (if x = k \<and> allowed (fst (check x at r)) then 1 else 0) + allowed_count k ks ?r"
    by (simp add: a)
  show ?case
  proof (cases "x = k")
    case False
    then have "remaining ?r k \<le> remaining r k"
      using check_other_map [OF Cons.prems(1) False, of at] remaining_nonneg [OF Cons.prems(2), of k]
      by (auto simp: remaining_def check_frame split: option.splits)
    with IH step False show ?thesis by simp
  next
    case x: True
    show ?thesis
    proof (cases "live_window r k at")
      case None
      from check_own(3) [OF Cons.prems(1) this] Cons.prems(4) x
      have m: "map_of (windows ?r) k = Some \<lparr>startedAt = at, rl_count = 1\<rparr>" by simp
      have "\<forall>(x, t)\<in>set ks. t < startedAt \<lparr>startedAt = at, rl_count = 1\<rparr> + rl_windowSeconds ?r"
        using Cons.prems(3) a by (fastforce simp: check_frame)
      from allowed_in_window [OF ok m this] Cons.prems(2)
      have "allowed_count k ks ?r \<le> rl_max r - 1" by (simp add: check_frame rl_counts_def)
      with step remaining_nonneg [OF Cons.prems(2), of k] show ?thesis by auto
    next
      case (Some w)
      then have m: "map_of (windows r) k = Some w" by (auto simp: live_window_def split: option.splits if_splits)
      show ?thesis
      proof (cases "rl_count w < rl_max r")
        case True
        with check_own(1) [OF Cons.prems(1) Some] x m IH step show ?thesis
          by (auto simp: remaining_def check_frame)
      next
        case False
        with check_own(2) [OF Cons.prems(1) Some] x m IH step show ?thesis
          by (simp add: remaining_def check_frame)
      qed
    qed
  qed
qed

lemma create_ok: "rl_ok (create_rate_limiter w m now) \<and> rl_counts (create_rate_limiter w m now)"
  by (simp add: create_rate_limiter_def Let_def rl_ok_def rl_counts_def)

lemma check_all_ok:
  "rl_ok r \<Longrightarrow> rl_counts r \<Longrightarrow> rl_ok (check_all ks r) \<and> rl_counts (check_all ks r)
     \<and> rl_windowSeconds (check_all ks r) = rl_windowSeconds r \<and> rl_max (check_all ks r) = rl_max r"
proof (induction ks arbitrary: r)
  case Nil
  then show ?case by (simp add: check_all_def)
next
  case (Cons a ks)
  obtain x at where a: "a = (x, at)" by fastforce
  have "check_all (a # ks) r = check_all ks (snd (check x at r))" by (simp add: check_all_def a)
  with Cons.IH [of "snd (check x at r)"] check_ok check_counts Cons.prems
  show ?case by (simp only: check_frame(1,2))
qed

lemma counts_positive:
  assumes "map_of (windows r) k = Some v" and "r = check_all before (create_rate_limiter w m now)"
  shows "0 \<le> rl_count v"
proof -
  have "\<forall>e\<in>set (windows (check_all ks r')). 0 \<le> rl_count (snd e)"
    if "\<forall>e\<in>set (windows r'). 0 \<le> rl_count (snd e)" for ks r'
    using that
  proof (induction ks arbitrary: r')
    case Nil
    then show ?case by (simp add: check_all_def)
  next
    case (Cons a ks)
    obtain x at where a: "a = (x, at)" by fastforce
    have sw: "\<forall>e\<in>set (windows (swept at r')). 0 \<le> rl_count (snd e)"
      using Cons.prems by (auto simp: swept_def sweep_def)
    have upd: "set (AList.update x u l) \<subseteq> insert (x, u) (set l)" for u :: rl_window and l
      by (induction l) auto
    have "\<forall>e\<in>set (windows (snd (check x at r'))). 0 \<le> rl_count (snd e)"
    proof (cases "live_window (swept at r') x at")
      case None
      with sw upd [of "\<lparr>startedAt = at, rl_count = 1\<rparr>" "windows (swept at r')"] show ?thesis
        by (auto simp: check_swept Let_def)
    next
      case (Some u)
      then have "(x, u) \<in> set (windows (swept at r'))"
        by (auto simp: live_window_def dest: map_of_SomeD split: option.splits if_splits)
      with sw have "0 \<le> rl_count u" by fastforce
      with Some sw upd [of "u\<lparr>rl_count := rl_count u + 1\<rparr>" "windows (swept at r')"] show ?thesis
        by (auto simp: check_swept Let_def)
    qed
    with Cons.IH show ?case by (simp add: check_all_def a)
  qed
  from this [of "create_rate_limiter w m now" before] assms show ?thesis
    by (force simp: create_rate_limiter_def Let_def dest: map_of_SomeD)
qed

lemma full_window_stays:
  assumes "rl_ok r" and "map_of (windows r) k = Some w" and "rl_max r \<le> rl_count w"
    and "\<forall>(x, at)\<in>set ks. at < startedAt w + rl_windowSeconds r"
  shows "map_of (windows (check_all ks r)) k = Some w \<and> rl_ok (check_all ks r)
    \<and> rl_windowSeconds (check_all ks r) = rl_windowSeconds r \<and> rl_max (check_all ks r) = rl_max r"
  using assms
proof (induction ks arbitrary: r)
  case Nil
  then show ?case by (simp add: check_all_def)
next
  case (Cons a ks)
  obtain x at where a: "a = (x, at)" by fastforce
  let ?r = "snd (check x at r)"
  have live: "live_window r k at = Some w"
    using Cons.prems(2,4) a by (simp add: live_window_def rl_stale_def)
  have "map_of (windows ?r) k = Some w"
  proof (cases "x = k")
    case True
    with check_own(2) [OF Cons.prems(1) live Cons.prems(3)] show ?thesis by simp
  next
    case False
    with check_other_live [of r at at x k] Cons.prems(1) live show ?thesis
      by (auto simp: live_window_def split: option.splits if_splits)
  qed
  with Cons.IH [of ?r] Cons.prems check_ok [of r x at] show ?case
    by (simp add: check_all_def a check_frame)
qed

subsection \<open>Properties\<close>

text \<open>
  A limiter serves a key at most twice its maximum in any stretch of time as long as its window,
  whatever came before: what is left of a running window, and one new window. Its table never holds
  more than the ceiling of tracked keys. (The table must have room for the stretch: past the ceiling
  an unknown key is let through untracked.)
\<close>

theorem limiter_serves_at_most_twice:
  assumes "r = check_all before (create_rate_limiter w m now)"
    and "\<forall>(x, at)\<in>set ks. t0 \<le> at \<and> at < t0 + max 1 w"
    and "length (windows r) + length ks \<le> MAX_TRACKED_KEYS"
  shows "allowed_count k ks r \<le> 2 * max 1 m \<and> length (windows r) \<le> MAX_TRACKED_KEYS"
proof -
  have ok: "rl_ok r" "rl_counts r" and par: "rl_windowSeconds r = max 1 w" "rl_max r = max 1 m"
    using create_ok [of w m now] check_all_ok [of "create_rate_limiter w m now" before] assms(1)
    by (auto simp: create_rate_limiter_def Let_def)
  define s where "s = remaining r k"
  have "0 \<le> rl_count v" if "map_of (windows r) k = Some v" for v
    using that assms(1) by (rule counts_positive)
  then have "s \<le> rl_max r"
    using par by (auto simp: s_def remaining_def split: option.splits)
  with allowed_in_interval [OF ok, of ks t0 k] assms(2,3) par ok(1) show ?thesis
    by (simp add: s_def rl_ok_def)
qed

definition ex_busy :: rate_limiter where
  "ex_busy = check_all [(''a'', 0)] (create_rate_limiter 10 1 0)"

theorem limiter_serves_at_most_twice_witness:
  "allowed_count ''a'' [(''a'', 5), (''a'', 6), (''a'', 7)] ex_busy \<le> 2"
proof -
  have "windows ex_busy = [(''a'', \<lparr>startedAt = 0, rl_count = 1\<rparr>)]"
    by (simp add: ex_busy_def check_all_def create_rate_limiter_def check_def MAX_TRACKED_KEYS_def Let_def)
  then have room: "length (windows ex_busy) + length [(''a'', 5::int), (''a'', 6), (''a'', 7)] \<le> MAX_TRACKED_KEYS"
    by (simp add: MAX_TRACKED_KEYS_def)
  have times: "\<forall>(x, at)\<in>set [(''a'', 5::int), (''a'', 6), (''a'', 7)]. 0 \<le> at \<and> at < 0 + max 1 10"
    by simp
  from limiter_serves_at_most_twice [OF ex_busy_def times room, of "''a''"] show ?thesis by simp
qed

text \<open>
  A refused key may come back when it was told to. After a refusal that named \<open>s\<close> seconds, the
  same key is served at that time, whatever other requests, its own included, arrived in between.
\<close>

theorem refused_key_is_served_later:
  assumes "rl_ok r" and "\<not> allowed (fst (check k t r))"
    and "s = rl_retryAfterSeconds (fst (check k t r))"
    and "\<forall>(x, at)\<in>set between. at < t + s"
  shows "1 \<le> s \<and> allowed (fst (check k (t + s) (check_all between (snd (check k t r)))))"
proof -
  obtain w where live: "live_window r k t = Some w" and full: "rl_max r \<le> rl_count w"
    using assms(2) check_own(1,4) [OF assms(1)] by (metis linorder_not_le option.exhaust)
  note c = check_own(2) [OF assms(1) live full]
  have fresh: "t - startedAt w < rl_windowSeconds r"
    using live by (auto simp: live_window_def rl_stale_def split: option.splits if_splits)
  then have s: "s = startedAt w + rl_windowSeconds r - t" using c assms(3) by simp
  let ?r = "snd (check k t r)" and ?r' = "check_all between (snd (check k t r))"
  have "map_of (windows ?r') k = Some w \<and> rl_ok ?r'
      \<and> rl_windowSeconds ?r' = rl_windowSeconds ?r \<and> rl_max ?r' = rl_max ?r"
    using c full assms(4) s
    by (intro full_window_stays) (auto simp: check_ok [OF assms(1)] check_frame)
  then have "live_window ?r' k (t + s) = None" and "rl_ok ?r'"
    by (auto simp: live_window_def rl_stale_def check_frame s)
  then have "allowed (fst (check k (t + s) ?r'))" by (intro check_own(4))
  with fresh s show ?thesis by simp
qed

definition ex_limiter :: rate_limiter where
  "ex_limiter = snd (check ''a'' 0 (create_rate_limiter 10 1 0))"

theorem refused_key_is_served_later_witness:
  "allowed (fst (check ''a'' 10 (check_all [(''b'', 4), (''a'', 9)] (snd (check ''a'' 3 ex_limiter)))))"
proof -
  have r: "ex_limiter = \<lparr>rl_windowSeconds = 10, rl_max = 1, windows = [(''a'', \<lparr>startedAt = 0, rl_count = 1\<rparr>)], nextSweep = 10\<rparr>"
    by (simp add: ex_limiter_def create_rate_limiter_def check_def MAX_TRACKED_KEYS_def Let_def)
  have v: "fst (check ''a'' 3 ex_limiter) = \<lparr>allowed = False, rl_retryAfterSeconds = 7\<rparr>"
    unfolding r by (simp add: check_def MAX_TRACKED_KEYS_def rl_stale_def)
  have ok: "rl_ok ex_limiter" unfolding ex_limiter_def by (rule check_ok) (simp add: create_ok)
  have "\<not> allowed (fst (check ''a'' 3 ex_limiter))" and "7 = rl_retryAfterSeconds (fst (check ''a'' 3 ex_limiter))"
    by (simp_all add: v)
  from refused_key_is_served_later [OF ok this, of "[(''b'', 4), (''a'', 9)]"] show ?thesis by simp
qed

end
