(* ===== verification/Routes.thy ===== *)
theory Routes
  imports Status_Route Payouts Rate_Limit
begin

text \<open>
  The small routes of \<open>src/src/app/api\<close>: \<open>tx\<close>, \<open>balance\<close>, \<open>network\<close>, \<open>account\<close>, \<open>health\<close>,
  \<open>pow/challenge\<close> and the catch-all, as handlers of the wrapper of \<open>Api\<close>, and \<open>lib/turnstile.ts\<close>, the gate
  no configuration serves. What a call to the outside gives is an argument; \<open>Inl\<close> is a thrown error.
\<close>

definition answer_error ::
  "int \<Rightarrow> string \<Rightarrow> string \<Rightarrow> (string \<times> json) list \<Rightarrow> api_handler" where
  "answer_error st err g extra cx = (let (r, cx') = api_error st err g extra cx in (Inr r, cx'))"

definition answer_ok :: "(string \<times> json) list \<Rightarrow> api_handler" where
  "answer_ok body cx = (Inr \<lparr>rs_status = 200, rs_body = body, rs_headers = []\<rparr>, cx)"

fun json_int :: "int option \<Rightarrow> json" where
  "json_int None = J_Null"
| "json_int (Some n) = J_Int n"

fun json_bool :: "bool option \<Rightarrow> json" where
  "json_bool None = J_Null"
| "json_bool (Some b) = J_Bool b"

section \<open>GET /api/tx\<close>

text \<open>\<open>reply\<close> is what the wallet would answer; \<open>now\<close> is the limiter's clock, in seconds.\<close>

definition tx_lookup :: "bool \<Rightarrow> string option \<Rightarrow> tx_reply \<Rightarrow> api_handler" where
  "tx_lookup zallet param reply =
     (let txid = nullish (map_option trim param) [] in
      if \<not> is_txid txid
      then answer_error 400 ''Not a transaction id. Expected 64 hex characters.'' ''badTxid'' []
      else let s = get_tx_status zallet txid reply in
        answer_ok [(''ok'', J_Bool True), (''txid'', J_Text txid), (''known'', json_bool (tx_known s)),
          (''confirmations'', json_int (tx_confirmations s)), (''height'', json_int (tx_height s))])"

definition tx_route ::
  "(string \<Rightarrow> string) \<Rightarrow> string \<Rightarrow> nat \<Rightarrow> bool \<Rightarrow> int \<Rightarrow> string option \<Rightarrow> string option \<Rightarrow> tx_reply \<Rightarrow> rate_limiter \<Rightarrow> api_ctx
     \<Rightarrow> ((string + api_response) \<times> api_ctx) \<times> rate_limiter" where
  "tx_route fp salt trusted zallet now xff param reply rl cx =
     (let raw = client_ip trusted xff in
      if truthy raw then
        (let (verdict, rl') = check (fingerprint_ip fp salt (the raw)) now rl in
         if \<not> allowed verdict
         then (answer_error 429 ''Too many lookups. Slow down for a moment.'' ''lookupRate''
                 [(''retryAfterSeconds'', J_Int (rl_retryAfterSeconds verdict))] cx, rl')
         else (tx_lookup zallet param reply cx, rl'))
      else (tx_lookup zallet param reply cx, rl))"

section \<open>POST /api/balance\<close>

fun kind_name :: "address_kind \<Rightarrow> string" where
  "kind_name Unified = ''unified''"
| "kind_name Sapling = ''sapling''"
| "kind_name Transparent = ''transparent''"

text \<open>The one character of these sentences outside ASCII, as its UTF-8 bytes.\<close>

definition ellipsis :: string where "ellipsis = [CHR 0xE2, CHR 0x80, CHR 0xA6]"

fun reason_text :: "address_reason \<Rightarrow> string" where
  "reason_text Address_Empty = ''Address is empty.''"
| "reason_text Address_Too_Long = ''Address is too long.''"
| "reason_text Looks_Mainnet = ''That looks like a MAINNET address. This faucet only funds testnet.''"
| "reason_text Looks_Regtest =
     ''That is a REGTEST address, from a private local chain. This faucet funds the public testnet.''"
| "reason_text Unified_Checksum = ''Malformed unified address (bad bech32m checksum). Re-copy it from your wallet.''"
| "reason_text Unified_Too_Short = ''Malformed unified address (payload too short).''"
| "reason_text Sapling_Checksum = ''Malformed Sapling address (bad bech32 checksum). Re-copy it from your wallet.''"
| "reason_text Sapling_Size = ''Malformed Sapling address (wrong payload size).''"
| "reason_text Transparent_Checksum = ''Malformed transparent address (bad base58check checksum). Retype or re-copy it.''"
| "reason_text Transparent_Version = ''Malformed transparent address (wrong version or payload size).''"
| "reason_text Unrecognized =
     ''Unrecognized address. Use utest1'' @ ellipsis @ '' (unified), ztestsapling1'' @ ellipsis @ '' (Sapling), or tm''
       @ ellipsis @ ''/t2'' @ ellipsis @ '' (transparent).''"

definition PRIVATE_BALANCE :: string where
  "PRIVATE_BALANCE = ''Shielded balances are private. They can'' @ [CHR 0x27] @ ''t be read from the address alone. Provide the viewing key in a wallet to see this balance.''"

text \<open>\<open>body\<close> is the address of the body where it is a string; \<open>lookup\<close> is the chain backend's answer.\<close>

definition balance_route :: "decoders \<Rightarrow> (string \<Rightarrow> string + int) \<Rightarrow> string option \<Rightarrow> api_handler" where
  "balance_route dec lookup body cx =
     (case body of
        None \<Rightarrow> answer_error 400 ''Invalid request.'' ''badBody'' [] cx
      | Some raw \<Rightarrow>
          if length raw > 512 then answer_error 400 ''Invalid request.'' ''badBody'' [] cx
          else let address = trim raw in
          (case validate_testnet_address dec address of
             Inl why \<Rightarrow> answer_error 400 (reason_text why) ''badBody'' [] cx
           | Inr info \<Rightarrow>
               if ai_shielded info
               then answer_ok [(''ok'', J_Bool True), (''address'', J_Text address),
                      (''kind'', J_Text (kind_name (ai_kind info))), (''shielded'', J_Bool True), (''queryable'', J_Bool False),
                      (''note'', J_Text PRIVATE_BALANCE)] cx
               else (case lookup address of
                   Inr zat \<Rightarrow>
                     answer_ok [(''ok'', J_Bool True), (''address'', J_Text address),
                       (''kind'', J_Text (kind_name (ai_kind info))), (''shielded'', J_Bool False), (''queryable'', J_Bool True),
                       (''balanceTaz'', J_Num (to_taz zat)), (''balanceZat'', J_Text (show_int zat))] cx
                 | Inl err \<Rightarrow>
                     answer_error 502 ''Balance lookup failed. The chain backend is unreachable right now.'' ''backend'' []
                       (log_error err (Some ''taddress balance lookup'') cx))))"

definition balance_get :: api_handler where
  "balance_get cx =
     (let (r, cx') = api_error 405 (''Send the address in a POST body ({\"address\": '' @ ellipsis @ ''}); it is not accepted in the URL, so it never reaches a log.'') ''methodNotAllowed'' [] cx
      in (Inr (r\<lparr>rs_headers := AList.update ''Allow'' ''POST'' (rs_headers r)\<rparr>), cx'))"

section \<open>GET /api/network\<close>

text \<open>The heights are texts, as the protobuf reader spells a 64-bit number; \<open>Number\<close> reads them.\<close>

record lightd_info =
  li_chainName :: string
  li_version :: string
  li_vendor :: string
  li_blockHeight :: string
  li_estimatedHeight :: string
  li_consensusBranchId :: string

fun json_num :: "rat option \<Rightarrow> json" where
  "json_num None = J_Null"
| "json_num (Some x) = J_Num x"

text \<open>
  \<open>latest\<close> is the height of the latest block as the protobuf reader spells it. A tip that is no number makes
  the difference \<open>NaN\<close>, which is printed as \<open>null\<close> and is not at most two.
\<close>

definition network_answer :: "lightd_info \<Rightarrow> string \<Rightarrow> string \<Rightarrow> api_handler" where
  "network_answer info endpoint latest =
     (let tip = js_number latest;
          estimated = js_number (if li_estimatedHeight info \<noteq> [] then li_estimatedHeight info else li_blockHeight info);
          behind = (case (estimated, tip) of (Some e, Some t) \<Rightarrow> Some (max 0 (e - t)) | _ \<Rightarrow> None)
      in answer_ok [(''ok'', J_Bool True), (''reachable'', J_Bool True), (''endpoint'', J_Text endpoint),
           (''chainName'', J_Text (li_chainName info)), (''version'', J_Text (li_version info)),
           (''vendor'', J_Text (li_vendor info)), (''blockHeight'', json_num tip), (''estimatedHeight'', json_num estimated),
           (''blocksBehind'', json_num behind),
           (''synced'', J_Bool (case behind of None \<Rightarrow> False | Some b \<Rightarrow> b \<le> 2)),
           (''consensusBranchId'', J_Text (li_consensusBranchId info))])"

definition network_route :: "string + (lightd_info \<times> string) \<times> string \<Rightarrow> api_handler" where
  "network_route readings cx =
     (case readings of
        Inr ((info, endpoint), latest) \<Rightarrow> network_answer info endpoint latest cx
      | Inl err \<Rightarrow>
          answer_ok [(''ok'', J_Bool False), (''reachable'', J_Bool False),
            (''error'', J_Text ''All lightwalletd endpoints are unreachable right now.''),
            (''requestId'', J_Text (ac_request_id cx))] (log_error err (Some ''lightwalletd unreachable'') cx))"

section \<open>POST /api/account, GET /api/health, the catch-all\<close>

datatype account_type = Transparent_Account | Shielded_Account

record throwaway_account =
  ta_type :: account_type
  ta_shielded :: bool
  ta_address :: string
  ta_secret :: string
  ta_secretLabel :: string
  ta_mock :: bool
  ta_warning :: string

definition SHIELDED_WARNING :: string where
  "SHIELDED_WARNING = ''Testnet throwaway. Real Orchard address + spending key. Copy the key now, it isn'' @ [CHR 0x27] @ ''t stored. ''
     @ ''Testnet only; never reuse on mainnet.''"

text \<open>
  \<open>body\<close> is what the schema makes of the body: nothing when it refuses, \<open>Some None\<close> when the type is left
  out. \<open>keypair\<close> is the external builder's address and key, \<open>fresh\<close> the transparent account.
\<close>

definition account_route ::
  "string + (string \<times> string) \<Rightarrow> string + throwaway_account \<Rightarrow> account_type option option \<Rightarrow> api_ctx
     \<Rightarrow> (api_response \<times> throwaway_account option) \<times> api_ctx" where
  "account_route keypair fresh body cx =
     (case body of
        None \<Rightarrow> let (r, cx') = api_error 400 ''Invalid request.'' ''badBody'' [] cx in ((r, None), cx')
      | Some choice \<Rightarrow>
          (let made = (if nullish choice Shielded_Account = Shielded_Account
             then map_sum id (\<lambda>(address, key). \<lparr>ta_type = Shielded_Account, ta_shielded = True, ta_address = address,
                    ta_secret = key, ta_secretLabel = ''Orchard spending key (testnet)'', ta_mock = False, ta_warning = SHIELDED_WARNING\<rparr>) keypair
             else fresh)
           in case made of
                Inr account \<Rightarrow> ((\<lparr>rs_status = 200, rs_body = [(''ok'', J_Bool True)], rs_headers = []\<rparr>, Some account), cx)
              | Inl err \<Rightarrow>
                  let (r, cx') = api_error 500 ''Account generation failed on our side. Try again in a moment.'' ''accountFailed'' []
                        (log_error err (Some ''account generation'') cx)
                  in ((r, None), cx')))"

definition health_route :: "int \<Rightarrow> api_handler" where
  "health_route nowMs =
     answer_ok [(''ok'', J_Bool True), (''service'', J_Text ''zcash-faucet''), (''ts'', J_Int (nowMs div 1000))]"

definition not_found_route :: api_handler where
  "not_found_route = answer_error 404 ''No such endpoint.'' ''notFound'' []"

section \<open>GET /api/pow/challenge\<close>

definition pow_challenge_route ::
  "route_config \<Rightarrow> libs \<Rightarrow> string \<Rightarrow> int \<Rightarrow> string option \<Rightarrow> pow_state \<Rightarrow> api_ctx
     \<Rightarrow> ((string + api_response) \<times> challenge option \<times> api_ctx) \<times> pow_state" where
  "pow_challenge_route cfg lib seed nowMs xff st cx =
     (if \<not> rt_challenge_is_pow cfg
      then (case answer_error 404 ''PoW challenge is not enabled.'' ''notFound'' [] cx of (r, cx') \<Rightarrow> ((r, None, cx'), st))
      else let raw = client_ip (rt_trustedProxies cfg) xff;
               ipHash = (if truthy raw then fingerprint_ip (lib_fingerprint lib) (rt_salt cfg) (the raw) else ''anon'');
               subnetHash = (if truthy raw then fingerprint_subnet (lib_fingerprint lib) (rt_salt cfg) (the raw) else None);
               (ch, st') = issue_challenge (rt_pow cfg) (lib_hmac lib) ipHash subnetHash seed nowMs st
           in ((Inr \<lparr>rs_status = 200,
                     rs_body = [(''ok'', J_Bool True), (''seed'', J_Text (ch_seed ch)), (''difficulty'', J_Int (ch_difficulty ch)),
                       (''exp'', J_Int (ch_exp ch)), (''sig'', J_Text (ch_sig ch))], rs_headers = []\<rparr>, Some ch, cx), st'))"

section \<open>turnstile.ts\<close>

definition SITEVERIFY_TIMEOUT_MS :: int where "SITEVERIFY_TIMEOUT_MS = 5000"

record turnstile_check =
  tc_enabled :: bool
  tc_secretKey :: string
  tc_token :: "string option"
  tc_ip :: "string option"
  tc_timeoutMs :: "int option"

text \<open>What \<open>siteverify\<close> gives for a form and a timeout: a throw (its text), a bad status, a parsed body.\<close>

datatype siteverify_reply = Sv_Throws string | Sv_Http int | Sv_Json jval

datatype turnstile_failure = Sv_Answered_Http int | Sv_No_Success_Field | Sv_Unreachable string

definition verify_turnstile_with ::
  "((string \<times> string) list \<Rightarrow> int \<Rightarrow> siteverify_reply) \<Rightarrow> turnstile_check \<Rightarrow> bool \<times> turnstile_failure option" where
  "verify_turnstile_with fetch c =
     (if \<not> tc_enabled c then (False, None)
      else if \<not> truthy (tc_token c) then (False, None)
      else let form = [(''secret'', tc_secretKey c), (''response'', the (tc_token c))]
                 @ (if truthy (tc_ip c) then [(''remoteip'', the (tc_ip c))] else [])
           in case fetch form (nullish (tc_timeoutMs c) SITEVERIFY_TIMEOUT_MS) of
                Sv_Throws e \<Rightarrow> (False, Some (Sv_Unreachable e))
              | Sv_Http code \<Rightarrow> (False, Some (Sv_Answered_Http code))
              | Sv_Json body \<Rightarrow>
                  if is_object body \<and> field body ''success'' = Some (Jv_Bool True) then (True, None)
                  else if \<not> is_object body \<or> field body ''success'' = None then (False, Some Sv_No_Success_Field)
                  else (False, None))"

section \<open>What the routes promise\<close>

lemma client_ip_filled:
  assumes "client_ip trusted xff = Some ip"
  shows "ip \<noteq> []"
proof (cases xff)
  case None
  then show ?thesis using assms by (simp add: client_ip_def split: if_splits)
next
  case (Some h)
  define hops where "hops = filter (\<lambda>s. s \<noteq> []) (map trim (split_on CHR '','' h))"
  have "0 < trusted" "trusted \<le> length hops" "ip = hops ! (length hops - trusted)"
    using assms Some by (simp_all add: client_ip_def Let_def flip: hops_def split: if_splits)
  then have "ip \<in> set hops" by simp
  then show ?thesis by (simp add: hops_def)
qed

lemma truthy_client_ip: "truthy (client_ip trusted xff) \<longleftrightarrow> client_ip trusted xff \<noteq> None"
  using client_ip_filled [of trusted xff] by (cases "client_ip trusted xff") auto

subsection \<open>Lookups\<close>

record tx_request =
  tq_now :: int
  tq_forwardedFor :: "string option"
  tq_param :: "string option"
  tq_reply :: tx_reply

text \<open>The statuses a run of requests is answered with, one after another.\<close>

fun tx_serve ::
  "(string \<Rightarrow> string) \<Rightarrow> string \<Rightarrow> nat \<Rightarrow> bool \<Rightarrow> api_ctx \<Rightarrow> tx_request list \<Rightarrow> rate_limiter \<Rightarrow> (tx_request \<times> int) list" where
  "tx_serve fp salt trusted zallet cx [] rl = []"
| "tx_serve fp salt trusted zallet cx (q # qs) rl =
     (let ((res, cx'), rl') = tx_route fp salt trusted zallet (tq_now q) (tq_forwardedFor q) (tq_param q) (tq_reply q) rl cx
      in (q, case res of Inr r \<Rightarrow> rs_status r | Inl e \<Rightarrow> 500) # tx_serve fp salt trusted zallet cx qs rl')"

definition tx_key :: "(string \<Rightarrow> string) \<Rightarrow> string \<Rightarrow> nat \<Rightarrow> tx_request \<Rightarrow> string option" where
  "tx_key fp salt trusted q = map_option (fingerprint_ip fp salt) (client_ip trusted (tq_forwardedFor q))"

definition limited_calls :: "(string \<Rightarrow> string) \<Rightarrow> string \<Rightarrow> nat \<Rightarrow> tx_request list \<Rightarrow> (string \<times> int) list" where
  "limited_calls fp salt trusted qs =
     concat (map (\<lambda>q. case tx_key fp salt trusted q of None \<Rightarrow> [] | Some k \<Rightarrow> [(k, tq_now q)]) qs)"

lemma tx_lookup_status: "\<exists>r. fst (tx_lookup zallet param reply cx) = Inr r \<and> rs_status r \<in> {200, 400}"
  by (simp add: tx_lookup_def Let_def answer_error_def answer_ok_def api_error_def)

lemma tx_route_status:
  "\<exists>r. fst (fst (tx_route fp salt trusted zallet now xff param reply rl cx)) = Inr r \<and> rs_status r \<in> {200, 400, 429}
     \<and> (case client_ip trusted xff of
          None \<Rightarrow> rs_status r \<noteq> 429 \<and> snd (tx_route fp salt trusted zallet now xff param reply rl cx) = rl
        | Some ip \<Rightarrow> (rs_status r \<noteq> 429 \<longleftrightarrow> allowed (fst (check (fingerprint_ip fp salt ip) now rl)))
            \<and> snd (tx_route fp salt trusted zallet now xff param reply rl cx) = snd (check (fingerprint_ip fp salt ip) now rl))"
proof -
  obtain r where r: "fst (tx_lookup zallet param reply cx) = Inr r" "rs_status r \<in> {200, 400}"
    using tx_lookup_status by blast
  show ?thesis
  proof (cases "client_ip trusted xff")
    case None
    then show ?thesis using r by (auto simp: tx_route_def Let_def)
  next
    case (Some ip)
    have "truthy (Some ip)" using Some truthy_client_ip [of trusted xff] by simp
    then show ?thesis using r Some
      by (cases "check (fingerprint_ip fp salt ip) now rl")
        (auto simp: tx_route_def Let_def answer_error_def api_error_def)
  qed
qed

lemma served_are_allowed:
  "int (length (filter (\<lambda>(q, st). tx_key fp salt trusted q = Some k \<and> st \<noteq> 429) (tx_serve fp salt trusted zallet cx qs rl)))
     = allowed_count k (limited_calls fp salt trusted qs) rl"
proof (induction qs arbitrary: rl)
  case (Cons q qs)
  obtain a where a: "fst (fst (tx_route fp salt trusted zallet (tq_now q) (tq_forwardedFor q) (tq_param q) (tq_reply q) rl cx)) = Inr a"
    and st: "case client_ip trusted (tq_forwardedFor q) of
          None \<Rightarrow> rs_status a \<noteq> 429 \<and> snd (tx_route fp salt trusted zallet (tq_now q) (tq_forwardedFor q) (tq_param q) (tq_reply q) rl cx) = rl
        | Some ip \<Rightarrow> (rs_status a \<noteq> 429 \<longleftrightarrow> allowed (fst (check (fingerprint_ip fp salt ip) (tq_now q) rl)))
            \<and> snd (tx_route fp salt trusted zallet (tq_now q) (tq_forwardedFor q) (tq_param q) (tq_reply q) rl cx)
              = snd (check (fingerprint_ip fp salt ip) (tq_now q) rl)"
    using tx_route_status by blast
  obtain res cx' rl' where t: "tx_route fp salt trusted zallet (tq_now q) (tq_forwardedFor q) (tq_param q) (tq_reply q) rl cx = ((res, cx'), rl')"
    by (cases "tx_route fp salt trusted zallet (tq_now q) (tq_forwardedFor q) (tq_param q) (tq_reply q) rl cx") auto
  show ?case using a st Cons.IH [of rl'] by (auto simp: t tx_key_def limited_calls_def split: option.splits)
qed (simp add: limited_calls_def)

text \<open>
  the public lookup is bounded for everyone the faucet can tell apart. In any span as long as the
  window, whatever other clients ask, one connection is answered by the wallet at most twice the configured
  number of times, every request is answered 200, 400 or 429, and the ones beyond are refused before the
  wallet is asked.
\<close>

theorem lookups_are_limited:
  assumes "rl = check_all before (create_rate_limiter w m now)"
    and "\<forall>q\<in>set qs. t0 \<le> tq_now q \<and> tq_now q < t0 + max 1 w"
    and "length (windows rl) + length qs \<le> MAX_TRACKED_KEYS"
  shows "int (length (filter (\<lambda>(q, st). tx_key fp salt trusted q = Some k \<and> st \<noteq> 429)
      (tx_serve fp salt trusted zallet cx qs rl))) \<le> 2 * max 1 m
    \<and> (\<forall>(q, st)\<in>set (tx_serve fp salt trusted zallet cx qs rl). st \<in> {200, 400, 429})"
proof
  let ?ks = "limited_calls fp salt trusted qs"
  have "length ?ks \<le> length qs" unfolding limited_calls_def by (induction qs) (auto split: option.split)
  moreover have "\<forall>(x, u)\<in>set ?ks. t0 \<le> u \<and> u < t0 + max 1 w"
    using assms(2) by (auto simp: limited_calls_def split: option.splits)
  ultimately show "int (length (filter (\<lambda>(q, st). tx_key fp salt trusted q = Some k \<and> st \<noteq> 429)
      (tx_serve fp salt trusted zallet cx qs rl))) \<le> 2 * max 1 m"
    unfolding served_are_allowed using limiter_serves_at_most_twice [OF assms(1), of ?ks t0 k] assms(3) by simp
  show "\<forall>(q, st)\<in>set (tx_serve fp salt trusted zallet cx qs rl). st \<in> {200, 400, 429}"
  proof (induction qs arbitrary: rl)
    case (Cons q qs)
    obtain res cx' rl' where t: "tx_route fp salt trusted zallet (tq_now q) (tq_forwardedFor q) (tq_param q) (tq_reply q) rl cx = ((res, cx'), rl')"
      by (cases "tx_route fp salt trusted zallet (tq_now q) (tq_forwardedFor q) (tq_param q) (tq_reply q) rl cx") auto
    show ?case using Cons.IH [of rl'] tx_route_status [of fp salt trusted zallet "tq_now q" "tq_forwardedFor q" "tq_param q" "tq_reply q" rl cx]
      by (auto simp: t)
  qed simp
qed

definition ex_ctx :: api_ctx where
  "ex_ctx = \<lparr>ac_request_id = ''r1'', ac_route = ''tx'', ac_gate = None, ac_lines = []\<rparr>"

definition ex_query :: "int \<Rightarrow> tx_request" where
  "ex_query t = \<lparr>tq_now = t, tq_forwardedFor = Some ''9.9.9.9'', tq_param = Some ''nope'', tq_reply = Tx_Throws\<rparr>"

theorem lookups_are_limited_witness:
  "int (length (filter (\<lambda>(q, st). tx_key rev ''s'' 1 q = tx_key rev ''s'' 1 (ex_query 5) \<and> st \<noteq> 429)
      (tx_serve rev ''s'' 1 True ex_ctx [ex_query 5, ex_query 6, ex_query 7] (create_rate_limiter 60 1 0)))) \<le> 2"
proof -
  have rl: "create_rate_limiter 60 1 0 = check_all [] (create_rate_limiter 60 1 0)" by (simp add: check_all_def)
  have now: "\<forall>q\<in>set [ex_query 5, ex_query 6, ex_query 7]. 0 \<le> tq_now q \<and> tq_now q < 0 + max 1 60"
    by (simp add: ex_query_def)
  have room: "length (windows (create_rate_limiter 60 1 0)) + length [ex_query 5, ex_query 6, ex_query 7] \<le> MAX_TRACKED_KEYS"
    by (simp add: create_rate_limiter_def MAX_TRACKED_KEYS_def)
  obtain k where k: "tx_key rev ''s'' 1 (ex_query 5) = Some k"
    by (cases "tx_key rev ''s'' 1 (ex_query 5)")
      (auto simp: tx_key_def ex_query_def client_ip_def Let_def trim_def is_space_def)
  show ?thesis unfolding k using lookups_are_limited [OF rl now room, THEN conjunct1] by simp
qed

subsection \<open>The challenge of this route opens the claim handler\<close>

text \<open>
  what \<open>GET /api/pow/challenge\<close> hands out, the claim handler takes. When the gate is proof of work, the
  route answers 200 with a challenge in its four fields; whoever solves it and claims through the same
  connection before it expires, with a solution not yet recorded, passes the handler's proof-of-work check,
  whatever was issued to or tried by anybody else in between.
\<close>

theorem served_challenge_admits_claim:
  assumes "pow_challenge_route cfg lib seed t xff pw cx = ((res, Some ch, cx'), pw')"
    and "baseBits (rt_pow cfg) \<le> maxBits (rt_pow cfg)" and "0 \<le> escalateBits (rt_pow cfg)" and "seed \<noteq> []"
    and "cx_pow ccx = Some (challenge.extend ch \<lparr>sol_nonce = nonce\<rparr>)"
    and "client_ip (rt_trustedProxies cfg) (ce_forwardedFor env) = client_ip (rt_trustedProxies cfg) xff"
    and "ce_verifyMs env div 1000 \<le> ch_exp ch"
    and "ch_difficulty ch \<le> int (leading_zero_bits (lib_sha256 lib (seed @ '':'' @ nonce)))"
    and "\<not> challenge_already_spent (ce_spentReadOk env) (ch_sig ch) (fs_ledger st)"
  shows "fst (check_pow cfg lib env ccx st) = None
    \<and> (\<exists>r. res = Inr r \<and> rs_status r = 200 \<and> map_of (rs_body r) ''seed'' = Some (J_Text seed)
         \<and> map_of (rs_body r) ''difficulty'' = Some (J_Int (ch_difficulty ch))
         \<and> map_of (rs_body r) ''exp'' = Some (J_Int (ch_exp ch)) \<and> map_of (rs_body r) ''sig'' = Some (J_Text (ch_sig ch)))"
proof -
  let ?ip = "nullish (map_option (fingerprint_ip (lib_fingerprint lib) (rt_salt cfg)) (client_ip (rt_trustedProxies cfg) xff)) ''anon''"
  let ?sub = "case client_ip (rt_trustedProxies cfg) xff of None \<Rightarrow> None | Some ip \<Rightarrow> fingerprint_subnet (lib_fingerprint lib) (rt_salt cfg) ip"
  have pow: "rt_challenge_is_pow cfg" using assms(1) by (auto simp: pow_challenge_route_def split: if_splits prod.splits)
  have keys: "client_keys cfg lib env = (ks, sub) \<Longrightarrow> nullish ks ''anon'' = ?ip" for ks sub
    using assms(6) by (auto simp: client_keys_def split: option.splits)
  have ch: "issue_challenge (rt_pow cfg) (lib_hmac lib) ?ip ?sub seed t pw = (ch, pw')"
    and res: "res = Inr \<lparr>rs_status = 200,
        rs_body = [(''ok'', J_Bool True), (''seed'', J_Text (ch_seed ch)), (''difficulty'', J_Int (ch_difficulty ch)),
          (''exp'', J_Int (ch_exp ch)), (''sig'', J_Text (ch_sig ch))], rs_headers = []\<rparr>"
    using assms(1) pow client_ip_filled [of "rt_trustedProxies cfg" xff]
    by (auto simp: pow_challenge_route_def Let_def truthy_client_ip split: prod.splits option.splits if_splits)
  have seed: "ch_seed ch = seed" using ch by (auto simp: issue_challenge_def Let_def split: prod.splits)
  have "fst (verify_solution (rt_pow cfg) (lib_hmac lib) (lib_sha256 lib) (challenge.extend ch \<lparr>sol_nonce = nonce\<rparr>) ?ip sub'
      False (ce_verifyMs env) (fs_pow st) (fs_ledger st)) = None" for sub'
    using issued_challenge_is_accepted [where sha = "lib_sha256 lib" and nonce = nonce, OF assms(2-4) ch assms(7,8)] by blast
  moreover have "ch_sig (challenge.extend ch \<lparr>sol_nonce = nonce\<rparr>) = ch_sig ch" by (simp add: challenge.defs)
  ultimately have "fst (check_pow cfg lib env ccx st) = None"
    using assms(5,9) pow keys verify_ledger_frame [of "rt_pow cfg" "lib_hmac lib" "lib_sha256 lib"]
    by (cases "client_keys cfg lib env") (auto simp: check_pow_def Let_def split_beta)
  then show ?thesis using res seed by simp
qed

definition ex_pow_route :: route_config where
  "ex_pow_route = ex_route\<lparr>rt_challenge_is_pow := True\<rparr>"

definition ex_served :: challenge where
  "ex_served = the (fst (snd (fst (pow_challenge_route ex_pow_route ex_libs ''ab'' 5000 (Some ''9.9.9.9'') empty_pow ex_ctx))))"

definition ex_solved_ctx :: claim_ctx where
  "ex_solved_ctx = \<lparr>cx_address = ''tmAb'', cx_info = \<lparr>ai_kind = Transparent, ai_shielded = False\<rparr>, cx_network = Taz,
     cx_pow = Some (challenge.extend ex_served \<lparr>sol_nonce = ''7''\<rparr>)\<rparr>"

theorem served_challenge_admits_claim_witness:
  "fst (check_pow ex_pow_route ex_libs (ex_env 9000 (Cl_Amount 50)) ex_solved_ctx ex_state) = None"
proof -
  obtain res oc cx' pw' where r: "pow_challenge_route ex_pow_route ex_libs ''ab'' 5000 (Some ''9.9.9.9'') empty_pow ex_ctx = ((res, oc, cx'), pw')"
    by (cases "pow_challenge_route ex_pow_route ex_libs ''ab'' 5000 (Some ''9.9.9.9'') empty_pow ex_ctx") (auto elim: prod_cases3)
  have "fst (snd (fst (pow_challenge_route ex_pow_route ex_libs ''ab'' 5000 (Some ''9.9.9.9'') empty_pow ex_ctx))) \<noteq> None"
    by code_simp
  then have "oc = Some ex_served" using r by (cases oc) (auto simp: ex_served_def)
  note route = r [unfolded this]
  have facts: "9000 div 1000 \<le> ch_exp ex_served" "ch_difficulty ex_served \<le> int (leading_zero_bits (ex_sha (''ab'' @ '':'' @ ''7'')))"
    "\<not> challenge_already_spent True (ch_sig ex_served) empty_ledger"
    by code_simp+
  show ?thesis
    using served_challenge_admits_claim [OF route, of ex_solved_ctx "''7''" "ex_env 9000 (Cl_Amount 50)" ex_state] facts
    by (simp add: ex_pow_route_def ex_route_def ex_solved_ctx_def ex_env_def ex_libs_def ex_state_def ex_cfg_def pow_config_of_def)
qed

subsection \<open>The network page, the captcha, shielded balances\<close>

lemma number_zero: "js_number ''0'' = Some 0"
proof -
  have "literal_value (trim ''0'') = Some 0" by code_simp
  then show ?thesis using js_finiteI [of 0] by (simp add: js_number_def trim_def is_space_def double_of_0)
qed

text \<open>
  C0: an endpoint that leaves its estimate out always reads as synced. The protobuf reader gives a number
  that was not sent as the text \<open>0\<close>, which is not empty, so the fallback to the block height is never
  taken: the route then answers zero blocks behind and synced, whatever the tip and the block height are. Only
  with an estimate from the endpoint does \<open>synced\<close> mean that the tip is at most two blocks below it.
\<close>

theorem missing_estimate_reads_synced:
  assumes "js_number latest = Some t" and "0 \<le> t" and "js_number estimate = Some e" and "estimate \<noteq> []"
  shows "(\<exists>r. fst (network_route (Inr ((info\<lparr>li_estimatedHeight := ''0''\<rparr>, endpoint), latest)) cx) = Inr r
        \<and> map_of (rs_body r) ''synced'' = Some (J_Bool True) \<and> map_of (rs_body r) ''blocksBehind'' = Some (J_Num 0))
    \<and> (\<exists>r. fst (network_route (Inr ((info\<lparr>li_estimatedHeight := estimate\<rparr>, endpoint), latest)) cx) = Inr r
        \<and> map_of (rs_body r) ''synced'' = Some (J_Bool (e \<le> t + 2)))"
proof -
  show ?thesis using assms number_zero by (auto simp: network_route_def network_answer_def answer_ok_def Let_def)
qed

theorem missing_estimate_reads_synced_witness:
  "\<exists>r. fst (network_route (Inr ((\<lparr>li_chainName = ''test'', li_version = ''v'', li_vendor = ''x'', li_blockHeight = ''3000000'',
       li_estimatedHeight = ''0'', li_consensusBranchId = ''c8e71055''\<rparr>, ''e''), ''0'')) ex_ctx) = Inr r
     \<and> map_of (rs_body r) ''synced'' = Some (J_Bool True)"
  using missing_estimate_reads_synced [OF number_zero _ number_zero, of "\<lparr>li_chainName = ''test'', li_version = ''v'', li_vendor = ''x'',
      li_blockHeight = ''3000000'', li_estimatedHeight = '''', li_consensusBranchId = ''c8e71055''\<rparr>" "''e''" ex_ctx] by auto

text \<open>
  the captcha fails closed: a token is accepted exactly when the gate is on, the token is not empty and the
  verifier answered this very form with an object whose \<open>success\<close> is the value true; every other answer, status,
  body or throw refuses, and a refusal the verifier did not speak is reported.
\<close>

theorem captcha_fails_closed:
  "(fst (verify_turnstile_with fetch c) \<longleftrightarrow> tc_enabled c \<and> (\<exists>token body. tc_token c = Some token \<and> token \<noteq> []
       \<and> fetch ([(''secret'', tc_secretKey c), (''response'', token)]
           @ (if truthy (tc_ip c) then [(''remoteip'', the (tc_ip c))] else [])) (nullish (tc_timeoutMs c) 5000) = Sv_Json body
       \<and> field body ''success'' = Some (Jv_Bool True)))
   \<and> (snd (verify_turnstile_with fetch c) \<noteq> None \<longrightarrow> \<not> fst (verify_turnstile_with fetch c))"
proof -
  have "is_object body" if "field body k = Some v" for body k v
    using that by (cases body) auto
  then show ?thesis
    by (cases "tc_token c") (auto simp: verify_turnstile_with_def Let_def SITEVERIFY_TIMEOUT_MS_def split: siteverify_reply.splits)
qed

text \<open>
  a shielded address never leaves the process: the answer depends on the chain backend only through
  the balance of the address itself, and only when it decodes as a transparent one.
\<close>

theorem only_transparent_balances_are_looked_up:
  assumes "\<And>info. validate_testnet_address dec (trim raw) = Inr info \<Longrightarrow> \<not> ai_shielded info
      \<Longrightarrow> lookup (trim raw) = lookup' (trim raw)"
  shows "balance_route dec lookup (Some raw) cx = balance_route dec lookup' (Some raw) cx"
  using assms by (simp add: balance_route_def Let_def split: sum.split)

end
