(* ===== verification/Chain_Client.thy ===== *)
theory Chain_Client
  imports Send_Budget Address Pow
begin

text \<open>
  The client of the public chain servers, \<open>src/src/lib/zcash/grpc.ts\<close> with \<open>grpcTarget.ts\<close>: one call over a
  list of endpoints within a budget; and the throwaway accounts of \<open>src/src/lib/zcash/keys.ts\<close>. The parser of
  URLs, the call itself, the random source, the curve and the hashes, and base58check are parameters.
\<close>

section \<open>One call over the endpoints\<close>

record url =
  url_protocol :: string
  url_hostname :: string
  url_port :: string

record grpc_target =
  gt_target :: string
  gt_tls :: bool

definition target_for :: "url \<Rightarrow> grpc_target" where
  "target_for u =
     (let tls = (url_protocol u = ''https:'' \<or> url_port u = ''443'' \<or> url_port u = []);
          port = (if url_port u \<noteq> [] then url_port u else if tls then ''443'' else ''9067'')
      in \<lparr>gt_target = url_hostname u @ '':'' @ port, gt_tls = tls\<rparr>)"

text \<open>
  \<open>parse\<close> is \<open>new URL\<close>, \<open>None\<close> its throw; it stands before the \<open>try\<close>. A call given its deadline takes some
  time and answers or fails.
\<close>

type_synonym 'a grpc_call = "grpc_target \<Rightarrow> int \<Rightarrow> int \<times> (string + 'a)"

fun call_loop ::
  "(string \<Rightarrow> url option) \<Rightarrow> 'a grpc_call \<Rightarrow> int \<Rightarrow> int \<Rightarrow> string option \<Rightarrow> string list \<Rightarrow> int \<Rightarrow> (string + 'a \<times> string) \<times> int" where
  "call_loop parse call per endsAt lastErr [] now = (Inl (nullish lastErr ''All lightwalletd endpoints failed.''), now)"
| "call_loop parse call per endsAt lastErr (endpoint # rest) now =
     (let attemptMs = failover_next per endsAt now in
      if attemptMs = 0
      then (Inl (nullish lastErr ''ran out of time before every endpoint was tried.''), now)
      else case parse endpoint of
        None \<Rightarrow> (Inl ''Invalid URL'', now)
      | Some u \<Rightarrow>
          (case call (target_for u) attemptMs of
             (took, Inr result) \<Rightarrow> (Inr (result, endpoint), now + took)
           | (took, Inl err) \<Rightarrow> call_loop parse call per endsAt (Some err) rest (now + took)))"

definition call_first ::
  "(string \<Rightarrow> url option) \<Rightarrow> 'a grpc_call \<Rightarrow> string list \<Rightarrow> int \<Rightarrow> int \<Rightarrow> (string + 'a \<times> string) \<times> int" where
  "call_first parse call endpoints timeoutMs now =
     call_loop parse call timeoutMs (failover_ends_at timeoutMs now) None endpoints now"

text \<open>A call that keeps its deadline.\<close>

definition keeps_deadline :: "'a grpc_call \<Rightarrow> bool" where
  "keeps_deadline call \<longleftrightarrow> (\<forall>t ms. 0 \<le> ms \<longrightarrow> 0 \<le> fst (call t ms) \<and> fst (call t ms) \<le> ms)"

lemma call_loop_time:
  assumes "keeps_deadline call" and "now \<le> endsAt"
  shows "now \<le> snd (call_loop parse call per endsAt e eps now) \<and> snd (call_loop parse call per endsAt e eps now) \<le> endsAt"
  using assms(2)
proof (induction eps arbitrary: e now)
  case (Cons ep eps)
  let ?ms = "failover_next per endsAt now"
  have ms: "0 \<le> ?ms" "?ms \<noteq> 0 \<Longrightarrow> ?ms \<le> endsAt - now" by (auto simp: failover_next_def)
  show ?case
  proof (cases "parse ep")
    case (Some u)
    obtain took r where c: "call (target_for u) ?ms = (took, r)" by (cases "call (target_for u) ?ms")
    have t: "0 \<le> took" "took \<le> ?ms" using assms(1) ms(1) c unfolding keeps_deadline_def by (metis fst_conv)+
    have "now + took \<le> endsAt" if "?ms \<noteq> 0" using that t ms by linarith
    moreover have "now \<le> snd (call_loop parse call per endsAt e' eps (now + took))
        \<and> snd (call_loop parse call per endsAt e' eps (now + took)) \<le> endsAt" if "?ms \<noteq> 0" for e'
      using Cons.IH [of "now + took" e'] calculation [OF that] t(1) by linarith
    ultimately show ?thesis using Cons.prems Some c t
      by (cases r; cases "?ms = 0") (auto simp: Let_def intro: order_trans)
  qed (use Cons.prems in \<open>simp add: Let_def\<close>)
qed simp

lemma call_loop_answer:
  assumes "fst (call_loop parse call per endsAt e eps now) = Inr (x, ep)"
  shows "\<exists>pre post u t. eps = pre @ ep # post \<and> parse ep = Some u \<and> 0 \<le> t \<and> t \<le> per
    \<and> snd (call (target_for u) t) = Inr x \<and> (\<forall>p\<in>set pre. parse p \<noteq> None)"
  using assms
proof (induction eps arbitrary: e now)
  case (Cons p eps)
  let ?ms = "failover_next per endsAt now"
  from Cons.prems obtain u where ms: "?ms \<noteq> 0" and u: "parse p = Some u"
    by (auto simp: Let_def split: if_splits option.splits)
  have bounds: "0 \<le> ?ms" "?ms \<le> per" using ms by (auto simp: failover_next_def)
  obtain took r where c: "call (target_for u) ?ms = (took, r)" by (cases "call (target_for u) ?ms")
  show ?case
  proof (cases r)
    case (Inr y)
    with Cons.prems ms u c have "y = x" "p = ep" by (auto simp: Let_def)
    then show ?thesis using u c Inr bounds by (intro exI [of _ "[]"] exI [of _ eps]) auto
  next
    case (Inl err)
    with Cons.prems ms u c have "fst (call_loop parse call per endsAt (Some err) eps (now + took)) = Inr (x, ep)"
      by (auto simp: Let_def)
    from Cons.IH [OF this] obtain pre post v t where "eps = pre @ ep # post" "parse ep = Some v" "0 \<le> t" "t \<le> per"
      "snd (call (target_for v) t) = Inr x" "\<forall>p\<in>set pre. parse p \<noteq> None" by blast
    then show ?thesis using u by (intro exI [of _ "p # pre"] exI [of _ post]) auto
  qed
qed simp

text \<open>How far a list of endpoints that all fail gets: each takes the whole of its deadline at worst.\<close>

lemma call_loop_reaches:
  assumes "keeps_deadline call" and "0 < per" and "now + per < endsAt"
    and "parse a = Some u" and "parse b = Some v" and "\<And>ms. 0 < ms \<Longrightarrow> ms \<le> per \<Longrightarrow> snd (call (target_for v) ms) = Inr x"
    and "\<And>ms. \<exists>err. snd (call (target_for u) ms) = Inl err"
  shows "\<exists>t. call_loop parse call per endsAt e (a # b # rest) now = (Inr (x, b), t)"
proof -
  have ms: "failover_next per endsAt now = per" using assms(2,3) by (simp add: failover_next_def)
  obtain took err where c: "call (target_for u) per = (took, Inl err)" using assms(7) [of per]
    by (cases "call (target_for u) per") auto
  have "0 \<le> took \<and> took \<le> per" using assms(1,2) c unfolding keeps_deadline_def by (metis fst_conv less_imp_le)
  then have ms2: "0 < failover_next per endsAt (now + took)" "failover_next per endsAt (now + took) \<le> per"
    using assms(2,3) by (auto simp: failover_next_def)
  obtain took2 r where "call (target_for v) (failover_next per endsAt (now + took)) = (took2, r)" by fastforce
  moreover have "r = Inr x" using assms(6) [OF ms2] calculation by simp
  ultimately show ?thesis using ms ms2 assms(2,4,5) c by (simp add: Let_def)
qed

text \<open>
  one call is bounded, and one dead endpoint does not starve the next. When every call keeps the deadline
  it is given, the whole failover ends within twice the timeout; an answer is the answer of the endpoint
  named with it; and a second endpoint that answers is reached even if the first one hangs for all its time.
\<close>

theorem failover_is_bounded_and_reaches_the_second:
  assumes "keeps_deadline call" and "0 < timeoutMs" and "call_first parse call eps timeoutMs now = (res, t)"
  shows "now \<le> t \<and> t \<le> now + 2 * timeoutMs
    \<and> (\<forall>x ep. res = Inr (x, ep) \<longrightarrow> ep \<in> set eps \<and> (\<exists>u ms. parse ep = Some u \<and> snd (call (target_for u) ms) = Inr x))
    \<and> (\<forall>a b rest u v x. eps = a # b # rest \<longrightarrow> parse a = Some u \<longrightarrow> parse b = Some v
         \<longrightarrow> (\<forall>ms. \<exists>err. snd (call (target_for u) ms) = Inl err)
         \<longrightarrow> (\<forall>ms. 0 < ms \<longrightarrow> ms \<le> timeoutMs \<longrightarrow> snd (call (target_for v) ms) = Inr x) \<longrightarrow> res = Inr (x, b))"
proof -
  let ?till = "failover_ends_at timeoutMs now"
  have e: "?till = now + 2 * timeoutMs" by (simp add: failover_ends_at_def FAILOVER_BUDGET_MULTIPLIER_def)
  have r: "call_loop parse call timeoutMs ?till None eps now = (res, t)" using assms(3) by (simp add: call_first_def)
  have "now \<le> t \<and> t \<le> now + 2 * timeoutMs"
    using call_loop_time [OF assms(1), of now ?till parse timeoutMs None eps] assms(2) r e by simp
  moreover have "ep \<in> set eps \<and> (\<exists>u ms. parse ep = Some u \<and> snd (call (target_for u) ms) = Inr x)" if "res = Inr (x, ep)" for x ep
    using call_loop_answer [of parse call timeoutMs ?till None eps now x ep] r that by auto
  moreover have "res = Inr (x, b)" if "eps = a # b # rest" "parse a = Some u" "parse b = Some v"
      "\<forall>ms. \<exists>err. snd (call (target_for u) ms) = Inl err" "\<forall>ms. 0 < ms \<longrightarrow> ms \<le> timeoutMs \<longrightarrow> snd (call (target_for v) ms) = Inr x"
    for a b rest u v x
    using call_loop_reaches [OF assms(1,2), of now ?till parse a u b v x None rest] that r e assms(2) by auto
  ultimately show ?thesis by blast
qed

definition ex_parse :: "string \<Rightarrow> url option" where
  "ex_parse s = (if s = [] then None else Some \<lparr>url_protocol = ''https:'', url_hostname = s, url_port = []\<rparr>)"

theorem failover_is_bounded_and_reaches_the_second_witness:
  "fst (call_first ex_parse (\<lambda>t ms. if starts_with (gt_target t) ''b'' then (min ms 300, Inr (7::int)) else (ms, Inl ''unavailable''))
     [''a'', ''b''] 6000 0) = Inr (7, ''b'')"
proof -
  let ?call = "\<lambda>t ms. if starts_with (gt_target t) ''b'' then (min ms 300, Inr (7::int)) else (ms, Inl ''unavailable'')"
  have k: "keeps_deadline ?call" by (simp add: keeps_deadline_def)
  obtain res t where c: "call_first ex_parse ?call [''a'', ''b''] 6000 0 = (res, t)" by (cases "call_first ex_parse ?call [''a'', ''b''] 6000 0")
  show ?thesis using failover_is_bounded_and_reaches_the_second [OF k _ c] c
    by (simp add: ex_parse_def target_for_def)
qed

text \<open>
  an endpoint that is no URL stops the failover. Its target is computed outside the \<open>try\<close>, so one
  malformed entry in front makes every call fail at once, whichever live endpoints stand behind it.
\<close>

theorem malformed_endpoint_stops_failover:
  assumes "parse bad = None" and "0 < timeoutMs"
  shows "call_first parse call (bad # live) timeoutMs now = (Inl ''Invalid URL'', now)"
  using assms by (simp add: call_first_def failover_ends_at_def FAILOVER_BUDGET_MULTIPLIER_def failover_next_def)

theorem malformed_endpoint_stops_failover_witness:
  "call_first ex_parse (\<lambda>t ms. (1, Inr (7::int))) [[], ''b''] 6000 0 = (Inl ''Invalid URL'', 0)"
  by (rule malformed_endpoint_stops_failover) (simp_all add: ex_parse_def)

section \<open>Throwaway accounts\<close>

definition TESTNET_P2PKH :: "nat list" where "TESTNET_P2PKH = [0x1d, 0x25]"
definition TESTNET_WIF :: nat where "TESTNET_WIF = 0xef"

definition SECP256K1_N :: nat where
  "SECP256K1_N = 0xfffffffffffffffffffffffffffffffebaaedce6af48a03bbfd25e8cd0364141"

definition is_valid_scalar :: "nat list \<Rightarrow> bool" where
  "is_valid_scalar b = (let x = foldl (\<lambda>x byte. x * 256 + byte) 0 b in x > 0 \<and> x < SECP256K1_N)"

text \<open>The \<open>do\<close> loop over what \<open>randomBytes(32)\<close> gives, from the draw \<open>i\<close> on.\<close>

partial_function (option) draw_scalar :: "(nat \<Rightarrow> nat list) \<Rightarrow> nat \<Rightarrow> nat list option" where
  "draw_scalar random_bytes i =
     (if is_valid_scalar (random_bytes i) then Some (random_bytes i) else draw_scalar random_bytes (i + 1))"

text \<open>\<open>pkh\<close> is \<open>hash160\<close> of the public key of a scalar, \<open>encode\<close> is base58check.\<close>

definition generate_transparent ::
  "(nat list \<Rightarrow> nat list) \<Rightarrow> (nat list \<Rightarrow> string) \<Rightarrow> (nat \<Rightarrow> nat list) \<Rightarrow> (string \<times> string) option" where
  "generate_transparent pkh encode random_bytes =
     (case draw_scalar random_bytes 0 of None \<Rightarrow> None
      | Some priv \<Rightarrow> Some (encode (TESTNET_P2PKH @ pkh priv), encode (TESTNET_WIF # priv @ [0x01])))"

lemma draw_scalar_first:
  assumes "is_valid_scalar (random_bytes k)"
  shows "\<exists>j\<le>k. draw_scalar random_bytes 0 = Some (random_bytes j) \<and> is_valid_scalar (random_bytes j)"
proof -
  have "\<exists>j\<le>k. i \<le> j \<and> draw_scalar random_bytes i = Some (random_bytes j) \<and> is_valid_scalar (random_bytes j)" if "i \<le> k" for i
    using that
  proof (induction i rule: inc_induct)
    case base
    then show ?case using assms by (intro exI [of _ k]) (simp add: draw_scalar.simps)
  next
    case (step i)
    then show ?case by (cases "is_valid_scalar (random_bytes i)") (auto simp: draw_scalar.simps [of _ i] intro: exI [of _ i])
  qed
  from this [of 0] show ?thesis by auto
qed

lemma validate_tm:
  assumes "trim (''tm'' @ rest) = ''tm'' @ rest" and "length (''tm'' @ rest) \<le> 512"
    and "base58check_decode dec (''tm'' @ rest) = Some p" and "length p = 22" and "take 2 p = TESTNET_P2PKH"
  shows "validate_testnet_address dec (''tm'' @ rest) = Inr \<lparr>ai_kind = Transparent, ai_shielded = False\<rparr>"
proof -
  have l: "to_lower (''tm'' @ rest) = ''tm'' @ to_lower rest"
    by (simp add: to_lower_def lower_char_def less_eq_char_def)
  have "p ! 0 = 0x1d" "p ! 1 = 0x25" using assms(4,5) by (cases p; cases "tl p"; simp add: TESTNET_P2PKH_def numeral_2_eq_2)+
  then have "validate_transparent dec (''tm'' @ rest) = Inr \<lparr>ai_kind = Transparent, ai_shielded = False\<rparr>"
    using assms(3,4) by (simp add: validate_transparent_def P2PKH_VERSION_def)
  then show ?thesis
    unfolding validate_testnet_address_def Let_def assms(1) looks_mainnet_def looks_regtest_def looks_transparent_def l
    using assms(2) by simp
qed

text \<open>
  a generated account can be paid. As soon as one draw of the random source is a scalar of the curve
  the loop ends with one, the key handed out is that scalar in its wallet form, and the address handed out
  passes the faucet's own check as a transparent testnet address, given that base58check decodes what it
  encoded and spells this version's payloads with \<open>tm\<close>.
\<close>

theorem throwaway_account_is_payable:
  assumes "is_valid_scalar (random_bytes k)" and "\<forall>i. length (pkh (random_bytes i)) = 20 \<and> (\<forall>b\<in>set (pkh (random_bytes i)). b < 256)"
    and "\<forall>p. (\<forall>b\<in>set p. b < 256) \<longrightarrow> base58check_decode dec (encode p) = Some p"
    and "\<forall>p. length p = 22 \<longrightarrow> take 2 p = TESTNET_P2PKH \<longrightarrow> starts_with (encode p) ''tm'' \<and> trim (encode p) = encode p
        \<and> length (encode p) \<le> 512" and "\<forall>i. length (random_bytes i) = 32 \<and> (\<forall>b\<in>set (random_bytes i). b < 256)"
  shows "\<exists>address wif priv. generate_transparent pkh encode random_bytes = Some (address, wif)
    \<and> validate_testnet_address dec address = Inr \<lparr>ai_kind = Transparent, ai_shielded = False\<rparr>
    \<and> is_valid_scalar priv \<and> base58check_decode dec wif = Some (0xef # priv @ [1])"
proof -
  obtain j where j: "draw_scalar random_bytes 0 = Some (random_bytes j)" "is_valid_scalar (random_bytes j)"
    using draw_scalar_first [of random_bytes, OF assms(1)] by blast
  let ?p = "TESTNET_P2PKH @ pkh (random_bytes j)"
  have p: "length ?p = 22" "take 2 ?p = TESTNET_P2PKH" using assms(2) by (simp_all add: TESTNET_P2PKH_def)
  have "\<forall>b\<in>set ?p. b < 256" using assms(2) by (auto simp: TESTNET_P2PKH_def)
  then have d: "base58check_decode dec (encode ?p) = Some ?p" using assms(3) by blast
  note enc = assms(4) [rule_format, OF p]
  then obtain rest where rest: "encode ?p = ''tm'' @ rest" by (auto simp: starts_with_iff)
  have "validate_testnet_address dec (encode ?p) = Inr \<lparr>ai_kind = Transparent, ai_shielded = False\<rparr>"
    unfolding rest using enc [unfolded rest] d [unfolded rest] p by (intro validate_tm [of _ _ ?p]) simp_all
  moreover have "base58check_decode dec (encode (0xef # random_bytes j @ [1])) = Some (0xef # random_bytes j @ [1])"
    using assms(3,5) by (auto intro!: assms(3) [rule_format])
  ultimately show ?thesis using j by (auto simp: generate_transparent_def TESTNET_WIF_def)
qed

definition ex_base58 :: "nat list \<Rightarrow> string" where
  "ex_base58 p = ''tm'' @ map char_of p @ ''x''"

definition ex_base58_decoders :: decoders where
  "ex_base58_decoders = \<lparr>bech32m_decode = (\<lambda>_. None), bech32_decode = (\<lambda>_. None),
     base58check_decode = (\<lambda>s. Some (map of_char (butlast (drop 2 s))))\<rparr>"

definition ex_draws :: "nat \<Rightarrow> nat list" where
  "ex_draws i = (if i = 0 then replicate 32 0 else replicate 32 7)"

lemma ex_valid_draw: "is_valid_scalar (ex_draws 1)"
proof -
  have r: "replicate 32 (7::nat) = [7,7,7,7,7,7,7,7,7,7,7,7,7,7,7,7,7,7,7,7,7,7,7,7,7,7,7,7,7,7,7,7]"
    by (simp add: numeral_eq_Suc)
  show ?thesis by (simp add: ex_draws_def is_valid_scalar_def SECP256K1_N_def r)
qed

theorem throwaway_account_is_payable_witness:
  "\<exists>address wif priv. generate_transparent (\<lambda>b. take 20 b) ex_base58 ex_draws = Some (address, wif)
    \<and> validate_testnet_address ex_base58_decoders address = Inr \<lparr>ai_kind = Transparent, ai_shielded = False\<rparr>
    \<and> is_valid_scalar priv \<and> base58check_decode ex_base58_decoders wif = Some (0xef # priv @ [1])"
proof (rule throwaway_account_is_payable [where k = 1])
  show "is_valid_scalar (ex_draws 1)" by (rule ex_valid_draw)
  show "\<forall>p. (\<forall>b\<in>set p. b < 256) \<longrightarrow> base58check_decode ex_base58_decoders (ex_base58 p) = Some p"
    by (auto simp: ex_base58_decoders_def ex_base58_def map_idI)
  show "\<forall>p. length p = 22 \<longrightarrow> take 2 p = TESTNET_P2PKH \<longrightarrow> starts_with (ex_base58 p) ''tm'' \<and> trim (ex_base58 p) = ex_base58 p
      \<and> length (ex_base58 p) \<le> 512"
    by (auto simp: ex_base58_def starts_with_iff trim_def is_space_def)
qed (auto simp: ex_draws_def)

end
