(* ===== verification/Transparent_Senders.thy ===== *)
theory Transparent_Senders
  imports Claim_Safety Chain_Client
begin

text \<open>
  Paying from a transparent wallet behind public chain servers: \<open>src/src/lib/zcash/wallet.ts\<close> (the wallet of
  the configured seed), the typed calls of \<open>grpc.ts\<close>, \<open>realsend.ts\<close> (a transparent payment signed here) and
  \<open>t2zsend.ts\<close> (a shielded payment proved by the worker). The servers, the curve, base58check, the transaction
  library and the prover are parameters; a call over the endpoints is \<open>call_first\<close>. The senders have the type
  the claim handler expects of its external sender, a duration and a result.
\<close>

section \<open>The faucet's wallet\<close>

record wallet_keys =
  fw_priv :: payload
  fw_pubHex :: string
  fw_address :: string
  fw_scriptHex :: string

text \<open>The curve, the hash of a public key, base58check, and bytes as lower-case hex.\<close>

record key_lib =
  kl_publicKey :: "payload \<Rightarrow> string + payload"
  kl_hash160 :: "payload \<Rightarrow> payload"
  kl_encode :: "payload \<Rightarrow> string"
  kl_decode :: "string \<Rightarrow> payload option"

definition hex_text :: "payload \<Rightarrow> string" where
  "hex_text bs = hex_of_bytes (map word_of_nat bs)"

text \<open>\<open>/^[0-9a-fA-F]{64}$/\<close>.\<close>

definition is_hex_key :: "string \<Rightarrow> bool" where
  "is_hex_key s = (length s = 64 \<and> list_all (\<lambda>c. hex_nibble c \<noteq> None) s)"

definition wallet_of_key :: "key_lib \<Rightarrow> payload \<Rightarrow> string + wallet_keys" where
  "wallet_of_key kl priv =
     (case kl_publicKey kl priv of
        Inl e \<Rightarrow> Inl e
      | Inr pub \<Rightarrow>
          let pkh = kl_hash160 kl pub
          in Inr \<lparr>fw_priv = priv, fw_pubHex = hex_text pub, fw_address = kl_encode kl (TESTNET_P2PKH @ pkh),
                  fw_scriptHex = ''76a914'' @ hex_text pkh @ ''88ac''\<rparr>)"

definition key_of_seed :: "key_lib \<Rightarrow> string \<Rightarrow> string + payload" where
  "key_of_seed kl seed =
     (if is_hex_key seed then Inr (map unat (bytes_of_hex seed))
      else case kl_decode kl seed of
        None \<Rightarrow> Inl ''FAUCET_WALLET_SEED is neither a 64-hex key nor a valid WIF.''
      | Some decoded \<Rightarrow>
          if decoded = [] \<or> decoded ! 0 \<noteq> TESTNET_WIF
          then Inl ''FAUCET_WALLET_SEED WIF is not a testnet key (expected 0xEF prefix).''
          else Inr (take 32 (drop 1 decoded)))"

text \<open>\<open>faucetWallet\<close>; the module keeps the first wallet it derived.\<close>

definition faucet_wallet ::
  "key_lib \<Rightarrow> string \<Rightarrow> wallet_keys option \<Rightarrow> (string + wallet_keys) \<times> wallet_keys option" where
  "faucet_wallet kl walletSeed cached =
     (case cached of
        Some w \<Rightarrow> (Inr w, cached)
      | None \<Rightarrow>
          let seed = trim walletSeed in
          if seed = [] then (Inl ''FAUCET_WALLET_SEED is required for real sends.'', None)
          else case key_of_seed kl seed of
            Inl e \<Rightarrow> (Inl e, None)
          | Inr priv \<Rightarrow>
              (case wallet_of_key kl priv of Inl e \<Rightarrow> (Inl e, None) | Inr w \<Rightarrow> (Inr w, Some w)))"

section \<open>The typed calls\<close>

text \<open>What the protobuf reader gives for one output; an absent field is \<open>None\<close>.\<close>

record utxo_reply =
  ur_txid :: "8 word list"
  ur_index :: "int option"
  ur_script :: "8 word list"
  ur_valueZat :: "int option"
  ur_height :: "int option"

record utxo =
  ux_txid :: string
  ux_txidBytes :: "8 word list"
  ux_index :: int
  ux_script :: string
  ux_scriptBytes :: "8 word list"
  ux_valueZat :: int
  ux_height :: int

definition utxo_of_reply :: "utxo_reply \<Rightarrow> utxo" where
  "utxo_of_reply u =
     \<lparr>ux_txid = hex_of_bytes (ur_txid u), ux_txidBytes = ur_txid u, ux_index = nullish (ur_index u) 0,
      ux_script = hex_of_bytes (ur_script u), ux_scriptBytes = ur_script u,
      ux_valueZat = nullish (ur_valueZat u) 0, ux_height = nullish (ur_height u) 0\<rparr>"

record submit_reply =
  sr_errorCode :: "int option"
  sr_errorMessage :: "string option"

text \<open>
  The chain servers as one send sees them: the endpoints with their parser, the three calls, and the answers
  of the expiry tip with the time they took together. \<open>cs_took\<close> says whether a server that is handed a
  transaction takes it into its mempool, whatever becomes of the reply.
\<close>

record chain_servers =
  cs_parse :: "string \<Rightarrow> url option"
  cs_endpoints :: "string list"
  cs_utxos :: "string \<Rightarrow> (utxo_reply list option) grpc_call"
  cs_branchId :: "string grpc_call"
  cs_tips :: "(string \<times> 8 word list option) list"
  cs_tipsMs :: int
  cs_submit :: "string \<Rightarrow> int \<Rightarrow> submit_reply grpc_call"
  cs_took :: "grpc_target \<Rightarrow> string \<Rightarrow> bool"

definition GRPC_TIMEOUT_MS :: int where "GRPC_TIMEOUT_MS = 6000"

definition get_address_utxos :: "chain_servers \<Rightarrow> string \<Rightarrow> int \<Rightarrow> (string + utxo list) \<times> int" where
  "get_address_utxos cs address now =
     (case call_first (cs_parse cs) (cs_utxos cs address) (cs_endpoints cs) GRPC_TIMEOUT_MS now of
        (Inl e, t) \<Rightarrow> (Inl e, t)
      | (Inr (r, endpoint), t) \<Rightarrow> (Inr (map utxo_of_reply (nullish r [])), t))"

definition send_raw_transaction :: "chain_servers \<Rightarrow> string \<Rightarrow> int \<Rightarrow> int \<Rightarrow> (string + int \<times> string) \<times> int" where
  "send_raw_transaction cs hex height now =
     (case call_first (cs_parse cs) (cs_submit cs hex height) (cs_endpoints cs) GRPC_TIMEOUT_MS now of
        (Inl e, t) \<Rightarrow> (Inl e, t)
      | (Inr (r, endpoint), t) \<Rightarrow> (Inr (nullish (sr_errorCode r) 0, nullish (sr_errorMessage r) ''''), t))"

text \<open>The balance of the wallet: every output counts.\<close>

definition transparent_balance :: "chain_servers \<Rightarrow> wallet_keys \<Rightarrow> int \<Rightarrow> (string + int) \<times> int" where
  "transparent_balance cs w now =
     (case get_address_utxos cs (fw_address w) now of
        (Inl e, t) \<Rightarrow> (Inl e, t)
      | (Inr us, t) \<Rightarrow> (Inr (foldl (\<lambda>sum u. sum + ux_valueZat u) 0 us), t))"

section \<open>Picking inputs\<close>

fun select_loop :: "utxo list \<Rightarrow> int \<Rightarrow> int \<Rightarrow> utxo list \<Rightarrow> utxo list \<times> int" where
  "select_loop chosen got need [] = (chosen, got)"
| "select_loop chosen got need (u # us) =
     (let chosen' = chosen @ [u]; got' = got + ux_valueZat u
      in if got' \<ge> need then (chosen', got') else select_loop chosen' got' need us)"

definition select_inputs :: "utxo list \<Rightarrow> int \<Rightarrow> utxo list \<times> int" where
  "select_inputs utxos need = select_loop [] 0 need utxos"

section \<open>The transparent payment\<close>

definition FEE_ZAT :: int where "FEE_ZAT = 10000"
definition ZCASH_SAPLING_VERSION :: int where "ZCASH_SAPLING_VERSION = 4"
definition SAPLING_VERSION_GROUP_ID :: int where "SAPLING_VERSION_GROUP_ID = 0x892f2085"
definition SIGHASH_ALL :: int where "SIGHASH_ALL = 1"

text \<open>What the transaction library is told: version, branch, expiry, inputs, outputs, and each signature's value.\<close>

record tx_plan =
  tp_version :: int
  tp_versionGroupId :: int
  tp_branchId :: "int option"
  tp_expiryHeight :: int
  tp_lockTime :: int
  tp_inputs :: "(8 word list \<times> int) list"
  tp_outputs :: "(string \<times> int) list"
  tp_signed :: "(nat \<times> int \<times> int) list"

definition build_transparent_tx ::
  "wallet_keys \<Rightarrow> utxo list \<Rightarrow> int \<Rightarrow> string \<Rightarrow> int \<Rightarrow> int option \<Rightarrow> int \<Rightarrow> tx_plan" where
  "build_transparent_tx w chosen got toAddress amountZat branchId expiryHeight =
     (let change = got - amountZat - FEE_ZAT
      in \<lparr>tp_version = ZCASH_SAPLING_VERSION, tp_versionGroupId = SAPLING_VERSION_GROUP_ID, tp_branchId = branchId,
          tp_expiryHeight = expiryHeight, tp_lockTime = 0,
          tp_inputs = map (\<lambda>u. (ux_txidBytes u, ux_index u)) chosen,
          tp_outputs = (toAddress, amountZat) # (if change > 0 then [(fw_address w, change)] else []),
          tp_signed = map (\<lambda>(i, u). (i, SIGHASH_ALL, ux_valueZat u)) (enumerate 0 chosen)\<rparr>)"

text \<open>\<open>parseInt(s, 16)\<close>; \<open>None\<close> is \<open>NaN\<close>.\<close>

definition parse_int_16 :: "string \<Rightarrow> int option" where
  "parse_int_16 s =
     (let s1 = dropWhile is_space s;
          minus = starts_with s1 ''-'';
          s2 = (if minus \<or> starts_with s1 ''+'' then drop 1 s1 else s1);
          s3 = (if starts_with (to_lower s2) ''0x'' then drop 2 s2 else s2);
          ds = takeWhile (\<lambda>c. hex_nibble c \<noteq> None) s3;
          v = foldl (\<lambda>x c. 16 * x + int (the (hex_nibble c))) 0 ds
      in if ds = [] then None else Some (if minus then - v else v))"

text \<open>\<open>Promise.all\<close> of two calls: both answers at the later end, or the rejection that comes first.\<close>

definition both_of :: "(string + 'a) \<times> int \<Rightarrow> (string + 'b) \<times> int \<Rightarrow> (string + 'a \<times> 'b) \<times> int" where
  "both_of p q =
     (case (fst p, fst q) of
        (Inr a, Inr b) \<Rightarrow> (Inr (a, b), max (snd p) (snd q))
      | (Inl e, Inr b) \<Rightarrow> (Inl e, snd p)
      | (Inr a, Inl e) \<Rightarrow> (Inl e, snd q)
      | (Inl e, Inl e') \<Rightarrow> if snd p \<le> snd q then (Inl e, snd p) else (Inl e', snd q))"

definition no_tip_message :: "string list \<Rightarrow> string" where
  "no_tip_message endpoints =
     ''No lightwalletd endpoint reported a tip, so a transaction'' @ [CHR 0x27] @ ''s expiry height cannot be set safely (asked ''
       @ show_nat (length endpoints) @ '': '' @ join_with '', '' endpoints @ '').''"

definition ask_expiry_tip :: "chain_servers \<Rightarrow> int \<Rightarrow> (string + int) \<times> int" where
  "ask_expiry_tip cs now =
     ((case Option.bind (tip_for_expiry (cs_tips cs)) et_height of
         Some h \<Rightarrow> Inr h | None \<Rightarrow> Inl (no_tip_message (map fst (cs_tips cs)))), now + cs_tipsMs cs)"

definition plain_error :: "string \<Rightarrow> send_error" where
  "plain_error why = Send_Failed \<lparr>je_code = None, je_message = why\<rparr>"

text \<open>
  The tail both senders share: hand the finished transaction over, read the error code. The result carries the
  clock at its end.
\<close>

definition broadcast ::
  "chain_servers \<Rightarrow> string \<Rightarrow> int \<Rightarrow> send_result \<Rightarrow> int \<Rightarrow> (send_error + send_result) \<times> int" where
  "broadcast cs hex height result now =
     (case send_raw_transaction cs hex height now of
        (Inl e, t) \<Rightarrow> (Inl (plain_error e), t)
      | (Inr (code, msg), t) \<Rightarrow>
          (if code \<noteq> 0 then Inl (plain_error (''Broadcast rejected (code '' @ show_int code @ ''): '' @ msg)) else Inr result, t))"

text \<open>\<open>build\<close> is the library: it signs the plan with the key and gives the bytes as hex and the id, or throws.\<close>

definition transparent_send ::
  "chain_servers \<Rightarrow> (payload \<Rightarrow> tx_plan \<Rightarrow> string + (string \<times> string)) \<Rightarrow> (string \<Rightarrow> string option)
     \<Rightarrow> wallet_keys \<Rightarrow> string \<Rightarrow> int \<Rightarrow> int \<Rightarrow> (send_error + send_result) \<times> int" where
  "transparent_send cs build explorer w toAddress amountZat now =
     (case get_address_utxos cs (fw_address w) now of
        (Inl e, t) \<Rightarrow> (Inl (plain_error e), t)
      | (Inr utxos, t) \<Rightarrow>
          if utxos = [] then (Inl (plain_error ''Faucet wallet has no confirmed funds. Top it up.''), t)
          else let need = amountZat + FEE_ZAT; (chosen, got) = select_inputs utxos need in
            if got < need then (Inl (plain_error ''Faucet balance too low to cover this drip + fee.''), t)
            else case both_of (ask_expiry_tip cs t)
                (case call_first (cs_parse cs) (cs_branchId cs) (cs_endpoints cs) GRPC_TIMEOUT_MS t of (r, t') \<Rightarrow> (map_sum id fst r, t')) of
              (Inl e, t2) \<Rightarrow> (Inl (plain_error e), t2)
            | (Inr (height, branch), t2) \<Rightarrow>
                (case build (fw_priv w) (build_transparent_tx w chosen got toAddress amountZat (parse_int_16 branch) (height + 40)) of
                   Inl e \<Rightarrow> (Inl (plain_error e), t2)
                 | Inr (hex, txid) \<Rightarrow>
                     broadcast cs hex height
                       \<lparr>res_txid = Some txid, res_explorerUrl = Some (nullish (explorer txid) ''''), res_amountZat = None\<rparr> t2))"

definition SHIELDED_REFUSAL :: string where
  "SHIELDED_REFUSAL = ''Real shielded sends aren'' @ [CHR 0x27] @ ''t enabled: change would land in a shielded pool this ''
     @ ''transparent faucet can'' @ [CHR 0x27] @ ''t re-spend (funds would be stranded). Use a transparent ''
     @ ''(tm'' @ [CHR 0xE2, CHR 0x80, CHR 0xA6] @ '') address, or enable shielded via a sweep-capable wallet. See DEPLOY.md.''"

definition real_send ::
  "key_lib \<Rightarrow> string \<Rightarrow> chain_servers \<Rightarrow> (payload \<Rightarrow> tx_plan \<Rightarrow> string + (string \<times> string)) \<Rightarrow> (string \<Rightarrow> string option)
     \<Rightarrow> bool \<Rightarrow> string \<Rightarrow> int \<Rightarrow> int \<Rightarrow> int \<times> (send_error + send_result)" where
  "real_send kl seed cs build explorer shielded toAddress amountZat now =
     (if shielded then (0, Inl (plain_error SHIELDED_REFUSAL))
      else case fst (faucet_wallet kl seed None) of
        Inl e \<Rightarrow> (0, Inl (plain_error e))
      | Inr w \<Rightarrow>
          (case transparent_send cs build explorer w toAddress amountZat now of (r, t) \<Rightarrow> (t - now, r)))"

section \<open>The shielded payment\<close>

definition FEE_CUSHION_ZAT :: int where "FEE_CUSHION_ZAT = 20000"

record t2z_input =
  ti_pubHex :: string
  ti_txidHex :: string
  ti_index :: int
  ti_valueZat :: int
  ti_scriptHex :: string

record t2z_job =
  tj_inputs :: "t2z_input list"
  tj_recipientUA :: string
  tj_changeTAddr :: string
  tj_faucetPrivHex :: string
  tj_expiryHeight :: int
  tj_dripZat :: int

definition t2z_job_of :: "wallet_keys \<Rightarrow> utxo list \<Rightarrow> string \<Rightarrow> int \<Rightarrow> int \<Rightarrow> t2z_job" where
  "t2z_job_of w chosen toAddress amountZat height =
     \<lparr>tj_inputs = map (\<lambda>u. \<lparr>ti_pubHex = fw_pubHex w, ti_txidHex = ux_txid u, ti_index = ux_index u,
          ti_valueZat = ux_valueZat u, ti_scriptHex = ux_script u\<rparr>) chosen,
      tj_recipientUA = toAddress, tj_changeTAddr = fw_address w, tj_faucetPrivHex = hex_text (fw_priv w),
      tj_expiryHeight = height + 40, tj_dripZat = amountZat\<rparr>"

text \<open>
  \<open>prove\<close> is the worker, a duration and the finished transaction; \<open>read_id\<close> is the library reading a
  transaction's id back, \<open>None\<close> its throw, which \<open>txidFromHex\<close> turns into the empty string.
\<close>

definition txid_from_hex :: "(string \<Rightarrow> string option) \<Rightarrow> string \<Rightarrow> string" where
  "txid_from_hex read_id hex = nullish (read_id hex) ''''"

definition t2z_pay ::
  "chain_servers \<Rightarrow> (t2z_job \<Rightarrow> int \<times> (string + string)) \<Rightarrow> (string \<Rightarrow> string option) \<Rightarrow> (string \<Rightarrow> string option)
     \<Rightarrow> wallet_keys \<Rightarrow> string \<Rightarrow> int \<Rightarrow> int \<Rightarrow> (send_error + send_result) \<times> int" where
  "t2z_pay cs prove read_id explorer w toAddress amountZat now =
     (case get_address_utxos cs (fw_address w) now of
        (Inl e, t) \<Rightarrow> (Inl (plain_error e), t)
      | (Inr utxos, t) \<Rightarrow>
          if utxos = [] then (Inl (plain_error ''Faucet wallet has no confirmed funds. Top it up.''), t)
          else let need = amountZat + FEE_CUSHION_ZAT; (chosen, got) = select_loop [] 0 need utxos in
            if got < need then (Inl (plain_error ''Faucet balance too low to cover this drip + fee.''), t)
            else case ask_expiry_tip cs t of
              (Inl e, t2) \<Rightarrow> (Inl (plain_error e), t2)
            | (Inr height, t2) \<Rightarrow>
                (case prove (t2z_job_of w chosen toAddress amountZat height) of
                   (took, Inl e) \<Rightarrow> (Inl (plain_error e), t2 + took)
                 | (took, Inr hex) \<Rightarrow>
                     (let txid = txid_from_hex read_id hex
                      in broadcast cs hex height
                           \<lparr>res_txid = Some txid, res_explorerUrl = explorer txid, res_amountZat = None\<rparr> (t2 + took))))"

definition t2z_send ::
  "key_lib \<Rightarrow> string \<Rightarrow> chain_servers \<Rightarrow> (t2z_job \<Rightarrow> int \<times> (string + string)) \<Rightarrow> (string \<Rightarrow> string option)
     \<Rightarrow> (string \<Rightarrow> string option) \<Rightarrow> string \<Rightarrow> int \<Rightarrow> int \<Rightarrow> int \<times> (send_error + send_result)" where
  "t2z_send kl seed cs prove read_id explorer toAddress amountZat now =
     (case fst (faucet_wallet kl seed None) of
        Inl e \<Rightarrow> (0, Inl (plain_error e))
      | Inr w \<Rightarrow>
          (case t2z_pay cs prove read_id explorer w toAddress amountZat now of (r, t) \<Rightarrow> (t - now, r)))"

text \<open>\<open>CompositeRealSender\<close> of \<open>send.ts\<close> with the time each sender takes.\<close>

definition composite_real_send ::
  "(string \<Rightarrow> int \<Rightarrow> int \<times> (send_error + send_result)) \<Rightarrow> (string \<Rightarrow> int \<Rightarrow> int \<times> (send_error + send_result))
     \<Rightarrow> address_kind \<Rightarrow> string \<Rightarrow> int \<Rightarrow> int \<times> (send_error + send_result)" where
  "composite_real_send realS t2z kind a amt =
     (case kind of Unified \<Rightarrow> fst (t2z a amt) | Sapling \<Rightarrow> 0 | Transparent \<Rightarrow> fst (realS a amt),
      composite_send (\<lambda>a amt. snd (realS a amt)) (\<lambda>a amt. snd (t2z a amt)) kind a amt)"

section \<open>Facts\<close>

definition values_of :: "utxo list \<Rightarrow> int" where
  "values_of us = sum_list (map ux_valueZat us)"

lemma select_loop_prefix:
  assumes "select_loop chosen got need us = (ch, g)" and "us \<noteq> []"
  shows "\<exists>n. 0 < n \<and> n \<le> length us \<and> ch = chosen @ take n us \<and> g = got + values_of (take n us)
    \<and> (need \<le> g \<or> n = length us) \<and> (\<forall>k. 0 < k \<longrightarrow> k < n \<longrightarrow> got + values_of (take k us) < need)"
  using assms
proof (induction us arbitrary: chosen got)
  case (Cons u us)
  show ?case
  proof (cases "need \<le> got + ux_valueZat u \<or> us = []")
    case True
    then have "ch = chosen @ [u]" "g = got + ux_valueZat u" using Cons.prems(1) by (auto simp: Let_def split: if_splits)
    then show ?thesis using True by (intro exI [of _ 1]) (auto simp: values_of_def)
  next
    case False
    then have "select_loop (chosen @ [u]) (got + ux_valueZat u) need us = (ch, g)" "us \<noteq> []"
      using Cons.prems(1) by (auto simp: Let_def)
    from Cons.IH [OF this] obtain n where n: "0 < n" "n \<le> length us" "ch = (chosen @ [u]) @ take n us"
        "g = got + ux_valueZat u + values_of (take n us)" "need \<le> g \<or> n = length us"
        "\<forall>k. 0 < k \<longrightarrow> k < n \<longrightarrow> got + ux_valueZat u + values_of (take k us) < need"
      by blast
    have "got + values_of (take k (u # us)) < need" if "0 < k" "k < Suc n" for k
      using that n(6) False by (cases k; cases "k - 1") (auto simp: values_of_def)
    then show ?thesis using n by (intro exI [of _ "Suc n"]) (auto simp: values_of_def)
  qed
qed simp

lemma summarize_height:
  assumes "et_height (summarize rs) = Some h" and "r \<in> set rs" and "ep_height r = Some x"
  shows "x \<le> h"
proof -
  have h: "usable_heights rs \<noteq> []" "h = Max (set (usable_heights rs))"
    using assms(1) by (auto simp: summarize_def Let_def split: if_splits)
  have pos: "0 < Max (set (usable_heights rs))"
  proof -
    have "Max (set (usable_heights rs)) \<in> set (usable_heights rs)" using h(1) by simp
    then show ?thesis by (auto simp: usable_heights_def split: option.splits)
  qed
  show ?thesis
  proof (cases "0 < x")
    case True
    have "x \<in> set (usable_heights rs)"
      using assms(2,3) True unfolding usable_heights_def by (force intro: image_eqI [of _ _ r])
    then show ?thesis using h(2) by simp
  next
    case False
    then show ?thesis using h pos by linarith
  qed
qed

lemma ask_expiry_tip_height:
  assumes "fst (ask_expiry_tip cs now) = Inr h" and "(e, reply) \<in> set (cs_tips cs)" and "ask_one reply = Some x"
  shows "x \<le> h"
proof -
  obtain tip where tip: "tip_for_expiry (cs_tips cs) = Some tip" "et_height tip = Some h"
    using assms(1) by (auto simp: ask_expiry_tip_def split: option.splits bind_splits)
  then have "tip = summarize (map (\<lambda>(e, r). \<lparr>ep_endpoint = e, ep_height = ask_one r\<rparr>) (cs_tips cs))"
    by (auto simp: tip_for_expiry_def Let_def split: if_splits)
  with tip(2) assms(2,3) show ?thesis
    by (intro summarize_height [of _ h "\<lparr>ep_endpoint = e, ep_height = ask_one reply\<rparr>"]) (auto intro!: image_eqI [of _ _ "(e, reply)"])
qed

lemma call_first_answer:
  assumes "call_first parse call eps timeoutMs now = (Inr (x, ep), t)"
  shows "\<exists>u ms. ep \<in> set eps \<and> parse ep = Some u \<and> snd (call (target_for u) ms) = Inr x"
  using call_loop_answer [of parse call timeoutMs "failover_ends_at timeoutMs now" None eps now x ep] assms
  unfolding call_first_def by auto

lemma both_of_Inr: "both_of p q = (Inr (a, b), t) \<Longrightarrow> fst p = Inr a \<and> fst q = Inr b"
  by (auto simp: both_of_def split: sum.splits if_splits)

lemma broadcast_Inr:
  assumes "broadcast cs hex height result now = (Inr r, t)"
  shows "r = result \<and> (\<exists>ep u ms a. ep \<in> set (cs_endpoints cs) \<and> cs_parse cs ep = Some u
    \<and> snd (cs_submit cs hex height (target_for u) ms) = Inr a \<and> nullish (sr_errorCode a) 0 = 0)"
proof -
  obtain x where s: "send_raw_transaction cs hex height now = (Inr (0, x), t)" and r: "r = result"
    using assms by (auto simp: broadcast_def split: prod.splits sum.splits if_splits)
  then obtain a ep where "call_first (cs_parse cs) (cs_submit cs hex height) (cs_endpoints cs) GRPC_TIMEOUT_MS now = (Inr (a, ep), t)"
      "nullish (sr_errorCode a) 0 = 0"
    by (auto simp: send_raw_transaction_def split: prod.splits sum.splits)
  with call_first_answer [of "cs_parse cs" _ _ GRPC_TIMEOUT_MS now a ep t] r show ?thesis by blast
qed

section \<open>What a payment moves\<close>

text \<open>
  C14: A transparent payment that gives a receipt moved exactly what it says. It spends a shortest run of
  outputs from the front of the wallet's listing, each once and signed for its own value; it pays the
  recipient the requested amount and everything above the fixed fee back to the wallet, so inputs and
  outputs differ by the fee alone; it expires forty blocks above a height no server that answered exceeds; and
  one of the configured servers took it with error code zero, under the id of the receipt.
\<close>

theorem transparent_payment_conserves:
  assumes "transparent_send cs build explorer w toAddress amountZat now = (Inr r, t)" and "0 < amountZat"
  shows "\<exists>utxos n plan hex txid h branch. fst (get_address_utxos cs (fw_address w) now) = Inr utxos
    \<and> plan = build_transparent_tx w (take n utxos) (values_of (take n utxos)) toAddress amountZat branch (h + 40)
    \<and> build (fw_priv w) plan = Inr (hex, txid) \<and> res_txid r = Some txid
    \<and> values_of (take n utxos) = sum_list (map snd (tp_outputs plan)) + FEE_ZAT
    \<and> hd (tp_outputs plan) = (toAddress, amountZat)
    \<and> (\<forall>(a, v)\<in>set (tl (tp_outputs plan)). a = fw_address w \<and> 0 < v)
    \<and> (\<forall>k. 0 < k \<longrightarrow> k < n \<longrightarrow> values_of (take k utxos) < amountZat + FEE_ZAT)
    \<and> map (\<lambda>(i, s, v). v) (tp_signed plan) = map ux_valueZat (take n utxos)
    \<and> map fst (tp_signed plan) = [0..<length (tp_inputs plan)]
    \<and> (\<forall>e reply x. (e, reply) \<in> set (cs_tips cs) \<longrightarrow> ask_one reply = Some x \<longrightarrow> x + 40 \<le> tp_expiryHeight plan)
    \<and> (\<exists>ep u ms a. ep \<in> set (cs_endpoints cs) \<and> cs_parse cs ep = Some u
        \<and> snd (cs_submit cs hex h (target_for u) ms) = Inr a \<and> nullish (sr_errorCode a) 0 = 0)"
proof -
  let ?need = "amountZat + FEE_ZAT"
  obtain utxos t1 where us: "get_address_utxos cs (fw_address w) now = (Inr utxos, t1)" "utxos \<noteq> []"
    using assms(1) by (auto simp: transparent_send_def split: prod.splits sum.splits if_splits)
  obtain ch g where sel: "select_inputs utxos ?need = (ch, g)" by (cases "select_inputs utxos ?need")
  from select_loop_prefix [of "[]" 0 ?need utxos ch g] sel us(2) obtain n where
    n: "n \<le> length utxos" "ch = take n utxos" "g = values_of (take n utxos)"
      "\<forall>k. 0 < k \<longrightarrow> k < n \<longrightarrow> values_of (take k utxos) < ?need"
    by (auto simp: select_inputs_def)
  have enough: "?need \<le> g"
    using assms(1) us sel by (auto simp: transparent_send_def Let_def split: if_splits)
  let ?info = "case call_first (cs_parse cs) (cs_branchId cs) (cs_endpoints cs) GRPC_TIMEOUT_MS t1 of (r, t') \<Rightarrow> (map_sum id fst r, t')"
  obtain h branch t2 where both: "both_of (ask_expiry_tip cs t1) ?info = (Inr (h, branch), t2)"
    using assms(1) us sel enough by (auto simp: transparent_send_def Let_def split: prod.splits sum.splits)
  let ?plan = "build_transparent_tx w ch g toAddress amountZat (parse_int_16 branch) (h + 40)"
  obtain hex txid where b: "build (fw_priv w) ?plan = Inr (hex, txid)"
    using assms(1) us sel enough both by (auto simp: transparent_send_def Let_def split: sum.splits)
  have bc: "broadcast cs hex h \<lparr>res_txid = Some txid, res_explorerUrl = Some (nullish (explorer txid) ''''), res_amountZat = None\<rparr> t2
      = (Inr r, t)"
    using assms(1) us sel enough both b by (simp add: transparent_send_def Let_def)
  have tips: "x + 40 \<le> tp_expiryHeight ?plan" if "(e, reply) \<in> set (cs_tips cs)" "ask_one reply = Some x" for e reply x
    using ask_expiry_tip_height [of cs t1 h e reply x] both_of_Inr [OF both] that
    by (simp add: build_transparent_tx_def Let_def)
  have signed: "map (\<lambda>(i, s, v). v) (tp_signed ?plan) = map ux_valueZat ch" "map fst (tp_signed ?plan) = [0..<length (tp_inputs ?plan)]"
    by (auto simp: build_transparent_tx_def Let_def enumerate_eq_zip intro!: nth_equalityI)
  have outs: "g = sum_list (map snd (tp_outputs ?plan)) + FEE_ZAT" "hd (tp_outputs ?plan) = (toAddress, amountZat)"
      "\<forall>(a, v)\<in>set (tl (tp_outputs ?plan)). a = fw_address w \<and> 0 < v"
    using enough by (auto simp: build_transparent_tx_def Let_def)
  show ?thesis
    by (rule exI [of _ utxos], rule exI [of _ n], rule exI [of _ ?plan], rule exI [of _ hex], rule exI [of _ txid],
        rule exI [of _ h], rule exI [of _ "parse_int_16 branch"])
      (use us n b outs signed tips broadcast_Inr [OF bc] in \<open>auto simp del: upt_Suc\<close>)
qed

section \<open>How long it takes\<close>

lemma call_first_time:
  assumes "keeps_deadline call" and "call_first parse call eps GRPC_TIMEOUT_MS now = (res, t)"
  shows "now \<le> t \<and> t \<le> now + 12000"
  using call_loop_time [OF assms(1), of now "failover_ends_at GRPC_TIMEOUT_MS now" parse GRPC_TIMEOUT_MS None eps] assms(2)
  by (simp add: call_first_def failover_ends_at_def FAILOVER_BUDGET_MULTIPLIER_def GRPC_TIMEOUT_MS_def)

definition servers_keep_deadlines :: "chain_servers \<Rightarrow> bool" where
  "servers_keep_deadlines cs \<longleftrightarrow>
     (\<forall>a. keeps_deadline (cs_utxos cs a)) \<and> keeps_deadline (cs_branchId cs) \<and> (\<forall>x h. keeps_deadline (cs_submit cs x h))
       \<and> 0 \<le> cs_tipsMs cs \<and> cs_tipsMs cs \<le> 6000"

lemma get_address_utxos_time:
  assumes "servers_keep_deadlines cs" and "get_address_utxos cs a now = (res, t)"
  shows "now \<le> t \<and> t \<le> now + 12000"
proof -
  obtain r where "call_first (cs_parse cs) (cs_utxos cs a) (cs_endpoints cs) GRPC_TIMEOUT_MS now = (r, t)"
    using assms(2) by (auto simp: get_address_utxos_def split: prod.splits sum.splits)
  then show ?thesis using assms(1) call_first_time unfolding servers_keep_deadlines_def by blast
qed

lemma broadcast_time:
  assumes "servers_keep_deadlines cs" and "broadcast cs hex height result now = (res, t)"
  shows "now \<le> t \<and> t \<le> now + 12000"
proof -
  obtain r where "call_first (cs_parse cs) (cs_submit cs hex height) (cs_endpoints cs) GRPC_TIMEOUT_MS now = (r, t)"
    using assms(2) by (auto simp: broadcast_def send_raw_transaction_def split: prod.splits sum.splits)
  then show ?thesis using assms(1) call_first_time unfolding servers_keep_deadlines_def by blast
qed

lemma both_of_time:
  "both_of p q = (res, t) \<Longrightarrow> min (snd p) (snd q) \<le> t \<and> t \<le> max (snd p) (snd q)"
  by (auto simp: both_of_def split: sum.splits if_splits)

lemma transparent_send_time:
  assumes "servers_keep_deadlines cs" and "transparent_send cs build explorer w a amt now = (res, t)"
  shows "now \<le> t \<and> t \<le> now + 36000"
proof -
  obtain u t1 where u: "get_address_utxos cs (fw_address w) now = (u, t1)" by (cases "get_address_utxos cs (fw_address w) now")
  have t1: "now \<le> t1" "t1 \<le> now + 12000" using get_address_utxos_time [OF assms(1) u] by auto
  let ?info = "case call_first (cs_parse cs) (cs_branchId cs) (cs_endpoints cs) GRPC_TIMEOUT_MS t1 of (r, t') \<Rightarrow> (map_sum id fst r, t')"
  have info: "t1 \<le> snd ?info \<and> snd ?info \<le> t1 + 12000"
    using assms(1) call_first_time [of "cs_branchId cs" "cs_parse cs" "cs_endpoints cs" t1] unfolding servers_keep_deadlines_def
    by (auto split: prod.splits)
  have tip: "t1 \<le> snd (ask_expiry_tip cs t1) \<and> snd (ask_expiry_tip cs t1) \<le> t1 + 6000"
    using assms(1) by (simp add: ask_expiry_tip_def servers_keep_deadlines_def)
  obtain b t2 where b: "both_of (ask_expiry_tip cs t1) ?info = (b, t2)" by (cases "both_of (ask_expiry_tip cs t1) ?info")
  have t2: "t1 \<le> t2" "t2 \<le> t1 + 12000" using both_of_time [OF b] info tip by auto
  consider "t = t1" | "t = t2" | hex h r where "broadcast cs hex h r t2 = (res, t)"
    using assms(2) u b
    by (auto simp: transparent_send_def Let_def split: sum.splits prod.splits if_splits)
  then show ?thesis using t1 t2 broadcast_time [OF assms(1), of _ _ _ t2 res t] by cases force+
qed

text \<open>
  a transparent send is never cut off by the queue. With chain servers that keep the deadline of each
  call it returns within thirty-six seconds, however many servers there are and whatever they answer, and
  that is below the deadline the queue gives a task unless the environment sets a shorter one, whatever
  timings of the other wallet that deadline is derived from.
\<close>

theorem transparent_send_beats_deadline:
  assumes "servers_keep_deadlines cs" and "real_send kl seed cs build explorer shielded a amt now = (took, res)"
  shows "0 \<le> took \<and> took \<le> 36000 \<and> took < send_task_deadline_ms None (zallet_timings rpc opt poll)"
proof -
  have "0 \<le> took \<and> took \<le> 36000"
    using assms(2) transparent_send_time [OF assms(1), of build explorer _ a amt now]
    by (fastforce simp: real_send_def split: if_splits sum.splits prod.splits)
  moreover have "36000 < send_task_deadline_ms None (zallet_timings rpc opt poll)"
    by (simp add: send_task_deadline_ms_def default_task_deadline_ms_def sender_worst_case_ms_eq zallet_timings_def DEADLINE_MARGIN_MS_def)
  ultimately show ?thesis by linarith
qed

section \<open>The wallet of a minted account\<close>

lemma hex_text_key:
  assumes "length bs = 32" and "\<forall>b\<in>set bs. b < 256"
  shows "is_hex_key (hex_text bs)" and "map unat (bytes_of_hex (hex_text bs)) = bs"
proof -
  have l: "length (hex_of_bytes ws) = 2 * length ws" for ws by (induction ws) (simp_all add: hex_of_bytes_def)
  have n: "list_all (\<lambda>c. hex_nibble c \<noteq> None) (hex_of_bytes ws)" for ws
    by (induction ws) (auto simp: hex_of_bytes_def unat_byte_less less_mult_imp_div_less)
  show "is_hex_key (hex_text bs)" using assms(1) n l by (simp add: is_hex_key_def hex_text_def)
  have "map unat (bytes_of_hex (hex_of_bytes ws)) = map unat ws" for ws by (simp add: bytes_of_hex_of_bytes)
  moreover have "map unat (map (word_of_nat :: nat \<Rightarrow> 8 word) bs) = bs"
    using assms(2) by (auto simp: unat_of_nat intro: map_idI)
  ultimately show "map unat (bytes_of_hex (hex_text bs)) = bs" by (simp add: hex_text_def)
qed

lemma hex_nibble_space: "hex_nibble c \<noteq> None \<Longrightarrow> \<not> is_space c"
  by (auto simp: is_space_def hex_nibble_def less_eq_char_def split: if_splits)

text \<open>The hash of the public key of a scalar, as the throwaway accounts use it.\<close>

definition pkh_of :: "key_lib \<Rightarrow> payload \<Rightarrow> payload" where
  "pkh_of kl priv = (case kl_publicKey kl priv of Inr pub \<Rightarrow> kl_hash160 kl pub | Inl e \<Rightarrow> [])"

text \<open>
  an account minted on the Account tab can fund the faucet. Its secret, given as the seed, is read back
  as the same key, so the wallet the faucet spends from has exactly the address that was handed out; and the same
  key written as sixty-four hex digits gives the same wallet.
\<close>

theorem minted_account_is_the_wallet:
  assumes "generate_transparent (pkh_of kl) (kl_encode kl) random_bytes = Some (address, wif)"
    and "\<forall>i. length (random_bytes i) = 32 \<and> (\<forall>b\<in>set (random_bytes i). b < 256)"
    and "\<forall>p. (\<forall>b\<in>set p. b < 256) \<longrightarrow> kl_decode kl (kl_encode kl p) = Some p"
    and "\<forall>b. is_valid_scalar b \<longrightarrow> (\<exists>pub. kl_publicKey kl b = Inr pub)"
    and "\<forall>p. length p = 34 \<longrightarrow> trim (kl_encode kl p) = kl_encode kl p \<and> kl_encode kl p \<noteq> [] \<and> \<not> is_hex_key (kl_encode kl p)"
    and "is_valid_scalar (random_bytes k)"
  shows "\<exists>w. fst (faucet_wallet kl wif None) = Inr w \<and> fw_address w = address
    \<and> fst (faucet_wallet kl (hex_text (fw_priv w)) None) = Inr w"
proof -
  obtain j where j: "draw_scalar random_bytes 0 = Some (random_bytes j)" "is_valid_scalar (random_bytes j)"
    using draw_scalar_first [of random_bytes, OF assms(6)] by blast
  let ?priv = "random_bytes j"
  obtain pub where pub: "kl_publicKey kl ?priv = Inr pub" using assms(4) j(2) by blast
  have given: "address = kl_encode kl (TESTNET_P2PKH @ kl_hash160 kl pub)" "wif = kl_encode kl (0xef # ?priv @ [1])"
    using assms(1) j(1) pub by (simp_all add: generate_transparent_def pkh_of_def TESTNET_WIF_def)
  have len: "length ?priv = 32" and bytes: "\<forall>b\<in>set ?priv. b < 256" using assms(2) by auto
  have wif: "trim wif = wif" "wif \<noteq> []" "\<not> is_hex_key wif" using assms(5) len unfolding given by simp_all
  have decoded: "kl_decode kl wif = Some (0xef # ?priv @ [1])" using assms(3) bytes unfolding given by (auto intro!: assms(3) [rule_format])
  obtain w where w: "wallet_of_key kl ?priv = Inr w" "fw_address w = address" "fw_priv w = ?priv"
    using pub given by (auto simp: wallet_of_key_def Let_def)
  have one: "fst (faucet_wallet kl wif None) = Inr w"
    using wif decoded w(1) len by (simp add: faucet_wallet_def key_of_seed_def TESTNET_WIF_def)
  note hex = hex_text_key [OF len bytes]
  then have "trim (hex_text ?priv) = hex_text ?priv" "hex_text ?priv \<noteq> []"
    by (auto simp: is_hex_key_def list_all_iff intro!: trim_plain hex_nibble_space)
  then have "fst (faucet_wallet kl (hex_text ?priv) None) = Inr w"
    using hex w(1) by (simp add: faucet_wallet_def key_of_seed_def)
  then show ?thesis using one w by auto
qed

section \<open>Two ways to pay twice\<close>

text \<open>The endpoints a call reaches, one after another, and whether one of them took the transaction.\<close>

fun asked :: "(string \<Rightarrow> url option) \<Rightarrow> 'a grpc_call \<Rightarrow> int \<Rightarrow> int \<Rightarrow> string list \<Rightarrow> int \<Rightarrow> grpc_target list" where
  "asked parse call per endsAt [] now = []"
| "asked parse call per endsAt (endpoint # rest) now =
     (let attemptMs = failover_next per endsAt now in
      if attemptMs = 0 then []
      else case parse endpoint of
        None \<Rightarrow> []
      | Some u \<Rightarrow>
          target_for u # (case call (target_for u) attemptMs of
             (took, Inr result) \<Rightarrow> []
           | (took, Inl err) \<Rightarrow> asked parse call per endsAt rest (now + took)))"

definition in_a_mempool :: "chain_servers \<Rightarrow> string \<Rightarrow> int \<Rightarrow> int \<Rightarrow> bool" where
  "in_a_mempool cs hex height now =
     list_ex (\<lambda>t. cs_took cs t hex)
       (asked (cs_parse cs) (cs_submit cs hex height) GRPC_TIMEOUT_MS (failover_ends_at GRPC_TIMEOUT_MS now) (cs_endpoints cs) now)"

text \<open>Two endpoints; each transaction is taken, and \<open>reply\<close> says what the endpoints then answer.\<close>

definition ex_url :: "string \<Rightarrow> url option" where
  "ex_url s = (if s = [] then None else Some \<lparr>url_protocol = ''https:'', url_hostname = s, url_port = ''''\<rparr>)"

definition ex_keys :: key_lib where
  "ex_keys = \<lparr>kl_publicKey = (\<lambda>b. Inr (2 # b)), kl_hash160 = take 20, kl_encode = (\<lambda>p. ''tm'' @ map char_of p @ ''x''),
     kl_decode = (\<lambda>s. Some (map of_char (butlast (drop 2 s))))\<rparr>"

definition ex_wif :: string where
  "ex_wif = kl_encode ex_keys [0xef, 7, 1]"

definition ex_servers :: "(grpc_target \<Rightarrow> string + submit_reply) \<Rightarrow> chain_servers" where
  "ex_servers reply' = \<lparr>cs_parse = ex_url, cs_endpoints = [''a'', ''b''],
     cs_utxos = (\<lambda>a t ms. (min ms 200, Inr (Some [\<lparr>ur_txid = [1], ur_index = None, ur_script = [2], ur_valueZat = Some 100000, ur_height = Some 5\<rparr>]))),
     cs_branchId = (\<lambda>t ms. (min ms 100, Inr ''c8e71055'')), cs_tips = [(''a'', Some [8, 77]), (''b'', None)], cs_tipsMs = 300,
     cs_submit = (\<lambda>x h t ms. (ms, reply' t)), cs_took = (\<lambda>t x. gt_target t = ''a:443'')\<rparr>"

definition ex_build :: "payload \<Rightarrow> tx_plan \<Rightarrow> string + (string \<times> string)" where
  "ex_build priv plan = Inr (''04'', ''t'' @ show_int (tp_expiryHeight plan))"

text \<open>The first endpoint takes the transaction and its reply is lost; the second has seen it already.\<close>

definition ex_lost :: "grpc_target \<Rightarrow> string + submit_reply" where
  "ex_lost t = (if gt_target t = ''a:443'' then Inl ''DEADLINE_EXCEEDED''
     else Inr \<lparr>sr_errorCode = Some (-25), sr_errorMessage = Some ''already in mempool''\<rparr>)"

definition ex_clean :: "grpc_target \<Rightarrow> string + submit_reply" where
  "ex_clean t = Inr \<lparr>sr_errorCode = Some 0, sr_errorMessage = None\<rparr>"

definition ex_paying :: "(grpc_target \<Rightarrow> string + submit_reply) \<Rightarrow> int \<Rightarrow> libs" where
  "ex_paying reply' now = ex_libs\<lparr>lib_decoders := \<lparr>bech32m_decode = (\<lambda>s. Some (''utest'', replicate 48 0)), bech32_decode = (\<lambda>_. None),
       base58check_decode = base58check_decode (lib_decoders ex_libs)\<rparr>,
     lib_realSend := \<lambda>kind a amt. composite_real_send
       (\<lambda>a amt. real_send ex_keys ex_wif (ex_servers reply') ex_build (\<lambda>x. None) False a amt now)
       (\<lambda>a amt. t2z_send ex_keys ex_wif (ex_servers reply') (\<lambda>job. (20000, Inr ''05'')) (\<lambda>x. None) (\<lambda>x. None) a amt now) kind a amt\<rparr>"

definition ex_taz_body :: "string \<Rightarrow> claim_body option" where
  "ex_taz_body a = Some \<lparr>cb_address = a, cb_network = Some ''taz'', cb_pow = None\<rparr>"

declare height_loop.simps [code] await_loop.simps [code]

definition ex_route_real :: route_config where "ex_route_real = ex_route\<lparr>rt_sender_is_zallet := False\<rparr>"

definition ex_claim :: "string \<Rightarrow> (grpc_target \<Rightarrow> string + submit_reply) \<Rightarrow> int \<Rightarrow> faucet_state \<Rightarrow> response \<times> faucet_state" where
  "ex_claim a reply' now st = handle_claim ex_route_real (ex_paying reply' now) (ex_env now (Cl_Amount 50)) (ex_taz_body a) st"

lemma broadcast_error: "broadcast cs hex height result now = (Inl e, t) \<Longrightarrow> \<exists>m. e = Send_Failed m"
  by (auto simp: broadcast_def plain_error_def split: prod.splits sum.splits if_splits)

lemma real_send_error: "snd (real_send kl seed cs build explorer shielded a amt now) = Inl e \<Longrightarrow> \<exists>m. e = Send_Failed m"
  by (auto simp: real_send_def transparent_send_def plain_error_def Let_def
      split: if_splits sum.splits prod.splits dest: broadcast_error)

text \<open>The handler asks the external sender once, for the address and the amount of the claim.\<close>

lemma client_keys_frame: "client_keys cfg (lib\<lparr>lib_realSend := f\<rparr>) env = client_keys cfg lib env"
  by (simp add: client_keys_def split: option.split)

lemma realSend_frame:
  "check_request cfg (lib\<lparr>lib_realSend := f\<rparr>) env body st = check_request cfg lib env body st"
  "check_pow cfg (lib\<lparr>lib_realSend := f\<rparr>) env cx st = check_pow cfg lib env cx st"
  "claim_request_of cfg (lib\<lparr>lib_realSend := f\<rparr>) env cx = claim_request_of cfg lib env cx"
  unfolding check_request_def check_pow_def claim_request_of_def client_keys_frame
  by (cases lib; simp only: libs.update_convs libs.select_convs)+

lemma claim_amount: "cr_amount_zat (claim_request_of cfg lib env cx) = (if cx_network cx = Ctaz then rt_expectedZat cfg else rt_dripZat cfg)"
  by (simp add: claim_request_of_def case_prod_beta)

lemma handle_claim_realSend:
  assumes "\<And>cx. check_request cfg lib env body st = Inr cx
      \<Longrightarrow> cx_network cx = Taz \<and> f (ai_kind (cx_info cx)) (cx_address cx) (rt_dripZat cfg) = x"
  shows "handle_claim cfg (lib\<lparr>lib_realSend := f\<rparr>) env body st
    = handle_claim cfg (lib\<lparr>lib_realSend := \<lambda>kind a amt. x\<rparr>) env body st"
proof -
  have "reserve_and_pay cfg (lib\<lparr>lib_realSend := f\<rparr>) env cx st2
      = reserve_and_pay cfg (lib\<lparr>lib_realSend := \<lambda>kind a amt. x\<rparr>) env cx st2"
    if "check_request cfg lib env body st = Inr cx" for cx st2
    using assms [OF that]
    by (simp add: reserve_and_pay_def realSend_frame claim_amount send_answer_def Let_def
        split: prod.split reserve_result.split option.split sender_name.split write_fate.split)
  then show ?thesis by (simp add: handle_claim_def realSend_frame split: sum.split prod.split option.split)
qed

lemma taz_request:
  assumes "check_request cfg lib env (ex_taz_body a) st = Inr cx"
  shows "cx_address cx = trim a \<and> cx_network cx = Taz \<and> validate_testnet_address (lib_decoders lib) a = Inr (cx_info cx)"
proof -
  have "parse_network ''taz'' = Some Taz" by code_simp
  then show ?thesis using assms
    by (auto simp: check_request_def ex_taz_body_def Let_def split: if_splits sum.splits)
qed

lemma ex_sends:
  "lib_realSend (ex_paying ex_lost 2000000) Transparent ''tmAb'' 70
     = (12500, Inl (plain_error ''Broadcast rejected (code -25): already in mempool''))"
  "lib_realSend (ex_paying ex_clean 2030000) Transparent ''tmAb'' 70
     = (6500, Inr \<lparr>res_txid = Some ''t117'', res_explorerUrl = Some '''', res_amountZat = None\<rparr>)"
  "lib_realSend (ex_paying ex_clean 2000000) Unified ''utest1abc'' 70
     = (26500, Inr \<lparr>res_txid = Some '''', res_explorerUrl = None, res_amountZat = None\<rparr>)"
  "lib_realSend (ex_paying ex_clean 9000000) Unified ''utest1abc'' 70
     = (26500, Inr \<lparr>res_txid = Some '''', res_explorerUrl = None, res_amountZat = None\<rparr>)"
  by code_simp+

text \<open>The handler with the sender's answer put in.\<close>

definition ex_run :: "string \<Rightarrow> int \<times> (send_error + send_result) \<Rightarrow> int \<Rightarrow> faucet_state \<Rightarrow> response \<times> faucet_state" where
  "ex_run a x now st = handle_claim ex_route_real (ex_libs\<lparr>lib_decoders := lib_decoders (ex_paying ex_clean 0),
     lib_realSend := \<lambda>kind a amt. x\<rparr>) (ex_env now (Cl_Amount 50)) (ex_taz_body a) st"

lemma ex_claim_run:
  assumes "trim a = a" and "map_sum id ai_kind (validate_testnet_address (lib_decoders (ex_paying ex_clean 0)) a) = Inr kind"
    and "lib_realSend (ex_paying reply' now) kind a 70 = x"
  shows "ex_claim a reply' now st = ex_run a x now st"
proof -
  let ?lib = "ex_libs\<lparr>lib_decoders := lib_decoders (ex_paying ex_clean 0)\<rparr>"
  have lib: "ex_paying reply' now = ?lib\<lparr>lib_realSend := lib_realSend (ex_paying reply' now)\<rparr>"
    by (simp add: ex_paying_def)
  have "cx_network cx = Taz \<and> lib_realSend (ex_paying reply' now) (ai_kind (cx_info cx)) (cx_address cx) (rt_dripZat ex_route_real) = x"
    if "check_request ex_route_real ?lib (ex_env now (Cl_Amount 50)) (ex_taz_body a) st = Inr cx" for cx
    using taz_request [OF that] assms by (simp add: ex_route_real_def ex_route_def)
  from handle_claim_realSend [of ex_route_real ?lib "ex_env now (Cl_Amount 50)" "ex_taz_body a" st
      "lib_realSend (ex_paying reply' now)" x, OF this]
  show ?thesis by (simp add: ex_claim_def ex_run_def flip: lib)
qed

lemma ex_kinds: "trim ''tmAb'' = ''tmAb''" "trim ''utest1abc'' = ''utest1abc''"
  "map_sum id ai_kind (validate_testnet_address (lib_decoders (ex_paying ex_clean 0)) ''tmAb'') = Inr Transparent"
  "map_sum id ai_kind (validate_testnet_address (lib_decoders (ex_paying ex_clean 0)) ''utest1abc'') = Inr Unified"
  by code_simp+

lemmas ex_claims = ex_claim_run [OF ex_kinds(1,3) ex_sends(1)] ex_claim_run [OF ex_kinds(1,3) ex_sends(2)]
  ex_claim_run [OF ex_kinds(2,4) ex_sends(3)] ex_claim_run [OF ex_kinds(2,4) ex_sends(4)]

text \<open>
  A broadcast whose reply is lost is paid again. Every error of the transparent sender is a plain one,
  so the handler takes it for a send that moved nothing. Below, the first server takes the transaction
  and its reply is lost, the second refuses it as already known: the claimant is told that nothing left the
  wallet, the claim is marked failed, and thirty seconds later the same address is paid a second time, within
  the cooldown.
\<close>

theorem lost_broadcast_is_paid_again:
  "(\<forall>kl seed cs build explorer shielded a amt now. case snd (real_send kl seed cs build explorer shielded a amt now) of
        Inl e \<Rightarrow> \<exists>m. e = Send_Failed m | Inr r \<Rightarrow> True)
   \<and> in_a_mempool (ex_servers ex_lost) ''04'' 77 2000500
   \<and> fst (ex_claim ''tmAb'' ex_lost 2000000 ex_state) = Error_Response 502 Send_Failed_Gate None
   \<and> map status (claims (fs_ledger (snd (ex_claim ''tmAb'' ex_lost 2000000 ex_state)))) = [Failed]
   \<and> fst (ex_claim ''tmAb'' ex_clean 2030000 (snd (ex_claim ''tmAb'' ex_lost 2000000 ex_state)))
      = Ok_Response \<lparr>rc_txid = Some ''t117'', rc_explorerUrl = Some '''', rc_paidZat = None, rc_network = Taz,
          rc_sender = Real_Sender, rc_to = \<lparr>ai_kind = Transparent, ai_shielded = False\<rparr>\<rparr>"
proof (intro conjI)
  show "\<forall>kl seed cs build explorer shielded a amt now. case snd (real_send kl seed cs build explorer shielded a amt now) of
        Inl e \<Rightarrow> \<exists>m. e = Send_Failed m | Inr r \<Rightarrow> True"
    using real_send_error by (auto split: sum.split)
qed (unfold ex_claims, code_simp+)

text \<open>
  a shielded payment whose id cannot be read back is paid again. The sender then gives the empty id,
  as a missing link; the claimant gets a receipt, but the ledger refuses to record a sent claim without an
  id, so the row stays pending and its lease, not the cooldown, guards the address: it is paid
  a second time seven thousand seconds later, within a cooldown of a day.
\<close>

theorem unread_id_is_paid_again:
  "fst (ex_claim ''utest1abc'' ex_clean 2000000 ex_state)
      = Ok_Response \<lparr>rc_txid = Some '''', rc_explorerUrl = None, rc_paidZat = None, rc_network = Taz,
          rc_sender = Real_Sender, rc_to = \<lparr>ai_kind = Unified, ai_shielded = True\<rparr>\<rparr>
   \<and> map status (claims (fs_ledger (snd (ex_claim ''utest1abc'' ex_clean 2000000 ex_state)))) = [Pending]
   \<and> fst (ex_claim ''utest1abc'' ex_clean 9000000 (snd (ex_claim ''utest1abc'' ex_clean 2000000 ex_state)))
      = Ok_Response \<lparr>rc_txid = Some '''', rc_explorerUrl = None, rc_paidZat = None, rc_network = Taz,
          rc_sender = Real_Sender, rc_to = \<lparr>ai_kind = Unified, ai_shielded = True\<rparr>\<rparr>"
  unfolding ex_claims by (intro conjI; code_simp)

section \<open>Instances\<close>

definition ex_wallet :: wallet_keys where
  "ex_wallet = \<lparr>fw_priv = [7, 1], fw_pubHex = ''020701'', fw_address = ''tmW'', fw_scriptHex = ''76a9''\<rparr>"

theorem transparent_payment_conserves_witness:
  "\<exists>hex plan. ex_build [7, 1] plan = Inr (hex, ''t117'') \<and> hd (tp_outputs plan) = (''tmAb'', 70)"
proof -
  have s: "transparent_send (ex_servers ex_clean) ex_build (\<lambda>x. None) ex_wallet ''tmAb'' 70 0
      = (Inr \<lparr>res_txid = Some ''t117'', res_explorerUrl = Some '''', res_amountZat = None\<rparr>, 6500)"
    by code_simp
  show ?thesis using transparent_payment_conserves [OF s] by (auto simp: ex_wallet_def)
qed

lemma ex_servers_deadlines: "servers_keep_deadlines (ex_servers reply')"
  by (simp add: servers_keep_deadlines_def ex_servers_def keeps_deadline_def)

theorem transparent_send_beats_deadline_witness:
  "fst (real_send ex_keys ex_wif (ex_servers ex_lost) ex_build (\<lambda>x. None) False ''tmAb'' 70 0)
     < send_task_deadline_ms None (zallet_timings 1 1 1)"
  using transparent_send_beats_deadline [OF ex_servers_deadlines surjective_pairing] by blast

theorem minted_account_is_the_wallet_witness:
  "\<exists>address wif w. generate_transparent (pkh_of ex_keys) (kl_encode ex_keys) ex_draws = Some (address, wif)
     \<and> fst (faucet_wallet ex_keys wif None) = Inr w \<and> fw_address w = address
     \<and> fst (faucet_wallet ex_keys (hex_text (fw_priv w)) None) = Inr w"
proof -
  have v: "is_valid_scalar (ex_draws 1)" using ex_valid_draw .
  have d: "\<forall>i. length (ex_draws i) = 32 \<and> (\<forall>b\<in>set (ex_draws i). b < 256)" by (auto simp: ex_draws_def)
  have dec: "\<forall>p. (\<forall>b\<in>set p. b < 256) \<longrightarrow> kl_decode ex_keys (kl_encode ex_keys p) = Some p"
    by (auto simp: ex_keys_def map_idI)
  have pub: "\<forall>b. is_valid_scalar b \<longrightarrow> (\<exists>pub. kl_publicKey ex_keys b = Inr pub)" by (simp add: ex_keys_def)
  have enc: "\<forall>p. length p = 34 \<longrightarrow> trim (kl_encode ex_keys p) = kl_encode ex_keys p \<and> kl_encode ex_keys p \<noteq> []
      \<and> \<not> is_hex_key (kl_encode ex_keys p)"
    by (auto simp: ex_keys_def trim_def is_space_def is_hex_key_def)
  obtain j where j: "draw_scalar ex_draws 0 = Some (ex_draws j)" using draw_scalar_first [of ex_draws, OF v] by blast
  then obtain address wif where g: "generate_transparent (pkh_of ex_keys) (kl_encode ex_keys) ex_draws = Some (address, wif)"
    by (simp add: generate_transparent_def)
  from minted_account_is_the_wallet [OF g d dec pub enc v] g show ?thesis by blast
qed

end
