(* ===== verification/T2z_Worker.thy ===== *)
theory T2z_Worker
  imports Prelude
begin

text \<open>
  The client of the prover, \<open>src/src/lib/zcash/t2z.ts\<close>: one worker at a time, calls numbered and waiting in a
  map, answers matched by number, everything waiting rejected when a worker errors or exits. The module's
  variables are a record. Around it runs the step relation of the workers themselves: a worker answers jobs it was
  handed, may throw, and after a throw its exit is reported as a second event. Workers are numbered in the order
  they are started.
\<close>

section \<open>The client\<close>

datatype call_outcome = Resolved string | Rejected string

record worker_message =
  wm_id :: "nat option"
  wm_ok :: bool
  wm_error :: "string option"
  wm_body :: string

text \<open>\<open>tw_posted\<close> and \<open>tw_settled\<close> record the messages sent and the promises settled, newest last.\<close>

record t2z_client =
  tw_worker :: "nat option"
  tw_started :: nat
  tw_seq :: nat
  tw_pending :: "nat list"
  tw_posted :: "(nat \<times> nat \<times> string) list"
  tw_settled :: "(nat \<times> call_outcome) list"

definition no_client :: t2z_client where
  "no_client = \<lparr>tw_worker = None, tw_started = 0, tw_seq = 0, tw_pending = [], tw_posted = [], tw_settled = []\<rparr>"

definition get_worker :: "t2z_client \<Rightarrow> nat \<times> t2z_client" where
  "get_worker s =
     (case tw_worker s of
        Some w \<Rightarrow> (w, s)
      | None \<Rightarrow> let w = Suc (tw_started s) in (w, s\<lparr>tw_worker := Some w, tw_started := w\<rparr>))"

definition t2z_call :: "string \<Rightarrow> t2z_client \<Rightarrow> nat \<times> t2z_client" where
  "t2z_call job s =
     (let (w, s1) = get_worker s; i = Suc (tw_seq s1)
      in (i, s1\<lparr>tw_seq := i, tw_pending := tw_pending s1 @ [i], tw_posted := tw_posted s1 @ [(w, i, job)]\<rparr>))"

definition on_message :: "worker_message \<Rightarrow> t2z_client \<Rightarrow> t2z_client" where
  "on_message m s =
     (case wm_id m of
        None \<Rightarrow> s
      | Some i \<Rightarrow>
          if i \<notin> set (tw_pending s) then s
          else s\<lparr>tw_pending := removeAll i (tw_pending s),
                 tw_settled := tw_settled s @ [(i, if wm_ok m then Resolved (wm_body m)
                    else Rejected (nullish (wm_error m) ''t2z worker error''))]\<rparr>)"

definition on_fail :: "string \<Rightarrow> t2z_client \<Rightarrow> t2z_client" where
  "on_fail e s =
     s\<lparr>tw_settled := tw_settled s @ map (\<lambda>i. (i, Rejected e)) (tw_pending s), tw_pending := [], tw_worker := None\<rparr>"

section \<open>The workers\<close>

record t2z_world =
  tz_client :: t2z_client
  tz_alive :: "nat set"
  tz_dying :: "nat set"

definition t2z_init :: t2z_world where
  "t2z_init = \<lparr>tz_client = no_client, tz_alive = {}, tz_dying = {}\<rparr>"

inductive t2z_step :: "t2z_world \<Rightarrow> t2z_world \<Rightarrow> bool" where
  called: "t2z_call job (tz_client s) = (i, c) \<Longrightarrow>
    t2z_step s (s\<lparr>tz_client := c, tz_alive := tz_alive s \<union> {tw_started (tz_client s)<..tw_started c}\<rparr>)"
| answered: "w \<in> tz_alive s \<Longrightarrow> (\<forall>i. wm_id m = Some i \<longrightarrow> (\<exists>job. (w, i, job) \<in> set (tw_posted (tz_client s)))) \<Longrightarrow>
    t2z_step s (s\<lparr>tz_client := on_message m (tz_client s)\<rparr>)"
| threw: "w \<in> tz_alive s \<Longrightarrow>
    t2z_step s (s\<lparr>tz_client := on_fail e (tz_client s), tz_alive := tz_alive s - {w}, tz_dying := tz_dying s \<union> {w}\<rparr>)"
| exited: "w \<in> tz_alive s \<or> w \<in> tz_dying s \<Longrightarrow>
    t2z_step s (s\<lparr>tz_client := on_fail ''t2z worker exited'' (tz_client s), tz_alive := tz_alive s - {w},
      tz_dying := tz_dying s - {w}\<rparr>)"

definition t2z_reachable :: "t2z_world \<Rightarrow> bool" where
  "t2z_reachable s \<longleftrightarrow> t2z_step\<^sup>*\<^sup>* t2z_init s"

section \<open>Facts\<close>

text \<open>
  Every call is waiting or settled, never both and never twice; what waits was handed to the worker in use,
  which lives.
\<close>

definition client_ok :: "t2z_world \<Rightarrow> bool" where
  "client_ok s \<longleftrightarrow> (case tz_client s of c \<Rightarrow>
     distinct (tw_pending c @ map fst (tw_settled c))
     \<and> set (tw_pending c) \<union> set (map fst (tw_settled c)) = {1..tw_seq c}
     \<and> (\<forall>w. tw_worker c = Some w \<longrightarrow> w \<in> tz_alive s)
     \<and> (\<forall>w\<in>tz_alive s \<union> tz_dying s. w \<le> tw_started c)
     \<and> (\<forall>i\<in>set (tw_pending c). \<exists>w job. tw_worker c = Some w \<and> (w, i, job) \<in> set (tw_posted c)))"

lemma on_fail_fields [simp]:
  "tw_pending (on_fail e c) = []" "tw_worker (on_fail e c) = None" "tw_seq (on_fail e c) = tw_seq c"
  "tw_started (on_fail e c) = tw_started c" "map fst (tw_settled (on_fail e c)) = map fst (tw_settled c) @ tw_pending c"
  by (simp_all add: on_fail_def comp_def)

lemma on_message_cases:
  obtains "on_message m c = c"
  | i o' where "wm_id m = Some i" "i \<in> set (tw_pending c)"
      "on_message m c = c\<lparr>tw_pending := removeAll i (tw_pending c), tw_settled := tw_settled c @ [(i, o')]\<rparr>"
      "wm_ok m \<Longrightarrow> o' = Resolved (wm_body m)"
proof (cases "\<exists>i. wm_id m = Some i \<and> i \<in> set (tw_pending c)")
  case True
  then obtain i where "wm_id m = Some i" "i \<in> set (tw_pending c)" by blast
  then show ?thesis
    by (intro that(2) [of i "if wm_ok m then Resolved (wm_body m) else Rejected (nullish (wm_error m) ''t2z worker error'')"])
      (simp_all add: on_message_def)
next
  case False
  then show ?thesis by (intro that(1)) (auto simp: on_message_def split: option.split)
qed

lemma client_ok_call:
  assumes "client_ok s" and "t2z_call job (tz_client s) = (i, c)"
  shows "client_ok (s\<lparr>tz_client := c, tz_alive := tz_alive s \<union> {tw_started (tz_client s)<..tw_started c}\<rparr>)"
proof -
  let ?c = "tz_client s"
  have ok: "distinct (tw_pending ?c @ map fst (tw_settled ?c))" "\<And>w. w \<in> tz_alive s \<union> tz_dying s \<Longrightarrow> w \<le> tw_started ?c"
      "\<And>w. tw_worker ?c = Some w \<Longrightarrow> w \<in> tz_alive s"
      "\<And>i. i \<in> set (tw_pending ?c) \<Longrightarrow> \<exists>w job. tw_worker ?c = Some w \<and> (w, i, job) \<in> set (tw_posted ?c)"
    and all: "set (tw_pending ?c) \<union> set (map fst (tw_settled ?c)) = {1..tw_seq ?c}"
    using assms(1) unfolding client_ok_def by blast+
  have old: "Suc (tw_seq ?c) \<notin> set (tw_pending ?c) \<union> set (map fst (tw_settled ?c))" unfolding all by simp
  have more: "{1..Suc (tw_seq ?c)} = insert (Suc (tw_seq ?c)) (set (tw_pending ?c) \<union> set (map fst (tw_settled ?c)))"
    unfolding all by auto
  show ?thesis
  proof (cases "tw_worker ?c")
    case None
    then have "tw_pending ?c = []" using ok(4) by (cases "tw_pending ?c") auto
    moreover have "w \<le> Suc (tw_started ?c)" if "w \<in> tz_alive s \<union> tz_dying s" for w using ok(2) [OF that] by simp
    ultimately show ?thesis
      using None assms(2) ok(1) old more unfolding client_ok_def
      by (auto simp: t2z_call_def get_worker_def Let_def simp del: set_map)
  next
    case (Some w)
    then show ?thesis
      using assms(2) ok old more unfolding client_ok_def
      by (fastforce simp: t2z_call_def get_worker_def Let_def simp del: set_map)
  qed
qed

lemma client_ok_message:
  assumes "client_ok s"
  shows "client_ok (s\<lparr>tz_client := on_message m (tz_client s)\<rparr>)"
proof (cases rule: on_message_cases [of m "tz_client s"])
  case 1
  then show ?thesis using assms by simp
next
  case (2 i o')
  then show ?thesis using assms by (auto simp: client_ok_def distinct_removeAll)
qed

lemma client_ok_fail:
  assumes "client_ok s" and "A \<subseteq> tz_alive s" and "D \<subseteq> tz_alive s \<union> tz_dying s"
  shows "client_ok (s\<lparr>tz_client := on_fail e (tz_client s), tz_alive := A, tz_dying := D\<rparr>)"
  using assms by (auto simp: client_ok_def)

lemma t2z_reachable_ok: "t2z_reachable s \<Longrightarrow> client_ok s"
  unfolding t2z_reachable_def
proof (induction rule: rtranclp_induct)
  case base
  then show ?case by (simp add: client_ok_def t2z_init_def no_client_def)
next
  case (step s s')
  from step(2) step.IH show ?case
    by cases (auto intro: client_ok_call client_ok_message client_ok_fail)
qed

text \<open>Only an answer resolves a call; every other event rejects.\<close>

lemma call_settles_nothing: "t2z_call job c = (i, c') \<Longrightarrow> tw_settled c' = tw_settled c"
  by (auto simp: t2z_call_def get_worker_def Let_def split: option.splits)

lemma fail_resolves_nothing:
  "(i, Resolved x) \<in> set (tw_settled (on_fail e c)) \<longleftrightarrow> (i, Resolved x) \<in> set (tw_settled c)"
  by (auto simp: on_fail_def)

lemma message_resolves:
  assumes "(i, Resolved x) \<in> set (tw_settled (on_message m c))" and "(i, Resolved x) \<notin> set (tw_settled c)"
  shows "wm_id m = Some i \<and> i \<in> set (tw_pending c) \<and> wm_ok m \<and> wm_body m = x"
  using assms by (auto simp: on_message_def split: option.splits if_splits)

lemma resolved_by_answer:
  assumes "t2z_step s s'" and "(i, Resolved x) \<in> set (tw_settled (tz_client s'))"
    and "(i, Resolved x) \<notin> set (tw_settled (tz_client s))"
  shows "i \<in> set (tw_pending (tz_client s)) \<and> (\<exists>m w job. tz_client s' = on_message m (tz_client s)
    \<and> wm_id m = Some i \<and> wm_ok m \<and> wm_body m = x \<and> w \<in> tz_alive s \<and> (w, i, job) \<in> set (tw_posted (tz_client s)))"
  using assms(1)
proof cases
  case (called job j c)
  then show ?thesis using assms(2,3) call_settles_nothing [OF called(2)] by simp
next
  case (answered w m)
  with message_resolves [of i x m "tz_client s"] assms(2,3) show ?thesis by auto
qed (use assms(2,3) in \<open>simp_all add: fail_resolves_nothing\<close>)

text \<open>
  C28: No prover call waits for ever on a dead worker, and none is settled twice. In every reachable
  state each call made is either waiting or settled once; whatever waits was handed to the worker in use,
  which is alive; a good answer that carries the number of a waiting call resolves that call with its body and
  settles no other; and the next step resolves a call only by such an answer, given by a living worker that
  was handed the call. (A call may be rejected without an answer: the error or exit of any worker rejects
  whatever waits.)
\<close>

theorem waiting_calls_have_a_live_worker:
  assumes "t2z_reachable s"
  shows "distinct (tw_pending (tz_client s) @ map fst (tw_settled (tz_client s)))
    \<and> set (tw_pending (tz_client s)) \<union> set (map fst (tw_settled (tz_client s))) = {1..tw_seq (tz_client s)}
    \<and> (\<forall>i\<in>set (tw_pending (tz_client s)). \<exists>w job. tw_worker (tz_client s) = Some w \<and> w \<in> tz_alive s
          \<and> (w, i, job) \<in> set (tw_posted (tz_client s)))
    \<and> (\<forall>m i. wm_id m = Some i \<longrightarrow> i \<in> set (tw_pending (tz_client s)) \<longrightarrow> wm_ok m \<longrightarrow>
          tw_settled (on_message m (tz_client s)) = tw_settled (tz_client s) @ [(i, Resolved (wm_body m))]
          \<and> set (tw_pending (on_message m (tz_client s))) = set (tw_pending (tz_client s)) - {i})
    \<and> (\<forall>s' i x. t2z_step s s' \<longrightarrow> (i, Resolved x) \<in> set (tw_settled (tz_client s')) - set (tw_settled (tz_client s)) \<longrightarrow>
          i \<in> set (tw_pending (tz_client s)) \<and> (\<exists>m w job. tz_client s' = on_message m (tz_client s)
          \<and> wm_id m = Some i \<and> wm_ok m \<and> wm_body m = x \<and> w \<in> tz_alive s \<and> (w, i, job) \<in> set (tw_posted (tz_client s))))"
proof -
  note ok = t2z_reachable_ok [OF assms, unfolded client_ok_def]
  have "\<exists>w job. tw_worker (tz_client s) = Some w \<and> w \<in> tz_alive s \<and> (w, i, job) \<in> set (tw_posted (tz_client s))"
    if "i \<in> set (tw_pending (tz_client s))" for i using ok that by blast
  moreover have "tw_settled (on_message m (tz_client s)) = tw_settled (tz_client s) @ [(i, Resolved (wm_body m))]
      \<and> set (tw_pending (on_message m (tz_client s))) = set (tw_pending (tz_client s)) - {i}"
    if "wm_id m = Some i" "i \<in> set (tw_pending (tz_client s))" "wm_ok m" for m i
    using that by (auto simp: on_message_def)
  moreover have "i \<in> set (tw_pending (tz_client s)) \<and> (\<exists>m w job. tz_client s' = on_message m (tz_client s)
      \<and> wm_id m = Some i \<and> wm_ok m \<and> wm_body m = x \<and> w \<in> tz_alive s \<and> (w, i, job) \<in> set (tw_posted (tz_client s)))"
    if "t2z_step s s'" "(i, Resolved x) \<in> set (tw_settled (tz_client s')) - set (tw_settled (tz_client s))" for s' i x
    using resolved_by_answer [OF that(1), of i x] that(2) by blast
  ultimately show ?thesis using ok by (intro conjI) blast+
qed

text \<open>
  The late exit of a worker that threw takes its successor down. Each worker's exit handler rejects
  whatever waits, also what a newer worker is working on: below, the first worker throws, the next call starts
  a second one, and the exit of the first then rejects that call and forgets the second worker, which
  lives on; a third call starts a third.
\<close>

theorem late_exit_fails_a_live_call:
  "\<exists>s. t2z_reachable s \<and> tw_settled (tz_client s) = [(1, Rejected ''e''), (2, Rejected ''t2z worker exited'')]
    \<and> 2 \<in> tz_alive s \<and> (2, 2, ''b'') \<in> set (tw_posted (tz_client s)) \<and> tw_worker (tz_client s) = None"
proof -
  define s1 where "s1 = \<lparr>tz_client = snd (t2z_call ''a'' no_client), tz_alive = {1}, tz_dying = {}\<rparr>"
  define s2 where "s2 = \<lparr>tz_client = on_fail ''e'' (tz_client s1), tz_alive = {}, tz_dying = {1}\<rparr>"
  define s3 where "s3 = \<lparr>tz_client = snd (t2z_call ''b'' (tz_client s2)), tz_alive = {2}, tz_dying = {1}\<rparr>"
  define s4 where "s4 = \<lparr>tz_client = on_fail ''t2z worker exited'' (tz_client s3), tz_alive = {2}, tz_dying = {}\<rparr>"
  note defs = s1_def s2_def s3_def s4_def t2z_call_def get_worker_def no_client_def on_fail_def Let_def
  have "{0<..Suc 0} = {Suc 0}" "{Suc 0<..Suc (Suc 0)} = {2}" by auto
  then have 1: "t2z_step t2z_init s1" and 3: "t2z_step s2 s3"
    using t2z_step.called [of "''a''" t2z_init "fst (t2z_call ''a'' no_client)" "snd (t2z_call ''a'' no_client)"]
      t2z_step.called [of "''b''" s2 "fst (t2z_call ''b'' (tz_client s2))" "snd (t2z_call ''b'' (tz_client s2))"]
    by (simp_all add: t2z_init_def defs)
  have 2: "t2z_step s1 s2" using t2z_step.threw [of 1 s1 "''e''"] by (simp add: defs)
  have 4: "t2z_step s3 s4" using t2z_step.exited [of 1 s3] by (simp add: defs)
  have "t2z_reachable s4" unfolding t2z_reachable_def
    using 1 2 3 4 by (meson converse_rtranclp_into_rtranclp rtranclp.rtrancl_refl)
  then show ?thesis by (intro exI [of _ s4]) (simp add: defs)
qed

theorem waiting_calls_have_a_live_worker_witness:
  "\<exists>s :: t2z_world. tw_pending (tz_client s) = [1] \<and> (\<exists>w job. tw_worker (tz_client s) = Some w \<and> w \<in> tz_alive s
     \<and> (w, 1, job) \<in> set (tw_posted (tz_client s)))"
proof -
  define s1 where "s1 = \<lparr>tz_client = snd (t2z_call ''a'' no_client), tz_alive = {1}, tz_dying = {}\<rparr>"
  have "{0<..Suc 0} = {Suc 0}" by auto
  then have "t2z_step t2z_init s1"
    using t2z_step.called [of "''a''" t2z_init "fst (t2z_call ''a'' no_client)" "snd (t2z_call ''a'' no_client)"]
    by (simp add: t2z_init_def s1_def t2z_call_def get_worker_def no_client_def Let_def)
  then have r: "t2z_reachable s1" by (simp add: t2z_reachable_def)
  have p: "tw_pending (tz_client s1) = [1]" by (simp add: s1_def t2z_call_def get_worker_def no_client_def Let_def)
  show ?thesis using waiting_calls_have_a_live_worker [OF r] p by (intro exI [of _ s1]) simp
qed

end
