(* ===== verification/Crosslink_Transport.thy ===== *)
theory Crosslink_Transport
  imports Sender Json_Value "HOL-Library.Word"
begin

text \<open>
  How the faucet reaches the feature net's node: \<open>src/src/lib/crosslink/transport.ts\<close> (one request and one reply
  over a unix socket, or over HTTP in development), and what \<open>crosslinksend.ts\<close> makes of the reply to a donation.
  The peer is a list of socket events with their times; the parser of JSON is a parameter, \<open>None\<close> its
  throw. A socket's timeout is the one of Node: it fires after that long without activity.
\<close>

section \<open>One call over the socket\<close>

datatype rpc_via = Via_Socket | Via_Http

record rpc_result =
  rr_reply :: "jval option"
  rr_via :: "rpc_via option"
  rr_failure :: "string option"

definition no_reply :: "string \<Rightarrow> rpc_result" where
  "no_reply why = \<lparr>rr_reply = None, rr_via = None, rr_failure = Some why\<rparr>"

text \<open>\<open>reply: JSON.parse(raw)\<close>, which may be \<open>null\<close>.\<close>

definition parsed_reply :: "rpc_via \<Rightarrow> jval \<Rightarrow> rpc_result" where
  "parsed_reply via v = \<lparr>rr_reply = (if v = Jv_Null then None else Some v), rr_via = Some via, rr_failure = None\<rparr>"

datatype sock_event = Sock_Connect | Sock_Data "8 word list" | Sock_End | Sock_Error string

definition rpc_request :: "string \<Rightarrow> string \<Rightarrow> string" where
  "rpc_request method' params =
     ''{\"jsonrpc\":\"2.0\",\"id\":1,\"method\":\"'' @ method' @ ''\",\"params\":'' @ params @ ''}''"

definition timed_out :: "int \<Rightarrow> rpc_result" where
  "timed_out timeoutMs = no_reply (''no reply within '' @ show_int timeoutMs @ ''ms'')"

definition on_end :: "(8 word list \<Rightarrow> jval option) \<Rightarrow> 8 word list \<Rightarrow> rpc_result" where
  "on_end parse raw =
     (if raw = [] then no_reply ''the broker closed without answering''
      else case parse raw of
        None \<Rightarrow> no_reply (''the broker'' @ [CHR 0x27] @ ''s answer was not JSON'')
      | Some v \<Rightarrow> parsed_reply Via_Socket v)"

text \<open>
  The run from the last activity on: the time of the answer, the answer, and whether the request was written
  and the writing side closed. The first decisive event settles the promise; \<open>done\<close> ignores the rest.
\<close>

fun socket_run ::
  "(8 word list \<Rightarrow> jval option) \<Rightarrow> int \<Rightarrow> int \<Rightarrow> 8 word list list \<Rightarrow> bool \<Rightarrow> (int \<times> sock_event) list \<Rightarrow> (int \<times> rpc_result) \<times> bool" where
  "socket_run parse timeoutMs lastAt chunks sent [] = ((lastAt + timeoutMs, timed_out timeoutMs), sent)"
| "socket_run parse timeoutMs lastAt chunks sent ((t, e) # events) =
     (if t \<ge> lastAt + timeoutMs then ((lastAt + timeoutMs, timed_out timeoutMs), sent)
      else case e of
        Sock_Connect \<Rightarrow> socket_run parse timeoutMs t chunks True events
      | Sock_Data d \<Rightarrow> socket_run parse timeoutMs t (chunks @ [d]) sent events
      | Sock_End \<Rightarrow> ((t, on_end parse (concat chunks)), sent)
      | Sock_Error m \<Rightarrow> ((t, no_reply m), sent))"

definition rpc_over_socket :: "(8 word list \<Rightarrow> jval option) \<Rightarrow> int \<Rightarrow> int \<Rightarrow> (int \<times> sock_event) list \<Rightarrow> int \<times> rpc_result" where
  "rpc_over_socket parse timeoutMs now events = fst (socket_run parse timeoutMs now [] False events)"

section \<open>Over HTTP, and the choice\<close>

datatype http_answer = Http_Throws string | Http_Not_Ok int | Http_Body jval

definition rpc_over_http :: "int \<times> http_answer \<Rightarrow> int \<times> rpc_result" where
  "rpc_over_http r =
     (case r of (t, a) \<Rightarrow> (t, case a of
        Http_Throws m \<Rightarrow> no_reply m
      | Http_Not_Ok st \<Rightarrow> no_reply (''HTTP '' @ show_int st)
      | Http_Body v \<Rightarrow> parsed_reply Via_Http v))"

record ctaz_transport =
  ct_socketPath :: string
  ct_rpcUrl :: string
  ct_timeoutMs :: int

definition ctaz_rpc ::
  "(8 word list \<Rightarrow> jval option) \<Rightarrow> ctaz_transport \<Rightarrow> (int \<times> sock_event) list \<Rightarrow> (int \<Rightarrow> int \<times> http_answer) \<Rightarrow> int \<Rightarrow> int \<times> rpc_result" where
  "ctaz_rpc parse cfg events http now =
     (if ct_socketPath cfg \<noteq> [] then rpc_over_socket parse (ct_timeoutMs cfg) now events
      else if ct_rpcUrl cfg \<noteq> [] then rpc_over_http (http (ct_timeoutMs cfg))
      else (now, no_reply ''no crosslink transport configured''))"

section \<open>The reply to a donation\<close>

fun value_truthy :: "jval \<Rightarrow> bool" where
  "value_truthy Jv_Null = False"
| "value_truthy (Jv_Bool b) = b"
| "value_truthy (Jv_Num n) = (n \<noteq> Fin 0)"
| "value_truthy (Jv_Text s) = (s \<noteq> [])"
| "value_truthy _ = True"

text \<open>A message is taken to be a text, as the interface of the reply declares it.\<close>

definition donation_reply :: "rpc_result \<Rightarrow> crosslink_reply" where
  "donation_reply r =
     (case rr_reply r of
        None \<Rightarrow> Cl_No_Reply (nullish (rr_failure r) ''no reply'')
      | Some v \<Rightarrow>
          if \<not> value_truthy v then Cl_No_Reply (nullish (rr_failure r) ''no reply'')
          else case field v ''error'' of
            Some e \<Rightarrow>
              if value_truthy e then Cl_Error (nullish (a_text (field e ''message'')) ''unknown error'')
              else (case Option.bind (field v ''result'') (\<lambda>x. finite_number (field x ''amount'')) of
                  None \<Rightarrow> Cl_Unusable_Amount | Some a \<Rightarrow> Cl_Amount a)
          | None \<Rightarrow>
              (case Option.bind (field v ''result'') (\<lambda>x. finite_number (field x ''amount'')) of
                  None \<Rightarrow> Cl_Unusable_Amount | Some a \<Rightarrow> Cl_Amount a))"

definition crosslink_pay ::
  "(8 word list \<Rightarrow> jval option) \<Rightarrow> ctaz_transport \<Rightarrow> int \<Rightarrow> (int \<times> sock_event) list \<Rightarrow> (int \<Rightarrow> int \<times> http_answer) \<Rightarrow> int
     \<Rightarrow> int \<times> (send_error + send_result)" where
  "crosslink_pay parse cfg expectedZat events http now =
     (case ctaz_rpc parse cfg events http now of (t, r) \<Rightarrow> (t - now, crosslink_send expectedZat (donation_reply r)))"

section \<open>What a reply proves\<close>

text \<open>The bytes of the data events.\<close>

definition received :: "(int \<times> sock_event) list \<Rightarrow> 8 word list" where
  "received events = concat (map (\<lambda>(t, e). case e of Sock_Data d \<Rightarrow> d | _ \<Rightarrow> []) events)"

lemma socket_run_reply:
  assumes "rr_reply (snd (fst (socket_run parse timeoutMs lastAt chunks sent events))) = Some v"
  shows "\<exists>pre t post. events = pre @ (t, Sock_End) # post \<and> parse (concat chunks @ received pre) = Some v \<and> v \<noteq> Jv_Null
    \<and> (\<forall>(u, e)\<in>set pre. e = Sock_Connect \<or> (\<exists>d. e = Sock_Data d))
    \<and> fst (fst (socket_run parse timeoutMs lastAt chunks sent events)) = t"
  using assms
proof (induction events arbitrary: lastAt chunks sent)
  case (Cons ev events)
  obtain t e where ev: "ev = (t, e)" by (cases ev)
  have early: "t < lastAt + timeoutMs" using Cons.prems by (auto simp: ev timed_out_def no_reply_def split: if_splits)
  show ?case
  proof (cases e)
    case Sock_Connect
    then obtain pre u post where "events = pre @ (u, Sock_End) # post" "parse (concat chunks @ received pre) = Some v" "v \<noteq> Jv_Null"
        "\<forall>(u, e)\<in>set pre. e = Sock_Connect \<or> (\<exists>d. e = Sock_Data d)" "fst (fst (socket_run parse timeoutMs t chunks True events)) = u"
      using Cons.IH [of t chunks True] Cons.prems early ev by auto
    then show ?thesis using Sock_Connect early ev
      by (intro exI [of _ "ev # pre"] exI [of _ u] exI [of _ post]) (auto simp: received_def)
  next
    case (Sock_Data d)
    then obtain pre u post where "events = pre @ (u, Sock_End) # post" "parse (concat (chunks @ [d]) @ received pre) = Some v" "v \<noteq> Jv_Null"
        "\<forall>(u, e)\<in>set pre. e = Sock_Connect \<or> (\<exists>d. e = Sock_Data d)" "fst (fst (socket_run parse timeoutMs t (chunks @ [d]) sent events)) = u"
      using Cons.IH [of t "chunks @ [d]" sent] Cons.prems early ev by auto
    then show ?thesis using Sock_Data early ev
      by (intro exI [of _ "ev # pre"] exI [of _ u] exI [of _ post]) (auto simp: received_def)
  next
    case Sock_End
    then show ?thesis using Cons.prems early ev
      by (intro exI [of _ "[]"] exI [of _ t] exI [of _ events])
        (auto simp: on_end_def no_reply_def parsed_reply_def received_def split: if_splits option.splits)
  next
    case (Sock_Error m)
    then show ?thesis using Cons.prems early ev by (simp add: no_reply_def)
  qed
qed (simp add: timed_out_def no_reply_def)

lemma donation_amount:
  assumes "donation_reply r = Cl_Amount a"
  shows "\<exists>v x. rr_reply r = Some v \<and> field v ''result'' = Some x \<and> field x ''amount'' = Some (Jv_Num (Fin a))
    \<and> (\<forall>e. field v ''error'' = Some e \<longrightarrow> \<not> value_truthy e)"
  using assms
  by (auto simp: donation_reply_def finite_number_Some split: option.splits if_splits bind_splits)

lemma crosslink_send_Inr:
  "crosslink_send expectedZat reply' = Inr res \<Longrightarrow> reply' = Cl_Amount (of_int expectedZat)"
  by (auto simp: crosslink_send_def split: crosslink_reply.splits if_splits)

text \<open>
  A receipt for a donation rests on a whole answer of the node. Over the socket the request was followed by
  nothing but the connection and data until the peer closed; the bytes received until then, however they were cut
  into chunks, parse as a reply that carries no error and names exactly the expected amount, and the clock of
  the answer is the one of the close. A timeout, an error of the socket, an empty or a broken answer never pays.
\<close>

theorem receipt_needs_a_whole_answer:
  assumes "crosslink_pay parse cfg expectedZat events http now = (took, Inr res)" and "ct_socketPath cfg \<noteq> []"
  shows "\<exists>pre post v x. events = pre @ (now + took, Sock_End) # post \<and> parse (received pre) = Some v
    \<and> (\<forall>(u, e)\<in>set pre. e = Sock_Connect \<or> (\<exists>d. e = Sock_Data d))
    \<and> field v ''result'' = Some x \<and> field x ''amount'' = Some (Jv_Num (Fin (of_int expectedZat)))
    \<and> (\<forall>e. field v ''error'' = Some e \<longrightarrow> \<not> value_truthy e)"
proof -
  obtain t r where r: "rpc_over_socket parse (ct_timeoutMs cfg) now events = (t, r)"
    by (cases "rpc_over_socket parse (ct_timeoutMs cfg) now events")
  have t: "t = now + took" and s: "crosslink_send expectedZat (donation_reply r) = Inr res"
    using assms r by (auto simp: crosslink_pay_def ctaz_rpc_def)
  from donation_amount [OF crosslink_send_Inr [OF s]] obtain v x where
    v: "rr_reply r = Some v" "field v ''result'' = Some x" "field x ''amount'' = Some (Jv_Num (Fin (of_int expectedZat)))"
      "\<forall>e. field v ''error'' = Some e \<longrightarrow> \<not> value_truthy e" by blast
  have "rr_reply (snd (fst (socket_run parse (ct_timeoutMs cfg) now [] False events))) = Some v"
    using r v(1) by (simp add: rpc_over_socket_def)
  from socket_run_reply [OF this] v(2-) r t show ?thesis by (force simp: rpc_over_socket_def)
qed

text \<open>How a peer cuts its answer does not matter, as long as it is never silent for the whole timeout.\<close>

lemma chunking_does_not_matter:
  assumes "sorted_wrt (\<le>) (map fst ds)" and "\<forall>(t, e)\<in>set ds. \<exists>d. e = Sock_Data d"
    and "successively (\<lambda>a b. b < a + timeoutMs) (lastAt # map fst ds @ [t])"
  shows "socket_run parse timeoutMs lastAt chunks sent (ds @ [(t, Sock_End)])
    = ((t, on_end parse (concat chunks @ received ds)), sent)"
  using assms
proof (induction ds arbitrary: lastAt chunks)
  case (Cons e ds)
  then obtain u d where "e = (u, Sock_Data d)" by (cases e) auto
  with Cons show ?case by (auto simp: received_def)
qed (simp add: received_def)

text \<open>
  The socket's timeout bounds silence, not the call. Whatever the configured timeout, a peer that sends
  one byte in good time again and again keeps the call waiting past any given moment; what bounds a donation then
  is the deadline of the queue alone.
\<close>

lemma dribble_run:
  assumes "1 < timeoutMs"
  shows "fst (fst (socket_run parse timeoutMs lastAt chunks sent (map (\<lambda>k. (lastAt + 1 + int k, Sock_Data [32])) [0..<n])))
    = lastAt + int n + timeoutMs"
proof (induction n arbitrary: lastAt chunks)
  case (Suc n)
  have "map (\<lambda>k. (lastAt + 1 + int k, Sock_Data [32])) [0..<Suc n]
      = (lastAt + 1, Sock_Data [32]) # map (\<lambda>k. ((lastAt + 1) + 1 + int k, Sock_Data [32])) [0..<n]"
    by (simp add: upt_rec [of 0 "Suc n"] map_Suc_upt [symmetric] comp_def del: upt_Suc)
  then show ?case using assms Suc.IH [of "lastAt + 1" "chunks @ [[32]]"] by simp
qed simp

theorem socket_timeout_bounds_silence_only:
  assumes "1 < ct_timeoutMs cfg" and "ct_socketPath cfg \<noteq> []"
  shows "\<exists>events. moment < now + fst (crosslink_pay parse cfg expectedZat events http now)"
proof -
  let ?n = "nat (moment - now)"
  let ?events = "map (\<lambda>k. (now + 1 + int k, Sock_Data [32])) [0..<?n]"
  have "fst (fst (socket_run parse (ct_timeoutMs cfg) now [] False ?events)) = now + int ?n + ct_timeoutMs cfg"
    by (rule dribble_run [OF assms(1)])
  then have "now + fst (crosslink_pay parse cfg expectedZat ?events http now) = now + int ?n + ct_timeoutMs cfg"
    using assms(2) by (simp add: crosslink_pay_def ctaz_rpc_def rpc_over_socket_def case_prod_beta)
  then show ?thesis using assms(1) by (intro exI [of _ ?events]) linarith
qed

definition ex_reply :: jval where
  "ex_reply = Jv_Object [(''result'', Jv_Object [(''amount'', Jv_Num (Fin 50))])]"

definition ex_transport :: ctaz_transport where
  "ex_transport = \<lparr>ct_socketPath = ''/s'', ct_rpcUrl = '''', ct_timeoutMs = 1000\<rparr>"

theorem receipt_needs_a_whole_answer_witness:
  "fst (crosslink_pay (\<lambda>b. if b = [1, 2] then Some ex_reply else None) ex_transport 50
       [(3, Sock_Connect), (700, Sock_Data [1]), (1600, Sock_Data [2]), (1700, Sock_End)] (\<lambda>ms. (0, Http_Throws '''')) 0) = 1700
   \<and> (\<exists>pre. received pre = [1, 2])"
proof -
  let ?parse = "\<lambda>b :: 8 word list. if b = [1, 2] then Some ex_reply else None"
  have r: "crosslink_pay ?parse ex_transport 50
       [(3, Sock_Connect), (700, Sock_Data [1]), (1600, Sock_Data [2]), (1700, Sock_End)] (\<lambda>ms. (0, Http_Throws '''')) 0
     = (1700, Inr \<lparr>res_txid = None, res_explorerUrl = None, res_amountZat = Some 50\<rparr>)"
    by (simp add: crosslink_pay_def ctaz_rpc_def ex_transport_def rpc_over_socket_def on_end_def parsed_reply_def ex_reply_def
        donation_reply_def crosslink_send_def)
  obtain pre v where "?parse (received pre) = Some v"
    using receipt_needs_a_whole_answer [OF r] by (auto simp: ex_transport_def)
  then show ?thesis using r by (auto split: if_splits)
qed

theorem socket_timeout_bounds_silence_only_witness:
  "\<exists>events. 1000000 < fst (crosslink_pay (\<lambda>b. None) ex_transport 50 events (\<lambda>ms. (0, Http_Throws '''')) 0)"
  using socket_timeout_bounds_silence_only [of ex_transport 1000000 0 "\<lambda>b. None" 50 "\<lambda>ms. (0, Http_Throws '''')"]
  by (simp add: ex_transport_def)

end
