(* ===== verification/Charts.thy ===== *)
theory Charts
  imports Complex_Main Js_String Ledger_Stats
begin

text \<open>
  The analytics charts, \<open>src/src/lib/charts.ts\<close>: the geometry of the bars, the logarithmic reserve bar and the
  stacked bars, the hit test of the tooltip, and the three drawing functions as the list of marks they leave on
  the canvas. Pixels are exact reals in place of binary floating point. A day is its number since 1970, as in
  \<open>Ledger_Stats\<close>: the texts \<open>YYYY-MM-DD\<close> sort as the numbers do.
\<close>

section \<open>The daily bars\<close>

type_synonym drip_day = "utc_day \<times> int"

record bar_rect =
  br_x :: real
  br_y :: real
  br_w :: real
  br_h :: real
  br_today :: bool
  br_uncounted :: bool

definition bar_metrics :: "nat \<Rightarrow> real \<Rightarrow> real \<times> real" where
  "bar_metrics count innerWidth =
     (if count = 0 then (0, 0)
      else let gap = max 1 (innerWidth / real count * (3/10))
           in ((innerWidth - gap * real (count - 1)) / real count, gap))"

definition is_uncounted :: "utc_day \<Rightarrow> utc_day option \<Rightarrow> bool" where
  "is_uncounted day countedFrom = (case countedFrom of None \<Rightarrow> False | Some since \<Rightarrow> day < since)"

definition bar_max :: "drip_day list \<Rightarrow> utc_day option \<Rightarrow> int" where
  "bar_max series countedFrom = foldl max 1 (map snd (filter (\<lambda>(d, n). \<not> is_uncounted d countedFrom) series))"

definition bar_rect_at :: "real \<Rightarrow> real \<Rightarrow> real \<Rightarrow> real \<Rightarrow> utc_day option \<Rightarrow> drip_day list \<Rightarrow> nat \<Rightarrow> bar_rect" where
  "bar_rect_at left topY innerWidth innerHeight countedFrom series i =
     (let n = length series;
          mx = bar_max series countedFrom;
          (barWidth, gap) = bar_metrics n innerWidth;
          (day, sent) = series ! i;
          uncounted = is_uncounted day countedFrom;
          h = (if uncounted then 0 else max barWidth (real_of_int sent / real_of_int mx * innerHeight));
          today = (i = n - 1)
      in \<lparr>br_x = left + real i * (barWidth + gap) - (if today then barWidth * (1/20) else 0),
          br_y = topY + innerHeight - h, br_w = (if today then barWidth * (11/10) else barWidth),
          br_h = h, br_today = today, br_uncounted = uncounted\<rparr>)"

definition bar_rects :: "drip_day list \<Rightarrow> real \<Rightarrow> real \<Rightarrow> real \<Rightarrow> real \<Rightarrow> utc_day option \<Rightarrow> bar_rect list" where
  "bar_rects series left topY innerWidth innerHeight countedFrom =
     map (bar_rect_at left topY innerWidth innerHeight countedFrom series) [0..<length series]"

definition seven_day_mean :: "int option \<Rightarrow> real option" where
  "seven_day_mean last7d = map_option (\<lambda>n. real_of_int n / 7) last7d"

text \<open>\<open>new Date(day + "T00:00:00Z").getUTCDay() === 1\<close>: day 0 was a Thursday.\<close>

definition is_monday :: "utc_day \<Rightarrow> bool" where
  "is_monday day = ((day + 4) mod 7 = 1)"

text \<open>The day of the month as the calendar date of a day number ends with, and the label of a Monday.\<close>

definition day_of_month :: "utc_day \<Rightarrow> int" where
  "day_of_month day =
     (let z = day + 719468; era = z div 146097; doe = z mod 146097;
          yoe = (doe - doe div 1460 + doe div 36524 - doe div 146096) div 365;
          doy = doe - (365 * yoe + yoe div 4 - yoe div 100);
          mp = (5 * doy + 2) div 153
      in doy - (153 * mp + 2) div 5 + 1)"

definition monday_label :: "utc_day \<Rightarrow> string" where
  "monday_label day = ''Mon '' @ show_int (day_of_month day)"

section \<open>The reserve bar and the stacked bars\<close>

definition log_position :: "real \<Rightarrow> real" where
  "log_position v = min 1 (log 10 (max 1 v) / (43/10))"

definition RESERVE_TICKS :: "int list" where "RESERVE_TICKS = [1, 10, 100, 1000, 10000]"

definition tick_label :: "int \<Rightarrow> string" where
  "tick_label v = (if v \<ge> 1000 then show_int (v div 1000) @ ''k'' else show_int v)"

datatype placement = Beside_Mark | Own_Row

definition reserve_target_placement :: "real \<Rightarrow> real \<Rightarrow> real \<Rightarrow> real \<Rightarrow> placement" where
  "reserve_target_placement targetMarkX targetLabelWidth balanceLabelWidth right =
     (let balanceLeft = right - balanceLabelWidth - 8
      in if targetMarkX + 4 + targetLabelWidth > balanceLeft then Own_Row else Beside_Mark)"

record segment_rect =
  sg_x :: real
  sg_w :: real
  sg_token :: string

fun segment_loop :: "real \<Rightarrow> real \<Rightarrow> real \<Rightarrow> (real \<times> string) list \<Rightarrow> segment_rect list" where
  "segment_loop whole width x [] = []"
| "segment_loop whole width x ((value, tok) # rest) =
     (let v = max 0 value in
      if v = 0 then segment_loop whole width x rest
      else let w = v / whole * width
           in \<lparr>sg_x = x, sg_w = max (w - 3/2) 1, sg_token = tok\<rparr> # segment_loop whole width (x + w) rest)"

definition segment_rects :: "(real \<times> string) list \<Rightarrow> real \<Rightarrow> segment_rect list" where
  "segment_rects segments width =
     (let whole = foldl (\<lambda>a (v, t). a + max 0 v) 0 segments
      in if whole \<le> 0 then [] else segment_loop whole width 0 segments)"

section \<open>The hit test\<close>

record drips_layout =
  dl_height :: real
  dl_L :: real
  dl_B :: real
  dl_T :: real
  dl_iw :: real
  dl_ih :: real

definition drips_layout_of :: "real \<Rightarrow> drips_layout" where
  "drips_layout_of width = \<lparr>dl_height = 140, dl_L = 26, dl_B = 22, dl_T = 10, dl_iw = width - 26 - 4, dl_ih = 140 - 10 - 22\<rparr>"

definition bar_centre :: "bar_rect \<Rightarrow> real" where
  "bar_centre r = br_x r + br_w r / 2"

text \<open>The loop over the bars from index \<open>i\<close> on: the nearest centre so far and its distance, \<open>None\<close> for infinity.\<close>

fun nearest_loop :: "real \<Rightarrow> nat \<Rightarrow> nat \<Rightarrow> real option \<Rightarrow> bar_rect list \<Rightarrow> nat" where
  "nearest_loop x i best bestD [] = best"
| "nearest_loop x i best bestD (r # rs) =
     (let d = \<bar>x - bar_centre r\<bar>
      in if (case bestD of None \<Rightarrow> True | Some b \<Rightarrow> d < b) then nearest_loop x (Suc i) i (Some d) rs
         else nearest_loop x (Suc i) best bestD rs)"

text \<open>\<open>boxLeft\<close> and \<open>boxWidth\<close> are the canvas on the page; a width of zero stands for 400.\<close>

definition drip_hit_at_x :: "real \<Rightarrow> real \<Rightarrow> drip_day list \<Rightarrow> real \<Rightarrow> (nat \<times> real \<times> real) option" where
  "drip_hit_at_x boxLeft boxWidth series clientX =
     (let width = (if boxWidth = 0 then 400 else boxWidth);
          l = drips_layout_of width;
          rects = bar_rects series (dl_L l) (dl_T l) (dl_iw l) (dl_ih l) None;
          x = clientX - boxLeft
      in if rects = [] then None
         else if x < dl_L l \<or> x > dl_L l + dl_iw l then None
         else let best = nearest_loop x 0 0 None rects; r = rects ! best
              in Some (best, br_x r + br_w r / 2, br_y r))"

section \<open>Drawing\<close>

datatype text_align = Align_Left | Align_Center | Align_Right
datatype text_baseline = Base_Top | Base_Middle | Base_Bottom

text \<open>A text is given in full or, for the mean, as the number its one decimal is printed from.\<close>

datatype chart_text = Plain string | Mean_Text real

text \<open>
  The marks: a filled rounded rectangle (with its radius, its theme token and whether it glows), a filled
  rectangle, the hatching of the refill within its clip, a dashed line, a text.
\<close>

datatype draw_op =
  Round_Fill real real real real real string bool
| Rect_Fill real real real real string
| Hatch real real real real
| Dashed real real real
| Put_Text chart_text real real text_align text_baseline string

definition round_rect :: "real \<Rightarrow> real \<Rightarrow> real \<Rightarrow> real \<Rightarrow> real \<Rightarrow> string \<Rightarrow> bool \<Rightarrow> draw_op" where
  "round_rect x y w h r tok glow = Round_Fill x y w h (max 0 (min r (min (w / 2) (h / 2)))) tok glow"

text \<open>\<open>prepareCanvas\<close>: the pixels of the backing store for a display's ratio, \<open>None\<close> where it says none.\<close>

definition pixel_ratio :: "real option \<Rightarrow> real" where
  "pixel_ratio device = min 2 (max 1 (if nullish device 0 = 0 then 1 else nullish device 0))"

definition prepare_canvas :: "real option \<Rightarrow> real \<Rightarrow> real \<Rightarrow> int \<times> int" where
  "prepare_canvas device cssWidth cssHeight =
     (max 1 \<lfloor>cssWidth * pixel_ratio device + 1/2\<rfloor>, max 1 \<lfloor>cssHeight * pixel_ratio device + 1/2\<rfloor>)"

definition draw_bar :: "int \<Rightarrow> nat \<times> bar_rect \<Rightarrow> draw_op list" where
  "draw_bar hovered p =
     (case p of (i, r) \<Rightarrow>
        if br_uncounted r then []
        else [round_rect (br_x r) (br_y r) (br_w r) (br_h r) (br_w r)
               (if br_today r then ''--orange'' else if int i = hovered then ''--orange-line'' else ''--bar-soft'') (br_today r)])"

definition draw_tick :: "drips_layout \<Rightarrow> real \<Rightarrow> real \<Rightarrow> nat \<times> drip_day \<Rightarrow> draw_op list" where
  "draw_tick l barWidth gap p =
     (case p of (i, (day, sent)) \<Rightarrow>
        let cx = dl_L l + real i * (barWidth + gap) + barWidth / 2
        in if is_monday day
           then [Rect_Fill (cx - 1/2) (dl_T l + dl_ih l + 3) 1 4 ''--label'',
                 Put_Text (Plain (monday_label day)) cx (dl_T l + dl_ih l + 9) Align_Center Base_Top ''--label'']
           else [Rect_Fill (cx - 1/2) (dl_T l + dl_ih l + 3) 1 2 ''--label''])"

text \<open>\<open>drawDrips\<close>; \<open>hovered\<close> is \<open>-1\<close> for none.\<close>

definition draw_drips :: "real \<Rightarrow> drip_day list \<Rightarrow> int option \<Rightarrow> utc_day option \<Rightarrow> int \<Rightarrow> draw_op list" where
  "draw_drips boxWidth series last7d countedFrom hovered =
     (let width = (if boxWidth = 0 then 400 else boxWidth);
          l = drips_layout_of width;
          rects = bar_rects series (dl_L l) (dl_T l) (dl_iw l) (dl_ih l) countedFrom;
          mx = bar_max series countedFrom;
          (barWidth, gap) = bar_metrics (length series) (dl_iw l)
      in concat (map (draw_bar hovered) (enumerate 0 rects))
       @ map (\<lambda>v. Put_Text (Plain (show_int v)) (dl_L l - 6) (dl_T l + dl_ih l - real_of_int v / real_of_int mx * dl_ih l)
           Align_Right Base_Middle ''--label'') [0, mx]
       @ concat (map (draw_tick l barWidth gap) (enumerate 0 series))
       @ (case seven_day_mean last7d of
            None \<Rightarrow> []
          | Some mean \<Rightarrow>
              let my = dl_T l + dl_ih l - mean / real_of_int mx * dl_ih l
              in [Dashed (dl_L l) (width - 4) (my + 1/2),
                  Put_Text (Mean_Text mean) (width - 6) (my - 2) Align_Right Base_Bottom ''--muted'']))"

record reserve_input =
  ri_spendableTaz :: "real option"
  ri_lowTaz :: "real option"
  ri_targetTaz :: "real option"
  ri_refilling :: bool
  ri_balanceLabel :: string

text \<open>The parts of the bar: shapes, ticks, the two marks, the labels of the full size.\<close>

definition reserve_shapes :: "reserve_input \<Rightarrow> real \<Rightarrow> real \<Rightarrow> real \<Rightarrow> real \<Rightarrow> draw_op list" where
  "reserve_shapes inp l iw y bh =
     (let fill = (case ri_spendableTaz inp of None \<Rightarrow> 0 | Some s \<Rightarrow> log_position s * iw)
      in [round_rect l y iw bh (bh / 2) ''--bar-soft'' False]
       @ (if fill > 0 then [round_rect l y fill bh (bh / 2) ''--orange'' False] else [])
       @ (case ri_targetTaz inp of
            Some t \<Rightarrow> if ri_refilling inp then [Hatch (l + fill) y (min (iw - fill) (log_position (t * 3) * iw)) bh] else []
          | None \<Rightarrow> []))"

definition ruler_tick :: "real \<Rightarrow> real \<Rightarrow> real \<Rightarrow> real \<Rightarrow> int \<Rightarrow> draw_op list" where
  "ruler_tick l iw y bh v =
     (let tx = l + log_position (real_of_int v) * iw
      in [Rect_Fill (tx - 1/2) (y + bh + 2) 1 3 ''--label'',
          Put_Text (Plain (tick_label v)) tx (y + bh + 6) Align_Center Base_Top ''--label''])"

definition reserve_mark :: "real \<Rightarrow> real \<Rightarrow> real \<Rightarrow> real \<Rightarrow> bool \<Rightarrow> string \<Rightarrow> real option \<Rightarrow> draw_op list" where
  "reserve_mark l iw y bh mini tok v =
     (case v of None \<Rightarrow> []
      | Some v \<Rightarrow> [Rect_Fill (l + log_position v * iw - 3/4) (y - (if mini then 4 else 8)) (3/2)
          (bh + (if mini then 4 else 8) + (if mini then 0 else 4)) tok])"

text \<open>\<open>num_text\<close> prints a number; \<open>text_width\<close> is the width of a text in the font of the canvas.\<close>

definition reserve_labels ::
  "(real \<Rightarrow> string) \<Rightarrow> (string \<Rightarrow> real) \<Rightarrow> reserve_input \<Rightarrow> real \<Rightarrow> real \<Rightarrow> real \<Rightarrow> real \<Rightarrow> draw_op list" where
  "reserve_labels num_text text_width inp l iw y bh =
     [Put_Text (Plain (ri_balanceLabel inp)) (l + iw) (y - 3) Align_Right Base_Bottom ''--muted'']
     @ (case ri_targetTaz inp of None \<Rightarrow> []
        | Some t \<Rightarrow>
            (let targetLabel = ''target '' @ num_text t
             in case reserve_target_placement (l + log_position t * iw) (text_width targetLabel)
                  (text_width (ri_balanceLabel inp)) (l + iw) of
                  Own_Row \<Rightarrow> [Put_Text (Plain targetLabel) (l + iw) (y - 14) Align_Right Base_Bottom ''--muted'']
                | Beside_Mark \<Rightarrow>
                    [Put_Text (Plain targetLabel) (l + log_position t * iw + 4) (y - 3) Align_Left Base_Bottom ''--muted'']))
     @ (case ri_lowTaz inp of None \<Rightarrow> []
        | Some v \<Rightarrow> [Put_Text (Plain (''low '' @ num_text v)) (l + log_position v * iw) (y + bh + 19) Align_Center Base_Top ''--muted''])"

definition draw_reserve ::
  "(real \<Rightarrow> string) \<Rightarrow> (string \<Rightarrow> real) \<Rightarrow> real \<Rightarrow> reserve_input \<Rightarrow> bool \<Rightarrow> draw_op list" where
  "draw_reserve num_text text_width boxWidth inp mini =
     (let iw = (if boxWidth = 0 then 400 else boxWidth) - 4;
          y = (if mini then 14 else 30); bh = (if mini then 10 else 14)
      in reserve_shapes inp 2 iw y bh
       @ concat (map (ruler_tick 2 iw y bh) RESERVE_TICKS)
       @ reserve_mark 2 iw y bh mini ''--bad'' (ri_lowTaz inp)
       @ reserve_mark 2 iw y bh mini ''--warn'' (ri_targetTaz inp)
       @ (if mini then [] else reserve_labels num_text text_width inp 2 iw y bh))"

text \<open>\<open>drawSegments\<close>, within the clip of the rounded track.\<close>

definition draw_segments :: "real \<Rightarrow> (real \<times> string) list \<Rightarrow> draw_op list" where
  "draw_segments boxWidth segments =
     (let width = (if boxWidth = 0 then 400 else boxWidth)
      in round_rect 0 10 width 14 7 ''--bar-soft'' False
       # map (\<lambda>r. Rect_Fill (sg_x r) 10 (sg_w r) 14 (sg_token r)) (segment_rects segments width))"

section \<open>The bars tell the truth\<close>

lemma bar_metrics_facts:
  assumes "0 < n" and "real n \<le> innerWidth" and "bar_metrics n innerWidth = (bw, gap)"
  shows "0 < bw" and "bw / 10 < gap" and "real n * bw + (real n - 1) * gap = innerWidth"
proof -
  have gap: "gap = max 1 (innerWidth / real n * (3/10))" and bw: "bw = (innerWidth - gap * (real n - 1)) / real n"
    using assms(1,3) by (auto simp: bar_metrics_def Let_def of_nat_diff)
  have n: "1 \<le> real n" using assms(1) by simp
  show sum: "real n * bw + (real n - 1) * gap = innerWidth" using n by (simp add: bw field_simps)
  have slot: "1 \<le> innerWidth / real n" using n assms(2) by (simp add: le_divide_eq)
  have share: "(real n - 1) * (innerWidth / real n) \<le> innerWidth" using n assms(2) by (simp add: field_simps)
  show pos: "0 < bw"
  proof (cases "gap = 1")
    case True
    then show ?thesis using n assms(2) by (simp add: bw)
  next
    case False
    then have "gap = innerWidth / real n * (3/10)" by (auto simp: gap max_def split: if_splits)
    then have "gap * (real n - 1) = (3/10) * ((real n - 1) * (innerWidth / real n))" by (simp only: ac_simps)
    also have "\<dots> \<le> (3/10) * innerWidth" by (intro mult_left_mono share) simp
    finally have "gap * (real n - 1) \<le> (3/10) * innerWidth" .
    then show ?thesis using n assms(2) by (simp add: bw)
  qed
  have "0 \<le> gap * (real n - 1)" using n by (simp add: gap)
  then have "bw \<le> innerWidth / real n" unfolding bw using n by (intro divide_right_mono) auto
  then show "bw / 10 < gap" using slot pos by (auto simp: gap)
qed

lemma fold_max_ge: "(a :: int) \<le> foldl max a xs \<and> (\<forall>x\<in>set xs. x \<le> foldl max a xs)"
proof (induction xs arbitrary: a)
  case (Cons x xs)
  from Cons.IH [of "max a x"] show ?case by auto
qed simp

lemma bar_max_ge:
  "1 \<le> bar_max series since" "(d, n) \<in> set series \<Longrightarrow> \<not> is_uncounted d since \<Longrightarrow> n \<le> bar_max series since"
proof -
  show "1 \<le> bar_max series since" unfolding bar_max_def using fold_max_ge by blast
  assume "(d, n) \<in> set series" "\<not> is_uncounted d since"
  then have "n \<in> set (map snd (filter (\<lambda>(d, n). \<not> is_uncounted d since) series))" by force
  then show "n \<le> bar_max series since" unfolding bar_max_def using fold_max_ge by blast
qed

lemma bar_rects_nth: "i < length series \<Longrightarrow> bar_rects series l t iw ih since ! i = bar_rect_at l t iw ih since series i"
  by (simp add: bar_rects_def)

lemma length_bar_rects [simp]: "length (bar_rects series l t iw ih since) = length series"
  by (simp add: bar_rects_def)

text \<open>
  the chart of the drips shows every counted day and only those. On a plot at least a pixel wide for
  each day, every bar has its place in the plot from left to right without touching the next, the last bar
  is today's; a day before counting began has no height and is not painted; a counted day has at least the
  height that makes it visible, a busier day is never lower than a quieter one, and the busiest counted
  day reaches the top of the plot.
\<close>

theorem bars_show_exactly_the_counted_days:
  assumes "real (length series) \<le> iw" and "0 < ih" and "i < length series"
    and "\<forall>(d, n)\<in>set series. 0 \<le> n" and "rs = bar_rects series l t iw ih since"
  shows "(Suc i < length series \<longrightarrow> br_x (rs ! i) + br_w (rs ! i) < br_x (rs ! Suc i))
    \<and> (br_today (rs ! i) \<longleftrightarrow> Suc i = length series)
    \<and> (br_uncounted (rs ! i) \<longleftrightarrow> is_uncounted (fst (series ! i)) since)
    \<and> (br_uncounted (rs ! i) \<longrightarrow> br_h (rs ! i) = 0 \<and> draw_bar hovered (i, rs ! i) = [])
    \<and> (\<not> br_uncounted (rs ! i) \<longrightarrow> 0 < br_h (rs ! i) \<and> draw_bar hovered (i, rs ! i) \<noteq> []
        \<and> br_y (rs ! i) + br_h (rs ! i) = t + ih
        \<and> (\<forall>j < length series. \<not> br_uncounted (rs ! j) \<longrightarrow> snd (series ! j) \<le> snd (series ! i) \<longrightarrow> br_h (rs ! j) \<le> br_h (rs ! i))
        \<and> (snd (series ! i) = bar_max series since \<longrightarrow> ih \<le> br_h (rs ! i)))"
proof -
  obtain bw gap where m: "bar_metrics (length series) iw = (bw, gap)" by (cases "bar_metrics (length series) iw")
  have "0 < length series" using assms(3) by linarith
  note facts = bar_metrics_facts [OF this assms(1) m]
  have gap: "0 < gap" using facts(1,2) by linarith
  have at: "rs ! j = bar_rect_at l t iw ih since series j" if "j < length series" for j
    using that by (simp add: assms(5) bar_rects_nth)
  have next_bar: "br_x (rs ! i) + br_w (rs ! i) < br_x (rs ! Suc i)" if "Suc i < length series"
    using that at assms(3) facts(1,2) gap by (auto simp: bar_rect_at_def m Let_def case_prod_beta algebra_simps)
  have higher: "br_h (rs ! j) \<le> br_h (rs ! i)"
    if "j < length series" "\<not> br_uncounted (rs ! j)" "\<not> br_uncounted (rs ! i)" "snd (series ! j) \<le> snd (series ! i)" for j
  proof -
    have "real_of_int (snd (series ! j)) / real_of_int (bar_max series since) * ih
        \<le> real_of_int (snd (series ! i)) / real_of_int (bar_max series since) * ih"
      using that(4) bar_max_ge(1) [of series since] assms(2) by (intro mult_right_mono divide_right_mono) auto
    then show ?thesis using that at assms(3) by (auto simp: bar_rect_at_def m Let_def case_prod_beta max_def)
  qed
  have full: "ih \<le> br_h (rs ! i)" if "\<not> br_uncounted (rs ! i)" "snd (series ! i) = bar_max series since"
    using that at assms(3) bar_max_ge(1) [of series since] by (auto simp: bar_rect_at_def m Let_def case_prod_beta)
  show ?thesis
    using next_bar higher full at [OF assms(3)] facts(1) assms(3)
    by (auto simp: bar_rect_at_def m Let_def case_prod_beta draw_bar_def)
qed

lemma bar_centre_at:
  assumes "bar_metrics (length series) iw = (bw, gap)"
  shows "bar_centre (bar_rect_at l t iw ih since series i) = l + real i * (bw + gap) + bw / 2"
  by (simp add: bar_centre_def bar_rect_at_def assms Let_def case_prod_beta)

lemma nearest_loop_finds:
  assumes "k < length rs" and "\<And>j. j < length rs \<Longrightarrow> j \<noteq> k \<Longrightarrow> \<bar>x - bar_centre (rs ! k)\<bar> < \<bar>x - bar_centre (rs ! j)\<bar>"
    and "case bestD of None \<Rightarrow> True | Some b \<Rightarrow> \<bar>x - bar_centre (rs ! k)\<bar> < b"
  shows "nearest_loop x i best bestD rs = i + k"
proof -
  have keep: "nearest_loop x i b (Some d) rs = b" if "\<And>r. r \<in> set rs \<Longrightarrow> d \<le> \<bar>x - bar_centre r\<bar>" for i b d rs
    using that
  proof (induction rs arbitrary: i)
    case (Cons q rs)
    then have "\<not> \<bar>x - bar_centre q\<bar> < d" by (simp add: not_less)
    then show ?case using Cons by (simp add: Let_def)
  qed simp
  show ?thesis using assms
  proof (induction rs arbitrary: k i best bestD)
    case (Cons r rs)
    show ?case
    proof (cases k)
      case 0
      have "\<bar>x - bar_centre r\<bar> \<le> \<bar>x - bar_centre q\<bar>" if "q \<in> set rs" for q
        using that Cons.prems(2) [of "Suc j" for j] 0 by (fastforce simp: in_set_conv_nth)
      then show ?thesis using 0 Cons.prems(3) keep [of rs "\<bar>x - bar_centre r\<bar>"] by (cases bestD) (simp_all add: Let_def)
    next
      case (Suc k')
      have later: "\<bar>x - bar_centre (rs ! k')\<bar> < \<bar>x - bar_centre (rs ! j)\<bar>" if "j < length rs" "j \<noteq> k'" for j
        using Cons.prems(2) [of "Suc j"] that Suc by simp
      have "\<bar>x - bar_centre (rs ! k')\<bar> < \<bar>x - bar_centre r\<bar>" using Cons.prems(2) [of 0] Suc by simp
      then show ?thesis
        using Cons.IH [of k' _ "Suc i"] later Cons.prems(1,3) Suc by (simp add: Let_def split: option.splits)
    qed
  qed simp
qed

text \<open>
  the tooltip names the bar under the pointer. Wherever the pointer is over a painted bar, within the
  plot, the hit test answers that bar's index and its centre, so the day in the tooltip is the day of the bar it
  lights; and over a plot at least a pixel wide for each day it answers for every position within the margins.
\<close>

theorem tooltip_names_the_bar_under_the_pointer:
  assumes "width \<noteq> 0" and "real (length series) \<le> width - 30" and "i < length series"
    and "r = bar_rects series 26 10 (width - 30) 108 since ! i"
    and "br_x r \<le> clientX - boxLeft" and "clientX - boxLeft \<le> br_x r + br_w r"
    and "26 \<le> clientX - boxLeft" and "clientX - boxLeft \<le> width - 4"
  shows "\<exists>y. drip_hit_at_x boxLeft width series clientX = Some (i, br_x r + br_w r / 2, y)
    \<and> (\<not> br_uncounted r \<longrightarrow> bar_max series since = bar_max series None \<longrightarrow> y = br_y r)"
proof -
  let ?iw = "width - 30" and ?x = "clientX - boxLeft"
  let ?rs = "bar_rects series 26 10 ?iw 108 None"
  obtain bw gap where m: "bar_metrics (length series) ?iw = (bw, gap)" by (cases "bar_metrics (length series) ?iw")
  have pos: "0 < length series" using assms(3) by linarith
  note facts = bar_metrics_facts [OF pos assms(2) m]
  have centre: "bar_centre (?rs ! j) = 26 + real j * (bw + gap) + bw / 2" if "j < length series" for j
    using that by (simp add: bar_rects_nth bar_centre_at [OF m])
  have r: "r = bar_rect_at 26 10 ?iw 108 since series i" using assms(3,4) by (simp add: bar_rects_nth)
  have own: "\<bar>?x - (26 + real i * (bw + gap) + bw / 2)\<bar> \<le> bw * (11/20)"
  proof -
    define q where "q = real i * (bw + gap)"
    have "br_x r = 26 + q - (if i = length series - 1 then bw * (1/20) else 0)"
      and "br_w r = (if i = length series - 1 then bw * (11/10) else bw)"
      by (simp_all add: r bar_rect_at_def m Let_def case_prod_beta q_def)
    then consider "br_x r = 26 + q - bw * (1/20)" "br_w r = bw * (11/10)" | "br_x r = 26 + q" "br_w r = bw"
      by (cases "i = length series - 1") auto
    then show ?thesis unfolding q_def [symmetric] abs_le_iff
      by cases (intro conjI; use assms(5,6) facts(1) in linarith)+
  qed
  have closest: "\<bar>?x - bar_centre (?rs ! i)\<bar> < \<bar>?x - bar_centre (?rs ! j)\<bar>" if "j < length series" "j \<noteq> i" for j
  proof -
    have "bw + gap \<le> \<bar>real i * (bw + gap) - real j * (bw + gap)\<bar>"
    proof -
      have "1 \<le> \<bar>real i - real j\<bar>" using that(2) by (cases "i < j") auto
      then have "1 * (bw + gap) \<le> \<bar>real i - real j\<bar> * (bw + gap)" using facts(1,2) by (intro mult_right_mono) auto
      then show ?thesis using facts(1,2) by (simp add: abs_mult flip: left_diff_distrib)
    qed
    then show ?thesis unfolding centre [OF that(1)] centre [OF assms(3)] using own facts(1,2) by linarith
  qed
  have near: "nearest_loop ?x 0 0 None ?rs = 0 + i" by (rule nearest_loop_finds) (use assms(3) closest in auto)
  then have hit: "drip_hit_at_x boxLeft width series clientX = Some (i, br_x (?rs ! i) + br_w (?rs ! i) / 2, br_y (?rs ! i))"
  proof -
    have ne: "?rs \<noteq> []" using pos by (metis length_bar_rects length_greater_0_conv)
    have inside: "\<not> (?x < 26 \<or> ?x > 26 + ?iw)" using assms(7,8) by linarith
    show ?thesis using ne inside near assms(1)
      unfolding drip_hit_at_x_def drips_layout_of_def Let_def by (simp only: drips_layout.simps if_False simp_thms) simp
  qed
  have same: "br_x (?rs ! i) = br_x r" "br_w (?rs ! i) = br_w r" using assms(3) r by (simp_all add: bar_rects_nth bar_rect_at_def Let_def case_prod_beta)
  have "br_y (?rs ! i) = br_y r" if "\<not> br_uncounted r" "bar_max series since = bar_max series None"
    using assms(3) r that by (simp add: bar_rects_nth bar_rect_at_def Let_def case_prod_beta is_uncounted_def)
  then show ?thesis using hit same by simp
qed

section \<open>The reserve bar and the stacked bars\<close>

lemma log_position_range: "0 \<le> log_position v" "log_position v \<le> 1" "v \<le> 1 \<Longrightarrow> log_position v = 0"
  by (auto simp: log_position_def max_def)

lemma log_position_mono: "v \<le> w \<Longrightarrow> log_position v \<le> log_position w"
  unfolding log_position_def by (intro min.mono divide_right_mono) auto

text \<open>The box a text covers in a font of ten pixels: left, right, upper and lower edge.\<close>

fun text_box :: "(string \<Rightarrow> real) \<Rightarrow> draw_op \<Rightarrow> (real \<times> real) \<times> (real \<times> real)" where
  "text_box text_width (Put_Text (Plain s) x y al bl tok) =
     ((case al of Align_Left \<Rightarrow> (x, x + text_width s) | Align_Center \<Rightarrow> (x - text_width s / 2, x + text_width s / 2)
        | Align_Right \<Rightarrow> (x - text_width s, x)),
      (case bl of Base_Top \<Rightarrow> (y, y + 10) | Base_Middle \<Rightarrow> (y - 5, y + 5) | Base_Bottom \<Rightarrow> (y - 10, y)))"
| "text_box text_width _ = ((0, 0), (0, 0))"

definition apart :: "(string \<Rightarrow> real) \<Rightarrow> draw_op \<Rightarrow> draw_op \<Rightarrow> bool" where
  "apart text_width a b =
     (let ((l, r), (u, d)) = text_box text_width a; ((l', r'), (u', d')) = text_box text_width b
      in r + 8 \<le> l' \<or> r' + 8 \<le> l \<or> d < u' \<or> d' < u)"

fun is_text :: "draw_op \<Rightarrow> bool" where
  "is_text (Put_Text s x y al bl tok) = True"
| "is_text _ = False"

fun is_tick :: "draw_op \<Rightarrow> bool" where
  "is_tick (Put_Text s x y al bl tok) = (tok = ''--label'')"
| "is_tick _ = False"

text \<open>
  the labels of the reserve bar never meet. Whatever the balance, the marks, the width of the canvas
  and the widths of the texts, on the full-size bar any two labels, the ticks among themselves apart, are either
  in different rows or at least eight pixels from one another; the miniature has no label but its ticks.
\<close>

theorem reserve_labels_never_meet:
  "sorted_wrt (\<lambda>a b. apart text_width a b \<or> is_tick a \<and> is_tick b) (filter is_text (draw_reserve num_text text_width boxWidth inp False))
   \<and> list_all is_tick (filter is_text (draw_reserve num_text text_width boxWidth inp True))"
proof
  define iw where "iw = (if boxWidth = 0 then 400 else boxWidth) - 4"
  have parts: "filter is_text (reserve_shapes inp l iw y bh) = []" "filter is_text (reserve_mark l iw y bh mini tok v) = []"
    "filter is_text (concat (map (ruler_tick l iw y bh) vs))
      = map (\<lambda>v. Put_Text (Plain (tick_label v)) (l + log_position (real_of_int v) * iw) (y + bh + 6) Align_Center Base_Top ''--label'') vs"
    "filter is_text (reserve_labels num_text text_width inp l iw y bh) = reserve_labels num_text text_width inp l iw y bh"
    for l y bh mini tok v vs
    by (simp_all add: reserve_shapes_def round_rect_def reserve_mark_def ruler_tick_def reserve_labels_def filter_concat comp_def Let_def
        split: option.split placement.split)
  have labels: "sorted_wrt (apart text_width) (reserve_labels num_text text_width inp 2 iw 30 14)"
    by (cases "ri_targetTaz inp"; cases "ri_lowTaz inp")
      (auto simp: reserve_labels_def apart_def reserve_target_placement_def Let_def split: placement.split)
  have low: "apart text_width (Put_Text (Plain (tick_label v)) x 50 Align_Center Base_Top ''--label'') b"
    if "b \<in> set (reserve_labels num_text text_width inp 2 iw 30 14)" for v x b
    using that by (cases "ri_targetTaz inp"; cases "ri_lowTaz inp")
      (auto simp: reserve_labels_def apart_def reserve_target_placement_def Let_def split: placement.splits if_splits)
  show "sorted_wrt (\<lambda>a b. apart text_width a b \<or> is_tick a \<and> is_tick b) (filter is_text (draw_reserve num_text text_width boxWidth inp False))"
    using labels low
    by (auto simp: draw_reserve_def Let_def parts sorted_wrt_append sorted_wrt_map iw_def [symmetric] elim: sorted_wrt_mono_rel [rotated]
        intro: sorted_wrt_mono_rel)
  show "list_all is_tick (filter is_text (draw_reserve num_text text_width boxWidth inp True))"
    by (simp add: draw_reserve_def Let_def parts list_all_iff iw_def [symmetric])
qed

definition share_of :: "real \<Rightarrow> real \<Rightarrow> (real \<times> string) list \<Rightarrow> real" where
  "share_of whole width segs = sum_list (map (\<lambda>(v, t). max 0 v) segs) / whole * width"

lemma segment_loop_facts:
  assumes "0 < whole" and "0 < width"
  shows "map sg_token (segment_loop whole width x segs) = map snd (filter (\<lambda>(v, t). 0 < v) segs)
    \<and> (\<forall>r\<in>set (segment_loop whole width x segs). x \<le> sg_x r \<and> 1 \<le> sg_w r \<and> sg_x r + sg_w r < x + share_of whole width segs + 1)
    \<and> sorted_wrt (\<lambda>a b. sg_x a + sg_w a < sg_x b + 1) (segment_loop whole width x segs)"
proof (induction segs arbitrary: x)
  case (Cons s segs)
  obtain v tok where s: "s = (v, tok)" by (cases s)
  have rest: "0 \<le> share_of whole width segs"
    using assms by (auto simp: share_of_def intro!: mult_nonneg_nonneg divide_nonneg_pos sum_list_nonneg)
  show ?case
  proof (cases "0 < v")
    case True
    define w where "w = v / whole * width"
    have w: "0 < w" using True assms by (simp add: w_def)
    have more: "share_of whole width (s # segs) = w + share_of whole width segs"
      using True by (simp add: share_of_def s w_def add_divide_distrib distrib_right)
    have loop: "segment_loop whole width x (s # segs)
        = \<lparr>sg_x = x, sg_w = max (w - 3/2) 1, sg_token = tok\<rparr> # segment_loop whole width (x + w) segs"
      using True by (simp add: s w_def Let_def)
    show ?thesis using Cons.IH [of "x + w"] w rest True unfolding loop more by (fastforce simp: s)
  next
    case False
    then have "share_of whole width (s # segs) = share_of whole width segs" "segment_loop whole width x (s # segs) = segment_loop whole width x segs"
      by (simp_all add: share_of_def s)
    then show ?thesis using Cons.IH [of x] False by (simp add: s)
  qed
qed (simp add: share_of_def)

lemma segment_whole: "foldl (\<lambda>a (v, t). a + max 0 v) x segs = x + sum_list (map (\<lambda>(v, t). max 0 v) segs)" for x :: real
  by (induction segs arbitrary: x) (auto simp: add.assoc)

text \<open>
  A stacked bar shows every outcome that happened and no other: the coloured parts are those of the positive
  values in their order, each at least a pixel wide, overlapping the next by less than a pixel and leaving the
  track by less than a pixel; a bar with nothing to show draws only its track.
\<close>

theorem stacked_bar_shows_what_happened:
  assumes "0 < width"
  shows "map sg_token (segment_rects segs width) = map snd (filter (\<lambda>(v, t). 0 < v) segs)
    \<and> (\<forall>r\<in>set (segment_rects segs width). 0 \<le> sg_x r \<and> 1 \<le> sg_w r \<and> sg_x r + sg_w r < width + 1)
    \<and> sorted_wrt (\<lambda>a b. sg_x a + sg_w a < sg_x b + 1) (segment_rects segs width)"
proof -
  define whole where "whole = sum_list (map (\<lambda>(v, t). max 0 v) segs)"
  have rects: "segment_rects segs width = (if whole \<le> 0 then [] else segment_loop whole width 0 segs)"
    by (simp add: segment_rects_def segment_whole whole_def)
  show ?thesis
  proof (cases "whole \<le> 0")
    case True
    have "filter (\<lambda>(v, t). 0 < v) segs = []"
    proof (rule ccontr)
      assume "filter (\<lambda>(v, t). 0 < v) segs \<noteq> []"
      then obtain v t where "(v, t) \<in> set segs" "0 < v" by (auto simp: filter_empty_conv)
      then have "max 0 v \<le> whole" unfolding whole_def by (intro member_le_sum_list) force+
      with \<open>0 < v\<close> True show False by simp
    qed
    with True show ?thesis by (simp add: rects)
  next
    case False
    then have "share_of whole width segs = width" by (simp add: share_of_def whole_def)
    then show ?thesis using segment_loop_facts [of whole width 0 segs] False assms by (simp add: rects)
  qed
qed

section \<open>Instances\<close>

definition ex_series :: "drip_day list" where "ex_series = [(20000, 0), (20001, 0), (20002, 4), (20003, 2)]"

theorem bars_show_exactly_the_counted_days_witness:
  "br_h (bar_rects ex_series 26 10 370 108 (Some 20001) ! 0) = 0 \<and> 0 < br_h (bar_rects ex_series 26 10 370 108 (Some 20001) ! 1)"
proof -
  let ?rs = "bar_rects ex_series 26 10 370 108 (Some 20001)"
  have "\<forall>(d, n)\<in>set ex_series. 0 \<le> n" by (simp add: ex_series_def)
  note bars = bars_show_exactly_the_counted_days [of ex_series 370 108, OF _ _ _ this refl]
  show ?thesis using bars [of 0 26 10 "Some 20001" 0] bars [of 1 26 10 "Some 20001" 0]
    by (simp add: ex_series_def is_uncounted_def)
qed

theorem tooltip_names_the_bar_under_the_pointer_witness:
  "\<exists>cx y. drip_hit_at_x 0 400 ex_series (26 + 30) = Some (0, cx, y)"
proof -
  define r where "r = bar_rects ex_series 26 10 (400 - 30) 108 None ! 0"
  have "br_x r = 26" "br_w r = (370 - 3 * (370 / 4 * (3/10))) / 4"
    by (simp_all add: r_def ex_series_def bar_rects_def bar_rect_at_def bar_metrics_def Let_def)
  then have "br_x r \<le> (26 + 30) - 0" "(26 + 30) - 0 \<le> br_x r + br_w r" by simp_all
  from tooltip_names_the_bar_under_the_pointer [OF _ _ _ r_def this] show ?thesis by (auto simp: ex_series_def)
qed

end
