(* ===== verification/Js_Format.thy ===== *)
theory Js_Format
  imports Js_Number Sender Json_Value
begin

text \<open>
  How JavaScript writes a number: \<open>String(n)\<close> with the shortest digits that read back as the same double,
  \<open>toFixed\<close>, \<open>toLocaleString("en-US")\<close>, and the thousands separators the page puts in with a regular
  expression (\<open>groupDigits\<close>). A number is the rational of a finite double, or a \<open>jnum\<close> where an infinity
  can arrive.
\<close>

section \<open>String(n)\<close>

text \<open>The power of ten above a positive number: \<open>10 powi (n - 1) \<le> x < 10 powi n\<close>.\<close>

definition decimal_exponent :: "rat \<Rightarrow> int" where
  "decimal_exponent x =
     (if 1 \<le> x then int (length (show_nat (nat \<lfloor>x\<rfloor>)))
      else let l = length (show_nat (nat \<lfloor>1 / x\<rfloor>))
           in if x * 10 ^ (l - 1) = 1 then 2 - int l else 1 - int l)"

text \<open>The nearest \<open>k\<close>-digit decimals of \<open>x\<close>, the nearer one first, as multiples of \<open>10 powi (n - k)\<close>.\<close>

definition digit_candidates :: "rat \<Rightarrow> int \<Rightarrow> nat \<Rightarrow> int list" where
  "digit_candidates x n k =
     (let y = x * 10 powi (int k - n); f = \<lfloor>y\<rfloor>
      in if y - of_int f \<le> 1 / 2 then [f, f + 1] else [f + 1, f])"

definition reads_back :: "rat \<Rightarrow> int \<Rightarrow> nat \<Rightarrow> int \<Rightarrow> bool" where
  "reads_back x n k s = (double_of (of_int s * 10 powi (n - int k)) = x)"

text \<open>Seventeen digits always read back; fewer are tried first.\<close>

fun shortest_from :: "rat \<Rightarrow> int \<Rightarrow> nat list \<Rightarrow> nat \<times> int" where
  "shortest_from x n [] = (17, hd (digit_candidates x n 17))"
| "shortest_from x n (k # ks) =
     (case find (reads_back x n k) (digit_candidates x n k) of
        Some s \<Rightarrow> (k, s) | None \<Rightarrow> shortest_from x n ks)"

definition shortest_digits :: "rat \<Rightarrow> string \<times> int" where
  "shortest_digits x =
     (let n = decimal_exponent x in
      case shortest_from x n [1..<17] of (k, s) \<Rightarrow>
        if s = 10 ^ k then (''1'', n + 1) else (show_int s, n))"

definition positive_text :: "rat \<Rightarrow> string" where
  "positive_text x =
     (case shortest_digits x of (ds, n) \<Rightarrow>
        let k = int (length ds); zeros = (\<lambda>m. replicate (nat m) (CHR ''0'')) in
        if k \<le> n \<and> n \<le> 21 then ds @ zeros (n - k)
        else if 0 < n \<and> n \<le> 21 then take (nat n) ds @ ''.'' @ drop (nat n) ds
        else if - 6 < n \<and> n \<le> 0 then ''0.'' @ zeros (- n) @ ds
        else take 1 ds @ (if k = 1 then [] else ''.'' @ drop 1 ds) @ ''e''
             @ (if n - 1 < 0 then ''-'' else ''+'') @ show_int \<bar>n - 1\<bar>)"

text \<open>A whole number a double holds exactly is its own shortest decimal.\<close>

definition number_text :: "rat \<Rightarrow> string" where
  "number_text x =
     (if x = of_int \<lfloor>x\<rfloor> \<and> \<bar>x\<bar> \<le> 2 ^ 53 then show_int \<lfloor>x\<rfloor>
      else if x < 0 then ''-'' @ positive_text (- x) else positive_text x)"

fun jnum_text :: "jnum \<Rightarrow> string" where
  "jnum_text (Fin x) = number_text x"
| "jnum_text Pos_Inf = ''Infinity''"
| "jnum_text Neg_Inf = ''-Infinity''"

section \<open>toFixed\<close>

definition to_fixed :: "nat \<Rightarrow> rat \<Rightarrow> string" where
  "to_fixed f x =
     (if 10 ^ 21 \<le> \<bar>x\<bar> then number_text x
      else let m = show_int \<lfloor>\<bar>x\<bar> * 10 ^ f + 1 / 2\<rfloor>;
               p = pad_start (f + 1) m;
               w = length p - f
           in (if x < 0 then ''-'' else [])
              @ (if f = 0 then m else take w p @ ''.'' @ drop w p))"

section \<open>Thousands separators\<close>

text \<open>
  \<open>replace(/\B(?=(\d{3})+(?!\d))/g, ",")\<close>: a comma at every position that is not a word boundary and is
  followed by one or more groups of three digits after which no digit comes.
\<close>

definition is_word :: "char \<Rightarrow> bool" where
  "is_word c = (is_digit c \<or> (CHR ''a'' \<le> c \<and> c \<le> CHR ''z'') \<or> (CHR ''A'' \<le> c \<and> c \<le> CHR ''Z'') \<or> c = CHR ''_'')"

fun three_groups :: "string \<Rightarrow> bool" where
  "three_groups (a # b # c # s) =
     (is_digit a \<and> is_digit b \<and> is_digit c
      \<and> ((case s of [] \<Rightarrow> True | d # t \<Rightarrow> \<not> is_digit d) \<or> three_groups s))"
| "three_groups _ = False"

fun put_commas :: "bool \<Rightarrow> string \<Rightarrow> string" where
  "put_commas after_word [] = []"
| "put_commas after_word (c # s) =
     (if after_word = is_word c \<and> three_groups (c # s) then '','' else []) @ c # put_commas (is_word c) s"

definition math_trunc :: "rat \<Rightarrow> int" where
  "math_trunc x = (if 0 \<le> x then \<lfloor>x\<rfloor> else \<lceil>x\<rceil>)"

definition group_digits :: "rat \<Rightarrow> string" where
  "group_digits n = put_commas False (number_text (of_int (math_trunc n)))"

text \<open>\<open>toLocaleString("en-US")\<close>: groups of three, at most three decimals, ties away from zero.\<close>

definition locale_text :: "rat \<Rightarrow> string" where
  "locale_text x =
     (let m = \<lfloor>\<bar>x\<bar> * 1000 + 1 / 2\<rfloor>;
          frac = strip_trailing_zeros (pad_start 3 (show_int (m mod 1000)))
      in (if x < 0 then ''-'' else []) @ put_commas False (show_int (m div 1000))
         @ (if frac = [] then [] else ''.'' @ frac))"

section \<open>Facts\<close>

text \<open>Grouping by thousands, on the number instead of on its text.\<close>

fun by_thousands :: "nat \<Rightarrow> string" where
  "by_thousands n =
     (if n < 1000 then show_nat n
      else by_thousands (n div 1000) @ '','' @ pad_start 3 (show_nat (n mod 1000)))"

declare by_thousands.simps [simp del]

lemma digit_is_word: "is_digit c \<Longrightarrow> is_word c"
  by (simp add: is_word_def)

lemma three_groups_digits: "digits s \<Longrightarrow> three_groups s \<longleftrightarrow> s \<noteq> [] \<and> length s mod 3 = 0"
proof (induction s rule: three_groups.induct)
  case (1 a b c s)
  then show ?case by (cases s) (auto simp: mod_Suc)
qed (auto simp: mod_Suc)

lemma put_commas_thousand:
  assumes "digits s" and "digits [a, b, c]"
  shows "put_commas True (s @ [a, b, c]) = put_commas True s @ '','' @ [a, b, c]"
  using assms
proof (induction s)
  case Nil
  then show ?case by (simp add: digit_is_word three_groups_digits)
next
  case (Cons d s)
  then have "three_groups ((d # s) @ [a, b, c]) = three_groups (d # s)"
    by (subst (1 2) three_groups_digits) (simp_all add: mod_Suc)
  with Cons show ?case by (simp add: digit_is_word)
qed

lemma put_commas_first: "is_digit c \<Longrightarrow> put_commas False (c # s) = c # put_commas True s"
  by (simp add: digit_is_word)

lemma div_thousands:
  "(m + 1000 * q) div 10 = m div 10 + 100 * (q::nat)" "(m + 1000 * q) div 100 = m div 100 + 10 * q"
  by presburger+

lemma char_of_48: "char_of (48::nat) = CHR ''0''"
proof -
  have "of_char (CHR ''0'') = (48::nat)" by simp
  then show ?thesis by (metis char_of_char)
qed

lemma show_nat_three:
  assumes "1000 \<le> n"
  shows "show_nat n = show_nat (n div 1000) @ pad_start 3 (show_nat (n mod 1000))"
    and "length (pad_start 3 (show_nat (n mod 1000))) = 3" 
proof -
  have one: "show_nat m = show_nat (m div 10) @ [char_of (m mod 10 + 48)]" if "10 \<le> m" for m
    using that show_nat.simps [of m] by simp
  have n3: "show_nat n = show_nat (n div 1000) @ [char_of (n div 100 mod 10 + 48), char_of (n div 10 mod 10 + 48), char_of (n mod 10 + 48)]"
    using assms one [of n] one [of "n div 10"] one [of "n div 100"] by (simp add: div_mult2_eq [symmetric])
  let ?m = "n mod 1000"
  have d: "n mod 10 = ?m mod 10" "n div 10 mod 10 = ?m div 10 mod 10" "n div 100 mod 10 = ?m div 100"
  proof -
    have n: "n = ?m + 1000 * (n div 1000)" by simp
    have "n div 10 = ?m div 10 + 100 * (n div 1000)" "n div 100 = ?m div 100 + 10 * (n div 1000)"
      by (subst n, subst div_thousands, simp)+
    moreover have "?m div 100 < 10" by (simp add: less_mult_imp_div_less)
    ultimately show "n div 10 mod 10 = ?m div 10 mod 10" "n div 100 mod 10 = ?m div 100"
      by (simp_all add: mod_add_eq [symmetric] mod_mult_right_eq)
  qed (simp add: mod_mod_cancel)
  have "pad_start 3 (show_nat ?m) = [char_of (?m div 100 + 48), char_of (?m div 10 mod 10 + 48), char_of (?m mod 10 + 48)]"
  proof (cases "?m < 10")
    case True
    then show ?thesis by (simp add: pad_start_def show_nat.simps [of ?m] numeral_2_eq_2 char_of_48)
  next
    case False
    show ?thesis
    proof (cases "?m < 100")
      case True
      then have "show_nat ?m = [char_of (?m div 10 + 48), char_of (?m mod 10 + 48)]"
        using one [of ?m] False show_nat.simps [of "?m div 10"] by simp
      moreover have "?m div 10 mod 10 = ?m div 10" using True by simp
      ultimately show ?thesis using True by (simp add: pad_start_def char_of_48)
    next
      case False
      then have "show_nat ?m = [char_of (?m div 100 + 48), char_of (?m div 10 mod 10 + 48), char_of (?m mod 10 + 48)]"
        using one [of ?m] one [of "?m div 10"] show_nat.simps [of "?m div 100"] by (simp add: div_mult2_eq [symmetric])
      then show ?thesis by (simp add: pad_start_def)
    qed
  qed
  then show "show_nat n = show_nat (n div 1000) @ pad_start 3 (show_nat ?m)" "length (pad_start 3 (show_nat ?m)) = 3"
    using n3 d by simp_all
qed

lemma put_commas_show_nat: "put_commas False (show_nat n) = by_thousands n"
proof (induction n rule: by_thousands.induct)
  case (1 n)
  show ?case
  proof (cases "n < 1000")
    case True
    have "length (show_nat n) \<le> 3"
      using True show_nat.simps [of n] show_nat.simps [of "n div 10"] show_nat.simps [of "n div 10 div 10"] by auto
    moreover have "digits (show_nat n)" by (rule show_nat_is_digits)
    ultimately have "put_commas False (show_nat n) = show_nat n"
      by (auto simp: digit_is_word three_groups_digits le_Suc_eq numeral_3_eq_3 length_Suc_conv)
    then show ?thesis using True by (simp add: by_thousands.simps)
  next
    case False
    let ?h = "show_nat (n div 1000)" and ?l = "pad_start 3 (show_nat (n mod 1000))"
    have s: "show_nat n = ?h @ ?l" "length ?l = 3" using False show_nat_three [of n] by simp_all
    obtain a b c where l: "?l = [a, b, c]" using s(2) by (auto simp: numeral_3_eq_3 length_Suc_conv)
    have d: "digits ?h" "digits [a, b, c]"
      using show_nat_is_digits [of n] show_nat_is_digits [of "n div 1000"] unfolding s(1) l by simp_all
    obtain e t where h: "?h = e # t" using show_nat_nonempty by (cases ?h) auto
    have "put_commas False (show_nat n) = e # put_commas True (t @ [a, b, c])"
      using d unfolding s(1) l h append_Cons by (intro put_commas_first) simp
    also have "\<dots> = put_commas False ?h @ '','' @ ?l"
      using d 
      unfolding l h by (subst put_commas_thousand) (simp_all add: put_commas_first del: put_commas.simps)
    finally show ?thesis using 1 False by (simp add: by_thousands.simps [of n])
  qed
qed

lemma commas_only_added: "filter (\<lambda>c. c \<noteq> CHR '','') (put_commas w s) = filter (\<lambda>c. c \<noteq> CHR '','') s"
  by (induction s arbitrary: w) simp_all

lemma show_int_nat: "0 \<le> i \<Longrightarrow> show_int i = show_nat (nat i)"
  by (simp add: show_int_def)

lemma three_groups_first: "three_groups (c # s) \<Longrightarrow> is_digit c"
  by (cases "c # s" rule: three_groups.cases) auto

text \<open>What \<open>toFixed\<close> writes denotes the nearest multiple of the last place.\<close>

lemma to_fixed_value:
  assumes "0 \<le> x" and "x < 10 ^ 21" and f: "0 < f"
  shows "mantissa_value (to_fixed f x) = Some (of_int \<lfloor>x * 10 ^ f + 1 / 2\<rfloor> / 10 ^ f)"
proof -
  let ?n = "\<lfloor>x * 10 ^ f + 1 / 2\<rfloor>"
  have "0 \<le> x * 10 ^ f + 1 / 2" using assms(1) by simp
  then have n: "0 \<le> ?n" by (simp add: zero_le_floor)
  define p where "p = pad_start (f + 1) (show_int ?n)"
  define w where "w = take (length p - f) p"
  define r where "r = drop (length p - f) p"
  have len: "f + 1 \<le> length p" by (simp add: p_def pad_start_def)
  have p: "p = w @ r" "w \<noteq> []" "length r = f" using len by (auto simp: w_def r_def)
  have dp: "digits p" using show_nat_is_digits [of "nat ?n"] n
    by (auto simp: p_def pad_start_def show_int_nat list_all_iff is_digit_def)
  have v: "digits_value p = ?n" using n
    by (simp add: p_def pad_start_def show_int_nat digits_value_append digits_value_zeros digits_value_show_nat)
  have t: "to_fixed f x = w @ ''.'' @ r"
    using assms by (simp add: to_fixed_def Let_def p_def w_def r_def)
  have "CHR ''.'' \<notin> set w" "CHR ''.'' \<notin> set r"
    using digit_no_mark [OF dp] unfolding p(1) by auto
  then have "split_on (CHR ''.'') (w @ ''.'' @ r) = [w, r]"
    using split_on_cons [of "CHR ''.''" w r] split_on_word [of "CHR ''.''" r] by simp
  then show ?thesis using p dp v by (simp add: mantissa_value_def t)
qed

theorem grouped_number_is_the_number:
  assumes "\<bar>z\<bar> \<le> 2 ^ 53"
  shows "group_digits (of_int z) = (if z < 0 then ''-'' else []) @ by_thousands (nat \<bar>z\<bar>)
    \<and> filter (\<lambda>c. c \<noteq> CHR '','') (group_digits (of_int z)) = show_int z"
proof -
  have "\<bar>of_int z :: rat\<bar> \<le> of_int (2 ^ 53)" using assms unfolding of_int_abs [symmetric] by (simp only: of_int_le_iff)
  then have b: "\<bar>of_int z :: rat\<bar> \<le> 2 ^ 53" by (simp only: of_int_power of_int_numeral)
  have "math_trunc (of_int z) = z" by (simp add: math_trunc_def)
  then have t: "number_text (of_int (math_trunc (of_int z))) = show_int z"
    by (simp only: number_text_def floor_of_int b simp_thms if_True)
  have g: "group_digits (of_int z) = (if z < 0 then ''-'' else []) @ by_thousands (nat \<bar>z\<bar>)"
    unfolding group_digits_def t using put_commas_show_nat [of "nat \<bar>z\<bar>"]
    by (auto simp: show_int_def is_word_def is_digit_def less_eq_char_def put_commas_show_nat dest: three_groups_first)
  have nc: "CHR '','' \<notin> set (show_int z)"
    using show_nat_is_digits [of "nat z"] show_nat_is_digits [of "nat (- z)"]
    by (auto simp: show_int_def list_all_iff is_digit_def less_eq_char_def)
  then have "filter (\<lambda>c. c \<noteq> CHR '','') (show_int z) = show_int z" by (auto simp: filter_id_conv)
  then show ?thesis using g unfolding group_digits_def t commas_only_added by simp
qed

theorem grouped_number_is_the_number_witness:
  "group_digits (- 4000) = ''-4,000'' \<and> filter (\<lambda>c. c \<noteq> CHR '','') (group_digits (- 4000)) = show_int (- 4000)"
proof -
  have "by_thousands 4000 = ''4,000''"
    by code_simp
  moreover have "show_int (- 4000) = ''-4000''" by code_simp
  ultimately show ?thesis using grouped_number_is_the_number [of "- 4000"] by simp
qed

end
