(* ===== verification/Status_View.thy ===== *)
theory Status_View
  imports Js_Format Page_Phase Miner Reserve
begin

text \<open>
  The words and figures the page writes from the status answer: statusView.ts, the sentences of
  minerLabel.ts, reserveLabel.ts, reserveLow.ts, syncLabel.ts, incomeSentence.ts, powEstimate.ts,
  feedbackCopy.ts and the table and amounts of network.ts. A value an answer may lack is \<open>None\<close>; the two
  characters outside ASCII are their bytes in UTF-8. Amounts and rates stay far below the largest double,
  so a quotient is its rounded value; where an infinity can arise it is written out.
\<close>

datatype tone = Tone_Ok | Tone_Warn | Tone_Bad | Tone_Unknown

section \<open>Heights\<close>

definition height_diff :: "rat option \<Rightarrow> rat option \<Rightarrow> rat option" where
  "height_diff nodeHeight externalHeight =
     (case (nodeHeight, externalHeight) of (Some n, Some e) \<Rightarrow> Some (n - e) | _ \<Rightarrow> None)"

definition signed_text :: "rat \<Rightarrow> string" where
  "signed_text diff =
     (if diff \<ge> 0 then ''+'' else []) @ group_digits (\<bar>diff\<bar> * (if diff < 0 then - 1 else 1))"

definition height_delta_text :: "rat option \<Rightarrow> string" where
  "height_delta_text diff =
     (case diff of None \<Rightarrow> ''no independent reference''
      | Some d \<Rightarrow> signed_text d @ '' vs network''
                  @ (if d > 0 then '', ahead'' else if d < 0 then '', behind'' else []))"

definition height_diff_chip :: "rat option \<Rightarrow> string option" where
  "height_diff_chip diff =
     (case diff of None \<Rightarrow> None | Some d \<Rightarrow> Some (''('' @ signed_text d @ '' vs network)''))"

definition height_note :: "rat option \<Rightarrow> string" where
  "height_note diff =
     (case diff of None \<Rightarrow> ''nothing to compare against''
      | Some d \<Rightarrow> if d > 0 then ''ahead, normal for a node that mines''
                  else if d < 0 then ''behind the reference'' else ''level with the reference'')"

definition height_tone :: "rat option \<Rightarrow> tone" where
  "height_tone diff =
     (case diff of None \<Rightarrow> Tone_Unknown | Some d \<Rightarrow> if d < - 2 then Tone_Warn else Tone_Ok)"

section \<open>The progress of the node\<close>

text \<open>The literals \<open>99.99\<close>, \<open>99.9\<close> and \<open>99.5\<close> are the doubles nearest to them.\<close>

definition lit_9999 :: rat where "lit_9999 = double_of (9999 / 100)"
definition lit_999 :: rat where "lit_999 = double_of (999 / 10)"
definition lit_995 :: rat where "lit_995 = 199 / 2"

definition sync_figure :: "rat option \<Rightarrow> bool \<Rightarrow> string option" where
  "sync_figure pct ready =
     (case pct of None \<Rightarrow> None
      | Some p \<Rightarrow>
          let floored = double_of (of_int \<lfloor>double_of (p * 100)\<rfloor> / 100) in
          if \<not> ready then Some (to_fixed 2 (min floored lit_9999) @ ''%'')
          else Some (to_fixed 2 floored @ ''%''))"

definition sync_bar_percent :: "rat option \<Rightarrow> bool \<Rightarrow> rat" where
  "sync_bar_percent pct ready =
     (case pct of None \<Rightarrow> 0
      | Some p \<Rightarrow> if ready then min 100 (max 0 p) else min lit_995 (max 0 p))"

definition sync_label :: "rat option \<Rightarrow> bool \<Rightarrow> string option" where
  "sync_label pct ready =
     (case pct of None \<Rightarrow> None
      | Some p \<Rightarrow>
          if ready then Some ''100%''
          else let capped = min p lit_9999 in
            if capped \<ge> lit_999 then Some (to_fixed 2 capped @ ''%'')
            else if capped \<ge> 99 then Some (to_fixed 1 capped @ ''%'')
            else Some (show_int \<lfloor>capped\<rfloor> @ ''%''))"

definition sync_bar_width :: "rat option \<Rightarrow> bool \<Rightarrow> string" where
  "sync_bar_width pct ready =
     (case pct of None \<Rightarrow> ''100%''
      | Some p \<Rightarrow> if ready then ''100%'' else to_fixed 1 (min p lit_995) @ ''%'')"

section \<open>The reserve\<close>

definition drips_left :: "rat option \<Rightarrow> rat \<Rightarrow> int option" where
  "drips_left spendableTaz dripTaz =
     (case spendableTaz of None \<Rightarrow> None
      | Some s \<Rightarrow>
          if \<not> dripTaz > 0 then None
          else Some (math_round (double_of (double_of (s / dripTaz) / 100)) * 100))"

definition drips_text :: "int \<Rightarrow> rat \<Rightarrow> string" where
  "drips_text drips dripTaz = ''about '' @ group_digits (of_int drips) @ '' drips at '' @ number_text dripTaz"

definition drips_left_text :: "rat option \<Rightarrow> rat \<Rightarrow> string option" where
  "drips_left_text spendableTaz dripTaz =
     (case drips_left spendableTaz dripTaz of None \<Rightarrow> None | Some d \<Rightarrow> Some (drips_text d dripTaz))"

record reserve_view =
  rw_spendableTaz :: "rat option"
  rw_lowTaz :: "rat option"
  rw_targetTaz :: "rat option"
  rw_refilling :: "bool option"

definition MIDDLE_DOT :: string where "MIDDLE_DOT = [CHR '' '', CHR 0xC2, CHR 0xB7, CHR '' '']"

definition reserve_sentence :: "reserve_view option \<Rightarrow> rat \<Rightarrow> string option" where
  "reserve_sentence reserve dripTaz =
     (let spendable = Option.bind reserve rw_spendableTaz;
          target = Option.bind reserve rw_targetTaz;
          drips = (if spendable = None then None else drips_left spendable dripTaz);
          parts = List.map_filter (\<lambda>x. x)
            [map_option (\<lambda>s. group_digits (of_int (math_round s)) @ '' TAZ'') spendable,
             map_option (\<lambda>t. ''reserve line '' @ group_digits t) target,
             map_option (\<lambda>d. drips_text d dripTaz) drips]
      in if parts = [] then None else Some (join_with MIDDLE_DOT parts))"

definition reserve_tone :: "reserve_view option \<Rightarrow> tone" where
  "reserve_tone reserve =
     (case (Option.bind reserve rw_spendableTaz, Option.bind reserve rw_lowTaz, Option.bind reserve rw_targetTaz) of
        (Some s, Some low, Some target) \<Rightarrow>
          if s \<le> low then Tone_Bad else if s < target then Tone_Warn else Tone_Ok
      | _ \<Rightarrow> Tone_Unknown)"

definition reserve_word :: "reserve_view option \<Rightarrow> string" where
  "reserve_word reserve =
     (if reserve_tone reserve = Tone_Unknown then ''unknown''
      else if Option.bind reserve rw_refilling = Some True then ''topping up''
      else if reserve_tone reserve = Tone_Bad then ''low'' else ''ok'')"

definition reserve_chip_tone :: "string \<Rightarrow> tone" where
  "reserve_chip_tone word' =
     (if word' = ''low'' then Tone_Bad else if word' = ''topping up'' then Tone_Warn
      else if word' = ''ok'' then Tone_Ok else Tone_Unknown)"

text \<open>reserveLabel.ts: the two rows of the panel.\<close>

record reserve_facts =
  rq_spendableTaz :: "rat option"
  rq_lowTaz :: rat
  rq_targetTaz :: rat
  rq_refilling :: bool
  rq_failedSteps :: "int option"
  rq_lastFailure :: "(failure_kind \<times> string) option"
  rq_harvesting :: bool

record reserve_rows =
  rr_reserve :: string
  rr_refill :: string
  rr_refillBad :: bool

definition stuck_on :: "reserve_facts \<Rightarrow> failure_kind option" where
  "stuck_on r = (if nullish (rq_failedSteps r) 0 > 0 then map_option fst (rq_lastFailure r) else None)"

definition failing_text :: "string \<Rightarrow> reserve_facts \<Rightarrow> string" where
  "failing_text what r = what @ '' FAILING, '' @ show_int (nullish (rq_failedSteps r) 0) @ '' consecutive''"

definition reserve_rows_of :: "reserve_facts \<Rightarrow> reserve_rows" where
  "reserve_rows_of r =
     (let balance = (case rq_spendableTaz r of None \<Rightarrow> ''unknown'' | Some s \<Rightarrow> to_fixed 1 s @ '' TAZ'');
          row = (\<lambda>refill bad. \<lparr>rr_reserve = balance, rr_refill = refill, rr_refillBad = bad\<rparr>);
          low = to_fixed 0 (rq_lowTaz r)
      in if rq_refilling r then
           (case stuck_on r of
              Some failure_kind.Waiting \<Rightarrow> row ''waiting, nothing to shield'' False
            | Some Resyncing \<Rightarrow> row ''wallet resyncing after a reorg'' False
            | Some Step_Error \<Rightarrow> row (failing_text ''refill'' r) True
            | None \<Rightarrow> row (''topping up to '' @ to_fixed 0 (rq_targetTaz r) @ '' TAZ'') False)
         else if rq_harvesting r then
           (case stuck_on r of
              Some failure_kind.Waiting \<Rightarrow> row ''waiting, nothing to shield'' False
            | Some Resyncing \<Rightarrow> row ''wallet resyncing after a reorg'' False
            | Some Step_Error \<Rightarrow> row (failing_text ''harvest'' r) True
            | None \<Rightarrow> row ''shielding coinbase'' False)
         else if (case rq_spendableTaz r of None \<Rightarrow> False | Some s \<Rightarrow> s < rq_lowTaz r)
         then row (''idle BELOW the '' @ low @ '' TAZ mark'') True
         else row (''idle, starts under '' @ low @ '' TAZ'') False)"

text \<open>reserveLow.ts.\<close>

definition reserve_low_visible :: "phase \<Rightarrow> reserve_view option \<Rightarrow> network \<Rightarrow> bool" where
  "reserve_low_visible phase reserve net =
     (if net \<noteq> Taz then False
      else if Option.bind reserve rw_refilling \<noteq> Some True then False
      else \<not> holding phase \<and> phase \<noteq> Ph_Empty \<and> phase \<noteq> Ph_Degraded)"

section \<open>Words and tones of the chips\<close>

definition ctaz_word :: "(bool option \<times> bool option) option \<Rightarrow> string" where
  "ctaz_word ctaz =
     (case ctaz of None \<Rightarrow> ''unknown''
      | Some (enabled, servable) \<Rightarrow>
          if enabled = Some False then ''parked''
          else if servable = Some True then ''unknown'' else ''parked'')"

definition sends_tone :: "string option \<Rightarrow> tone" where
  "sends_tone st = (if st = Some ''ok'' then Tone_Ok else if st = Some ''degraded'' then Tone_Warn else Tone_Unknown)"

definition box_tone :: "string option \<Rightarrow> tone" where
  "box_tone st = (if st = Some ''ok'' then Tone_Ok else if st = Some ''attention'' then Tone_Warn else Tone_Unknown)"

definition node_chip_tone :: "bool option \<Rightarrow> tone" where
  "node_chip_tone ready =
     (case ready of None \<Rightarrow> Tone_Unknown | Some r \<Rightarrow> if r then Tone_Ok else Tone_Warn)"

definition miner_word :: "miner_wire option \<Rightarrow> string option \<Rightarrow> string" where
  "miner_word m unit = miner_chip (public_miner_view (reading_from_status m)) unit"

definition miner_tone :: "miner_wire option \<Rightarrow> string option \<Rightarrow> tone" where
  "miner_tone m unit =
     (let r = public_miner_view (reading_from_status m) in
      if mv_state r = Cannot_Verify_Miner \<or> mv_state r = Not_Configured then Tone_Unknown
      else if miner_is_parked r unit then Tone_Unknown
      else if mv_state r = Running then Tone_Ok
      else if miner_is_bad r unit then Tone_Bad else Tone_Warn)"

text \<open>The counts of submitted blocks, each missing in an answer that does not carry it.\<close>

definition accept_percent :: "rat option \<Rightarrow> rat option \<Rightarrow> int option" where
  "accept_percent a r =
     (if a = None \<and> r = None then None
      else let whole = double_of (nullish a 0 + nullish r 0) in
        if whole = 0 then None
        else Some (math_round (double_of (double_of (nullish a 0 / whole) * 100))))"

definition accept_sentence :: "rat option \<Rightarrow> rat option \<Rightarrow> string" where
  "accept_sentence a r =
     (case (a, r) of
        (None, None) \<Rightarrow> ''whether any block was submitted is not known''
      | (None, Some n) \<Rightarrow> group_digits n @ '' refused, and the accepted count is not known''
      | (Some n, None) \<Rightarrow> group_digits n @ '' accepted, and the refused count is not known''
      | (Some n, Some k) \<Rightarrow>
          if n = 0 \<and> k = 0 then ''no blocks submitted yet''
          else group_digits n @ '' accepted, '' @ group_digits k @ '' refused'')"

definition backend_host :: "string option \<Rightarrow> string option" where
  "backend_host endpoint =
     (case endpoint of None \<Rightarrow> None
      | Some e \<Rightarrow>
          if e = [] then None
          else if starts_with e ''https://'' then Some (drop 8 e)
          else if starts_with e ''http://'' then Some (drop 7 e)
          else Some e)"

section \<open>The sentences of the miner\<close>

definition human_age :: "rat \<Rightarrow> string" where
  "human_age seconds =
     (if seconds < 90 then show_int (math_round seconds) @ ''s''
      else let m = math_round (double_of (seconds / 60)) in
        if m < 90 then show_int m @ '' min''
        else number_text (double_of (of_int (math_round (double_of (of_int m / 6))) / 10)) @ '' h'')"

text \<open>\<open>groupDigits\<close> of minerLabel.ts does not truncate first.\<close>

definition group_digits_raw :: "jnum \<Rightarrow> string" where
  "group_digits_raw n = put_commas False (jnum_text n)"

fun jnum_above :: "jnum \<Rightarrow> rat \<Rightarrow> bool" where
  "jnum_above (Fin x) y = (x > y)"
| "jnum_above Pos_Inf y = True"
| "jnum_above Neg_Inf y = False"

definition miner_wins :: "miner_view \<Rightarrow> string" where
  "miner_wins r =
     (case mv_solvedCount r of None \<Rightarrow> []
      | Some solved \<Rightarrow>
          if solved = Fin 0 then '', no blocks won yet''
          else let ago = (case mv_solvedAgoSeconds r of None \<Rightarrow> [] | Some a \<Rightarrow> '' '' @ human_age a @ '' ago'');
                   rejected = nullish (mv_submittedRejected r) (Fin 0);
                   blocks = jnum_text solved @ '' block'' @ (if solved = Fin 1 then [] else ''s'') @ '' won''
               in if jnum_above rejected 0
                  then '', '' @ blocks @ ago @ '', '' @ jnum_text rejected @ '' REJECTED''
                  else '', '' @ blocks @ ago)"

definition miner_row :: "miner_view \<Rightarrow> string option \<Rightarrow> string" where
  "miner_row r unit =
     (let at' = (case mv_lastTemplateHeight r of None \<Rightarrow> [] | Some h \<Rightarrow> '' at '' @ group_digits_raw h) in
      case mv_state r of
        Running \<Rightarrow>
          (if mv_mode r = Some Proposal then ''proposing only'' else ''mining'') @ '', ''
          @ (case mv_templateAgoSeconds r of None \<Rightarrow> ''template age unknown''
             | Some a \<Rightarrow> ''template '' @ human_age a @ '' ago'')
          @ miner_wins r
      | miner_state.Waiting \<Rightarrow>
          (let since' = (case mv_waitingAgoSeconds r of None \<Rightarrow> [] | Some a \<Rightarrow> '' for '' @ human_age a) in
           if mv_waitingReason r = Some ''no-peers'' then ''waiting, node has NO PEERS'' @ since'
           else ''waiting, ''
                @ (case mv_nodeLag r of None \<Rightarrow> ''node behind''
                   | Some l \<Rightarrow> ''node '' @ group_digits_raw (Fin l) @ '' blocks behind'')
                @ since')
      | Stalled \<Rightarrow>
          (case mv_templateAgoSeconds r of None \<Rightarrow> ''NO TEMPLATE since the miner started''
           | Some a \<Rightarrow> ''NO TEMPLATE in '' @ human_age a @ (if at' = [] then [] else '', last'' @ at'))
      | Not_Writing \<Rightarrow>
          (if miner_is_parked r unit then ''off, unit stopped''
           else if unit = Some ''failed'' then ''unit FAILED''
           else case mv_beatAgoSeconds r of None \<Rightarrow> ''NO HEARTBEAT''
           | Some a \<Rightarrow> ''NO HEARTBEAT '' @ human_age a)
      | Cannot_Verify_Miner \<Rightarrow> ''cannot read heartbeat''
      | Not_Configured \<Rightarrow> ''not watched, no heartbeat path'')"

definition MULTIPLICATION_SIGN :: string where "MULTIPLICATION_SIGN = [CHR 0xC3, CHR 0x97]"

definition miner_error_row :: "miner_view \<Rightarrow> string option \<Rightarrow> string option" where
  "miner_error_row r unit =
     (case mv_lastErrorStage r of None \<Rightarrow> None
      | Some stage \<Rightarrow>
          if stage = [] then None
          else if miner_is_parked r unit then None
          else let n = nullish (mv_consecutiveErrors r) (Fin 0) in
            if jnum_above n 1
            then Some (stage @ '' failed '' @ jnum_text n @ MULTIPLICATION_SIGN @ '' in a row'')
            else Some (stage @ '' failed once''))"

section \<open>Income, proof of work, feedback\<close>

record income_facts =
  if_minerActive :: bool
  if_accepted :: "rat option"
  if_shieldCoinbase :: bool
  if_harvestFailing :: bool

definition blocks_text :: "rat \<Rightarrow> string" where
  "blocks_text n = locale_text n @ '' block'' @ (if n = 1 then [] else ''s'')"

definition BY_HAND :: string where "BY_HAND = ''so what it hands out is donated or topped up by hand.''"

definition income_sentence :: "income_facts \<Rightarrow> string" where
  "income_sentence f =
     (let won = (case if_accepted f of None \<Rightarrow> []
                 | Some n \<Rightarrow> '', and its node has accepted '' @ blocks_text n @ '' from it so far'')
      in if \<not> if_minerActive f then ''The faucet is not mining right now, '' @ BY_HAND
         else if if_accepted f = Some 0
         then ''The faucet mines, but its node has not accepted a block from it yet, '' @ BY_HAND
         else if \<not> if_shieldCoinbase f
         then ''The faucet mines testnet blocks'' @ won
              @ '', but it is not shielding what it wins into its reserve right now, '' @ BY_HAND
         else if if_harvestFailing f
         then ''The faucet mines testnet blocks'' @ won
              @ '', and is set up to shield what it wins into its own reserve, but that step is failing right now, ''
              @ BY_HAND
         else ''The faucet mines testnet blocks and shields what it wins into its own reserve''
              @ (case if_accepted f of None \<Rightarrow> []
                 | Some n \<Rightarrow> '' (its node has accepted '' @ blocks_text n
                            @ '' from it so far, not all of which stay on the network)'')
              @ ''.'')"

definition POW_MIN_SAMPLE :: rat where "POW_MIN_SAMPLE = 8192"

text \<open>A quotient of a positive number, which may leave the range of a double.\<close>

fun over :: "jnum \<Rightarrow> rat \<Rightarrow> jnum" where
  "over (Fin x) y = (case js_finite (double_of (x / y)) of Some r \<Rightarrow> Fin r | None \<Rightarrow> Pos_Inf)"
| "over _ y = Pos_Inf"

definition pow_estimate_seconds :: "int \<Rightarrow> rat \<Rightarrow> rat \<Rightarrow> jnum option" where
  "pow_estimate_seconds difficulty hashes ms =
     (if \<not> hashes \<ge> POW_MIN_SAMPLE \<or> \<not> ms > 0 \<or> \<not> difficulty \<ge> 0 then None
      else let perMs = double_of (hashes / ms);
               work = (if difficulty < 1024 then Fin (2 ^ nat difficulty) else Pos_Inf)
           in Some (over (over work perMs) 1000))"

definition pow_estimate_text :: "jnum option \<Rightarrow> string" where
  "pow_estimate_text seconds =
     (case seconds of None \<Rightarrow> ''measuring''
      | Some (Fin s) \<Rightarrow>
          if s < 1 then ''under a second''
          else if s < 10 then ''about '' @ show_int (math_round s) @ '' s''
          else if s < 115 / 2 then ''about '' @ show_int (math_round (double_of (s / 5)) * 5) @ '' s''
          else ''about '' @ number_text (of_int (max 1 (math_round (double_of (s / 60))))) @ '' min''
      | Some Pos_Inf \<Rightarrow> ''about Infinity min''
      | Some Neg_Inf \<Rightarrow> ''under a second'')"

definition QUEUED_SENTENCE :: string where
  "QUEUED_SENTENCE = ''Received. It is queued for the operator and has not been delivered yet.''"
definition OFFLINE_SENTENCE :: string where
  "OFFLINE_SENTENCE = ''The faucet could not be reached. Your message is still here - try again in a moment.''"

definition feedback_sentence :: "jval option \<Rightarrow> jval option \<Rightarrow> rat \<Rightarrow> string" where
  "feedback_sentence kind maxBody fallbackMax =
     (if kind = Some (Jv_Text ''empty'') then ''There was nothing in the message - write something first.''
      else if kind = Some (Jv_Text ''too-long'')
      then let n = (case finite_number maxBody of Some m \<Rightarrow> if m > 0 then m else fallbackMax | None \<Rightarrow> fallbackMax)
           in ''That is longer than this form takes ('' @ locale_text n @ '' characters). Shorten it and try again.''
      else if kind = Some (Jv_Text ''rate'')
      then ''That is the limit for one day. Your message was not stored - try again tomorrow.''
      else if kind = Some (Jv_Text ''ledger'')
      then ''The faucet could not store it. Your message is still here - try again in a moment.''
      else ''That did not go through. Your message is still here - try again in a moment.'')"

section \<open>network.ts\<close>

record network_facts =
  nf_ticker :: string
  nf_tab :: string
  nf_chain :: string
  nf_beta :: "string option"
  nf_noTxidReason :: string

fun network_facts_of :: "network \<Rightarrow> network_facts" where
  "network_facts_of Taz =
     \<lparr>nf_ticker = ''TAZ'', nf_tab = ''TAZ'', nf_chain = ''Zcash testnet'', nf_beta = None,
      nf_noTxidReason = ''This drip should have had a transaction id and does not. That is a fault on our side, not a property of the network.''\<rparr>"
| "network_facts_of Ctaz =
     \<lparr>nf_ticker = ''cTAZ'', nf_tab = ''cTAZ'', nf_chain = ''Crosslink feature net'',
      nf_beta = Some ''feature net, beta'',
      nf_noTxidReason = ''This network's faucet returns the amount it paid and no transaction id, so there is nothing to copy and nothing to look up in an explorer.''\<rparr>"

definition format_amount :: "int \<Rightarrow> network \<Rightarrow> string" where
  "format_amount zat n =
     (let whole = zat div 100000000;
          frac = strip_trailing_zeros (pad_start 8 (show_int (zat mod 100000000)))
      in show_int whole @ (if frac = [] then [] else ''.'' @ frac) @ '' '' @ nf_ticker (network_facts_of n))"

section \<open>Facts\<close>

text \<open>The value a percentage text denotes.\<close>

definition percent_value :: "string \<Rightarrow> rat option" where
  "percent_value s = (if ends_with s ''%'' then mantissa_value (butlast s) else None)"

lemma percent_value_snoc [simp]: "percent_value (t @ ''%'') = mantissa_value t"
  by (simp add: percent_value_def ends_with_def butlast_append)

lemma literals_below: "lit_9999 < 9999 / 100 + 1 / 10 ^ 4" "9998 / 100 < lit_9999" "lit_999 < 999 / 10 + 1 / 10 ^ 4"
proof -
  have near: "\<bar>double_of x - x\<bar> < 1 / 10 ^ 4" if "1 \<le> x" "x \<le> 100" for x
  proof -
    have "\<bar>double_of x - x\<bar> \<le> x / 2 ^ 53" using that(1) by (intro double_error) simp
    also have "\<dots> < 1 / 10 ^ 4" using that(2) by simp
    finally show ?thesis .
  qed
  show "lit_9999 < 9999 / 100 + 1 / 10 ^ 4" "9998 / 100 < lit_9999"
    using near [of "9999 / 100"] unfolding lit_9999_def abs_less_iff by simp_all
  show "lit_999 < 999 / 10 + 1 / 10 ^ 4"
    using near [of "999 / 10"] unfolding lit_999_def abs_less_iff by simp
qed

lemma lit_near: "9998995 / 100000 < lit_9999" "9989 / 100 < lit_999"
proof -
  have "\<bar>lit_9999 - 9999 / 100\<bar> \<le> 9999 / 100 / 2 ^ 53" unfolding lit_9999_def by (rule double_error) simp
  also have "(9999 / 100 / 2 ^ 53 :: rat) < 1 / 10 ^ 6" by simp
  finally show "9998995 / 100000 < lit_9999" unfolding abs_less_iff by simp
  have "\<bar>lit_999 - 999 / 10\<bar> \<le> 999 / 10 / 2 ^ 53" unfolding lit_999_def by (rule double_error) simp
  also have "(999 / 10 / 2 ^ 53 :: rat) < 1 / 10 ^ 6" by simp
  finally show "9989 / 100 < lit_999" unfolding abs_less_iff by simp
qed

lemma fixed_at_most:
  assumes "0 \<le> x" and "x < 10 ^ 21" and "0 < f" and "x * 10 ^ f + 1 / 2 < of_int b + 1"
  shows "\<exists>v. mantissa_value (to_fixed f x) = Some v \<and> v \<le> of_int b / 10 ^ f"
proof -
  have "\<lfloor>x * 10 ^ f + 1 / 2\<rfloor> \<le> b" using assms(4) by (simp add: floor_le_iff)
  then have "of_int \<lfloor>x * 10 ^ f + 1 / 2\<rfloor> / 10 ^ f \<le> (of_int b :: rat) / 10 ^ f"
    by (intro divide_right_mono) auto
  with to_fixed_value [OF assms(1-3)] show ?thesis by blast
qed

lemma double_of_nonneg: "0 \<le> x \<Longrightarrow> 0 \<le> double_of x"
proof -
  assume x: "0 \<le> x"
  have "0 \<le> round_even y" if "0 \<le> y" for y
    using that by (simp add: round_even_def Let_def)
  with x show "0 \<le> double_of x" by (simp add: double_of_def Let_def)
qed

lemma sync_figure_below:
  assumes "0 \<le> p"
  shows "\<exists>s v. sync_figure (Some p) False = Some s \<and> percent_value s = Some v \<and> v \<le> 9999 / 100"
proof -
  define m where "m = min (double_of (of_int \<lfloor>double_of (p * 100)\<rfloor> / 100)) lit_9999"
  have "0 \<le> \<lfloor>double_of (p * 100)\<rfloor>" using assms by (simp add: double_of_nonneg)
  then have "0 \<le> m" unfolding m_def using literals_below(2) by (simp add: double_of_nonneg)
  moreover have "m \<le> lit_9999" by (simp add: m_def)
  ultimately have "\<exists>v. mantissa_value (to_fixed 2 m) = Some v \<and> v \<le> of_int 9999 / 10 ^ 2"
    using literals_below(1) by (intro fixed_at_most) simp_all
  then show ?thesis by (simp add: sync_figure_def Let_def m_def)
qed

lemma digits_mantissa: "mantissa_value (show_nat n) = Some (of_nat n)"
proof -
  have "split_on (CHR ''.'') (show_nat n) = [show_nat n]" by (intro split_on_word no_dot_digits)
  then show ?thesis using show_nat_is_digits [of n] by (simp add: mantissa_value_def digits_value_show_nat)
qed

lemma sync_label_below:
  assumes "0 \<le> p"
  shows "\<exists>s v. sync_label (Some p) False = Some s \<and> percent_value s = Some v \<and> v \<le> 9999 / 100"
proof -
  define m where "m = min p lit_9999"
  have m: "0 \<le> m" "m \<le> lit_9999" using assms literals_below(2) by (simp_all add: m_def)
  consider (two) "lit_999 \<le> m" | (one) "99 \<le> m" "m < lit_999" | (whole) "m < 99" "m < lit_999"
    using less_le_not_le linear by fastforce
  then show ?thesis
  proof cases
    case two
    have "\<exists>v. mantissa_value (to_fixed 2 m) = Some v \<and> v \<le> of_int 9999 / 10 ^ 2"
      using literals_below(1) m by (intro fixed_at_most) simp_all
    then show ?thesis using two by (simp add: sync_label_def Let_def m_def)
  next
    case one
    then have "\<exists>v. mantissa_value (to_fixed 1 m) = Some v \<and> v \<le> of_int 999 / 10 ^ 1"
      using literals_below(3) m by (intro fixed_at_most) simp_all
    then obtain v where "mantissa_value (to_fixed 1 m) = Some v" "v \<le> 9999 / 100" by force
    then show ?thesis using one by (simp add: sync_label_def Let_def m_def [symmetric])
  next
    case whole
    have "show_int \<lfloor>m\<rfloor> = show_nat (nat \<lfloor>m\<rfloor>)" using m by (simp add: show_int_nat)
    moreover have "of_nat (nat \<lfloor>m\<rfloor>) \<le> m" using m by (simp add: of_nat_nat)
    ultimately show ?thesis using whole by (simp add: sync_label_def Let_def m_def [symmetric] digits_mantissa)
  qed
qed

text \<open>
  The page never reads full for a node that has not declared itself ready. Whatever percentage it is
  given, the figure and the label of an unready node denote at most 99.99, the bar's width at most 99.5
  per cent, in both of the places the bar is drawn, although the figure passes through rounded doubles
  and \<open>toFixed\<close>.
\<close>

theorem unready_sync_never_reads_full:
  assumes "0 \<le> p"
  shows "\<exists>figure label width f l w.
    sync_figure (Some p) False = Some figure \<and> percent_value figure = Some f \<and> f \<le> 9999 / 100
    \<and> sync_label (Some p) False = Some label \<and> percent_value label = Some l \<and> l \<le> 9999 / 100
    \<and> sync_bar_width (Some p) False = width \<and> percent_value width = Some w \<and> w \<le> 199 / 2
    \<and> sync_bar_percent (Some p) False \<le> 199 / 2"
proof -
  have "\<exists>v. mantissa_value (to_fixed 1 (min p lit_995)) = Some v \<and> v \<le> of_int 995 / 10 ^ 1"
    using assms by (intro fixed_at_most) (simp_all add: lit_995_def min_def)
  then obtain v where v: "mantissa_value (to_fixed 1 (min p lit_995)) = Some v" "v \<le> 199 / 2" by force
  have "sync_bar_percent (Some p) False \<le> 199 / 2" by (simp add: sync_bar_percent_def lit_995_def)
  moreover have "percent_value (sync_bar_width (Some p) False) = Some v" using v by (simp add: sync_bar_width_def)
  ultimately show ?thesis using sync_figure_below [OF assms] sync_label_below [OF assms] v(2) by blast
qed

theorem unready_sync_never_reads_full_witness:
  "\<exists>figure label width f l w.
    sync_figure (Some 100) False = Some figure \<and> percent_value figure = Some f \<and> f \<le> 9999 / 100
    \<and> sync_label (Some 100) False = Some label \<and> percent_value label = Some l \<and> l \<le> 9999 / 100
    \<and> sync_bar_width (Some 100) False = width \<and> percent_value width = Some w \<and> w \<le> 199 / 2
    \<and> sync_bar_percent (Some 100) False \<le> 199 / 2"
  by (rule unready_sync_never_reads_full) simp

section \<open>The miner in words\<close>

text \<open>A miner observed at work, on the heartbeat file itself.\<close>

definition miner_observed :: "(string \<Rightarrow> int option) \<Rightarrow> string \<Rightarrow> jval option \<Rightarrow> int \<Rightarrow> bool" where
  "miner_observed dp path file now =
     (path \<noteq> [] \<and> (\<exists>h stale tstale w t. file = Some h \<and> is_object h \<and> field h ''schema'' = Some (Jv_Num (Fin 1))
        \<and> field h ''staleAfterSeconds'' = Some (Jv_Num (Fin stale))
        \<and> field h ''templateStaleAfterSeconds'' = Some (Jv_Num (Fin tstale))
        \<and> stamped dp h ''writtenAt'' now w \<and> of_int (now - w) \<le> 1000 * stale
        \<and> stamped dp h ''lastTemplateAt'' now t \<and> of_int (now - t) \<le> 1000 * tstale \<and> 0 < tstale \<and> 0 < stale
        \<and> \<not> ((\<exists>s. stamped dp h ''waitingSince'' now s) \<and> field h ''consecutiveErrors'' = Some (Jv_Num (Fin 0)))))"

lemma observed_iff_running: "mv_state (read_miner_heartbeat dp path file now) = Running \<longleftrightarrow> miner_observed dp path file now"
  using running_is_observed [of dp path "file" "now"] by (simp add: is_active_def miner_observed_def)

lemma wire_view: "public_miner_view (reading_from_status (Some (public_wire r))) = public_miner_view r"
  using public_miner_roundtrip [of r no_operator undefined] by (simp add: public_miner_view_def miner_view.defs)

lemma view_state [simp]: "mv_state (public_miner_view r) = mv_state r"
  by (simp add: public_miner_view_def miner_view.defs)

definition alarming_row :: "string \<Rightarrow> bool" where
  "alarming_row s =
     (starts_with s ''NO TEMPLATE'' \<or> starts_with s ''NO HEARTBEAT'' \<or> s = ''unit FAILED'')"

definition lonely_row :: "miner_view \<Rightarrow> string \<Rightarrow> bool" where
  "lonely_row v s = (starts_with s ''waiting, node has NO PEERS'' \<and> nullish (mv_waitingAgoSeconds v) 0 \<ge> 120)"

lemma tone_ok_iff: "miner_tone m unit = Tone_Ok \<longleftrightarrow> mv_state (public_miner_view (reading_from_status m)) = Running"
  by (auto simp: miner_tone_def Let_def miner_is_parked_def)

lemma working_words: "miner_chip v unit \<in> {''mining'', ''proposing''} \<longleftrightarrow> mv_state v = Running"
  by (cases "mv_state v") (auto simp: miner_chip_def)

lemma working_rows:
  "(starts_with (miner_row v unit) ''mining, '' \<or> starts_with (miner_row v unit) ''proposing only, '')
     \<longleftrightarrow> mv_state v = Running"
  by (cases "mv_state v") (auto simp: miner_row_def Let_def split: option.splits)

lemma no_letter_h:
  "CHR ''h'' \<notin> set (show_int i)" "CHR ''h'' \<notin> set (positive_text x)" "CHR ''h'' \<notin> set (number_text x)"
proof -
  show i: "CHR ''h'' \<notin> set (show_int j)" for j
    using show_nat_is_digits [of "nat j"] show_nat_is_digits [of "nat (- j)"]
    by (auto simp: show_int_def list_all_iff is_digit_def less_eq_char_def)
  have "CHR ''h'' \<notin> set (fst (shortest_digits y))" for y
    using i by (auto simp: shortest_digits_def Let_def split: prod.splits)
  then show p: "CHR ''h'' \<notin> set (positive_text y)" for y
    using i by (auto simp: positive_text_def Let_def split: prod.splits dest: in_set_takeD in_set_dropD)
      (metis fst_conv in_set_takeD in_set_dropD)+
  show "CHR ''h'' \<notin> set (number_text x)" using i p by (simp add: number_text_def)
qed

lemma commas_no_h: "CHR ''h'' \<notin> set s \<Longrightarrow> CHR ''h'' \<notin> set (put_commas w s)"
  by (induction s arbitrary: w) auto

lemma lag_not_peers: "\<not> starts_with (group_digits_raw (Fin l) @ CHR '' '' # s) (CHR ''h'' # t)"
proof -
  have "CHR ''h'' \<notin> set (group_digits_raw (Fin l))"
    unfolding group_digits_raw_def jnum_text.simps by (intro commas_no_h no_letter_h)
  then show ?thesis by (cases "group_digits_raw (Fin l)") auto
qed

lemma bad_rows:
  assumes "mv_state v \<noteq> Cannot_Verify_Miner" and "mv_state v \<noteq> Not_Configured"
  shows "(alarming_row (miner_row v unit) \<or> lonely_row v (miner_row v unit)) \<longleftrightarrow> miner_is_bad v unit"
  using assms
  by (cases "mv_state v")
    (auto simp: miner_row_def Let_def alarming_row_def lonely_row_def miner_is_bad_def miner_is_parked_def lag_not_peers split: option.splits)

text \<open>
  What the page says of the miner is what the heartbeat shows. For every file the miner may leave,
  read at any moment and sent through the public answer, the chip is green, its word mining or
  proposing, and the row begins with that word, exactly when the file is a well-formed heartbeat written
  and fed with a template within its own limits by a miner that is not waiting; and the chip is red
  exactly when the row raises an alarm: no template, no heartbeat, a failed unit, or two minutes
  without a peer.
\<close>

theorem miner_words_follow_the_heartbeat:
  "let r = read_miner_heartbeat dp path file now; m = Some (public_wire r);
       row = miner_row (public_miner_view r) unit
   in (miner_tone m unit = Tone_Ok) = miner_observed dp path file now
      \<and> (miner_word m unit \<in> {''mining'', ''proposing''}) = miner_observed dp path file now
      \<and> (starts_with row ''mining, '' \<or> starts_with row ''proposing only, '') = miner_observed dp path file now
      \<and> (miner_tone m unit = Tone_Bad) = (alarming_row row \<or> lonely_row (public_miner_view r) row)"
proof -
  define r where "r = read_miner_heartbeat dp path file now"
  define m where "m = Some (public_wire r)"
  define row where "row = miner_row (public_miner_view r) unit"
  let ?v = "public_miner_view r"
  have st: "mv_state ?v = Running \<longleftrightarrow> miner_observed dp path file now"
    unfolding r_def using observed_iff_running by simp
  have w: "public_miner_view (reading_from_status m) = ?v" unfolding m_def by (rule wire_view)
  have "(miner_tone m unit = Tone_Bad) = (alarming_row row \<or> lonely_row ?v row)"
  proof (cases "mv_state ?v = Cannot_Verify_Miner \<or> mv_state ?v = Not_Configured")
    case True
    then show ?thesis
      by (auto simp: miner_tone_def w Let_def row_def miner_row_def alarming_row_def lonely_row_def)
  next
    case False
    then have "(alarming_row row \<or> lonely_row ?v row) \<longleftrightarrow> miner_is_bad ?v unit" unfolding row_def by (intro bad_rows) auto
    then show ?thesis using False by (auto simp: miner_tone_def w Let_def miner_is_bad_def miner_is_parked_def)
  qed
  then show ?thesis
    using tone_ok_iff [of m unit] working_words [of ?v unit] working_rows [of ?v unit]
    unfolding w st miner_word_def row_def Let_def r_def [symmetric] m_def [symmetric] by blast
qed

section \<open>Amounts and the reserve\<close>

text \<open>
  The estimate of remaining drips is the quotient to the nearest hundred. For a balance worth between
  a hundred-thousandth of a drip and a million million of them, the count is a multiple of a hundred within fifty
  and one of the exact quotient, although three roundings of doubles lie between them.
\<close>

theorem drips_left_is_near:
  assumes "0 < d" and "1 / 10 ^ 5 \<le> s / d" and "s / d \<le> 10 ^ 12"
  shows "\<exists>n. drips_left (Some s) d = Some n \<and> n mod 100 = 0 \<and> \<bar>of_int n - s / d\<bar> \<le> 51"
proof -
  define q where "q = s / d"
  have r: "1 / 10 ^ 5 \<le> q" "q \<le> 10 ^ 12" using assms(2,3) by (simp_all only: q_def)
  define a where "a = double_of q"
  define b where "b = double_of (a / 100)"
  have "\<bar>a - q\<bar> \<le> q / 2 ^ 53" unfolding a_def using r(1) by (intro double_error) simp
  also have "\<dots> \<le> q / 10 ^ 15" using r(1) by (intro divide_left_mono) simp_all
  finally have e1: "\<bar>a - q\<bar> \<le> q / 10 ^ 15" .
  have q: "q / 10 ^ 15 \<le> 1 / 10 ^ 3" "q / 10 ^ 15 \<le> q / 2" using r by simp_all
  have a: "1 / (2 * 10 ^ 5) \<le> a" "a \<le> 2 * 10 ^ 12" "\<bar>a - q\<bar> \<le> 1 / 10 ^ 3"
    using e1 q r unfolding abs_le_iff by linarith+
  have "\<bar>b - a / 100\<bar> \<le> a / 100 / 2 ^ 53" unfolding b_def using a(1) by (intro double_error) simp
  also have "\<dots> \<le> 1 / 10 ^ 3" using a(2) by simp
  finally have e2: "\<bar>b - a / 100\<bar> \<le> 1 / 10 ^ 3" .
  define k where "k = math_round b"
  have "\<bar>of_int k - b\<bar> \<le> 1 / 2" unfolding k_def math_round_def abs_le_iff by linarith
  moreover have "\<bar>a - q\<bar> \<le> 1 / 1000" "\<bar>b - a / 100\<bar> \<le> 1 / 1000" using a(3) e2 by simp_all
  ultimately have "\<bar>of_int k * 100 - q\<bar> \<le> 51" by linarith
  moreover have "drips_left (Some s) d = Some (k * 100)" using assms(1) by (simp add: drips_left_def k_def b_def a_def q_def)
  ultimately show ?thesis unfolding q_def by simp
qed

theorem drips_left_is_near_witness:
  "\<exists>n. drips_left (Some 4000) (1 / 10) = Some n \<and> n mod 100 = 0 \<and> \<bar>of_int n - 4000 / (1 / 10 :: rat)\<bar> \<le> 51"
  by (rule drips_left_is_near) simp_all

text \<open>
  The panel raises its mark exactly when its words do. The refill row is marked when and only when a
  step of the running refill or harvest is failing, or the loop is idle below the low mark, and those are
  the rows that say FAILING or BELOW; a wallet that waits for coinbase or scans again after a reorg is
  never marked, and no balance that could not be read is shown as a number.
\<close>

theorem reserve_mark_matches_words:
  "let rows = reserve_rows_of r in
   (rr_refillBad rows =
      (if rq_refilling r \<or> rq_harvesting r then stuck_on r = Some Step_Error
       else case rq_spendableTaz r of None \<Rightarrow> False | Some s \<Rightarrow> s < rq_lowTaz r))
   \<and> (rr_refillBad rows =
      (starts_with (rr_refill rows) ''refill FAILING'' \<or> starts_with (rr_refill rows) ''harvest FAILING''
       \<or> starts_with (rr_refill rows) ''idle BELOW''))
   \<and> (rq_spendableTaz r = None) = (rr_reserve rows = ''unknown'')"
proof -
  have "to_fixed 1 s @ '' TAZ'' \<noteq> ''unknown''" for s
  proof
    assume "to_fixed 1 s @ '' TAZ'' = ''unknown''"
    then have "last (to_fixed 1 s @ '' TAZ'') = last ''unknown''" by (rule arg_cong)
    then show False by simp
  qed
  then show ?thesis
    by (auto simp: reserve_rows_of_def Let_def failing_text_def split: option.splits failure_kind.splits)
qed

text \<open>
  An amount on the page is exact: before the ticker stands the decimal literal a payment would be
  asked for with, which denotes the zatoshi digit by digit.
\<close>

theorem shown_amount_is_exact:
  assumes "0 \<le> zat"
  shows "\<exists>t. format_amount zat n = t @ '' '' @ nf_ticker (network_facts_of n)
    \<and> t = zat_to_zec_literal zat \<and> literal_zat t = zat"
  using literal_roundtrip [OF assms]
  by (auto simp: format_amount_def zat_to_zec_literal_def ZATOSHI_PER_TAZ_def Let_def)

theorem shown_amount_is_exact_witness:
  "\<exists>t. format_amount 50000000 Ctaz = t @ '' '' @ nf_ticker (network_facts_of Ctaz)
    \<and> t = zat_to_zec_literal 50000000 \<and> literal_zat t = 50000000"
  by (rule shown_amount_is_exact) simp

end
