(* ===== verification/Page_Claim.thy ===== *)
theory Page_Claim
  imports Status_View Routes Claim_Safety "HOL-Library.AList"
begin

text \<open>
  The claim form of the page (app/page.tsx): the check of the address before any work, the receipts the
  browser keeps, what a claim's answer puts on the screen, and the claim held while the faucet is not
  ready. The effects of React are run as the code declares them, in its order, after every change of the
  state; drawing, the clipboard and the worker that solves the proof are not modelled. A string is its
  bytes in UTF-8, so the middle dot and the ellipsis are written out.
\<close>

section \<open>The address field\<close>

definition SHIELDED_DOT :: "string \<Rightarrow> string \<Rightarrow> string" where
  "SHIELDED_DOT kind priv = kind @ MIDDLE_DOT @ priv"

datatype detected = Nothing_Typed | Testnet_Address string bool nat | Mainnet_Address | Unknown_Address

definition detect :: "string \<Rightarrow> detected" where
  "detect raw =
     (let a = trim raw; l = to_lower a in
      if a = [] then Nothing_Typed
      else if starts_with l ''utest1'' then Testnet_Address (SHIELDED_DOT ''Unified'' ''shielded'') True 40
      else if starts_with l ''ztestsapling'' then Testnet_Address (SHIELDED_DOT ''Sapling'' ''shielded'') True 60
      else if starts_with l ''tm'' \<or> starts_with l ''t2''
      then Testnet_Address (SHIELDED_DOT ''Transparent'' ''public'') False 34
      else if starts_with l ''u1'' \<or> starts_with l ''zs1'' \<or> starts_with l ''t1'' \<or> starts_with l ''t3''
      then Mainnet_Address
      else Unknown_Address)"

record address_check =
  ac_ok :: bool
  ac_err :: "string option"
  ac_label :: "string option"
  ac_priv :: "bool option"

definition page_check :: "decoders \<Rightarrow> string \<Rightarrow> address_check" where
  "page_check dec addr =
     (let a = trim addr;
          bare = (\<lambda>err. \<lparr>ac_ok = False, ac_err = err, ac_label = None, ac_priv = None\<rparr>)
      in case detect a of
           Nothing_Typed \<Rightarrow> bare None
         | Mainnet_Address \<Rightarrow> bare (Some
             ''That's a mainnet address. This faucet only sends testnet TAZ. Testnet addresses start with utest1, ztestsapling or tm.'')
         | Unknown_Address \<Rightarrow> bare (Some
             ''Not a Zcash testnet address. It should start with utest1 (unified), ztestsapling (Sapling) or tm (transparent).'')
         | Testnet_Address label priv least \<Rightarrow>
             (let with = (\<lambda>ok err. \<lparr>ac_ok = ok, ac_err = err, ac_label = Some label, ac_priv = Some priv\<rparr>) in
              if length a < least
              then with False (Some (''That address looks cut short: '' @ show_int (int (length a)) @ '' of about ''
                     @ show_int (int least) @ '' characters.''))
              else (case validate_testnet_address dec a of
                      Inl why \<Rightarrow> with False (Some (reason_text why))
                    | Inr info \<Rightarrow> with True None)))"

definition shorten :: "string \<Rightarrow> nat \<Rightarrow> nat \<Rightarrow> string" where
  "shorten a h t = (if length a \<le> h + t + 1 then a
      else take h a @ ellipsis @ (if t = 0 then a else drop (length a - t) a))"

definition duration_text :: "int \<Rightarrow> string" where
  "duration_text ms =
     (if ms \<le> 0 then ''a moment''
      else let h = ms div 3600000; m = ms mod 3600000 div 60000; s = ms mod 60000 div 1000
           in if h > 0 then show_int h @ ''h '' @ show_int m @ ''m''
              else if m > 0 then show_int m @ ''m '' @ show_int s @ ''s''
              else show_int s @ ''s'')"

section \<open>The receipts of this browser\<close>

definition RECEIPTS_MAX :: nat where "RECEIPTS_MAX = 8"

record page_receipt =
  pr_txid :: "string option"
  pr_explorerUrl :: "string option"
  pr_at :: int
  pr_network :: network
  pr_amountText :: string

text \<open>The stored object is the list of its entries in order; a store that cannot be read is \<open>None\<close>.\<close>

type_synonym receipts = "(string \<times> page_receipt) list"

definition receipt_key :: "network \<Rightarrow> string \<Rightarrow> string" where
  "receipt_key net address = network_name net @ '':'' @ to_lower (trim address)"

definition read_receipts :: "int \<Rightarrow> int \<Rightarrow> receipts option \<Rightarrow> receipts" where
  "read_receipts now ttlMs stored =
     (case stored of None \<Rightarrow> [] | Some es \<Rightarrow> filter (\<lambda>(k, r). pr_at r \<ge> now - ttlMs) es)"

text \<open>\<open>Object.fromEntries\<close>: a repeated key keeps its first place and its last value.\<close>

definition object_of_entries :: "receipts \<Rightarrow> receipts" where
  "object_of_entries es = foldl (\<lambda>o' (k, v). AList.update k v o') [] es"

text \<open>\<open>writable\<close> is whether the browser takes the write.\<close>

definition remember_receipt ::
  "bool \<Rightarrow> int \<Rightarrow> network \<Rightarrow> string \<Rightarrow> page_receipt \<Rightarrow> int \<Rightarrow> receipts option \<Rightarrow> receipts option" where
  "remember_receipt writable now net address r ttlMs stored =
     (if \<not> writable then stored
      else let kept = read_receipts now ttlMs stored @ [(receipt_key net address, r)]
           in Some (object_of_entries (drop (length kept - RECEIPTS_MAX) kept)))"

section \<open>What an answer shows\<close>

text \<open>The fields of a reply the page reads, \<open>None\<close> where missing; \<open>rp_ok\<close> is \<open>data.ok\<close> read as a truth value.\<close>

record claim_reply =
  rp_status :: int
  rp_ok :: bool
  rp_error :: "string option"
  rp_kind :: "string option"
  rp_scope :: "string option"
  rp_retryAfterSeconds :: "rat option"
  rp_nextAt :: "string option"
  rp_requestId :: "string option"
  rp_txid :: "string option"
  rp_explorerUrl :: "string option"
  rp_network :: "string option"
  rp_paidZat :: "string option"

datatype fail_kind = Fk_Failed | Fk_Pow | Fk_Offline | Fk_Held | Fk_Busy | Fk_Cap | Fk_Unknown | Fk_Bad
datatype refused_kind = Rk_Address | Rk_Connection | Rk_Subnet

record shown_tx =
  tx_txid :: "string option"
  tx_to :: string
  tx_priv :: bool
  tx_explorerUrl :: "string option"
  tx_at :: int
  tx_network :: network
  tx_amountText :: string

datatype shown =
  Show_Receipt shown_tx
| Show_Cooldown refused_kind string "rat option" rat "page_receipt option"
| Show_Empty
| Show_Degraded
| Show_Error fail_kind "rat option" "string option" "string option" string

record page_view =
  pv_now :: int
  pv_address :: string
  pv_network :: network
  pv_cooldownSeconds :: "int option"
  pv_dripText :: string
  pv_receipts :: "receipts option"
  pv_writable :: bool
  pv_retries :: nat

definition cooldown_ms :: "page_view \<Rightarrow> int" where
  "cooldown_ms v = nullish (pv_cooldownSeconds v) 86400 * 1000"

definition reply_network :: "claim_reply \<Rightarrow> network" where
  "reply_network d = (if rp_network d = Some ''ctaz'' then Ctaz else Taz)"

text \<open>\<open>BigInt(text)\<close> of the decimal digits the server writes; any other text is taken to throw.\<close>

definition big_int :: "string \<Rightarrow> int option" where
  "big_int s = (if digits s then Some (digits_value s) else None)"

definition amount_text :: "page_view \<Rightarrow> claim_reply \<Rightarrow> string option" where
  "amount_text v d =
     (if truthy (rp_paidZat d)
      then map_option (\<lambda>z. format_amount z (reply_network d)) (big_int (the (rp_paidZat d)))
      else Some (pv_dripText v))"

fun contains :: "string \<Rightarrow> string \<Rightarrow> bool" where
  "contains [] p = (p = [])"
| "contains (c # s) p = (starts_with (c # s) p \<or> contains s p)"

definition retries_exhausted_note :: "nat \<Rightarrow> string" where
  "retries_exhausted_note n =
     (if n = 0 then [] else if n = 1 then '' We already tried again once.''
      else '' We already tried again '' @ show_int (int n) @ '' times.'')"

definition NO_SENTENCE :: string where
  "NO_SENTENCE = ''The send didn't go through. Nothing left the wallet.''"

definition OFFLINE_CLAIM :: string where
  "OFFLINE_CLAIM = ''Couldn't reach the faucet. Check your connection and try again.''"

text \<open>The refusals in the \<open>else\<close> branch, sorted by what is true of them.\<close>

definition fail_kind_of :: "claim_reply \<Rightarrow> rat option \<Rightarrow> fail_kind" where
  "fail_kind_of d retryAt =
     (if rp_status d = 504 then Fk_Unknown
      else if rp_status d = 503 \<and> rp_kind d = Some ''cap'' then Fk_Cap
      else if rp_status d = 503 \<and> rp_kind d = Some ''busy'' then Fk_Busy
      else if rp_status d = 503 \<and> retryAt \<noteq> None then Fk_Held
      else if rp_status d = 403 then Fk_Pow
      else if rp_status d = 400 then Fk_Bad
      else Fk_Failed)"

definition next_at_ms :: "(string \<Rightarrow> int option) \<Rightarrow> claim_reply \<Rightarrow> rat option" where
  "next_at_ms date_parse d =
     (if truthy (rp_nextAt d) then map_option of_int (date_parse (the (rp_nextAt d))) else None)"

definition show_reply :: "(string \<Rightarrow> int option) \<Rightarrow> page_view \<Rightarrow> claim_reply \<Rightarrow> shown \<times> receipts option" where
  "show_reply date_parse v d =
     (let now = of_int (pv_now v) :: rat; stored = pv_receipts v; nextAt = next_at_ms date_parse d in
      if 200 \<le> rp_status d \<and> rp_status d \<le> 299 \<and> rp_ok d
      then (case amount_text v d of
              None \<Rightarrow> (Show_Error Fk_Offline None None None OFFLINE_CLAIM, stored)
            | Some amount \<Rightarrow>
                (Show_Receipt \<lparr>tx_txid = rp_txid d, tx_to = pv_address v,
                   tx_priv = (case detect (pv_address v) of Testnet_Address l p n \<Rightarrow> p | _ \<Rightarrow> True),
                   tx_explorerUrl = rp_explorerUrl d, tx_at = pv_now v, tx_network = reply_network d,
                   tx_amountText = amount\<rparr>,
                 remember_receipt (pv_writable v) (pv_now v) (reply_network d) (pv_address v)
                   \<lparr>pr_txid = rp_txid d, pr_explorerUrl = rp_explorerUrl d, pr_at = pv_now v,
                    pr_network = reply_network d, pr_amountText = amount\<rparr> (cooldown_ms v) stored))
      else if rp_status d = 429
      then let cooldownEnd = (case nextAt of Some t \<Rightarrow> t
                 | None \<Rightarrow> now + nullish (rp_retryAfterSeconds d) (of_int (nullish (pv_cooldownSeconds v) 86400)) * 1000);
               kind = (if rp_kind d = Some ''subnet'' then Rk_Subnet
                       else if rp_scope d = Some ''connection'' then Rk_Connection else Rk_Address);
               receipt = (if kind = Rk_Address
                          then map_of (read_receipts (pv_now v) (cooldown_ms v) stored)
                                 (receipt_key (pv_network v) (pv_address v))
                          else None)
           in (Show_Cooldown kind (nullish (rp_error d) []) nextAt cooldownEnd receipt, stored)
      else if rp_status d = 503 \<and> contains (to_lower (nullish (rp_error d) [])) ''empty'' then (Show_Empty, stored)
      else if rp_status d = 503 \<and> rp_kind d = Some ''sends'' then (Show_Degraded, stored)
      else let retry = (case rp_retryAfterSeconds d of None \<Rightarrow> None | Some s \<Rightarrow> if s > 0 then Some s else None);
               retryAt = (case nextAt of Some t \<Rightarrow> Some t | None \<Rightarrow> map_option (\<lambda>s. now + s * 1000) retry);
               k = fail_kind_of d retryAt
           in (Show_Error k
                 (if k = Fk_Cap \<or> k = Fk_Held then retryAt else None)
                 (if k = Fk_Unknown then Some (pv_address v) else None)
                 (rp_requestId d)
                 ((if truthy (rp_error d) then the (rp_error d) else NO_SENTENCE) @ retries_exhausted_note (pv_retries v)),
               stored))"

text \<open>The card of an error: its first line, and whether \<open>Try again\<close> is offered.\<close>

fun card_kicker :: "fail_kind \<Rightarrow> string" where
  "card_kicker Fk_Held = ''Our side, not yours''"
| "card_kicker Fk_Busy = ''Busy, nothing left the wallet''"
| "card_kicker Fk_Cap = ''Faucet daily cap''"
| "card_kicker Fk_Unknown = ''Submitted, outcome unknown''"
| "card_kicker Fk_Bad = ''Couldn'' @ [CHR 0xE2, CHR 0x80, CHR 0x99] @ ''t take that request''"
| "card_kicker Fk_Pow = ''Human check failed, nothing was claimed''"
| "card_kicker Fk_Offline = ''No answer from the faucet''"
| "card_kicker Fk_Failed = ''Send failed, nothing left the wallet''"

fun offers_retry :: "fail_kind \<Rightarrow> bool" where
  "offers_retry Fk_Failed = True"
| "offers_retry Fk_Pow = True"
| "offers_retry Fk_Offline = True"
| "offers_retry Fk_Busy = True"
| "offers_retry Fk_Held = True"
| "offers_retry _ = False"

text \<open>The figure of the panel shown while the node syncs, and its bar.\<close>

definition syncing_figure :: "rat option \<Rightarrow> string" where
  "syncing_figure syncPct = (case syncPct of None \<Rightarrow> ''-'' | Some p \<Rightarrow> to_fixed 2 p)"

section \<open>Facts on the address and the receipts\<close>

declare trim_trim [simp]

text \<open>
  No proof of work is solved for an address the route refuses. An address the form accepts is accepted
  by the validation of the claim route, and the form's word on who will see the payment, shielded or
  public, is the route's.
\<close>

theorem accepted_address_passes_the_route:
  assumes "ac_ok (page_check dec addr)"
  shows "\<exists>info. validate_testnet_address dec addr = Inr info \<and> ac_priv (page_check dec addr) = Some (ai_shielded info)"
proof -
  let ?a = "trim addr"
  obtain label priv least info where d: "detect ?a = Testnet_Address label priv least"
    and v: "validate_testnet_address dec ?a = Inr info" and p: "ac_priv (page_check dec addr) = Some priv"
    using assms by (auto simp: page_check_def Let_def split: detected.splits sum.splits if_splits)
  have same: "validate_testnet_address dec addr = validate_testnet_address dec ?a"
    by (simp add: validate_testnet_address_def)
  have pre: "starts_with (to_lower ?a) ''utest1'' \<Longrightarrow> priv"
    "\<not> starts_with (to_lower ?a) ''utest1'' \<Longrightarrow> starts_with (to_lower ?a) ''ztestsapling'' \<Longrightarrow> priv"
    "\<not> starts_with (to_lower ?a) ''utest1'' \<Longrightarrow> \<not> starts_with (to_lower ?a) ''ztestsapling'' \<Longrightarrow> \<not> priv"
    using d by (auto simp: detect_def Let_def split: if_splits)
  have one: "starts_with s ''ztestsapling'' \<Longrightarrow> \<not> starts_with s ''tm'' \<and> \<not> starts_with s ''t2''" for s
    by (auto simp: starts_with_iff)
  have long: "starts_with s ''ztestsapling1'' \<Longrightarrow> starts_with s ''ztestsapling''" for s
    by (auto simp: starts_with_iff)
  have low: "starts_with s ''tm'' \<Longrightarrow> starts_with (to_lower s) ''tm''" "starts_with s ''t2'' \<Longrightarrow> starts_with (to_lower s) ''t2''" for s
    by (auto simp: starts_with_iff to_lower_def lower_char_def less_eq_char_def)
  have "priv = ai_shielded info"
    using v pre low [of ?a] long [of "to_lower ?a"] one [of "to_lower ?a"]
    by (auto simp: validate_testnet_address_def Let_def unified_ok sapling_ok looks_transparent_def
        dest!: transparent_ok split: if_splits)
  with v p same show ?thesis by auto
qed

theorem accepted_address_passes_the_route_witness:
  "\<exists>info. validate_testnet_address (ex_decoders\<lparr>base58check_decode := \<lambda>s. Some (0x1D # 0x25 # replicate 20 0)\<rparr>)
       ''tmGys6dBuEGjch5LFnhdo5gpSa7jiNRWse6'' = Inr info"
proof -
  let ?d = "ex_decoders\<lparr>base58check_decode := \<lambda>s. Some (0x1D # 0x25 # replicate 20 0)\<rparr>"
  have "ac_ok (page_check ?d ''tmGys6dBuEGjch5LFnhdo5gpSa7jiNRWse6'')" by code_simp
  from accepted_address_passes_the_route [OF this] show ?thesis by blast
qed

text \<open>What the browser's store keeps: one entry per key, each under a key of its own network, at most eight.\<close>

definition receipts_ok :: "receipts \<Rightarrow> bool" where
  "receipts_ok es \<longleftrightarrow> distinct (map fst es) \<and> length es \<le> RECEIPTS_MAX
     \<and> (\<forall>(k, r)\<in>set es. \<exists>address. k = receipt_key (pr_network r) address)"

lemma object_snoc: "object_of_entries (es @ [(k, v)]) = AList.update k v (object_of_entries es)"
  by (simp add: object_of_entries_def)

lemma object_distinct: "distinct (map fst (object_of_entries es))"
  by (induction es rule: rev_induct) (auto simp: object_of_entries_def distinct_update)

lemma object_of_map: "map_of (object_of_entries es) k = map_of (rev es) k"
  by (induction es rule: rev_induct) (auto simp: object_snoc update_conv object_of_entries_def)

lemma object_set: "set (object_of_entries es) \<subseteq> set es"
proof
  fix x assume "x \<in> set (object_of_entries es)"
  then have "map_of (object_of_entries es) (fst x) = Some (snd x)"
    using object_distinct [of es] by (simp add: map_of_is_SomeI)
  then have "map_of (rev es) (fst x) = Some (snd x)" by (simp add: object_of_map)
  then show "x \<in> set es" by (cases x) (auto dest: map_of_SomeD)
qed

lemma object_length: "length (object_of_entries es) \<le> length es"
proof -
  have "length (AList.update k v o') \<le> Suc (length o')" for k and v :: page_receipt and o' :: receipts
    by (induction o') auto
  then show ?thesis
    by (induction es rule: rev_induct) (auto simp: object_snoc object_of_entries_def intro: order_trans)
qed

lemma receipt_key_network: "receipt_key n a = receipt_key m b \<Longrightarrow> n = m"
  by (cases n; cases m) (auto simp: receipt_key_def)

lemma kept_receipts: "set (read_receipts now ttl stored) \<subseteq> (case stored of None \<Rightarrow> {} | Some es \<Rightarrow> set es)"
  by (auto simp: read_receipts_def split: option.splits)

lemma remembered_ok:
  assumes "\<And>es. stored = Some es \<Longrightarrow> receipts_ok es" and "pr_network r = net"
    and "remember_receipt writable now net address r ttl stored = Some es'"
  shows "receipts_ok es'"
proof (cases writable)
  case False
  then show ?thesis using assms by (simp add: remember_receipt_def)
next
  case True
  let ?kept = "read_receipts now ttl stored @ [(receipt_key net address, r)]"
  let ?cut = "drop (length ?kept - RECEIPTS_MAX) ?kept"
  have es: "es' = object_of_entries ?cut" using True assms(3) by (simp add: remember_receipt_def Let_def)
  have "length es' \<le> length ?cut" unfolding es by (rule object_length)
  also have "\<dots> \<le> RECEIPTS_MAX" by simp
  finally have len: "length es' \<le> RECEIPTS_MAX" .
  have "\<exists>a. k = receipt_key (pr_network q) a" if "(k, q) \<in> set es'" for k q
  proof -
    have "(k, q) \<in> set ?cut" using that object_set unfolding es by blast
    then have "(k, q) \<in> set ?kept" by (rule in_set_dropD)
    then consider "(k, q) \<in> set (read_receipts now ttl stored)" | "k = receipt_key net address" "q = r" by auto
    then show ?thesis
    proof cases
      case 1
      then obtain es where "stored = Some es" "(k, q) \<in> set es" using kept_receipts by (cases stored) fastforce+
      then show ?thesis using assms(1) by (fastforce simp: receipts_ok_def)
    qed (use assms(2) in auto)
  qed
  with len show ?thesis unfolding receipts_ok_def using object_distinct es by auto
qed

text \<open>
  A cooldown card names only a payment this browser made to this address, in this asset, within the
  cooldown. Whatever the server answers, showing the answer keeps the store well formed, and when a card
  of a refused address carries a receipt, that receipt was stored under the network asked for and is no
  older than the cooldown; a refused connection or network carries none. A receipt just shown is the one
  the store gives for its address until eight others replace it.
\<close>

theorem cooldown_names_only_own_payment:
  assumes "\<And>es. pv_receipts v = Some es \<Longrightarrow> receipts_ok es" and "show_reply date_parse v d = (sh, stored)"
  shows "(\<forall>es. stored = Some es \<longrightarrow> receipts_ok es)
    \<and> (\<forall>k why na ce r. sh = Show_Cooldown k why na ce (Some r) \<longrightarrow>
         k = Rk_Address \<and> pr_network r = pv_network v \<and> pv_now v - cooldown_ms v \<le> pr_at r
         \<and> (\<exists>es. pv_receipts v = Some es \<and> (receipt_key (pv_network v) (pv_address v), r) \<in> set es))
    \<and> (\<forall>t. sh = Show_Receipt t \<and> pv_writable v \<longrightarrow>
         (\<exists>es r. stored = Some es \<and> map_of es (receipt_key (tx_network t) (pv_address v)) = Some r
            \<and> pr_txid r = tx_txid t \<and> pr_amountText r = tx_amountText t \<and> pr_at r = pv_now v))"
proof (intro conjI allI impI)
  fix es assume "stored = Some es"
  then show "receipts_ok es" using assms
    by (auto simp: show_reply_def Let_def split: if_splits option.splits intro: remembered_ok [rotated 2])
next
  fix k why na ce r assume "sh = Show_Cooldown k why na ce (Some r)"
  then have k: "k = Rk_Address"
    and m: "map_of (read_receipts (pv_now v) (cooldown_ms v) (pv_receipts v)) (receipt_key (pv_network v) (pv_address v)) = Some r"
    using assms(2) by (auto simp: show_reply_def Let_def split: if_splits option.splits)
  then obtain es where es: "pv_receipts v = Some es" "(receipt_key (pv_network v) (pv_address v), r) \<in> set es"
      "pv_now v - cooldown_ms v \<le> pr_at r"
    by (auto simp: read_receipts_def dest!: map_of_SomeD split: option.splits)
  show "k = Rk_Address" by (rule k)
  show "pr_network r = pv_network v" using assms(1) [OF es(1)] es(2) receipt_key_network
    by (fastforce simp: receipts_ok_def)
  show "pv_now v - cooldown_ms v \<le> pr_at r" by (rule es(3))
  show "\<exists>es. pv_receipts v = Some es \<and> (receipt_key (pv_network v) (pv_address v), r) \<in> set es" using es by blast
next
  fix t assume t: "sh = Show_Receipt t \<and> pv_writable v"
  have snoc: "map_of (object_of_entries (drop (length es + 1 - RECEIPTS_MAX) (es @ [(k, r)]))) k = Some r" for es k and r :: page_receipt
    by (simp add: object_of_map RECEIPTS_MAX_def)
  show "\<exists>es r. stored = Some es \<and> map_of es (receipt_key (tx_network t) (pv_address v)) = Some r
      \<and> pr_txid r = tx_txid t \<and> pr_amountText r = tx_amountText t \<and> pr_at r = pv_now v"
    using t assms(2) snoc by (auto simp: show_reply_def remember_receipt_def Let_def split: if_splits option.splits)
qed

definition ex_view :: page_view where
  "ex_view = \<lparr>pv_now = 90000000, pv_address = ''tmAb'', pv_network = Ctaz, pv_cooldownSeconds = Some 86400,
     pv_dripText = ''1 TAZ'', pv_receipts = Some [], pv_writable = True, pv_retries = 0\<rparr>"

definition ex_paid :: claim_reply where
  "ex_paid = \<lparr>rp_status = 200, rp_ok = True, rp_error = None, rp_kind = None, rp_scope = None,
     rp_retryAfterSeconds = None, rp_nextAt = None, rp_requestId = None, rp_txid = None, rp_explorerUrl = None,
     rp_network = Some ''ctaz'', rp_paidZat = Some ''50''\<rparr>"

theorem cooldown_names_only_own_payment_witness:
  "\<exists>es r. snd (show_reply (\<lambda>_. None) ex_view ex_paid) = Some es \<and> receipts_ok es
     \<and> map_of es (receipt_key Ctaz ''tmAb'') = Some r \<and> pr_at r = 90000000"
proof -
  obtain sh stored where s: "show_reply (\<lambda>_. None) ex_view ex_paid = (sh, stored)" by (rule prod.exhaust)
  have "digits ''50''" by code_simp
  then obtain t where t: "sh = Show_Receipt t" "tx_network t = Ctaz"
    using s by (auto simp: show_reply_def ex_view_def ex_paid_def amount_text_def big_int_def reply_network_def Let_def)
  have "receipts_ok es" if "pv_receipts ex_view = Some es" for es
    using that by (simp add: ex_view_def receipts_ok_def RECEIPTS_MAX_def)
  from cooldown_names_only_own_payment [OF this s] t s show ?thesis by (auto simp: ex_view_def)
qed

section \<open>The card and the ledger\<close>

text \<open>The sentences the claim route answers a 503 with.\<close>

definition freshness_sentences :: "string list" where
  "freshness_sentences =
     map (\<lambda>s. s @ '' Nothing was claimed, your cooldown is untouched. Try again shortly.'')
       [''Our node is catching up with the network, so a drip sent right now would expire before it could confirm.'',
        ''Our node did not report its height just now, so we are not sending: we cannot tell whether a drip built now would confirm.'',
        ''We could not verify the network's current height just now, so we are not sending: a drip built against an unverified tip could expire before it confirms.'']"

fun unavailable_sentences :: "gate_label \<Rightarrow> string list" where
  "unavailable_sentences Ctaz_Disabled = [''cTAZ is not enabled on this faucet.'']"
| "unavailable_sentences Draining =
     [''The faucet is restarting and will be back in a moment. Nothing was claimed and no proof-of-work was spent.'']"
| "unavailable_sentences Send_Health_Gate =
     [''Sends are failing on our side right now, so we are not taking claims: nothing was claimed and no proof-of-work was spent. This is watched on our side and usually clears within minutes. Try again in a few minutes.'']"
| "unavailable_sentences Faucet_Empty = [''The faucet is empty right now. Please check back after it's refilled.'']"
| "unavailable_sentences Freshness_Gate = freshness_sentences"
| "unavailable_sentences Wallet_Lag =
     [''Our wallet is still catching up with our node, so a drip sent right now would expire before it could confirm. Nothing was claimed, your cooldown is untouched. Try again shortly.'']"
| "unavailable_sentences Ctaz_Readiness =
     [''The Crosslink node is not current enough to hand out cTAZ right now. Nothing was claimed and your cooldown is untouched. Try again shortly.'']"
| "unavailable_sentences Daily_Cap = [''Faucet daily cap reached. Please come back tomorrow.'']"
| "unavailable_sentences Busy = [''Faucet is busy: too many sends queued. Try again in a moment.'']"
| "unavailable_sentences _ = []"

text \<open>A reply as the route writes an answer; a cooldown's \<open>kind\<close> may be the subnet's.\<close>

definition carries :: "response \<Rightarrow> claim_reply \<Rightarrow> bool" where
  "carries resp d =
     (case resp of
        Ok_Response rc \<Rightarrow>
          rp_status d = 200 \<and> rp_ok d \<and> rp_network d = Some (network_name (rc_network rc))
          \<and> rp_txid d = rc_txid rc \<and> rp_explorerUrl d = rc_explorerUrl rc
          \<and> rp_paidZat d = map_option show_int (rc_paidZat rc)
      | Error_Response s g r \<Rightarrow>
          rp_status d = s \<and> \<not> rp_ok d \<and> rp_retryAfterSeconds d = map_option of_int r
          \<and> (rp_kind d = kind_of_gate g \<or> g = Cooldown \<and> rp_kind d = Some ''subnet'')
          \<and> (s = 503 \<longrightarrow> (\<exists>t\<in>set (unavailable_sentences g). rp_error d = Some t)))"

lemma sentences_checked:
  "list_all (\<lambda>g. list_all (\<lambda>t. \<not> contains (to_lower t) ''empty'') (unavailable_sentences g))
     [Ctaz_Disabled, Draining, Send_Health_Gate, Freshness_Gate, Wallet_Lag, Ctaz_Readiness, Daily_Cap, Busy]"
  "list_all (\<lambda>t. contains (to_lower t) ''empty'') (unavailable_sentences Faucet_Empty)"
  by code_simp+

lemma only_one_says_empty:
  assumes "t \<in> set (unavailable_sentences g)"
  shows "contains (to_lower t) ''empty'' = (g = Faucet_Empty)"
proof (cases "g = Faucet_Empty")
  case True
  then show ?thesis using sentences_checked(2) assms unfolding list_all_iff by blast
next
  case False
  with assms have "g \<in> set [Ctaz_Disabled, Draining, Send_Health_Gate, Freshness_Gate, Wallet_Lag, Ctaz_Readiness, Daily_Cap, Busy]"
    by (cases g) (simp_all only: unavailable_sentences.simps list.set empty_iff insert_iff simp_thms)
  then show ?thesis using sentences_checked(1) assms False unfolding list_all_iff by blast
qed

text \<open>The status of an answer follows its label where a send was tried.\<close>

lemma concluded_status:
  "fst (conclude_send cfg env cx sender i run st) = Error_Response s g r \<Longrightarrow>
     (s, g) \<in> {(504, Send_Unknown), (503, Busy), (400, Recipient), (502, Send_Failed_Gate)} \<and> r = None"
  by (auto simp: conclude_send_def conclude_unknown_def Let_def split: send_run.splits send_error.splits)

lemma reserve_status:
  assumes "fst (reserve_and_pay cfg lib env cx st) = Error_Response s g r"
  shows "(s, g) \<in> {(503, Daily_Cap), (429, Cooldown), (500, Unhandled), (504, Send_Unknown), (503, Busy), (400, Recipient),
               (502, Send_Failed_Gate)}"
proof (cases rule: reserve_and_pay_cases [of cfg lib env cx st])
  case (refused q)
  with assms show ?thesis by (auto simp: refusal_response_def split: if_splits)
next
  case unanswered
  with assms show ?thesis by auto
next
  case no_sender
  then have "get_sender_for (rt_sender_is_zallet cfg) (rt_ctaz_enabled cfg) (cx_network cx) = None"
    by (simp add: get_sender_for_def)
  with assms show ?thesis
    by (auto simp: reserve_and_pay_def Let_def split_beta refusal_response_def
        split: reserve_result.splits if_splits write_fate.splits)
next
  case (ran sender)
  with assms concluded_status show ?thesis by (metis insertCI insertE singletonD)
qed

lemma early_status:
  "check_request cfg lib env body st = Inl (Error_Response s g r) \<Longrightarrow> s \<noteq> 504"
  "check_backend cfg env cx = Some (Error_Response s g r) \<Longrightarrow> s = 503"
  by (auto simp: check_request_def check_backend_def Let_def split: option.splits sum.splits if_splits)

lemma answer_504:
  assumes h: "fst (handle_claim cfg lib env body st) = Error_Response 504 g r"
  shows "g = Send_Unknown"
proof (cases "check_request cfg lib env body st")
  case (Inl resp)
  with h have "check_request cfg lib env body st = Inl (Error_Response 504 g r)" by (simp add: handle_claim_def)
  from early_status(1) [OF this] show ?thesis by simp
next
  case cx: (Inr cx)
  let ?p = "check_pow cfg lib env cx st"
  show ?thesis
  proof (cases "fst ?p")
    case (Some resp)
    with h cx have "fst ?p = Some (Error_Response 504 g r)" by (simp add: handle_claim_def split_beta)
    from check_pow_403 [OF this] show ?thesis by simp
  next
    case p: None
    show ?thesis
    proof (cases "check_backend cfg env cx")
      case (Some resp)
      with h cx p have "check_backend cfg env cx = Some (Error_Response 504 g r)" by (simp add: handle_claim_def split_beta)
      from early_status(2) [OF this] show ?thesis by simp
    next
      case b: None
      let ?b = "burn_proof cfg env cx (snd ?p)"
      show ?thesis
      proof (cases "fst ?b")
        case (Some resp)
        with h cx p b have "fst ?b = Some (Error_Response 504 g r)" by (simp add: handle_claim_def split_beta)
        from burn_proof_403 [OF this] show ?thesis by simp
      next
        case None
        with h cx p b have "fst (reserve_and_pay cfg lib env cx (snd ?b)) = Error_Response 504 g r"
          by (simp add: handle_claim_def split_beta)
        from reserve_status [OF this] show ?thesis by auto
      qed
    qed
  qed
qed

lemma settled_status:
  assumes "fst (handle_claim cfg lib env body st) = Error_Response s g r"
    and "g \<in> {Send_Unknown, Busy, Recipient, Send_Failed_Gate, Unhandled}" and "last_rowid (fs_ledger (snd (handle_claim cfg lib env body st))) \<noteq> last_rowid (fs_ledger st)"
  shows "(s, g) \<in> {(504, Send_Unknown), (503, Busy), (400, Recipient), (502, Send_Failed_Gate), (500, Unhandled)}"
proof (cases rule: handle_cases [of cfg lib env body st])
  case (early s' g' r')
  with assms show ?thesis by (auto simp: early_gates_def)
next
  case (on cx st2)
  with assms reserve_status [of cfg lib env cx st2 s g r] show ?thesis by auto
qed

text \<open>What the page makes of a carried answer.\<close>

lemma big_int_show: "0 \<le> z \<Longrightarrow> big_int (show_int z) = Some z"
  using show_nat_is_digits [of "nat z"] by (simp add: big_int_def show_int_nat digits_value_show_nat)

lemma shown_receipt:
  assumes "carries (Ok_Response rc) d" and "\<forall>z. rc_paidZat rc = Some z \<longrightarrow> 0 \<le> z"
    and "show_reply date_parse v d = (sh, stored)"
  shows "\<exists>t. sh = Show_Receipt t \<and> tx_network t = rc_network rc \<and> tx_txid t = rc_txid rc"
proof -
  have net: "reply_network d = rc_network rc" using assms(1) by (cases "rc_network rc") (auto simp: carries_def reply_network_def)
  obtain a where "amount_text v d = Some a"
    using assms(1,2) big_int_show
    by (cases "rc_paidZat rc") (auto simp: carries_def amount_text_def show_int_nat)
  then show ?thesis using assms(1,3) net by (auto simp: carries_def show_reply_def Let_def)
qed

lemma shown_error:
  assumes "carries (Error_Response s g r) d" and "show_reply date_parse v d = (sh, stored)"
  shows "(\<forall>t. sh \<noteq> Show_Receipt t) \<and> ((\<exists>ra a i m. sh = Show_Error Fk_Unknown ra a i m) \<longleftrightarrow> s = 504)"
  using assms by (auto simp: carries_def show_reply_def Let_def fail_kind_of_def split: if_splits)

text \<open>
  C6: The card tells the truth about the claim. Whatever the handler answers, however its writes fare and
  however the page reads that answer (an amount paid is not negative): a receipt on the screen
  means the handler answered a receipt and left a row of this request, on the network the receipt names,
  marked sent; it is pending instead when the last write was lost or the receipt has no id where one is
  due. The card of an unknown outcome, which offers no retry, means the row is held as sent, or pending
  when the last write was lost. Every other card, and so every card that offers a retry, means no send is
  on record as made: the request left no row, or a failed one, which releases the address, or a pending
  one, which holds it for the lease, when the last write was lost or when the answer was the unhandled
  500, of a reservation whose reply was lost and after which nothing was sent.
\<close>

theorem card_tells_the_truth:
  assumes "handle_claim cfg lib env body st = (resp, st')" and "carries resp d"
    and "show_reply date_parse v d = (sh, stored)"
    and "\<forall>rc z. resp = Ok_Response rc \<longrightarrow> rc_paidZat rc = Some z \<longrightarrow> 0 \<le> z"
  shows "case sh of
      Show_Receipt t \<Rightarrow> \<exists>rc. \<exists>c\<in>set (claims (fs_ledger st')). resp = Ok_Response rc \<and> new_row st c \<and> claim_network c = tx_network t
        \<and> status c = (if ce_finalizeLands env \<and> (truthy (rc_txid rc) \<or> rc_sender rc = Crosslink_Sender) then Sent else Pending)
    | Show_Error Fk_Unknown ra a i m \<Rightarrow> \<not> offers_retry Fk_Unknown
        \<and> (\<exists>c\<in>set (claims (fs_ledger st')). new_row st c \<and> status c = (if ce_finalizeLands env then Sent else Pending))
    | _ \<Rightarrow> last_rowid (fs_ledger st') = last_rowid (fs_ledger st)
        \<or> (\<exists>c\<in>set (claims (fs_ledger st')). new_row st c
             \<and> (if \<exists>s r. resp = Error_Response s Unhandled r then status c = Pending \<and> fs_sends st' = fs_sends st
                else status c = (if ce_finalizeLands env then Failed else Pending)))"
proof (cases "last_rowid (fs_ledger st') = last_rowid (fs_ledger st)")
  case False
  from settled_answer [OF assms(1) False] obtain c where
    c: "c \<in> set (claims (fs_ledger st'))" "new_row st c"
    and r: "row_as_answered env (claim_network c) resp c"
    and u: "(\<exists>s r. resp = Error_Response s Unhandled r) \<longrightarrow> fs_sends st' = fs_sends st" by auto
  show ?thesis
  proof (cases resp)
    case (Ok_Response rc)
    with shown_receipt [OF _ _ assms(3), of rc] assms(2,4) obtain t where "sh = Show_Receipt t" "tx_network t = rc_network rc" by auto
    then show ?thesis using c r Ok_Response by (auto simp: row_as_answered_def)
  next
    case (Error_Response s g x)
    note e = shown_error [OF assms(2) [unfolded Error_Response] assms(3)]
    have g: "g \<in> {Send_Unknown, Busy, Recipient, Send_Failed_Gate, Unhandled}"
      and status: "status c = (if g = Unhandled \<or> \<not> ce_finalizeLands env then Pending else if g = Send_Unknown then Sent else Failed)"
      using r Error_Response by (simp_all add: row_as_answered_def)
    have st: "s = 504 \<longleftrightarrow> g = Send_Unknown"
      using settled_status [of cfg lib env body st s g x] g assms(1) False Error_Response by auto
    show ?thesis
    proof (cases "s = 504")
      case True
      then obtain ra a i m where "sh = Show_Error Fk_Unknown ra a i m" using e by blast
      then show ?thesis using c status True st e by auto
    next
      case False
      then have "if \<exists>s r. resp = Error_Response s Unhandled r then status c = Pending \<and> fs_sends st' = fs_sends st
                else status c = (if ce_finalizeLands env then Failed else Pending)"
        using status st u Error_Response by auto
      then show ?thesis using c e False by (auto split: shown.splits fail_kind.splits)
    qed
  qed
next
  case True
  have "\<not> ((\<exists>rc. resp = Ok_Response rc) \<or> (\<exists>s r. resp = Error_Response s Send_Unknown r))"
    using answered_row [OF assms(1)] True by blast
  then obtain s g x where re: "resp = Error_Response s g x" "g \<noteq> Send_Unknown" by (cases resp) auto
  have "s \<noteq> 504" using answer_504 [of cfg lib env body st g x] assms(1) re by auto
  with shown_error [OF assms(2) [unfolded re(1)] assms(3)] True show ?thesis
    by (auto split: shown.splits fail_kind.splits)
qed

theorem card_tells_the_truth_witness:
  "\<exists>t. fst (show_reply (\<lambda>_. None) ex_view ex_paid) = Show_Receipt t
     \<and> (\<exists>c\<in>set (claims (fs_ledger paid_state)). new_row ex_state c \<and> status c = Sent \<and> claim_network c = tx_network t)"
proof -
  let ?rc = "\<lparr>rc_txid = None, rc_explorerUrl = None, rc_paidZat = Some 50, rc_network = Ctaz,
         rc_sender = Crosslink_Sender, rc_to = \<lparr>ai_kind = Transparent, ai_shielded = False\<rparr>\<rparr>"
  have h: "handle_claim ex_route ex_libs (ex_env 2000000 (Cl_Amount 50)) ex_body ex_state = (Ok_Response ?rc, paid_state)"
    using paid_run by (simp add: paid_state_def prod_eq_iff)
  have c: "carries (Ok_Response ?rc) ex_paid"
  proof -
    have "show_int 50 = ''50''" by code_simp
    then show ?thesis by (simp add: carries_def ex_paid_def)
  qed
  obtain sh stored where s: "show_reply (\<lambda>_. None) ex_view ex_paid = (sh, stored)" by (rule prod.exhaust)
  obtain t where t: "sh = Show_Receipt t" using shown_receipt [OF c _ s] by auto
  have e: "ce_finalizeLands (ex_env 2000000 (Cl_Amount 50))" by (simp add: ex_env_def)
  from card_tells_the_truth [OF h c s] t s e show ?thesis by auto
qed

section \<open>The syncing panel\<close>

text \<open>
  The panel of a syncing node prints the raw percentage. Although the rule is that nothing reads a
  hundred per cent before the node is ready, the figure of the panel is the percentage rounded to two
  places: a wallet a hundred blocks behind its node is not ready and reads 100.00, while the label and
  the figure made for the purpose read 99.99.
\<close>

theorem syncing_panel_reads_full:
  "let s = fst (status_of cfg 2999900 3000000 tip identity now lastTip) in
     ns_ready s = (100 \<le> sc_walletMaxLag cfg \<and> \<not> ns_frozen s)
     \<and> syncing_figure (ns_syncPercent s) = ''100.00'' \<and> sync_label (ns_syncPercent s) False = Some ''99.99%''
     \<and> sync_figure (ns_syncPercent s) False \<noteq> Some ''100.00%''"
proof -
  let ?s = "fst (status_of cfg 2999900 3000000 tip identity now lastTip)" and ?p = "2999900 / 30000 :: rat"
  have pct: "ns_syncPercent ?s = Some ?p"
    by (simp add: status_of_def Let_def)
  have ready: "ns_ready ?s = (100 \<le> sc_walletMaxLag cfg \<and> \<not> ns_frozen ?s)"
    by (auto simp: status_of_def Let_def may_build_from_wallet_def wallet_lag_freshness_def)
  have two: "to_fixed 2 x = take (length (show_int n) - 2) (show_int n) @ ''.'' @ drop (length (show_int n) - 2) (show_int n)"
    if "0 \<le> x" "x < 1000" "\<lfloor>x * 10 ^ 2 + 1 / 2\<rfloor> = n" "3 \<le> length (show_int n)" for x n
    using that by (simp add: to_fixed_def Let_def pad_start_def)
  have chars: "char_of (48::nat) = CHR ''0''" "char_of (49::nat) = CHR ''1''" "char_of (57::nat) = CHR ''9''"
    using char_of_char [where ?'a = nat, of "CHR ''0''"] char_of_char [where ?'a = nat, of "CHR ''1''"]
      char_of_char [where ?'a = nat, of "CHR ''9''"] by simp_all
  have digits: "show_int 10000 = ''10000''" "show_int 9999 = ''9999''"
    by (simp_all add: show_int_def show_nat.simps chars)
  have "\<lfloor>?p * 10 ^ 2 + 1 / 2\<rfloor> = 10000" by (simp add: floor_eq_iff)
  then have f: "to_fixed 2 ?p = ''100.00''" using two [of ?p 10000] by (simp add: digits)
  have "\<lfloor>lit_9999 * 10 ^ 2 + 1 / 2\<rfloor> = 9999" using literals_below(1) lit_near by (simp add: floor_eq_iff)
  then have g: "to_fixed 2 lit_9999 = ''99.99''" using two [of lit_9999 9999] literals_below lit_near by (simp add: digits)
  have "lit_999 \<le> lit_9999" "lit_9999 < ?p" using literals_below lit_near by simp_all
  then have l: "sync_label (Some ?p) False = Some ''99.99%''" by (simp add: sync_label_def Let_def min_def g)
  obtain fig v where fig: "sync_figure (Some ?p) False = Some fig" "percent_value fig = Some v" "v \<le> 9999 / 100"
    using sync_figure_below [of ?p] by auto
  have "percent_value (''100.00'' @ ''%'') = Some 100" unfolding percent_value_snoc by code_simp
  then have "sync_figure (Some ?p) False \<noteq> Some ''100.00%''" using fig by auto
  with pct ready f l show ?thesis by (simp add: syncing_figure_def Let_def)
qed

section \<open>The claim the page holds\<close>

definition HOLD_MAX_MS :: int where "HOLD_MAX_MS = 15 * 60000"

text \<open>
  The state of the form: the phase shown, the held address and since when (both kept in the browser's
  store), the three flags of a claim under way, the selected tab, the text of the field, the last status,
  and the address of a generated key with whether its key was copied or is shown.
\<close>

record hold_page =
  hp_phase :: phase
  hp_queued :: "string option"
  hp_queuedAt :: "int option"
  hp_inFlow :: bool
  hp_sending :: bool
  hp_firing :: bool
  hp_dropped :: bool
  hp_touched :: bool
  hp_network :: network
  hp_addr :: string
  hp_status :: "page_status option"
  hp_genKey :: "string option"
  hp_keyCopied :: bool
  hp_keyShown :: bool

definition first_page :: hold_page where
  "first_page = \<lparr>hp_phase = Ph_Checking, hp_queued = None, hp_queuedAt = None, hp_inFlow = False, hp_sending = False,
     hp_firing = False, hp_dropped = False, hp_touched = False, hp_network = Taz, hp_addr = [], hp_status = None,
     hp_genKey = None, hp_keyCopied = False, hp_keyShown = False\<rparr>"

abbreviation base_of :: "hold_page \<Rightarrow> phase" where
  "base_of p \<equiv> base_phase (hp_status p) (hp_network p)"

definition key_unseen :: "hold_page \<Rightarrow> string \<Rightarrow> bool" where
  "key_unseen p address = (hp_genKey p = Some address \<and> \<not> hp_keyCopied p \<and> \<not> hp_keyShown p)"

text \<open>\<open>submit\<close> up to the request: the new state and, when a claim is sent, its address and network.\<close>

definition submit :: "decoders \<Rightarrow> int \<Rightarrow> string option \<Rightarrow> hold_page \<Rightarrow> hold_page \<times> (string \<times> network) option" where
  "submit dec now target p =
     (let address = trim (nullish target (hp_addr p)); own = (target = None) in
      if \<not> ac_ok (page_check dec address) then (p\<lparr>hp_touched := True\<rparr>, None)
      else if own \<and> key_unseen p address then (p, None)
      else if own \<and> base_of p = Ph_Degraded then (p\<lparr>hp_inFlow := False, hp_phase := Ph_Degraded\<rparr>, None)
      else if own \<and> hp_phase p = Ph_Empty then (p, None)
      else if hp_sending p then (p, None)
      else if own \<and> holding (base_of p)
      then (p\<lparr>hp_dropped := False, hp_queued := Some address, hp_queuedAt := Some now, hp_phase := Ph_Queued\<rparr>, None)
      else (p\<lparr>hp_sending := True, hp_inFlow := True, hp_touched := False, hp_dropped := False, hp_phase := Ph_Submitting\<rparr>,
            Some (address, hp_network p)))"

text \<open>How a claim under way ends: with what \<open>show_reply\<close> shows, or given up during the proof (\<open>None\<close>).\<close>

definition submit_ends :: "shown option \<Rightarrow> hold_page \<Rightarrow> hold_page" where
  "submit_ends sh p =
     (let q = p\<lparr>hp_sending := False, hp_firing := False\<rparr> in
      case sh of
        None \<Rightarrow> q\<lparr>hp_inFlow := False, hp_phase := base_of p\<rparr>
      | Some (Show_Receipt t) \<Rightarrow> q\<lparr>hp_phase := Ph_Success\<rparr>
      | Some (Show_Cooldown k why na ce r) \<Rightarrow> q\<lparr>hp_phase := Ph_Cooldown\<rparr>
      | Some Show_Empty \<Rightarrow> q\<lparr>hp_inFlow := False, hp_phase := Ph_Empty\<rparr>
      | Some Show_Degraded \<Rightarrow> q\<lparr>hp_inFlow := False, hp_phase := Ph_Degraded\<rparr>
      | Some (Show_Error k ra a i m) \<Rightarrow> q\<lparr>hp_phase := Ph_Error\<rparr>)"

text \<open>\<open>again\<close>: start over.\<close>

definition start_over :: "hold_page \<Rightarrow> hold_page" where
  "start_over p =
     p\<lparr>hp_inFlow := False, hp_addr := [], hp_touched := False, hp_queued := None, hp_dropped := False,
       hp_genKey := None, hp_keyCopied := False, hp_keyShown := False, hp_phase := base_of p\<rparr>"

text \<open>The effects, in the order of the code.\<close>

definition network_effect :: "hold_page \<Rightarrow> hold_page" where
  "network_effect p =
     (case hp_status p of None \<Rightarrow> p
      | Some s \<Rightarrow> if hp_network p = Ctaz \<and> ps_ctaz s = None then p\<lparr>hp_network := Taz\<rparr> else p)"

definition phase_effect :: "hold_page \<Rightarrow> hold_page" where
  "phase_effect p =
     (if hp_inFlow p then p
      else let base = base_of p; q = (if base \<noteq> Ph_Fault then p\<lparr>hp_dropped := False\<rparr> else p)
           in q\<lparr>hp_phase := (if truthy (hp_queued p) \<and> holding base then Ph_Queued else base)\<rparr>)"

definition give_up_effect :: "int \<Rightarrow> hold_page \<Rightarrow> hold_page" where
  "give_up_effect now p =
     (case hp_queuedAt p of None \<Rightarrow> p
      | Some since' \<Rightarrow>
          if \<not> truthy (hp_queued p) then p
          else if hp_status p = None \<or> base_of p \<noteq> Ph_Fault then p
          else if now - since' < HOLD_MAX_MS then p
          else p\<lparr>hp_queued := None, hp_queuedAt := None, hp_dropped := True\<rparr>)"

definition fire_effect :: "decoders \<Rightarrow> int \<Rightarrow> hold_page \<Rightarrow> hold_page \<times> (string \<times> network) option" where
  "fire_effect dec now p =
     (if \<not> truthy (hp_queued p) \<or> hp_firing p then (p, None)
      else if base_of p \<noteq> Ph_Ready then (p, None)
      else let target = the (hp_queued p);
               (q, sent) = submit dec now (Some target) (p\<lparr>hp_firing := True, hp_queued := None, hp_addr := target\<rparr>)
           in (if sent = None then q\<lparr>hp_firing := False\<rparr> else q, sent))"

definition commit :: "decoders \<Rightarrow> int \<Rightarrow> hold_page \<Rightarrow> hold_page \<times> (string \<times> network) option" where
  "commit dec now p =
     (let (q, sent) = fire_effect dec now (give_up_effect now (phase_effect (network_effect p)))
      in (phase_effect q, sent))"

text \<open>A visit that starts with what an earlier one left in the store.\<close>

definition restore_hold :: "decoders \<Rightarrow> int \<Rightarrow> hold_page \<Rightarrow> hold_page" where
  "restore_hold dec now p =
     (case hp_queued p of None \<Rightarrow> first_page
      | Some a \<Rightarrow>
          if a \<noteq> [] \<and> ac_ok (page_check dec a)
          then first_page\<lparr>hp_queued := Some a, hp_queuedAt := Some (nullish (hp_queuedAt p) now)\<rparr>
          else first_page)"

datatype page_event =
  Status_Reply page_status | Clock_Tick | Pick_Tab network | Type_Address string | Press_Request
| Key_Generated string | Key_Copied | Key_Toggled | Claim_Ends "shown option" | Pressed_Again | Page_Reloaded

definition page_event_step ::
  "decoders \<Rightarrow> int \<Rightarrow> page_event \<Rightarrow> hold_page \<Rightarrow> hold_page \<times> (string \<times> network) option" where
  "page_event_step dec now ev p =
     (case ev of
        Status_Reply s \<Rightarrow> (p\<lparr>hp_status := Some s\<rparr>, None)
      | Clock_Tick \<Rightarrow> (p, None)
      | Pick_Tab n \<Rightarrow> (p\<lparr>hp_network := n\<rparr>, None)
      | Type_Address a \<Rightarrow> (p\<lparr>hp_addr := a, hp_touched := False\<rparr>, None)
      | Press_Request \<Rightarrow> submit dec now None p
      | Key_Generated a \<Rightarrow>
          (p\<lparr>hp_addr := a, hp_touched := False, hp_genKey := Some a, hp_keyCopied := False, hp_keyShown := False\<rparr>, None)
      | Key_Copied \<Rightarrow> (p\<lparr>hp_keyCopied := True\<rparr>, None)
      | Key_Toggled \<Rightarrow> (p\<lparr>hp_keyShown := \<not> hp_keyShown p\<rparr>, None)
      | Claim_Ends sh \<Rightarrow> (submit_ends sh p, None)
      | Pressed_Again \<Rightarrow> (start_over p, None)
      | Page_Reloaded \<Rightarrow> (restore_hold dec now p, None))"

definition page_step ::
  "decoders \<Rightarrow> int \<Rightarrow> page_event \<Rightarrow> hold_page \<Rightarrow> hold_page \<times> (string \<times> network) list" where
  "page_step dec now ev p =
     (let (q, sent) = page_event_step dec now ev p; (r, fired) = commit dec now q
      in (r, (case sent of None \<Rightarrow> [] | Some x \<Rightarrow> [x]) @ (case fired of None \<Rightarrow> [] | Some x \<Rightarrow> [x])))"

fun page_run ::
  "decoders \<Rightarrow> (int \<times> page_event) list \<Rightarrow> hold_page \<Rightarrow> hold_page \<times> (string \<times> network) list" where
  "page_run dec [] p = (p, [])"
| "page_run dec ((now, ev) # evs) p =
     (let (q, xs) = page_step dec now ev p; (r, ys) = page_run dec evs q in (r, xs @ ys))"

definition ex_key_decoders :: decoders where
  "ex_key_decoders = ex_decoders\<lparr>base58check_decode := \<lambda>s. Some (0x1D # 0x25 # replicate 20 0)\<rparr>"

definition ex_address :: string where "ex_address = ''tmGys6dBuEGjch5LFnhdo5gpSa7jiNRWse6''"

text \<open>A faucet that pays on the test network while the feature network's node is offered but not servable.\<close>

definition ex_half_open :: page_status where
  "ex_half_open = \<lparr>ps_sender = ''zallet'', ps_balanceTaz = Some 5, ps_empty = False, ps_reachable = True,
     ps_node = Some \<lparr>pn_ready = True, pn_frozen = Some False, pn_behind = Some False, pn_nodeHeight = Some 7,
       pn_externalHeight = Some 7, pn_canBuildTx = Some True, pn_shield = None\<rparr>,
     ps_sends = Some Sends_Ok, ps_ctaz = Some False\<rparr>"

definition ex_hold :: "(int \<times> page_event) list" where
  "ex_hold = [(1000, Status_Reply ex_half_open), (2000, Pick_Tab Ctaz), (3000, Type_Address ex_address),
     (4000, Press_Request)]"

text \<open>
  A held claim forgets which network it was for. A visitor who asks for coins of the feature network
  while its node is not servable is held; when the page is then reloaded, or only the other tab is looked
  at, the held address is claimed on the main test network, which the visitor did not ask for, and its
  cooldown there is spent.
\<close>

theorem held_claim_changes_network:
  "snd (page_run ex_key_decoders ex_hold first_page) = []
   \<and> hp_network (fst (page_run ex_key_decoders ex_hold first_page)) = Ctaz
   \<and> hp_queued (fst (page_run ex_key_decoders ex_hold first_page)) = Some ex_address
   \<and> snd (page_run ex_key_decoders (ex_hold @ [(5000, Page_Reloaded), (6000, Status_Reply ex_half_open)]) first_page)
       = [(ex_address, Taz)]
   \<and> snd (page_run ex_key_decoders (ex_hold @ [(5000, Pick_Tab Taz)]) first_page) = [(ex_address, Taz)]"
  by code_simp

text \<open>What the page knows of the faucet after an event.\<close>

definition seen_status :: "page_event \<Rightarrow> hold_page \<Rightarrow> page_status option" where
  "seen_status ev p = (case ev of Status_Reply s \<Rightarrow> Some s | Page_Reloaded \<Rightarrow> None | _ \<Rightarrow> hp_status p)"

lemma submit_sends:
  assumes "submit dec now target p = (q, Some (a, n))"
  shows "ac_ok (page_check dec a) \<and> n = hp_network p \<and> \<not> hp_sending p \<and> hp_sending q \<and> hp_status q = hp_status p
    \<and> (target = None \<longrightarrow> \<not> key_unseen p a \<and> \<not> holding (base_of p) \<and> base_of p \<noteq> Ph_Degraded \<and> hp_phase p \<noteq> Ph_Empty)"
  using assms by (auto simp: submit_def Let_def split: if_splits)

lemma submit_address: "submit dec now target p = (q, Some (a, n)) \<Longrightarrow> a = trim (nullish target (hp_addr p))"
  by (auto simp: submit_def Let_def split: if_splits)

lemma submit_queue:
  assumes "submit dec now None p = (q, x)"
  shows "hp_queued q = hp_queued p
    \<or> x = None \<and> hp_queued q = Some (trim (hp_addr p)) \<and> \<not> key_unseen p (trim (hp_addr p))"
  using assms by (auto simp: submit_def Let_def split: if_splits)

lemma submit_target_queue: "submit dec now (Some t) p = (q, x) \<Longrightarrow> hp_queued q = hp_queued p"
  by (auto simp: submit_def Let_def split: if_splits)

lemma submit_status: "submit dec now target p = (q, x) \<Longrightarrow> hp_status q = hp_status p \<and> (x = None \<longrightarrow> hp_sending q = hp_sending p)"
  by (auto simp: submit_def Let_def split: if_splits)

lemma effects_frame [simp]:
  "hp_status (network_effect p) = hp_status p" "hp_sending (network_effect p) = hp_sending p"
  "hp_status (phase_effect p) = hp_status p" "hp_sending (phase_effect p) = hp_sending p"
  "hp_status (give_up_effect now p) = hp_status p" "hp_sending (give_up_effect now p) = hp_sending p"
  "hp_queued (network_effect p) = hp_queued p" "hp_queued (phase_effect p) = hp_queued p"
  by (auto simp: network_effect_def phase_effect_def give_up_effect_def Let_def split: option.split)

lemma give_up_queue: "hp_queued (give_up_effect now p) \<noteq> None \<Longrightarrow> hp_queued (give_up_effect now p) = hp_queued p"
  by (auto simp: give_up_effect_def split: option.splits if_splits)

text \<open>What a commit sends was held, and a commit holds nothing new.\<close>

lemma commit_queue:
  assumes "commit dec now p = (q, x)"
  shows "(hp_queued q \<noteq> None \<longrightarrow> hp_queued q = hp_queued p)
    \<and> (\<forall>a n. x = Some (a, n) \<longrightarrow> (\<exists>t. hp_queued p = Some t \<and> a = trim t))"
proof -
  let ?p = "give_up_effect now (phase_effect (network_effect p))"
  obtain r where r: "fire_effect dec now ?p = (r, x)" "q = phase_effect r"
    using assms by (auto simp: commit_def Let_def split: prod.splits)
  have same: "hp_queued ?p \<noteq> None \<Longrightarrow> hp_queued ?p = hp_queued p" using give_up_queue by fastforce
  show ?thesis
  proof (cases "\<not> truthy (hp_queued ?p) \<or> hp_firing ?p \<or> base_of ?p \<noteq> Ph_Ready")
    case True
    then have "r = ?p \<and> x = None" using r(1) by (auto simp: fire_effect_def split: if_splits)
    then show ?thesis using r(2) same by simp
  next
    case False
    then obtain t where t: "hp_queued ?p = Some t" by (cases "hp_queued ?p") auto
    let ?t = "?p\<lparr>hp_firing := True, hp_queued := None, hp_addr := t\<rparr>"
    obtain s where s: "submit dec now (Some t) ?t = (s, x)" "r = (if x = None then s\<lparr>hp_firing := False\<rparr> else s)"
      using r(1) False t by (auto simp: fire_effect_def Let_def split: prod.splits if_splits)
    have "hp_queued q = None" using submit_target_queue [OF s(1)] s(2) r(2) by simp
    moreover have "a = trim t" if "x = Some (a, n)" for a n using submit_address [OF s(1) [unfolded that]] by simp
    moreover have "hp_queued p = Some t" using same t by simp
    ultimately show ?thesis by blast
  qed
qed

lemma commit_sends:
  assumes "commit dec now p = (q, x)"
  shows "hp_status q = hp_status p \<and> (case x of None \<Rightarrow> hp_sending q = hp_sending p
    | Some (a, n) \<Rightarrow> ac_ok (page_check dec a) \<and> base_phase (hp_status p) n = Ph_Ready \<and> \<not> hp_sending p \<and> hp_sending q)"
proof -
  let ?p = "give_up_effect now (phase_effect (network_effect p))"
  obtain r where r: "fire_effect dec now ?p = (r, x)" "q = phase_effect r"
    using assms by (auto simp: commit_def Let_def split: prod.splits)
  show ?thesis
  proof (cases "\<not> truthy (hp_queued ?p) \<or> hp_firing ?p \<or> base_of ?p \<noteq> Ph_Ready")
    case True
    then have "r = ?p \<and> x = None" using r(1) by (auto simp: fire_effect_def split: if_splits)
    then show ?thesis using r(2) by simp
  next
    case False
    let ?t = "?p\<lparr>hp_firing := True, hp_queued := None, hp_addr := the (hp_queued ?p)\<rparr>"
    obtain s where s: "submit dec now (Some (the (hp_queued ?p))) ?t = (s, x)" "r = (if x = None then s\<lparr>hp_firing := False\<rparr> else s)"
      using r(1) False by (auto simp: fire_effect_def Let_def split: prod.splits if_splits)
    show ?thesis
    proof (cases x)
      case None
      then show ?thesis using submit_status [OF s(1)] s(2) r(2) by simp
    next
      case (Some y)
      obtain a n where y: "y = (a, n)" by (rule prod.exhaust)
      from submit_sends [OF s(1) [unfolded Some y]] False show ?thesis using s(2) r(2) Some y by simp
    qed
  qed
qed

text \<open>What is held after an event and was not before, the visitor has just asked for.\<close>

lemma event_queue:
  assumes "page_event_step dec now ev p = (r, x)" and "hp_queued r \<noteq> None"
  shows "hp_queued r = hp_queued p
    \<or> ev = Press_Request \<and> x = None \<and> hp_queued r = Some (trim (hp_addr p)) \<and> \<not> key_unseen p (trim (hp_addr p))"
proof (cases ev)
  case Press_Request
  then show ?thesis using assms submit_queue [of dec now p r x] by (auto simp: page_event_step_def)
qed (use assms in \<open>auto simp: page_event_step_def submit_ends_def start_over_def restore_hold_def first_page_def Let_def
    split: option.splits shown.splits if_splits\<close>)

text \<open>
  C20: What the page sends. One event makes the page send at most one claim, and none while another is
  under way. Every address it sends passes the form's check, and so the route's, and on its network the
  status last seen is neither a phase that holds nor a degraded one. It is either an address that was
  held, sent because the phase is ready, or the address in the box at a press, which is not one generated here
  whose key was neither copied nor shown; sent at the press it goes to the network picked and not from
  an empty faucet. And an address comes to be held only by such a press.
\<close>

theorem page_sends_only_when_open:
  assumes "page_step dec now ev p = (q, xs)"
  shows "length xs \<le> 1 \<and> (xs \<noteq> [] \<longrightarrow> hp_sending q \<and> (\<not> hp_sending p \<or> ev = Page_Reloaded \<or> (\<exists>sh. ev = Claim_Ends sh)))
    \<and> (\<forall>(a, n)\<in>set xs. ac_ok (page_check dec a)
        \<and> \<not> holding (base_phase (seen_status ev p) n) \<and> base_phase (seen_status ev p) n \<noteq> Ph_Degraded
        \<and> (base_phase (seen_status ev p) n = Ph_Ready \<and> (\<exists>t. hp_queued p = Some t \<and> a = trim t)
           \<or> ev = Press_Request \<and> a = trim (hp_addr p) \<and> \<not> key_unseen p a
             \<and> (base_phase (seen_status ev p) n = Ph_Ready \<or> n = hp_network p \<and> hp_phase p \<noteq> Ph_Empty)))
    \<and> (\<forall>t. hp_queued q = Some t \<longrightarrow> hp_queued p = Some t
        \<or> ev = Press_Request \<and> t = trim (hp_addr p) \<and> \<not> key_unseen p t)"
proof -
  obtain r x y where r: "page_event_step dec now ev p = (r, x)" and c: "commit dec now r = (q, y)"
    and xs: "xs = (case x of None \<Rightarrow> [] | Some z \<Rightarrow> [z]) @ (case y of None \<Rightarrow> [] | Some z \<Rightarrow> [z])"
    using assms by (auto simp: page_step_def Let_def split: prod.splits)
  note cs = commit_sends [OF c] and cq = commit_queue [OF c]
  have st: "hp_status r = seen_status ev p"
    using r by (cases ev) (auto simp: page_event_step_def seen_status_def submit_ends_def start_over_def restore_hold_def
        first_page_def Let_def dest: submit_status split: option.splits shown.splits if_splits)
  have ready: "\<not> holding Ph_Ready \<and> Ph_Ready \<noteq> Ph_Degraded" by (simp add: holding_def)
  have held: "\<forall>t. hp_queued q = Some t \<longrightarrow> hp_queued p = Some t
      \<or> ev = Press_Request \<and> t = trim (hp_addr p) \<and> \<not> key_unseen p t"
    using cq event_queue [OF r] by auto
  show ?thesis
  proof (cases x)
    case None
    have sending: "hp_sending r \<Longrightarrow> hp_sending p" "\<not> hp_sending r \<Longrightarrow> \<not> hp_sending p \<or> ev = Page_Reloaded \<or> (\<exists>sh. ev = Claim_Ends sh)"
      using r None by (cases ev; auto simp: page_event_step_def submit_ends_def start_over_def restore_hold_def
        first_page_def Let_def dest: submit_status split: option.splits shown.splits if_splits)+
    show ?thesis
    proof (cases y)
      case None
      then show ?thesis using xs \<open>x = None\<close> held by simp
    next
      case (Some z)
      obtain a n where z: "z = (a, n)" by (rule prod.exhaust)
      obtain t where t: "hp_queued r = Some t" "a = trim t" using cq Some z by blast
      have "(\<exists>t. hp_queued p = Some t \<and> a = trim t) \<or> ev = Press_Request \<and> a = trim (hp_addr p) \<and> \<not> key_unseen p a"
      proof (cases "hp_queued r = hp_queued p")
        case True
        with t have "hp_queued p = Some t" by simp
        with t(2) show ?thesis by blast
      next
        case False
        then show ?thesis using event_queue [OF r] t by (auto simp: trim_trim)
      qed
      then show ?thesis using xs \<open>x = None\<close> Some z cs st ready sending held by auto
    qed
  next
    case (Some z)
    obtain a n where z: "z = (a, n)" by (rule prod.exhaust)
    have ev: "ev = Press_Request" and s: "submit dec now None p = (r, Some (a, n))"
      using r Some z by (cases ev; auto simp: page_event_step_def)+
    note ss = submit_sends [OF s]
    have "y = None" using cs ss by (cases y) auto
    then show ?thesis using xs Some z ss cs ev held submit_address [OF s] by (auto simp: seen_status_def)
  qed
qed

theorem page_sends_only_when_open_witness:
  "length (snd (page_step ex_key_decoders 5000 (Pick_Tab Taz) (fst (page_run ex_key_decoders ex_hold first_page)))) \<le> 1"
proof -
  let ?p = "fst (page_run ex_key_decoders ex_hold first_page)"
  obtain q xs where s: "page_step ex_key_decoders 5000 (Pick_Tab Taz) ?p = (q, xs)" by (rule prod.exhaust)
  from page_sends_only_when_open [OF s] s show ?thesis by simp
qed

end
