(* ===== verification/Sha256.thy ===== *)
theory Sha256
  imports Complex_Main "HOL-Library.Word"
begin

unbundle bit_operations_syntax

text \<open>
  The SHA-256 digest of FIPS 180-4, as the reference the page's solver is compared with: padding, the
  message schedule as a recurrence, the compression function, and the round constants as the first 32 bits
  of the fractional parts of the cube roots of the first 64 primes (the initial hash value: the square
  roots of the first eight). Messages are whole bytes. Nothing of this file is code of the repository.
\<close>

subsection \<open>Big-endian words\<close>

definition be32 :: "8 word list \<Rightarrow> 32 word" where
  "be32 bs = word_of_nat (foldl (\<lambda>n b. 256 * n + unat b) 0 bs)"

definition bytes_of32 :: "32 word \<Rightarrow> 8 word list" where
  "bytes_of32 w = map (\<lambda>k. word_of_nat (unat w div 2 ^ k)) [24, 16, 8, 0]"

lemma length_bytes_of32 [simp]: "length (bytes_of32 w) = 4"
  by (simp add: bytes_of32_def)

subsection \<open>The functions of section 4.1.2\<close>

definition Ch :: "32 word \<Rightarrow> 32 word \<Rightarrow> 32 word \<Rightarrow> 32 word" where
  "Ch x y z = (x AND y) XOR (NOT x AND z)"

definition Maj :: "32 word \<Rightarrow> 32 word \<Rightarrow> 32 word \<Rightarrow> 32 word" where
  "Maj x y z = (x AND y) XOR (x AND z) XOR (y AND z)"

definition Sigma0 :: "32 word \<Rightarrow> 32 word" where
  "Sigma0 x = word_rotr 2 x XOR word_rotr 13 x XOR word_rotr 22 x"

definition Sigma1 :: "32 word \<Rightarrow> 32 word" where
  "Sigma1 x = word_rotr 6 x XOR word_rotr 11 x XOR word_rotr 25 x"

definition sigma0 :: "32 word \<Rightarrow> 32 word" where
  "sigma0 x = word_rotr 7 x XOR word_rotr 18 x XOR drop_bit 3 x"

definition sigma1 :: "32 word \<Rightarrow> 32 word" where
  "sigma1 x = word_rotr 17 x XOR word_rotr 19 x XOR drop_bit 10 x"

subsection \<open>The constants of sections 4.2.2 and 5.3.3\<close>

definition small_primes :: "nat list" where
  "small_primes = filter (\<lambda>n. \<forall>d\<in>set [2..<18]. n \<le> d \<or> n mod d \<noteq> 0) [2..<312]"

definition fips_K :: "32 word list" where
  "fips_K = map (\<lambda>p. word_of_int \<lfloor>2 ^ 32 * root 3 (real p)\<rfloor>) small_primes"

definition fips_H0 :: "32 word list" where
  "fips_H0 = map (\<lambda>p. word_of_int \<lfloor>2 ^ 32 * sqrt (real p)\<rfloor>) (take 8 small_primes)"

subsection \<open>Padding, schedule, compression: sections 5 and 6.2\<close>

definition fips_pad :: "8 word list \<Rightarrow> 8 word list" where
  "fips_pad msg = msg @ [0x80] @ replicate ((119 - length msg mod 64) mod 64) 0
     @ map (\<lambda>k. word_of_nat (8 * length msg div 2 ^ k)) [56, 48, 40, 32, 24, 16, 8, 0]"

definition fips_blocks :: "8 word list \<Rightarrow> 32 word list list" where
  "fips_blocks n = map (\<lambda>i. map (\<lambda>j. be32 (take 4 (drop (64 * i + 4 * j) n))) [0..<16]) [0..<length n div 64]"

fun fips_W :: "32 word list \<Rightarrow> nat \<Rightarrow> 32 word" where
  "fips_W m t = (if t < 16 then m ! t
     else sigma1 (fips_W m (t - 2)) + fips_W m (t - 7) + sigma0 (fips_W m (t - 15)) + fips_W m (t - 16))"

declare fips_W.simps [simp del]

type_synonym working = "32 word \<times> 32 word \<times> 32 word \<times> 32 word \<times> 32 word \<times> 32 word \<times> 32 word \<times> 32 word"

definition fips_round :: "32 word list \<Rightarrow> working \<Rightarrow> nat \<Rightarrow> working" where
  "fips_round m v t = (case v of (a, b, c, d, e, f, g, h) \<Rightarrow>
     let T1 = h + Sigma1 e + Ch e f g + fips_K ! t + fips_W m t;
         T2 = Sigma0 a + Maj a b c
     in (T1 + T2, a, b, c, d + T1, e, f, g))"

definition add_working :: "working \<Rightarrow> working \<Rightarrow> working" where
  "add_working u v = (case u of (a, b, c, d, e, f, g, h) \<Rightarrow> case v of (a', b', c', d', e', f', g', h') \<Rightarrow>
     (a + a', b + b', c + c', d + d', e + e', f + f', g + g', h + h'))"

definition fips_block :: "working \<Rightarrow> 32 word list \<Rightarrow> working" where
  "fips_block H m = add_working H (foldl (fips_round m) H [0..<64])"

definition working_words :: "working \<Rightarrow> 32 word list" where
  "working_words v = (case v of (a, b, c, d, e, f, g, h) \<Rightarrow> [a, b, c, d, e, f, g, h])"

definition working_of :: "32 word list \<Rightarrow> working" where
  "working_of l = (l ! 0, l ! 1, l ! 2, l ! 3, l ! 4, l ! 5, l ! 6, l ! 7)"

definition fips_sha256 :: "8 word list \<Rightarrow> 8 word list" where
  "fips_sha256 msg =
     concat (map bytes_of32 (working_words (foldl fips_block (working_of fips_H0) (fips_blocks (fips_pad msg)))))"

lemma length_fips_sha256: "length (fips_sha256 msg) = 32"
  by (simp add: fips_sha256_def working_words_def split: prod.split)

text \<open>The padding is the one the standard asks for: the fewest zero bytes that leave room for the length.\<close>

lemma fips_zeros_value: "r < 64 \<Longrightarrow> (119 - r) mod 64 = (if r \<le> 55 then 55 - r else 119 - (r :: nat))"
proof (cases "r \<le> 55")
  case True
  then have "119 - r = 55 - r + 64" by linarith
  then have "(119 - r) mod 64 = (55 - r) mod 64" by (simp only: mod_add_self2)
  also have "\<dots> = 55 - r" by (rule mod_less) linarith
  finally show ?thesis using True by (simp only: if_True)
qed simp

lemma split64:
  fixes l :: nat
  obtains q r where "l = 64 * q + r" and "r < 64"
  using that [of "l div 64" "l mod 64"] by simp

lemma fips_zeros: "(l + 1 + (119 - l mod 64) mod 64) mod 64 = (56 :: nat)"
proof -
  obtain q r where l: "l = 64 * q + r" and r: "r < 64" by (rule split64)
  have "l + 1 + (119 - r) mod 64 = 56 + 64 * (q + (if r \<le> 55 then 0 else 1))"
    unfolding fips_zeros_value [OF r] l using r by auto
  then have "(l + 1 + (119 - r) mod 64) mod 64 = 56" by (simp only: mod_mult_self2) simp
  then show ?thesis using l r by simp
qed

lemma fips_zeros_least: "(l + 1 + z) mod 64 = 56 \<Longrightarrow> (119 - l mod 64) mod 64 \<le> (z :: nat)"
proof -
  assume z: "(l + 1 + z) mod 64 = 56"
  obtain q r where l: "l = 64 * q + r" and r: "r < 64" by (rule split64)
  have "l + 1 + z = (r + 1 + z) + 64 * q" using l by simp
  then have z: "(r + 1 + z) mod 64 = 56" using z by (simp only: mod_mult_self2)
  have "(119 - r) mod 64 \<le> z"
  proof (rule ccontr)
    assume "\<not> ?thesis"
    then have less: "z < (if r \<le> 55 then 55 - r else 119 - r)" unfolding fips_zeros_value [OF r] by simp
    show False
    proof (cases "r + 1 + z < 64")
      case True
      then have "r + 1 + z = 56" using z by (simp only: mod_less)
      then show False using less r by (auto split: if_splits)
    next
      case False
      then have "(r + 1 + z) mod 64 = (r + 1 + z - 64) mod 64" by (simp only: le_mod_geq not_less)
      also have "\<dots> = r + 1 + z - 64" by (rule mod_less) (use less r in \<open>auto split: if_splits\<close>)
      finally show False using z less r False by (auto split: if_splits)
    qed
  qed
  then show ?thesis using l r by simp
qed

lemma fips_pad_blocks: "64 dvd length (fips_pad msg)"
proof -
  let ?n = "length msg + 1 + (119 - length msg mod 64) mod 64"
  have "length (fips_pad msg) = ?n + 8" by (simp add: fips_pad_def)
  also have "\<dots> mod 64 = (?n mod 64 + 8) mod 64" by (simp only: mod_add_left_eq)
  also have "\<dots> = 0" unfolding fips_zeros by simp
  finally show ?thesis by (rule mod_0_imp_dvd)
qed

subsection \<open>Evaluating a block with a window of sixteen words\<close>

text \<open>
  One pass over the constants that keeps the last sixteen words of the schedule: the form in which a concrete
  digest is evaluated.
\<close>

definition round_with :: "working \<Rightarrow> 32 word \<Rightarrow> 32 word \<Rightarrow> working" where
  "round_with v k w = (case v of (a, b, c, d, e, f, g, h) \<Rightarrow>
     let T1 = h + Sigma1 e + Ch e f g + k + w in (T1 + (Sigma0 a + Maj a b c), a, b, c, d + T1, e, f, g))"

fun run_window :: "working \<Rightarrow> 32 word list \<Rightarrow> 32 word list \<Rightarrow> working" where
  "run_window v win [] = v"
| "run_window v [] (k # ks) = v"
| "run_window v (x # win) (k # ks) =
     run_window (round_with v k x) (win @ [sigma1 (win ! 13) + win ! 8 + sigma0 (win ! 0) + x]) ks"

lemma run_window_is_rounds:
  assumes "win = map (fips_W m) [i..<i + 16]"
  shows "run_window v win (drop i fips_K) = foldl (fips_round m) v [i..<length fips_K]"
  using assms
proof (induction "length fips_K - i" arbitrary: i v win)
  case 0
  then show ?case by simp
next
  case (Suc n)
  then have i: "i < length fips_K" by simp
  have win: "win = fips_W m i # map (fips_W m) [Suc i..<i + 16]" using Suc.prems by (simp add: upt_conv_Cons)
  let ?r = "map (fips_W m) [Suc i..<i + 16]"
  have "fips_W m (i + 16) = sigma1 (fips_W m (i + 14)) + fips_W m (i + 9) + sigma0 (fips_W m (i + 1)) + fips_W m i"
    by (subst fips_W.simps) (simp add: numeral_eq_Suc)
  then have next': "sigma1 (?r ! 13) + ?r ! 8 + sigma0 (?r ! 0) + fips_W m i = fips_W m (i + 16)" by (simp add: add.commute)
  have "[Suc i..<i + 16] @ [i + 16] = [Suc i..<Suc (i + 16)]" by (rule upt_Suc_append [symmetric]) simp
  then have "[Suc i..<i + 16] @ [i + 16] = [Suc i..<Suc i + 16]" by (simp only: add_Suc)
  then have "?r @ [fips_W m (i + 16)] = map (fips_W m) [Suc i..<Suc i + 16]" by (metis list.simps(8,9) map_append)
  moreover have "drop i fips_K = fips_K ! i # drop (Suc i) fips_K" using i by (rule Cons_nth_drop_Suc [symmetric])
  moreover have "[i..<length fips_K] = i # [Suc i..<length fips_K]" using i by (rule upt_conv_Cons)
  moreover have "round_with v (fips_K ! i) (fips_W m i) = fips_round m v i"
    by (simp add: round_with_def fips_round_def Let_def)
  moreover have "n = length fips_K - Suc i" using Suc.hyps(2) by simp
  ultimately show ?case
    unfolding win using Suc.hyps(1) [of "Suc i" "map (fips_W m) [Suc i..<Suc i + 16]" "fips_round m v i"] next' by simp
qed

end
