(* ===== verification/Pow_Worker.thy ===== *)
theory Pow_Worker
  imports Complex_Main Sha256 Pow Js_String "HOL-Library.Word"
begin

unbundle bit_operations_syntax

text \<open>
  The browser's side of the proof of work: \<open>src/public/pow-worker.js\<close>, the static worker that searches for a
  nonce. Its SHA-256 is translated as it is written, on 32-bit words: \<open>| 0\<close> after a sum of at most five such
  values (exact as a double) is addition on words, \<open>>>>\<close> is \<open>drop_bit\<close>, \<open><<\<close> is \<open>push_bit\<close>, \<open>>>\<close> is
  \<open>signed_drop_bit\<close>. The schedule array is one array that every block overwrites.
  A count of hashes is a JavaScript number: an increment at \<open>2 ^ 53\<close> changes nothing.
\<close>

subsection \<open>The digest\<close>

text \<open>The table, one list for each line of the source.\<close>

definition K :: "32 word list" where
  "K = concat [
    [0x428a2f98, 0x71374491, 0xb5c0fbcf, 0xe9b5dba5, 0x3956c25b, 0x59f111f1, 0x923f82a4, 0xab1c5ed5],
    [0xd807aa98, 0x12835b01, 0x243185be, 0x550c7dc3, 0x72be5d74, 0x80deb1fe, 0x9bdc06a7, 0xc19bf174],
    [0xe49b69c1, 0xefbe4786, 0x0fc19dc6, 0x240ca1cc, 0x2de92c6f, 0x4a7484aa, 0x5cb0a9dc, 0x76f988da],
    [0x983e5152, 0xa831c66d, 0xb00327c8, 0xbf597fc7, 0xc6e00bf3, 0xd5a79147, 0x06ca6351, 0x14292967],
    [0x27b70a85, 0x2e1b2138, 0x4d2c6dfc, 0x53380d13, 0x650a7354, 0x766a0abb, 0x81c2c92e, 0x92722c85],
    [0xa2bfe8a1, 0xa81a664b, 0xc24b8b70, 0xc76c51a3, 0xd192e819, 0xd6990624, 0xf40e3585, 0x106aa070],
    [0x19a4c116, 0x1e376c08, 0x2748774c, 0x34b0bcb5, 0x391c0cb3, 0x4ed8aa4a, 0x5b9cca4f, 0x682e6ff3],
    [0x748f82ee, 0x78a5636f, 0x84c87814, 0x8cc70208, 0x90befffa, 0xa4506ceb, 0xbef9a3f7, 0xc67178f2]]"

definition rotr :: "32 word \<Rightarrow> nat \<Rightarrow> 32 word" where
  "rotr x n = drop_bit n x OR push_bit (32 - n) x"

text \<open>\<open>((((l + 8) >> 6) + 1) << 6) >>> 0\<close>, with the conversions to 32 bits of JavaScript's shifts.\<close>

definition padded_length :: "nat \<Rightarrow> nat" where
  "padded_length l = unat (push_bit 6 (signed_drop_bit 6 (word_of_nat (l + 8) :: 32 word) + 1))"

text \<open>\<open>DataView\<close>, big-endian.\<close>

definition get_uint32 :: "8 word list \<Rightarrow> nat \<Rightarrow> 32 word" where
  "get_uint32 m off = be32 (take 4 (drop off m))"

definition set_uint32 :: "8 word list \<Rightarrow> nat \<Rightarrow> 32 word \<Rightarrow> 8 word list" where
  "set_uint32 m off v = take off m @ bytes_of32 v @ drop (off + 4) m"

text \<open>
  The padded message. \<open>m.set(msg)\<close> throws when the array is shorter than the message (its length has
  wrapped around), and \<open>setUint32\<close> when the offset is negative: \<open>None\<close>.
\<close>

definition padded_message :: "8 word list \<Rightarrow> 8 word list option" where
  "padded_message msg =
     (let l = length msg; bitLen = 8 * l; padded = padded_length l in
      if padded < l \<or> padded < 8 then None
      else let m = (msg @ replicate (padded - l) 0)[l := 0x80];
               m = set_uint32 m (padded - 8) (word_of_nat (bitLen div 0x100000000))
           in Some (set_uint32 m (padded - 4) (word_of_nat bitLen)))"

definition load_word :: "8 word list \<Rightarrow> nat \<Rightarrow> 32 word list \<Rightarrow> nat \<Rightarrow> 32 word list" where
  "load_word m off w i = w[i := get_uint32 m (off + i * 4)]"

definition extend_schedule :: "32 word list \<Rightarrow> nat \<Rightarrow> 32 word list" where
  "extend_schedule w i =
     (let s0 = rotr (w ! (i - 15)) 7 XOR rotr (w ! (i - 15)) 18 XOR drop_bit 3 (w ! (i - 15));
          s1 = rotr (w ! (i - 2)) 17 XOR rotr (w ! (i - 2)) 19 XOR drop_bit 10 (w ! (i - 2))
      in w[i := w ! (i - 16) + s0 + w ! (i - 7) + s1])"

definition compress_step :: "32 word list \<Rightarrow> working \<Rightarrow> nat \<Rightarrow> working" where
  "compress_step w v i = (case v of (a, b, c, d, e, f, g, h) \<Rightarrow>
     let S1 = rotr e 6 XOR rotr e 11 XOR rotr e 25;
         ch = (e AND f) XOR (NOT e AND g);
         t1 = h + S1 + ch + K ! i + w ! i;
         S0 = rotr a 2 XOR rotr a 13 XOR rotr a 22;
         maj = (a AND b) XOR (a AND c) XOR (b AND c);
         t2 = S0 + maj
     in (t1 + t2, a, b, c, d + t1, e, f, g))"

definition hash_block :: "8 word list \<Rightarrow> working \<times> 32 word list \<Rightarrow> nat \<Rightarrow> working \<times> 32 word list" where
  "hash_block m hw off =
     (let w = foldl extend_schedule (foldl (load_word m off) (snd hw) [0..<16]) [16..<64]
      in (add_working (fst hw) (foldl (compress_step w) (fst hw) [0..<64]), w))"

function block_loop :: "8 word list \<Rightarrow> nat \<Rightarrow> nat \<Rightarrow> working \<times> 32 word list \<Rightarrow> working \<times> 32 word list" where
  "block_loop m padded off hw =
     (if off < padded then block_loop m padded (off + 64) (hash_block m hw off) else hw)"
  by pat_completeness auto
termination by (relation "measure (\<lambda>(m, padded, off, hw). padded - off)") auto

declare block_loop.simps [simp del]

definition initial_hash :: working where
  "initial_hash = (0x6a09e667, 0xbb67ae85, 0x3c6ef372, 0xa54ff53a, 0x510e527f, 0x9b05688c, 0x1f83d9ab, 0x5be0cd19)"

definition sha256 :: "8 word list \<Rightarrow> 8 word list option" where
  "sha256 msg = (case padded_message msg of None \<Rightarrow> None
     | Some m \<Rightarrow> let (hs, w) = block_loop m (length m) 0 (initial_hash, replicate 64 0)
                in Some (concat (map bytes_of32 (working_words hs))))"

subsection \<open>The difficulty test\<close>

text \<open>The inner loop \<open>for (mask = 0x80; mask > 0; mask >>= 1)\<close>; it falls through to \<open>return bits\<close>.\<close>

function zeros_from :: "8 word \<Rightarrow> nat \<Rightarrow> nat \<Rightarrow> nat" where
  "zeros_from x m bits =
     (if 0 < m then if x AND word_of_nat m \<noteq> 0 then bits else zeros_from x (m div 2) (bits + 1) else bits)"
  by pat_completeness auto
termination by (relation "measure (\<lambda>(x, m, bits). m)") auto

declare zeros_from.simps [simp del]

fun leadingZeroBits :: "8 word list \<Rightarrow> nat \<Rightarrow> nat" where
  "leadingZeroBits [] bits = bits"
| "leadingZeroBits (x # d) bits = (if x = 0 then leadingZeroBits d (bits + 8) else zeros_from x 0x80 bits)"

subsection \<open>The search\<close>

text \<open>
  \<open>TextEncoder.encode\<close> for the code units below 256, the ones a character of the model can be.
\<close>

definition utf8_char :: "char \<Rightarrow> 8 word list" where
  "utf8_char c = (let n = of_char c :: nat in
     if n < 128 then [word_of_nat n] else [word_of_nat (192 + n div 64), word_of_nat (128 + n mod 64)])"

definition encode :: "string \<Rightarrow> 8 word list" where
  "encode s = concat (map utf8_char s)"

definition js_succ :: "nat \<Rightarrow> nat" where
  "js_succ n = (if n < 2 ^ 53 then n + 1 else n)"

text \<open>The messages to the page; an exception reaches it as \<open>onerror\<close>.\<close>

datatype solver_message =
  Progress (msg_hashes: nat) (msg_ms: int)
| Found (msg_nonce: string) (msg_hashes: nat) (msg_ms: int)
| Worker_Error

text \<open>
  The endless \<open>for (;;)\<close>: the value is the list of messages posted, \<open>None\<close> when the loop never ends.
  \<open>clock h\<close> is the milliseconds since the start when the \<open>h\<close>-th hash is done.
\<close>

partial_function (option) solver_loop ::
  "(nat \<Rightarrow> int) \<Rightarrow> string \<Rightarrow> int \<Rightarrow> nat \<Rightarrow> nat \<Rightarrow> solver_message list option" where
  "solver_loop clock seed difficulty nonce hashes =
     (let hashes = js_succ hashes in
      case sha256 (encode (seed @ '':'' @ show_nat nonce)) of
        None \<Rightarrow> Some [Worker_Error]
      | Some d \<Rightarrow>
          if difficulty \<le> int (leadingZeroBits d 0) then Some [Found (show_nat nonce) hashes (clock hashes)]
          else Option.bind (solver_loop clock seed difficulty (js_succ nonce) hashes)
                 (\<lambda>ms. Some ((if hashes mod 0x2000 = 0 then [Progress hashes (clock hashes)] else []) @ ms)))"

declare solver_loop.simps [code]

definition onmessage :: "(nat \<Rightarrow> int) \<Rightarrow> string \<Rightarrow> int \<Rightarrow> solver_message list option" where
  "onmessage clock seed difficulty = solver_loop clock seed difficulty 0 0"

subsection \<open>The constants are the standard's\<close>

lemma floor_root3:
  assumes "r ^ 3 \<le> int p * 2 ^ 96" and "int p * 2 ^ 96 < (r + 1) ^ 3" and "0 \<le> r"
  shows "\<lfloor>2 ^ 32 * root 3 (real p)\<rfloor> = r"
proof -
  let ?x = "2 ^ 32 * root 3 (real p)"
  have x: "?x ^ 3 = real p * 2 ^ 96" by (simp add: power_mult_distrib)
  have "real_of_int (r ^ 3) \<le> real_of_int (int p * 2 ^ 96)" using assms(1) by (rule of_int_le_iff [THEN iffD2])
  then have "of_int r ^ 3 \<le> ?x ^ 3" unfolding x by simp
  then have le: "of_int r \<le> ?x" by (rule power_le_imp_le_base [of _ 2, simplified]) simp
  have "real_of_int (int p * 2 ^ 96) < real_of_int ((r + 1) ^ 3)" using assms(2) by (rule of_int_less_iff [THEN iffD2])
  then have "?x ^ 3 < (of_int r + 1) ^ 3" unfolding x by simp
  then have "?x < of_int r + 1" by (rule power_less_imp_less_base) (use assms(3) in simp)
  with le show ?thesis by linarith
qed

lemma floor_sqrt:
  assumes "r ^ 2 \<le> int p * 2 ^ 64" and "int p * 2 ^ 64 < (r + 1) ^ 2" and "0 \<le> r"
  shows "\<lfloor>2 ^ 32 * sqrt (real p)\<rfloor> = r"
proof -
  let ?x = "2 ^ 32 * sqrt (real p)"
  have x: "?x ^ 2 = real p * 2 ^ 64" by (simp add: power_mult_distrib)
  have "real_of_int (r ^ 2) \<le> real_of_int (int p * 2 ^ 64)" using assms(1) by (rule of_int_le_iff [THEN iffD2])
  then have "of_int r ^ 2 \<le> ?x ^ 2" unfolding x by simp
  then have le: "of_int r \<le> ?x" by (rule power2_le_imp_le) simp
  have "real_of_int (int p * 2 ^ 64) < real_of_int ((r + 1) ^ 2)" using assms(2) by (rule of_int_less_iff [THEN iffD2])
  then have "?x ^ 2 < (of_int r + 1) ^ 2" unfolding x by simp
  then have "?x < of_int r + 1" by (rule power_less_imp_less_base) (use assms(3) in simp)
  with le show ?thesis by linarith
qed

lemma small_primes_value:
  "small_primes = [
    2, 3, 5, 7, 11, 13, 17, 19, 23, 29, 31, 37, 41, 43, 47, 53, 59, 61, 67, 71,
    73, 79, 83, 89, 97, 101, 103, 107, 109, 113, 127, 131, 137, 139, 149, 151, 157, 163, 167, 173,
    179, 181, 191, 193, 197, 199, 211, 223, 227, 229, 233, 239, 241, 251, 257, 263, 269, 271, 277, 281,
    283, 293, 307, 311]"
  by (simp add: small_primes_def upt_rec_numeral)

definition cube_roots :: "int list" where
  "cube_roots = [
    5411319704, 6194414737, 7344290767, 8215976869, 9551921755, 10098905585,
    11043570340, 11460697813, 12214315672, 13195500289, 13492127166, 14311783875,
    14809980276, 15046980094, 15499789991, 16133124468, 16720292289, 16907126662,
    17444216262, 17784676812, 17950125167, 18429019306, 18734950876, 19175934170,
    19734090066, 20001703533, 20132865992, 20390182855, 20516441075, 20764397895,
    21588763473, 21813078375, 22141143685, 22248366392, 22769593852, 22871018771,
    23170020180, 23461497531, 23651862830, 23931792517, 24205322401, 24295138891,
    24734567280, 24820601251, 24990902297, 25075189284, 25569408389, 26045227120,
    26200031510, 26276752392, 26428864332, 26653801653, 26727943347, 27092625994,
    27306805839, 27517677555, 27725365998, 27793908591, 27997534228, 28131656200,
    28198240250, 28526537963, 28973835255, 29099129074]"

definition square_roots :: "int list" where
  "square_roots = [6074000999, 7439101573, 9603838834, 11363415354, 14244795007, 15485724812, 17708603819, 18721328409]"

lemma cube_roots_are:
  "list_all2 (\<lambda>p r. r ^ 3 \<le> int p * 2 ^ 96 \<and> int p * 2 ^ 96 < (r + 1) ^ 3 \<and> 0 \<le> r) small_primes cube_roots"
  unfolding small_primes_value cube_roots_def by simp

lemma square_roots_are:
  "list_all2 (\<lambda>p r. r ^ 2 \<le> int p * 2 ^ 64 \<and> int p * 2 ^ 64 < (r + 1) ^ 2 \<and> 0 \<le> r) (take 8 small_primes) square_roots"
  unfolding small_primes_value square_roots_def by simp

lemma map_list_all2: "list_all2 P xs ys \<Longrightarrow> (\<And>x y. P x y \<Longrightarrow> f x = g y) \<Longrightarrow> map f xs = map g ys"
  by (induction rule: list_all2_induct) auto

lemma K_is_fips: "K = fips_K"
proof -
  have "fips_K = map word_of_int cube_roots"
    unfolding fips_K_def by (rule map_list_all2 [OF cube_roots_are]) (elim conjE, simp only: floor_root3)
  show ?thesis unfolding \<open>fips_K = map word_of_int cube_roots\<close> by (simp add: cube_roots_def K_def)
qed

lemma fips_H0_value: "fips_H0 = map word_of_int square_roots"
  unfolding fips_H0_def by (rule map_list_all2 [OF square_roots_are]) (elim conjE, simp only: floor_sqrt)

lemma initial_hash_is_fips: "initial_hash = working_of fips_H0"
  unfolding fips_H0_value by (simp add: square_roots_def initial_hash_def working_of_def)

text \<open>The standard's digest evaluates with the worker's constants.\<close>

lemmas fips_constants_code [code] = K_is_fips [symmetric] fips_H0_value

subsection \<open>The digest is SHA-256\<close>

lemma rotr_is_word_rotr: "n < 32 \<Longrightarrow> rotr x n = word_rotr n x"
proof (rule bit_word_eqI)
  fix k
  assume n: "n < 32" and "k < LENGTH(32)"
  then have k: "k < 32" by simp
  show "bit (rotr x n) k = bit (word_rotr n x) k"
  proof (cases "k + n < 32")
    case True
    then have "\<not> 32 - n \<le> k" by linarith
    then show ?thesis using n k True
      by (simp add: rotr_def bit_or_iff bit_drop_bit_eq bit_push_bit_iff bit_word_rotr_iff add.commute)
  next
    case False
    then have "(k + n) mod 32 = k - (32 - n)" using n k by (simp add: mod_if)
    moreover have "32 - n \<le> k" using False by linarith
    moreover have "\<not> bit x (n + k)" using False by (auto dest!: bit_imp_le_length)
    ultimately show ?thesis using False n k
      by (simp add: rotr_def bit_or_iff bit_drop_bit_eq bit_push_bit_iff bit_word_rotr_iff)
  qed
qed

lemma padded_length_value:
  assumes "l + 8 < 2 ^ 31"
  shows "padded_length l = 64 * ((l + 8) div 64 + 1)"
proof -
  let ?w = "word_of_nat (l + 8) :: 32 word" and ?q = "(l + 8) div 64"
  have w: "sint ?w = int (l + 8)"
    unfolding signed_of_nat using assms by (simp add: signed_take_bit_int_eq_self)
  have "sint (signed_drop_bit 6 ?w) = int ?q"
    unfolding sint_signed_drop_bit_eq w by (simp add: drop_bit_eq_div zdiv_int)
  then have "signed_drop_bit 6 ?w = word_of_int (int ?q)" by (metis scast_eq scast_id)
  then have "push_bit 6 (signed_drop_bit 6 ?w + 1) = (word_of_nat (64 * (?q + 1)) :: 32 word)"
    by (simp add: push_bit_eq_mult algebra_simps)
  moreover have "64 * (?q + 1) < 2 ^ 32" using assms by simp
  ultimately show ?thesis unfolding padded_length_def by (simp add: unsigned_of_nat take_bit_nat_eq_self del: of_nat_mult of_nat_add)
qed

lemma padded_length_fits:
  assumes "l + 8 < 2 ^ 31"
  shows "padded_length l = l + 1 + (119 - l mod 64) mod 64 + 8"
proof -
  obtain q r where l: "l = 64 * q + r" and r: "r < 64" by (rule split64)
  have z: "(119 - r) mod 64 = (if r \<le> 55 then 55 - r else 119 - r)" using r by (rule fips_zeros_value)
  have "(l + 8) div 64 = q + (if r \<le> 55 then 0 else 1)"
    by (rule div_nat_eqI) (use l r in auto)
  then have "padded_length l = 64 * (q + (if r \<le> 55 then 0 else 1) + 1)" using padded_length_value [OF assms] by simp
  moreover have "l mod 64 = r" using l r by simp
  ultimately show ?thesis using z l r by auto
qed

lemma low_half_bytes: "k \<le> 24 \<Longrightarrow> (word_of_nat (n mod 2 ^ 32 div 2 ^ k) :: 8 word) = word_of_nat (n div 2 ^ k)"
proof (rule bit_word_eqI)
  fix i
  assume "k \<le> 24" and "i < LENGTH(8)"
  then show "bit (word_of_nat (n mod 2 ^ 32 div 2 ^ k) :: 8 word) i = bit (word_of_nat (n div 2 ^ k) :: 8 word) i"
    unfolding drop_bit_eq_div [symmetric] take_bit_eq_mod [symmetric]
    by (transfer fixing: n k i) (auto simp: bit_simps)
qed

lemma bytes_of_length:
  assumes "n < 2 ^ 64"
  shows "bytes_of32 (word_of_nat (n div 0x100000000)) @ bytes_of32 (word_of_nat n)
    = map (\<lambda>k. word_of_nat (n div 2 ^ k)) [56, 48, 40, 32, 24, 16, 8, 0]"
proof -
  have "n div 0x100000000 < 2 ^ 32" using assms by (simp add: less_mult_imp_div_less)
  then have hi: "unat (word_of_nat (n div 0x100000000) :: 32 word) = n div 2 ^ 32"
    by (simp add: unsigned_of_nat take_bit_nat_eq_self)
  have lo: "unat (word_of_nat n :: 32 word) = n mod 2 ^ 32"
    by (simp add: unsigned_of_nat take_bit_eq_mod)
  have "n div 2 ^ 32 div 2 ^ k = n div 2 ^ (32 + k)" for k by (simp add: div_mult2_eq power_add)
  then have "bytes_of32 (word_of_nat (n div 0x100000000)) = map (\<lambda>k. word_of_nat (n div 2 ^ k)) [56, 48, 40, 32]"
    unfolding bytes_of32_def hi by simp
  moreover have "bytes_of32 (word_of_nat n) = map (\<lambda>k. word_of_nat (n div 2 ^ k)) [24, 16, 8, 0]"
    unfolding bytes_of32_def lo using low_half_bytes [of 24 n] low_half_bytes [of 16 n] low_half_bytes [of 8 n] low_half_bytes [of 0 n]
    by simp
  ultimately show ?thesis by simp
qed

lemma set_uint32_after: "set_uint32 (xs @ ys) (length xs) v = xs @ bytes_of32 v @ drop 4 ys"
  by (simp add: set_uint32_def)

text \<open>The padded array is the padding of the standard.\<close>

lemma padded_message_is_fips:
  assumes "length msg + 8 < 2 ^ 31"
  shows "padded_message msg = Some (fips_pad msg)"
proof -
  let ?l = "length msg" and ?z = "(119 - length msg mod 64) mod 64"
  have p: "padded_length ?l = ?l + (1 + (?z + 8))" using padded_length_fits [OF assms] by linarith
  have m: "(msg @ replicate (1 + (?z + 8)) 0)[?l := 0x80] = (msg @ [0x80] @ replicate ?z 0) @ replicate 8 0"
  proof -
    have "replicate (1 + (?z + 8)) (0 :: 8 word) = 0 # replicate ?z 0 @ replicate 8 0" by (simp only: replicate_add replicate_Suc One_nat_def replicate_0 append_Cons append_Nil)
    then show ?thesis by (simp add: list_update_append)
  qed
  let ?m = "msg @ [0x80] @ replicate ?z (0 :: 8 word)"
  have len: "length ?m = padded_length ?l - 8" "padded_length ?l - 4 = length ?m + 4" by (simp_all add: p)
  have set: "set_uint32 (set_uint32 (?m @ replicate 8 0) (length ?m) a) (length ?m + 4) b = ?m @ bytes_of32 a @ bytes_of32 b" for a b
  proof -
    have first: "set_uint32 (?m @ replicate 8 0) (length ?m) a = (?m @ bytes_of32 a) @ replicate 4 0"
      unfolding set_uint32_after by (simp add: drop_replicate)
    have second: "length ?m + 4 = length (?m @ bytes_of32 a)" by simp
    have "set_uint32 ((?m @ bytes_of32 a) @ replicate 4 0) (length (?m @ bytes_of32 a)) b = (?m @ bytes_of32 a) @ bytes_of32 b @ drop 4 (replicate 4 0)"
      by (rule set_uint32_after)
    then have "set_uint32 (set_uint32 (?m @ replicate 8 0) (length ?m) a) (length ?m + 4) b = (?m @ bytes_of32 a) @ bytes_of32 b @ drop 4 (replicate 4 0)"
      unfolding first second .
    then show ?thesis by (simp only: append_assoc drop_replicate diff_self_eq_0 replicate_0 append_Nil2)
  qed
  have "8 * ?l < 2 ^ 64" using assms by simp
  from bytes_of_length [OF this] have b: "bytes_of32 (word_of_nat (8 * ?l div 0x100000000)) @ bytes_of32 (word_of_nat (8 * ?l))
      = map (\<lambda>k. word_of_nat (8 * ?l div 2 ^ k)) [56, 48, 40, 32, 24, 16, 8, 0]" .
  have "padded_message msg = Some (?m @ bytes_of32 (word_of_nat (8 * ?l div 0x100000000)) @ bytes_of32 (word_of_nat (8 * ?l)))"
    unfolding padded_message_def Let_def len(2) len(1)[symmetric] set [symmetric] using m p by simp
  then show ?thesis unfolding b by (simp add: fips_pad_def)
qed

text \<open>The schedule array holds the recurrence of the standard, whatever an earlier block left in it.\<close>

definition block_words :: "8 word list \<Rightarrow> nat \<Rightarrow> 32 word list" where
  "block_words m off = map (\<lambda>j. be32 (take 4 (drop (off + 4 * j) m))) [0..<16]"

lemma load_words:
  assumes "length w = 64" and "n \<le> 64"
  shows "length (foldl (load_word m off) w [0..<n]) = 64
    \<and> (\<forall>i<n. foldl (load_word m off) w [0..<n] ! i = be32 (take 4 (drop (off + 4 * i) m)))"
  using assms(2)
proof (induction n)
  case (Suc n)
  then show ?case using assms(1)
    by (auto simp: load_word_def get_uint32_def nth_list_update less_Suc_eq mult.commute)
qed (use assms in simp)

lemma extend_is_fips:
  assumes "length w = 64" and "\<forall>i<k. w ! i = fips_W M i" and "16 \<le> k" and "k < 64"
  shows "length (extend_schedule w k) = 64 \<and> (\<forall>i<Suc k. extend_schedule w k ! i = fips_W M i)"
proof -
  have "fips_W M k = sigma1 (w ! (k - 2)) + w ! (k - 7) + sigma0 (w ! (k - 15)) + w ! (k - 16)"
    using assms by (subst fips_W.simps) simp
  then show ?thesis using assms
    by (auto simp: extend_schedule_def Let_def nth_list_update less_Suc_eq sigma0_def sigma1_def rotr_is_word_rotr algebra_simps)
qed

lemma schedule_is_fips:
  assumes "length w = 64" and "\<forall>i<16. w ! i = fips_W M i" and "n \<le> 48"
  shows "length (foldl extend_schedule w [16..<16 + n]) = 64
    \<and> (\<forall>i<16 + n. foldl extend_schedule w [16..<16 + n] ! i = fips_W M i)"
  using assms(3)
proof (induction n)
  case (Suc n)
  have "[16..<16 + Suc n] = [16..<16 + n] @ [16 + n]" unfolding add_Suc_right by (rule upt_Suc_append) simp
  then show ?case using Suc extend_is_fips [of "foldl extend_schedule w [16..<16 + n]" "16 + n" M] by simp
qed (use assms in simp)

lemma compress_is_fips:
  assumes "\<forall>i<n. w ! i = fips_W M i"
  shows "foldl (compress_step w) v [0..<n] = foldl (fips_round M) v [0..<n]"
  using assms
proof (induction n)
  case (Suc n)
  then show ?case
    by (simp add: compress_step_def fips_round_def Let_def rotr_is_word_rotr Sigma0_def Sigma1_def Ch_def Maj_def K_is_fips
        split: prod.split)
qed simp

lemma hash_block_is_fips:
  assumes "length (snd hw) = 64"
  shows "fst (hash_block m hw off) = fips_block (fst hw) (block_words m off) \<and> length (snd (hash_block m hw off)) = 64"
proof -
  let ?M = "block_words m off" and ?l = "foldl (load_word m off) (snd hw) [0..<16]"
  have "\<forall>i<16. ?l ! i = fips_W ?M i" and len: "length ?l = 64"
    using load_words [OF assms, of 16 m off] by (simp_all add: block_words_def fips_W.simps)
  from schedule_is_fips [OF len this(1), of 48]
  have "length (foldl extend_schedule ?l [16..<64]) = 64" "\<forall>i<64. foldl extend_schedule ?l [16..<64] ! i = fips_W ?M i" by simp_all
  then show ?thesis using compress_is_fips [of 64 "foldl extend_schedule ?l [16..<64]" ?M]
    by (simp add: hash_block_def fips_block_def Let_def)
qed

lemma block_loop_is_fips:
  assumes "length (snd hw) = 64" and "i \<le> n"
  shows "fst (block_loop m (64 * n) (64 * i) hw) = foldl fips_block (fst hw) (map (\<lambda>i. block_words m (64 * i)) [i..<n])"
  using assms(2,1)
proof (induction arbitrary: hw rule: inc_induct)
  case base
  then show ?case by (simp add: block_loop.simps)
next
  case (step i)
  have "block_loop m (64 * n) (64 * i) hw = block_loop m (64 * n) (64 * Suc i) (hash_block m hw (64 * i))"
    using step.hyps by (subst block_loop.simps) (simp add: add.commute)
  then show ?case using step hash_block_is_fips [OF step.prems, of m "64 * i"]
    by (simp add: upt_conv_Cons)
qed

lemma fips_blocks_words: "fips_blocks n = map (\<lambda>i. block_words n (64 * i)) [0..<length n div 64]"
  by (simp add: fips_blocks_def block_words_def)

lemma sha256_is_fips:
  assumes "length msg + 8 < 2 ^ 31"
  shows "sha256 msg = Some (fips_sha256 msg)"
proof -
  obtain n where n: "length (fips_pad msg) = 64 * n" using fips_pad_blocks by (auto elim: dvdE)
  have "fst (block_loop (fips_pad msg) (64 * n) (64 * 0) (initial_hash, replicate 64 0))
    = foldl fips_block initial_hash (fips_blocks (fips_pad msg))"
    using block_loop_is_fips [of "(initial_hash, replicate 64 0)" 0 n "fips_pad msg"]
    by (simp add: fips_blocks_words n)
  then show ?thesis
    by (simp add: sha256_def padded_message_is_fips [OF assms] fips_sha256_def n initial_hash_is_fips split_beta)
qed

subsection \<open>The worker's test is the server's\<close>

lemma zeros_from_is_mask_bits: "zeros_from x (2 ^ k) bits = bits + mask_bits x (rev [0..<Suc k])"
proof (induction k arbitrary: bits)
  case 0
  then show ?case by (simp add: zeros_from.simps [of x "Suc 0"] zeros_from.simps [of x 0] push_bit_eq_mult)
next
  case (Suc k)
  have "word_of_nat (2 ^ Suc k) = push_bit (Suc k) (1 :: 8 word)" by (simp add: push_bit_eq_mult)
  moreover have "2 ^ Suc k div 2 = (2 :: nat) ^ k" by simp
  ultimately show ?case using Suc.IH [of "bits + 1"] by (subst zeros_from.simps) (simp add: upt_Suc_append)
qed

lemma leadingZeroBits_is_server: "leadingZeroBits d bits = bits + leading_zero_bits d"
proof (induction d arbitrary: bits)
  case (Cons x d)
  have "rev [0..<Suc 7] = [7, 6, 5, 4, 3, 2, 1, 0 :: nat]" by (simp add: upt_rec)
  then show ?case using Cons.IH [of "bits + 8"] zeros_from_is_mask_bits [of x 7 bits] by (simp del: upt_Suc)
qed simp

lemma mask_bits_le: "mask_bits x l \<le> length l"
  by (induction l) auto

lemma leading_zero_bits_le: "leading_zero_bits d \<le> 8 * length d"
proof (induction d)
  case (Cons x d)
  then show ?case using mask_bits_le [of x "[7, 6, 5, 4, 3, 2, 1, 0]"] by simp
qed simp

subsection \<open>What the search returns\<close>

definition meets :: "string \<Rightarrow> int \<Rightarrow> nat \<Rightarrow> bool" where
  "meets seed difficulty nonce =
     (difficulty \<le> int (leading_zero_bits (fips_sha256 (encode (seed @ '':'' @ show_nat nonce)))))"

lemma length_utf8_char: "length (utf8_char c) \<le> 2"
  by (simp add: utf8_char_def Let_def)

lemma length_encode: "length (encode s) \<le> 2 * length s"
proof (induction s)
  case (Cons c s)
  then show ?case using length_utf8_char [of c] by (simp add: encode_def)
qed (simp add: encode_def)

lemma nonce_digest:
  assumes "length seed < 2 ^ 29" and "nonce \<le> 2 ^ 53"
  shows "sha256 (encode (seed @ '':'' @ show_nat nonce)) = Some (fips_sha256 (encode (seed @ '':'' @ show_nat nonce)))"
proof -
  have "nonce < 10 ^ 16" using assms(2) by simp
  then have "length (show_nat nonce) \<le> 16" by (intro length_show_nat) simp_all
  then have "length (encode (seed @ '':'' @ show_nat nonce)) + 8 < 2 ^ 31"
    using length_encode [of "seed @ '':'' @ show_nat nonce"] assms(1) by simp
  then show ?thesis by (rule sha256_is_fips)
qed

definition progress_messages :: "(nat \<Rightarrow> int) \<Rightarrow> nat \<Rightarrow> nat \<Rightarrow> solver_message list" where
  "progress_messages clock a b =
     map (\<lambda>h. Progress h (clock h)) (filter (\<lambda>h. h mod 0x2000 = 0) [Suc a..<Suc b])"

lemma solver_finds:
  assumes "length seed < 2 ^ 29" and "n \<le> 2 ^ 53" and "meets seed d n"
    and "k \<le> n" and "\<forall>j. k \<le> j \<and> j < n \<longrightarrow> \<not> meets seed d j"
  shows "solver_loop clock seed d k k = Some (progress_messages clock k n @ [Found (show_nat n) (js_succ n) (clock (js_succ n))])"
  using assms(4,5)
proof (induction rule: inc_induct)
  case base
  then show ?case using assms(3) nonce_digest [OF assms(1,2)]
    by (subst solver_loop.simps) (simp add: meets_def leadingZeroBits_is_server progress_messages_def Let_def)
next
  case (step k)
  then have no: "\<not> meets seed d k" and k: "js_succ k = Suc k" "k \<le> 2 ^ 53" using assms(2) by (auto simp: js_succ_def)
  have tail: "solver_loop clock seed d (Suc k) (Suc k)
      = Some (progress_messages clock (Suc k) n @ [Found (show_nat n) (js_succ n) (clock (js_succ n))])"
    using step by simp
  have "[Suc k..<Suc n] = Suc k # [Suc (Suc k)..<Suc n]" using step.hyps by (simp add: upt_conv_Cons del: upt_Suc)
  then have "progress_messages clock k n = (if Suc k mod 0x2000 = 0 then [Progress (Suc k) (clock (Suc k))] else [])
      @ progress_messages clock (Suc k) n"
    by (simp add: progress_messages_def del: upt_Suc)
  then show ?case using no nonce_digest [OF assms(1) k(2)]
    by (subst solver_loop.simps) (simp add: k(1) tail meets_def leadingZeroBits_is_server Let_def)
qed

lemma solver_returned:
  assumes "solver_loop clock seed d k h = Some ms"
  shows "length seed < 2 ^ 29 \<Longrightarrow> k \<le> 2 ^ 53 \<Longrightarrow> \<exists>n. n \<le> 2 ^ 53 \<and> meets seed d n"
proof -
  have "length seed < 2 ^ 29 \<longrightarrow> k \<le> 2 ^ 53 \<longrightarrow> (\<exists>n. n \<le> 2 ^ 53 \<and> meets seed d n)"
  proof (rule solver_loop.raw_induct [where P = "\<lambda>clock seed d k h ms. length seed < 2 ^ 29 \<longrightarrow> k \<le> 2 ^ 53
      \<longrightarrow> (\<exists>n. n \<le> 2 ^ 53 \<and> meets seed d n)", OF _ assms], intro impI)
    fix solver clock seed d k h ms
    assume IH: "\<And>clock seed d k h ms. solver clock seed d k h = Some ms \<Longrightarrow> length seed < 2 ^ 29 \<longrightarrow> k \<le> 2 ^ 53
        \<longrightarrow> (\<exists>n. n \<le> 2 ^ 53 \<and> meets seed d n)"
      and step: "(let hashes = js_succ h in case sha256 (encode (seed @ '':'' @ show_nat k)) of None \<Rightarrow> Some [Worker_Error]
        | Some D \<Rightarrow> if d \<le> int (leadingZeroBits D 0) then Some [Found (show_nat k) hashes (clock hashes)]
          else Option.bind (solver clock seed d (js_succ k) hashes)
            (\<lambda>ms. Some ((if hashes mod 0x2000 = 0 then [Progress hashes (clock hashes)] else []) @ ms))) = Some ms"
      and l: "length seed < 2 ^ 29" and k: "k \<le> 2 ^ 53"
    show "\<exists>n. n \<le> 2 ^ 53 \<and> meets seed d n"
    proof (cases "meets seed d k")
      case False
      then obtain ms' where "solver clock seed d (js_succ k) (js_succ h) = Some ms'"
        using step nonce_digest [OF l k] by (auto simp: Let_def meets_def leadingZeroBits_is_server split: Option.bind_splits)
      moreover have "js_succ k \<le> 2 ^ 53" using k by (simp add: js_succ_def)
      ultimately show ?thesis using IH l by blast
    qed (use k in blast)
  qed
  then show "length seed < 2 ^ 29 \<Longrightarrow> k \<le> 2 ^ 53 \<Longrightarrow> \<exists>n. n \<le> 2 ^ 53 \<and> meets seed d n" by blast
qed

text \<open>
  C18: The solver's answer, on every seed and difficulty. It returns exactly when some number up to
  \<open>2 ^ 53\<close> solves the challenge, and then it posts the least one, the number of hashes it took, and before
  that one progress message per 8192 hashes; when there is none it never returns (the counter stops
  at \<open>2 ^ 53\<close> and the loop hashes that number for ever).
\<close>

theorem solver_returns_least_nonce:
  assumes "length seed < 2 ^ 29"
  shows "onmessage clock seed d =
    (if \<exists>n\<le>2 ^ 53. meets seed d n
     then let n = LEAST n. meets seed d n in
       Some (progress_messages clock 0 n @ [Found (show_nat n) (js_succ n) (clock (js_succ n))])
     else None)"
proof (cases "\<exists>n\<le>2 ^ 53. meets seed d n")
  case True
  let ?n = "LEAST n. meets seed d n"
  from True obtain m where m: "m \<le> 2 ^ 53" "meets seed d m" by blast
  have "meets seed d ?n" using m(2) by (rule LeastI)
  moreover have "?n \<le> 2 ^ 53" using Least_le [of "meets seed d" m] m by linarith
  moreover have "\<forall>j. 0 \<le> j \<and> j < ?n \<longrightarrow> \<not> meets seed d j" using not_less_Least by blast
  ultimately have "solver_loop clock seed d 0 0 = Some (progress_messages clock 0 ?n @ [Found (show_nat ?n) (js_succ ?n) (clock (js_succ ?n))])"
    using solver_finds [OF assms, of ?n d 0 clock] by blast
  then show ?thesis by (simp only: onmessage_def Let_def if_P [OF True])
next
  case False
  have "onmessage clock seed d = None"
  proof (rule ccontr)
    assume "\<not> ?thesis"
    then obtain ms where "solver_loop clock seed d 0 0 = Some ms" by (auto simp: onmessage_def)
    from solver_returned [OF this assms] False show False by blast
  qed
  then show ?thesis by (simp only: if_not_P [OF False])
qed

lemma no_nonce_meets_257_bits: "256 < d \<Longrightarrow> \<not> meets seed d n"
  using leading_zero_bits_le [of "fips_sha256 (encode (seed @ '':'' @ show_nat n))"]
  by (simp add: meets_def length_fips_sha256)

subsection \<open>A digest evaluated\<close>

lemma fips_one_block:
  assumes "length (fips_pad msg) = 64"
  shows "fips_sha256 msg = concat (map bytes_of32 (working_words (add_working initial_hash
      (run_window initial_hash (block_words (fips_pad msg) 0) K))))"
proof -
  let ?m = "block_words (fips_pad msg) 0"
  have "length fips_K = 64" unfolding K_is_fips [symmetric] by (simp add: K_def)
  moreover have "map (fips_W ?m) [0..<0 + 16] = ?m"
    by (rule nth_equalityI) (simp_all add: fips_W.simps block_words_def del: upt_Suc)
  ultimately have "run_window initial_hash ?m K = foldl (fips_round ?m) initial_hash [0..<64]"
    using run_window_is_rounds [of ?m ?m 0 initial_hash] by (simp add: K_is_fips)
  then show ?thesis
    by (simp add: fips_sha256_def fips_blocks_words assms fips_block_def initial_hash_is_fips)
qed

lemma replicate_by_numeral: "replicate (numeral n) x = x # replicate (pred_numeral n) x"
  by (simp add: numeral_eq_Suc)

text \<open>The digest of \<open>20e:0\<close>, whose first byte is zero: a challenge of eight bits that the first nonce solves.\<close>

lemma solved_rounds:
  "run_window initial_hash [0x3230653a, 0x30800000, 0x0, 0x0, 0x0, 0x0, 0x0, 0x0, 0x0, 0x0, 0x0, 0x0, 0x0, 0x0, 0x0, 0x28] K
    = (0x96e15b30, 0x2a7aa6af, 0x5e39515f, 0xa274d3a2, 0xc85cd321, 0xe78430d, 0x6f96d94f, 0x4bdc556c)"
  by code_simp

lemma solved_digest:
  "fips_sha256 (encode ''20e:0'') = [0, 235, 65, 151, 229, 226, 85, 52, 154, 168, 68, 209, 71, 196, 200, 220, 25, 107, 37, 160, 169, 125, 171, 153, 143, 26, 178, 250, 167, 189, 34, 133]"
proof -
  have enc: "encode ''20e:0'' = [0x32, 0x30, 0x65, 0x3a, 0x30]" by (simp add: encode_def utf8_char_def)
  have pad: "fips_pad [0x32, 0x30, 0x65, 0x3a, 0x30] = [50, 48, 101, 58, 48, 128, 0, 0, 0, 0, 0, 0, 0, 0, 0, 0, 0, 0, 0, 0, 0, 0, 0, 0, 0, 0, 0, 0, 0, 0, 0, 0, 0, 0, 0, 0, 0, 0, 0, 0, 0, 0, 0, 0, 0, 0, 0, 0, 0, 0, 0, 0, 0, 0, 0, 0, 0, 0, 0, 0, 0, 0, 0, 40]"
    by (simp add: fips_pad_def replicate_by_numeral)
  have "block_words (fips_pad [0x32, 0x30, 0x65, 0x3a, 0x30]) 0 = [0x3230653a, 0x30800000, 0x0, 0x0, 0x0, 0x0, 0x0, 0x0, 0x0, 0x0, 0x0, 0x0, 0x0, 0x0, 0x0, 0x28]"
    unfolding pad by (simp add: block_words_def be32_def upt_rec)
  then show ?thesis
    unfolding enc using fips_one_block [of "[0x32, 0x30, 0x65, 0x3a, 0x30]"] solved_rounds pad
    by (simp add: add_working_def initial_hash_def working_words_def bytes_of32_def)
qed

theorem solver_returns_least_nonce_witness:
  "onmessage int ''20e'' 8 = Some [Found ''0'' 1 1] \<and> onmessage int ''20e'' 257 = None"
proof -
  have "show_nat 0 = ''0''" by code_simp
  then have m: "meets ''20e'' 8 0" using solved_digest by (simp add: meets_def)
  then have "(LEAST n. meets ''20e'' 8 n) = 0" and ex: "\<exists>n\<le>2 ^ 53. meets ''20e'' 8 n" by (auto intro: Least_equality)
  then show ?thesis
    using solver_returns_least_nonce [of "''20e''" int 8] solver_returns_least_nonce [of "''20e''" int 257] \<open>show_nat 0 = ''0''\<close>
    by (simp add: no_nonce_meets_257_bits progress_messages_def js_succ_def if_P [OF ex])
qed

text \<open>
  C17: The page hashes with SHA-256. For every message shorter than 2 GiB the digest inlined in the worker,
  with its constants, its padding arithmetic on 32 bits, its one schedule array overwritten block after
  block and its wrapping sums, is the digest the standard defines.
\<close>

theorem worker_digest_is_sha256: "length msg + 8 < 2 ^ 31 \<Longrightarrow> sha256 msg = Some (fips_sha256 msg)"
  by (rule sha256_is_fips)

theorem worker_digest_is_sha256_witness:
  "sha256 (encode ''20e:0'') = Some [0, 235, 65, 151, 229, 226, 85, 52, 154, 168, 68, 209, 71, 196, 200, 220, 25, 107, 37, 160, 169, 125, 171, 153, 143, 26, 178, 250, 167, 189, 34, 133]"
  using worker_digest_is_sha256 [of "encode ''20e:0''"] length_encode [of "''20e:0''"] unfolding solved_digest by simp

end
