(* ===== verification/Page_Solver.thy ===== *)
theory Page_Solver
  imports Complex_Main Pow_Worker Routes
begin

text \<open>
  The page's \<open>solvePow\<close> (\<open>src/src/app/page.tsx\<close>): it asks for a challenge, runs the worker on it and resolves
  with the solution to send. One run is a sequence of events: the reply to the fetch, the messages of the
  worker, a click on Cancel, the page going away. A promise settles once; a terminated worker posts nothing.
  The last section puts the page, the worker, the challenge route and the claim handler together.
\<close>

subsection \<open>The run of one proof\<close>

datatype pow_reply =
  Pow_Refused "string option"
| Pow_Offered challenge

datatype solve_reason = Pow_Cancelled | No_Challenge string | Worker_Failed | Fetch_Failed

datatype solve_promise = Solving | Solved solution | Solve_Rejected solve_reason

record solve_state =
  sv_promise :: solve_promise
  sv_cancelled :: bool
  sv_canCancel :: bool
  sv_worker :: "challenge option"
  sv_shown :: "nat \<times> int option \<times> int"

datatype solve_event =
  Reply_Arrives pow_reply
| Fetch_Rejects
| Worker_Posts solver_message
| Cancel_Clicked
| Page_Left

definition solve_start :: solve_state where
  "solve_start = \<lparr>sv_promise = Solving, sv_cancelled = False, sv_canCancel = True, sv_worker = None, sv_shown = (0, None, 0)\<rparr>"

definition settle_with :: "solve_promise \<Rightarrow> solve_state \<Rightarrow> solve_state" where
  "settle_with p s = (if sv_promise s = Solving then s\<lparr>sv_promise := p\<rparr> else s)"

definition on_reply :: "pow_reply \<Rightarrow> solve_state \<Rightarrow> solve_state" where
  "on_reply r s =
     (if sv_cancelled s then s
      else case r of
        Pow_Refused e \<Rightarrow> settle_with (Solve_Rejected (No_Challenge (case e of None \<Rightarrow> ''no challenge''
            | Some t \<Rightarrow> if t = [] then ''no challenge'' else t))) (s\<lparr>sv_canCancel := False\<rparr>)
      | Pow_Offered ch \<Rightarrow> s\<lparr>sv_shown := (0, Some (ch_difficulty ch), 0), sv_worker := Some ch\<rparr>)"

definition on_solver_message :: "solver_message \<Rightarrow> solve_state \<Rightarrow> solve_state" where
  "on_solver_message m s =
     (case sv_worker s of
        None \<Rightarrow> s
      | Some ch \<Rightarrow>
          (case m of
             Progress h ms \<Rightarrow> s\<lparr>sv_shown := (h, fst (snd (sv_shown s)), ms)\<rparr>
           | Found n h ms \<Rightarrow> settle_with (Solved (challenge.extend ch \<lparr>sol_nonce = n\<rparr>)) (s\<lparr>sv_worker := None, sv_canCancel := False\<rparr>)
           | Worker_Error \<Rightarrow> settle_with (Solve_Rejected Worker_Failed) (s\<lparr>sv_worker := None, sv_canCancel := False\<rparr>)))"

definition on_cancel :: "solve_state \<Rightarrow> solve_state" where
  "on_cancel s = (if sv_canCancel s
     then settle_with (Solve_Rejected Pow_Cancelled) (s\<lparr>sv_cancelled := True, sv_worker := None, sv_canCancel := False\<rparr>) else s)"

fun solve_step :: "solve_state \<Rightarrow> solve_event \<Rightarrow> solve_state" where
  "solve_step s (Reply_Arrives r) = on_reply r s"
| "solve_step s Fetch_Rejects =
     (if sv_cancelled s then s else settle_with (Solve_Rejected Fetch_Failed) (s\<lparr>sv_canCancel := False\<rparr>))"
| "solve_step s (Worker_Posts m) = on_solver_message m s"
| "solve_step s Cancel_Clicked = on_cancel s"
| "solve_step s Page_Left = s\<lparr>sv_worker := None\<rparr>"

definition solve_run :: "solve_event list \<Rightarrow> solve_state" where
  "solve_run evs = foldl solve_step solve_start evs"

subsection \<open>What a run can end in\<close>

lemma solve_run_snoc: "solve_run (evs @ [e]) = solve_step (solve_run evs) e"
  by (simp add: solve_run_def)

text \<open>
  What holds after every sequence of events: a cancelled run has no worker and is settled; the Cancel
  button is there only while nothing is settled; a solution is the offered challenge with a nonce its
  worker reported, and no click on Cancel came before it.
\<close>

definition solution_from :: "solve_event list \<Rightarrow> solution \<Rightarrow> bool" where
  "solution_from evs sol =
     (\<exists>ch n h ms. sol = challenge.extend ch \<lparr>sol_nonce = n\<rparr> \<and> Reply_Arrives (Pow_Offered ch) \<in> set evs
        \<and> Worker_Posts (Found n h ms) \<in> set evs)"

lemma solution_from_later: "solution_from evs sol \<Longrightarrow> solution_from (evs @ later) sol"
  unfolding solution_from_def by auto

lemma solution_from_message:
  "Reply_Arrives (Pow_Offered ch) \<in> set evs \<Longrightarrow> solution_from (evs @ [Worker_Posts (Found n h ms)]) (challenge.extend ch \<lparr>sol_nonce = n\<rparr>)"
  unfolding solution_from_def by auto

definition solve_ok :: "solve_event list \<Rightarrow> solve_state \<Rightarrow> bool" where
  "solve_ok evs s =
     ((sv_cancelled s \<longrightarrow> sv_worker s = None \<and> sv_promise s \<noteq> Solving)
    \<and> (sv_canCancel s \<longrightarrow> sv_promise s = Solving)
    \<and> (\<forall>ch. sv_worker s = Some ch \<longrightarrow> Reply_Arrives (Pow_Offered ch) \<in> set evs)
    \<and> (\<forall>sol. sv_promise s = Solved sol \<longrightarrow> \<not> sv_cancelled s \<and> solution_from evs sol)
    \<and> (sv_promise s = Solve_Rejected Pow_Cancelled \<longrightarrow> sv_cancelled s))"

lemma solve_ok_step:
  assumes "solve_ok evs s"
  shows "solve_ok (evs @ [e]) (solve_step s e)"
proof (cases e)
  case (Reply_Arrives r)
  then show ?thesis using assms
    by (cases r) (auto simp: solve_ok_def on_reply_def settle_with_def intro: solution_from_later)
next
  case (Worker_Posts m)
  then show ?thesis using assms
    by (cases m) (auto simp: solve_ok_def on_solver_message_def settle_with_def intro: solution_from_later solution_from_message split: option.split)
qed (use assms in \<open>auto simp: solve_ok_def on_cancel_def settle_with_def intro: solution_from_later\<close>)

lemma solve_ok_run: "solve_ok evs (solve_run evs)"
proof (induction evs rule: rev_induct)
  case Nil
  show ?case by (simp add: solve_ok_def solve_run_def solve_start_def)
next
  case (snoc e evs)
  then show ?case by (simp add: solve_run_snoc solve_ok_step)
qed

lemma settled_stays: "sv_promise s \<noteq> Solving \<Longrightarrow> sv_promise (solve_step s e) = sv_promise s"
  by (cases e) (auto simp: on_reply_def on_solver_message_def on_cancel_def settle_with_def split: pow_reply.split option.split solver_message.split)

lemma settled_for_good:
  assumes "sv_promise (solve_run evs) \<noteq> Solving"
  shows "sv_promise (solve_run (evs @ later)) = sv_promise (solve_run evs)"
proof (induction later rule: rev_induct)
  case (snoc e later)
  then have "sv_promise (solve_run ((evs @ later) @ [e])) = sv_promise (solve_run (evs @ later))"
    unfolding solve_run_snoc using assms by (intro settled_stays) simp
  then show ?case using snoc by simp
qed simp

text \<open>
  A proof can be abandoned, and only the visitor's click abandons it. A click on Cancel while the
  promise is pending rejects it at once and stops the worker, and nothing that happens afterwards, a
  late challenge or a late nonce, starts a worker again or resolves it. What the promise does resolve to is
  the offered challenge, field by field, with a nonce its worker reported.
\<close>

theorem proof_can_be_abandoned:
  shows "(sv_promise (solve_run evs) = Solving \<longrightarrow> sv_canCancel (solve_run evs)
      \<longrightarrow> sv_promise (solve_run (evs @ Cancel_Clicked # later)) = Solve_Rejected Pow_Cancelled
        \<and> sv_worker (solve_run (evs @ Cancel_Clicked # later)) = None)
    \<and> (\<forall>sol. sv_promise (solve_run evs) = Solved sol \<longrightarrow>
        (\<exists>ch n h ms. sol = challenge.extend ch \<lparr>sol_nonce = n\<rparr> \<and> Reply_Arrives (Pow_Offered ch) \<in> set evs
          \<and> Worker_Posts (Found n h ms) \<in> set evs))"
proof (intro conjI impI)
  let ?c = "evs @ [Cancel_Clicked]"
  have again: "evs @ Cancel_Clicked # later = ?c @ later" by simp
  assume "sv_promise (solve_run evs) = Solving" and "sv_canCancel (solve_run evs)"
  then have c: "sv_promise (solve_run ?c) = Solve_Rejected Pow_Cancelled"
    by (simp add: solve_run_snoc on_cancel_def settle_with_def)
  then show p: "sv_promise (solve_run (evs @ Cancel_Clicked # later)) = Solve_Rejected Pow_Cancelled"
    unfolding again using settled_for_good [of ?c later] by simp
  then show "sv_worker (solve_run (evs @ Cancel_Clicked # later)) = None"
    using solve_ok_run [of "evs @ Cancel_Clicked # later"] by (simp add: solve_ok_def)
next
  show "\<forall>sol. sv_promise (solve_run evs) = Solved sol \<longrightarrow>
        (\<exists>ch n h ms. sol = challenge.extend ch \<lparr>sol_nonce = n\<rparr> \<and> Reply_Arrives (Pow_Offered ch) \<in> set evs
          \<and> Worker_Posts (Found n h ms) \<in> set evs)"
    using solve_ok_run [of evs] unfolding solve_ok_def solution_from_def by blast
qed

text \<open>
  Leaving the page stops a running worker but not the run: when the page goes away while the challenge is still
  being fetched, the reply starts a worker all the same and its nonce resolves the promise, so the claim behind
  it is sent from a page the visitor has left.
\<close>

theorem left_page_still_solves:
  "sv_promise (solve_run [Page_Left, Reply_Arrives (Pow_Offered ch), Worker_Posts (Found n h ms)])
    = Solved (challenge.extend ch \<lparr>sol_nonce = n\<rparr>)"
  by (simp add: solve_run_def solve_start_def on_reply_def on_solver_message_def settle_with_def)

subsection \<open>From the offered challenge to the admitted claim\<close>

lemma worker_messages_resolve:
  assumes "sv_worker s = Some ch" and "sv_promise s = Solving" and "\<forall>m\<in>set ps. \<exists>h t. m = Progress h t"
  shows "sv_promise (foldl solve_step s (map Worker_Posts (ps @ [Found n h t]))) = Solved (challenge.extend ch \<lparr>sol_nonce = n\<rparr>)"
  using assms
proof (induction ps arbitrary: s)
  case Nil
  then show ?case by (simp add: on_solver_message_def settle_with_def)
next
  case (Cons m ps)
  then obtain h t where "m = Progress h t" by auto
  then show ?case using Cons by (simp add: on_solver_message_def)
qed

lemma found_solution_resolves:
  assumes "length (ch_seed ch) < 2 ^ 29" and "n \<le> 2 ^ 53" and "meets (ch_seed ch) (ch_difficulty ch) n"
  obtains ms k where "onmessage clock (ch_seed ch) (ch_difficulty ch) = Some ms"
    and "sv_promise (solve_run (Reply_Arrives (Pow_Offered ch) # map Worker_Posts ms)) = Solved (challenge.extend ch \<lparr>sol_nonce = show_nat k\<rparr>)"
    and "meets (ch_seed ch) (ch_difficulty ch) k"
proof -
  let ?P = "meets (ch_seed ch) (ch_difficulty ch)"
  let ?n = "LEAST n. ?P n"
  let ?ms = "progress_messages clock 0 ?n @ [Found (show_nat ?n) (js_succ ?n) (clock (js_succ ?n))]"
  have ex: "\<exists>n\<le>2 ^ 53. ?P n" using assms(2,3) by blast
  have "\<forall>j. 0 \<le> j \<and> j < ?n \<longrightarrow> \<not> ?P j" using not_less_Least by blast
  moreover have "?n \<le> 2 ^ 53" using Least_le [of ?P, OF assms(3)] assms(2) by linarith
  moreover have "?P ?n" using assms(3) by (rule LeastI)
  ultimately have "onmessage clock (ch_seed ch) (ch_difficulty ch) = Some ?ms"
    unfolding onmessage_def using solver_finds [OF assms(1), of ?n _ 0 clock] by blast
  moreover have "sv_promise (solve_run (Reply_Arrives (Pow_Offered ch) # map Worker_Posts ?ms))
      = Solved (challenge.extend ch \<lparr>sol_nonce = show_nat ?n\<rparr>)"
    unfolding solve_run_def foldl_Cons
    by (rule worker_messages_resolve)
      (auto simp: solve_start_def on_reply_def progress_messages_def)
  ultimately show thesis using that \<open>?P ?n\<close> by blast
qed

text \<open>
  C16: The proof of work, from end to end. The server's challenge, its signature, the worker's own SHA-256 and
  search, the page's promise and the handler's check agree: when the gate is proof of work and some number up
  to \<open>2 ^ 53\<close> solves the offered challenge, the worker returns, the page's promise resolves, and a claim that
  carries what it resolved to passes the handler's check, from the same connection, before the challenge
  expires and with the signature not yet spent. The server's digest is assumed to be SHA-256 of the text.
\<close>

theorem page_proof_is_admitted:
  assumes "pow_challenge_route cfg lib seed t xff pw cx = ((res, Some ch, cx'), pw')"
    and "baseBits (rt_pow cfg) \<le> maxBits (rt_pow cfg)" and "0 \<le> escalateBits (rt_pow cfg)"
    and "seed \<noteq> []" and "length seed < 2 ^ 29"
    and "lib_sha256 lib = fips_sha256 \<circ> encode"
    and "n \<le> 2 ^ 53" and "meets seed (ch_difficulty ch) n"
    and "client_ip (rt_trustedProxies cfg) (ce_forwardedFor env) = client_ip (rt_trustedProxies cfg) xff"
    and "ce_verifyMs env div 1000 \<le> ch_exp ch"
    and "\<not> challenge_already_spent (ce_spentReadOk env) (ch_sig ch) (fs_ledger st)"
  shows "\<exists>ms sol. onmessage clock (ch_seed ch) (ch_difficulty ch) = Some ms
    \<and> sv_promise (solve_run (Reply_Arrives (Pow_Offered ch) # map Worker_Posts ms)) = Solved sol
    \<and> fst (check_pow cfg lib env (ccx\<lparr>cx_pow := Some sol\<rparr>) st) = None"
proof -
  have seed: "ch_seed ch = seed" using assms(1)
    by (auto simp: pow_challenge_route_def issue_challenge_def Let_def split: prod.splits option.splits if_splits)
  obtain ms k where ms: "onmessage clock (ch_seed ch) (ch_difficulty ch) = Some ms"
    and sol: "sv_promise (solve_run (Reply_Arrives (Pow_Offered ch) # map Worker_Posts ms))
      = Solved (challenge.extend ch \<lparr>sol_nonce = show_nat k\<rparr>)"
    and k: "meets seed (ch_difficulty ch) k"
    using found_solution_resolves [of ch n clock] assms(5,7,8) seed by metis
  have "ch_difficulty ch \<le> int (leading_zero_bits (lib_sha256 lib (seed @ '':'' @ show_nat k)))"
    using k unfolding meets_def assms(6) comp_def .
  then have "fst (check_pow cfg lib env (ccx\<lparr>cx_pow := Some (challenge.extend ch \<lparr>sol_nonce = show_nat k\<rparr>)\<rparr>) st) = None"
    using served_challenge_admits_claim [OF assms(1-4), of "ccx\<lparr>cx_pow := Some (challenge.extend ch \<lparr>sol_nonce = show_nat k\<rparr>)\<rparr>"
        "show_nat k" env st, THEN conjunct1] assms(9-11) by simp
  then show ?thesis using ms sol by blast
qed

definition real_libs :: libs where
  "real_libs = ex_libs\<lparr>lib_sha256 := fips_sha256 \<circ> encode\<rparr>"

lemma real_libs_others: "lib_fingerprint real_libs = lib_fingerprint ex_libs" "lib_hmac real_libs = lib_hmac ex_libs"
  by (simp_all add: real_libs_def)

lemma real_libs_route: "pow_challenge_route cfg real_libs seed t xff pw cx = pow_challenge_route cfg ex_libs seed t xff pw cx"
  by (simp only: pow_challenge_route_def real_libs_others)

definition offered :: challenge where
  "offered = the (fst (snd (fst (pow_challenge_route ex_pow_route ex_libs ''20e'' 5000 (Some ''9.9.9.9'') empty_pow ex_ctx))))"

theorem page_proof_is_admitted_witness:
  "\<exists>ms sol. onmessage (\<lambda>h. int h) (ch_seed offered) (ch_difficulty offered) = Some ms
    \<and> sv_promise (solve_run (Reply_Arrives (Pow_Offered offered) # map Worker_Posts ms)) = Solved sol
    \<and> fst (check_pow ex_pow_route real_libs (ex_env 9000 (Cl_Amount 50)) (ex_solved_ctx\<lparr>cx_pow := Some sol\<rparr>) ex_state) = None"
proof -
  let ?r = "pow_challenge_route ex_pow_route ex_libs ''20e'' 5000 (Some ''9.9.9.9'') empty_pow ex_ctx"
  obtain res oc cx' pw' where r: "?r = ((res, oc, cx'), pw')"
    by (cases ?r) (auto elim: prod_cases3)
  have "fst (snd (fst ?r)) \<noteq> None" by code_simp
  then have "oc = Some offered" using r by (cases oc) (auto simp: offered_def)
  note route = r [unfolded this, folded real_libs_route]
  have facts: "9000 div 1000 \<le> ch_exp offered" "ch_difficulty offered = 8"
    "\<not> challenge_already_spent True (ch_sig offered) empty_ledger"
    by code_simp+
  have "show_nat 0 = ''0''" by code_simp
  then have "meets ''20e'' 8 0" using solved_digest by (simp add: meets_def)
  then show ?thesis
    using page_proof_is_admitted [OF route, of 0 "ex_env 9000 (Cl_Amount 50)" ex_state "\<lambda>h. int h" ex_solved_ctx] facts
    by (simp add: ex_pow_route_def ex_route_def real_libs_def ex_env_def ex_libs_def ex_state_def ex_cfg_def pow_config_of_def)
qed

end
