(* ===== verification/Db_Driver.thy ===== *)
theory Db_Driver
  imports Complex_Main Js_String Migrations "HOL-Library.Word"
begin

unbundle bit_operations_syntax

text \<open>
  The two drivers of \<open>src/src/lib/db/driver.ts\<close> and the proxy in front of Cloudflare D1
  (\<open>src/worker/src/index.ts\<close>). The SQL engine is a parameter: a statement with its parameters on a database
  is an error text or the rows, the number of changes and the last row id, and the database afterwards. So is
  the text of an error reply (\<open>JSON.stringify\<close> of an object with one string). Between the driver and the proxy
  a request may arrive, be lost on the way there, or have its reply lost on the way back.
\<close>

type_synonym ('row, 'db) engine =
  "string \<Rightarrow> sql_value list \<Rightarrow> 'db \<Rightarrow> (string + 'row list \<times> int \<times> int) \<times> 'db"

record d1_run_result =
  rr_changes :: int
  rr_lastInsertRowid :: int

subsection \<open>The proxy\<close>

text \<open>\<open>header.replace(/^Bearer\s+/i, "")\<close>\<close>

definition strip_bearer :: "string \<Rightarrow> string" where
  "strip_bearer h =
     (if to_lower (take 6 h) = ''bearer'' \<and> drop 6 h \<noteq> [] \<and> is_space (hd (drop 6 h))
      then dropWhile is_space (drop 6 h) else h)"

definition char_code :: "char \<Rightarrow> 16 word" where
  "char_code c = word_of_nat (of_char c)"

definition safeEqual :: "string \<Rightarrow> string \<Rightarrow> bool" where
  "safeEqual a b =
     (if length a \<noteq> length b then False
      else foldl (\<lambda>diff i. diff OR (char_code (a ! i) XOR char_code (b ! i))) 0 [0..<length a] = 0)"

text \<open>The fields of the JSON body, and the body itself: not JSON, \<open>null\<close>, or anything with fields to read.\<close>

datatype body_field = F_Absent | F_Text string | F_Params "sql_value list" | F_Other

datatype proxy_body = Not_Json | Json_Null | Json_Fields body_field body_field

record proxy_request =
  pr_method :: string
  pr_authorization :: "string option"
  pr_body :: proxy_body

datatype 'row proxy_response =
  Px_Error nat string
| Px_Rows "'row list" int int
| Px_Uncaught

definition proxy_fetch ::
  "('row, 'db) engine \<Rightarrow> string \<Rightarrow> proxy_request \<Rightarrow> 'db \<Rightarrow> 'row proxy_response \<times> 'db" where
  "proxy_fetch eng secret req db =
     (if pr_method req \<noteq> ''POST'' then (Px_Error 405 ''POST only'', db)
      else let token = strip_bearer (nullish (pr_authorization req) []) in
      if secret = [] \<or> \<not> safeEqual token secret then (Px_Error 401 ''unauthorized'', db)
      else case pr_body req of
        Not_Json \<Rightarrow> (Px_Error 400 ''invalid json'', db)
      | Json_Null \<Rightarrow> (Px_Uncaught, db)
      | Json_Fields sql params \<Rightarrow>
          (case sql of
             F_Text q \<Rightarrow>
               (case eng q (case params of F_Params ps \<Rightarrow> ps | _ \<Rightarrow> []) db of
                  (Inl e, db') \<Rightarrow> (Px_Error 500 e, db')
                | (Inr (rows, changes, lastId), db') \<Rightarrow> (Px_Rows rows changes lastId, db'))
           | _ \<Rightarrow> (Px_Error 400 ''sql (string) required'', db)))"

subsection \<open>The driver of D1\<close>

record d1_driver =
  dv_url :: string
  dv_secret :: string

definition new_D1Driver :: "string \<Rightarrow> string \<Rightarrow> string + d1_driver" where
  "new_D1Driver url secret =
     (if url = [] \<or> secret = [] then Inl ''DB_BACKEND=d1 requires D1_PROXY_URL and D1_PROXY_SECRET.''
      else Inr \<lparr>dv_url = url, dv_secret = secret\<rparr>)"

text \<open>The value of a header arrives without the white space at its ends.\<close>

definition d1_request :: "d1_driver \<Rightarrow> string \<Rightarrow> sql_value list \<Rightarrow> proxy_request" where
  "d1_request dv sql params =
     \<lparr>pr_method = ''POST'', pr_authorization = Some (trim (''Bearer '' @ dv_secret dv)),
      pr_body = Json_Fields (F_Text sql) (F_Params params)\<rparr>"

text \<open>
  What \<open>fetch\<close> settles to: it rejects (also by the signal of \<open>AbortSignal.timeout(8000)\<close>), or there is a
  status with a text that may be unreadable, or a parsed body with the fields it may lack.
\<close>

datatype 'row d1_reply =
  Fetch_Rejected string
| Bad_Status nat "string option"
| Json_Reply "'row list option" "(int option \<times> int option) option"

definition d1_query :: "'row d1_reply \<Rightarrow> string + 'row list option \<times> (int option \<times> int option) option" where
  "d1_query reply = (case reply of
       Fetch_Rejected e \<Rightarrow> Inl e
     | Bad_Status status text \<Rightarrow> Inl (''D1 proxy '' @ show_nat status @ '': '' @ take 200 (nullish text []))
     | Json_Reply results meta \<Rightarrow> Inr (results, meta))"

definition d1_run :: "'row d1_reply \<Rightarrow> string + d1_run_result" where
  "d1_run reply = (case d1_query reply of Inl e \<Rightarrow> Inl e
     | Inr (results, meta) \<Rightarrow>
         Inr \<lparr>rr_changes = (case meta of None \<Rightarrow> 0 | Some m \<Rightarrow> nullish (fst m) 0),
              rr_lastInsertRowid = (case meta of None \<Rightarrow> 0 | Some m \<Rightarrow> nullish (snd m) 0)\<rparr>)"

definition d1_get :: "'row d1_reply \<Rightarrow> string + 'row option" where
  "d1_get reply = (case d1_query reply of Inl e \<Rightarrow> Inl e
     | Inr (results, meta) \<Rightarrow> Inr (case results of None \<Rightarrow> None | Some [] \<Rightarrow> None | Some (r # rs) \<Rightarrow> Some r))"

definition d1_all :: "'row d1_reply \<Rightarrow> string + 'row list" where
  "d1_all reply = (case d1_query reply of Inl e \<Rightarrow> Inl e
     | Inr (results, meta) \<Rightarrow>
         (case results of None \<Rightarrow> Inl ''D1 proxy returned no results array'' | Some rows \<Rightarrow> Inr rows))"

text \<open>A round trip through the proxy; \<open>lost\<close> is the text the fetch rejects with.\<close>

datatype trip = Delivered | Request_Lost string | Reply_Lost string

definition proxy_reply :: "(nat \<Rightarrow> string \<Rightarrow> string option) \<Rightarrow> 'row proxy_response \<Rightarrow> 'row d1_reply" where
  "proxy_reply body_text r = (case r of
       Px_Error status e \<Rightarrow> Bad_Status status (body_text status e)
     | Px_Rows rows changes lastId \<Rightarrow> Json_Reply (Some rows) (Some (Some changes, Some lastId))
     | Px_Uncaught \<Rightarrow> Bad_Status 500 None)"

definition round_trip ::
  "(nat \<Rightarrow> string \<Rightarrow> string option) \<Rightarrow> ('row, 'db) engine \<Rightarrow> string \<Rightarrow> trip \<Rightarrow> proxy_request \<Rightarrow> 'db \<Rightarrow> 'row d1_reply \<times> 'db" where
  "round_trip body_text eng secret t req db = (case t of
       Delivered \<Rightarrow> (case proxy_fetch eng secret req db of (r, db') \<Rightarrow> (proxy_reply body_text r, db'))
     | Request_Lost e \<Rightarrow> (Fetch_Rejected e, db)
     | Reply_Lost e \<Rightarrow> (Fetch_Rejected e, snd (proxy_fetch eng secret req db)))"

subsection \<open>The local driver\<close>

definition sqlite_run :: "('row, 'db) engine \<Rightarrow> string \<Rightarrow> sql_value list \<Rightarrow> 'db \<Rightarrow> (string + d1_run_result) \<times> 'db" where
  "sqlite_run eng sql params db = (case eng sql params db of
       (Inl e, db') \<Rightarrow> (Inl e, db')
     | (Inr (rows, changes, lastId), db') \<Rightarrow> (Inr \<lparr>rr_changes = changes, rr_lastInsertRowid = lastId\<rparr>, db'))"

definition sqlite_get :: "('row, 'db) engine \<Rightarrow> string \<Rightarrow> sql_value list \<Rightarrow> 'db \<Rightarrow> (string + 'row option) \<times> 'db" where
  "sqlite_get eng sql params db = (case eng sql params db of
       (Inl e, db') \<Rightarrow> (Inl e, db')
     | (Inr (rows, changes, lastId), db') \<Rightarrow> (Inr (case rows of [] \<Rightarrow> None | r # rs \<Rightarrow> Some r), db'))"

definition sqlite_all :: "('row, 'db) engine \<Rightarrow> string \<Rightarrow> sql_value list \<Rightarrow> 'db \<Rightarrow> (string + 'row list) \<times> 'db" where
  "sqlite_all eng sql params db = (case eng sql params db of
       (Inl e, db') \<Rightarrow> (Inl e, db')
     | (Inr (rows, changes, lastId), db') \<Rightarrow> (Inr rows, db'))"

subsection \<open>The secret\<close>

lemma or_zero_iff: "(a OR b :: 16 word) = 0 \<longleftrightarrow> a = 0 \<and> b = 0"
  by (rule or_eq_0_iff)

lemma char_code_eq [simp]: "char_code c = char_code d \<longleftrightarrow> c = d"
proof
  assume e: "char_code c = char_code d"
  have less: "(of_char x :: nat) < 2 ^ LENGTH(16)" for x
  proof -
    have "(of_char x :: nat) mod 256 < 256" by (rule mod_less_divisor) simp
    then have "(of_char x :: nat) < 256" by (simp only: of_char_mod_256)
    then show ?thesis by (rule order.strict_trans) simp
  qed
  have "unat (char_code x) = of_char x" for x
    unfolding char_code_def using less [of x] by (simp add: unsigned_of_nat take_bit_nat_eq_self)
  then have "(of_char c :: nat) = of_char d" using e by metis
  then show "c = d" by simp
qed simp

lemma code_xor_zero: "char_code c XOR char_code d = 0 \<longleftrightarrow> c = d"
proof
  assume "char_code c XOR char_code d = 0"
  then have "(char_code c XOR char_code d) XOR char_code d = 0 XOR char_code d" by simp
  then show "c = d" by (simp add: xor.assoc)
qed simp

lemma diff_loop_zero:
  "foldl (\<lambda>diff i. diff OR (char_code (a ! i) XOR char_code (b ! i))) z is = 0
     \<longleftrightarrow> z = 0 \<and> (\<forall>i\<in>set is. a ! i = b ! i)"
  by (induction "is" arbitrary: z) (auto simp: or_zero_iff code_xor_zero)

lemma safeEqual_iff: "safeEqual a b \<longleftrightarrow> a = b"
proof (cases "length a = length b")
  case True
  then show ?thesis unfolding safeEqual_def diff_loop_zero list_eq_iff_nth_eq by auto
qed (auto simp: safeEqual_def)

lemma strip_bearer_driver:
  assumes "secret \<noteq> []" and "trim secret = secret"
  shows "strip_bearer (trim (''Bearer '' @ secret)) = secret"
proof -
  have last: "\<not> is_space (last secret)" and first: "\<not> is_space (hd secret)"
    using trim_ends [OF assms(2,1)] by simp_all
  have "trim (''Bearer '' @ secret) = ''Bearer '' @ secret"
  proof -
    obtain s c where s: "secret = s @ [c]" using assms(1) by (metis rev_exhaust)
    then have "\<not> is_space c" using last by simp
    then show ?thesis by (simp add: trim_def s is_space_def)
  qed
  moreover obtain c s where "secret = c # s" using assms(1) by (cases secret) auto
  moreover have "to_lower ''Bearer'' = ''bearer''" by code_simp
  moreover have "is_space CHR '' ''" by (simp add: is_space_def)
  ultimately show ?thesis using first by (simp add: strip_bearer_def)
qed

text \<open>
  The proxy is a door with one key. Whatever is sent to it, the database changes only when the method is
  POST, a secret is configured, the bearer token is that secret character by character and the body
  has a statement; then exactly that statement is run with exactly the parameters of the body, once, and
  otherwise the answer is a 4xx (or an exception, for a body that is \<open>null\<close>).
\<close>

theorem proxy_runs_only_for_the_secret:
  shows "(\<exists>q ps. pr_method req = ''POST'' \<and> secret \<noteq> [] \<and> strip_bearer (nullish (pr_authorization req) []) = secret
      \<and> (\<exists>p. pr_body req = Json_Fields (F_Text q) p \<and> ps = (case p of F_Params l \<Rightarrow> l | _ \<Rightarrow> []))
      \<and> snd (proxy_fetch eng secret req db) = snd (eng q ps db)
      \<and> fst (proxy_fetch eng secret req db) = (case fst (eng q ps db) of
            Inl e \<Rightarrow> Px_Error 500 e | Inr (rows, changes, lastId) \<Rightarrow> Px_Rows rows changes lastId))
    \<or> (snd (proxy_fetch eng secret req db) = db
      \<and> ((\<exists>e s. fst (proxy_fetch eng secret req db) = Px_Error s e \<and> s \<in> {400, 401, 405})
          \<or> fst (proxy_fetch eng secret req db) = Px_Uncaught \<and> pr_body req = Json_Null))"
  by (auto simp: proxy_fetch_def Let_def safeEqual_iff split: proxy_body.split body_field.split prod.split sum.split)

subsection \<open>The driver over the proxy is the local driver\<close>

text \<open>What the ledger expects of a driver: a \<open>get\<close> is the first row of the \<open>all\<close> of the same statement.\<close>

definition first_row :: "'row list \<Rightarrow> 'row option" where
  "first_row rows = (case rows of [] \<Rightarrow> None | r # rs \<Rightarrow> Some r)"

locale db_driver =
  fixes run :: "string \<Rightarrow> sql_value list \<Rightarrow> 'db \<Rightarrow> (string + d1_run_result) \<times> 'db"
    and get :: "string \<Rightarrow> sql_value list \<Rightarrow> 'db \<Rightarrow> (string + 'row option) \<times> 'db"
    and all :: "string \<Rightarrow> sql_value list \<Rightarrow> 'db \<Rightarrow> (string + 'row list) \<times> 'db"
  assumes get_first: "get q ps db = map_prod (map_sum id first_row) id (all q ps db)"
    and run_agrees: "snd (run q ps db) = snd (all q ps db) \<and> isl (fst (run q ps db)) = isl (fst (all q ps db))"
begin

lemma get_none: "fst (get q ps db) = Inr None \<longleftrightarrow> fst (all q ps db) = Inr []"
  unfolding get_first by (cases "fst (all q ps db)") (auto simp: first_row_def split: list.splits)

lemma one_effect: "snd (get q ps db) = snd (run q ps db)"
  unfolding get_first using run_agrees by simp

end

text \<open>An operation of the D1 driver as the ledger calls it: the round trip, and the reading of its reply.\<close>

definition via ::
  "('row d1_reply \<Rightarrow> 'a) \<Rightarrow> (nat \<Rightarrow> string \<Rightarrow> string option) \<Rightarrow> ('row, 'db) engine \<Rightarrow> string \<Rightarrow> trip \<Rightarrow> d1_driver
     \<Rightarrow> string \<Rightarrow> sql_value list \<Rightarrow> 'db \<Rightarrow> 'a \<times> 'db" where
  "via f body_text eng secret t dv q ps db =
     map_prod f id (round_trip body_text eng secret t (d1_request dv q ps) db)"

interpretation local_driver: db_driver "sqlite_run eng" "sqlite_get eng" "sqlite_all eng" for eng
  by unfold_locales
    (auto simp: sqlite_run_def sqlite_get_def sqlite_all_def first_row_def split: prod.split sum.split list.split)

lemma round_trip_reply:
  "(\<exists>e. fst (round_trip body_text eng secret t req db) = Fetch_Rejected e)
    \<or> (\<exists>s x. fst (round_trip body_text eng secret t req db) = Bad_Status s x)
    \<or> (\<exists>rows c i. fst (round_trip body_text eng secret t req db) = Json_Reply (Some rows) (Some (Some c, Some i)))"
  by (cases t) (auto simp: round_trip_def proxy_reply_def split: prod.split proxy_response.split)

interpretation d1: db_driver "via d1_run body_text eng secret t dv" "via d1_get body_text eng secret t dv"
  "via d1_all body_text eng secret t dv" for body_text eng secret t dv
proof unfold_locales
  fix q ps db
  let ?r = "round_trip body_text eng secret t (d1_request dv q ps) db"
  show "via d1_get body_text eng secret t dv q ps db = map_prod (map_sum id first_row) id (via d1_all body_text eng secret t dv q ps db)"
    unfolding via_def using round_trip_reply [of body_text eng secret t "d1_request dv q ps" db]
    by (cases ?r) (auto simp: d1_get_def d1_all_def d1_query_def first_row_def split: list.split)
  show "snd (via d1_run body_text eng secret t dv q ps db) = snd (via d1_all body_text eng secret t dv q ps db)
    \<and> isl (fst (via d1_run body_text eng secret t dv q ps db)) = isl (fst (via d1_all body_text eng secret t dv q ps db))"
    unfolding via_def using round_trip_reply [of body_text eng secret t "d1_request dv q ps" db]
    by (cases ?r) (auto simp: d1_run_def d1_all_def d1_query_def)
qed

lemma d1_delivered:
  assumes "new_D1Driver url secret = Inr dv" and "trim secret = secret"
  shows "round_trip body_text eng secret Delivered (d1_request dv sql params) db =
    (case eng sql params db of
       (Inl e, db') \<Rightarrow> (Bad_Status 500 (body_text 500 e), db')
     | (Inr (rows, changes, lastId), db') \<Rightarrow> (Json_Reply (Some rows) (Some (Some changes, Some lastId)), db'))"
proof -
  have "secret \<noteq> []" "dv_secret dv = secret" using assms(1) by (auto simp: new_D1Driver_def split: if_splits)
  then show ?thesis using strip_bearer_driver [OF _ assms(2)]
    by (auto simp: round_trip_def proxy_fetch_def d1_request_def proxy_reply_def safeEqual_iff split: prod.split sum.split)
qed

lemma map_sum_swap: "map_sum id f (map_sum g id x) = map_sum g id (map_sum id f x)"
  by (cases x) simp_all

text \<open>
  C19: The two backends agree. With the secret the proxy expects (not empty, no white space at its ends) and the
  round trip made, every operation of the D1 driver does to the database what the local driver does and answers
  what it answers; a statement the engine refuses is refused by both, with the engine's text local and behind
  the status remotely, cut at 200 characters.
\<close>

theorem d1_refines_local:
  assumes "new_D1Driver url secret = Inr dv" and "trim secret = secret"
    and "wrapped = (\<lambda>e. ''D1 proxy 500: '' @ take 200 (nullish (body_text 500 e) []))"
  shows "via d1_run body_text eng secret Delivered dv q ps db = map_prod (map_sum wrapped id) id (sqlite_run eng q ps db)
    \<and> via d1_get body_text eng secret Delivered dv q ps db = map_prod (map_sum wrapped id) id (sqlite_get eng q ps db)
    \<and> via d1_all body_text eng secret Delivered dv q ps db = map_prod (map_sum wrapped id) id (sqlite_all eng q ps db)"
proof -
  have "show_nat 500 = ''500''" by code_simp
  then have all: "via d1_all body_text eng secret Delivered dv q ps db = map_prod (map_sum wrapped id) id (sqlite_all eng q ps db)"
    and run: "via d1_run body_text eng secret Delivered dv q ps db = map_prod (map_sum wrapped id) id (sqlite_run eng q ps db)"
    unfolding via_def d1_delivered [OF assms(1,2)]
    by (auto simp: assms(3) d1_run_def d1_all_def d1_query_def sqlite_run_def sqlite_all_def split: prod.split sum.split)
  then show ?thesis using run all unfolding d1.get_first local_driver.get_first all by (simp add: map_prod_def split_beta map_sum_swap)
qed

text \<open>
  What a failed operation of D1 says about the database. Over any round trip the statement is run at most
  once, and an answer that is not an error is the engine's own; but an error says nothing: when the reply is
  lost, a timeout included, the driver throws although the statement is in the database.
\<close>

theorem d1_runs_at_most_once:
  assumes "new_D1Driver url secret = Inr dv" and "trim secret = secret"
  shows "snd (via d1_run body_text eng secret t dv q ps db) \<in> {db, snd (eng q ps db)}
    \<and> (\<forall>r. fst (via d1_run body_text eng secret t dv q ps db) = Inr r \<longrightarrow>
         t = Delivered \<and> via d1_run body_text eng secret t dv q ps db = sqlite_run eng q ps db)
    \<and> (\<forall>e. t = Reply_Lost e \<longrightarrow> via d1_run body_text eng secret t dv q ps db = (Inl e, snd (eng q ps db)))"
proof -
  note d = d1_delivered [OF assms, where body_text = body_text and eng = eng and sql = q and params = ps and db = db]
  have lost: "snd (proxy_fetch eng secret (d1_request dv q ps) db) = snd (eng q ps db)"
    using arg_cong [OF d, of snd] by (auto simp: round_trip_def split: prod.splits sum.splits)
  show ?thesis
  proof (cases t)
    case Delivered
    then show ?thesis unfolding via_def Delivered d
      by (auto simp: d1_run_def d1_query_def sqlite_run_def split: prod.splits sum.splits)
  qed (auto simp: via_def round_trip_def d1_run_def d1_query_def lost)
qed

text \<open>An engine to run them on: the database is the list of what was written.\<close>

definition ex_engine :: "(nat, sql_value list) engine" where
  "ex_engine q ps db = (if q = [] then (Inl ''incomplete input'', db) else (Inr ([length ps], 1, int (length db)), ps @ db))"

definition ex_d1 :: d1_driver where
  "ex_d1 = \<lparr>dv_url = ''u'', dv_secret = ''s3''\<rparr>"

lemma ex_d1_made: "new_D1Driver ''u'' ''s3'' = Inr ex_d1" "trim ''s3'' = ''s3''"
  by code_simp+

theorem d1_refines_local_witness:
  "via d1_run (\<lambda>_ e. Some e) ex_engine ''s3'' Delivered ex_d1 ''I'' [V_Int 5] [] = (Inr \<lparr>rr_changes = 1, rr_lastInsertRowid = 0\<rparr>, [V_Int 5])
    \<and> via d1_get (\<lambda>_ e. Some e) ex_engine ''s3'' Delivered ex_d1 ''I'' [V_Int 5] [] = (Inr (Some 1), [V_Int 5])"
  using d1_refines_local [OF ex_d1_made refl, of "\<lambda>_ e. Some e" ex_engine "''I''" "[V_Int 5]" "[]"]
  by (simp add: sqlite_run_def sqlite_get_def ex_engine_def)

theorem d1_runs_at_most_once_witness:
  "via d1_run (\<lambda>_ e. Some e) ex_engine ''s3'' (Reply_Lost ''timeout'') ex_d1 ''I'' [V_Int 5] [] = (Inl ''timeout'', [V_Int 5])"
  using d1_runs_at_most_once [OF ex_d1_made, of "\<lambda>_ e. Some e" ex_engine "Reply_Lost ''timeout''" "''I''" "[V_Int 5]" "[]"]
  by (simp add: ex_engine_def)

end
