(* ===== verification/Boot.thy ===== *)
theory Boot
  imports Complex_Main Config Ledger_Stats Js_Format Js_Number Readiness Send_Queue Claim_Route
begin

text \<open>
  Process start and stop: \<open>register\<close> of \<open>src/src/instrumentation.ts\<close> (the configuration check, the
  timers, the signal handlers, the warm-ups), the farming line it prints, and the drain of
  \<open>src/src/lib/drain.ts\<close> as the signal handler runs it beside the claims in flight. Numbers of the
  environment that are not finite are not told apart: a bound that is one is never reached.
\<close>

subsection \<open>register\<close>

datatype boot_job = Emit_Signals | Refresh_Ledger | Ctaz_Refresher | Warm_External_Tip

datatype boot_action =
  Fatal_Config config_error
| Start_Reconciler
| Install_Signal_Handlers "int option"
| Every int boot_job
| At_Once boot_job
| Warm_T2z

text \<open>\<open>Math.max(1000, Math.floor(Number(process.env.FAUCET_DRAIN_MAX_MS ?? 40_000)))\<close>; \<open>None\<close> is \<open>NaN\<close>.\<close>

definition drain_bound_ms :: "string option \<Rightarrow> int option" where
  "drain_bound_ms raw = map_option (\<lambda>x. max 1000 \<lfloor>x\<rfloor>) (case raw of None \<Rightarrow> Some 40000 | Some s \<Rightarrow> js_number s)"

definition register :: "env_map \<Rightarrow> boot_action list" where
  "register env =
     (if env ''NEXT_RUNTIME'' \<noteq> Some ''nodejs'' then []
      else case and_then (load_config env) (assert_serving_config env) of
        Inl e \<Rightarrow> [Fatal_Config e]
      | Inr warnings \<Rightarrow>
          [Start_Reconciler]
          @ (if nullish (env ''NEXT_MANUAL_SIG_HANDLE'') [] \<noteq> []
             then [Install_Signal_Handlers (drain_bound_ms (env ''FAUCET_DRAIN_MAX_MS''))] else [])
          @ [Every (10 * 60000) Emit_Signals, At_Once Emit_Signals,
             Every PROBE_EVERY_MS Refresh_Ledger, At_Once Refresh_Ledger,
             At_Once Ctaz_Refresher, At_Once Warm_External_Tip]
          @ (if env ''FAUCET_SENDER'' = Some ''real'' then [Warm_T2z] else []))"

subsection \<open>The farming line\<close>

definition zat_to_taz :: "int \<Rightarrow> rat" where
  "zat_to_taz z = double_of (of_int z / 100000000)"

definition per_ip_text :: "(int \<times> int) option \<Rightarrow> string" where
  "per_ip_text r = (case r of None \<Rightarrow> ''n/a'' | Some (n, d) \<Rightarrow> to_fixed 2 (double_of (of_int n / of_int d)))"

text \<open>\<open>Inl\<close> goes to \<open>console.error\<close>, \<open>Inr\<close> to \<open>console.log\<close>.\<close>

definition emit_signals :: "farming_signals option \<Rightarrow> string + string" where
  "emit_signals s = (case s of
       None \<Rightarrow> Inl ''[farming] signals UNAVAILABLE: the ledger read failed, so these counts are unknown rather than zero''
     | Some f \<Rightarrow> Inr (
         ''[farming] 1h claims='' @ show_int (fa_claims1h f) @ '' ips='' @ show_int (fa_distinctIps1h f)
         @ '' addrs='' @ show_int (fa_distinctAddrs1h f) @ '' taz='' @ to_fixed 1 (zat_to_taz (fa_zat1h f)) @ '' | ''
         @ ''24h claims='' @ show_int (fa_claims24h f) @ '' ips='' @ show_int (fa_distinctIps24h f)
         @ '' addrs='' @ show_int (fa_distinctAddrs24h f) @ '' taz='' @ to_fixed 1 (zat_to_taz (fa_zat24h f)) @ '' | ''
         @ ''claims_per_ip_24h='' @ per_ip_text (fa_claimsPerIp24h f) @ '' | ''
         @ ''subnet_spread=UNAVAILABLE(column is populated, this query does not aggregate it, #213)''))"

subsection \<open>Stopping\<close>

text \<open>
  The process with its claims by how far they are: past the draining check of the claim route but not yet in
  a queue, in the queue of each network, and sent but not yet settled in the ledger. The first signal raises the flag,
  fixes when to give up (\<open>Some None\<close>: never) and makes the first turn of the loop of \<open>drain\<close>; the loop then polls.
  \<open>pr_exit\<close> is the value \<open>drain\<close> returned; a process that has exited does nothing any more.
\<close>

record process =
  pr_signalled :: bool
  pr_draining :: bool
  pr_until :: "int option option"
  pr_exit :: "bool option"
  pr_admitted :: nat
  pr_queued :: nat
  pr_ctazQueued :: nat
  pr_settling :: nat

datatype process_event =
  Signal int
| Drain_Timer int
| Claim_Arrives
| Claim_Dropped
| Claim_Queued bool
| Send_Done bool
| Row_Settled

definition running :: process where
  "running = \<lparr>pr_signalled = False, pr_draining = False, pr_until = None, pr_exit = None,
     pr_admitted = 0, pr_queued = 0, pr_ctazQueued = 0, pr_settling = 0\<rparr>"

definition pr_depth :: "process \<Rightarrow> nat" where
  "pr_depth p = pr_queued p + pr_ctazQueued p"

definition drain_turn :: "int \<Rightarrow> process \<Rightarrow> process" where
  "drain_turn now p = (case pr_until p of
       None \<Rightarrow> p
     | Some bound \<Rightarrow>
         if 0 < pr_depth p then
           if (case bound of None \<Rightarrow> False | Some u \<Rightarrow> u \<le> now) then p\<lparr>pr_exit := Some False\<rparr> else p
         else p\<lparr>pr_exit := Some True\<rparr>)"

definition on_signal :: "int option \<Rightarrow> int \<Rightarrow> process \<Rightarrow> process" where
  "on_signal boundMs now p =
     (if pr_signalled p then p
      else drain_turn now (p\<lparr>pr_signalled := True, pr_draining := True, pr_until := Some (map_option ((+) now) boundMs)\<rparr>))"

fun process_step :: "int option \<Rightarrow> process \<Rightarrow> process_event \<Rightarrow> process" where
  "process_step b p e =
     (if pr_exit p \<noteq> None then p
      else case e of
        Signal now \<Rightarrow> on_signal b now p
      | Drain_Timer now \<Rightarrow> drain_turn now p
      | Claim_Arrives \<Rightarrow> if pr_draining p then p else p\<lparr>pr_admitted := pr_admitted p + 1\<rparr>
      | Claim_Dropped \<Rightarrow> p\<lparr>pr_admitted := pr_admitted p - 1\<rparr>
      | Claim_Queued ctaz \<Rightarrow>
          if pr_admitted p = 0 then p
          else if ctaz then p\<lparr>pr_admitted := pr_admitted p - 1, pr_ctazQueued := pr_ctazQueued p + 1\<rparr>
          else p\<lparr>pr_admitted := pr_admitted p - 1, pr_queued := pr_queued p + 1\<rparr>
      | Send_Done ctaz \<Rightarrow>
          if ctaz then if pr_ctazQueued p = 0 then p
            else p\<lparr>pr_ctazQueued := pr_ctazQueued p - 1, pr_settling := pr_settling p + 1\<rparr>
          else if pr_queued p = 0 then p
            else p\<lparr>pr_queued := pr_queued p - 1, pr_settling := pr_settling p + 1\<rparr>
      | Row_Settled \<Rightarrow> p\<lparr>pr_settling := pr_settling p - 1\<rparr>)"

declare process_step.simps [simp del]

definition process_run :: "int option \<Rightarrow> process_event list \<Rightarrow> process" where
  "process_run b es = foldl (process_step b) running es"

subsection \<open>Starting\<close>

text \<open>
  Nothing runs on a configuration that was refused. On the server runtime the reconciler, the timers and the
  handlers are started exactly when the whole configuration was read and the checks of a serving process passed;
  otherwise the only action is the exit, with the error; and in any other runtime nothing happens at all.
\<close>

theorem nothing_starts_on_refused_config:
  "(Start_Reconciler \<in> set (register env) \<longleftrightarrow>
      env ''NEXT_RUNTIME'' = Some ''nodejs''
      \<and> (\<exists>cf ws. load_config env = Inr cf \<and> assert_serving_config env cf = Inr ws))
    \<and> (Start_Reconciler \<in> set (register env) \<or> register env = [] \<or> (\<exists>e. register env = [Fatal_Config e]))
    \<and> (\<forall>e. Fatal_Config e \<in> set (register env) \<longrightarrow> register env = [Fatal_Config e])"
proof (cases "env ''NEXT_RUNTIME'' = Some ''nodejs''")
  case True
  then show ?thesis
    by (cases "load_config env") (auto simp: register_def and_then_Inr and_then_Inl split: sum.splits)
qed (simp add: register_def)

text \<open>The sender is read trimmed, the warm-up compares the raw text: a padded \<open>real\<close> serves cold.\<close>

theorem padded_real_is_not_warmed:
  assumes "env ''FAUCET_SENDER'' = Some '' real''"
  shows "sender_from_env env = Inr ''real'' \<and> Warm_T2z \<notin> set (register env)"
proof -
  have "trim '' real'' = ''real''" by code_simp
  then show ?thesis using assms by (auto simp: sender_from_env_def SENDERS_def register_def split: sum.splits)
qed

lemma unreadable_bound: "drain_bound_ms (Some ''40s'') = None" "drain_bound_ms None = Some 40000"
  by code_simp+

subsection \<open>Stopping\<close>

definition process_ok :: "process \<Rightarrow> bool" where
  "process_ok p = (pr_signalled p = pr_draining p \<and> (pr_until p \<noteq> None) = pr_signalled p
     \<and> (pr_exit p \<noteq> None \<longrightarrow> pr_signalled p) \<and> (pr_exit p = Some True \<longrightarrow> pr_depth p = 0)
     \<and> (pr_exit p = Some False \<longrightarrow> (\<exists>u. pr_until p = Some (Some u))))"

definition pr_work :: "process \<Rightarrow> nat" where
  "pr_work p = pr_admitted p + pr_depth p"

lemmas process_steps = process_step.simps on_signal_def drain_turn_def pr_depth_def

lemma process_ok_step: "process_ok p \<Longrightarrow> process_ok (process_step b p e)"
  by (cases e) (auto simp: process_ok_def process_steps split: option.splits if_splits)

lemma process_ok_run: "process_ok (process_run b es)"
proof (induction es rule: rev_induct)
  case Nil
  show ?case by (simp add: process_run_def running_def process_ok_def pr_depth_def)
next
  case (snoc e es)
  then show ?case by (simp add: process_run_def process_ok_step)
qed

lemma process_run_append: "process_run b (es @ fs) = foldl (process_step b) (process_run b es) fs"
  by (simp add: process_run_def)

lemma signalled_step:
  assumes "process_ok p" and "pr_signalled p"
  shows "pr_signalled (process_step b p e) \<and> pr_until (process_step b p e) = pr_until p
    \<and> pr_work (process_step b p e) \<le> pr_work p \<and> (pr_exit p \<noteq> None \<longrightarrow> process_step b p e = p)"
  using assms by (cases e) (auto simp: process_ok_def pr_work_def process_steps split: option.splits)

lemma signalled_run:
  assumes "pr_signalled (process_run b es)"
  shows "pr_signalled (process_run b (es @ fs)) \<and> pr_until (process_run b (es @ fs)) = pr_until (process_run b es)
    \<and> pr_work (process_run b (es @ fs)) \<le> pr_work (process_run b es)
    \<and> (pr_exit (process_run b es) \<noteq> None \<longrightarrow> process_run b (es @ fs) = process_run b es)"
proof (induction fs rule: rev_induct)
  case (snoc e fs)
  have "process_run b (es @ fs @ [e]) = process_step b (process_run b (es @ fs)) e"
    by (simp add: process_run_def)
  then show ?case using snoc signalled_step [OF process_ok_run [of b "es @ fs"], of b e] by auto
qed (use assms in simp)

text \<open>
  What a signal promises. From the first signal on, whatever arrives and however often the signal is sent
  again, the claims in hand (past the gate or queued) never grow, the time to give up does not move, and an
  exit is for good; an exit that reports empty queues left both empty, and one that gives up was
  made at or after the bound of the first signal, which it had: a bound that could not be read is never given up on.
\<close>

theorem signal_is_final:
  assumes "pr_signalled (process_run b es)"
  shows "pr_work (process_run b (es @ later)) \<le> pr_work (process_run b es)
    \<and> pr_draining (process_run b (es @ later))
    \<and> pr_until (process_run b (es @ later)) = pr_until (process_run b es)
    \<and> (pr_exit (process_run b es) \<noteq> None \<longrightarrow> process_run b (es @ later) = process_run b es)
    \<and> (pr_exit (process_run b (es @ later)) = Some True \<longrightarrow> pr_depth (process_run b (es @ later)) = 0)
    \<and> (pr_exit (process_run b (es @ later)) = Some False \<longrightarrow> b \<noteq> None)"
proof -
  have bound: "pr_until (process_run b es) = Some (Some u) \<longrightarrow> b \<noteq> None" for u es
  proof (induction es rule: rev_induct)
    case (snoc e es)
    then show ?case by (cases e) (auto simp: process_run_def process_steps split: option.splits if_splits)
  qed (simp add: process_run_def running_def)
  show ?thesis
    using signalled_run [OF assms, of later] process_ok_run [of b "es @ later"] bound [of "es @ later"]
    unfolding process_ok_def by auto
qed

theorem signal_is_final_witness:
  "pr_draining (process_run (Some 1000) ([Claim_Arrives, Claim_Queued False, Signal 0] @ [Signal 5, Claim_Arrives, Drain_Timer 1000]))
    \<and> pr_exit (process_run (Some 1000) ([Claim_Arrives, Claim_Queued False, Signal 0] @ [Signal 5, Claim_Arrives, Drain_Timer 1000])) = Some False"
proof -
  have "pr_signalled (process_run (Some 1000) [Claim_Arrives, Claim_Queued False, Signal 0])" by code_simp
  from signal_is_final [OF this, of "[Signal 5, Claim_Arrives, Drain_Timer 1000]"]
  have "pr_draining (process_run (Some 1000) ([Claim_Arrives, Claim_Queued False, Signal 0] @ [Signal 5, Claim_Arrives, Drain_Timer 1000]))" by blast
  moreover have "pr_exit (process_run (Some 1000) ([Claim_Arrives, Claim_Queued False, Signal 0] @ [Signal 5, Claim_Arrives, Drain_Timer 1000])) = Some False" by code_simp
  ultimately show ?thesis by blast
qed

lemma first_signal:
  assumes "\<not> pr_signalled (process_run b es)"
  shows "pr_until (process_run b (es @ [Signal t])) = Some (map_option ((+) t) b) \<and> pr_signalled (process_run b (es @ [Signal t]))"
proof -
  have "pr_exit (process_run b es) = None" using process_ok_run [of b es] assms by (auto simp: process_ok_def)
  then show ?thesis using assms by (auto simp: process_run_def process_steps)
qed

text \<open>
  The drain ends. With a readable bound the process has exited once the loop has turned at or after the
  bound of the first signal, whatever happened in between; with a bound that is not a number it exits only on empty
  queues, so a send that hangs holds the process until it is killed.
\<close>

theorem drain_ends_at_the_bound:
  assumes "\<not> pr_signalled (process_run b es)"
  shows "(\<forall>m. b = Some m \<longrightarrow> t + m \<le> now \<longrightarrow> pr_exit (process_run b (es @ Signal t # mid @ [Drain_Timer now])) \<noteq> None)
    \<and> (b = None \<longrightarrow> pr_exit (process_run b (es @ Signal t # mid)) \<noteq> Some False)"
proof (intro conjI allI impI)
  let ?p = "process_run b (es @ [Signal t])"
  have app: "es @ Signal t # l = (es @ [Signal t]) @ l" for l by simp
  fix m
  assume m: "b = Some m" "t + m \<le> now"
  let ?q = "process_run b ((es @ [Signal t]) @ mid)"
  have "pr_until ?q = Some (Some (t + m))" and "pr_signalled ?q"
    using signalled_run [of b "es @ [Signal t]" mid] first_signal [OF assms, of t] m(1) by simp_all
  then have "pr_exit (process_step b ?q (Drain_Timer now)) \<noteq> None"
    using m(2) by (auto simp: process_steps)
  moreover have "process_run b (es @ Signal t # mid @ [Drain_Timer now]) = process_step b ?q (Drain_Timer now)"
    by (simp add: process_run_def)
  ultimately show "pr_exit (process_run b (es @ Signal t # mid @ [Drain_Timer now])) \<noteq> None" by simp
next
  assume b: "b = None"
  have "pr_until (process_run b ((es @ [Signal t]) @ mid)) = Some None"
    using signalled_run [of b "es @ [Signal t]" mid] first_signal [OF assms, of t] b by simp
  then show "pr_exit (process_run b (es @ Signal t # mid)) \<noteq> Some False"
    using process_ok_run [of b "(es @ [Signal t]) @ mid"] by (simp add: process_ok_def)
qed

theorem drain_ends_at_the_bound_witness:
  "pr_exit (process_run (Some 1000) ([Claim_Arrives, Claim_Queued True] @ Signal 0 # [Signal 700] @ [Drain_Timer 1000])) \<noteq> None"
proof -
  have "\<not> pr_signalled (process_run (Some 1000) [Claim_Arrives, Claim_Queued True])" by code_simp
  from drain_ends_at_the_bound [OF this, of 0 1000 "[Signal 700]"] show ?thesis by simp
qed

text \<open>
  Empty queues are not an idle process. A claim that passed the gate and is on its way to the queue, and one whose
  payment is out but whose row is not settled, are not in any queue: the drain reports success over both.
\<close>

theorem drain_overlooks_claims_outside_the_queue:
  "pr_exit (process_run (Some 40000) [Claim_Arrives, Signal 0]) = Some True
    \<and> pr_admitted (process_run (Some 40000) [Claim_Arrives, Signal 0]) = 1
    \<and> pr_exit (process_run (Some 40000) [Claim_Arrives, Claim_Queued False, Send_Done False, Signal 0]) = Some True
    \<and> pr_settling (process_run (Some 40000) [Claim_Arrives, Claim_Queued False, Send_Done False, Signal 0]) = 1"
  by code_simp

text \<open>The loop is the one of \<open>drain\<close>, and the flag is the one the claim route reads.\<close>

lemma drain_polls_is_timer:
  "pr_until p = Some (Some u) \<Longrightarrow> pr_exit p = None \<Longrightarrow>
    drain_polls u [(now, int (pr_depth p))] = pr_exit (drain_turn now p)"
  by (simp add: drain_turn_def)

lemma draining_claims_are_refused: "fs_draining st \<Longrightarrow> \<exists>r. check_request cfg lib env body st = Inl r"
  by (auto simp: check_request_def split: option.split sum.split)

end
