(* ===== verification/Feedback_Form.thy ===== *)
theory Feedback_Form
  imports Complex_Main Feedback Status_View
begin

text \<open>
  The visitor's half of the feedback path, \<open>src/src/components/FeedbackWidget.tsx\<close>: the state of the form as
  a record, what each event does to it, the request it sends, and the reading of the answer; then the form
  together with the route it posts to. The focus of the keyboard is not modelled.
\<close>

subsection \<open>The form\<close>

datatype form_outcome = Outcome_None | Outcome_Queued | Outcome_Error string

record feedback_form =
  fm_open :: bool
  fm_body :: string
  fm_replyTo :: string
  fm_busy :: bool
  fm_outcome :: form_outcome

definition empty_form :: feedback_form where
  "empty_form = \<lparr>fm_open = False, fm_body = [], fm_replyTo = [], fm_busy = False, fm_outcome = Outcome_None\<rparr>"

text \<open>\<open>fetch\<close> rejects, or answers a status and the JSON value of the body where there is one.\<close>

datatype form_answer = Net_Down | Answered int "jval option"

datatype form_event =
  Launcher_Clicked
| Escape_Pressed
| Close_Clicked
| Body_Typed string
| Reply_Typed string
| Submitted
| Request_Settled form_answer

definition send_disabled :: "feedback_form \<Rightarrow> bool" where
  "send_disabled s = (fm_busy s \<or> trim (fm_body s) = [])"


definition js_truthy :: "jval option \<Rightarrow> bool" where
  "js_truthy v = (case v of None \<Rightarrow> False | Some Jv_Null \<Rightarrow> False | Some (Jv_Bool b) \<Rightarrow> b
     | Some (Jv_Num n) \<Rightarrow> n \<noteq> Fin 0 | Some (Jv_Text t) \<Rightarrow> t \<noteq> [] | Some _ \<Rightarrow> True)"

definition data_field :: "jval option \<Rightarrow> string \<Rightarrow> jval option" where
  "data_field data k = (case data of None \<Rightarrow> None | Some v \<Rightarrow> Json_Value.field v k)"

definition form_settle :: "form_answer \<Rightarrow> feedback_form \<Rightarrow> feedback_form" where
  "form_settle a s =
     (case a of
        Net_Down \<Rightarrow> s\<lparr>fm_outcome := Outcome_Error OFFLINE_SENTENCE\<rparr>
      | Answered st data \<Rightarrow>
          if st = 202 \<and> js_truthy (data_field data ''ok'')
          then s\<lparr>fm_body := [], fm_replyTo := [], fm_outcome := Outcome_Queued\<rparr>
          else s\<lparr>fm_outcome := Outcome_Error
             (feedback_sentence (data_field data ''kind'') (data_field data ''maxBody'') (of_nat MAX_FEEDBACK_BODY))\<rparr>)
     \<lparr>fm_busy := False\<rparr>"

text \<open>A disabled button submits nothing, also not by Enter in the reply field.\<close>

fun form_step :: "feedback_form \<Rightarrow> form_event \<Rightarrow> feedback_form" where
  "form_step s Launcher_Clicked = s\<lparr>fm_open := \<not> fm_open s\<rparr>"
| "form_step s Escape_Pressed = (if fm_open s then s\<lparr>fm_open := False\<rparr> else s)"
| "form_step s Close_Clicked = s\<lparr>fm_open := False\<rparr>"
| "form_step s (Body_Typed t) = s\<lparr>fm_body := t\<rparr>"
| "form_step s (Reply_Typed t) = s\<lparr>fm_replyTo := t\<rparr>"
| "form_step s Submitted = (if send_disabled s then s else s\<lparr>fm_busy := True, fm_outcome := Outcome_None\<rparr>)"
| "form_step s (Request_Settled a) = (if fm_busy s then form_settle a s else s)"

definition chars_left :: "feedback_form \<Rightarrow> int" where
  "chars_left s = int MAX_FEEDBACK_BODY - int (length (fm_body s))"

definition count_line :: "feedback_form \<Rightarrow> string option" where
  "count_line s = (if chars_left s \<le> 200
     then Some (show_int (chars_left s) @ '' character'' @ (if chars_left s = 1 then [] else ''s'') @ '' left'') else None)"

definition outcome_text :: "feedback_form \<Rightarrow> string" where
  "outcome_text s = (case fm_outcome s of Outcome_None \<Rightarrow> [] | Outcome_Queued \<Rightarrow> QUEUED_SENTENCE | Outcome_Error m \<Rightarrow> m)"

subsection \<open>The form and the route\<close>



text \<open>The characters a visitor typed are kept by every event but typing and a 202.\<close>

definition accepted :: "form_event \<Rightarrow> bool" where
  "accepted e = (case e of Request_Settled (Answered st data) \<Rightarrow> st = 202 \<and> js_truthy (data_field data ''ok'') | _ \<Rightarrow> False)"

definition body_typed :: "form_event \<Rightarrow> bool" where
  "body_typed e = (case e of Body_Typed t \<Rightarrow> True | _ \<Rightarrow> False)"

lemma body_kept_step: "\<not> accepted e \<Longrightarrow> \<not> body_typed e \<Longrightarrow> fm_body (form_step s e) = fm_body s"
  by (cases e) (auto simp: accepted_def body_typed_def form_settle_def split: form_answer.splits)

text \<open>
  A failed send never clears the box: over any events, if neither a 202 with \<open>ok\<close> arrived nor anything
  was typed, the text is what it was.
\<close>

theorem text_is_kept:
  "\<forall>e\<in>set es. \<not> accepted e \<and> \<not> body_typed e \<Longrightarrow> fm_body (foldl form_step s es) = fm_body s"
  by (induction es rule: rev_induct) (auto simp: body_kept_step)








text \<open>
  What is typed while a message is on its way is lost when that message is stored: the fields stay open for typing
  and the 202 empties them, whatever they hold by then.
\<close>

theorem text_typed_in_flight_is_lost:
  assumes "trim t \<noteq> []"
  shows "fm_body (foldl form_step empty_form
      [Launcher_Clicked, Body_Typed t, Submitted, Body_Typed (t @ u), Request_Settled (Answered 202 (Some (Jv_Object [(''ok'', Jv_Bool True)])))]) = []"
  using assms by (simp add: empty_form_def send_disabled_def form_settle_def data_field_def js_truthy_def)



end
