(* ===== verification/T2z_Job.thy ===== *)
theory T2z_Job
  imports Complex_Main T2z_Worker Js_String
begin

text \<open>
  The prover's side of the worker, \<open>src/workers/t2z-worker.mjs\<close>: the loading of the wasm module, and the handler
  of one job. The module (third-party code) is a parameter: its functions on the partial transaction, each
  of which may throw. In the handler the loading is one step; two loads at a time are the last section. \<open>BigInt\<close> of a text is a parameter too, for texts that are not the ones the faucet prints.
\<close>

subsection \<open>The module and the jobs\<close>

record worker_input =
  ti_pubHex :: string
  ti_txidHex :: string
  ti_index :: int
  ti_valueZat :: string
  ti_scriptHex :: string

record send_job =
  sj_inputs :: "worker_input list"
  sj_recipientUA :: string
  sj_changeTAddr :: string
  sj_faucetPrivHex :: string
  sj_expiryHeight :: int
  sj_dripZat :: string

datatype worker_job = Warm_Job | Keypair_Job | Send_Job send_job | Other_Job string

record t2z_keypair =
  kp_address :: string
  kp_spending_key :: string
  kp_full_viewing_key_hex :: "string option"
  kp_full_viewing_key :: "string option"

text \<open>An input and a payment as the module's constructors take them: the value is a number.\<close>

type_synonym wasm_input = "worker_input \<times> int"

type_synonym wasm_payment = "string \<times> int"

record 'p wasm =
  ws_load :: "string option"
  ws_prebuild :: "string option"
  ws_keypair :: "string + t2z_keypair"
  ws_propose :: "wasm_input list \<Rightarrow> wasm_payment \<Rightarrow> string \<Rightarrow> int \<Rightarrow> string + 'p"
  ws_fee :: "'p \<Rightarrow> string + int"
  ws_sign :: "'p \<Rightarrow> nat \<Rightarrow> string \<Rightarrow> string + 'p"
  ws_prove :: "'p \<Rightarrow> string + 'p"
  ws_finalize :: "'p \<Rightarrow> string + string"

text \<open>What the module-level variables hold: whether it is loaded, and whether its proving key is built.\<close>

record t2z_state =
  ts_loaded :: bool
  ts_key_ready :: bool

datatype job_reply =
  Ok_Warm
| Ok_Keypair string string string
| Ok_Send string int
| Failed_Job string

definition try_then :: "string + 'a \<Rightarrow> ('a \<Rightarrow> string + 'b) \<Rightarrow> string + 'b" where
  "try_then r f = (case r of Inl e \<Rightarrow> Inl e | Inr x \<Rightarrow> f x)"

subsection \<open>A send\<close>

fun read_inputs :: "(string \<Rightarrow> string + int) \<Rightarrow> worker_input list \<Rightarrow> string + wasm_input list" where
  "read_inputs bigint [] = Inr []"
| "read_inputs bigint (i # is) =
     try_then (bigint (ti_valueZat i)) (\<lambda>v. try_then (read_inputs bigint is) (\<lambda>rest. Inr ((i, v) # rest)))"

text \<open>\<open>job.inputs.forEach((_, i) => ...)\<close>: every input is signed, in order, with the faucet's key.\<close>

fun sign_all :: "'p wasm \<Rightarrow> string \<Rightarrow> nat list \<Rightarrow> 'p \<Rightarrow> string + 'p" where
  "sign_all t key [] p = Inr p"
| "sign_all t key (i # is) p = try_then (ws_sign t p i key) (sign_all t key is)"

definition total_in :: "wasm_input list \<Rightarrow> int" where
  "total_in is = foldl (\<lambda>s i. s + snd i) 0 is"

definition send_body :: "(string \<Rightarrow> string + int) \<Rightarrow> 'p wasm \<Rightarrow> send_job \<Rightarrow> string + job_reply" where
  "send_body bigint t job =
     try_then (read_inputs bigint (sj_inputs job)) (\<lambda>inputs.
     try_then (bigint (sj_dripZat job)) (\<lambda>drip.
     try_then (ws_propose t inputs (sj_recipientUA job, drip) (sj_changeTAddr job) (sj_expiryHeight job)) (\<lambda>pczt.
     try_then (ws_fee t pczt) (\<lambda>feeZat.
     if total_in inputs < drip + feeZat then Inl ''Selected inputs don't cover drip + fee.''
     else try_then (sign_all t (sj_faucetPrivHex job) [0..<length inputs] pczt) (\<lambda>signed.
     try_then (ws_prove t signed) (\<lambda>proved.
     try_then (ws_finalize t proved) (\<lambda>hex. Inr (Ok_Send hex feeZat))))))))"

subsection \<open>The handler\<close>

definition load_wasm :: "'p wasm \<Rightarrow> t2z_state \<Rightarrow> string option \<times> t2z_state" where
  "load_wasm t s = (if ts_loaded s then (None, s)
     else case ws_load t of Some e \<Rightarrow> (Some e, s) | None \<Rightarrow> (None, s\<lparr>ts_loaded := True\<rparr>))"

definition handle_job ::
  "(string \<Rightarrow> string + int) \<Rightarrow> 'p wasm \<Rightarrow> nat \<times> worker_job \<Rightarrow> t2z_state \<Rightarrow> (nat \<times> job_reply) \<times> t2z_state" where
  "handle_job bigint t msg s =
     (let (i, job) = msg; (failed, s1) = load_wasm t s in
      case failed of
        Some e \<Rightarrow> ((i, Failed_Job e), s1)
      | None \<Rightarrow>
          (case job of
             Warm_Job \<Rightarrow>
               if ts_key_ready s1 then ((i, Ok_Warm), s1)
               else (case ws_prebuild t of Some e \<Rightarrow> ((i, Failed_Job e), s1)
                     | None \<Rightarrow> ((i, Ok_Warm), s1\<lparr>ts_key_ready := True\<rparr>))
           | Keypair_Job \<Rightarrow>
               (case ws_keypair t of Inl e \<Rightarrow> ((i, Failed_Job e), s1)
                | Inr kp \<Rightarrow> ((i, Ok_Keypair (kp_address kp) (kp_spending_key kp)
                     (nullish (kp_full_viewing_key_hex kp) (nullish (kp_full_viewing_key kp) []))), s1))
           | Send_Job j \<Rightarrow>
               (case send_body bigint t j of Inl e \<Rightarrow> ((i, Failed_Job e), s1) | Inr r \<Rightarrow> ((i, r), s1))
           | Other_Job ty \<Rightarrow> ((i, Failed_Job (''unknown job type: '' @ ty)), s1)))"

text \<open>What the client receives of a reply.\<close>

definition posted_message :: "nat \<times> job_reply \<Rightarrow> worker_message" where
  "posted_message r = (case r of
       (i, Failed_Job e) \<Rightarrow> \<lparr>wm_id = Some i, wm_ok = False, wm_error = Some e, wm_body = []\<rparr>
     | (i, Ok_Send hex fee) \<Rightarrow> \<lparr>wm_id = Some i, wm_ok = True, wm_error = None, wm_body = hex @ '' '' @ show_int fee\<rparr>
     | (i, Ok_Keypair a sk fvk) \<Rightarrow> \<lparr>wm_id = Some i, wm_ok = True, wm_error = None, wm_body = a\<rparr>
     | (i, Ok_Warm) \<Rightarrow> \<lparr>wm_id = Some i, wm_ok = True, wm_error = None, wm_body = []\<rparr>)"

subsection \<open>What a reply says\<close>

lemma try_then_Inr: "try_then r f = Inr y \<longleftrightarrow> (\<exists>x. r = Inr x \<and> f x = Inr y)"
  by (cases r) (auto simp: try_then_def)

lemma total_in_sum: "total_in is = sum_list (map snd is)"
proof -
  have "foldl (\<lambda>s i. s + snd i) z is = z + sum_list (map snd is)" for z
    by (induction "is" arbitrary: z) simp_all
  then show ?thesis by (simp add: total_in_def)
qed

text \<open>The partial transactions between the proposal and the last signature: one step per input, in order.\<close>

definition signing_chain :: "'p wasm \<Rightarrow> string \<Rightarrow> 'p \<Rightarrow> nat \<Rightarrow> 'p list \<Rightarrow> bool" where
  "signing_chain t key p n ps = (length ps = Suc n \<and> hd ps = p \<and> (\<forall>k<n. ws_sign t (ps ! k) k key = Inr (ps ! Suc k)))"

lemma sign_all_chain:
  "sign_all t key [a..<a + n] p = Inr q \<Longrightarrow>
    \<exists>ps. length ps = Suc n \<and> hd ps = p \<and> last ps = q \<and> (\<forall>k<n. ws_sign t (ps ! k) (a + k) key = Inr (ps ! Suc k))"
proof (induction n arbitrary: a p)
  case 0
  then show ?case by (intro exI [of _ "[p]"]) simp
next
  case (Suc n)
  have "[a..<a + Suc n] = a # [Suc a..<Suc a + n]" by (simp add: upt_conv_Cons)
  with Suc.prems obtain p' where p': "ws_sign t p a key = Inr p'" "sign_all t key [Suc a..<Suc a + n] p' = Inr q"
    by (auto simp: try_then_Inr)
  from Suc.IH [OF p'(2)] obtain ps where ps: "length ps = Suc n" "hd ps = p'" "last ps = q"
    "\<forall>k<n. ws_sign t (ps ! k) (Suc a + k) key = Inr (ps ! Suc k)" by blast
  have "\<forall>k<Suc n. ws_sign t ((p # ps) ! k) (a + k) key = Inr ((p # ps) ! Suc k)"
  proof (intro allI impI)
    fix k
    assume "k < Suc n"
    then show "ws_sign t ((p # ps) ! k) (a + k) key = Inr ((p # ps) ! Suc k)"
      using p'(1) ps by (cases k; cases ps) auto
  qed
  then show ?case using ps by (intro exI [of _ "p # ps"]) auto
qed

text \<open>
  C27: What the prover hands back is paid for and signed. A reply with a transaction belongs to the send job of that
  number; the module proposed it on exactly the job's inputs, payment and change address, those inputs cover the
  drip and the fee of the proposal, every input was signed once, in order and with the faucet's key, and
  the proof came after the last signature.
\<close>

theorem prover_signs_covered_sends:
  assumes "handle_job bigint t (i, job) s = ((k, Ok_Send hex fee), s')"
  shows "k = i \<and> (\<exists>j inputs drip p ps proved. job = Send_Job j
    \<and> read_inputs bigint (sj_inputs j) = Inr inputs \<and> bigint (sj_dripZat j) = Inr drip
    \<and> ws_propose t inputs (sj_recipientUA j, drip) (sj_changeTAddr j) (sj_expiryHeight j) = Inr p
    \<and> ws_fee t p = Inr fee \<and> drip + fee \<le> sum_list (map snd inputs)
    \<and> signing_chain t (sj_faucetPrivHex j) p (length inputs) ps
    \<and> ws_prove t (last ps) = Inr proved \<and> ws_finalize t proved = Inr hex)"
proof -
  obtain j where j: "job = Send_Job j" "k = i" "send_body bigint t j = Inr (Ok_Send hex fee)"
    using assms by (auto simp: handle_job_def Let_def split: prod.splits option.splits worker_job.splits if_splits sum.splits)
  from j(3) obtain inputs drip p signed proved where
    steps: "read_inputs bigint (sj_inputs j) = Inr inputs" "bigint (sj_dripZat j) = Inr drip"
      "ws_propose t inputs (sj_recipientUA j, drip) (sj_changeTAddr j) (sj_expiryHeight j) = Inr p"
      "ws_fee t p = Inr fee" "\<not> total_in inputs < drip + fee"
      "sign_all t (sj_faucetPrivHex j) [0..<length inputs] p = Inr signed"
      "ws_prove t signed = Inr proved" "ws_finalize t proved = Inr hex"
    unfolding send_body_def by (auto simp: try_then_Inr split: if_splits)
  obtain ps where "signing_chain t (sj_faucetPrivHex j) p (length inputs) ps" "last ps = signed"
    using sign_all_chain [of t _ 0 "length inputs" p signed] steps(6) by (auto simp: signing_chain_def)
  then show ?thesis using j steps by (auto simp: total_in_sum)
qed

text \<open>Each message is answered once, under its own number, and a failure is said to be one.\<close>

lemma handle_job_id: "fst (fst (handle_job bigint t (i, job) s)) = i"
  by (auto simp: handle_job_def Let_def split: prod.split option.split worker_job.split sum.split)

lemma posted_id: "wm_id (posted_message r) = Some (fst r)" "wm_ok (posted_message r) = (\<forall>e. snd r \<noteq> Failed_Job e)"
  by (auto simp: posted_message_def split: prod.split job_reply.split)

lemma pending_has_worker:
  assumes "t2z_reachable s" and "i \<in> set (tw_pending (tz_client s))"
  obtains w jt where "w \<in> tz_alive s" and "(w, i, jt) \<in> set (tw_posted (tz_client s))"
  using t2z_reachable_ok [OF assms(1)] assms(2) unfolding client_ok_def Let_def by blast

text \<open>
  The prover's answer settles its own call and no other. Whatever the job is and whatever the module does, when
  the worker in use is handed a waiting call, its answer is a step of the system after which that call is settled,
  resolved exactly when the job succeeded and rejected with the module's words otherwise, and every other
  waiting call is still waiting.
\<close>

theorem job_answer_settles_its_call:
  assumes "t2z_reachable s" and "i \<in> set (tw_pending (tz_client s))"
    and "r = fst (handle_job bigint t (i, job) ts)"
  shows "\<exists>s'. t2z_step s s' \<and> tz_client s' = on_message (posted_message r) (tz_client s)
    \<and> tw_pending (tz_client s') = removeAll i (tw_pending (tz_client s))
    \<and> (\<exists>out. tw_settled (tz_client s') = tw_settled (tz_client s) @ [(i, out)]
        \<and> (\<forall>e. out = Rejected e \<longleftrightarrow> snd r = Failed_Job e))"
proof -
  obtain w jt where w: "w \<in> tz_alive s" "(w, i, jt) \<in> set (tw_posted (tz_client s))"
    by (rule pending_has_worker [OF assms(1,2)])
  have id: "wm_id (posted_message r) = Some i" using handle_job_id [of bigint t i job ts] by (simp add: posted_id assms(3))
  then have step: "t2z_step s (s\<lparr>tz_client := on_message (posted_message r) (tz_client s)\<rparr>)"
    using w by (intro t2z_step.answered) auto
  obtain i' rep where r: "r = (i', rep)" by (cases r)
  have "i' = i" using id by (simp add: posted_id r)
  then show ?thesis using step assms(2)
    by (intro exI [of _ "s\<lparr>tz_client := on_message (posted_message r) (tz_client s)\<rparr>"])
      (auto simp: on_message_def id r posted_message_def split: job_reply.split)
qed

subsection \<open>A module to run it on\<close>

text \<open>A partial transaction is the list of the numbers of its signed inputs; the fee is ten.\<close>

definition ex_wasm :: "nat list wasm" where
  "ex_wasm = \<lparr>ws_load = None, ws_prebuild = None, ws_keypair = Inl ''no'', ws_propose = (\<lambda>is pay ch e. Inr []), ws_fee = (\<lambda>p. Inr 10),
     ws_sign = (\<lambda>p i key. Inr (p @ [i])), ws_prove = (\<lambda>p. Inr p), ws_finalize = (\<lambda>p. Inr (concat (map show_nat p)))\<rparr>"

definition ex_send_job :: "string \<Rightarrow> send_job" where
  "ex_send_job v = \<lparr>sj_inputs = [\<lparr>ti_pubHex = ''p'', ti_txidHex = ''t'', ti_index = 0, ti_valueZat = v, ti_scriptHex = ''s''\<rparr>],
     sj_recipientUA = ''utest'', sj_changeTAddr = ''tm'', sj_faucetPrivHex = ''k'', sj_expiryHeight = 9, sj_dripZat = ''50''\<rparr>"

definition ex_worker :: t2z_state where
  "ex_worker = \<lparr>ts_loaded = False, ts_key_ready = False\<rparr>"

lemma ex_send_runs:
  "fst (handle_job (\<lambda>x. Inr (digits_value x)) ex_wasm (3, Send_Job (ex_send_job ''60'')) ex_worker) = (3, Ok_Send ''0'' 10)"
  "fst (handle_job (\<lambda>x. Inr (digits_value x)) ex_wasm (3, Send_Job (ex_send_job ''59'')) ex_worker)
    = (3, Failed_Job ''Selected inputs don't cover drip + fee.'')"
  by code_simp+

theorem prover_signs_covered_sends_witness:
  "\<exists>ps. signing_chain ex_wasm ''k'' [] 1 ps \<and> last ps = [0 :: nat] \<and> ps \<noteq> []"
proof -
  obtain s' where r: "handle_job (\<lambda>x. Inr (digits_value x)) ex_wasm (3, Send_Job (ex_send_job ''60'')) ex_worker = ((3, Ok_Send ''0'' 10), s')"
    using ex_send_runs(1) by (metis prod.collapse)
  from prover_signs_covered_sends [OF r] obtain inputs ps proved where c:
    "read_inputs (\<lambda>x. Inr (digits_value x)) (sj_inputs (ex_send_job ''60'')) = Inr inputs"
    "signing_chain ex_wasm ''k'' [] (length inputs) ps"
    by (auto simp: ex_wasm_def ex_send_job_def)
  then have "signing_chain ex_wasm ''k'' [] 1 ps" by (auto simp: ex_send_job_def try_then_def)
  moreover from this obtain q where "ps = [[], q]" "q = [0]"
    by (auto simp: signing_chain_def ex_wasm_def length_Suc_conv)
  ultimately show ?thesis by auto
qed

theorem job_answer_settles_its_call_witness:
  "\<exists>s s' :: t2z_world. t2z_reachable s \<and> t2z_step s s' \<and> tw_pending (tz_client s) = [1]
    \<and> tw_settled (tz_client s') = [(1, Rejected ''unknown job type: x'')]"
proof -
  define s1 where "s1 = \<lparr>tz_client = snd (t2z_call ''x'' no_client), tz_alive = {1}, tz_dying = {}\<rparr>"
  have "{0<..Suc 0} = {Suc 0}" by auto
  then have "t2z_step t2z_init s1"
    using t2z_step.called [of "''x''" t2z_init "fst (t2z_call ''x'' no_client)" "snd (t2z_call ''x'' no_client)"]
    by (simp add: t2z_init_def s1_def t2z_call_def get_worker_def no_client_def Let_def)
  then have s1: "t2z_reachable s1" unfolding t2z_reachable_def by (rule r_into_rtranclp)
  have p: "tw_pending (tz_client s1) = [1]" "tw_settled (tz_client s1) = []"
    by (simp_all add: s1_def t2z_call_def get_worker_def no_client_def Let_def)
  have r: "fst (handle_job Inr_bigint ex_wasm (1, Other_Job ''x'') ex_worker) = (1, Failed_Job (''unknown job type: '' @ ''x''))" for Inr_bigint
    by (simp add: handle_job_def load_wasm_def ex_worker_def ex_wasm_def)
  let ?r = "fst (handle_job (\<lambda>x. Inl ''bad'') ex_wasm (1, Other_Job ''x'') ex_worker)"
  have "1 \<in> set (tw_pending (tz_client s1))" using p(1) by simp
  from job_answer_settles_its_call [OF s1 this refl, of "\<lambda>x. Inl ''bad''" ex_wasm "Other_Job ''x''" ex_worker]
  obtain s' out where s': "t2z_step s1 s'" "tw_settled (tz_client s') = tw_settled (tz_client s1) @ [(1, out)]"
    "\<forall>e. out = Rejected e \<longleftrightarrow> snd ?r = Failed_Job e" by blast
  have "out = Rejected (''unknown job type: '' @ ''x'')" using s'(3) by (simp only: r snd_conv simp_thms)
  then have "tw_settled (tz_client s') = [(1, Rejected ''unknown job type: x'')]" using s'(2) p(2) by simp
  then show ?thesis using s1 s'(1) p(1) by blast
qed

subsection \<open>Two loads at a time\<close>

text \<open>
  \<open>load\<close> looks at \<open>bg\<close> before it awaits the instantiation: every message that arrives before the first instance is
  ready starts one of its own, and each puts its instance behind the module when it is done. A proving key
  lives in the instance that built it.
\<close>

record loader =
  ld_started :: nat
  ld_in_use :: "nat option"
  ld_keys :: "nat list"

datatype load_event = Message_Arrives | Instance_Ready nat bool

fun loader_step :: "loader \<Rightarrow> load_event \<Rightarrow> loader" where
  "loader_step l Message_Arrives = (if ld_in_use l = None then l\<lparr>ld_started := ld_started l + 1\<rparr> else l)"
| "loader_step l (Instance_Ready n warm) =
     (if n < ld_started l then l\<lparr>ld_in_use := Some n, ld_keys := (if warm then n # ld_keys l else ld_keys l)\<rparr> else l)"

text \<open>A job that arrives while the warm-up is still loading throws the warmed instance away.\<close>

theorem second_load_discards_the_key:
  "(let l = foldl loader_step \<lparr>ld_started = 0, ld_in_use = None, ld_keys = []\<rparr>
        [Message_Arrives, Message_Arrives, Instance_Ready 0 True, Instance_Ready 1 False]
    in ld_in_use l = Some 1 \<and> 1 \<notin> set (ld_keys l) \<and> 0 \<in> set (ld_keys l))"
  by code_simp

end
