(* ===== verification/Page_Tools.thy ===== *)
theory Page_Tools
  imports Complex_Main Page_Claim Routes Pow_Worker
begin

text \<open>
  What the page shows of a payment after the answer, and its address lookup (\<open>src/src/app/page.tsx\<close>): the poll
  of \<open>/api/tx\<close> behind a receipt, the sentence about the confirmations, the text of a copied receipt, the lookup of
  a balance, and the explorer link a receipt carries (\<open>src/src/lib/zcash/explorer.ts\<close>). Requests settle in any order.
\<close>

subsection \<open>The explorer link\<close>

definition unreserved :: "char \<Rightarrow> bool" where
  "unreserved c = (is_digit c \<or> (CHR ''a'' \<le> c \<and> c \<le> CHR ''z'') \<or> (CHR ''A'' \<le> c \<and> c \<le> CHR ''Z'')
     \<or> c \<in> {CHR ''-'', CHR ''_'', CHR ''.'', CHR ''!'', CHR ''~'', CHR ''*'', CHR 0x27, CHR ''('', CHR '')''})"

definition upper_hex :: "nat \<Rightarrow> char" where
  "upper_hex n = char_of (if n < 10 then n + 48 else n + 55)"

definition encodeURIComponent :: "string \<Rightarrow> string" where
  "encodeURIComponent s = concat (map (\<lambda>c. if unreserved c then [c]
     else concat (map (\<lambda>b. [CHR ''%'', upper_hex (unat b div 16), upper_hex (unat b mod 16)]) (utf8_char c))) s)"

text \<open>\<open>template.replace("{txid}", v)\<close>: the first occurrence only; an encoded value has no replacement pattern.\<close>

fun replace_first :: "string \<Rightarrow> string \<Rightarrow> string \<Rightarrow> string" where
  "replace_first pat v s =
     (if starts_with s pat then v @ drop (length pat) s
      else case s of [] \<Rightarrow> [] | c # t \<Rightarrow> c # replace_first pat v t)"

declare replace_first.simps [simp del]

definition DEFAULT_TX_URL :: string where
  "DEFAULT_TX_URL = ''https://testnet.cipherscan.app/tx/{txid}''"

definition explorerTxUrl :: "string option \<Rightarrow> string \<Rightarrow> string option" where
  "explorerTxUrl setting txid =
     (if txid = [] then None
      else let template = (if nullish setting [] = [] then DEFAULT_TX_URL else nullish setting [])
           in Some (replace_first ''{txid}'' (encodeURIComponent txid) template))"

subsection \<open>The poll of a payment\<close>

definition CONFIRMATIONS_ENOUGH :: int where "CONFIRMATIONS_ENOUGH = 6"

record tx_seen =
  sn_known :: "bool option"
  sn_confirmations :: "int option"
  sn_height :: "int option"

text \<open>
  The effect keyed on the transaction id: a change of the id retires the closure before it (\<open>alive\<close>, the
  timer) and makes a new one, numbered. A request remembers the number of its closure and its id; the replies
  come in any order. \<open>tp_about\<close> is the id the shown figures were read for.
\<close>

record tx_poll =
  tp_run :: nat
  tp_txid :: "string option"
  tp_polling :: bool
  tp_seen :: "tx_seen option"
  tp_about :: "string option"
  tp_asked :: "(nat \<times> string) list"

datatype poll_event =
  Txid_Set "string option"
| Poll_Tick
| Tx_Replied nat tx_seen
| Tx_Failed nat

definition tx_check :: "tx_poll \<Rightarrow> tx_poll" where
  "tx_check p = (case tp_txid p of None \<Rightarrow> p | Some t \<Rightarrow> p\<lparr>tp_asked := tp_asked p @ [(tp_run p, t)]\<rparr>)"

definition set_txid :: "string option \<Rightarrow> tx_poll \<Rightarrow> tx_poll" where
  "set_txid t p =
     (if t = tp_txid p then p
      else let p1 = p\<lparr>tp_run := Suc (tp_run p), tp_txid := t, tp_polling := False\<rparr> in
      if nullish t [] = [] then p1\<lparr>tp_seen := None, tp_about := None\<rparr>
      else tx_check (p1\<lparr>tp_polling := True\<rparr>))"

definition drop_asked :: "nat \<Rightarrow> tx_poll \<Rightarrow> tx_poll" where
  "drop_asked k p = p\<lparr>tp_asked := take k (tp_asked p) @ drop (Suc k) (tp_asked p)\<rparr>"

definition tx_replied :: "nat \<Rightarrow> tx_seen \<Rightarrow> tx_poll \<Rightarrow> tx_poll" where
  "tx_replied k d p =
     (if length (tp_asked p) \<le> k then p
      else let (run, t) = tp_asked p ! k; p1 = drop_asked k p in
      if run \<noteq> tp_run p then p1
      else let p2 = p1\<lparr>tp_seen := Some d, tp_about := Some t\<rparr> in
      if CONFIRMATIONS_ENOUGH \<le> nullish (sn_confirmations d) 0 then p2\<lparr>tp_polling := False\<rparr> else p2)"

fun poll_step :: "tx_poll \<Rightarrow> poll_event \<Rightarrow> tx_poll" where
  "poll_step p (Txid_Set t) = set_txid t p"
| "poll_step p Poll_Tick = (if tp_polling p then tx_check p else p)"
| "poll_step p (Tx_Replied k d) = tx_replied k d p"
| "poll_step p (Tx_Failed k) = (if k < length (tp_asked p) then drop_asked k p else p)"

definition no_payment :: tx_poll where
  "no_payment = \<lparr>tp_run = 0, tp_txid = None, tp_polling = False, tp_seen = None, tp_about = None, tp_asked = []\<rparr>"

definition plural_confirmations :: "int \<Rightarrow> string" where
  "plural_confirmations n = show_int n @ '' confirmation'' @ (if n = 1 then [] else ''s'')"

definition tx_status_line :: "tx_seen option \<Rightarrow> string" where
  "tx_status_line seen = (case seen of
       None \<Rightarrow> ''checking'' @ ellipsis
     | Some d \<Rightarrow>
         if sn_known d = Some True then
           (case (nullish (sn_confirmations d) 0 \<noteq> 0, sn_height d) of
              (True, Some h) \<Rightarrow> ''in block '' @ locale_text (of_int h) @ '', '' @ plural_confirmations (nullish (sn_confirmations d) 0)
            | (True, None) \<Rightarrow> ''seen by our node, '' @ plural_confirmations (nullish (sn_confirmations d) 0)
            | (False, _) \<Rightarrow> ''seen by our node, in the mempool'')
         else if sn_known d = Some False then ''not seen by our node yet''
         else ''our node cannot say right now'')"

text \<open>The copied receipt. \<open>iso_time\<close> writes an instant, \<open>origin\<close> is the page's address, \<open>chain\<close> the name of the network.\<close>

definition receiptText ::
  "(network \<Rightarrow> string) \<Rightarrow> (int \<Rightarrow> string) \<Rightarrow> string \<Rightarrow> tx_seen option \<Rightarrow> shown_tx \<Rightarrow> string" where
  "receiptText chain iso_time origin seen t =
     (let txid = nullish (tx_txid t) [] in
      join_with [CHR 0x0A] (filter (\<lambda>l. l \<noteq> [])
       [''Zcash '' @ chain (tx_network t) @ '' faucet drip'',
        ''amount:  '' @ tx_amountText t,
        ''to:      '' @ tx_to t,
        if txid \<noteq> [] then ''txid:    '' @ txid else ''txid:    none (this network's faucet returns no transaction id)'',
        ''privacy: '' @ (if tx_priv t then ''shielded (z to z)'' else ''transparent (public on-chain)''),
        ''sent:    '' @ iso_time (tx_at t),
        (case tx_explorerUrl t of None \<Rightarrow> [] | Some u \<Rightarrow> if u = [] then [] else ''explorer: '' @ u),
        (case seen of None \<Rightarrow> []
         | Some d \<Rightarrow> if txid \<noteq> [] \<and> sn_known d = Some True \<and> nullish (sn_confirmations d) 0 \<noteq> 0 \<and> sn_height d \<noteq> None
             then ''mined:   block '' @ show_int (the (sn_height d)) @ '', '' @ plural_confirmations (nullish (sn_confirmations d) 0) @ '' on our node''
             else []),
        if txid \<noteq> [] then ''our node: '' @ origin @ ''/api/tx?txid='' @ txid else []]))"

subsection \<open>The lookup of a balance\<close>

record balance_answer =
  ba_ok :: "bool option"
  ba_error :: "string option"
  ba_shielded :: bool
  ba_queryable :: "bool option"
  ba_note :: "string option"
  ba_balanceTaz :: "rat option"
  ba_kind :: "string option"

definition or_text :: "string option \<Rightarrow> string \<Rightarrow> string" where
  "or_text s d = (if nullish s [] = [] then d else nullish s [])"

definition lookup_text :: "balance_answer \<Rightarrow> string" where
  "lookup_text d =
     (if ba_ok d = Some False then or_text (ba_error d) ''Couldn't look that up.''
      else if ba_shielded d \<and> ba_queryable d = Some False
      then or_text (ba_note d) ''Shielded balances are private. Provide a viewing key in a wallet to see this.''
      else case ba_balanceTaz d of
        Some b \<Rightarrow> number_text b @ '' TAZ'' @ (if nullish (ba_kind d) [] = [] then [] else MIDDLE_DOT @ the (ba_kind d))
      | None \<Rightarrow> ''No balance found for this address.'')"

record lookup =
  lk_addr :: string
  lk_res :: string
  lk_asked :: "string list"

datatype lookup_event =
  Lookup_Typed string
| Lookup_Clicked
| Lookup_Answered nat balance_answer
| Lookup_Unreachable nat

definition take_asked :: "nat \<Rightarrow> lookup \<Rightarrow> lookup" where
  "take_asked k s = s\<lparr>lk_asked := take k (lk_asked s) @ drop (Suc k) (lk_asked s)\<rparr>"

fun lookup_step :: "lookup \<Rightarrow> lookup_event \<Rightarrow> lookup" where
  "lookup_step s (Lookup_Typed v) = s\<lparr>lk_addr := v, lk_res := []\<rparr>"
| "lookup_step s Lookup_Clicked =
     (case detect (trim (lk_addr s)) of
        Testnet_Address l p n \<Rightarrow> s\<lparr>lk_res := ''Looking up'' @ ellipsis, lk_asked := lk_asked s @ [trim (lk_addr s)]\<rparr>
      | _ \<Rightarrow> s\<lparr>lk_res := ''Not a testnet address, nothing to look up.''\<rparr>)"
| "lookup_step s (Lookup_Answered k d) = (if k < length (lk_asked s) then (take_asked k s)\<lparr>lk_res := lookup_text d\<rparr> else s)"
| "lookup_step s (Lookup_Unreachable k) =
     (if k < length (lk_asked s) then (take_asked k s)\<lparr>lk_res := ''Couldn't reach the backend.''\<rparr> else s)"

subsection \<open>What the poll shows\<close>

definition poll_ok :: "tx_poll \<Rightarrow> bool" where
  "poll_ok p = ((\<forall>(r, t)\<in>set (tp_asked p). r \<le> tp_run p \<and> (r = tp_run p \<longrightarrow> tp_txid p = Some t))
     \<and> (tp_seen p = None) = (tp_about p = None))"

lemma poll_ok_drop: "poll_ok p \<Longrightarrow> poll_ok (drop_asked k p)"
  unfolding poll_ok_def drop_asked_def by (auto dest: in_set_takeD in_set_dropD)

lemma poll_ok_check: "poll_ok p \<Longrightarrow> poll_ok (tx_check p)"
  by (auto simp: poll_ok_def tx_check_def split: option.split)

lemma poll_ok_step:
  assumes "poll_ok p"
  shows "poll_ok (poll_step p e)"
proof (cases e)
  case (Txid_Set t)
  have "poll_ok (p\<lparr>tp_run := Suc (tp_run p), tp_txid := t, tp_polling := b\<rparr>)" for b
    using assms by (auto simp: poll_ok_def)
  then show ?thesis using assms poll_ok_check Txid_Set
    by (auto simp: set_txid_def Let_def) (auto simp: poll_ok_def)
next
  case (Tx_Replied k d)
  have "poll_ok (p\<lparr>tp_seen := Some d, tp_about := Some t, tp_polling := b\<rparr>)" for b t
    using assms by (auto simp: poll_ok_def)
  moreover have "poll_ok (p\<lparr>tp_seen := Some d, tp_about := Some t\<rparr>)" for t using assms by (auto simp: poll_ok_def)
  ultimately show ?thesis using poll_ok_drop [OF assms, of k] Tx_Replied assms
    by (auto simp: tx_replied_def Let_def split_beta poll_ok_def drop_asked_def)
qed (use assms poll_ok_drop poll_ok_check in auto)

lemma poll_ok_run: "poll_ok (foldl poll_step no_payment es)"
proof (induction es rule: rev_induct)
  case Nil
  show ?case by (simp add: poll_ok_def no_payment_def)
qed (simp add: poll_ok_step)

definition sets_txid :: "poll_event \<Rightarrow> bool" where
  "sets_txid e = (case e of Txid_Set t \<Rightarrow> True | _ \<Rightarrow> False)"

text \<open>While the id stays, the figures are those of the id, and the poll goes on until six confirmations.\<close>

definition showing :: "string \<Rightarrow> tx_poll \<Rightarrow> bool" where
  "showing t p = (poll_ok p \<and> tp_txid p = Some t \<and> tp_about p \<in> {None, Some t}
     \<and> (tp_polling p \<or> tp_seen p \<noteq> None))"

lemma showing_step:
  assumes "showing t p" and "\<not> sets_txid e"
  shows "showing t (poll_step p e)"
proof -
  have ok: "poll_ok (poll_step p e)" using assms(1) poll_ok_step by (simp add: showing_def)
  have about: "snd (tp_asked p ! k) = t" if "k < length (tp_asked p)" "fst (tp_asked p ! k) = tp_run p" for k
  proof -
    obtain r u where e: "tp_asked p ! k = (r, u)" by (cases "tp_asked p ! k")
    then have "(r, u) \<in> set (tp_asked p)" using that(1) nth_mem by metis
    then have "r = tp_run p \<longrightarrow> tp_txid p = Some u" using assms(1) unfolding showing_def poll_ok_def by blast
    then have "tp_txid p = Some (snd (tp_asked p ! k))" using that(2) e by simp
    then show ?thesis using assms(1) by (simp add: showing_def)
  qed
  show ?thesis
  proof (cases e)
    case (Tx_Replied k d)
    show ?thesis
    proof (cases "k < length (tp_asked p) \<and> fst (tp_asked p ! k) = tp_run p")
      case True
      then have "snd (tp_asked p ! k) = t" using about by blast
      then show ?thesis using assms(1) ok True Tx_Replied
        by (simp add: showing_def tx_replied_def drop_asked_def Let_def split_beta)
    next
      case False
      then show ?thesis using assms(1) ok Tx_Replied
        by (auto simp: showing_def tx_replied_def drop_asked_def Let_def split_beta)
    qed
  qed (use assms ok in \<open>auto simp: showing_def sets_txid_def tx_check_def drop_asked_def\<close>)
qed

text \<open>
  The figures under a receipt are about its own transaction. After any history, once a payment is shown on a
  page with nothing left over from another one, every reply that is shown, in whatever order the replies of this and
  of earlier payments arrive, was asked for this payment's id; and the poll goes on until some reply was shown.
\<close>

theorem poll_shows_the_current_payment:
  assumes "p = foldl poll_step no_payment es" and "tp_seen p = None" and "t \<noteq> []" and "tp_txid p \<noteq> Some t"
    and "\<forall>e\<in>set later. \<not> sets_txid e"
  shows "tp_about (foldl poll_step p (Txid_Set (Some t) # later)) \<in> {None, Some t}
    \<and> (tp_polling (foldl poll_step p (Txid_Set (Some t) # later)) \<or> tp_seen (foldl poll_step p (Txid_Set (Some t) # later)) \<noteq> None)"
proof -
  have ok: "poll_ok p" unfolding assms(1) by (rule poll_ok_run)
  have "poll_ok (poll_step p (Txid_Set (Some t)))" using ok by (rule poll_ok_step)
  then have "showing t (poll_step p (Txid_Set (Some t)))"
    using assms(2-4) ok by (auto simp: showing_def set_txid_def tx_check_def Let_def poll_ok_def)
  then have "showing t (foldl poll_step (poll_step p (Txid_Set (Some t))) later)"
    using assms(5) by (induction later rule: rev_induct) (auto simp: showing_step)
  then show ?thesis by (simp add: showing_def)
qed

theorem poll_shows_the_current_payment_witness:
  "tp_about (foldl poll_step (foldl poll_step no_payment [Txid_Set (Some ''a''), Txid_Set None])
     (Txid_Set (Some ''b'') # [Tx_Replied 0 \<lparr>sn_known = Some True, sn_confirmations = Some 9, sn_height = None\<rparr>])) \<in> {None, Some ''b''}"
proof -
  have "tp_seen (foldl poll_step no_payment [Txid_Set (Some ''a''), Txid_Set None]) = None"
    and "tp_txid (foldl poll_step no_payment [Txid_Set (Some ''a''), Txid_Set None]) \<noteq> Some ''b''" by code_simp+
  from poll_shows_the_current_payment [OF refl this(1) _ this(2),
      of "[Tx_Replied 0 \<lparr>sn_known = Some True, sn_confirmations = Some 9, sn_height = None\<rparr>]"]
  show ?thesis by (simp add: sets_txid_def)
qed

text \<open>
  A buried payment can become less confirmed on the page. The poll stops at six confirmations, but the reply to an
  earlier request may arrive after the one that stopped it: the smaller figure is then shown, for good.
\<close>

theorem late_reply_lowers_the_figure:
  assumes "t \<noteq> []" and "c < CONFIRMATIONS_ENOUGH"
  shows "(let d = (\<lambda>n. \<lparr>sn_known = Some True, sn_confirmations = Some n, sn_height = Some 5\<rparr>);
      p = foldl poll_step no_payment [Txid_Set (Some t), Poll_Tick, Tx_Replied 1 (d CONFIRMATIONS_ENOUGH), Tx_Replied 0 (d c)]
    in tp_seen p = Some (d c) \<and> \<not> tp_polling p \<and> tp_asked p = [] \<and> poll_step p Poll_Tick = p)"
  using assms by (simp add: no_payment_def set_txid_def tx_check_def tx_replied_def drop_asked_def Let_def CONFIRMATIONS_ENOUGH_def)

text \<open>
  A balance under another address. Typing clears the shown result, but the answer to the lookup before it still
  fills it in: the page then shows one address and the balance of another.
\<close>

theorem stale_balance_under_new_address:
  assumes "detect (trim a) = Testnet_Address l p n"
  shows "(let s = foldl lookup_step \<lparr>lk_addr = [], lk_res = [], lk_asked = []\<rparr>
      [Lookup_Typed a, Lookup_Clicked, Lookup_Typed b, Lookup_Answered 0 d] in lk_addr s = b \<and> lk_res s = lookup_text d)"
  using assms by (simp add: take_asked_def)

subsection \<open>What a receipt says\<close>

lemma encode_hex: "list_all is_hex s \<Longrightarrow> encodeURIComponent s = s"
proof (induction s)
  case (Cons c s)
  then have "is_hex c" by simp
  then have "unreserved c" by (auto simp: unreserved_def is_hex_def less_eq_char_def)
  then show ?case using Cons by (simp add: encodeURIComponent_def)
qed (simp add: encodeURIComponent_def)

lemma replace_first_at:
  assumes "c \<notin> set a"
  shows "replace_first (c # pat) v (a @ (c # pat) @ b) = a @ v @ b"
  using assms
proof (induction a)
  case Nil
  then show ?case using starts_with_append [of "c # pat" b] by (simp add: replace_first.simps [of _ _ "c # _"])
next
  case (Cons x a)
  then show ?case by (auto simp: replace_first.simps [of _ _ "x # _"])
qed

text \<open>
  The explorer link of a receipt is the template with the id in it. For a hexadecimal id and a template (the
  default one included) whose first brace opens the placeholder, the link is the template with exactly that
  placeholder replaced, and a payment without an id has no link.
\<close>

theorem explorer_link_carries_the_txid:
  assumes "list_all is_hex txid" and "txid \<noteq> []" and "CHR ''{'' \<notin> set a"
    and "setting = Some (a @ ''{txid}'' @ b)"
  shows "explorerTxUrl setting txid = Some (a @ txid @ b) \<and> explorerTxUrl setting [] = None
    \<and> explorerTxUrl None txid = Some (''https://testnet.cipherscan.app/tx/'' @ txid)"
proof -
  have "replace_first ''{txid}'' txid (''https://testnet.cipherscan.app/tx/'' @ ''{txid}'' @ []) = ''https://testnet.cipherscan.app/tx/'' @ txid @ []"
    by (rule replace_first_at) simp
  then show ?thesis using assms replace_first_at [of "CHR ''{''" a "''txid}''" txid b]
    by (simp add: explorerTxUrl_def DEFAULT_TX_URL_def encode_hex)
qed

theorem explorer_link_carries_the_txid_witness:
  "explorerTxUrl (Some ''x/{txid}?n=t'') ''ab1'' = Some ''x/ab1?n=t''"
proof -
  have "list_all is_hex ''ab1''" by code_simp
  then show ?thesis using explorer_link_carries_the_txid [of "''ab1''" "''x/''" "Some ''x/{txid}?n=t''" "''?n=t''"] by simp
qed

end
