(* ===== verification/Sparkline.thy ===== *)
theory Sparkline
  imports Charts
begin

text \<open>
  The thirty day strip of the header, \<open>src/src/app/Sparkline.tsx\<close>: the sizing of its canvas, the rounded
  rectangle, the bars its effect paints and the label it speaks. The strip has its own copy of the geometry of
  \<open>charts.ts\<close>; the theorem shows that the two agree bar by bar. Pixels are exact reals, a mark is a
  \<open>draw_op\<close> of the theory \<open>Charts\<close>.
\<close>

section \<open>The strip\<close>

text \<open>
  \<open>prep\<close>: the pixels of the backing store, \<open>None\<close> for a display that names no ratio. Unlike \<open>prepareCanvas\<close> the
  ratio is taken as it is.
\<close>

definition spark_ratio :: "real option \<Rightarrow> real" where
  "spark_ratio device = (if nullish device 0 = 0 then 1 else nullish device 0)"

definition spark_prep :: "real option \<Rightarrow> real \<Rightarrow> real \<Rightarrow> int \<times> int" where
  "spark_prep device w h =
     (max 1 \<lfloor>w * spark_ratio device + 1/2\<rfloor>, max 1 \<lfloor>h * spark_ratio device + 1/2\<rfloor>)"

definition rr :: "real \<Rightarrow> real \<Rightarrow> real \<Rightarrow> real \<Rightarrow> real \<Rightarrow> string \<Rightarrow> bool \<Rightarrow> draw_op" where
  "rr x y w h r tok glow = Round_Fill x y w h (min r (min (w / 2) (h / 2))) tok glow"

text \<open>One pass of \<open>byDay.forEach\<close>: the marks of day \<open>i\<close> of \<open>n\<close>, given the scale and the widths.\<close>

definition spark_bar ::
  "utc_day option \<Rightarrow> nat \<Rightarrow> int \<Rightarrow> real \<Rightarrow> real \<Rightarrow> real \<Rightarrow> nat \<times> drip_day \<Rightarrow> draw_op list" where
  "spark_bar countingSince n mx ih gap bw p =
     (case p of (i, (day, sent)) \<Rightarrow>
        if is_uncounted day countingSince then []
        else let bh = max bw (real_of_int sent / real_of_int mx * ih);
                 bx = real i * (bw + gap);
                 by0 = 1 + ih - bh
             in if i = n - 1 then [rr (bx - bw * (1/20)) by0 (bw * (11/10)) bh bw ''--orange'' True]
                else [rr bx by0 bw bh bw ''--bar-soft'' False])"

text \<open>\<open>draw\<close>: a box of no width counts as 80, one of no height as 22; an empty series paints nothing.\<close>

definition spark_draw :: "real \<Rightarrow> real \<Rightarrow> drip_day list \<Rightarrow> utc_day option \<Rightarrow> draw_op list" where
  "spark_draw boxWidth boxHeight byDay countingSince =
     (if byDay = [] then []
      else let w = (if boxWidth = 0 then 80 else boxWidth);
               h = (if boxHeight = 0 then 22 else boxHeight);
               ih = h - 2;
               n = length byDay;
               counted = filter (\<lambda>d. \<not> is_uncounted (fst d) countingSince) byDay;
               mx = foldl max 1 (map snd counted);
               gap = max 1 (w / real n * (3/10));
               bw = (w - gap * real (n - 1)) / real n
           in concat (map (spark_bar countingSince n mx ih gap bw) (enumerate 0 byDay)))"

section \<open>The label\<close>

definition say :: "int option \<Rightarrow> string" where
  "say n = (case n of None \<Rightarrow> ''unknown'' | Some k \<Rightarrow> show_int k)"

definition spark_today :: "drip_day list \<Rightarrow> int option" where
  "spark_today byDay = (if byDay = [] then None else Some (snd (byDay ! (length byDay - 1))))"

definition spark_uncounted_days :: "drip_day list \<Rightarrow> utc_day option \<Rightarrow> nat" where
  "spark_uncounted_days byDay countingSince = length (filter (\<lambda>d. is_uncounted (fst d) countingSince) byDay)"

definition spark_label :: "drip_day list \<Rightarrow> utc_day option \<Rightarrow> int option \<Rightarrow> int option \<Rightarrow> string" where
  "spark_label byDay countingSince last7d allTime =
     ''Drips per day over the last 30 days. '' @ say last7d @ '' this week, '' @ say allTime @ '' counted, ''
     @ say (spark_today byDay) @ '' today.''
     @ (if 0 < spark_uncounted_days byDay countingSince
        then '' '' @ show_int (int (spark_uncounted_days byDay countingSince))
             @ '' of them are before counting began and are not plotted.''
        else '''')"

section \<open>The strip is the chart of the drips in small\<close>

text \<open>The mark the chart of \<open>charts.ts\<close> makes of a bar, with the radius of the strip.\<close>

definition strip_mark :: "bar_rect \<Rightarrow> draw_op list" where
  "strip_mark r =
     (if br_uncounted r then []
      else [rr (br_x r) (br_y r) (br_w r) (br_h r) (if br_today r then br_w r / (11/10) else br_w r)
              (if br_today r then ''--orange'' else ''--bar-soft'') (br_today r)])"

lemma spark_bar_at:
  assumes "i < length byDay" and "bar_metrics (length byDay) w = (bw, gap)"
  shows "spark_bar since (length byDay) (bar_max byDay since) ih gap bw (i, byDay ! i)
    = strip_mark (bar_rect_at 0 1 w ih since byDay i)"
  by (simp add: spark_bar_def strip_mark_def bar_rect_at_def assms(2) Let_def case_prod_beta)

text \<open>
  the strip and the chart agree. On any box the strip paints, day by day, exactly the bars
  \<open>barRects\<close> of the analytics chart computes for a plot of that width two pixels lower than the box: the same
  place, width and height, today in the accent, and no mark for a day before counting began.
\<close>

theorem strip_paints_the_charts_bars:
  "spark_draw boxWidth boxHeight byDay since
   = concat (map strip_mark
       (bar_rects byDay 0 1 (if boxWidth = 0 then 80 else boxWidth) ((if boxHeight = 0 then 22 else boxHeight) - 2) since))"
proof (cases "byDay = []")
  case True
  then show ?thesis by (simp add: spark_draw_def bar_rects_def)
next
  case False
  define w ih where "w = (if boxWidth = 0 then 80 else boxWidth)" and "ih = (if boxHeight = 0 then 22 else boxHeight) - 2"
  define gap bw where "gap = max 1 (w / real (length byDay) * (3/10))"
    and "bw = (w - gap * real (length byDay - 1)) / real (length byDay)"
  have m: "bar_metrics (length byDay) w = (bw, gap)" using False by (simp add: bar_metrics_def gap_def bw_def Let_def)
  have mx: "foldl max 1 (map snd (filter (\<lambda>d. \<not> is_uncounted (fst d) since) byDay)) = bar_max byDay since"
    by (simp add: bar_max_def case_prod_unfold)
  have "map (spark_bar since (length byDay) (bar_max byDay since) ih gap bw) (enumerate 0 byDay)
      = map strip_mark (bar_rects byDay 0 1 w ih since)"
    by (rule nth_equalityI) (simp_all add: nth_enumerate_eq bar_rects_nth spark_bar_at [OF _ m])
  then show ?thesis
    using False unfolding spark_draw_def Let_def mx
    by (simp only: w_def [symmetric] ih_def [symmetric] gap_def [symmetric] bw_def [symmetric] if_False)
qed

text \<open>
  a count nobody has told the page is never spoken as a figure: the week, the count and the day are
  each \<open>unknown\<close> exactly when they are missing, so the label of a status without a drips block names no zero.
\<close>

lemma say_unknown: "say n = ''unknown'' \<longleftrightarrow> n = None"
proof (cases n)
  case (Some k)
  have no_u: "show_nat n \<noteq> ''unknown''" for n using show_nat_is_digits [of n] by (auto simp: is_digit_def)
  have "show_int k \<noteq> ''unknown''" using no_u by (simp add: show_int_def)
  then show ?thesis using Some by (simp add: say_def)
qed (simp add: say_def)

lemma label_of_no_status:
  "spark_label [] since None None
   = ''Drips per day over the last 30 days. unknown this week, unknown counted, unknown today.''"
  by (simp add: spark_label_def spark_today_def spark_uncounted_days_def say_def)

lemma strip_of_two_days:
  "spark_draw 80 22 [(1, 0), (2, 4)] (Some 2) = [rr (443/10) (- 13) (374/10) 34 34 ''--orange'' True]"
  by (simp add: spark_draw_def spark_bar_def is_uncounted_def enumerate_eq_zip Let_def)

end
