(* ===== verification/Card_Motion.thy ===== *)
theory Card_Motion
  imports Complex_Main
begin

text \<open>
  The motion of the claim card, the two layout effects of \<open>src/src/app/page.tsx\<close> that run after every commit:
  the animator (the end of the running animation, the resumption, the new animation) and the recorder of the
  height. The easing curve of the browser is a parameter, heights are exact reals, and the end of an animation
  and its \<open>onfinish\<close> handler are one step, as the browser dispatches both in one frame.
\<close>

section \<open>The two effects\<close>

definition CARD_MS :: real where "CARD_MS = 460"

text \<open>An animation by its end points and its clock.\<close>

record motion =
  mo_from :: real
  mo_to :: real
  mo_elapsed :: real

text \<open>
  The refs \<open>cardFrom\<close>, \<open>cardTarget\<close>, \<open>cardOrigin\<close> and \<open>cardAnim\<close>, and the height the content asks for.
\<close>

record claim_card =
  cd_from :: "real option"
  cd_target :: "real option"
  cd_origin :: "real option"
  cd_anim :: "motion option"
  cd_natural :: real

definition card_mounted :: "real \<Rightarrow> claim_card" where
  "card_mounted h = \<lparr>cd_from = Some h, cd_target = None, cd_origin = None, cd_anim = None, cd_natural = h\<rparr>"

text \<open>\<open>getBoundingClientRect().height\<close>: the interpolated height while an animation plays, else that of the content.\<close>

definition card_box :: "(real \<Rightarrow> real) \<Rightarrow> claim_card \<Rightarrow> real" where
  "card_box ease c =
     (case cd_anim c of
        None \<Rightarrow> cd_natural c
      | Some m \<Rightarrow> mo_from m + ease (mo_elapsed m / CARD_MS) * (mo_to m - mo_from m))"

text \<open>The animator; \<open>moves\<close>: the element can be animated and the reader has not asked for less motion.\<close>

definition animator :: "(real \<Rightarrow> real) \<Rightarrow> bool \<Rightarrow> claim_card \<Rightarrow> claim_card" where
  "animator ease moves c =
     (if \<not> moves then c
      else let painted = card_box ease c;
               playing = cd_anim c \<noteq> None;
               elapsed = (case cd_anim c of None \<Rightarrow> 0 | Some m \<Rightarrow> mo_elapsed m);
               c1 = c\<lparr>cd_anim := None\<rparr>;
               to = card_box ease c1;
               continuing = playing \<and> (case cd_target c1 of None \<Rightarrow> False | Some t \<Rightarrow> \<bar>to - t\<bar> < 1);
               from = (if continuing then cd_origin c1 else if playing then Some painted else cd_from c1)
           in case from of
                None \<Rightarrow> c1
              | Some f \<Rightarrow>
                  if \<bar>to - f\<bar> < 1 then c1
                  else c1\<lparr>cd_anim := Some \<lparr>mo_from = f, mo_to = to, mo_elapsed = (if continuing then elapsed else 0)\<rparr>,
                          cd_origin := Some f, cd_target := Some to\<rparr>)"

definition recorder :: "(real \<Rightarrow> real) \<Rightarrow> claim_card \<Rightarrow> claim_card" where
  "recorder ease c = (if cd_anim c \<noteq> None then c else c\<lparr>cd_from := Some (card_box ease c)\<rparr>)"

text \<open>\<open>restore\<close>, for the animation that still owns the element.\<close>

definition restore_card :: "(real \<Rightarrow> real) \<Rightarrow> claim_card \<Rightarrow> claim_card" where
  "restore_card ease c = (let c1 = c\<lparr>cd_anim := None\<rparr> in c1\<lparr>cd_from := Some (card_box ease c1)\<rparr>)"

datatype card_event = Card_Commit bool real | Time_Passes real

fun card_step :: "(real \<Rightarrow> real) \<Rightarrow> claim_card \<Rightarrow> card_event \<Rightarrow> claim_card" where
  "card_step ease c (Card_Commit moves h) = recorder ease (animator ease moves (c\<lparr>cd_natural := h\<rparr>))"
| "card_step ease c (Time_Passes dt) =
     (case cd_anim c of
        None \<Rightarrow> c
      | Some m \<Rightarrow> if CARD_MS \<le> mo_elapsed m + max 0 dt then restore_card ease c
                  else c\<lparr>cd_anim := Some (m\<lparr>mo_elapsed := mo_elapsed m + max 0 dt\<rparr>)\<rparr>)"

definition card_run :: "(real \<Rightarrow> real) \<Rightarrow> real \<Rightarrow> card_event list \<Rightarrow> claim_card" where
  "card_run ease h evs = foldl (card_step ease) (card_mounted h) evs"

section \<open>The card never jumps\<close>

text \<open>An easing curve starts where the animation starts and stays between its end points.\<close>

definition easing :: "(real \<Rightarrow> real) \<Rightarrow> bool" where
  "easing ease = (ease 0 = 0 \<and> (\<forall>t. 0 \<le> t \<longrightarrow> t \<le> 1 \<longrightarrow> 0 \<le> ease t \<and> ease t \<le> 1))"

definition card_ok :: "claim_card \<Rightarrow> bool" where
  "card_ok c =
     (case cd_anim c of
        None \<Rightarrow> cd_from c = Some (cd_natural c)
      | Some m \<Rightarrow> cd_origin c = Some (mo_from m) \<and> cd_target c = Some (mo_to m) \<and> 0 \<le> mo_elapsed m \<and> mo_elapsed m < CARD_MS)"

lemma card_ok_step: "card_ok c \<Longrightarrow> card_ok (card_step ease c e)"
proof (cases e)
  case (Card_Commit moves h)
  assume "card_ok c"
  then show ?thesis
    using Card_Commit
    by (auto simp: card_ok_def animator_def recorder_def card_box_def Let_def CARD_MS_def split: option.splits if_splits)
next
  case (Time_Passes dt)
  assume "card_ok c"
  then show ?thesis using Time_Passes by (auto simp: card_ok_def restore_card_def card_box_def Let_def split: option.splits)
qed

lemma card_ok_run: "card_ok (card_run ease h evs)"
  unfolding card_run_def
  by (induction evs rule: rev_induct) (simp_all add: card_ok_step, simp add: card_ok_def card_mounted_def)

lemma between_near:
  assumes "0 \<le> (u :: real)" and "u \<le> 1" and "\<bar>x - a\<bar> < 1" and "\<bar>x - b\<bar> < 1"
  shows "\<bar>x - (a + u * (b - a))\<bar> < 1"
proof -
  have u: "x - (a + u * (b - a)) = (1 - u) * (x - a) + u * (x - b)" by (simp add: algebra_simps)
  have "\<bar>(1 - u) * (x - a) + u * (x - b)\<bar> \<le> (1 - u) * \<bar>x - a\<bar> + u * \<bar>x - b\<bar>"
    using assms(1,2) abs_triangle_ineq [of "(1 - u) * (x - a)" "u * (x - b)"] by (simp add: abs_mult)
  also have "\<dots> \<le> (1 - u) * max \<bar>x - a\<bar> \<bar>x - b\<bar> + u * max \<bar>x - a\<bar> \<bar>x - b\<bar>"
    using assms(1,2) by (intro add_mono mult_left_mono) auto
  also have "\<dots> = max \<bar>x - a\<bar> \<bar>x - b\<bar>" by (simp add: algebra_simps)
  also have "\<dots> < 1" using assms(3,4) by simp
  finally show ?thesis by (simp add: u)
qed

lemma commit_is_smooth:
  assumes "easing ease" and "card_ok c"
  shows "\<bar>card_box ease (card_step ease c (Card_Commit True h)) - card_box ease c\<bar> < 1"
proof (cases "cd_anim c")
  case None
  then show ?thesis using assms
    by (auto simp: card_ok_def animator_def recorder_def card_box_def Let_def easing_def CARD_MS_def split: if_splits)
next
  case (Some m)
  define u where "u = ease (mo_elapsed m / CARD_MS)"
  have u: "0 \<le> u" "u \<le> 1"
    using assms Some unfolding u_def easing_def card_ok_def CARD_MS_def by auto
  have zero: "ease 0 = 0" using assms(1) by (simp add: easing_def)
  let ?f = "mo_from m" and ?t = "mo_to m"
  have box: "card_box ease c = ?f + u * (?t - ?f)" by (simp add: card_box_def Some u_def)
  have refs: "cd_origin c = Some ?f" "cd_target c = Some ?t" using assms(2) Some by (simp_all add: card_ok_def)
  show ?thesis
  proof (cases "\<bar>h - ?t\<bar> < 1")
    case True
    show ?thesis
    proof (cases "\<bar>h - ?f\<bar> < 1")
      case near: True
      then have "card_box ease (card_step ease c (Card_Commit True h)) = h"
        using True by (simp add: animator_def recorder_def card_box_def Let_def Some refs)
      then show ?thesis unfolding box using between_near [OF u near True] by simp
    next
      case False
      then have "card_box ease (card_step ease c (Card_Commit True h)) = ?f + u * (h - ?f)"
        using True by (simp add: animator_def recorder_def card_box_def Let_def Some refs u_def)
      moreover have "\<bar>u * (h - ?t)\<bar> \<le> \<bar>h - ?t\<bar>" using u by (simp add: abs_mult mult_left_le_one_le)
      ultimately show ?thesis unfolding box using True by (simp add: algebra_simps)
    qed
  next
    case False
    then show ?thesis
      using zero by (auto simp: animator_def recorder_def card_box_def Let_def Some refs)
  qed
qed

text \<open>
  the card never jumps. After any sequence of commits and frames, whatever animation is under way, a
  commit that changes the height of the content leaves the card, at that instant, within a pixel of where it is
  on the screen: a running animation is resumed where it was or continued from where it visibly is.
\<close>

theorem card_never_jumps:
  assumes "easing ease"
  shows "\<bar>card_box ease (card_run ease h0 (evs @ [Card_Commit True h])) - card_box ease (card_run ease h0 evs)\<bar> < 1"
  using commit_is_smooth [OF assms card_ok_run [of ease h0 evs], of h] by (simp add: card_run_def)

theorem card_never_jumps_witness:
  "\<bar>card_box (\<lambda>t. t) (card_run (\<lambda>t. t) 400 [Card_Commit True 600, Time_Passes 230, Card_Commit True 450])
     - card_box (\<lambda>t. t) (card_run (\<lambda>t. t) 400 [Card_Commit True 600, Time_Passes 230])\<bar> < 1"
  using card_never_jumps [of "\<lambda>t. t" 400 "[Card_Commit True 600, Time_Passes 230]" 450] by (simp add: easing_def)

text \<open>
  For a reader who has asked for less motion there is none: with no animation under way, every commit shows the
  content at its own height at once.
\<close>

lemma reduced_motion_has_none:
  "cd_anim c = None \<Longrightarrow> cd_anim (card_step ease c (Card_Commit False h)) = None
     \<and> card_box ease (card_step ease c (Card_Commit False h)) = h"
  by (simp add: animator_def recorder_def card_box_def)

text \<open>A render within the 460 ms that leaves the height alone resumes the animation: end points and clock are kept.\<close>

lemma rerender_resumes:
  assumes "card_ok c" and "cd_anim c = Some m" and "1 \<le> \<bar>mo_to m - mo_from m\<bar>"
  shows "cd_anim (card_step ease c (Card_Commit True (mo_to m))) = Some m"
  using assms by (auto simp: card_ok_def animator_def recorder_def card_box_def Let_def split: if_splits)

end
