(* ===== verification/Page_Words.thy ===== *)
theory Page_Words
  imports Page_Claim Status_View
begin

text \<open>
  What the claim page of \<open>src/src/app/page.tsx\<close> says around a claim: the sentence of the live region, the
  claim button, the steps of a submission, the refill figures, the income line, and the throwaway address with
  its key: the request, the clipboard and the gate on the button. The press itself is \<open>submit\<close> of \<open>Page_Claim\<close>.
\<close>

section \<open>The live region\<close>

text \<open>What the sentence is read from, beside the phase.\<close>

record announce_facts =
  an_behindFault :: bool
  an_refilling :: bool
  an_refillHealthy :: bool
  an_solving :: bool
  an_refused :: "refused_kind option"
  an_fail :: fail_kind
  an_errMsg :: string

fun announce_error :: "fail_kind \<Rightarrow> string \<Rightarrow> string" where
  "announce_error Fk_Held m = ''Not right now, on our side. '' @ m"
| "announce_error Fk_Busy m = ''The faucet is busy. Nothing left the wallet. '' @ m"
| "announce_error Fk_Cap m = ''The faucet has paid out its daily amount. '' @ m"
| "announce_error Fk_Unknown m = ''Your drip was submitted and its outcome is unknown. '' @ m"
| "announce_error Fk_Bad m = ''That request could not be taken. '' @ m"
| "announce_error Fk_Pow m = ''The human check did not pass. Nothing was claimed. '' @ m"
| "announce_error Fk_Offline m = m"
| "announce_error Fk_Failed m = ''The send failed. Nothing left the wallet.''"

fun announce :: "phase \<Rightarrow> announce_facts \<Rightarrow> string" where
  "announce Ph_Checking f = ''Checking the faucet'' @ [CHR 0x27] @ ''s status.''"
| "announce Ph_Queued f = ''Your claim is queued. It sends on its own when the ''
     @ (if an_behindFault f then ''faucet is back'' else ''node is ready'') @ ''.''"
| "announce Ph_Syncing f = ''Node is syncing. The faucet will be ready shortly.''"
| "announce Ph_Fault f = ''The faucet is having a problem and is not taking claims right now. Nothing to do on your side.''"
| "announce Ph_Empty f =
     (if an_refilling f
      then (if an_refillHealthy f then ''Topping up the reserve. Drips resume in a moment.''
            else ''The faucet'' @ [CHR 0x27] @ ''s reserve is low.'')
      else ''The faucet is out of TAZ right now.'')"
| "announce Ph_Degraded f = ''Sends are failing right now, so the faucet is not taking claims. Nothing to do on your side.''"
| "announce Ph_Submitting f =
     (if an_solving f
      then ''Checking you are human. It runs on its own; there is a Cancel button if you would rather not wait.''
      else ''Sending your testnet ZEC. Keep this tab open.'')"
| "announce Ph_Success f = ''Sent. Your testnet ZEC is on its way.''"
| "announce Ph_Cooldown f =
     (case an_refused f of
        Some Rk_Subnet \<Rightarrow> ''Too many requests from this network. This is a limit, not a fault.''
      | Some Rk_Connection \<Rightarrow> ''Too many requests from this connection. This is a limit, not a fault.''
      | _ \<Rightarrow> ''Already claimed. This address had a drip in the last 24 hours.'')"
| "announce Ph_Error f = announce_error (an_fail f) (an_errMsg f)"
| "announce Ph_Ready f = ''Faucet ready.''"

text \<open>
  one sentence, one panel. Outside the error card the sentence of the live region determines the phase,
  and within a refusal which of the three limits it is: no two panels are announced alike.
\<close>

theorem announcement_names_the_panel:
  assumes "announce p f = announce q g" and "p \<noteq> Ph_Error" and "q \<noteq> Ph_Error"
  shows "p = q \<and> (p = Ph_Cooldown \<longrightarrow>
    (an_refused f = Some Rk_Subnet \<longleftrightarrow> an_refused g = Some Rk_Subnet)
    \<and> (an_refused f = Some Rk_Connection \<longleftrightarrow> an_refused g = Some Rk_Connection))"
  using assms
  by (cases p; cases q) (simp_all split: if_splits option.splits refused_kind.splits)

definition ex_announce :: announce_facts where
  "ex_announce = \<lparr>an_behindFault = False, an_refilling = False, an_refillHealthy = False, an_solving = False,
     an_refused = Some Rk_Subnet, an_fail = Fk_Failed, an_errMsg = []\<rparr>"

theorem announcement_names_the_panel_witness:
  "an_refused (ex_announce\<lparr>an_solving := True\<rparr>) = Some Rk_Subnet"
  using announcement_names_the_panel [of Ph_Cooldown ex_announce Ph_Cooldown "ex_announce\<lparr>an_solving := True\<rparr>"]
  by (simp add: ex_announce_def)

section \<open>The steps of a submission\<close>

definition PROOF_SECONDS :: real where "PROOF_SECONDS = 12"

definition RETRY_STEP_LABEL :: string where "RETRY_STEP_LABEL = ''Our node was slow, asking it again''"

definition proof_frac :: "phase \<Rightarrow> real \<Rightarrow> real" where
  "proof_frac phase elapsed = (if phase = Ph_Submitting then min (95/100) (elapsed / (PROOF_SECONDS * 1000)) else 0)"

definition claim_steps :: "nat \<Rightarrow> (string \<times> real) list" where
  "claim_steps heldRetries =
     [(''Checking eligibility'', 9/100), (''Selecting shielded notes'', 13/100),
      (''Proving the payment in zero knowledge'', 63/100), (''Broadcasting to the testnet'', 15/100)]
     @ (if 0 < heldRetries then [(RETRY_STEP_LABEL, 0)] else [])"

text \<open>The loop over the steps from index \<open>i\<close> on, with the weight so far and the current step.\<close>

fun step_loop :: "real \<Rightarrow> nat \<Rightarrow> real \<Rightarrow> nat \<Rightarrow> (string \<times> real) list \<Rightarrow> nat" where
  "step_loop fr i acc cur [] = cur"
| "step_loop fr i acc cur ((label, w) # rest) =
     (let acc' = acc + w; done = acc' \<le> fr; active = \<not> done \<and> acc \<le> fr
      in step_loop fr (Suc i) acc' (if active then i else cur) rest)"

definition cur_step :: "phase \<Rightarrow> real \<Rightarrow> nat \<Rightarrow> nat" where
  "cur_step phase elapsed heldRetries =
     (let steps = claim_steps heldRetries; fr = proof_frac phase elapsed;
          a = step_loop fr 0 0 0 steps;
          b = (if 1 \<le> fr then length steps - 1 else a)
      in if 0 < heldRetries then length steps - 1 else b)"

lemma cur_step_unretried:
  "0 \<le> t \<Longrightarrow> cur_step Ph_Submitting t 0 = (if t < 1080 then 0 else if t < 2640 then 1 else if t < 10200 then 2 else 3)"
  by (simp add: cur_step_def proof_frac_def claim_steps_def PROOF_SECONDS_def Let_def min_def field_simps)

text \<open>
  the steps go forward and never claim the end. While a claim is under way the step shown never goes
  back as time passes, it is always one of the list, and without a retry it ends at the broadcast, which is
  never marked done; once our own node is asked again the step shown is that one.
\<close>

theorem steps_only_go_forward:
  assumes "0 \<le> t" and "t \<le> t'"
  shows "cur_step Ph_Submitting t n \<le> cur_step Ph_Submitting t' n
    \<and> cur_step Ph_Submitting t n < length (claim_steps n)
    \<and> fst (claim_steps n ! cur_step Ph_Submitting (max 10200 t) n) = (if n = 0 then ''Broadcasting to the testnet'' else RETRY_STEP_LABEL)
    \<and> proof_frac Ph_Submitting t < 1"
proof (cases "n = 0")
  case True
  then show ?thesis using assms cur_step_unretried [of t] cur_step_unretried [of t'] cur_step_unretried [of "max 10200 t"]
    by (auto simp: claim_steps_def proof_frac_def max_def numeral_3_eq_3)
next
  case False
  then show ?thesis by (simp add: cur_step_def claim_steps_def proof_frac_def Let_def)
qed

section \<open>The refill and the income\<close>

text \<open>The last failure of the shielding step counts while failed steps are still counted.\<close>

definition harvest_failing :: "(string option \<times> rat option) option \<Rightarrow> bool" where
  "harvest_failing reserve =
     (case reserve of None \<Rightarrow> False
      | Some (lastOutcome, failedSteps) \<Rightarrow> lastOutcome = Some ''error'' \<and> nullish failedSteps 0 > 0)"

definition refill_pct :: "(rat option \<times> rat) option \<Rightarrow> int option" where
  "refill_pct reserve =
     (case reserve of
        Some (Some spendable, target) \<Rightarrow> if 0 < target then Some (min 100 \<lfloor>spendable / target * 100 + 1/2\<rfloor>) else None
      | _ \<Rightarrow> None)"

definition refill_healthy :: "bool \<Rightarrow> bool \<Rightarrow> bool \<Rightarrow> bool" where
  "refill_healthy minerActive shieldCoinbase harvestFails = (minerActive \<and> shieldCoinbase \<and> \<not> harvestFails)"

text \<open>The miner is its activity and the count of accepted blocks, the reserve its switch and its failure.\<close>

definition income_from ::
  "(bool \<times> rat option) option \<Rightarrow> (bool option \<times> string option \<times> rat option) option \<Rightarrow> string option" where
  "income_from miner reserve =
     (case (miner, reserve) of
        (Some (active, accepted), Some (shield, lastOutcome, failedSteps)) \<Rightarrow>
          Some (income_sentence \<lparr>if_minerActive = active, if_accepted = accepted, if_shieldCoinbase = (shield = Some True),
            if_harvestFailing = harvest_failing (Some (lastOutcome, failedSteps))\<rparr>)
      | _ \<Rightarrow> None)"

section \<open>The claim button\<close>

definition ELLIPSIS :: string where "ELLIPSIS = [CHR 0xE2, CHR 0x80, CHR 0xA6]"

definition key_blocks :: "hold_page \<Rightarrow> bool" where
  "key_blocks p = (hp_genKey p = Some (trim (hp_addr p)) \<and> \<not> hp_keyCopied p \<and> \<not> hp_keyShown p)"

definition button_disabled :: "hold_page \<Rightarrow> bool" where
  "button_disabled p = (hp_phase p = Ph_Empty \<or> hp_phase p = Ph_Degraded \<or> key_blocks p)"

definition button_label :: "string \<Rightarrow> bool \<Rightarrow> hold_page \<Rightarrow> string" where
  "button_label dripText toppingUp p =
     (if key_blocks p then ''Copy the key first''
      else if hp_phase p = Ph_Checking then ''Checking status'' @ ELLIPSIS
      else if hp_phase p = Ph_Syncing then ''Queue it, sends when the node is ready''
      else if hp_phase p = Ph_Fault then ''Queue it, sends when the faucet is back''
      else if hp_phase p = Ph_Empty then (if toppingUp then ''Topping up, back in a moment'' else ''Waiting for a refill'')
      else if hp_phase p = Ph_Degraded then ''Not taking claims right now''
      else ''Request '' @ dripText)"

lemma base_phase_cases:
  "base_phase s n \<in> {Ph_Checking, Ph_Syncing, Ph_Fault, Ph_Empty, Ph_Degraded, Ph_Ready}"
  by (auto simp: base_phase_def split: option.split)

text \<open>
  C33: the button does what it says. With an address that passes the form's check, no claim under way
  and the phase the status gives, the button is disabled exactly when a press would do nothing, and it
  says Request exactly when a press sends a claim for that address at once. A press holds the address for
  later in two cases: the button says Queue exactly when it does so in a phase other than checking, and
  Checking status exactly when it does so while checking, when no status or no word of the node has come.
\<close>

theorem button_does_what_it_says:
  assumes "ac_ok (page_check dec (trim (hp_addr p)))" and "\<not> hp_sending p" and "hp_phase p = base_of p"
    and "submit dec now None p = (q, sent)"
  shows "(button_disabled p \<longleftrightarrow> sent = None \<and> hp_phase q \<noteq> Ph_Queued)
    \<and> (button_label d topping p = ''Request '' @ d \<longleftrightarrow> sent = Some (trim (hp_addr p), hp_network p))
    \<and> (button_label d topping p \<in> {''Queue it, sends when the node is ready'', ''Queue it, sends when the faucet is back''}
          \<longleftrightarrow> hp_phase q = Ph_Queued \<and> hp_queued q = Some (trim (hp_addr p)) \<and> hp_phase p \<noteq> Ph_Checking)
    \<and> (button_label d topping p = ''Checking status'' @ ELLIPSIS
          \<longleftrightarrow> hp_phase q = Ph_Queued \<and> hp_queued q = Some (trim (hp_addr p)) \<and> hp_phase p = Ph_Checking)"
proof -
  note base = base_phase_cases [of "hp_status p" "hp_network p", folded assms(3)]
  show ?thesis
  proof (cases "key_unseen p (trim (hp_addr p))")
    case True
    then have "key_blocks p" and "(q, sent) = (p, None)"
      using assms by (simp_all add: key_blocks_def key_unseen_def submit_def)
    then show ?thesis using base by (auto simp: button_disabled_def button_label_def)
  next
    case False
    then have "\<not> key_blocks p" by (simp add: key_blocks_def key_unseen_def)
    moreover have "submit dec now None p =
        (if hp_phase p = Ph_Degraded then (p\<lparr>hp_inFlow := False, hp_phase := Ph_Degraded\<rparr>, None)
         else if hp_phase p = Ph_Empty then (p, None)
         else if holding (hp_phase p)
         then (p\<lparr>hp_dropped := False, hp_queued := Some (trim (hp_addr p)), hp_queuedAt := Some now, hp_phase := Ph_Queued\<rparr>, None)
         else (p\<lparr>hp_sending := True, hp_inFlow := True, hp_touched := False, hp_dropped := False, hp_phase := Ph_Submitting\<rparr>,
            Some (trim (hp_addr p), hp_network p)))"
      unfolding submit_def Let_def using False assms(1,2) by (simp add: assms(3))
    ultimately show ?thesis using base assms(4) by (auto simp: button_disabled_def button_label_def holding_def)
  qed
qed

definition ex_ready_page :: hold_page where
  "ex_ready_page = first_page\<lparr>hp_status := Some ex_half_open, hp_addr := ex_address, hp_phase := Ph_Ready\<rparr>"

theorem button_does_what_it_says_witness:
  "button_label ''1 TAZ'' False ex_ready_page = ''Request '' @ ''1 TAZ'' \<and> \<not> button_disabled ex_ready_page"
proof -
  have ok: "ac_ok (page_check ex_key_decoders (trim (hp_addr ex_ready_page)))" "\<not> hp_sending ex_ready_page"
    "hp_phase ex_ready_page = base_of ex_ready_page" by code_simp+
  have "snd (submit ex_key_decoders 5 None ex_ready_page) = Some (trim (hp_addr ex_ready_page), hp_network ex_ready_page)"
    by code_simp
  then obtain q where "submit ex_key_decoders 5 None ex_ready_page = (q, Some (trim (hp_addr ex_ready_page), hp_network ex_ready_page))"
    by (metis prod.collapse)
  from button_does_what_it_says [OF ok this, of "''1 TAZ''" False] show ?thesis by simp
qed

section \<open>The throwaway address and its key\<close>

text \<open>The answer of \<open>POST /api/account\<close> as the page reads it; a field that is not a string is \<open>None\<close>.\<close>

record account_wire =
  aw_ok :: bool
  aw_address :: "string option"
  aw_secret :: "string option"
  aw_secretLabel :: "string option"
  aw_warning :: "string option"
  aw_error :: "string option"

record gen_key =
  gk_address :: string
  gk_secret :: string
  gk_label :: string
  gk_warning :: string

datatype copy_target = Copy_Txid | Copy_Receipt | Copy_Donation | Copy_Key

text \<open>
  The part of the page around the key. \<open>kp_writing\<close> are the copies under way, each with its target, its text
  and whether its end marks the key as copied; \<open>kp_clipboard\<close> are the texts put on the clipboard, latest first.
\<close>

record key_panel =
  kp_addr :: string
  kp_touched :: bool
  kp_genKey :: "gen_key option"
  kp_keyCopied :: bool
  kp_keyShown :: bool
  kp_genErr :: string
  kp_copied :: "copy_target option"
  kp_writing :: "(copy_target \<times> string \<times> bool) list"
  kp_clipboard :: "string list"

definition no_key :: key_panel where
  "no_key = \<lparr>kp_addr = [], kp_touched = False, kp_genKey = None, kp_keyCopied = False, kp_keyShown = False,
     kp_genErr = [], kp_copied = None, kp_writing = [], kp_clipboard = []\<rparr>"

definition GEN_FAILED :: string where
  "GEN_FAILED = ''Couldn'' @ [CHR 0x27] @ ''t generate an address just now. Paste one from your wallet, or try again.''"
definition GEN_UNREACHED :: string where
  "GEN_UNREACHED = ''Couldn'' @ [CHR 0x27] @ ''t reach the faucet to generate an address. Try again in a moment.''"
definition KEY_WARNING :: string where
  "KEY_WARNING = ''Copy the key now, it isn'' @ [CHR 0x27] @ ''t stored.''"

definition generate_reply :: "decoders \<Rightarrow> account_wire \<Rightarrow> key_panel \<Rightarrow> key_panel" where
  "generate_reply dec d p =
     (case (aw_address d, aw_secret d) of
        (Some generated, Some secret) \<Rightarrow>
          if aw_ok d \<and> ac_ok (page_check dec generated) \<and> secret \<noteq> []
          then p\<lparr>kp_addr := generated, kp_touched := False,
                 kp_genKey := Some \<lparr>gk_address = generated, gk_secret = secret,
                   gk_label = nullish (aw_secretLabel d) ''Spending key (testnet)'',
                   gk_warning = nullish (aw_warning d) KEY_WARNING\<rparr>,
                 kp_keyCopied := False, kp_keyShown := False\<rparr>
          else p\<lparr>kp_genErr := nullish (aw_error d) GEN_FAILED\<rparr>
      | _ \<Rightarrow> p\<lparr>kp_genErr := nullish (aw_error d) GEN_FAILED\<rparr>)"

text \<open>
  \<open>copy\<close>: the clipboard interface, \<open>None\<close> where there is none, writes or is denied; then the hidden text area,
  \<open>None\<close> where that throws.
\<close>

definition copy_done :: "bool option \<Rightarrow> bool option \<Rightarrow> bool" where
  "copy_done api exec = (case api of Some True \<Rightarrow> True | _ \<Rightarrow> exec = Some True)"

datatype key_event =
  Generate_Pressed | Account_Arrives account_wire | Account_Lost
| Copy_Pressed copy_target string bool | Copy_Ends nat "bool option" "bool option" | Mark_Expires | Reveal_Pressed

definition copy_ends :: "nat \<Rightarrow> bool \<Rightarrow> key_panel \<Rightarrow> key_panel" where
  "copy_ends i done p =
     (if length (kp_writing p) \<le> i then p
      else let (what, t, gate) = kp_writing p ! i;
               q = p\<lparr>kp_writing := take i (kp_writing p) @ drop (Suc i) (kp_writing p)\<rparr>
           in if \<not> done then q\<lparr>kp_copied := None\<rparr>
              else q\<lparr>kp_copied := Some what, kp_clipboard := t # kp_clipboard p, kp_keyCopied := (kp_keyCopied p \<or> gate)\<rparr>)"

fun key_step :: "decoders \<Rightarrow> key_panel \<Rightarrow> key_event \<Rightarrow> key_panel" where
  "key_step dec p Generate_Pressed = p\<lparr>kp_genErr := []\<rparr>"
| "key_step dec p (Account_Arrives d) = generate_reply dec d p"
| "key_step dec p Account_Lost = p\<lparr>kp_genErr := GEN_UNREACHED\<rparr>"
| "key_step dec p (Copy_Pressed what t gate) =
     (if what = Copy_Key
      then case kp_genKey p of None \<Rightarrow> p | Some k \<Rightarrow> p\<lparr>kp_writing := kp_writing p @ [(Copy_Key, gk_secret k, gate)]\<rparr>
      else p\<lparr>kp_writing := kp_writing p @ [(what, t, False)]\<rparr>)"
| "key_step dec p (Copy_Ends i api exec) = copy_ends i (copy_done api exec) p"
| "key_step dec p Mark_Expires = p\<lparr>kp_copied := None\<rparr>"
| "key_step dec p Reveal_Pressed = p\<lparr>kp_keyShown := \<not> kp_keyShown p\<rparr>"

definition key_run :: "decoders \<Rightarrow> key_event list \<Rightarrow> key_panel" where
  "key_run dec evs = foldl (key_step dec) no_key evs"

text \<open>No account arrives while a copy is under way.\<close>

fun quiet_keys :: "decoders \<Rightarrow> key_panel \<Rightarrow> key_event list \<Rightarrow> bool" where
  "quiet_keys dec p [] = True"
| "quiet_keys dec p (e # es) =
     ((case e of Account_Arrives d \<Rightarrow> kp_writing p = [] | _ \<Rightarrow> True) \<and> quiet_keys dec (key_step dec p e) es)"

definition key_panel_ok :: "key_panel \<Rightarrow> bool" where
  "key_panel_ok p =
     ((\<forall>(what, t, gate)\<in>set (kp_writing p). gate \<longrightarrow> (\<exists>k. kp_genKey p = Some k \<and> t = gk_secret k))
      \<and> (kp_keyCopied p \<longrightarrow> (\<exists>k. kp_genKey p = Some k \<and> gk_secret k \<in> set (kp_clipboard p))))"

lemma copy_ends_ok:
  assumes "key_panel_ok p"
  shows "key_panel_ok (copy_ends i done p)"
proof (cases "length (kp_writing p) \<le> i")
  case False
  then have i: "i < length (kp_writing p)" by simp
  obtain what t gate where w: "kp_writing p ! i = (what, t, gate)" by (cases "kp_writing p ! i")
  have mem: "(what, t, gate) \<in> set (kp_writing p)" using i w nth_mem by metis
  have sub: "set (take i (kp_writing p) @ drop (Suc i) (kp_writing p)) \<subseteq> set (kp_writing p)"
    using set_take_subset set_drop_subset by fastforce
  have rest: "\<forall>(what, t, gate)\<in>set (take i (kp_writing p) @ drop (Suc i) (kp_writing p)).
      gate \<longrightarrow> (\<exists>k. kp_genKey p = Some k \<and> t = gk_secret k)"
    using assms sub unfolding key_panel_ok_def by blast
  have gated: "gate \<Longrightarrow> \<exists>k. kp_genKey p = Some k \<and> t = gk_secret k" using assms mem unfolding key_panel_ok_def by blast
  have copied: "kp_keyCopied p \<Longrightarrow> \<exists>k. kp_genKey p = Some k \<and> gk_secret k \<in> set (kp_clipboard p)"
    using assms unfolding key_panel_ok_def by blast
  show ?thesis
  proof (cases "done")
    case True
    then have "copy_ends i done p = p\<lparr>kp_writing := take i (kp_writing p) @ drop (Suc i) (kp_writing p), kp_copied := Some what,
        kp_clipboard := t # kp_clipboard p, kp_keyCopied := (kp_keyCopied p \<or> gate)\<rparr>"
      using False by (simp add: copy_ends_def w)
    then show ?thesis unfolding key_panel_ok_def using rest gated copied by auto
  next
    case no: False
    then have "copy_ends i done p = p\<lparr>kp_writing := take i (kp_writing p) @ drop (Suc i) (kp_writing p), kp_copied := None\<rparr>"
      using False by (simp add: copy_ends_def w)
    then show ?thesis unfolding key_panel_ok_def using rest copied by simp
  qed
qed (simp add: copy_ends_def assms)

lemma key_step_ok:
  assumes "key_panel_ok p" and "case e of Account_Arrives d \<Rightarrow> kp_writing p = [] | _ \<Rightarrow> True"
  shows "key_panel_ok (key_step dec p e)"
proof (cases e)
  case (Copy_Ends i api exec)
  then show ?thesis using assms(1) copy_ends_ok by simp
qed (use assms in \<open>auto simp: key_panel_ok_def generate_reply_def split: option.splits if_splits\<close>)

lemma key_run_ok: "key_panel_ok p \<Longrightarrow> quiet_keys dec p evs \<Longrightarrow> key_panel_ok (foldl (key_step dec) p evs)"
  by (induction evs arbitrary: p) (simp_all add: key_step_ok)

text \<open>
  the gate on a throwaway key. As long as no account arrives while a copy is under way, a key counts as
  copied only when that very key was put on the clipboard: the request button opens for a generated address
  only after its key was copied or revealed.
\<close>

theorem copied_key_is_on_the_clipboard:
  assumes "quiet_keys dec no_key evs" and "kp_keyCopied (key_run dec evs)"
  shows "\<exists>k. kp_genKey (key_run dec evs) = Some k \<and> gk_secret k \<in> set (kp_clipboard (key_run dec evs))"
proof -
  have "key_panel_ok no_key" by (simp add: key_panel_ok_def no_key_def)
  then show ?thesis using key_run_ok [OF _ assms(1)] assms(2) by (simp add: key_panel_ok_def key_run_def)
qed

definition ex_account :: "string \<Rightarrow> account_wire" where
  "ex_account secret = \<lparr>aw_ok = True, aw_address = Some ex_address, aw_secret = Some secret, aw_secretLabel = None,
     aw_warning = None, aw_error = None\<rparr>"

theorem copied_key_is_on_the_clipboard_witness:
  "\<exists>k. kp_genKey (key_run ex_key_decoders [Generate_Pressed, Account_Arrives (ex_account ''k1''), Copy_Pressed Copy_Key [] True,
       Copy_Ends 0 (Some False) (Some True)]) = Some k
     \<and> gk_secret k \<in> set (kp_clipboard (key_run ex_key_decoders [Generate_Pressed, Account_Arrives (ex_account ''k1''),
         Copy_Pressed Copy_Key [] True, Copy_Ends 0 (Some False) (Some True)]))"
  by (rule copied_key_is_on_the_clipboard) code_simp+

text \<open>
  Outside that, a late copy opens the gate for a key nobody has seen: two accounts asked for by a double press,
  the first key's copy waiting for the reader's permission when the second account arrives.
\<close>

definition ex_late_copy :: "key_event list" where
  "ex_late_copy = [Generate_Pressed, Generate_Pressed, Account_Arrives (ex_account ''k1''), Copy_Pressed Copy_Key [] True,
     Account_Arrives (ex_account ''k2''), Copy_Ends 0 (Some True) None]"

lemma late_copy_opens_the_gate:
  "kp_keyCopied (key_run ex_key_decoders ex_late_copy)
   \<and> map_option gk_secret (kp_genKey (key_run ex_key_decoders ex_late_copy)) = Some ''k2''
   \<and> kp_clipboard (key_run ex_key_decoders ex_late_copy) = [''k1'']"
  by code_simp

end
