(* ===== verification/Cards.thy ===== *)
theory Cards
  imports Status_View Sparkline
begin

text \<open>
  The three places that show the status: the chips of the hero (\<open>components/HeroChips.tsx\<close>), the cards of the
  Status view (\<open>components/StatusCards.tsx\<close>) and of the Analytics view (\<open>components/AnalyticsCards.tsx\<close>), as the
  texts and tones they show, and the masthead's figures (\<open>components/Shell.tsx\<close>). The words of the reserve, the
  miner and the heights are those of \<open>Status_View\<close>. A canvas is its spoken label; text outside ASCII is its
  bytes.
\<close>

section \<open>The status as the views read it (viewStatus.ts)\<close>

record drips_view =
  dv_allTime :: "rat option"
  dv_last7d :: "rat option"
  dv_last30d :: "rat option"
  dv_byDay :: "drip_day list"
  dv_countingSince :: "utc_day option"

record node_view =
  nv_ready :: bool
  nv_syncPercent :: "rat option"
  nv_nodeHeight :: "rat option"
  nv_externalHeight :: "rat option"

record view_status =
  vw_dripTaz :: rat
  vw_balanceTaz :: "rat option"
  vw_drips :: "drips_view option"
  vw_reachable :: bool
  vw_endpoint :: string
  vw_node :: "node_view option"
  vw_miner :: "miner_wire option"
  vw_templateAgo :: "rat option"
  vw_beatAgo :: "rat option"
  vw_solved :: "rat option"
  vw_accepted :: "rat option"
  vw_rejected :: "rat option"
  vw_minerUnit :: "string option"
  vw_boxState :: "string option"
  vw_sends :: "(string \<times> string) option"
  vw_reserve :: "reserve_view option"
  vw_ctaz :: "(bool option \<times> bool option) option"

definition UNKNOWN :: string where "UNKNOWN = ''unknown''"

text \<open>A field of a status that may not have come: \<open>status?.x\<close>.\<close>

definition of_status :: "view_status option \<Rightarrow> (view_status \<Rightarrow> 'a option) \<Rightarrow> 'a option" where
  "of_status s field' = Option.bind s field'"

definition node_field :: "view_status option \<Rightarrow> (node_view \<Rightarrow> 'a option) \<Rightarrow> 'a option" where
  "node_field s field' = Option.bind (of_status s vw_node) field'"

definition reserve_field :: "view_status option \<Rightarrow> (reserve_view \<Rightarrow> 'a option) \<Rightarrow> 'a option" where
  "reserve_field s field' = Option.bind (of_status s vw_reserve) field'"

definition drips_field :: "view_status option \<Rightarrow> (drips_view \<Rightarrow> 'a option) \<Rightarrow> 'a option" where
  "drips_field s field' = Option.bind (of_status s vw_drips) field'"

definition heights_apart :: "view_status option \<Rightarrow> rat option" where
  "heights_apart s = height_diff (node_field s nv_nodeHeight) (node_field s nv_externalHeight)"

definition node_ready :: "view_status option \<Rightarrow> bool" where
  "node_ready s = nullish (map_option nv_ready (of_status s vw_node)) False"

section \<open>The chips of the hero\<close>

text \<open>A chip by its name, its tone and the bold figures in it.\<close>

record chip =
  ch_name :: string
  ch_tone :: tone
  ch_figures :: "string list"

definition some_text :: "'a option \<Rightarrow> ('a \<Rightarrow> string) \<Rightarrow> string list" where
  "some_text x f = (case x of None \<Rightarrow> [] | Some v \<Rightarrow> [f v])"

definition whole_taz :: "rat \<Rightarrow> string" where
  "whole_taz b = group_digits (of_int (math_round b)) @ '' TAZ''"

definition hero_chips :: "view_status option \<Rightarrow> chip list" where
  "hero_chips s =
     [\<lparr>ch_name = ''wallet'', ch_tone = reserve_tone (of_status s vw_reserve),
       ch_figures = some_text (of_status s vw_balanceTaz) whole_taz\<rparr>,
      \<lparr>ch_name = ''node'', ch_tone = node_chip_tone (map_option nv_ready (of_status s vw_node)),
       ch_figures = some_text (node_field s nv_nodeHeight) group_digits
         @ (case height_diff_chip (heights_apart s) of None \<Rightarrow> [] | Some t \<Rightarrow> [t])\<rparr>,
      \<lparr>ch_name = ''miner'',
       ch_tone = (case s of None \<Rightarrow> Tone_Unknown | Some v \<Rightarrow> miner_tone (vw_miner v) (vw_minerUnit v)),
       ch_figures = (case s of None \<Rightarrow> [] | Some v \<Rightarrow> [miner_word (vw_miner v) (vw_minerUnit v)])\<rparr>]
     @ (if of_status s vw_boxState = Some ''attention''
        then [\<lparr>ch_name = ''box'', ch_tone = box_tone (of_status s vw_boxState), ch_figures = [''OPS ATTENTION'']\<rparr>] else [])"

definition ARROW :: string where "ARROW = [CHR 0xE2, CHR 0x86, CHR 0x92]"

definition usage_link :: "view_status option \<Rightarrow> string" where
  "usage_link s =
     (case drips_field s dv_last7d of
        None \<Rightarrow> ''Usage analytics '' @ ARROW
      | Some week \<Rightarrow> group_digits week @ '' drips this week. Usage analytics '' @ ARROW)"

section \<open>The masthead\<close>

definition DASH :: string where "DASH = [CHR 0xE2, CHR 0x80, CHR 0x93]"

definition shell_num :: "rat option \<Rightarrow> string" where
  "shell_num n = (case n of None \<Rightarrow> DASH | Some v \<Rightarrow> locale_text v)"

text \<open>The theme the store holds wins when it is one of the two.\<close>

datatype theme = Paper | Ink

definition stored_theme :: "string option \<Rightarrow> theme" where
  "stored_theme stored = (if stored = Some ''ink'' then Ink else Paper)"

definition toggle_theme :: "theme \<Rightarrow> theme" where
  "toggle_theme t = (if t = Ink then Paper else Ink)"

definition theme_text :: "theme \<Rightarrow> string" where
  "theme_text t = (case t of Paper \<Rightarrow> ''paper'' | Ink \<Rightarrow> ''ink'')"

section \<open>The Status view\<close>

definition or_unknown :: "string option \<Rightarrow> string" where
  "or_unknown t = nullish t UNKNOWN"

text \<open>The rows of the three cards by their label and text; \<open>net\<close> is the network of the claim view.\<close>

definition node_card :: "view_status option \<Rightarrow> (string \<times> string) list" where
  "node_card s =
     (let height = or_unknown (map_option group_digits (node_field s nv_nodeHeight))
      in [(''Node height'', height),
          (''delta'', height_delta_text (heights_apart s)),
          (''Sync'', nullish (sync_figure (node_field s nv_syncPercent) (node_ready s)) []),
          (''Our height'', height),
          (''Independent reference'', or_unknown (map_option group_digits (node_field s nv_externalHeight))),
          (''Backend'', nullish (backend_host (map_option vw_endpoint s)) [])])"

text \<open>\<open>aria-valuenow\<close> and the width of the bar.\<close>

definition sync_meter :: "view_status option \<Rightarrow> rat option \<times> rat" where
  "sync_meter s =
     (let p = sync_bar_percent (node_field s nv_syncPercent) (node_ready s)
      in (if node_field s nv_syncPercent = None then None else Some p, p))"

definition wallet_card :: "view_status option \<Rightarrow> network \<Rightarrow> (string \<times> string) list" where
  "wallet_card s net =
     [(''Wallet'', or_unknown (map_option whole_taz (of_status s vw_balanceTaz))),
      (''delta'', nullish (drips_left_text (reserve_field s rw_spendableTaz) (nullish (map_option vw_dripTaz s) 0)) []),
      (''Spendable'', or_unknown (map_option whole_taz (reserve_field s rw_spendableTaz))),
      (''Reserve line'', or_unknown (map_option (\<lambda>t. group_digits t @ '' TAZ'') (reserve_field s rw_targetTaz))
         @ MIDDLE_DOT @ ''low '' @ or_unknown (map_option (\<lambda>t. group_digits t @ '' TAZ'') (reserve_field s rw_lowTaz))),
      (''Drip'', or_unknown (map_option (\<lambda>v. number_text (vw_dripTaz v)) s) @ '' TAZ'' @ MIDDLE_DOT @ ''24h cooldown'')]
     @ (if net = Ctaz then [(''cTAZ'', ctaz_word (of_status s vw_ctaz))] else [])"

definition operations_card :: "view_status option \<Rightarrow> (string \<times> string) list" where
  "operations_card s =
     (let miner = miner_word (of_status s vw_miner) (of_status s vw_minerUnit);
          sends = of_status s vw_sends;
          counted = (\<lambda>x. or_unknown (map_option number_text x))
      in [(''Blocks accepted by our node'', or_unknown (map_option group_digits (of_status s vw_accepted))),
          (''delta'', accept_sentence (of_status s vw_accepted) (of_status s vw_rejected)),
          (''Miner'', miner @ (case of_status s vw_templateAgo of None \<Rightarrow> []
             | Some a \<Rightarrow> MIDDLE_DOT @ ''template '' @ number_text a @ ''s'')),
          (''Solved / accepted / rejected'', counted (of_status s vw_solved) @ '' / '' @ counted (of_status s vw_accepted)
             @ '' / '' @ counted (of_status s vw_rejected)),
          (''Sends'', or_unknown (map_option fst sends) @ (case sends of None \<Rightarrow> []
             | Some (st, reason) \<Rightarrow> if reason = [] then [] else MIDDLE_DOT @ reason)),
          (''Box'', or_unknown (of_status s vw_boxState))])"

definition card_tones :: "view_status option \<Rightarrow> (string \<times> tone) list" where
  "card_tones s =
     [(''height'', height_tone (heights_apart s)), (''wallet'', reserve_tone (of_status s vw_reserve)),
      (''miner'', miner_tone (of_status s vw_miner) (of_status s vw_minerUnit)),
      (''sends'', sends_tone (map_option fst (of_status s vw_sends))), (''box'', box_tone (of_status s vw_boxState))]"

section \<open>The Analytics view\<close>

text \<open>\<open>Figs\<close>: the figures that are known, \<open>None\<close> for the sentence that none is reported. \<open>said\<close>: the parts that are known.\<close>

definition figs :: "(string \<times> string option) list \<Rightarrow> (string \<times> string) list option" where
  "figs items =
     (let known = List.map_filter (\<lambda>(l, v). map_option (Pair l) v) items in if known = [] then None else Some known)"

definition said :: "string option list \<Rightarrow> string" where
  "said parts = join_with '', '' (List.map_filter (\<lambda>x. x) parts)"

definition series_of :: "view_status option \<Rightarrow> drip_day list" where
  "series_of s = nullish (map_option dv_byDay (of_status s vw_drips)) []"

definition drips_chart_label :: "view_status option \<Rightarrow> string" where
  "drips_chart_label s =
     (let series = series_of s; since = drips_field s dv_countingSince; uncounted = spark_uncounted_days series since
      in if series = [] then ''Drips per day for the last 30 days. The series is not available.''
         else ''Drips per day for the last 30 days. ''
           @ said [map_option (\<lambda>n. group_digits n @ '' drips in 30 days'') (drips_field s dv_last30d),
                   map_option (\<lambda>n. group_digits n @ '' this week'') (drips_field s dv_last7d),
                   map_option (\<lambda>n. ''mean '' @ to_fixed 1 (double_of (n / 7)) @ '' per day over 7 days'') (drips_field s dv_last7d),
                   Some (''busiest day '' @ show_int (bar_max series since)),
                   map_option (\<lambda>n. show_int n @ '' today'') (spark_today series)]
           @ ''.'' @ (if 0 < uncounted then '' '' @ show_int (int uncounted)
                @ '' of the 30 days are before counting began and are not plotted.'' else []))"

definition drips_figs :: "view_status option \<Rightarrow> (string \<times> string) list option" where
  "drips_figs s =
     figs [(''this week'', map_option group_digits (drips_field s dv_last7d)),
           (''30 days'', map_option group_digits (drips_field s dv_last30d)),
           (''counted'', map_option group_digits (drips_field s dv_allTime))]"

text \<open>The tip over bar \<open>i\<close>; \<open>day_text\<close> writes a date.\<close>

definition drips_tip :: "(utc_day \<Rightarrow> string) \<Rightarrow> view_status option \<Rightarrow> nat option \<Rightarrow> string" where
  "drips_tip day_text s hover =
     (case hover of None \<Rightarrow> []
      | Some i \<Rightarrow>
          let series = series_of s in
          if length series \<le> i then
            (if drips_field s dv_countingSince = None then ''0 on '' else ''not counted on '')
          else if is_uncounted (fst (series ! i)) (drips_field s dv_countingSince)
          then ''not counted on '' @ day_text (fst (series ! i))
          else show_int (snd (series ! i)) @ '' on '' @ day_text (fst (series ! i)))"

definition reserve_chart_label :: "view_status option \<Rightarrow> string" where
  "reserve_chart_label s =
     (case reserve_field s rw_spendableTaz of
        None \<Rightarrow> ''Wallet reserve. The spendable balance is unknown right now.''
      | Some b \<Rightarrow> ''Wallet reserve. ''
          @ said [Some (whole_taz b @ '' spendable''),
                  map_option (\<lambda>l. ''low mark '' @ group_digits l) (reserve_field s rw_lowTaz),
                  map_option (\<lambda>t. ''target '' @ group_digits t) (reserve_field s rw_targetTaz)]
          @ ''.'' @ (if reserve_field s rw_refilling = Some True then '' Topping up.'' else []))"

definition reserve_figs :: "view_status option \<Rightarrow> (string \<times> string) list option" where
  "reserve_figs s =
     figs [(''spendable'', map_option (\<lambda>b. group_digits (of_int (math_round b))) (reserve_field s rw_spendableTaz)),
           (''low'', map_option group_digits (reserve_field s rw_lowTaz)),
           (''target'', map_option group_digits (reserve_field s rw_targetTaz))]"

definition analytics_reserve_tone :: "view_status option \<Rightarrow> tone" where
  "analytics_reserve_tone s = reserve_chip_tone (reserve_word (of_status s vw_reserve))"

definition miner_legend :: "view_status option \<Rightarrow> string list" where
  "miner_legend s =
     some_text (of_status s vw_accepted) (\<lambda>n. ''accepted '' @ group_digits n)
     @ some_text (of_status s vw_rejected) (\<lambda>n. ''rejected '' @ group_digits n)"

definition miner_segments :: "view_status option \<Rightarrow> (rat \<times> string) list" where
  "miner_segments s = [(nullish (of_status s vw_accepted) 0, ''--orange''), (nullish (of_status s vw_rejected) 0, ''--bar-soft'')]"

definition miner_figs :: "view_status option \<Rightarrow> (string \<times> string) list option" where
  "miner_figs s =
     figs [(''template age'', map_option (\<lambda>a. number_text a @ ''s'') (of_status s vw_templateAgo)),
           (''last beat'', map_option (\<lambda>a. number_text a @ ''s'') (of_status s vw_beatAgo)),
           (''solved'', map_option group_digits (of_status s vw_solved))]"

definition network_figs :: "view_status option \<Rightarrow> (string \<times> string) list" where
  "network_figs s =
     List.map_filter (\<lambda>(l, v). map_option (Pair l) v)
       [(''our height'', map_option group_digits (node_field s nv_nodeHeight)),
        (''independent reference'', map_option group_digits (node_field s nv_externalHeight)),
        (''difference'', map_option (\<lambda>d. signed_text d @ height_note (Some d)) (heights_apart s)),
        (''sync'', sync_figure (node_field s nv_syncPercent) (node_ready s)),
        (''backend'', backend_host (map_option vw_endpoint s))]"

section \<open>The views agree\<close>

lemma known_items: "set (List.map_filter (\<lambda>(l, v). map_option (Pair l) v) items) = {(l, t). (l, Some t) \<in> set items}"
  by (induction items) (auto simp: map_filter_simps split: option.splits)

lemma figs_known: "figs items = Some known \<Longrightarrow> (l, t) \<in> set known \<longleftrightarrow> (l, Some t) \<in> set items"
  using known_items [of items] by (auto simp: figs_def Let_def split: if_splits)

definition chip_named :: "string \<Rightarrow> view_status option \<Rightarrow> chip option" where
  "chip_named n s = find (\<lambda>c. ch_name c = n) (hero_chips s)"

lemma chips:
  "chip_named ''wallet'' s = Some \<lparr>ch_name = ''wallet'', ch_tone = reserve_tone (of_status s vw_reserve),
     ch_figures = some_text (of_status s vw_balanceTaz) whole_taz\<rparr>"
  "map_option ch_figures (chip_named ''node'' s) = Some (some_text (node_field s nv_nodeHeight) group_digits
     @ (case height_diff_chip (heights_apart s) of None \<Rightarrow> [] | Some t \<Rightarrow> [t]))"
  "map_option ch_tone (chip_named ''miner'' s)
     = Some (case s of None \<Rightarrow> Tone_Unknown | Some v \<Rightarrow> miner_tone (vw_miner v) (vw_minerUnit v))"
  "chip_named ''box'' s = None \<longleftrightarrow> of_status s vw_boxState \<noteq> Some ''attention''"
  by (simp_all add: chip_named_def hero_chips_def)

lemma card_entries:
  "map_of (node_card s) ''Our height'' = Some (or_unknown (map_option group_digits (node_field s nv_nodeHeight)))"
  "map_of (network_figs s) ''our height'' = map_option group_digits (node_field s nv_nodeHeight)"
  "map_of (network_figs s) ''difference'' = map_option (\<lambda>d. signed_text d @ height_note (Some d)) (heights_apart s)"
  by (simp_all add: node_card_def Let_def network_figs_def map_filter_simps split: option.split)

text \<open>
  one height, one text. Whatever has come of the status, the height of our node is the same text in the
  chip of the hero, on the Status card and on the Analytics card, and where it is not known the first and the
  last leave it out and the card says unknown; the three difference figures are there exactly when both heights
  are; and the chips of the wallet, the miner and the box have the tone their card has.
\<close>

theorem views_agree:
  "(case node_field s nv_nodeHeight of
      Some h \<Rightarrow> map_of (node_card s) ''Our height'' = Some (group_digits h)
        \<and> map_of (network_figs s) ''our height'' = Some (group_digits h)
        \<and> hd (ch_figures (the (chip_named ''node'' s))) = group_digits h
    | None \<Rightarrow> map_of (node_card s) ''Our height'' = Some UNKNOWN \<and> map_of (network_figs s) ''our height'' = None
        \<and> ch_figures (the (chip_named ''node'' s)) = [])
   \<and> (map_of (network_figs s) ''difference'' = None \<longleftrightarrow> node_field s nv_nodeHeight = None \<or> node_field s nv_externalHeight = None)
   \<and> map_option ch_tone (chip_named ''wallet'' s) = map_of (card_tones s) ''wallet''
   \<and> map_option ch_tone (chip_named ''miner'' s) = map_of (card_tones s) ''miner''
   \<and> (chip_named ''box'' s = None \<longleftrightarrow> map_of (card_tones s) ''box'' \<noteq> Some Tone_Warn)"
proof -
  have node: "ch_figures (the (chip_named ''node'' s)) = some_text (node_field s nv_nodeHeight) group_digits
      @ (case height_diff_chip (heights_apart s) of None \<Rightarrow> [] | Some t \<Rightarrow> [t])"
    using chips(2) [of s] by (cases "chip_named ''node'' s") simp_all
  have no_miner: "miner_tone None None = Tone_Unknown" by code_simp
  have miner: "map_option ch_tone (chip_named ''miner'' s) = map_of (card_tones s) ''miner''"
    by (cases s) (simp_all add: chips(3) card_tones_def of_status_def no_miner)
  show ?thesis
    unfolding node card_entries chips(4)
    by (intro conjI miner)
       (auto simp: chips(1) card_tones_def heights_apart_def height_diff_def height_diff_chip_def some_text_def or_unknown_def
         box_tone_def split: option.splits)
qed

text \<open>
  The tag of the reserve on the Analytics view is not the tone of the wallet chip: the two disagree while the
  reserve tops up and whenever the balance lies between the low mark and the target.
\<close>

lemma reserve_tones_disagree:
  "analytics_reserve_tone s \<noteq> reserve_tone (of_status s vw_reserve) \<longleftrightarrow>
     (if reserve_field s rw_refilling = Some True
      then reserve_tone (of_status s vw_reserve) \<in> {Tone_Ok, Tone_Bad}
      else reserve_tone (of_status s vw_reserve) = Tone_Warn)"
  by (cases "reserve_tone (of_status s vw_reserve)")
     (simp_all add: analytics_reserve_tone_def reserve_word_def reserve_chip_tone_def reserve_field_def)

text \<open>
  A month in which no drip was served is spoken as one whose busiest day had one: the label takes the scale of
  the chart, which is at least one.
\<close>

lemma idle_month_has_a_busiest_day:
  assumes "\<forall>d\<in>set (series_of s). snd d = 0"
  shows "bar_max (series_of s) since = 1"
proof -
  have "foldl max 1 ns = (1 :: int)" if "\<forall>n\<in>set ns. n = 0" for ns
    using that by (induction ns) simp_all
  then show ?thesis using assms by (auto simp: bar_max_def)
qed

text \<open>Before the first status nothing is stated: no chip has a figure, no card a number.\<close>

lemma first_paint_states_nothing:
  "map ch_figures (hero_chips None) = [[], [], []] \<and> network_figs None = [] \<and> drips_figs None = None
   \<and> reserve_figs None = None \<and> miner_figs None = None \<and> miner_legend None = []
   \<and> map snd (take 1 (node_card None) @ take 1 (wallet_card None net) @ take 1 (operations_card None)) = [UNKNOWN, UNKNOWN, UNKNOWN]"
  by (simp add: hero_chips_def network_figs_def drips_figs_def reserve_figs_def miner_figs_def miner_legend_def figs_def
      some_text_def of_status_def node_field_def reserve_field_def drips_field_def map_filter_simps heights_apart_def
      height_diff_def height_diff_chip_def node_card_def wallet_card_def operations_card_def or_unknown_def sync_figure_def
      backend_host_def Let_def)

lemma toggle_theme_twice: "toggle_theme (toggle_theme t) = t" "stored_theme (Some (theme_text t)) = t"
  by (cases t; simp add: toggle_theme_def stored_theme_def theme_text_def)+

end
